(* ===== verification/Hub_Prelude.thy ===== *)
theory Hub_Prelude
  imports Main "HOL-Library.AList" "HOL-Library.Word" "HOL-Library.Signed_Division"
begin

text \<open>
  What every component of the hub's model shares: the model's base types, Go's 64-bit integers,
  the hub's times, error results, and SQL tables with a primary key as association lists.

  \<^item> A Go \<open>string\<close> is a \<open>string\<close> of bytes, a \<open>[]byte\<close> a list of 8-bit words.
  \<^item> An \<open>int64\<close> is an \<open>int\<close>; where an expression of the source can leave the range of the
    type, the two's complement wrap is written out (\<open>wrap64\<close>). A wire amount (\<open>uint64\<close>) is a
    64-bit word.
  \<^item> A \<open>time.Time\<close> is the \<open>int\<close> of its nanoseconds since the Unix epoch, UTC. The ledger's text
    stamps (\<open>ledgerStamp\<close>, nine fractional digits, fixed width) compare as text the way those
    numbers compare, and a stored stamp is that number.
  \<^item> A table with a primary key is an association list whose keys are distinct: \<open>AList.update\<close>
    is the upsert, \<open>AList.delete\<close> the deletion by key, \<open>row_or\<close> is \<open>COALESCE\<close> of a lookup and
    \<open>col_sum\<close> the \<open>SUM\<close> of a column.
  \<^item> SQLite and the operating system are taken to answer: a statement fails where a constraint of
    the schema makes it fail, and not for a full disk or a busy database. Every transaction of the
    source that returns an error before \<open>Commit\<close> is rolled back; in the model the operation
    returns \<open>Inl\<close> and no state.
\<close>

section \<open>Base types\<close>

type_synonym aid = string
type_synonym bytes = "8 word list"
type_synonym u64 = "64 word"
type_synonym time_ns = int
type_synonym millis = int
type_synonym ('k, 'v) table = "('k \<times> 'v) list"

named_theorems int64_simps \<open>facts that remove the wrap-around from an in-range expression\<close>
named_theorems table_simps \<open>lookups, sums and filters of updated tables\<close>

section \<open>Go's int64\<close>

definition max_int64 :: int where
  "max_int64 = 9223372036854775807"

definition min_int64 :: int where
  "min_int64 = - 9223372036854775808"

definition in_int64 :: "int \<Rightarrow> bool" where
  "in_int64 n \<longleftrightarrow> min_int64 \<le> n \<and> n \<le> max_int64"

definition wrap64 :: "int \<Rightarrow> int" where
  "wrap64 n = (n + 9223372036854775808) mod 18446744073709551616 - 9223372036854775808"

lemma in_int64_wrap64: "in_int64 (wrap64 n)"
  by (simp add: in_int64_def wrap64_def min_int64_def max_int64_def)

lemma wrap64_id [int64_simps]: "in_int64 n \<Longrightarrow> wrap64 n = n"
  by (simp add: in_int64_def wrap64_def min_int64_def max_int64_def)

lemma max_int64_pos [simp]: "0 < max_int64" "0 \<le> max_int64" "1 \<le> max_int64"
  by (simp_all add: max_int64_def)

lemma min_int64_max: "min_int64 = - max_int64 - 1"
  by (simp add: min_int64_def max_int64_def)

text \<open>Go's signed division truncates towards zero.\<close>

definition go_div :: "int \<Rightarrow> int \<Rightarrow> int" where
  "go_div a b = a sdiv b"

lemma go_div_nonneg [int64_simps]: "0 \<le> a \<Longrightarrow> 0 < b \<Longrightarrow> go_div a b = a div b"
  by (cases "a = 0") (simp_all add: go_div_def signed_divide_int_def)

section \<open>Times\<close>

definition ms_ns :: int where "ms_ns = 1000000"
definition second_ns :: int where "second_ns = 1000000000"
definition minute_ns :: int where "minute_ns = 60 * second_ns"
definition hour_ns :: int where "hour_ns = 3600 * second_ns"
definition day_ns :: int where "day_ns = 24 * hour_ns"
definition day_ms :: int where "day_ms = 86400000"

lemmas time_defs = ms_ns_def second_ns_def minute_ns_def hour_ns_def day_ns_def day_ms_def

text \<open>\<open>time.Time.UnixMilli\<close>: the milliseconds, rounded down.\<close>

definition unix_milli :: "time_ns \<Rightarrow> millis" where
  "unix_milli t = t div ms_ns"

lemma unix_milli_mono: "s \<le> t \<Longrightarrow> unix_milli s \<le> unix_milli t"
  by (simp add: unix_milli_def ms_ns_def zdiv_mono1)

lemma unix_milli_minus [simp]: "unix_milli (t - k * 1000000) = unix_milli t - k"
proof -
  have "(t - k * 1000000) div 1000000 = (t + (- k) * 1000000) div 1000000" by simp
  also have "\<dots> = - k + t div 1000000" by (rule div_mult_self1) simp
  finally show ?thesis by (simp add: unix_milli_def ms_ns_def)
qed

section \<open>Results\<close>

text \<open>\<open>Inl\<close> is an error return of the source, \<open>Inr\<close> a value; \<open>rbind\<close> is \<open>if err != nil { return err }\<close>.\<close>

definition rbind :: "'e + 'a \<Rightarrow> ('a \<Rightarrow> 'e + 'b) \<Rightarrow> 'e + 'b" where
  "rbind m f = (case m of Inl e \<Rightarrow> Inl e | Inr x \<Rightarrow> f x)"

lemma rbind_simps [simp]: "rbind (Inl e) f = Inl e" "rbind (Inr x) f = f x"
  by (simp_all add: rbind_def)

lemma rbind_eq_Inr: "rbind m f = Inr y \<longleftrightarrow> (\<exists>x. m = Inr x \<and> f x = Inr y)"
  by (cases m) simp_all

lemma rbind_eq_Inl: "rbind m f = Inl e \<longleftrightarrow> m = Inl e \<or> (\<exists>x. m = Inr x \<and> f x = Inl e)"
  by (cases m) simp_all

text \<open>A transaction: commit the new state, or roll back to the old one.\<close>

definition committed_or :: "'s \<Rightarrow> 'e + 's \<Rightarrow> 's" where
  "committed_or s r = (case r of Inl e \<Rightarrow> s | Inr s' \<Rightarrow> s')"

lemma committed_or_simps [simp]: "committed_or s (Inl e) = s" "committed_or s (Inr t) = t"
  by (simp_all add: committed_or_def)

section \<open>Tables\<close>

definition row_or :: "('k, 'v) table \<Rightarrow> 'k \<Rightarrow> 'v \<Rightarrow> 'v" where
  "row_or t k d = (case map_of t k of None \<Rightarrow> d | Some v \<Rightarrow> v)"

definition keys_ok :: "('k, 'v) table \<Rightarrow> bool" where
  "keys_ok t \<longleftrightarrow> distinct (map fst t)"

definition has_key :: "('k, 'v) table \<Rightarrow> 'k \<Rightarrow> bool" where
  "has_key t k \<longleftrightarrow> map_of t k \<noteq> None"

definition col_sum :: "('k, int) table \<Rightarrow> int" where
  "col_sum t = sum_list (map snd t)"

lemma keys_ok_Nil [simp, intro]: "keys_ok []"
  by (simp add: keys_ok_def)

lemma keys_ok_update [simp, intro]: "keys_ok t \<Longrightarrow> keys_ok (AList.update k v t)"
  by (simp add: keys_ok_def distinct_update)

lemma keys_ok_delete [simp, intro]: "keys_ok t \<Longrightarrow> keys_ok (AList.delete k t)"
  by (simp add: keys_ok_def distinct_delete)

lemma keys_ok_filter [simp, intro]: "keys_ok t \<Longrightarrow> keys_ok (filter P t)"
  by (simp add: keys_ok_def distinct_map_filter)

lemma map_of_update_eq [table_simps]:
  "map_of (AList.update k v t) j = (if j = k then Some v else map_of t j)"
  by (simp add: update_conv')

lemma row_or_update [table_simps]:
  "row_or (AList.update k v t) j d = (if j = k then v else row_or t j d)"
  by (simp add: row_or_def map_of_update_eq)

lemma has_key_update [table_simps]: "has_key (AList.update k v t) j \<longleftrightarrow> j = k \<or> has_key t j"
  by (simp add: has_key_def map_of_update_eq)

lemma row_or_delete: "row_or (AList.delete k t) j d = (if j = k then d else row_or t j d)"
  by (auto simp: row_or_def delete_conv')

lemma has_key_delete [table_simps]: "has_key (AList.delete k t) j \<longleftrightarrow> j \<noteq> k \<and> has_key t j"
  by (simp add: has_key_def delete_conv')

lemma map_of_filter_keys:
  "keys_ok t \<Longrightarrow> map_of (filter (\<lambda>(k, v). P k v) t) k =
    (case map_of t k of None \<Rightarrow> None | Some v \<Rightarrow> if P k v then Some v else None)"
proof (induction t)
  case Nil
  then show ?case by simp
next
  case (Cons a t)
  obtain k' v' where a: "a = (k', v')" by force
  from Cons.prems have "keys_ok t" and nin: "k' \<notin> fst ` set t"
    by (auto simp: keys_ok_def a)
  then have IH: "map_of (filter (\<lambda>(k, v). P k v) t) k =
      (case map_of t k of None \<Rightarrow> None | Some v \<Rightarrow> if P k v then Some v else None)"
    using Cons.IH by blast
  from nin have "map_of t k' = None" by (simp add: map_of_eq_None_iff)
  with IH show ?case by (auto simp: a)
qed

lemma col_sum_simps [simp]: "col_sum [] = 0" "col_sum ((k, v) # t) = v + col_sum t"
  by (simp_all add: col_sum_def)

lemma row_or_simps [simp]:
  "row_or [] k d = d" "row_or ((j, v) # t) k d = (if k = j then v else row_or t k d)"
  by (simp_all add: row_or_def)

lemma row_or_not_key: "k \<notin> fst ` set t \<Longrightarrow> row_or t k d = d"
  by (simp add: row_or_def map_of_eq_None_iff [symmetric] split: option.split)

lemma update_not_key: "k \<notin> fst ` set t \<Longrightarrow> AList.update k v t = t @ [(k, v)]"
  by (induction t) auto

lemma col_sum_append [simp]: "col_sum (s @ t) = col_sum s + col_sum t"
  by (simp add: col_sum_def)

lemma col_sum_update [table_simps]:
  "keys_ok t \<Longrightarrow> col_sum (AList.update k v t) = col_sum t - row_or t k 0 + v"
proof (induction t)
  case Nil
  then show ?case by simp
next
  case (Cons a t)
  obtain k' v' where a: "a = (k', v')" by force
  with Cons.prems have "keys_ok t" and nin: "k' \<notin> fst ` set t"
    by (auto simp: keys_ok_def)
  with Cons.IH show ?case
    by (cases "k = k'") (simp_all add: a)
qed

text \<open>The sum of a column without one row.\<close>

definition sum_except :: "'k \<Rightarrow> ('k, int) table \<Rightarrow> int" where
  "sum_except h t = col_sum (filter (\<lambda>(k, v). k \<noteq> h) t)"

lemma sum_except_split: "keys_ok t \<Longrightarrow> sum_except h t = col_sum t - row_or t h 0"
proof (induction t)
  case Nil
  then show ?case by (simp add: sum_except_def)
next
  case (Cons a t)
  obtain k' v' where a: "a = (k', v')" by force
  with Cons.prems have ok: "keys_ok t" and nin: "k' \<notin> fst ` set t"
    by (auto simp: keys_ok_def)
  then have "h = k' \<Longrightarrow> row_or t h 0 = 0" by (simp add: row_or_not_key)
  with Cons.IH ok show ?case by (auto simp: a sum_except_def)
qed

lemma sum_except_update [table_simps]:
  "keys_ok t \<Longrightarrow> sum_except h (AList.update k v t) =
    (if k = h then sum_except h t else sum_except h t - row_or t k 0 + v)"
  by (simp add: sum_except_split col_sum_update row_or_update)

lemma col_sum_as_set: "keys_ok t \<Longrightarrow> col_sum t = (\<Sum>a \<in> fst ` set t. row_or t a 0)"
proof (induction t)
  case Nil
  then show ?case by simp
next
  case (Cons x t)
  obtain k v where x: "x = (k, v)" by force
  with Cons.prems have ok: "keys_ok t" and nin: "k \<notin> fst ` set t" by (auto simp: keys_ok_def)
  have "(\<Sum>a \<in> fst ` set t. row_or (x # t) a 0) = (\<Sum>a \<in> fst ` set t. row_or t a 0)"
    using nin by (intro sum.cong) (auto simp: x)
  with Cons.IH [OF ok] nin show ?case by (simp add: x)
qed

lemma col_sum_nonneg: "(\<And>k v. (k, v) \<in> set t \<Longrightarrow> 0 \<le> v) \<Longrightarrow> 0 \<le> col_sum t"
  unfolding col_sum_def by (rule sum_list_nonneg) auto

lemma row_or_le_sum:
  assumes "keys_ok t" and "\<And>k v. (k, v) \<in> set t \<Longrightarrow> 0 \<le> v"
  shows "row_or t k 0 \<le> col_sum t"
proof -
  have "0 \<le> sum_except k t"
    unfolding sum_except_def using assms(2) by (auto intro!: col_sum_nonneg)
  then show ?thesis using sum_except_split [OF assms(1), of k] by simp
qed

lemma in_set_row_or: "keys_ok t \<Longrightarrow> (k, v) \<in> set t \<Longrightarrow> row_or t k d = v"
  by (simp add: keys_ok_def row_or_def)

lemma row_or_in_set: "row_or t k d \<noteq> d \<Longrightarrow> (k, row_or t k d) \<in> set t"
  by (auto simp: row_or_def map_of_SomeD split: option.splits)

section \<open>A ledger table as an interface\<close>

text \<open>
  What the ledger's operations rely on of a balance table: reading a row (0 when there is none),
  replacing it, and the total of the column. Moving an amount between two rows is proved from the
  laws alone.
\<close>

locale balance_table =
  fixes bal :: "'t \<Rightarrow> 'k \<Rightarrow> int"
    and put :: "'k \<Rightarrow> int \<Rightarrow> 't \<Rightarrow> 't"
    and total :: "'t \<Rightarrow> int"
    and invar :: "'t \<Rightarrow> bool"
  assumes bal_put: "bal (put k v t) j = (if j = k then v else bal t j)"
    and total_put: "invar t \<Longrightarrow> total (put k v t) = total t - bal t k + v"
    and invar_put: "invar t \<Longrightarrow> invar (put k v t)"
begin

lemma total_credit: "invar t \<Longrightarrow> total (put k (bal t k + d) t) = total t + d"
  by (simp add: total_put)

lemma total_move:
  assumes "invar t"
  shows "total (put j (bal (put i (bal t i - d) t) j + d) (put i (bal t i - d) t)) = total t"
  using assms by (simp add: total_put invar_put)

end

interpretation acct: balance_table
  "\<lambda>t k. row_or t k 0" "\<lambda>k v t. AList.update k v t" col_sum keys_ok
  by unfold_locales (auto simp: table_simps)

section \<open>Reading a table page by page\<close>

text \<open>
  A reader that asks for the rows after a cursor, takes the answer and asks again after the last
  key it was given. The provider promises only that an answer is the beginning of what follows the
  cursor (however long: a row limit, a byte limit) and is empty only when nothing follows.
\<close>

fun walk_pages :: "(int \<Rightarrow> 'r list) \<Rightarrow> ('r \<Rightarrow> int) \<Rightarrow> int \<Rightarrow> nat \<Rightarrow> 'r list" where
  "walk_pages page key c 0 = []"
| "walk_pages page key c (Suc f) =
    (case page c of [] \<Rightarrow> [] | p # ps \<Rightarrow> (p # ps) @ walk_pages page key (key (last (p # ps))) f)"

locale cursor_pages =
  fixes page :: "int \<Rightarrow> 'r list" and key :: "'r \<Rightarrow> int" and rows :: "'r list"
  assumes sorted_rows: "sorted_wrt (\<lambda>x y. key x < key y) rows"
    and page_prefix: "\<exists>k. page c = take k (filter (\<lambda>r. c < key r) rows)"
    and page_nonempty: "page c = [] \<Longrightarrow> filter (\<lambda>r. c < key r) rows = []"
begin

lemma after_page:
  assumes "page c = p" and "p \<noteq> []"
  shows "filter (\<lambda>r. c < key r) rows = p @ filter (\<lambda>r. key (last p) < key r) rows"
proof -
  let ?after = "filter (\<lambda>r. c < key r) rows"
  obtain k where k: "p = take k ?after" using page_prefix [of c] assms(1) by auto
  have sorted: "sorted_wrt (\<lambda>x y. key x < key y) (p @ drop k ?after)"
    using sorted_wrt_filter [OF sorted_rows] k by simp
  then have less: "\<forall>x \<in> set p. \<forall>y \<in> set (drop k ?after). key x < key y"
    by (simp add: sorted_wrt_append)
  have sp: "sorted_wrt (\<lambda>x y. key x < key y) p" using sorted by (simp add: sorted_wrt_append)
  have upto: "key x \<le> key (last p)" if "x \<in> set p" for x
  proof -
    have "p = butlast p @ [last p]" using assms(2) by simp
    then have "sorted_wrt (\<lambda>x y. key x < key y) (butlast p @ [last p])" using sp by simp
    then have "\<forall>x \<in> set (butlast p). key x < key (last p)" by (simp add: sorted_wrt_append)
    moreover have "x \<in> set (butlast p) \<or> x = last p" using that assms(2)
      by (cases p rule: rev_cases) auto
    ultimately show ?thesis by auto
  qed
  have "last p \<in> set ?after" using last_in_set [OF assms(2)] k by (metis in_set_takeD)
  then have cl: "c < key (last p)" by simp
  then have "filter (\<lambda>r. key (last p) < key r) rows = filter (\<lambda>r. key (last p) < key r) ?after"
    by (simp add: filter_filter) (rule filter_cong, auto)
  also have "\<dots> = filter (\<lambda>r. key (last p) < key r) (p @ drop k ?after)" using k by simp
  also have "\<dots> = drop k ?after"
    using upto less last_in_set [OF assms(2)] by (auto simp: filter_id_conv filter_empty_conv not_less)
  finally show ?thesis using k by simp
qed

lemma walk_complete:
  "length (filter (\<lambda>r. c < key r) rows) \<le> f \<Longrightarrow> walk_pages page key c f = filter (\<lambda>r. c < key r) rows"
proof (induction f arbitrary: c)
  case 0
  then show ?case by simp
next
  case (Suc f)
  show ?case
  proof (cases "page c")
    case Nil
    then show ?thesis using page_nonempty by simp
  next
    case (Cons p ps)
    note ap = after_page [OF Cons]
    with Suc.prems have "length (filter (\<lambda>r. key (last (p # ps)) < key r) rows) \<le> f" by simp
    with Suc.IH Cons ap show ?thesis by simp
  qed
qed

end

section \<open>Effects applied at most once\<close>

text \<open>
  A run of a component is the list of the clock and the state after each step; the clock does not
  run backwards. \<open>count_firings\<close> counts the steps of a run at which something happened.
\<close>

fun clock_run :: "(time_ns \<Rightarrow> 's \<Rightarrow> 's \<Rightarrow> bool) \<Rightarrow> time_ns \<Rightarrow> 's \<Rightarrow> (time_ns \<times> 's) list \<Rightarrow> bool" where
  "clock_run step t0 s [] = True"
| "clock_run step t0 s ((t, s') # r) = (t0 \<le> t \<and> step t s s' \<and> clock_run step t s' r)"

fun count_firings :: "(time_ns \<Rightarrow> 's \<Rightarrow> 's \<Rightarrow> bool) \<Rightarrow> 's \<Rightarrow> (time_ns \<times> 's) list \<Rightarrow> nat" where
  "count_firings fires s [] = 0"
| "count_firings fires s ((t, s') # r) = (if fires t s s' then 1 else 0) + count_firings fires s' r"

text \<open>
  The shape of every replay guard of the hub: a statement with an id takes effect only while the
  clock is inside the statement's window and no record of the id is kept; taking effect writes
  the record; a record is deleted only when the window of its statement is over for good. Then
  the statement takes effect at most once in a run, however records are deleted in between.

  \<open>step t s s'\<close> is any step of the component at clock \<open>t\<close>; \<open>fires t s s'\<close> says that this step
  applied the statement; \<open>kept s\<close> that its record is there; \<open>over t\<close> that its window is over at
  \<open>t\<close>.
\<close>

locale at_most_once =
  fixes step :: "time_ns \<Rightarrow> 's \<Rightarrow> 's \<Rightarrow> bool"
    and fires :: "time_ns \<Rightarrow> 's \<Rightarrow> 's \<Rightarrow> bool"
    and kept :: "'s \<Rightarrow> bool"
    and over :: "time_ns \<Rightarrow> bool"
  assumes fires_needs: "step t s s' \<Longrightarrow> fires t s s' \<Longrightarrow> \<not> kept s \<and> \<not> over t"
    and fires_keeps: "step t s s' \<Longrightarrow> fires t s s' \<Longrightarrow> kept s'"
    and kept_until: "step t s s' \<Longrightarrow> kept s \<Longrightarrow> kept s' \<or> over t"
    and over_mono: "over t \<Longrightarrow> t \<le> t' \<Longrightarrow> over t'"
begin

lemma no_firing_after: "clock_run step t0 s r \<Longrightarrow> kept s \<or> over t0 \<Longrightarrow> count_firings fires s r = 0"
proof (induction r arbitrary: t0 s)
  case Nil
  then show ?case by simp
next
  case (Cons a r)
  obtain t s' where a: "a = (t, s')" by force
  from Cons.prems have le: "t0 \<le> t" and st: "step t s s'" and rest: "clock_run step t s' r"
    by (simp_all add: a)
  have no: "\<not> fires t s s'"
    using Cons.prems(2) fires_needs [OF st] over_mono [OF _ le] by blast
  have "kept s' \<or> over t"
    using Cons.prems(2) kept_until [OF st] over_mono [OF _ le] by blast
  then have "count_firings fires s' r = 0" using Cons.IH rest by blast
  with no show ?case by (simp add: a)
qed

lemma at_most_one_firing: "clock_run step t0 s r \<Longrightarrow> count_firings fires s r \<le> 1"
proof (induction r arbitrary: t0 s)
  case Nil
  then show ?case by simp
next
  case (Cons a r)
  obtain t s' where a: "a = (t, s')" by force
  from Cons.prems have st: "step t s s'" and rest: "clock_run step t s' r"
    by (simp_all add: a)
  show ?case
  proof (cases "fires t s s'")
    case True
    then have "count_firings fires s' r = 0"
      using no_firing_after [OF rest] fires_keeps [OF st] by blast
    with True show ?thesis by (simp add: a)
  next
    case False
    with Cons.IH [OF rest] show ?thesis by (simp add: a)
  qed
qed

end

section \<open>What a run only moves forward\<close>

definition end_of :: "'s \<Rightarrow> (time_ns \<times> 's) list \<Rightarrow> 's" where
  "end_of s r = (if r = [] then s else snd (last r))"

lemma end_of_simps [simp]: "end_of s [] = s" "end_of s ((t, s') # r) = end_of s' r"
  by (simp_all add: end_of_def)

definition end_time :: "time_ns \<Rightarrow> (time_ns \<times> 's) list \<Rightarrow> time_ns" where
  "end_time t r = (if r = [] then t else fst (last r))"

lemma end_time_simps [simp]: "end_time t [] = t" "end_time t ((t', s') # r) = end_time t' r"
  by (simp_all add: end_time_def)

lemma clock_run_time: "clock_run step t s r \<Longrightarrow> t \<le> end_time t r"
proof (induction r arbitrary: t s)
  case (Cons a r)
  then show ?case by (cases a) (auto dest: order_trans)
qed simp

text \<open>
  An order that no step goes back in, from a state where an invariant holds: then no run goes back in it.
  The invariant may speak of the time.
\<close>

locale moves_forward =
  fixes step :: "time_ns \<Rightarrow> 's \<Rightarrow> 's \<Rightarrow> bool"
    and inv :: "time_ns \<Rightarrow> 's \<Rightarrow> bool"
    and ahead :: "'s \<Rightarrow> 's \<Rightarrow> bool"
  assumes ahead_refl: "ahead s s"
    and ahead_trans: "ahead s v \<Longrightarrow> ahead v u \<Longrightarrow> ahead s u"
    and step_ahead: "inv t0 s \<Longrightarrow> t0 \<le> t \<Longrightarrow> step t s s' \<Longrightarrow> inv t s' \<and> ahead s s'"
begin

lemma run_ahead: "clock_run step t0 s r \<Longrightarrow> inv t0 s \<Longrightarrow> inv (end_time t0 r) (end_of s r) \<and> ahead s (end_of s r)"
proof (induction r arbitrary: t0 s)
  case Nil
  then show ?case by (simp add: ahead_refl)
next
  case (Cons a r)
  obtain t s' where a: "a = (t, s')" by force
  from Cons.prems have le: "t0 \<le> t" and st: "step t s s'" and rest: "clock_run step t s' r" by (simp_all add: a)
  have s': "inv t s'" "ahead s s'" using step_ahead [OF Cons.prems(2) le st] by blast+
  with Cons.IH [OF rest s'(1)] show ?case by (auto simp: a intro: ahead_trans)
qed

end

end
