(* ===== verification/Core_Types.thy ===== *)
theory Core_Types
  imports Hub_Prelude
begin

text \<open>
  The objects the hub shares with ANetCore (\<open>payment\<close>, \<open>identity\<close>, \<open>evidence\<close>), as far as the
  source reads or builds their fields, and the operations of ANetCore the hub calls. ANetCore is a
  module of its own and not part of this repository: what it computes (signatures, content ids,
  decodings, the guard hash) is a field of the record \<open>core\<close>, which every definition that
  relies on it takes as its argument.
\<close>

section \<open>Refusals\<close>

text \<open>The \<open>payment.Reason*\<close> constants the source names. A \<open>Refusal\<close> is its reason; the detail
  is prose for a log or a client's screen and is not modelled. \<open>ReasonOther\<close> is any other reason a
  peer hub's answer may carry.\<close>

datatype reason =
  ReasonInvalidAmount | ReasonInvalidRequirements | ReasonMalformed | ReasonUnsupportedScheme
  | ReasonNetworkMismatch | ReasonPayeeMismatch | ReasonPayeeNotLocal | ReasonUnknownPayer
  | ReasonSettlementFailed | ReasonInvalidSignature | ReasonExpiredPayment
  | ReasonAuthWindowTooLong | ReasonInsufficientFunds | ReasonDuplicateNonce
  | ReasonDuplicateBinding | ReasonSettlementPending
  | ReasonOther string

text \<open>The errors of the ledger: a refusal, one of the package's error values, or any other error
  (\<open>fmt.Errorf\<close>), with a tag that says which one. \<open>Panicked\<close> is a nil dereference.\<close>

datatype error =
  Refused reason
  | ErrSupplyMismatch | ErrNoSigningKey | ErrProofUnavailable | ErrReceiptOutOfWindow | ErrOverDue
  | ErrStatement string
  | ErrOther string
  | Panicked

section \<open>Payments\<close>

record envelope =
  SignerAID :: aid
  KeyStateSeq :: u64
  Sig :: bytes

record authorization =
  Payer :: aid
  PayTo :: aid
  Amount :: u64
  Network :: string
  InteractionID :: string
  IssuedAt :: millis
  NotAfter :: millis
  AEnvelope :: "envelope option"

record receipt =
  RAuthID :: string
  RPayer :: aid
  RPayTo :: aid
  RAmount :: u64
  RNetwork :: string
  RSettleAt :: millis
  REnvelope :: "envelope option"

text \<open>A value of a decoded \<open>map[string]any\<close>: the source only asks whether it is a string.\<close>

datatype any_value = AnyString string | AnyOther

record payment_payload =
  AcceptedScheme :: string
  AcceptedNetwork :: string
  AcceptedPayTo :: aid
  AcceptedAmount :: string
  Payload :: "(string, any_value) table"

record requirements =
  ReqScheme :: string
  ReqNetwork :: string
  ReqPayTo :: aid
  ReqAmount :: string

text \<open>\<open>payment.SettlementResponse\<close>; its \<open>Extensions\<close> map is the fields the source puts there:
  \<open>ExtReceipt\<close> (base64), \<open>ExtReplayed\<close> and \<open>ExtOriginalTransaction\<close>.\<close>

record settlement_response =
  Success :: bool
  ErrorReason :: "reason option"
  SPayer :: aid
  STransaction :: string
  SNetwork :: string
  SAmount :: u64
  ExtReceipt :: "string option"
  ExtReplayed :: bool
  ExtOriginal :: "string option"

record verify_response =
  IsValid :: bool
  InvalidReason :: "reason option"
  VPayer :: aid

section \<open>Key histories\<close>

datatype event_type = Inception | Rotation | Deactivation | OtherEvent

record kel_event =
  EvType :: event_type
  EvKeys :: "bytes list"
  EvSeq :: u64
  EvWitnesses :: "aid list"
  EvEventID :: string

type_synonym kel = "kel_event list"

datatype key_status = StatusActive | StatusDeactivated | StatusOther

record key_state =
  StKeyStateSeq :: u64
  StStatus :: key_status
  StAID :: aid
  StToad :: u64
  StWitness :: aid
  StLastEventID :: string

text \<open>What \<open>payment.Authorization.Verify\<close> answers when it refuses: \<open>payment.ErrExpired\<close>,
  \<open>payment.ErrBadWindow\<close>, or any other verification error.\<close>

datatype verify_error = VErrExpired | VErrBadWindow | VErrOther

text \<open>The reason of an \<open>identity.VErr\<close>, as this repository builds it (\<open>kelreplay.go\<close>).\<close>

datatype sig_error = KeyStateDowngrade | RevokedKey | UnknownAID | InvalidSignature

section \<open>ANetCore\<close>

text \<open>\<open>MaxAuthWindow\<close> is the duration \<open>payment.MaxAuthWindow\<close> in nanoseconds, \<open>MaxSkewMillis\<close> is
  \<open>relayauth.MaxSkewMillis\<close>. A function that returns an error in Go returns \<open>None\<close> here.\<close>

record core =
  MaxAuthWindow :: int
  MaxSkewMillis :: millis
  SchemeCredit :: string
  CreditNetwork :: "aid \<Rightarrow> string"
  ParseAmount :: "string \<Rightarrow> u64 option"
  UnmarshalAuthorization :: "bytes \<Rightarrow> authorization option"
  AuthID :: "authorization \<Rightarrow> string option"
  AuthVerify :: "authorization \<Rightarrow> kel \<Rightarrow> millis \<Rightarrow> verify_error option"
  AuthPreimage :: "authorization \<Rightarrow> bytes option"
  EnvelopeValid :: "envelope \<Rightarrow> bool"
  Ed25519Verify :: "bytes \<Rightarrow> bytes \<Rightarrow> bytes \<Rightarrow> bool"
  UnmarshalKEL :: "bytes \<Rightarrow> kel option"
  Replay :: "kel \<Rightarrow> key_state list option"
  SettleGuard :: "string \<Rightarrow> string \<Rightarrow> bytes option"
  SignReceipt :: "receipt \<Rightarrow> bytes option"
  UnmarshalReceipt :: "bytes \<Rightarrow> receipt option"
  ReceiptVerify :: "receipt \<Rightarrow> kel \<Rightarrow> aid \<Rightarrow> millis \<Rightarrow> bool"

text \<open>\<open>Store.hubAID\<close> (empty while no identity is set) and whether \<open>Store.hubKey\<close> is set; both are
  set together by \<open>SetHubKey\<close>.\<close>

record hub_conf =
  hubAID :: aid
  hasHubKey :: bool

end
