(* ===== verification/Amount.thy ===== *)
theory Amount
  imports Core_Types
begin

text \<open>
  \<open>internal/aghub/amount.go\<close>: how a wire amount (\<open>uint64\<close>) becomes a ledger amount (\<open>int64\<close>), the
  reverse, the guarded addition every balance moves through, and the bound on what the hub issues.
  The lemmas state exactly which amounts pass, that the two conversions invert each other, and
  that a guarded addition never leaves the range of the column.
\<close>

section \<open>Conversions\<close>

definition amountInt64 :: "u64 \<Rightarrow> int option" where
  "amountInt64 n = (if n = 0 \<or> max_int64 < uint n then None else Some (uint n))"

definition storedAmount :: "int \<Rightarrow> u64 option" where
  "storedAmount n = (if n \<le> 0 then None else Some (word_of_int n))"

section \<open>The guarded addition\<close>

text \<open>\<open>addToRow\<close>: an upsert that adds \<open>delta\<close> to the row of \<open>key\<close>, or creates it at \<open>delta\<close>; the
  \<open>WHERE\<close> of the upsert compares the stored value with the bound, and no affected row is the
  refusal.\<close>

definition addToRow :: "(aid, int) table \<Rightarrow> aid \<Rightarrow> int \<Rightarrow> error + (aid, int) table" where
  "addToRow t key delta =
    (if delta = min_int64 then Inl (Refused ReasonInvalidAmount)
     else
       let bound = (if delta < 0 then wrap64 (min_int64 - delta) else wrap64 (max_int64 - delta));
           fits = (\<lambda>v. if delta < 0 then v \<ge> bound else v \<le> bound)
       in case map_of t key of
         None \<Rightarrow> Inr (AList.update key delta t)
       | Some v \<Rightarrow> if fits v then Inr (AList.update key (v + delta) t)
                  else Inl (Refused ReasonInvalidAmount))"

section \<open>Room for an issuance\<close>

definition issuanceRoom :: "int \<Rightarrow> int \<Rightarrow> error + unit" where
  "issuanceRoom issued amt =
    (if issued > wrap64 (max_int64 - amt) then Inl (Refused ReasonInvalidAmount) else Inr ())"

section \<open>Lemmas\<close>

lemma word_zero_iff: "n = 0 \<longleftrightarrow> uint n = 0"
  by (simp add: uint_0_iff)

lemma uint_pos_iff: "1 \<le> uint n \<longleftrightarrow> n \<noteq> 0"
  using uint_ge_0 [of n] word_zero_iff [of n] by linarith

lemma amountInt64_Some:
  "amountInt64 n = Some k \<longleftrightarrow> k = uint n \<and> 1 \<le> k \<and> k \<le> max_int64"
  by (auto simp: amountInt64_def uint_pos_iff)

lemma amountInt64_bounds: "amountInt64 n = Some k \<Longrightarrow> 0 < k" "amountInt64 n = Some k \<Longrightarrow> k \<le> max_int64"
  by (auto simp: amountInt64_Some)

lemmas amountInt64_SomeD = amountInt64_Some [THEN iffD1]

lemma sint_wrap64: "sint (n :: u64) = wrap64 (uint n)"
  by (simp add: sint_uint signed_take_bit_eq_take_bit_shift take_bit_eq_mod wrap64_def)

lemma uint_u64_lt: "uint (n :: u64) < 18446744073709551616"
  using uint_lt2p [of n] by simp

lemma wrap64_high:
  assumes "max_int64 < u" "u < 18446744073709551616"
  shows "wrap64 u = u - 18446744073709551616"
proof -
  have "(u + 9223372036854775808) mod 18446744073709551616
      = (u - 9223372036854775808 + 18446744073709551616) mod 18446744073709551616"
    by (rule arg_cong [where f = "\<lambda>x. x mod 18446744073709551616"]) simp
  also have "\<dots> = (u - 9223372036854775808) mod 18446744073709551616" by (rule mod_add_self2)
  also have "\<dots> = u - 9223372036854775808"
    by (rule mod_pos_pos_trivial) (use assms in \<open>auto simp: max_int64_def\<close>)
  finally show ?thesis by (simp add: wrap64_def)
qed

lemma amountInt64_eq_cast: "amountInt64 n = (if 1 \<le> sint n then Some (sint n) else None)"
proof (cases "uint n \<le> max_int64")
  case True
  then have "in_int64 (uint n)"
    using uint_ge_0 [of n] unfolding in_int64_def min_int64_def by linarith
  then have "sint n = uint n"
    by (simp add: sint_wrap64 wrap64_id)
  with True show ?thesis by (simp add: amountInt64_def uint_pos_iff)
next
  case False
  then have "sint n = uint n - 18446744073709551616"
    using uint_u64_lt [of n] by (simp add: sint_wrap64 wrap64_high)
  with False show ?thesis
    using uint_u64_lt [of n] by (simp add: amountInt64_def)
qed

lemma uint_of_int64: "0 \<le> k \<Longrightarrow> k \<le> max_int64 \<Longrightarrow> uint (word_of_int k :: u64) = k"
  unfolding uint_word_of_int by (rule mod_pos_pos_trivial) (simp_all add: max_int64_def)

lemma storedAmount_amountInt64: "amountInt64 n = Some k \<Longrightarrow> storedAmount k = Some n"
  by (auto simp: amountInt64_Some storedAmount_def)

lemma amountInt64_storedAmount:
  "storedAmount k = Some n \<Longrightarrow> k \<le> max_int64 \<Longrightarrow> amountInt64 n = Some k"
  by (auto simp: storedAmount_def amountInt64_Some max_int64_def uint_word_of_int split: if_splits)

lemma addToRow_Inr:
  assumes "in_int64 d" and "in_int64 (row_or t k 0)"
  shows "addToRow t k d = Inr t' \<longleftrightarrow>
    d \<noteq> min_int64 \<and> in_int64 (row_or t k 0 + d) \<and> t' = AList.update k (row_or t k 0 + d) t"
proof -
  have up: "wrap64 (max_int64 - d) = max_int64 - d" if "0 \<le> d"
    by (rule wrap64_id) (use that assms(1) in \<open>auto simp: in_int64_def min_int64_max\<close>)
  have dn: "wrap64 (min_int64 - d) = min_int64 - d" if "d < 0" "d \<noteq> min_int64"
    by (rule wrap64_id) (use that assms(1) in \<open>auto simp: in_int64_def min_int64_max\<close>)
  show ?thesis
    using assms up dn
    by (cases "d < 0")
       (auto simp: addToRow_def Let_def row_or_def in_int64_def min_int64_max split: option.splits if_splits)
qed

lemma addToRow_fits:
  assumes "0 < d" "d \<le> max_int64" "in_int64 (row_or t k 0)"
  shows "row_or t k 0 + d \<le> max_int64 \<Longrightarrow> addToRow t k d = Inr (AList.update k (row_or t k 0 + d) t)"
    and "- max_int64 \<le> row_or t k 0 - d \<Longrightarrow> addToRow t k (- d) = Inr (AList.update k (row_or t k 0 - d) t)"
  using assms addToRow_Inr [of d t k] addToRow_Inr [of "- d" t k]
  by (auto simp: in_int64_def min_int64_max)

text \<open>The two ways the ledger uses it: a credit and a debit of a positive amount.\<close>

lemma addToRow_credit:
  assumes "addToRow t k d = Inr t'" and "0 \<le> d" "d \<le> max_int64"
  shows "t' = AList.update k (row_or t k 0 + d) t"
proof -
  have "wrap64 (max_int64 - d) = max_int64 - d"
    by (rule wrap64_id) (use assms in \<open>auto simp: in_int64_def min_int64_max\<close>)
  with assms show ?thesis
    by (auto simp: addToRow_def Let_def row_or_def split: option.splits if_splits)
qed

lemma addToRow_debit:
  assumes "addToRow t k (- d) = Inr t'" and "0 < d" "d \<le> max_int64"
  shows "t' = AList.update k (row_or t k 0 - d) t"
  using assms by (auto simp: addToRow_def Let_def row_or_def split: option.splits if_splits)

text \<open>Every value the guard lets through is one the column can hold.\<close>

definition rows_in_range :: "('k, int) table \<Rightarrow> bool" where
  "rows_in_range t \<longleftrightarrow> list_all (\<lambda>(k, v). in_int64 v) t"

lemma rows_in_range_row: "rows_in_range t \<Longrightarrow> in_int64 (row_or t k 0)"
  using row_or_in_set [of t k 0]
  by (cases "row_or t k 0 = 0") (auto simp: rows_in_range_def list_all_iff in_int64_def min_int64_def max_int64_def)

lemma rows_in_range_update:
  "rows_in_range t \<Longrightarrow> in_int64 v \<Longrightarrow> rows_in_range (AList.update k v t)"
  by (induction t) (auto simp: rows_in_range_def)

lemma addToRow_in_range:
  assumes "addToRow t k d = Inr t'" and "rows_in_range t" and "in_int64 d"
  shows "rows_in_range t'"
  using assms addToRow_Inr [OF assms(3) rows_in_range_row [OF assms(2)], of k t']
  by (auto intro: rows_in_range_update)

lemma issuanceRoom_Inr:
  assumes "0 < amt" "amt \<le> max_int64"
  shows "issuanceRoom issued amt = Inr u \<longleftrightarrow> issued + amt \<le> max_int64"
proof -
  have "wrap64 (max_int64 - amt) = max_int64 - amt"
    by (rule wrap64_id) (use assms in \<open>auto simp: in_int64_def min_int64_max\<close>)
  then show ?thesis by (auto simp: issuanceRoom_def)
qed

end
