(* ===== verification/Ledger.thy ===== *)
theory Ledger
  imports Amount
begin

text \<open>
  The credit ledger: its tables (\<open>coreSchema\<close>, \<open>firstVerifySchema\<close>, \<open>supplySchema\<close>) as a record,
  the supply totals and the ways credit is created (\<open>facilitator.go\<close>: \<open>Credit\<close>, \<open>creditTx\<close>,
  \<open>issueTx\<close>, \<open>GrantCredit\<close>; \<open>supply.go\<close>: \<open>supplyEventTx\<close>, \<open>issuedTotal\<close>), and what an account reads of
  its own ledger.

  \<open>supply_ok\<close> is the invariant the source calls P-PAY-3: the accounts add up to what was issued
  less what was redeemed, and the hub's own row holds the negative of that. The abstract ledger,
  one integer per account with two operations, is what the tables implement.
\<close>

section \<open>Tables\<close>

record credit_entry =
  e_seq :: nat
  e_aid :: aid
  e_delta :: int
  e_reason :: string
  e_at :: time_ns

record settled_row =
  s_payer :: aid
  s_pay_to :: aid
  s_amount :: int
  s_at :: time_ns
  s_receipt :: "bytes option"
  s_not_after :: millis
  s_guard :: "bytes option"
  s_via :: string

record cleared_row =
  c_peer :: aid
  c_pay_to :: aid
  c_amount :: int
  c_at :: time_ns
  c_settle_at :: millis

record first_verify_row =
  fv_payer :: aid
  fv_key_state_seq :: int
  fv_tip_at_first :: bool
  fv_first_verified_at :: millis
  fv_delete_after :: millis

record redemption_row =
  r_seq :: nat
  r_auth_id :: string
  r_aid :: aid
  r_amount :: int
  r_reference :: string
  r_at :: time_ns

record hub_cleared_row =
  hc_peer :: aid
  hc_amount :: int
  hc_at :: time_ns

record ledger =
  balances :: "(aid, int) table"
  entries :: "credit_entry list"
  entry_seq :: nat
  issued :: int
  redeemed :: int
  events_since :: int
  last_to_day :: "int option"
  settled :: "(string, settled_row) table"
  guards :: "(bytes, millis) table"
  cleared :: "(string, cleared_row) table"
  first_verifies :: "(string, first_verify_row) table"
  redemptions :: "redemption_row list"
  redemption_seq :: nat
  hub_cleared :: "(string, hub_cleared_row) table"
  owed :: "(aid, int) table"
  due :: "(aid, int) table"

definition empty_ledger :: ledger where
  "empty_ledger = \<lparr>balances = [], entries = [], entry_seq = 0, issued = 0, redeemed = 0,
     events_since = 0, last_to_day = None, settled = [], guards = [], cleared = [],
     first_verifies = [], redemptions = [], redemption_seq = 0, hub_cleared = [], owed = [], due = []\<rparr>"

section \<open>Stamps and days\<close>

definition ledgerStamp :: "time_ns \<Rightarrow> time_ns" where
  "ledgerStamp t = t"

definition ledgerWindow :: int where "ledgerWindow = 14 * 24 * hour_ns"
definition settledKeptAfter :: int where "settledKeptAfter = 7 * 24 * hour_ns"
definition guardKept :: int where "guardKept = 30 * 24 * hour_ns"
definition peerReceiptMaxAge :: int where "peerReceiptMaxAge = 7 * 24 * hour_ns"
definition clearedKeptAfter :: int where "clearedKeptAfter = 8 * 24 * hour_ns"

lemmas window_defs =
  ledgerWindow_def settledKeptAfter_def guardKept_def peerReceiptMaxAge_def clearedKeptAfter_def

definition windowStart :: "time_ns \<Rightarrow> time_ns" where
  "windowStart now = ledgerStamp (now - ledgerWindow)"

definition utcDay :: "time_ns \<Rightarrow> int" where
  "utcDay t = go_div (unix_milli t) day_ms"

section \<open>Entries\<close>

text \<open>\<open>INSERT INTO credit_entry\<close>: the sequence is \<open>AUTOINCREMENT\<close>, so it outlives deleted rows.\<close>

definition add_entry :: "aid \<Rightarrow> int \<Rightarrow> string \<Rightarrow> time_ns \<Rightarrow> ledger \<Rightarrow> ledger" where
  "add_entry a delta reason at l =
    l\<lparr>entries := entries l @ [\<lparr>e_seq = Suc (entry_seq l), e_aid = a, e_delta = delta,
                                e_reason = reason, e_at = at\<rparr>],
      entry_seq := Suc (entry_seq l)\<rparr>"

section \<open>Supply events\<close>

datatype supplyKind = supplyIssued | supplyRedeemed

definition supplyEventTx :: "time_ns \<Rightarrow> supplyKind \<Rightarrow> int \<Rightarrow> ledger \<Rightarrow> error + ledger" where
  "supplyEventTx now kind amt l =
    (if amt \<le> 0 then Inl (ErrOther ''supply event'')
     else
       let col = (case kind of supplyIssued \<Rightarrow> issued l | supplyRedeemed \<Rightarrow> redeemed l);
           l' = l\<lparr>events_since := events_since l + 1,
                  last_to_day := (case last_to_day l of None \<Rightarrow> Some (utcDay now - 1) | Some d \<Rightarrow> Some d)\<rparr>
       in if col \<le> max_int64 - amt
          then Inr (case kind of supplyIssued \<Rightarrow> l'\<lparr>issued := col + amt\<rparr>
                               | supplyRedeemed \<Rightarrow> l'\<lparr>redeemed := col + amt\<rparr>)
          else Inl (Refused ReasonInvalidAmount))"

definition issuedTotal :: "ledger \<Rightarrow> int" where
  "issuedTotal l = issued l"

section \<open>Credit\<close>

definition reasonIssued :: string where "reasonIssued = ''issued''"

definition creditTx :: "hub_conf \<Rightarrow> time_ns \<Rightarrow> aid \<Rightarrow> int \<Rightarrow> string \<Rightarrow> ledger \<Rightarrow> error + ledger" where
  "creditTx h now a amount reason l =
    (if amount = 0 then Inr l
     else
       let at = ledgerStamp now in
       rbind
         (if hubAID h \<noteq> [] \<and> a \<noteq> hubAID h
          then if amount < 0 then Inl (ErrOther ''an issuance must be positive'')
               else rbind (addToRow (balances l) (hubAID h) (- amount)) (\<lambda>b.
                      supplyEventTx now supplyIssued amount
                        (add_entry (hubAID h) (- amount) (reasonIssued @ '':'' @ reason) at (l\<lparr>balances := b\<rparr>)))
          else Inr l)
         (\<lambda>l. rbind (addToRow (balances l) a amount) (\<lambda>b.
            Inr (add_entry a amount reason at (l\<lparr>balances := b\<rparr>)))))"

definition Credit :: "hub_conf \<Rightarrow> time_ns \<Rightarrow> aid \<Rightarrow> int \<Rightarrow> string \<Rightarrow> ledger \<Rightarrow> error + ledger" where
  "Credit h now a amount reason l =
    (if amount = 0 then Inr l else creditTx h now a amount reason l)"

definition issueTx :: "hub_conf \<Rightarrow> time_ns \<Rightarrow> aid \<Rightarrow> int \<Rightarrow> string \<Rightarrow> ledger \<Rightarrow> error + ledger" where
  "issueTx h now a amount reason l =
    (if amount \<le> 0 then Inl (ErrOther ''an issuance must be positive'')
     else
       rbind (if hubAID h \<noteq> [] \<and> a \<noteq> hubAID h then issuanceRoom (issuedTotal l) amount else Inr ())
         (\<lambda>_. creditTx h now a amount reason l))"

definition Balance :: "ledger \<Rightarrow> aid \<Rightarrow> int" where
  "Balance l a = row_or (balances l) a 0"

definition GrantCredit :: "hub_conf \<Rightarrow> time_ns \<Rightarrow> aid \<Rightarrow> int \<Rightarrow> string \<Rightarrow> ledger \<Rightarrow> error + ledger" where
  "GrantCredit h now a amount reason l =
    (if amount \<le> 0 then Inl (ErrOther ''a grant must be positive'')
     else
       let reason = (if reason = [] then ''operator grant'' else reason) in
       if row_or (balances l) a 0 > max_int64 - amount
       then Inl (ErrOther ''past the most this ledger can hold'')
       else issueTx h now a amount reason l)"

section \<open>An account's own ledger\<close>

record ledger_window =
  lw_entries :: "credit_entry list"
  lw_total :: nat
  lw_sum :: int
  lw_oldest :: nat

text \<open>SQLite's \<open>SUM\<close> of integers fails when a partial sum leaves the integer range.\<close>

fun sql_sum :: "int \<Rightarrow> int list \<Rightarrow> int option" where
  "sql_sum acc [] = Some acc"
| "sql_sum acc (x # xs) = (if in_int64 (acc + x) then sql_sum (acc + x) xs else None)"

text \<open>\<open>limit\<close> rows of a list that is in ascending order of \<open>seq\<close>, the newest of them.\<close>

definition newest :: "nat \<Rightarrow> 'a list \<Rightarrow> 'a list" where
  "newest n xs = drop (length xs - n) xs"

definition page_limit :: "int \<Rightarrow> nat" where
  "page_limit limit = (if limit \<le> 0 \<or> limit > 500 then 100 else nat limit)"

definition LedgerEntries :: "time_ns \<Rightarrow> aid \<Rightarrow> int \<Rightarrow> ledger \<Rightarrow> error + ledger_window" where
  "LedgerEntries now a limit l =
    (let rows = filter (\<lambda>e. e_aid e = a \<and> e_at e \<ge> windowStart now) (entries l) in
     case sql_sum 0 (map e_delta rows) of
       None \<Rightarrow> Inl (ErrOther ''integer overflow'')
     | Some s \<Rightarrow> Inr \<lparr>lw_entries = newest (page_limit limit) rows, lw_total = length rows, lw_sum = s,
                       lw_oldest = (case rows of [] \<Rightarrow> 0 | e # _ \<Rightarrow> e_seq e)\<rparr>)"

section \<open>The supply invariant\<close>

text \<open>\<open>books_ok hub b i r\<close>: the balance table \<open>b\<close> agrees with \<open>i\<close> issued and \<open>r\<close> redeemed credits.\<close>

definition books_ok :: "aid \<Rightarrow> (aid, int) table \<Rightarrow> int \<Rightarrow> int \<Rightarrow> bool" where
  "books_ok hub b i r \<longleftrightarrow>
     keys_ok b \<and> (\<forall>k. k \<noteq> hub \<longrightarrow> 0 \<le> row_or b k 0) \<and>
     sum_except hub b = i - r \<and> row_or b hub 0 = r - i \<and> 0 \<le> r \<and> i \<le> max_int64"

text \<open>What one hub claims of another is bounded by what crossed the border between them.\<close>

definition claims_ok :: "(aid, int) table \<Rightarrow> int \<Rightarrow> bool" where
  "claims_ok t bound \<longleftrightarrow> keys_ok t \<and> (\<forall>k. 0 \<le> row_or t k 0) \<and> col_sum t \<le> bound"

definition supply_ok :: "hub_conf \<Rightarrow> ledger \<Rightarrow> bool" where
  "supply_ok h l \<longleftrightarrow> hubAID h \<noteq> [] \<and>
     books_ok (hubAID h) (balances l) (issued l) (redeemed l) \<and>
     claims_ok (owed l) (issued l) \<and> claims_ok (due l) (redeemed l)"

lemma supply_ok_empty: "hubAID h \<noteq> [] \<Longrightarrow> supply_ok h empty_ledger"
  by (simp add: supply_ok_def books_ok_def claims_ok_def empty_ledger_def sum_except_def)

lemma row_le_sum_except:
  assumes "keys_ok b" and "\<And>k. k \<noteq> hub \<Longrightarrow> 0 \<le> row_or b k 0" and "a \<noteq> hub"
  shows "row_or b a 0 \<le> sum_except hub b"
proof -
  let ?b = "filter (\<lambda>(k, v). k \<noteq> hub) b"
  have ok: "keys_ok ?b" using assms(1) by simp
  have row: "row_or ?b k 0 = row_or b k 0" if "k \<noteq> hub" for k
    using that map_of_filter_keys [OF assms(1), of "\<lambda>k v. k \<noteq> hub" k]
    by (simp add: row_or_def split: option.splits)
  have "0 \<le> v" if "(k, v) \<in> set ?b" for k v
    using that in_set_row_or [OF ok that, of 0] row [of k] assms(2) [of k] by auto
  then have "row_or ?b a 0 \<le> col_sum ?b" by (rule row_or_le_sum [OF ok])
  then show ?thesis using row [OF assms(3)] by (simp add: sum_except_def)
qed

lemma sum_except_nonneg:
  assumes "keys_ok b" and "\<And>k. k \<noteq> hub \<Longrightarrow> 0 \<le> row_or b k 0"
  shows "0 \<le> sum_except hub b"
  unfolding sum_except_def
proof (rule col_sum_nonneg)
  fix k v
  assume "(k, v) \<in> set (filter (\<lambda>(k, v). k \<noteq> hub) b)"
  then show "0 \<le> v" using in_set_row_or [OF assms(1), of k v 0] assms(2) [of k] by auto
qed

lemma books_okD:
  assumes "books_ok hub b i r"
  shows "keys_ok b" and "k \<noteq> hub \<Longrightarrow> 0 \<le> row_or b k 0"
    and "k \<noteq> hub \<Longrightarrow> row_or b k 0 \<le> i - r"
    and "row_or b hub 0 = r - i" and "r \<le> i" and "0 \<le> r" and "i \<le> max_int64"
    and "sum_except hub b = i - r"
  using assms row_le_sum_except [where b = b and hub = hub and a = k] sum_except_nonneg [where b = b and hub = hub]
  by (auto simp: books_ok_def)

text \<open>Hence every row fits its column, and the whole table sums to zero.\<close>

lemma books_ok_range:
  assumes "books_ok hub b i r"
  shows "in_int64 (row_or b k 0)"
proof -
  have "- max_int64 - 1 \<le> row_or b k 0 \<and> row_or b k 0 \<le> max_int64"
    using books_okD(2,3) [OF assms, of k] books_okD(4-7) [OF assms] max_int64_pos(2)
    by (cases "k = hub") auto
  then show ?thesis by (simp add: in_int64_def min_int64_max)
qed

lemma books_ok_zero_sum: "books_ok hub b i r \<Longrightarrow> col_sum b = 0"
  using sum_except_split [of b hub] by (simp add: books_ok_def)

section \<open>The three movements\<close>

lemma books_issue:
  assumes "books_ok hub b i r" and "a \<noteq> hub" and "0 \<le> d" and "i + d \<le> max_int64"
  shows "books_ok hub (AList.update a (row_or b a 0 + d) (AList.update hub (row_or b hub 0 - d) b)) (i + d) r"
    and "books_ok hub (AList.update hub (row_or b hub 0 - d) (AList.update a (row_or b a 0 + d) b)) (i + d) r"
  using assms books_okD [OF assms(1)]
  by (auto simp: books_ok_def table_simps)

text \<open>\<open>d\<close> from row \<open>p\<close> to row \<open>q\<close>, the debit first.\<close>

definition move_row :: "aid \<Rightarrow> aid \<Rightarrow> int \<Rightarrow> (aid, int) table \<Rightarrow> (aid, int) table" where
  "move_row p q d b =
    AList.update q (row_or (AList.update p (row_or b p 0 - d) b) q 0 + d) (AList.update p (row_or b p 0 - d) b)"

lemma row_or_move_row:
  "row_or (move_row p q d b) a 0 =
     row_or b a 0 - (if a = p then d else 0) + (if a = q then d else 0)"
  by (simp add: move_row_def table_simps)

lemma move_row_total: "keys_ok b \<Longrightarrow> col_sum (move_row p q d b) = col_sum b"
  unfolding move_row_def by (rule acct.total_move)

lemma books_redeem:
  assumes "books_ok hub b i r" and "p \<noteq> hub" and "0 \<le> d" and "d \<le> row_or b p 0"
  shows "books_ok hub (move_row p hub d b) i (r + d)"
  using assms books_okD [OF assms(1)]
  by (auto simp: books_ok_def table_simps move_row_def)

lemma books_transfer:
  assumes "books_ok hub b i r" and "p \<noteq> hub" and "q \<noteq> hub" and "0 \<le> d" and "d \<le> row_or b p 0"
  shows "books_ok hub (move_row p q d b) i r"
  using assms books_okD [OF assms(1)]
  by (auto simp: books_ok_def table_simps move_row_def)

lemma claims_add:
  "claims_ok t n \<Longrightarrow> 0 \<le> d \<Longrightarrow> claims_ok (AList.update k (row_or t k 0 + d) t) (n + d)"
  by (auto simp: claims_ok_def table_simps)

lemma claims_sub:
  "claims_ok t n \<Longrightarrow> 0 \<le> d \<Longrightarrow> d \<le> row_or t k 0 \<Longrightarrow> claims_ok (AList.update k (row_or t k 0 - d) t) n"
  by (auto simp: claims_ok_def table_simps)

lemma claims_mono: "claims_ok t n \<Longrightarrow> n \<le> m \<Longrightarrow> claims_ok t m"
  by (auto simp: claims_ok_def)

lemma claims_row_le: "claims_ok t n \<Longrightarrow> row_or t k 0 \<le> n"
proof -
  assume t: "claims_ok t n"
  have "0 \<le> v" if "(j, v) \<in> set t" for j v
    using t that in_set_row_or [of t j v 0] unfolding claims_ok_def by metis
  then have "row_or t k 0 \<le> col_sum t"
    using t by (intro row_or_le_sum) (auto simp: claims_ok_def)
  with t show ?thesis by (simp add: claims_ok_def)
qed

section \<open>What the operations do\<close>


lemma supplyEventTx_issued:
  "supplyEventTx now supplyIssued amt l = Inr l' \<longleftrightarrow> 0 < amt \<and> issued l + amt \<le> max_int64 \<and>
     l' = l\<lparr>events_since := events_since l + 1,
            last_to_day := (case last_to_day l of None \<Rightarrow> Some (utcDay now - 1) | Some d \<Rightarrow> Some d),
            issued := issued l + amt\<rparr>"
  by (auto simp: supplyEventTx_def Let_def)

lemma supplyEventTx_redeemed:
  "supplyEventTx now supplyRedeemed amt l = Inr l' \<longleftrightarrow> 0 < amt \<and> redeemed l + amt \<le> max_int64 \<and>
     l' = l\<lparr>events_since := events_since l + 1,
            last_to_day := (case last_to_day l of None \<Rightarrow> Some (utcDay now - 1) | Some d \<Rightarrow> Some d),
            redeemed := redeemed l + amt\<rparr>"
  by (auto simp: supplyEventTx_def Let_def)

lemma add_entry_sel [simp]:
  "balances (add_entry a d w t l) = balances l" "issued (add_entry a d w t l) = issued l"
  "redeemed (add_entry a d w t l) = redeemed l" "owed (add_entry a d w t l) = owed l"
  "due (add_entry a d w t l) = due l" "settled (add_entry a d w t l) = settled l"
  "guards (add_entry a d w t l) = guards l" "cleared (add_entry a d w t l) = cleared l"
  "first_verifies (add_entry a d w t l) = first_verifies l"
  "redemptions (add_entry a d w t l) = redemptions l"
  "redemption_seq (add_entry a d w t l) = redemption_seq l"
  "hub_cleared (add_entry a d w t l) = hub_cleared l"
  "events_since (add_entry a d w t l) = events_since l"
  "last_to_day (add_entry a d w t l) = last_to_day l"
  by (simp_all add: add_entry_def)

lemmas supply_ok_parts = supply_ok_def books_ok_def claims_ok_def

text \<open>An issuance to an account other than the hub's own.\<close>

lemma creditTx_Inr:
  assumes "creditTx h now a amt reason l = Inr l'" and "hubAID h \<noteq> []" "a \<noteq> hubAID h"
    and "amt \<noteq> 0" "amt \<le> max_int64"
  shows "0 < amt" and "issued l + amt \<le> max_int64"
    and "balances l' = AList.update a (row_or (balances l) a 0 + amt)
                         (AList.update (hubAID h) (row_or (balances l) (hubAID h) 0 - amt) (balances l))"
    and "issued l' = issued l + amt" and "redeemed l' = redeemed l"
    and "owed l' = owed l" and "due l' = due l"
    and "entries l' = entries l @
      [\<lparr>e_seq = entry_seq l + 1, e_aid = hubAID h, e_delta = - amt,
        e_reason = reasonIssued @ '':'' @ reason, e_at = ledgerStamp now\<rparr>,
       \<lparr>e_seq = entry_seq l + 2, e_aid = a, e_delta = amt, e_reason = reason, e_at = ledgerStamp now\<rparr>]"
proof -
  from assms obtain b l1 b' where pos: "0 < amt"
    and b: "addToRow (balances l) (hubAID h) (- amt) = Inr b"
    and l1: "supplyEventTx now supplyIssued amt (add_entry (hubAID h) (- amt)
               (reasonIssued @ '':'' @ reason) (ledgerStamp now) (l\<lparr>balances := b\<rparr>)) = Inr l1"
    and b': "addToRow (balances l1) a amt = Inr b'"
    and l': "l' = add_entry a amt reason (ledgerStamp now) (l1\<lparr>balances := b'\<rparr>)"
    by (auto simp: creditTx_def Let_def rbind_eq_Inr split: if_splits)
  note B = addToRow_debit [OF b pos assms(5)]
  note B' = addToRow_credit [OF b' less_imp_le [OF pos] assms(5)]
  from pos show "0 < amt" .
  show "issued l + amt \<le> max_int64" using l1 by (simp add: supplyEventTx_issued)
  show "balances l' = AList.update a (row_or (balances l) a 0 + amt)
                         (AList.update (hubAID h) (row_or (balances l) (hubAID h) 0 - amt) (balances l))"
    "issued l' = issued l + amt" "redeemed l' = redeemed l" "owed l' = owed l" "due l' = due l"
    "entries l' = entries l @
      [\<lparr>e_seq = entry_seq l + 1, e_aid = hubAID h, e_delta = - amt,
        e_reason = reasonIssued @ '':'' @ reason, e_at = ledgerStamp now\<rparr>,
       \<lparr>e_seq = entry_seq l + 2, e_aid = a, e_delta = amt, e_reason = reason, e_at = ledgerStamp now\<rparr>]"
    using l1 assms(3) by (auto simp: supplyEventTx_issued l' B B' table_simps add_entry_def)
qed

lemma creditTx_supply_ok:
  assumes "creditTx h now a amt reason l = Inr l'" and "a \<noteq> hubAID h" and "amt \<le> max_int64"
    and "supply_ok h l"
  shows "supply_ok h l'"
proof (cases "amt = 0")
  case True
  with assms show ?thesis by (simp add: creditTx_def)
next
  case False
  have hub: "hubAID h \<noteq> []" and books: "books_ok (hubAID h) (balances l) (issued l) (redeemed l)"
    and cl: "claims_ok (owed l) (issued l)" "claims_ok (due l) (redeemed l)"
    using assms(4) by (auto simp: supply_ok_def)
  note c = creditTx_Inr [OF assms(1) hub assms(2) False assms(3)]
  have "books_ok (hubAID h) (balances l') (issued l') (redeemed l')"
    unfolding c(3-5) using books_issue(1) [OF books assms(2) _ c(2)] c(1) assms(2)
    by (simp add: table_simps)
  with hub cl c show ?thesis by (auto simp: supply_ok_def intro: claims_mono)
qed

lemma issueTx_creditTx: "issueTx h now a amt reason l = Inr l' \<Longrightarrow> 0 < amt \<and> creditTx h now a amt reason l = Inr l'"
  by (auto simp: issueTx_def rbind_eq_Inr split: if_splits)

lemma GrantCredit_issueTx:
  "GrantCredit h now a amt reason l = Inr l' \<Longrightarrow>
     \<exists>reason'. issueTx h now a amt reason' l = Inr l' \<and> 0 < amt"
  by (auto simp: GrantCredit_def Let_def split: if_splits)

lemma GrantCredit_supply_ok:
  "GrantCredit h now a amt reason l = Inr l' \<Longrightarrow> a \<noteq> hubAID h \<Longrightarrow> amt \<le> max_int64 \<Longrightarrow>
     supply_ok h l \<Longrightarrow> supply_ok h l'"
  using GrantCredit_issueTx issueTx_creditTx creditTx_supply_ok by metis

end
