(* ===== verification/Wire_B64.thy ===== *)
theory Wire_B64
  imports Hub_Prelude
begin

text \<open>
  \<open>internal/wire3/b64url.go\<close>: the one spelling of a binary value on the wire, and the decode
  errors of \<open>internal/wire3/strict.go\<close> it is refused with. A base64 digit is a number below 64;
  four of them make three bytes. Go's \<open>encoding/base64\<close> is modelled as far as the hub uses it:
  \<open>RawURLEncoding.Strict()\<close> (no padding, unused low bits zero) and \<open>StdEncoding\<close> (padded, line
  breaks skipped, unused low bits ignored), which the facilitator reads authorizations and
  receipts with.

  The lemmas show that decoding inverts encoding and encoding inverts decoding, so a byte string
  has exactly one accepted spelling, and how many bytes a spelling of a given length has.
\<close>

section \<open>Digits\<close>

datatype decode_error_kind =
  KindSyntax | KindUTF8 | KindUnknownMember | KindDuplicateMember | KindNUL | KindType | KindRead
  | KindDepth | KindB64URL | KindSize

record decode_error =
  de_kind :: decode_error_kind
  de_member :: string
  de_size :: nat

definition char_between :: "char \<Rightarrow> char \<Rightarrow> char \<Rightarrow> bool" where
  "char_between lo hi c \<longleftrightarrow> (of_char lo :: nat) \<le> of_char c \<and> (of_char c :: nat) \<le> of_char hi"

definition b64urlChar :: "char \<Rightarrow> bool" where
  "b64urlChar c \<longleftrightarrow> char_between (CHR ''A'') (CHR ''Z'') c \<or> char_between (CHR ''a'') (CHR ''z'') c
    \<or> char_between (CHR ''0'') (CHR ''9'') c \<or> c = CHR ''-'' \<or> c = CHR ''_''"

text \<open>The digit a character stands for, and the character of a digit, in an alphabet whose last two
  characters are \<open>p\<close> and \<open>q\<close>.\<close>

definition digit_of :: "char \<Rightarrow> char \<Rightarrow> char \<Rightarrow> nat option" where
  "digit_of p q c =
    (let n = of_char c :: nat in
     if 65 \<le> n \<and> n \<le> 90 then Some (n - 65)
     else if 97 \<le> n \<and> n \<le> 122 then Some (n - 71)
     else if 48 \<le> n \<and> n \<le> 57 then Some (n + 4)
     else if c = p then Some 62
     else if c = q then Some 63
     else None)"

definition char_of_digit :: "char \<Rightarrow> char \<Rightarrow> nat \<Rightarrow> char" where
  "char_of_digit p q d =
    (if d < 26 then char_of (d + 65)
     else if d < 52 then char_of (d + 71)
     else if d < 62 then char_of (d - 4)
     else if d = 62 then p else q)"

abbreviation url_digit :: "char \<Rightarrow> nat option" where
  "url_digit \<equiv> digit_of (CHR ''-'') (CHR ''_'')"

abbreviation url_char :: "nat \<Rightarrow> char" where
  "url_char \<equiv> char_of_digit (CHR ''-'') (CHR ''_'')"

abbreviation std_digit :: "char \<Rightarrow> nat option" where
  "std_digit \<equiv> digit_of (CHR ''+'') (CHR ''/'')"

abbreviation std_char :: "nat \<Rightarrow> char" where
  "std_char \<equiv> char_of_digit (CHR ''+'') (CHR ''/'')"

section \<open>Groups of digits and bytes\<close>

definition byte0 :: "nat \<Rightarrow> nat \<Rightarrow> 8 word" where "byte0 a b = word_of_nat (a * 4 + b div 16)"
definition byte1 :: "nat \<Rightarrow> nat \<Rightarrow> 8 word" where "byte1 b c = word_of_nat (b mod 16 * 16 + c div 4)"
definition byte2 :: "nat \<Rightarrow> nat \<Rightarrow> 8 word" where "byte2 c d = word_of_nat (c mod 4 * 64 + d)"

fun digits_of_bytes :: "bytes \<Rightarrow> nat list" where
  "digits_of_bytes [] = []"
| "digits_of_bytes [x] = [unat x div 4, unat x mod 4 * 16]"
| "digits_of_bytes [x, y] = [unat x div 4, unat x mod 4 * 16 + unat y div 16, unat y mod 16 * 4]"
| "digits_of_bytes (x # y # z # r) =
    [unat x div 4, unat x mod 4 * 16 + unat y div 16, unat y mod 16 * 4 + unat z div 64, unat z mod 64]
    @ digits_of_bytes r"

fun bytes_of_digits_strict :: "nat list \<Rightarrow> bytes option" where
  "bytes_of_digits_strict [] = Some []"
| "bytes_of_digits_strict [a] = None"
| "bytes_of_digits_strict [a, b] = (if b mod 16 = 0 then Some [byte0 a b] else None)"
| "bytes_of_digits_strict [a, b, c] = (if c mod 4 = 0 then Some [byte0 a b, byte1 b c] else None)"
| "bytes_of_digits_strict (a # b # c # d # r) =
    map_option (\<lambda>bs. byte0 a b # byte1 b c # byte2 c d # bs) (bytes_of_digits_strict r)"

fun digits_of_chars :: "(char \<Rightarrow> nat option) \<Rightarrow> string \<Rightarrow> nat list option" where
  "digits_of_chars v [] = Some []"
| "digits_of_chars v (c # s) =
    (case v c of None \<Rightarrow> None | Some d \<Rightarrow> map_option (\<lambda>ds. d # ds) (digits_of_chars v s))"

text \<open>\<open>base64.RawURLEncoding.Strict().DecodeString\<close> of text in the alphabet.\<close>

definition b64url_decode :: "string \<Rightarrow> bytes option" where
  "b64url_decode s =
    (case digits_of_chars url_digit s of None \<Rightarrow> None | Some ds \<Rightarrow> bytes_of_digits_strict ds)"

section \<open>The hub's decoder\<close>

definition DecodeB64URL :: "string \<Rightarrow> string \<Rightarrow> decode_error + bytes" where
  "DecodeB64URL member s =
    (if list_ex (\<lambda>c. \<not> b64urlChar c) s
     then Inl \<lparr>de_kind = KindB64URL, de_member = member, de_size = 0\<rparr>
     else case b64url_decode s of
       None \<Rightarrow> Inl \<lparr>de_kind = KindB64URL, de_member = member, de_size = 0\<rparr>
     | Some out \<Rightarrow> Inr out)"

definition DecodeB64URLSize :: "string \<Rightarrow> string \<Rightarrow> nat \<Rightarrow> decode_error + bytes" where
  "DecodeB64URLSize member s n =
    rbind (DecodeB64URL member s) (\<lambda>out.
      if length out \<noteq> n then Inl \<lparr>de_kind = KindSize, de_member = member, de_size = n\<rparr>
      else Inr out)"

definition EncodeB64URL :: "bytes \<Rightarrow> string" where
  "EncodeB64URL b = map url_char (digits_of_bytes b)"

section \<open>base64.StdEncoding\<close>

fun pad_encode :: "nat list \<Rightarrow> string" where
  "pad_encode (a # b # c # d # r) = std_char a # std_char b # std_char c # std_char d # pad_encode r"
| "pad_encode [a, b, c] = [std_char a, std_char b, std_char c, CHR ''='']"
| "pad_encode [a, b] = [std_char a, std_char b, CHR ''='', CHR ''='']"
| "pad_encode [a] = []"
| "pad_encode [] = []"

definition std_encode :: "bytes \<Rightarrow> string" where
  "std_encode b = pad_encode (digits_of_bytes b)"

fun std_quanta :: "string \<Rightarrow> bytes option" where
  "std_quanta [] = Some []"
| "std_quanta (w # x # y # z # r) =
    (case (std_digit w, std_digit x) of
      (Some a, Some b) \<Rightarrow>
        if y = CHR ''='' then (if z = CHR ''='' \<and> r = [] then Some [byte0 a b] else None)
        else (case std_digit y of
          None \<Rightarrow> None
        | Some c \<Rightarrow>
            if z = CHR ''='' then (if r = [] then Some [byte0 a b, byte1 b c] else None)
            else (case std_digit z of
              None \<Rightarrow> None
            | Some d \<Rightarrow> map_option (\<lambda>bs. byte0 a b # byte1 b c # byte2 c d # bs) (std_quanta r)))
    | _ \<Rightarrow> None)"
| "std_quanta _ = None"

definition std_decode :: "string \<Rightarrow> bytes option" where
  "std_decode s = std_quanta (filter (\<lambda>c. c \<noteq> CHR 0x0A \<and> c \<noteq> CHR 0x0D) s)"

section \<open>Lemmas\<close>

lemma char_of_digit_inj:
  "d < 64 \<Longrightarrow> digit_of p q (char_of_digit p q d) = Some d"
  if "digit_of p q p = Some 62" and "digit_of p q q = Some 63" for p q d
proof -
  assume d: "d < 64"
  consider "d < 26" | "26 \<le> d" "d < 52" | "52 \<le> d" "d < 62" | "d = 62" | "d = 63"
    using d by linarith
  then show ?thesis
    by cases (use that in \<open>auto simp: digit_of_def char_of_digit_def Let_def\<close>)
qed

lemma url_digit_char: "d < 64 \<Longrightarrow> url_digit (url_char d) = Some d"
  by (rule char_of_digit_inj) (simp_all add: digit_of_def)

lemma std_digit_char: "d < 64 \<Longrightarrow> std_digit (std_char d) = Some d"
  by (rule char_of_digit_inj) (simp_all add: digit_of_def)

lemma digit_of_bound: "digit_of p q c = Some d \<Longrightarrow> d < 64"
  by (auto simp: digit_of_def Let_def split: if_splits)

lemma url_char_digit: "url_digit c = Some d \<Longrightarrow> url_char d = c"
proof -
  assume h: "url_digit c = Some d"
  have cc: "char_of (of_char c :: nat) = c" by simp
  from h show ?thesis
    by (auto simp: digit_of_def char_of_digit_def Let_def cc split: if_splits)
qed

lemma b64urlChar_digit: "b64urlChar c \<longleftrightarrow> url_digit c \<noteq> None"
  by (auto simp: b64urlChar_def char_between_def digit_of_def Let_def)

lemma byte_lt: "unat (x :: 8 word) < 256"
  using unsigned_less [of x] by simp

lemma digits_of_bytes_bound: "d \<in> set (digits_of_bytes b) \<Longrightarrow> d < 64"
proof (induction b rule: digits_of_bytes.induct)
  case (2 x)
  then show ?case using byte_lt [of x] by auto
next
  case (3 x y)
  then show ?case using byte_lt [of x] byte_lt [of y] by auto
next
  case (4 x y z r)
  then show ?case using byte_lt [of x] byte_lt [of y] byte_lt [of z] by auto
qed simp

lemma byte_split:
  fixes x y z :: "8 word"
  shows "byte0 (unat x div 4) (unat x mod 4 * 16 + unat y div 16) = x"
    and "byte0 (unat x div 4) (unat x mod 4 * 16) = x"
    and "byte1 (unat x mod 4 * 16 + unat y div 16) (unat y mod 16 * 4 + unat z div 64) = y"
    and "byte1 (unat x mod 4 * 16 + unat y div 16) (unat y mod 16 * 4) = y"
    and "byte2 (unat y mod 16 * 4 + unat z div 64) (unat z mod 64) = z"
proof -
  have y: "unat y div 16 < 16" and z: "unat z div 64 < 4"
    using byte_lt [of y] byte_lt [of z] by auto
  have a: "unat x div 4 * 4 + unat x mod 4 = unat x" for x :: "8 word" by simp
  have b: "unat x div 16 * 16 + unat x mod 16 = unat x" for x :: "8 word" by simp
  show "byte0 (unat x div 4) (unat x mod 4 * 16 + unat y div 16) = x"
    using y by (simp add: byte0_def a)
  show "byte0 (unat x div 4) (unat x mod 4 * 16) = x" by (simp add: byte0_def a)
  have "(unat x mod 4 * 16 + unat y div 16) mod 16 = unat y div 16" using y by simp
  moreover have "(unat y mod 16 * 4 + unat z div 64) div 4 = unat y mod 16" using z by simp
  ultimately show "byte1 (unat x mod 4 * 16 + unat y div 16) (unat y mod 16 * 4 + unat z div 64) = y"
    by (simp add: byte1_def b)
  show "byte1 (unat x mod 4 * 16 + unat y div 16) (unat y mod 16 * 4) = y"
    using y by (simp add: byte1_def b)
  have "(unat y mod 16 * 4 + unat z div 64) mod 4 = unat z div 64" using z by simp
  then show "byte2 (unat y mod 16 * 4 + unat z div 64) (unat z mod 64) = z"
    by (simp add: byte2_def)
qed

lemma bytes_digits: "bytes_of_digits_strict (digits_of_bytes b) = Some b"
  by (induction b rule: digits_of_bytes.induct) (simp_all add: byte_split)

lemma digits_chars:
  "\<forall>d \<in> set ds. d < 64 \<Longrightarrow> digits_of_chars url_digit (map url_char ds) = Some ds"
  by (induction ds) (simp_all add: url_digit_char)

lemma chars_digits: "digits_of_chars url_digit s = Some ds \<Longrightarrow> map url_char ds = s"
  by (induction s arbitrary: ds) (auto split: option.splits simp: url_char_digit)

lemma digits_of_chars_bound:
  "digits_of_chars (digit_of p q) s = Some ds \<Longrightarrow> \<forall>d \<in> set ds. d < 64"
  by (induction s arbitrary: ds) (auto split: option.splits simp: digit_of_bound)

lemma unat_bytes:
  "a < 64 \<Longrightarrow> b < 64 \<Longrightarrow> unat (byte0 a b) = a * 4 + b div 16"
  "b < 64 \<Longrightarrow> c < 64 \<Longrightarrow> unat (byte1 b c) = b mod 16 * 16 + c div 4"
  "c < 64 \<Longrightarrow> d < 64 \<Longrightarrow> unat (byte2 c d) = c mod 4 * 64 + d"
proof -
  have small: "n < 256 \<Longrightarrow> unat (word_of_nat n :: 8 word) = n" for n
    by (simp add: unat_of_nat)
  show "unat (byte0 a b) = a * 4 + b div 16" if "a < 64" "b < 64"
    unfolding byte0_def by (rule small) (use that in linarith)
  show "unat (byte1 b c) = b mod 16 * 16 + c div 4" if "b < 64" "c < 64"
    unfolding byte1_def by (rule small) (use that in linarith)
  show "unat (byte2 c d) = c mod 4 * 64 + d" if "c < 64" "d < 64"
    unfolding byte2_def by (rule small) (use that in linarith)
qed

lemma digits_bytes:
  "bytes_of_digits_strict ds = Some b \<Longrightarrow> \<forall>d \<in> set ds. d < 64 \<Longrightarrow> digits_of_bytes b = ds"
proof (induction ds arbitrary: b rule: bytes_of_digits_strict.induct)
  case (3 a b')
  then show ?case by (auto simp: unat_bytes split: if_splits)
next
  case (4 a b' c)
  then show ?case by (auto simp: unat_bytes split: if_splits)
next
  case (5 a b' c d r)
  then obtain bs where "bytes_of_digits_strict r = Some bs"
    and b: "b = byte0 a b' # byte1 b' c # byte2 c d # bs" by auto
  with 5 have "digits_of_bytes bs = r" by simp
  with 5 b show ?case by (auto simp: unat_bytes)
qed simp_all

lemma length_digits: "length (digits_of_bytes b) = (4 * length b + 2) div 3"
  by (induction b rule: digits_of_bytes.induct) auto

lemma list_all_digits:
  "\<not> list_ex (\<lambda>c. \<not> b64urlChar c) s \<longleftrightarrow> digits_of_chars url_digit s \<noteq> None"
  by (induction s) (auto simp: b64urlChar_digit split: option.splits)

lemma DecodeB64URL_Inr:
  "DecodeB64URL m s = Inr b \<longleftrightarrow> b64url_decode s = Some b"
  using list_all_digits [of s] by (auto simp: DecodeB64URL_def b64url_decode_def split: option.splits)

lemma decode_encode_aux: "b64url_decode (EncodeB64URL b) = Some b"
  using digits_of_bytes_bound by (simp add: b64url_decode_def EncodeB64URL_def digits_chars bytes_digits)

lemma encode_decode_aux: "b64url_decode s = Some b \<Longrightarrow> EncodeB64URL b = s"
  by (auto simp: b64url_decode_def EncodeB64URL_def digits_bytes digits_of_chars_bound chars_digits
      split: option.splits)

lemma std_char_not_special:
  "d < 64 \<Longrightarrow> std_char d \<noteq> CHR ''='' \<and> std_char d \<noteq> CHR 0x0A \<and> std_char d \<noteq> CHR 0x0D"
  using std_digit_char [of d] by (auto simp: digit_of_def split: if_splits)

lemma std_quanta_encode: "std_quanta (std_encode b) = Some b"
proof (induction b rule: digits_of_bytes.induct)
  case (4 x y z r)
  have "\<forall>d \<in> set (digits_of_bytes [x, y, z]). d < 64" using digits_of_bytes_bound by blast
  with 4 show ?case
    by (simp add: std_encode_def std_digit_char std_char_not_special byte_split)
next
  case (2 x)
  have "\<forall>d \<in> set (digits_of_bytes [x]). d < 64" using digits_of_bytes_bound by blast
  then show ?case
    by (simp add: std_encode_def std_digit_char std_char_not_special byte_split)
next
  case (3 x y)
  have "\<forall>d \<in> set (digits_of_bytes [x, y]). d < 64" using digits_of_bytes_bound by blast
  then show ?case
    by (simp add: std_encode_def std_digit_char std_char_not_special byte_split)
qed (simp add: std_encode_def)

lemma pad_encode_no_break:
  "\<forall>d \<in> set ds. d < 64 \<Longrightarrow> c \<in> set (pad_encode ds) \<Longrightarrow> c \<noteq> CHR 0x0A \<and> c \<noteq> CHR 0x0D"
  by (induction ds rule: pad_encode.induct) (auto simp: std_char_not_special)

lemma std_decode_encode [simp]: "std_decode (std_encode b) = Some b"
proof -
  have "\<forall>d \<in> set (digits_of_bytes b). d < 64" using digits_of_bytes_bound by blast
  then have "filter (\<lambda>c. c \<noteq> CHR 0x0A \<and> c \<noteq> CHR 0x0D) (std_encode b) = std_encode b"
    using pad_encode_no_break unfolding std_encode_def by (auto simp: filter_id_conv)
  then show ?thesis by (simp add: std_decode_def std_quanta_encode)
qed

lemma std_encode_nonempty: "b \<noteq> [] \<Longrightarrow> std_encode b \<noteq> []"
  by (cases b rule: digits_of_bytes.cases) (auto simp: std_encode_def)

end
