(* ===== verification/Facilitator.thy ===== *)
theory Facilitator
  imports Ledger Wire_B64
begin

text \<open>
  \<open>internal/aghub/facilitator.go\<close>, \<open>kelreplay.go\<close> and \<open>hubobjects.go\<close>: the checks of a payment and
  its settlement on this hub's ledger. Every door onto the ledger (\<open>/x402/verify\<close>,
  \<open>/x402/settle\<close>, \<open>/fed/v3/settle\<close>, \<open>/x402/redeem\<close>) is a definition that returns the new ledger and
  its answer; a transaction that is rolled back returns the ledger it began with.

  \<open>kels\<close> is the column \<open>kel\<close> of the table of registered agents. \<open>now\<close> is the reading of the hub's
  clock; a request reads it several times, and the model lets one request see one reading.
\<close>

section \<open>The agent table as the ledger reads it\<close>

definition registered :: "(aid, bytes) table \<Rightarrow> aid \<Rightarrow> bool" where
  "registered kels a \<longleftrightarrow> has_key kels a"

definition AgentKEL_of :: "(aid, bytes) table \<Rightarrow> aid \<Rightarrow> bytes option" where
  "AgentKEL_of kels a = map_of kels a"

section \<open>Refusals as answers\<close>

definition error_reason :: "error \<Rightarrow> reason option" where
  "error_reason e = (case e of Refused r \<Rightarrow> Some r | _ \<Rightarrow> None)"

text \<open>A refusal names its reason. A nil dereference aborts the request instead (\<open>net/http\<close> recovers
  it): it is an unsuccessful answer without a reason here.\<close>

definition refusedSettlement :: "core \<Rightarrow> error \<Rightarrow> authorization option \<Rightarrow> string \<Rightarrow> settlement_response" where
  "refusedSettlement c e auth network =
    (let out = \<lparr>Success = False, ErrorReason = error_reason e, SPayer = [], STransaction = [],
                SNetwork = network, SAmount = 0, ExtReceipt = None, ExtReplayed = False, ExtOriginal = None\<rparr>
     in case auth of
       None \<Rightarrow> out
     | Some a \<Rightarrow> out\<lparr>SPayer := Payer a, SAmount := Amount a,
                    STransaction := (case AuthID c a of None \<Rightarrow> [] | Some i \<Rightarrow> i)\<rparr>)"

lemma refusedSettlement_sel [simp]:
  "\<not> Success (refusedSettlement c e auth n)" "ErrorReason (refusedSettlement c e auth n) = error_reason e"
  "\<not> ExtReplayed (refusedSettlement c e auth n)" "ExtReceipt (refusedSettlement c e auth n) = None"
  "SNetwork (refusedSettlement c e auth n) = n"
  by (simp_all add: refusedSettlement_def Let_def split: option.split)

section \<open>The terms of a payment\<close>

definition CheckRequirements ::
  "core \<Rightarrow> payment_payload option \<Rightarrow> authorization option \<Rightarrow> requirements option \<Rightarrow> reason option" where
  "CheckRequirements c p auth req =
    (case req of
      None \<Rightarrow> Some ReasonInvalidRequirements
    | Some req \<Rightarrow>
      (case ParseAmount c (ReqAmount req) of
        None \<Rightarrow> Some ReasonInvalidRequirements
      | Some want \<Rightarrow>
        if amountInt64 want = None then Some ReasonInvalidRequirements
        else if ReqPayTo req = [] \<or> ReqNetwork req = [] then Some ReasonInvalidRequirements
        else (case (p, auth) of
          (Some p, Some auth) \<Rightarrow>
            if amountInt64 (Amount auth) = None then Some ReasonInvalidAmount
            else if ReqScheme req \<noteq> SchemeCredit c then Some ReasonUnsupportedScheme
            else if AcceptedScheme p \<noteq> ReqScheme req then Some ReasonUnsupportedScheme
            else if AcceptedNetwork p \<noteq> ReqNetwork req then Some ReasonNetworkMismatch
            else if Network auth \<noteq> ReqNetwork req then Some ReasonNetworkMismatch
            else if PayTo auth \<noteq> ReqPayTo req then Some ReasonPayeeMismatch
            else if AcceptedPayTo p \<noteq> PayTo auth then Some ReasonPayeeMismatch
            else if ParseAmount c (AcceptedAmount p) \<noteq> Some (Amount auth) then Some ReasonInvalidAmount
            else if Amount auth < want then Some ReasonInvalidAmount
            else None
        | _ \<Rightarrow> Some ReasonMalformed)))"

section \<open>Decoding an authorization\<close>

definition maxAuthWindowMillis :: "core \<Rightarrow> u64" where
  "maxAuthWindowMillis c = word_of_int (go_div (MaxAuthWindow c) ms_ns)"

definition authWindow :: "core \<Rightarrow> authorization \<Rightarrow> reason option" where
  "authWindow c a =
    (if NotAfter a > IssuedAt a
        \<and> (word_of_int (NotAfter a) - word_of_int (IssuedAt a) :: u64) > maxAuthWindowMillis c
     then Some ReasonAuthWindowTooLong else None)"

text \<open>\<open>Inl (auth, e)\<close> is a refusal with the authorization when one could be decoded.\<close>

type_synonym 'a checked = "(authorization option \<times> error) + 'a"

definition parseAuth :: "core \<Rightarrow> payment_payload option \<Rightarrow> authorization checked" where
  "parseAuth c p =
    (case p of
      None \<Rightarrow> Inl (None, Refused ReasonMalformed)
    | Some p \<Rightarrow>
      (let raw = (case map_of (Payload p) ''authorization'' of Some (AnyString s) \<Rightarrow> s | _ \<Rightarrow> []) in
       if raw = [] then Inl (None, Refused ReasonMalformed)
       else (case std_decode raw of
         None \<Rightarrow> Inl (None, Refused ReasonMalformed)
       | Some b \<Rightarrow> (case UnmarshalAuthorization c b of
           None \<Rightarrow> Inl (None, Refused ReasonMalformed)
         | Some auth \<Rightarrow>
             if amountInt64 (Amount auth) = None then Inl (None, Refused ReasonInvalidAmount)
             else (case authWindow c auth of
               Some r \<Rightarrow> Inl (Some auth, Refused r)
             | None \<Rightarrow> Inr auth)))))"

section \<open>A signature before its replay\<close>

definition current_key :: "kel \<Rightarrow> bytes" where
  "current_key k = foldl (\<lambda>key e. if (EvType e = Inception \<or> EvType e = Rotation) \<and> EvKeys e \<noteq> []
                                  then hd (EvKeys e) else key) [] k"

definition plausibleSignature :: "core \<Rightarrow> kel \<Rightarrow> u64 \<Rightarrow> bytes \<Rightarrow> bytes \<Rightarrow> sig_error option" where
  "plausibleSignature c k seq pre sg =
    (if unat seq \<ge> length k then Some KeyStateDowngrade
     else if EvType (k ! unat seq) = Deactivation then Some RevokedKey
     else let key = current_key (take (unat seq + 1) k) in
       if length key \<noteq> 32 then Some UnknownAID
       else if \<not> Ed25519Verify c key pre sg then Some InvalidSignature
       else None)"

definition plausibleEnvelope ::
  "core \<Rightarrow> envelope option \<Rightarrow> aid \<Rightarrow> kel \<Rightarrow> bytes option \<Rightarrow> sig_error option" where
  "plausibleEnvelope c env signer k preimage =
    (case env of
      None \<Rightarrow> None
    | Some e \<Rightarrow>
      if \<not> EnvelopeValid c e \<or> SignerAID e \<noteq> signer then None
      else (case preimage of
        None \<Rightarrow> None
      | Some pre \<Rightarrow> plausibleSignature c k (KeyStateSeq e) pre (Sig e)))"

definition verifyReason :: "verify_error \<Rightarrow> reason" where
  "verifyReason e = (case e of VErrExpired \<Rightarrow> ReasonExpiredPayment | VErrBadWindow \<Rightarrow> ReasonExpiredPayment
                             | VErrOther \<Rightarrow> ReasonInvalidSignature)"

definition verifiedAuth ::
  "core \<Rightarrow> (aid, bytes) table \<Rightarrow> aid \<Rightarrow> payment_payload option \<Rightarrow> (authorization \<times> string \<times> kel) checked" where
  "verifiedAuth c kels hub p =
    (case p of
      None \<Rightarrow> Inl (None, Refused ReasonMalformed)
    | Some pp \<Rightarrow>
      if AcceptedScheme pp \<noteq> SchemeCredit c then Inl (None, Refused ReasonUnsupportedScheme)
      else if AcceptedNetwork pp \<noteq> CreditNetwork c hub then Inl (None, Refused ReasonNetworkMismatch)
      else rbind (parseAuth c p) (\<lambda>auth.
        let no = (\<lambda>r. Inl (Some auth, Refused r)) in
        if Network auth \<noteq> CreditNetwork c hub then no ReasonNetworkMismatch
        else (case AuthID c auth of
          None \<Rightarrow> no ReasonMalformed
        | Some i \<Rightarrow> (case AgentKEL_of kels (Payer auth) of
            None \<Rightarrow> no ReasonUnknownPayer
          | Some kb \<Rightarrow> (case UnmarshalKEL c kb of
              None \<Rightarrow> no ReasonSettlementFailed
            | Some k \<Rightarrow>
                if IssuedAt auth > 0 \<and> NotAfter auth > IssuedAt auth
                   \<and> plausibleEnvelope c (AEnvelope auth) (Payer auth) k (AuthPreimage c auth) \<noteq> None
                then no ReasonInvalidSignature
                else (case AuthVerify c auth k (IssuedAt auth) of
                  Some e \<Rightarrow> no (verifyReason e)
                | None \<Rightarrow> Inr (auth, i, k)))))))"

section \<open>The first verification\<close>

definition currentAuth :: "core \<Rightarrow> authorization \<Rightarrow> kel \<Rightarrow> millis \<Rightarrow> error option" where
  "currentAuth c auth k now = map_option (\<lambda>e. Refused (verifyReason e)) (AuthVerify c auth k now)"

definition maxFirstVerifyPerPayer :: nat where "maxFirstVerifyPerPayer = 5000"
definition maxFirstVerifyUnfunded :: nat where "maxFirstVerifyUnfunded = 20"

text \<open>\<open>None\<close> when no row is found.\<close>

definition firstVerifyOf :: "ledger \<Rightarrow> string \<Rightarrow> aid \<Rightarrow> u64 \<Rightarrow> bool option" where
  "firstVerifyOf l i payer seq =
    (case map_of (first_verifies l) i of
      None \<Rightarrow> None
    | Some r \<Rightarrow> Some (fv_tip_at_first r \<and> fv_payer r = payer \<and> fv_key_state_seq r \<ge> 0
                     \<and> word_of_int (fv_key_state_seq r) = seq))"

definition firstVerifyDeleteAfter :: "millis \<Rightarrow> millis" where
  "firstVerifyDeleteAfter not_after =
    (let keep = go_div settledKeptAfter ms_ns in
     if not_after > max_int64 - keep then max_int64 else not_after + keep)"

definition recordFirstVerify ::
  "core \<Rightarrow> (aid, bytes) table \<Rightarrow> authorization \<Rightarrow> string \<Rightarrow> u64 \<Rightarrow> millis \<Rightarrow> ledger \<Rightarrow> ledger \<times> (error + bool)" where
  "recordFirstVerify c kels auth i seq now l =
    (case firstVerifyOf l i (Payer auth) seq of
      Some tip \<Rightarrow> (l, Inr tip)
    | None \<Rightarrow>
      (case AgentKEL_of kels (Payer auth) of
        None \<Rightarrow> (l, Inl (ErrOther ''no rows''))
      | Some raw \<Rightarrow> (case UnmarshalKEL c raw of
          None \<Rightarrow> (l, Inl (ErrOther ''kel''))
        | Some k \<Rightarrow> (case Replay c k of
            None \<Rightarrow> (l, Inl (ErrOther ''replay''))
          | Some [] \<Rightarrow> (l, Inl Panicked)
          | Some (s0 # ss) \<Rightarrow>
            (let lst = last (s0 # ss);
                 tip = (StKeyStateSeq lst = seq \<and> StStatus lst = StatusActive)
             in if uint seq > max_int64 then (l, Inl (ErrOther ''key state beyond''))
             else (case amountInt64 (Amount auth) of
               None \<Rightarrow> (l, Inr tip)
             | Some amt \<Rightarrow>
               (let bal = row_or (balances l) (Payer auth) 0;
                    n = length (filter (\<lambda>(_, r). fv_payer r = Payer auth) (first_verifies l))
                in if (bal < amt \<and> n \<ge> maxFirstVerifyUnfunded) \<or> n \<ge> maxFirstVerifyPerPayer then (l, Inr tip)
                   else (l\<lparr>first_verifies := AList.update i
                            \<lparr>fv_payer = Payer auth, fv_key_state_seq = uint seq, fv_tip_at_first = tip,
                             fv_first_verified_at = now,
                             fv_delete_after = firstVerifyDeleteAfter (NotAfter auth)\<rparr> (first_verifies l)\<rparr>,
                         Inr tip))))))))"

definition keyAtFirstVerify ::
  "core \<Rightarrow> (aid, bytes) table \<Rightarrow> authorization \<Rightarrow> string \<Rightarrow> kel \<Rightarrow> millis \<Rightarrow> ledger \<Rightarrow> ledger \<times> error option" where
  "keyAtFirstVerify c kels auth i k now l =
    (case AEnvelope auth of
      None \<Rightarrow> (l, Some Panicked)
    | Some env \<Rightarrow>
      let seq = KeyStateSeq env in
      if unat seq \<ge> length k then (l, currentAuth c auth k now)
      else (case AuthVerify c auth (take (unat seq + 1) k) now of
        Some e \<Rightarrow> (l, Some (Refused (verifyReason e)))
      | None \<Rightarrow>
        (case recordFirstVerify c kels auth i seq now l of (l', r) \<Rightarrow>
          (case r of
            Inl e \<Rightarrow> (l', Some (if e = Panicked then Panicked else Refused ReasonSettlementFailed))
          | Inr tip \<Rightarrow> (l', if tip then None else currentAuth c auth k now)))))"

end
