(* ===== verification/Settlement.thy ===== *)
theory Settlement
  imports Facilitator
begin

text \<open>
  \<open>internal/aghub/facilitator.go\<close>, the movement of credit: \<open>settleAuth\<close> and what answers a repeat,
  the two doors that call it (\<open>SettleWithRequirements\<close>, \<open>SettleForPeer\<close>), the check that moves
  nothing (\<open>VerifyWithRequirements\<close>), and the entry hub's half of a settlement on a peer's ledger
  (\<open>ClearPeerSettlement\<close>, \<open>ClearFromPeer\<close>, \<open>cmd/anet-hub/wire_federation.go\<close>: \<open>peerSettler\<close>).
\<close>

section \<open>Receipts and repeats\<close>

definition signReceipt ::
  "core \<Rightarrow> hub_conf \<Rightarrow> string \<Rightarrow> aid \<Rightarrow> aid \<Rightarrow> u64 \<Rightarrow> string \<Rightarrow> millis \<Rightarrow> error + bytes option" where
  "signReceipt c h auth_id payer pay_to amount network settle_at =
    (if \<not> hasHubKey h then Inr None
     else (case SignReceipt c \<lparr>RAuthID = auth_id, RPayer = payer, RPayTo = pay_to, RAmount = amount,
                               RNetwork = network, RSettleAt = settle_at, REnvelope = None\<rparr> of
       None \<Rightarrow> Inl (ErrOther ''sign'')
     | Some b \<Rightarrow> Inr (Some b)))"

definition receipt_member :: "bytes option \<Rightarrow> string option" where
  "receipt_member b = map_option std_encode b"

text \<open>The row's receipt; one that was settled without a signing key is signed now from the row,
  and a failure to sign leaves the answer without one.\<close>

definition settledBefore ::
  "core \<Rightarrow> hub_conf \<Rightarrow> aid \<Rightarrow> string \<Rightarrow> ledger \<Rightarrow> error + (settlement_response \<times> string) option" where
  "settledBefore c h hub i l =
    (case map_of (settled l) i of
      None \<Rightarrow> Inr None
    | Some r \<Rightarrow> (case storedAmount (s_amount r) of
        None \<Rightarrow> Inl (ErrOther ''stored amount'')
      | Some amt \<Rightarrow>
        (let network = CreditNetwork c hub;
             rec = (if s_receipt r = None \<or> s_receipt r = Some []
                    then (case signReceipt c h i (s_payer r) (s_pay_to r) amt network (unix_milli (s_at r)) of
                            Inl _ \<Rightarrow> None | Inr b \<Rightarrow> b)
                    else s_receipt r)
         in Inr (Some (\<lparr>Success = True, ErrorReason = None, SPayer = s_payer r, STransaction = i,
                        SNetwork = network, SAmount = amt,
                        ExtReceipt = (if rec = Some [] then None else receipt_member rec),
                        ExtReplayed = True, ExtOriginal = None\<rparr>, s_via r)))))"

definition repeatOf ::
  "core \<Rightarrow> hub_conf \<Rightarrow> aid \<Rightarrow> string \<Rightarrow> authorization \<Rightarrow> string \<Rightarrow> ledger \<Rightarrow> settlement_response option" where
  "repeatOf c h hub i auth via l =
    (case settledBefore c h hub i l of
      Inl e \<Rightarrow> Some (refusedSettlement c (Refused ReasonSettlementFailed) (Some auth) (CreditNetwork c hub))
    | Inr None \<Rightarrow> None
    | Inr (Some (prior, settled_via)) \<Rightarrow>
        if settled_via \<noteq> via
        then Some (refusedSettlement c (Refused ReasonDuplicateNonce) (Some auth) (CreditNetwork c hub))
        else Some prior)"

definition authSettled :: "string \<Rightarrow> ledger \<Rightarrow> bool" where
  "authSettled i l \<longleftrightarrow> has_key (settled l) i"

text \<open>\<open>LIMIT 1\<close> without an order: the first row of the table that holds the guard.\<close>

definition guardHolder :: "bytes \<Rightarrow> ledger \<Rightarrow> string" where
  "guardHolder g l =
    (case filter (\<lambda>(_, r). s_guard r = Some g) (settled l) of [] \<Rightarrow> [] | (i, _) # _ \<Rightarrow> i)"

definition guardHeld :: "bytes \<Rightarrow> millis \<Rightarrow> ledger \<Rightarrow> (bool \<times> string)" where
  "guardHeld g now l =
    (case map_of (guards l) g of
      None \<Rightarrow> (False, [])
    | Some until \<Rightarrow> if until > now then (True, guardHolder g l) else (False, []))"

definition bindingRefusal :: "core \<Rightarrow> authorization \<Rightarrow> bytes \<Rightarrow> ledger \<Rightarrow> settlement_response" where
  "bindingRefusal c auth g l =
    (let holder = guardHolder g l;
         out = refusedSettlement c (Refused ReasonDuplicateBinding) (Some auth) (Network auth)
     in if holder = [] then out else out\<lparr>ExtOriginal := Some holder\<rparr>)"

definition settleConflict ::
  "core \<Rightarrow> hub_conf \<Rightarrow> aid \<Rightarrow> authorization \<Rightarrow> string \<Rightarrow> string \<Rightarrow> ledger \<Rightarrow> settlement_response" where
  "settleConflict c h hub auth i via l =
    (case repeatOf c h hub i auth via l of
      Some out \<Rightarrow> out
    | None \<Rightarrow> refusedSettlement c (Refused ReasonSettlementFailed) (Some auth) (Network auth))"

lemma bindingRefusal_sel [simp]:
  "\<not> Success (bindingRefusal c auth g l)"
  "ErrorReason (bindingRefusal c auth g l) = Some ReasonDuplicateBinding"
  by (simp_all add: bindingRefusal_def Let_def error_reason_def)

section \<open>settleAuth\<close>

text \<open>The binding key: \<open>evidence.SettleGuard\<close> refuses a field that holds U+0000.\<close>

definition settleGuardKey :: "core \<Rightarrow> aid \<Rightarrow> string \<Rightarrow> bytes option" where
  "settleGuardKey c payer pay_bind = SettleGuard c payer pay_bind"

text \<open>The upsert of the binding guard: a guard that is over is taken over, a live one affects no
  row (\<open>None\<close>).\<close>

definition takeGuard :: "time_ns \<Rightarrow> bytes \<Rightarrow> ledger \<Rightarrow> ledger option" where
  "takeGuard now g l =
    (let until = unix_milli (now + guardKept) in
     case map_of (guards l) g of
       None \<Rightarrow> Some (l\<lparr>guards := AList.update g until (guards l)\<rparr>)
     | Some u \<Rightarrow> if u \<le> unix_milli now then Some (l\<lparr>guards := AList.update g until (guards l)\<rparr>) else None)"

definition moved :: "error \<Rightarrow> error" where
  "moved e = (case e of Refused r \<Rightarrow> Refused r | Panicked \<Rightarrow> Panicked | _ \<Rightarrow> Refused ReasonSettlementFailed)"

text \<open>The balances, the supply totals, what is due to the peer and the two entries, in the
  transaction that holds the settled row and the guard.\<close>

definition settleMove ::
  "(aid, bytes) table \<Rightarrow> aid \<Rightarrow> time_ns \<Rightarrow> authorization \<Rightarrow> string \<Rightarrow> string \<Rightarrow> int \<Rightarrow> ledger \<Rightarrow> error + ledger" where
  "settleMove kels hub now auth i via amt l =
    (let at = ledgerStamp now;
         local = (PayTo auth = hub \<or> registered kels (PayTo auth));
         credited = (if via \<noteq> [] then hub else PayTo auth)
     in
     if row_or (balances l) (Payer auth) 0 < amt then Inl (Refused ReasonInsufficientFunds)
     else if via = [] \<and> \<not> local then Inl (Refused ReasonPayeeNotLocal)
     else if via \<noteq> [] \<and> local then Inl (Refused ReasonPayeeMismatch)
     else
       rbind (addToRow (balances l) (Payer auth) (- amt)) (\<lambda>b.
       rbind (if local then addToRow b (PayTo auth) amt else Inr b) (\<lambda>b.
       rbind (if PayTo auth = hub \<or> via \<noteq> [] then supplyEventTx now supplyRedeemed amt (l\<lparr>balances := b\<rparr>)
              else Inr (l\<lparr>balances := b\<rparr>)) (\<lambda>l.
       rbind (if via \<noteq> [] then
                rbind (addToRow (due l) via amt) (\<lambda>d.
                rbind (addToRow (balances l) hub amt) (\<lambda>b. Inr (l\<lparr>due := d, balances := b\<rparr>)))
              else Inr l) (\<lambda>l.
       Inr (add_entry credited amt i at (add_entry (Payer auth) (- amt) i at l)))))))"

definition settleAuth ::
  "core \<Rightarrow> hub_conf \<Rightarrow> (aid, bytes) table \<Rightarrow> aid \<Rightarrow> time_ns \<Rightarrow> authorization \<Rightarrow> string \<Rightarrow> string \<Rightarrow> ledger
    \<Rightarrow> ledger \<times> settlement_response" where
  "settleAuth c h kels hub now auth i via l =
    (let network = Network auth;
         fail = (\<lambda>e. (l, refusedSettlement c e (Some auth) network))
     in
     case amountInt64 (Amount auth) of
       None \<Rightarrow> fail (Refused ReasonInvalidAmount)
     | Some amt \<Rightarrow>
       (case (if InteractionID auth \<noteq> []
              then (case settleGuardKey c (Payer auth) (InteractionID auth) of
                      None \<Rightarrow> None | Some g \<Rightarrow> Some (Some g))
              else Some None) of
         None \<Rightarrow> fail (Refused ReasonMalformed)
       | Some guard \<Rightarrow>
         (case signReceipt c h i (Payer auth) (PayTo auth) (Amount auth) network (unix_milli now) of
           Inl e \<Rightarrow> fail (Refused ReasonSettlementFailed)
         | Inr rec \<Rightarrow>
           if has_key (settled l) i then (l, settleConflict c h hub auth i via l)
           else
             let row = \<lparr>s_payer = Payer auth, s_pay_to = PayTo auth, s_amount = amt,
                        s_at = ledgerStamp now, s_receipt = rec, s_not_after = NotAfter auth,
                        s_guard = guard, s_via = via\<rparr>;
                 l1 = l\<lparr>settled := AList.update i row (settled l)\<rparr>
             in case (case guard of None \<Rightarrow> Some l1 | Some g \<Rightarrow> takeGuard now g l1) of
                  None \<Rightarrow> (l, bindingRefusal c auth (the guard) l)
                | Some l2 \<Rightarrow>
                  (case settleMove kels hub now auth i via amt l2 of
                    Inl e \<Rightarrow> fail (moved e)
                  | Inr l3 \<Rightarrow>
                      (l3, \<lparr>Success = True, ErrorReason = None, SPayer = Payer auth, STransaction = i,
                            SNetwork = network, SAmount = Amount auth, ExtReceipt = receipt_member rec,
                            ExtReplayed = False, ExtOriginal = None\<rparr>)))))"

section \<open>The doors\<close>

definition payeeIsThisHub :: "aid \<Rightarrow> requirements \<Rightarrow> error option" where
  "payeeIsThisHub hub req =
    (if hub \<noteq> [] \<and> ReqPayTo req = hub then Some (Refused ReasonPayeeMismatch) else None)"

definition payeeHere :: "(aid, bytes) table \<Rightarrow> aid \<Rightarrow> error option" where
  "payeeHere kels pay_to = (if \<not> registered kels pay_to then Some (Refused ReasonPayeeNotLocal) else None)"

text \<open>The part of the two doors after the payee was looked at: the payment is verified, compared
  with the requirements, answered if it is a repeat, checked against the clock, and settled.\<close>

definition settleHere ::
  "core \<Rightarrow> hub_conf \<Rightarrow> (aid, bytes) table \<Rightarrow> aid \<Rightarrow> time_ns \<Rightarrow> payment_payload option \<Rightarrow> requirements option
    \<Rightarrow> string \<Rightarrow> ledger \<Rightarrow> ledger \<times> settlement_response" where
  "settleHere c h kels hub now p req via l =
    (let own = CreditNetwork c hub in
     case verifiedAuth c kels hub p of
       Inl (auth, e) \<Rightarrow> (l, refusedSettlement c e auth own)
     | Inr (auth, i, k) \<Rightarrow>
       (case CheckRequirements c p (Some auth) req of
         Some r \<Rightarrow> (l, refusedSettlement c (Refused r) (Some auth) own)
       | None \<Rightarrow>
         (case repeatOf c h hub i auth via l of
           Some out \<Rightarrow> (l, out)
         | None \<Rightarrow>
           (case keyAtFirstVerify c kels auth i k (unix_milli now) l of
             (l', Some e) \<Rightarrow> (l', refusedSettlement c e (Some auth) own)
           | (l', None) \<Rightarrow> settleAuth c h kels hub now auth i via l'))))"

text \<open>\<open>s.peerSettle\<close>: \<open>None\<close> when no federation is wired; otherwise it answers a payment on another
  ledger, or does not handle it.\<close>

type_synonym peer_settler =
  "string \<Rightarrow> payment_payload \<Rightarrow> requirements \<Rightarrow> authorization \<Rightarrow> ledger \<Rightarrow> (ledger \<times> settlement_response) option"

definition SettleWithRequirements ::
  "core \<Rightarrow> hub_conf \<Rightarrow> peer_settler option \<Rightarrow> (aid, bytes) table \<Rightarrow> aid \<Rightarrow> time_ns \<Rightarrow>
     payment_payload option \<Rightarrow> requirements option \<Rightarrow> ledger \<Rightarrow> ledger \<times> settlement_response" where
  "SettleWithRequirements c h ps kels hub now p req l =
    (let own = CreditNetwork c hub in
     case req of
       None \<Rightarrow> (l, refusedSettlement c (Refused ReasonInvalidRequirements) None own)
     | Some rq \<Rightarrow>
     (case p of
       None \<Rightarrow> (l, refusedSettlement c (Refused ReasonMalformed) None own)
     | Some pp \<Rightarrow>
     (case payeeIsThisHub hub rq of
       Some e \<Rightarrow> (l, refusedSettlement c e None own)
     | None \<Rightarrow>
     (case payeeHere kels (ReqPayTo rq) of
       Some e \<Rightarrow> (l, refusedSettlement c e None own)
     | None \<Rightarrow>
       if AcceptedNetwork pp \<noteq> own \<and> ps \<noteq> None then
         (case parseAuth c p of
           Inl (auth, e) \<Rightarrow> (l, refusedSettlement c e auth (AcceptedNetwork pp))
         | Inr auth \<Rightarrow>
           (case CheckRequirements c p (Some auth) req of
             Some r \<Rightarrow> (l, refusedSettlement c (Refused r) (Some auth) (AcceptedNetwork pp))
           | None \<Rightarrow>
             (case (the ps) (AcceptedNetwork pp) pp rq auth l of
               Some out \<Rightarrow> out
             | None \<Rightarrow> settleHere c h kels hub now p req [] l)))
       else settleHere c h kels hub now p req [] l))))"

definition SettleForPeer ::
  "core \<Rightarrow> hub_conf \<Rightarrow> (aid, bytes) table \<Rightarrow> aid \<Rightarrow> time_ns \<Rightarrow> aid \<Rightarrow>
     payment_payload option \<Rightarrow> requirements option \<Rightarrow> ledger \<Rightarrow> ledger \<times> settlement_response" where
  "SettleForPeer c h kels hub now peer p req l =
    (let own = CreditNetwork c hub in
     case req of
       None \<Rightarrow> (l, refusedSettlement c (Refused ReasonInvalidRequirements) None own)
     | Some rq \<Rightarrow>
     (case p of
       None \<Rightarrow> (l, refusedSettlement c (Refused ReasonMalformed) None own)
     | Some pp \<Rightarrow>
     (case payeeIsThisHub hub rq of
       Some e \<Rightarrow> (l, refusedSettlement c e None own)
     | None \<Rightarrow>
       if ReqPayTo rq = peer then (l, refusedSettlement c (Refused ReasonPayeeMismatch) None own)
       else if registered kels (ReqPayTo rq) then (l, refusedSettlement c (Refused ReasonPayeeMismatch) None own)
       else settleHere c h kels hub now p req peer l)))"

definition VerifyWithRequirements ::
  "core \<Rightarrow> (aid, bytes) table \<Rightarrow> aid \<Rightarrow> time_ns \<Rightarrow> payment_payload option \<Rightarrow> requirements option \<Rightarrow> ledger
    \<Rightarrow> ledger \<times> verify_response" where
  "VerifyWithRequirements c kels hub now p req l =
    (let invalid = (\<lambda>l e auth. (l, \<lparr>IsValid = False, InvalidReason = error_reason e,
                                   VPayer = (case auth of None \<Rightarrow> [] | Some a \<Rightarrow> Payer a)\<rparr>))
     in
     case req of
       None \<Rightarrow> invalid l (Refused ReasonInvalidRequirements) None
     | Some rq \<Rightarrow>
     (case p of
       None \<Rightarrow> invalid l (Refused ReasonMalformed) None
     | Some pp \<Rightarrow>
     (case payeeIsThisHub hub rq of
       Some e \<Rightarrow> invalid l e None
     | None \<Rightarrow>
     (case payeeHere kels (ReqPayTo rq) of
       Some e \<Rightarrow> invalid l e None
     | None \<Rightarrow>
     if AcceptedNetwork pp \<noteq> CreditNetwork c hub then invalid l (Refused ReasonNetworkMismatch) None
     else
     (case verifiedAuth c kels hub p of
       Inl (auth, e) \<Rightarrow> invalid l e auth
     | Inr (auth, i, k) \<Rightarrow>
     (case CheckRequirements c p (Some auth) req of
       Some r \<Rightarrow> invalid l (Refused r) (Some auth)
     | None \<Rightarrow>
     if authSettled i l then invalid l (Refused ReasonDuplicateNonce) (Some auth)
     else
     (case (if InteractionID auth \<noteq> []
            then (case settleGuardKey c (Payer auth) (InteractionID auth) of
                    None \<Rightarrow> Some (Refused ReasonMalformed)
                  | Some g \<Rightarrow> if fst (guardHeld g (unix_milli now) l)
                              then Some (Refused ReasonDuplicateBinding) else None)
            else None) of
       Some e \<Rightarrow> invalid l e (Some auth)
     | None \<Rightarrow>
     (case keyAtFirstVerify c kels auth i k (unix_milli now) l of
       (l', Some e) \<Rightarrow> invalid l' e (Some auth)
     | (l', None) \<Rightarrow>
       (case amountInt64 (Amount auth) of
         None \<Rightarrow> invalid l' (Refused ReasonInvalidAmount) (Some auth)
       | Some amt \<Rightarrow>
         if Balance l' (Payer auth) < amt then invalid l' (Refused ReasonInsufficientFunds) (Some auth)
         else (l', \<lparr>IsValid = True, InvalidReason = None, VPayer = Payer auth\<rparr>))))))))))"

section \<open>What this hub owes its peers\<close>

definition Due :: "ledger \<Rightarrow> (aid, int) table" where
  "Due l = filter (\<lambda>(_, n). n > 0) (due l)"

definition DueTo :: "ledger \<Rightarrow> aid \<Rightarrow> int" where
  "DueTo l peer = row_or (due l) peer 0"

definition DischargeDue :: "aid \<Rightarrow> int \<Rightarrow> ledger \<Rightarrow> error + ledger" where
  "DischargeDue peer amount l =
    (if amount \<le> 0 then Inl (ErrOther ''a discharge must be positive'')
     else (case map_of (due l) peer of
       None \<Rightarrow> Inl ErrOverDue
     | Some n \<Rightarrow> if n \<ge> amount then Inr (l\<lparr>due := AList.update peer (n - amount) (due l)\<rparr>)
                 else Inl ErrOverDue))"

definition Owed :: "ledger \<Rightarrow> aid \<Rightarrow> int" where
  "Owed l peer = row_or (owed l) peer 0"

end
