(* ===== verification/Settlement_Laws.thy ===== *)
theory Settlement_Laws
  imports Settlement
begin

text \<open>
  What a settlement does to the ledger. \<open>settleMove\<close> is given as one equation over the ledgers that
  satisfy the supply invariant: which of its refusals it answers with, and otherwise the exact new
  ledger. The invariant, the movement between two accounts, the idempotence of a settlement and
  the agreement of verification with settlement follow from it.
\<close>

section \<open>settleMove as one equation\<close>

text \<open>The account that receives the credit here: the payee, or this hub's own row when the payee
  banks on the peer \<open>via\<close>.\<close>

definition credited_row :: "aid \<Rightarrow> string \<Rightarrow> authorization \<Rightarrow> aid" where
  "credited_row hub via auth = (if via \<noteq> [] then hub else PayTo auth)"

text \<open>The ledger after the movement; an abstraction of the statements of the transaction.\<close>

definition settled_books ::
  "aid \<Rightarrow> time_ns \<Rightarrow> authorization \<Rightarrow> string \<Rightarrow> string \<Rightarrow> int \<Rightarrow> ledger \<Rightarrow> ledger" where
  "settled_books hub now auth i via amt l =
    (let q = credited_row hub via auth;
         l1 = l\<lparr>balances := move_row (Payer auth) q amt (balances l),
                due := (if via \<noteq> [] then AList.update via (row_or (due l) via 0 + amt) (due l) else due l)\<rparr>;
         l2 = (if q = hub
               then l1\<lparr>redeemed := redeemed l + amt, events_since := events_since l + 1,
                       last_to_day := (case last_to_day l of None \<Rightarrow> Some (utcDay now - 1) | Some d \<Rightarrow> Some d)\<rparr>
               else l1)
     in add_entry q amt i (ledgerStamp now) (add_entry (Payer auth) (- amt) i (ledgerStamp now) l2))"

definition route_refusal :: "(aid, bytes) table \<Rightarrow> aid \<Rightarrow> string \<Rightarrow> authorization \<Rightarrow> reason option" where
  "route_refusal kels hub via auth =
    (let local = (PayTo auth = hub \<or> registered kels (PayTo auth)) in
     if via = [] \<and> \<not> local then Some ReasonPayeeNotLocal
     else if via \<noteq> [] \<and> local then Some ReasonPayeeMismatch else None)"

lemma supply_okD:
  assumes "supply_ok h l"
  shows "hubAID h \<noteq> []" and "books_ok (hubAID h) (balances l) (issued l) (redeemed l)"
    and "claims_ok (owed l) (issued l)" and "claims_ok (due l) (redeemed l)"
  using assms by (auto simp: supply_ok_def)

text \<open>The bounds every guarded addition of a settlement needs.\<close>

lemma settle_bounds:
  assumes "books_ok hub b i r" and "p \<noteq> hub" and "0 < amt" and "amt \<le> row_or b p 0"
  shows "amt \<le> max_int64" and "r + amt \<le> i" and "r + amt \<le> max_int64"
    and "- max_int64 \<le> row_or b p 0 - amt"
    and "q \<noteq> hub \<Longrightarrow> row_or (AList.update p (row_or b p 0 - amt) b) q 0 + amt \<le> max_int64"
    and "row_or b hub 0 + amt \<le> max_int64"
proof -
  note B = books_okD [OF assms(1)]
  have le: "row_or b p 0 \<le> i - r" by (rule B(3)) (rule assms(2))
  with B(5-7) assms(4) show bounds: "amt \<le> max_int64" "r + amt \<le> i" "r + amt \<le> max_int64"
    and "- max_int64 \<le> row_or b p 0 - amt" by linarith+
  show "row_or b hub 0 + amt \<le> max_int64" using B(4,5) bounds by linarith
  assume q: "q \<noteq> hub"
  have "books_ok hub (move_row p q amt b) i r"
    using assms q by (intro books_transfer) auto
  from books_okD(3) [OF this q] have "row_or (move_row p q amt b) q 0 \<le> max_int64"
    using B(6,7) by linarith
  then show "row_or (AList.update p (row_or b p 0 - amt) b) q 0 + amt \<le> max_int64"
    by (simp add: move_row_def table_simps)
qed

lemma ledger_reorder:
  fixes l :: ledger
  shows "l\<lparr>redeemed := r, events_since := e, last_to_day := d, due := u, balances := b\<rparr> =
      l\<lparr>balances := b, due := u, redeemed := r, events_since := e, last_to_day := d\<rparr>"
    and "l\<lparr>balances := b, events_since := e, last_to_day := d, redeemed := r\<rparr> =
      l\<lparr>balances := b, redeemed := r, events_since := e, last_to_day := d\<rparr>"
  by simp_all

lemma settleMove_eq:
  assumes sup: "supply_ok h l" and hub: "hub = hubAID h"
    and p: "Payer auth \<noteq> hub" and amt: "0 < amt"
  shows "settleMove kels hub now auth i via amt l =
    (if Balance l (Payer auth) < amt then Inl (Refused ReasonInsufficientFunds)
     else case route_refusal kels hub via auth of
       Some r \<Rightarrow> Inl (Refused r)
     | None \<Rightarrow> Inr (settled_books hub now auth i via amt l))"
proof (cases "Balance l (Payer auth) < amt \<or> route_refusal kels hub via auth \<noteq> None")
  case True
  then show ?thesis
    by (auto simp: settleMove_def route_refusal_def Balance_def Let_def split: if_splits)
next
  case False
  let ?b = "balances l" and ?p = "Payer auth"
  let ?b1 = "AList.update ?p (row_or ?b ?p 0 - amt) ?b"
  from False have le: "amt \<le> row_or ?b ?p 0" and route: "route_refusal kels hub via auth = None"
    by (auto simp: Balance_def)
  have books: "books_ok hub ?b (issued l) (redeemed l)" using sup hub by (simp add: supply_ok_def)
  note bnd = settle_bounds [OF books p amt le]
  have in1: "in_int64 (row_or ?b1 q 0)" for q
    using books_ok_range [OF books, of q] bnd(4) le amt books_okD(3) [OF books p] books_okD(6,7) [OF books]
    by (auto simp: table_simps in_int64_def min_int64_max)
  have A1: "addToRow ?b ?p (- amt) = Inr ?b1"
    using addToRow_fits(2) [OF amt bnd(1) books_ok_range [OF books] bnd(4)] .
  have A2: "addToRow ?b1 q amt = Inr (move_row ?p q amt ?b)" for q
  proof -
    have "row_or ?b1 q 0 + amt \<le> max_int64"
      using bnd(5) [of q] bnd(6) p by (cases "q = hub") (auto simp: table_simps)
    from addToRow_fits(1) [OF amt bnd(1) in1 this] show ?thesis by (simp add: move_row_def)
  qed
  have cd: "claims_ok (due l) (redeemed l)" using sup by (simp add: supply_ok_def)
  then have "0 \<le> row_or (due l) via 0" "row_or (due l) via 0 \<le> redeemed l"
    using claims_row_le [OF cd] by (auto simp: claims_ok_def)
  then have A3: "addToRow (due l) via amt = Inr (AList.update via (row_or (due l) via 0 + amt) (due l))"
    using bnd(3) amt by (intro addToRow_fits(1) [OF amt bnd(1)]) (auto simp: in_int64_def min_int64_max)
  have "\<not> Balance l ?p < amt" using le by (simp add: Balance_def)
  then show ?thesis
    using route le bnd(3) amt p
    by (auto simp: settleMove_def settled_books_def route_refusal_def credited_row_def Let_def A1 A2 A3
        supplyEventTx_def ledger_reorder Balance_def split: if_splits)
qed

section \<open>The movement and the invariant\<close>

lemma settled_books_sel [simp]:
  "balances (settled_books hub now auth i via amt l) =
     move_row (Payer auth) (credited_row hub via auth) amt (balances l)"
  "issued (settled_books hub now auth i via amt l) = issued l"
  "redeemed (settled_books hub now auth i via amt l) =
     redeemed l + (if credited_row hub via auth = hub then amt else 0)"
  "due (settled_books hub now auth i via amt l) =
     (if via \<noteq> [] then AList.update via (row_or (due l) via 0 + amt) (due l) else due l)"
  "owed (settled_books hub now auth i via amt l) = owed l"
  "settled (settled_books hub now auth i via amt l) = settled l"
  "guards (settled_books hub now auth i via amt l) = guards l"
  "cleared (settled_books hub now auth i via amt l) = cleared l"
  "hub_cleared (settled_books hub now auth i via amt l) = hub_cleared l"
  "first_verifies (settled_books hub now auth i via amt l) = first_verifies l"
  "redemptions (settled_books hub now auth i via amt l) = redemptions l"
  "redemption_seq (settled_books hub now auth i via amt l) = redemption_seq l"
  by (simp_all add: settled_books_def Let_def)

lemma settled_books_entries:
  "entries (settled_books hub now auth i via amt l) = entries l @
     [\<lparr>e_seq = entry_seq l + 1, e_aid = Payer auth, e_delta = - amt, e_reason = i, e_at = ledgerStamp now\<rparr>,
      \<lparr>e_seq = entry_seq l + 2, e_aid = credited_row hub via auth, e_delta = amt, e_reason = i,
       e_at = ledgerStamp now\<rparr>]"
  by (simp add: settled_books_def Let_def add_entry_def)

lemma settled_books_Balance:
  "Balance (settled_books hub now auth i via amt l) a =
     Balance l a - (if a = Payer auth then amt else 0) + (if a = credited_row hub via auth then amt else 0)"
  by (simp add: Balance_def row_or_move_row)

lemma settled_books_supply_ok:
  assumes "supply_ok h l" and "Payer auth \<noteq> hubAID h" and "0 < amt" and "amt \<le> Balance l (Payer auth)"
  shows "supply_ok h (settled_books (hubAID h) now auth i via amt l)"
proof -
  let ?hub = "hubAID h"
  note S = supply_okD [OF assms(1)]
  have le: "amt \<le> row_or (balances l) (Payer auth) 0" using assms(4) by (simp add: Balance_def)
  have via: "via \<noteq> [] \<Longrightarrow> credited_row ?hub via auth = ?hub" by (simp add: credited_row_def)
  have "books_ok ?hub (move_row (Payer auth) (credited_row ?hub via auth) amt (balances l)) (issued l)
          (redeemed l + (if credited_row ?hub via auth = ?hub then amt else 0))"
    using books_redeem [OF S(2) assms(2) _ le] books_transfer [OF S(2) assms(2) _ _ le] assms(3) by auto
  moreover have "claims_ok (if via \<noteq> [] then AList.update via (row_or (due l) via 0 + amt) (due l) else due l)
      (redeemed l + (if credited_row ?hub via auth = ?hub then amt else 0))"
    using via S(4) claims_add [OF S(4), of amt via] assms(3) by (auto intro: claims_mono)
  ultimately show ?thesis using S by (simp add: supply_ok_def)
qed

section \<open>settleAuth\<close>

text \<open>Outside the books a settlement writes its row and its guard, and nothing else.\<close>

definition with_settlement ::
  "time_ns \<Rightarrow> string \<Rightarrow> settled_row \<Rightarrow> ledger \<Rightarrow> ledger" where
  "with_settlement now i row l =
    (let l1 = l\<lparr>settled := AList.update i row (settled l)\<rparr> in
     case s_guard row of
       None \<Rightarrow> l1
     | Some g \<Rightarrow> l1\<lparr>guards := AList.update g (unix_milli (now + guardKept)) (guards l)\<rparr>)"

lemma with_settlement_sel [simp]:
  "balances (with_settlement now i row l) = balances l" "issued (with_settlement now i row l) = issued l"
  "redeemed (with_settlement now i row l) = redeemed l" "due (with_settlement now i row l) = due l"
  "owed (with_settlement now i row l) = owed l" "cleared (with_settlement now i row l) = cleared l"
  "hub_cleared (with_settlement now i row l) = hub_cleared l"
  "entries (with_settlement now i row l) = entries l"
  "first_verifies (with_settlement now i row l) = first_verifies l"
  "redemptions (with_settlement now i row l) = redemptions l"
  "redemption_seq (with_settlement now i row l) = redemption_seq l"
  "settled (with_settlement now i row l) = AList.update i row (settled l)"
  by (simp_all add: with_settlement_def Let_def split: option.split)

lemma supply_ok_with_settlement [simp]: "supply_ok h (with_settlement now i row l) = supply_ok h l"
  by (simp add: supply_ok_def)

lemma Balance_with_settlement [simp]: "Balance (with_settlement now i row l) = Balance l"
  by (simp add: Balance_def fun_eq_iff)

lemma takeGuard_Some:
  "takeGuard now g l = Some l' \<longleftrightarrow>
     (\<forall>u. map_of (guards l) g = Some u \<longrightarrow> u \<le> unix_milli now) \<and>
     l' = l\<lparr>guards := AList.update g (unix_milli (now + guardKept)) (guards l)\<rparr>"
  by (auto simp: takeGuard_def Let_def split: option.splits)

definition guard_of :: "core \<Rightarrow> authorization \<Rightarrow> bytes option option" where
  "guard_of c auth =
    (if InteractionID auth \<noteq> []
     then (case settleGuardKey c (Payer auth) (InteractionID auth) of None \<Rightarrow> None | Some g \<Rightarrow> Some (Some g))
     else Some None)"

text \<open>The two outcomes of a settlement: it moved nothing, or it settled for the first time.\<close>

lemma settleAuth_cases:
  assumes "settleAuth c h kels hub now auth i via l = (l', out)"
  shows "l' = l \<and> (Success out \<longrightarrow> has_key (settled l) i) \<or>
    (\<exists>amt guard rec.
       amountInt64 (Amount auth) = Some amt \<and> guard_of c auth = Some guard \<and>
       signReceipt c h i (Payer auth) (PayTo auth) (Amount auth) (Network auth) (unix_milli now) = Inr rec \<and>
       \<not> has_key (settled l) i \<and>
       (\<forall>g u. guard = Some g \<longrightarrow> map_of (guards l) g = Some u \<longrightarrow> u \<le> unix_milli now) \<and>
       settleMove kels hub now auth i via amt
         (with_settlement now i \<lparr>s_payer = Payer auth, s_pay_to = PayTo auth, s_amount = amt,
            s_at = ledgerStamp now, s_receipt = rec, s_not_after = NotAfter auth, s_guard = guard,
            s_via = via\<rparr> l) = Inr l' \<and>
       out = \<lparr>Success = True, ErrorReason = None, SPayer = Payer auth, STransaction = i,
              SNetwork = Network auth, SAmount = Amount auth, ExtReceipt = receipt_member rec,
              ExtReplayed = False, ExtOriginal = None\<rparr>)"
proof -
  define row where "row amt guard rec = \<lparr>s_payer = Payer auth, s_pay_to = PayTo auth, s_amount = amt,
      s_at = ledgerStamp now, s_receipt = rec, s_not_after = NotAfter auth, s_guard = guard, s_via = via\<rparr>"
    for amt guard rec
  show ?thesis
  proof (cases "has_key (settled l) i")
    case True
    with assms show ?thesis
      by (auto simp: settleAuth_def Let_def split: option.splits sum.splits if_splits)
  next
    case False
    consider (none) "amountInt64 (Amount auth) = None \<or> guard_of c auth = None \<or>
        (\<exists>e. signReceipt c h i (Payer auth) (PayTo auth) (Amount auth) (Network auth) (unix_milli now) = Inl e)"
      | (some) amt guard rec where "amountInt64 (Amount auth) = Some amt" "guard_of c auth = Some guard"
        "signReceipt c h i (Payer auth) (PayTo auth) (Amount auth) (Network auth) (unix_milli now) = Inr rec"
      by (metis option.exhaust sum.exhaust)
    then show ?thesis
    proof cases
      case none
      with assms show ?thesis
        unfolding settleAuth_def guard_of_def [symmetric] Let_def
        by (auto split: option.splits sum.splits simp: False)
    next
      case some
      define st where "st = (case guard of
          None \<Rightarrow> Some (l\<lparr>settled := AList.update i (row amt guard rec) (settled l)\<rparr>)
        | Some g \<Rightarrow> takeGuard now g (l\<lparr>settled := AList.update i (row amt guard rec) (settled l)\<rparr>))"
      have eq: "settleAuth c h kels hub now auth i via l =
        (case st of
           None \<Rightarrow> (l, bindingRefusal c auth (the guard) l)
         | Some l2 \<Rightarrow> (case settleMove kels hub now auth i via amt l2 of
             Inl e \<Rightarrow> (l, refusedSettlement c (moved e) (Some auth) (Network auth))
           | Inr l3 \<Rightarrow> (l3, \<lparr>Success = True, ErrorReason = None, SPayer = Payer auth, STransaction = i,
              SNetwork = Network auth, SAmount = Amount auth, ExtReceipt = receipt_member rec,
              ExtReplayed = False, ExtOriginal = None\<rparr>)))"
        unfolding settleAuth_def guard_of_def [symmetric] Let_def row_def st_def by (simp add: False some)
      have stage: "(\<forall>g u. guard = Some g \<longrightarrow> map_of (guards l) g = Some u \<longrightarrow> u \<le> unix_milli now) \<and>
              l2 = with_settlement now i (row amt guard rec) l" if "st = Some l2" for l2
        using that by (auto simp: st_def takeGuard_Some with_settlement_def row_def Let_def split: option.splits)
      show ?thesis
      proof (cases st)
        case None
        with assms eq show ?thesis by auto
      next
        case (Some l2)
        with assms eq stage [OF Some] some False show ?thesis
          by (cases "settleMove kels hub now auth i via amt l2") (auto simp: row_def)
      qed
    qed
  qed
qed

lemma settledBefore_replayed:
  "settledBefore c h hub i l = Inr (Some (out, via)) \<Longrightarrow> Success out \<and> ExtReplayed out \<and> has_key (settled l) i"
  by (auto simp: settledBefore_def Let_def has_key_def split: option.splits)

lemma repeatOf_replayed:
  "repeatOf c h hub i auth via l = Some out \<Longrightarrow> Success out \<Longrightarrow> ExtReplayed out \<and> has_key (settled l) i"
  by (auto simp: repeatOf_def split: sum.splits option.splits if_splits dest!: settledBefore_replayed)

lemma repeatOf_None: "repeatOf c h hub i auth via l = None \<longleftrightarrow> \<not> has_key (settled l) i"
  by (auto simp: repeatOf_def settledBefore_def has_key_def Let_def split: option.splits if_splits)

text \<open>The row a settlement writes.\<close>

definition row_of ::
  "authorization \<Rightarrow> time_ns \<Rightarrow> int \<Rightarrow> bytes option \<Rightarrow> bytes option \<Rightarrow> string \<Rightarrow> settled_row" where
  "row_of auth now amt rec guard via =
    \<lparr>s_payer = Payer auth, s_pay_to = PayTo auth, s_amount = amt, s_at = ledgerStamp now,
     s_receipt = rec, s_not_after = NotAfter auth, s_guard = guard, s_via = via\<rparr>"

lemma row_of_guard [simp]: "s_guard (row_of auth now amt rec guard via) = guard"
  "s_not_after (row_of auth now amt rec guard via) = NotAfter auth"
  by (simp_all add: row_of_def)

text \<open>What holds of a first settlement: \<open>fresh_settlement\<close> names its parts.\<close>

definition fresh_settlement ::
  "core \<Rightarrow> hub_conf \<Rightarrow> (aid, bytes) table \<Rightarrow> aid \<Rightarrow> time_ns \<Rightarrow> authorization \<Rightarrow> string \<Rightarrow> string \<Rightarrow>
     ledger \<Rightarrow> int \<Rightarrow> bytes option \<Rightarrow> bytes option \<Rightarrow> bool" where
  "fresh_settlement c h kels hub now auth i via l amt guard rec \<longleftrightarrow>
     amountInt64 (Amount auth) = Some amt \<and> guard_of c auth = Some guard \<and>
     signReceipt c h i (Payer auth) (PayTo auth) (Amount auth) (Network auth) (unix_milli now) = Inr rec \<and>
     \<not> has_key (settled l) i \<and>
     (\<forall>g u. guard = Some g \<longrightarrow> map_of (guards l) g = Some u \<longrightarrow> u \<le> unix_milli now) \<and>
     amt \<le> Balance l (Payer auth) \<and> route_refusal kels hub via auth = None"

definition settled_answer :: "authorization \<Rightarrow> string \<Rightarrow> bytes option \<Rightarrow> settlement_response" where
  "settled_answer auth i rec =
    \<lparr>Success = True, ErrorReason = None, SPayer = Payer auth, STransaction = i,
     SNetwork = Network auth, SAmount = Amount auth, ExtReceipt = receipt_member rec,
     ExtReplayed = False, ExtOriginal = None\<rparr>"

lemma settleAuth_effect:
  assumes run: "settleAuth c h kels hub now auth i via l = (l', out)"
    and sup: "supply_ok h l" and hub: "hub = hubAID h" and p: "Payer auth \<noteq> hub"
  shows "l' = l \<and> (Success out \<longrightarrow> ExtReplayed out \<and> has_key (settled l) i) \<or>
    (\<exists>amt guard rec. fresh_settlement c h kels hub now auth i via l amt guard rec \<and>
       l' = settled_books hub now auth i via amt (with_settlement now i (row_of auth now amt rec guard via) l) \<and>
       out = settled_answer auth i rec)"
proof (cases "has_key (settled l) i")
  case True
  with run show ?thesis
    by (auto simp: settleAuth_def settleConflict_def Let_def
        split: option.splits sum.splits if_splits dest: repeatOf_replayed)
next
  case False
  from settleAuth_cases [OF run] False show ?thesis
  proof (elim disjE exE conjE)
    fix amt guard rec
    assume a: "amountInt64 (Amount auth) = Some amt"
      and g: "guard_of c auth = Some guard"
        "\<forall>g u. guard = Some g \<longrightarrow> map_of (guards l) g = Some u \<longrightarrow> u \<le> unix_milli now"
      and s: "signReceipt c h i (Payer auth) (PayTo auth) (Amount auth) (Network auth) (unix_milli now) = Inr rec"
      and m: "settleMove kels hub now auth i via amt
         (with_settlement now i \<lparr>s_payer = Payer auth, s_pay_to = PayTo auth, s_amount = amt,
            s_at = ledgerStamp now, s_receipt = rec, s_not_after = NotAfter auth, s_guard = guard,
            s_via = via\<rparr> l) = Inr l'"
      and o: "out = \<lparr>Success = True, ErrorReason = None, SPayer = Payer auth, STransaction = i,
              SNetwork = Network auth, SAmount = Amount auth, ExtReceipt = receipt_member rec,
              ExtReplayed = False, ExtOriginal = None\<rparr>"
    from a have pos: "0 < amt" by (auto dest: amountInt64_SomeD)
    from m sup have "amt \<le> Balance l (Payer auth) \<and> route_refusal kels hub via auth = None \<and>
        l' = settled_books hub now auth i via amt (with_settlement now i (row_of auth now amt rec guard via) l)"
      by (subst (asm) settleMove_eq [OF _ hub p pos])
         (auto simp: row_of_def split: if_splits option.splits)
    with a g s o False show ?thesis
      unfolding fresh_settlement_def settled_answer_def by blast
  qed auto
qed

lemma settleAuth_complete:
  assumes f: "fresh_settlement c h kels hub now auth i via l amt guard rec"
    and sup: "supply_ok h l" and hub: "hub = hubAID h" and p: "Payer auth \<noteq> hub"
  shows "settleAuth c h kels hub now auth i via l =
    (settled_books hub now auth i via amt (with_settlement now i (row_of auth now amt rec guard via) l),
     settled_answer auth i rec)"
proof -
  from f have pos: "0 < amt" by (auto simp: fresh_settlement_def dest: amountInt64_SomeD)
  have stage: "(case guard of
          None \<Rightarrow> Some (l\<lparr>settled := AList.update i (row_of auth now amt rec guard via) (settled l)\<rparr>)
        | Some g \<Rightarrow> takeGuard now g (l\<lparr>settled := AList.update i (row_of auth now amt rec guard via) (settled l)\<rparr>))
      = Some (with_settlement now i (row_of auth now amt rec guard via) l)"
    using f by (auto simp: fresh_settlement_def takeGuard_Some with_settlement_def Let_def split: option.splits)
  have "settleMove kels hub now auth i via amt (with_settlement now i (row_of auth now amt rec guard via) l)
      = Inr (settled_books hub now auth i via amt (with_settlement now i (row_of auth now amt rec guard via) l))"
    by (subst settleMove_eq [OF _ hub p pos]) (use f sup in \<open>auto simp: fresh_settlement_def\<close>)
  with f stage show ?thesis
    unfolding settleAuth_def guard_of_def [symmetric] Let_def row_of_def [symmetric] settled_answer_def
    by (simp add: fresh_settlement_def)
qed

section \<open>The first verification\<close>

text \<open>It changes nothing but the table of first verifications.\<close>

definition only_first_verifies :: "ledger \<Rightarrow> ledger \<Rightarrow> bool" where
  "only_first_verifies l l' \<longleftrightarrow> l' = l\<lparr>first_verifies := first_verifies l'\<rparr>"

lemma only_first_verifies_intros [simp]:
  "only_first_verifies l l" "only_first_verifies l (l\<lparr>first_verifies := fv\<rparr>)"
  by (simp_all add: only_first_verifies_def)

lemma only_first_verifiesE:
  assumes "only_first_verifies l l'"
  obtains fv where "l' = l\<lparr>first_verifies := fv\<rparr>"
  using assms unfolding only_first_verifies_def by blast

lemma recordFirstVerify_only:
  assumes "recordFirstVerify c kels auth i seq now l = (l', r)"
  shows "only_first_verifies l l'"
  using assms unfolding recordFirstVerify_def Let_def
  by (auto split: option.splits list.splits if_splits)

lemma keyAtFirstVerify_only:
  assumes "keyAtFirstVerify c kels auth i k now l = (l', r)"
  shows "only_first_verifies l l'"
proof (cases "AEnvelope auth")
  case None
  with assms show ?thesis by (auto simp: keyAtFirstVerify_def)
next
  case (Some env)
  obtain l1 x where rf: "recordFirstVerify c kels auth i (KeyStateSeq env) now l = (l1, x)" by force
  note recordFirstVerify_only [OF rf]
  with assms Some rf show ?thesis
    by (auto simp: keyAtFirstVerify_def Let_def split: if_splits option.splits sum.splits)
qed

lemma supply_ok_first_verifies [simp]: "supply_ok h (l\<lparr>first_verifies := fv\<rparr>) = supply_ok h l"
  by (simp add: supply_ok_def)

lemma supply_ok_only: "only_first_verifies l l' \<Longrightarrow> supply_ok h l' = supply_ok h l"
  by (metis only_first_verifies_def supply_ok_first_verifies)

text \<open>A record, once written, gives the same answer again at the same time.\<close>

lemma recordFirstVerify_again:
  assumes "recordFirstVerify c kels auth i seq now l = (l', Inr tip)"
  shows "recordFirstVerify c kels auth i seq now l' = (l', Inr tip)"
proof (cases "l' = l")
  case True
  with assms show ?thesis by simp
next
  case False
  with assms have "first_verifies l' = AList.update i
      \<lparr>fv_payer = Payer auth, fv_key_state_seq = uint seq, fv_tip_at_first = tip, fv_first_verified_at = now,
       fv_delete_after = firstVerifyDeleteAfter (NotAfter auth)\<rparr> (first_verifies l)"
    unfolding recordFirstVerify_def Let_def by (auto split: option.splits list.splits if_splits)
  then have "firstVerifyOf l' i (Payer auth) seq = Some tip"
    by (simp add: firstVerifyOf_def map_of_update_eq)
  then show ?thesis by (simp add: recordFirstVerify_def)
qed

lemma keyAtFirstVerify_again:
  assumes "keyAtFirstVerify c kels auth i k now l = (l', None)"
  shows "keyAtFirstVerify c kels auth i k now l' = (l', None)"
proof -
  from assms obtain env where env: "AEnvelope auth = Some env"
    by (auto simp: keyAtFirstVerify_def split: option.splits)
  obtain l1 x where rf: "recordFirstVerify c kels auth i (KeyStateSeq env) now l = (l1, x)" by force
  show ?thesis
  proof (cases x)
    case (Inl e)
    with assms env rf show ?thesis
      by (auto simp: keyAtFirstVerify_def Let_def split: if_splits option.splits)
  next
    case (Inr tip)
    with assms env rf recordFirstVerify_again [OF rf [unfolded Inr]] show ?thesis
      by (auto simp: keyAtFirstVerify_def Let_def split: if_splits option.splits)
  qed
qed

text \<open>A key check that passes has seen the authorization inside its window at this time.\<close>

lemma keyAtFirstVerify_now:
  assumes "keyAtFirstVerify c kels auth i k now l = (l', None)"
  shows "\<exists>k'. AuthVerify c auth k' now = None"
  using assms
  by (auto simp: keyAtFirstVerify_def currentAuth_def Let_def split: option.splits if_splits prod.splits sum.splits)

section \<open>The doors\<close>

lemma verifiedAuth_Inr:
  assumes "verifiedAuth c kels hub p = Inr (auth, i, k)"
  shows "registered kels (Payer auth)" and "AuthID c auth = Some i"
    and "Network auth = CreditNetwork c hub" and "AuthVerify c auth k (IssuedAt auth) = None"
    and "\<exists>kb. AgentKEL_of kels (Payer auth) = Some kb \<and> UnmarshalKEL c kb = Some k"
    and "parseAuth c p = Inr auth"
    and "\<exists>pp. p = Some pp \<and> AcceptedNetwork pp = CreditNetwork c hub"
proof -
  obtain pp where pp: "p = Some pp" using assms by (cases p) (simp_all add: verifiedAuth_def)
  with assms obtain a where net: "AcceptedNetwork pp = CreditNetwork c hub" and pa: "parseAuth c p = Inr a"
    by (cases "parseAuth c p") (auto simp: verifiedAuth_def split: if_split_asm)
  from assms pp net pa have rest: "(if Network a \<noteq> CreditNetwork c hub then Inl (Some a, Refused ReasonNetworkMismatch)
        else (case AuthID c a of
          None \<Rightarrow> Inl (Some a, Refused ReasonMalformed)
        | Some i \<Rightarrow> (case AgentKEL_of kels (Payer a) of
            None \<Rightarrow> Inl (Some a, Refused ReasonUnknownPayer)
          | Some kb \<Rightarrow> (case UnmarshalKEL c kb of
              None \<Rightarrow> Inl (Some a, Refused ReasonSettlementFailed)
            | Some k \<Rightarrow>
                if IssuedAt a > 0 \<and> NotAfter a > IssuedAt a
                   \<and> plausibleEnvelope c (AEnvelope a) (Payer a) k (AuthPreimage c a) \<noteq> None
                then Inl (Some a, Refused ReasonInvalidSignature)
                else (case AuthVerify c a k (IssuedAt a) of
                  Some e \<Rightarrow> Inl (Some a, Refused (verifyReason e))
                | None \<Rightarrow> Inr (a, i, k)))))) = Inr (auth, i, k)"
    by (auto simp: verifiedAuth_def Let_def split: if_split_asm)
  then have "Network a = CreditNetwork c hub" "AuthID c a \<noteq> None" "AgentKEL_of kels (Payer a) \<noteq> None"
    by (auto split: if_split_asm option.split_asm)
  then obtain j kb where j: "AuthID c a = Some j" and kb: "AgentKEL_of kels (Payer a) = Some kb"
    and n: "Network a = CreditNetwork c hub" by auto
  with rest obtain k' where "UnmarshalKEL c kb = Some k'" by (cases "UnmarshalKEL c kb") auto
  with rest n j kb have "a = auth" "j = i" "k' = k" "AuthVerify c auth k (IssuedAt auth) = None"
    by (auto split: if_split_asm option.split_asm)
  with pp net pa n j kb \<open>UnmarshalKEL c kb = Some k'\<close>
  show "registered kels (Payer auth)" "AuthID c auth = Some i"
    "Network auth = CreditNetwork c hub" "AuthVerify c auth k (IssuedAt auth) = None"
    "\<exists>kb. AgentKEL_of kels (Payer auth) = Some kb \<and> UnmarshalKEL c kb = Some k"
    "parseAuth c p = Inr auth" "\<exists>pp. p = Some pp \<and> AcceptedNetwork pp = CreditNetwork c hub"
    by (auto simp: registered_def has_key_def AgentKEL_of_def)
qed

lemma parseAuth_Inr:
  assumes "parseAuth c p = Inr auth"
  shows "amountInt64 (Amount auth) \<noteq> None" and "authWindow c auth = None"
  using assms by (auto simp: parseAuth_def Let_def split: option.splits if_splits)

lemma settleHere_effect:
  assumes run: "settleHere c h kels hub now p req via l = (l', out)"
    and sup: "supply_ok h l" and hub: "hub = hubAID h" and nr: "\<not> registered kels hub"
  shows "only_first_verifies l l' \<and> (Success out \<longrightarrow> ExtReplayed out) \<or>
    (\<exists>auth i k l1 amt guard rec.
       verifiedAuth c kels hub p = Inr (auth, i, k) \<and> CheckRequirements c p (Some auth) req = None \<and>
       keyAtFirstVerify c kels auth i k (unix_milli now) l = (l1, None) \<and>
       fresh_settlement c h kels hub now auth i via l1 amt guard rec \<and>
       l' = settled_books hub now auth i via amt (with_settlement now i (row_of auth now amt rec guard via) l1) \<and>
       out = settled_answer auth i rec)"
proof (cases "verifiedAuth c kels hub p")
  case (Inl ae)
  with run show ?thesis by (auto simp: settleHere_def Let_def split: prod.splits)
next
  case (Inr v)
  obtain auth i k where v: "v = (auth, i, k)" by (cases v)
  note va = Inr [unfolded v]
  have p: "Payer auth \<noteq> hub" using verifiedAuth_Inr(1) [OF va] nr by auto
  show ?thesis
  proof (cases "CheckRequirements c p (Some auth) req = None \<and> repeatOf c h hub i auth via l = None")
    case False
    with run va show ?thesis
      by (auto simp: settleHere_def Let_def split: option.splits dest: repeatOf_replayed)
  next
    case True
    obtain l1 r where k1: "keyAtFirstVerify c kels auth i k (unix_milli now) l = (l1, r)" by force
    note only = keyAtFirstVerify_only [OF k1]
    show ?thesis
    proof (cases r)
      case (Some e)
      with run va True k1 only show ?thesis by (auto simp: settleHere_def Let_def)
    next
      case None
      with run va True k1 have "settleAuth c h kels hub now auth i via l1 = (l', out)"
        by (auto simp: settleHere_def Let_def)
      moreover have "supply_ok h l1" using only sup supply_ok_only by blast
      ultimately show ?thesis
        using settleAuth_effect [OF _ _ hub p, of c kels now i via l1 l' out] va True k1 None only by blast
    qed
  qed
qed

lemma settleHere_supply_ok:
  assumes "settleHere c h kels hub now p req via l = (l', out)"
    and "supply_ok h l" and "hub = hubAID h" and "\<not> registered kels hub"
  shows "supply_ok h l'"
  using settleHere_effect [OF assms]
proof (elim disjE conjE exE)
  assume "only_first_verifies l l'"
  with assms(2) show ?thesis using supply_ok_only by blast
next
  fix auth i k l1 amt guard rec
  assume va: "verifiedAuth c kels hub p = Inr (auth, i, k)"
    and k1: "keyAtFirstVerify c kels auth i k (unix_milli now) l = (l1, None)"
    and f: "fresh_settlement c h kels hub now auth i via l1 amt guard rec"
    and l': "l' = settled_books hub now auth i via amt
               (with_settlement now i (row_of auth now amt rec guard via) l1)"
  have "supply_ok h l1" using keyAtFirstVerify_only [OF k1] assms(2) supply_ok_only by blast
  moreover have "Payer auth \<noteq> hubAID h" using verifiedAuth_Inr(1) [OF va] assms(3,4) by auto
  moreover have "0 < amt \<and> amt \<le> Balance l1 (Payer auth)"
    using f by (auto simp: fresh_settlement_def dest: amountInt64_SomeD)
  ultimately show ?thesis unfolding l' assms(3) by (intro settled_books_supply_ok) auto
qed

lemma VerifyWithRequirements_valid:
  assumes "VerifyWithRequirements c kels hub now p req l = (l', v)" and "IsValid v"
  obtains rq pp auth i k where
    "req = Some rq" "p = Some pp" "payeeIsThisHub hub rq = None" "payeeHere kels (ReqPayTo rq) = None"
    "AcceptedNetwork pp = CreditNetwork c hub" "verifiedAuth c kels hub p = Inr (auth, i, k)"
    "CheckRequirements c p (Some auth) req = None" "\<not> authSettled i l"
    "InteractionID auth \<noteq> [] \<longrightarrow> (\<exists>g. settleGuardKey c (Payer auth) (InteractionID auth) = Some g \<and>
       \<not> fst (guardHeld g (unix_milli now) l))"
    "keyAtFirstVerify c kels auth i k (unix_milli now) l = (l', None)"
    "\<exists>amt. amountInt64 (Amount auth) = Some amt \<and> amt \<le> Balance l' (Payer auth)"
    "v = \<lparr>IsValid = True, InvalidReason = None, VPayer = Payer auth\<rparr>"
proof -
  obtain rq where rq: "req = Some rq"
    using assms by (cases req) (auto simp: VerifyWithRequirements_def Let_def)
  obtain pp where pp: "p = Some pp"
    using assms rq by (cases p) (auto simp: VerifyWithRequirements_def Let_def)
  have hub: "payeeIsThisHub hub rq = None" and here: "payeeHere kels (ReqPayTo rq) = None"
    and net: "AcceptedNetwork pp = CreditNetwork c hub"
    using assms rq pp
    by (auto simp: VerifyWithRequirements_def Let_def split: option.split_asm if_split_asm)
  obtain auth i k where va: "verifiedAuth c kels hub (Some pp) = Inr (auth, i, k)"
    using assms rq pp hub here net
    by (cases "verifiedAuth c kels hub (Some pp)") (auto simp: VerifyWithRequirements_def Let_def)
  have cr: "CheckRequirements c (Some pp) (Some auth) (Some rq) = None"
    using assms rq pp hub here net va
    by (cases "CheckRequirements c (Some pp) (Some auth) (Some rq)")
       (auto simp: VerifyWithRequirements_def Let_def)
  define g where "g = (if InteractionID auth \<noteq> []
            then (case settleGuardKey c (Payer auth) (InteractionID auth) of
                    None \<Rightarrow> Some (Refused ReasonMalformed)
                  | Some g \<Rightarrow> if fst (guardHeld g (unix_milli now) l)
                              then Some (Refused ReasonDuplicateBinding) else None)
            else None)"
  have fresh: "\<not> authSettled i l" and gN: "g = None"
    using assms rq pp hub here net va cr
    by (auto simp: VerifyWithRequirements_def Let_def g_def [symmetric] split: if_split_asm option.split_asm)
  obtain l1 r where k1: "keyAtFirstVerify c kels auth i k (unix_milli now) l = (l1, r)" by force
  have "r = None \<and> l1 = l' \<and> (\<exists>amt. amountInt64 (Amount auth) = Some amt \<and> amt \<le> Balance l' (Payer auth))
      \<and> v = \<lparr>IsValid = True, InvalidReason = None, VPayer = Payer auth\<rparr>"
    using assms rq pp hub here net va cr fresh gN k1
    by (auto simp: VerifyWithRequirements_def Let_def g_def [symmetric] split: if_split_asm option.split_asm)
  with rq pp hub here net va cr fresh gN k1 show thesis
    by (intro that) (auto simp: g_def split: if_split_asm option.split_asm)
qed

lemma guardHeld_free:
  "\<not> fst (guardHeld g now l) \<longleftrightarrow> (\<forall>u. map_of (guards l) g = Some u \<longrightarrow> u \<le> now)"
  by (auto simp: guardHeld_def split: option.splits)

lemma verify_settles:
  assumes ver: "VerifyWithRequirements c kels hub now p req l = (l', v)" and "IsValid v"
    and sup: "supply_ok h l" and hub: "hub = hubAID h" and nr: "\<not> registered kels hub"
    and sign: "hasHubKey h \<Longrightarrow> \<forall>r. SignReceipt c r \<noteq> None"
  shows "\<exists>l'' out auth i k. SettleWithRequirements c h ps kels hub now p req l' = (l'', out) \<and>
    verifiedAuth c kels hub p = Inr (auth, i, k) \<and> Success out \<and> \<not> ExtReplayed out \<and>
    SPayer out = VPayer v \<and> STransaction out = i"
proof -
  from ver \<open>IsValid v\<close> obtain rq pp auth i k where
    rq: "req = Some rq" and pp: "p = Some pp" and ph: "payeeIsThisHub hub rq = None"
    and here: "payeeHere kels (ReqPayTo rq) = None" and net: "AcceptedNetwork pp = CreditNetwork c hub"
    and va: "verifiedAuth c kels hub p = Inr (auth, i, k)"
    and cr: "CheckRequirements c p (Some auth) req = None" and fresh: "\<not> authSettled i l"
    and g: "InteractionID auth \<noteq> [] \<longrightarrow> (\<exists>g. settleGuardKey c (Payer auth) (InteractionID auth) = Some g \<and>
       \<not> fst (guardHeld g (unix_milli now) l))"
    and kv: "keyAtFirstVerify c kels auth i k (unix_milli now) l = (l', None)"
    and bal: "\<exists>amt. amountInt64 (Amount auth) = Some amt \<and> amt \<le> Balance l' (Payer auth)"
    and v: "v = \<lparr>IsValid = True, InvalidReason = None, VPayer = Payer auth\<rparr>"
    by (rule VerifyWithRequirements_valid)
  from keyAtFirstVerify_only [OF kv] obtain fv where l': "l' = l\<lparr>first_verifies := fv\<rparr>"
    by (rule only_first_verifiesE)
  obtain amt where amt: "amountInt64 (Amount auth) = Some amt" "amt \<le> Balance l' (Payer auth)"
    using bal by blast
  obtain guard where guard: "guard_of c auth = Some guard"
    and free: "\<forall>g u. guard = Some g \<longrightarrow> map_of (guards l') g = Some u \<longrightarrow> u \<le> unix_milli now"
    using g unfolding guardHeld_free by (cases "InteractionID auth = []") (auto simp: guard_of_def l')
  obtain rec where rec: "signReceipt c h i (Payer auth) (PayTo auth) (Amount auth) (Network auth) (unix_milli now)
      = Inr rec"
    using sign unfolding signReceipt_def by (cases "hasHubKey h") (force split: option.splits)+
  have "PayTo auth = ReqPayTo rq"
    using cr rq pp by (auto simp: CheckRequirements_def split: option.split_asm if_split_asm)
  then have route: "route_refusal kels hub [] auth = None"
    using here by (auto simp: route_refusal_def payeeHere_def split: if_split_asm)
  have f: "fresh_settlement c h kels hub now auth i [] l' amt guard rec"
    using amt guard free rec fresh route by (simp add: fresh_settlement_def authSettled_def l')
  have p: "Payer auth \<noteq> hub" using verifiedAuth_Inr(1) [OF va] nr by auto
  have "supply_ok h l'" using sup by (simp add: l')
  note settleAuth_complete [OF f this hub p]
  moreover have "repeatOf c h hub i auth [] l' = None"
    using fresh by (simp add: repeatOf_None authSettled_def l')
  ultimately have "settleHere c h kels hub now p req [] l' =
     (settled_books hub now auth i [] amt (with_settlement now i (row_of auth now amt rec guard []) l'),
      settled_answer auth i rec)"
    using va cr keyAtFirstVerify_again [OF kv] by (simp add: settleHere_def Let_def)
  then show ?thesis
    using rq pp ph here net va v by (simp add: SettleWithRequirements_def Let_def settled_answer_def)
qed

text \<open>Everything a first settlement changed, against the ledger before the request.\<close>

lemma settleHere_success:
  assumes run: "settleHere c h kels hub now p req via l = (l', out)"
    and ok: "Success out" "\<not> ExtReplayed out"
    and sup: "supply_ok h l" and hub: "hub = hubAID h" and nr: "\<not> registered kels hub"
  obtains auth i k amt guard rec where
    "verifiedAuth c kels hub p = Inr (auth, i, k)" "CheckRequirements c p (Some auth) req = None"
    "amountInt64 (Amount auth) = Some amt" "guard_of c auth = Some guard" "\<not> has_key (settled l) i"
    "\<forall>g u. guard = Some g \<longrightarrow> map_of (guards l) g = Some u \<longrightarrow> u \<le> unix_milli now"
    "signReceipt c h i (Payer auth) (PayTo auth) (Amount auth) (Network auth) (unix_milli now) = Inr rec"
    "amt \<le> Balance l (Payer auth)" "route_refusal kels hub via auth = None" "Payer auth \<noteq> hub"
    "\<exists>k'. AuthVerify c auth k' (unix_milli now) = None"
    "\<forall>a. Balance l' a = Balance l a - (if a = Payer auth then amt else 0)
                               + (if a = credited_row hub via auth then amt else 0)"
    "issued l' = issued l" "redeemed l' = redeemed l + (if credited_row hub via auth = hub then amt else 0)"
    "owed l' = owed l"
    "due l' = (if via \<noteq> [] then AList.update via (row_or (due l) via 0 + amt) (due l) else due l)"
    "settled l' = AList.update i (row_of auth now amt rec guard via) (settled l)"
    "guards l' = (case guard of None \<Rightarrow> guards l
                  | Some g \<Rightarrow> AList.update g (unix_milli (now + guardKept)) (guards l))"
    "map (\<lambda>e. (e_aid e, e_delta e, e_reason e)) (entries l') =
       map (\<lambda>e. (e_aid e, e_delta e, e_reason e)) (entries l)
         @ [(Payer auth, - amt, i), (credited_row hub via auth, amt, i)]"
    "out = settled_answer auth i rec"
proof -
  from settleHere_effect [OF run sup hub nr] ok obtain auth i k l1 amt guard rec where
    va: "verifiedAuth c kels hub p = Inr (auth, i, k)" and cr: "CheckRequirements c p (Some auth) req = None"
    and k1: "keyAtFirstVerify c kels auth i k (unix_milli now) l = (l1, None)"
    and f: "fresh_settlement c h kels hub now auth i via l1 amt guard rec"
    and l': "l' = settled_books hub now auth i via amt (with_settlement now i (row_of auth now amt rec guard via) l1)"
    and out: "out = settled_answer auth i rec" by blast
  from keyAtFirstVerify_only [OF k1] obtain fv where l1: "l1 = l\<lparr>first_verifies := fv\<rparr>"
    by (rule only_first_verifiesE)
  have p: "Payer auth \<noteq> hub" using verifiedAuth_Inr(1) [OF va] nr by auto
  have bal: "Balance l1 = Balance l" by (simp add: l1 Balance_def fun_eq_iff)
  have g: "guards l' = (case guard of None \<Rightarrow> guards l
                  | Some g \<Rightarrow> AList.update g (unix_milli (now + guardKept)) (guards l))"
    by (simp add: l' l1 with_settlement_def Let_def split: option.split)
  show thesis
    by (rule that [OF va cr _ _ _ _ _ _ _ p keyAtFirstVerify_now [OF k1] _ _ _ _ _ _ g _ out])
       (use f in \<open>simp_all add: fresh_settlement_def l' l1 bal settled_books_Balance settled_books_entries
          Balance_def [of "l\<lparr>first_verifies := fv\<rparr>"] Balance_def [of l]\<close>)
qed

text \<open>On this hub's own network the settlement is the part after the payee was looked at.\<close>

definition on_own_network :: "core \<Rightarrow> aid \<Rightarrow> payment_payload option \<Rightarrow> bool" where
  "on_own_network c hub p \<longleftrightarrow> (case p of None \<Rightarrow> True | Some pp \<Rightarrow> AcceptedNetwork pp = CreditNetwork c hub)"

lemma SettleWithRequirements_own:
  assumes run: "SettleWithRequirements c h ps kels hub now p req l = (l', out)"
    and own: "on_own_network c hub p"
  shows "l' = l \<and> \<not> Success out \<or>
    (\<exists>rq. req = Some rq \<and> registered kels (ReqPayTo rq) \<and> (hub \<noteq> [] \<longrightarrow> ReqPayTo rq \<noteq> hub) \<and>
       settleHere c h kels hub now p req [] l = (l', out))"
  using run own unfolding SettleWithRequirements_def Let_def payeeHere_def payeeIsThisHub_def on_own_network_def
  by (auto split: option.split_asm if_split_asm)

lemma SettleForPeer_here:
  assumes "SettleForPeer c h kels hub now peer p req l = (l', out)" and "Success out"
  shows "settleHere c h kels hub now p req peer l = (l', out)"
    and "\<exists>rq. req = Some rq \<and> (hub \<noteq> [] \<longrightarrow> ReqPayTo rq \<noteq> hub) \<and> ReqPayTo rq \<noteq> peer \<and> \<not> registered kels (ReqPayTo rq)"
  using assms unfolding SettleForPeer_def payeeIsThisHub_def Let_def
  by (auto split: option.split_asm if_split_asm)

lemma CheckRequirements_None:
  assumes "CheckRequirements c (Some p) (Some auth) (Some req) = None"
  shows "PayTo auth = ReqPayTo req" and "Network auth = ReqNetwork req"
    and "AcceptedPayTo p = PayTo auth" and "AcceptedNetwork p = Network auth"
    and "ParseAmount c (AcceptedAmount p) = Some (Amount auth)"
    and "ReqScheme req = SchemeCredit c" and "AcceptedScheme p = ReqScheme req"
    and "ReqPayTo req \<noteq> []" and "ReqNetwork req \<noteq> []"
    and "\<exists>want w a. ParseAmount c (ReqAmount req) = Some want \<and> amountInt64 want = Some w \<and>
          amountInt64 (Amount auth) = Some a \<and> w \<le> a"
  using assms
  by (auto simp: CheckRequirements_def amountInt64_Some word_le_def not_less word_less_def
      split: option.split_asm if_split_asm)

end
