(* ===== verification/Clearing.thy ===== *)
theory Clearing
  imports Settlement
begin

text \<open>
  Two hubs clearing against each other. The entry hub's half (\<open>facilitator.go\<close>:
  \<open>SettlementPending\<close>, \<open>SettlementRefusedByPeer\<close>, \<open>ClearPeerSettlement\<close>, \<open>ClearFromPeer\<close>;
  \<open>hubobjects.go\<close>: \<open>peerKELFor\<close>, \<open>receiptSeq\<close>; \<open>cmd/anet-hub/wire_federation.go\<close>:
  \<open>peerSettler\<close>) and the discharge of what is owed (\<open>redemption.go\<close>: \<open>SettleOwed\<close>,
  \<open>IssueOwedSettlement\<close>). What a peer hub answers is a parameter.
\<close>

section \<open>The peers\<close>

datatype peer_reply =
  NoAnswer
  | StatusReply nat string
  | Unreadable
  | Answer settlement_response

text \<open>\<open>PeerAIDs\<close>, \<open>SettleAtPeer\<close> and \<open>PeerKEL\<close> are what the federation service answers with at this
  moment; \<open>RefreshPeerKEL\<close> is \<open>None\<close> in a build without federation. A \<open>StatusReply\<close> is an answer
  other than 200 with its refusal reason.\<close>

record peer_world =
  PeerAIDs :: "aid list"
  SettleAtPeer :: "aid \<Rightarrow> payment_payload \<Rightarrow> requirements \<Rightarrow> peer_reply"
  PeerKEL :: "aid \<Rightarrow> kel option"
  RefreshPeerKEL :: "(aid \<Rightarrow> kel option) option"

definition peerKELFor :: "peer_world \<Rightarrow> aid \<Rightarrow> u64 \<Rightarrow> kel option" where
  "peerKELFor w a seq =
    (case PeerKEL w a of
      Some k \<Rightarrow>
        if unat seq < length k then Some k
        else (case RefreshPeerKEL w of None \<Rightarrow> Some k
              | Some f \<Rightarrow> (case f a of Some fresh \<Rightarrow> Some fresh | None \<Rightarrow> Some k))
    | None \<Rightarrow> (case RefreshPeerKEL w of None \<Rightarrow> None | Some f \<Rightarrow> f a))"

definition receiptSeq :: "receipt \<Rightarrow> u64" where
  "receiptSeq r = (case REnvelope r of None \<Rightarrow> 0 | Some e \<Rightarrow> KeyStateSeq e)"

section \<open>Crediting a payee on a peer's receipt\<close>

definition clearedTx :: "string \<Rightarrow> ledger \<Rightarrow> bool" where
  "clearedTx i l \<longleftrightarrow> has_key (cleared l) i"

text \<open>The transaction of a receipt that is neither cleared nor out of its window. \<open>hubKey\<close> is
  dereferenced for the hub's row, so a store without one panics there.\<close>

definition clearMove :: "hub_conf \<Rightarrow> time_ns \<Rightarrow> aid \<Rightarrow> receipt \<Rightarrow> int \<Rightarrow> ledger \<Rightarrow> error + ledger" where
  "clearMove h now peer r amt l =
    (let at = ledgerStamp now;
         l = l\<lparr>cleared := AList.update (RAuthID r)
                 \<lparr>c_peer = peer, c_pay_to = RPayTo r, c_amount = amt, c_at = at, c_settle_at = RSettleAt r\<rparr>
                 (cleared l)\<rparr>
     in
     rbind (issuanceRoom (issuedTotal l) amt) (\<lambda>_.
     rbind (addToRow (balances l) (RPayTo r) amt) (\<lambda>b.
     let l = add_entry (RPayTo r) amt (RAuthID r) at (l\<lparr>balances := b\<rparr>) in
     if \<not> hasHubKey h then Inl Panicked
     else rbind (addToRow (balances l) (hubAID h) (- amt)) (\<lambda>b.
     let l = add_entry (hubAID h) (- amt) (RAuthID r) at (l\<lparr>balances := b\<rparr>) in
     rbind (addToRow (owed l) peer amt) (\<lambda>ow.
     supplyEventTx now supplyIssued amt (l\<lparr>owed := ow\<rparr>))))))"

definition ClearFromPeer ::
  "core \<Rightarrow> hub_conf \<Rightarrow> time_ns \<Rightarrow> aid \<Rightarrow> kel \<Rightarrow> receipt option \<Rightarrow> ledger \<Rightarrow> error + ledger" where
  "ClearFromPeer c h now peer k rec l =
    (case rec of
      None \<Rightarrow> Inl (ErrOther ''no settlement receipt'')
    | Some r \<Rightarrow>
    (case amountInt64 (RAmount r) of
      None \<Rightarrow> Inl (Refused ReasonInvalidAmount)
    | Some amt \<Rightarrow>
      if RNetwork r \<noteq> CreditNetwork c peer then Inl (ErrOther ''receipt network'')
      else if hubAID h \<noteq> [] \<and> RPayTo r = hubAID h then Inl (Refused ReasonPayeeMismatch)
      else if \<not> ReceiptVerify c r k peer (RSettleAt r) then Inl (ErrOther ''settlement receipt'')
      else if clearedTx (RAuthID r) l then Inr l
      else if RSettleAt r < unix_milli now - go_div peerReceiptMaxAge ms_ns
              \<or> RSettleAt r > unix_milli now + MaxSkewMillis c then Inl ErrReceiptOutOfWindow
      else clearMove h now peer r amt l))"

definition SettlementPending ::
  "core \<Rightarrow> authorization \<Rightarrow> string \<Rightarrow> settlement_response option \<Rightarrow> settlement_response" where
  "SettlementPending c auth network peer =
    (let out = refusedSettlement c (Refused ReasonSettlementPending) (Some auth) network in
     case peer of
       None \<Rightarrow> out
     | Some p \<Rightarrow> (case ExtReceipt p of None \<Rightarrow> out | Some r \<Rightarrow> out\<lparr>ExtReceipt := Some r\<rparr>))"

definition SettlementRefusedByPeer :: "core \<Rightarrow> authorization \<Rightarrow> string \<Rightarrow> settlement_response" where
  "SettlementRefusedByPeer c auth network =
    refusedSettlement c (Refused ReasonSettlementFailed) (Some auth) network"

definition ClearPeerSettlement ::
  "core \<Rightarrow> hub_conf \<Rightarrow> peer_world \<Rightarrow> time_ns \<Rightarrow> aid \<Rightarrow> settlement_response \<Rightarrow> authorization \<Rightarrow> requirements
    \<Rightarrow> ledger \<Rightarrow> ledger \<times> settlement_response" where
  "ClearPeerSettlement c h w now peer out auth req l =
    (let network = ReqNetwork req;
         with_receipt = (\<lambda>r. (l, (refusedSettlement c (Refused r) (Some auth) network)
                                  \<lparr>ExtReceipt := ExtReceipt out\<rparr>));
         b64 = (case ExtReceipt out of None \<Rightarrow> [] | Some s \<Rightarrow> s)
     in
     if b64 = [] then with_receipt ReasonSettlementFailed
     else (case std_decode b64 of
       None \<Rightarrow> with_receipt ReasonSettlementFailed
     | Some raw \<Rightarrow>
     (case UnmarshalReceipt c raw of
       None \<Rightarrow> with_receipt ReasonSettlementFailed
     | Some r \<Rightarrow>
     (case AuthID c auth of
       None \<Rightarrow> with_receipt ReasonMalformed
     | Some i \<Rightarrow>
     (case ParseAmount c (ReqAmount req) of
       None \<Rightarrow> with_receipt ReasonInvalidRequirements
     | Some want \<Rightarrow>
       if amountInt64 (RAmount r) = None then with_receipt ReasonInvalidAmount
       else if RAuthID r \<noteq> i \<or> RPayer r \<noteq> Payer auth \<or> RNetwork r \<noteq> network
            then with_receipt ReasonSettlementFailed
       else if RPayTo r \<noteq> ReqPayTo req then with_receipt ReasonPayeeMismatch
       else if RAmount r < want then with_receipt ReasonInvalidAmount
       else if RAmount r \<noteq> Amount auth then with_receipt ReasonInvalidAmount
       else (case peerKELFor w peer (receiptSeq r) of
         None \<Rightarrow> (l, SettlementPending c auth network (Some out))
       | Some k \<Rightarrow>
         (case ClearFromPeer c h now peer k (Some r) l of
           Inl e \<Rightarrow>
             if e = ErrReceiptOutOfWindow then with_receipt ReasonSettlementFailed
             else if e = Panicked then (l, refusedSettlement c Panicked (Some auth) network)
             else (l, SettlementPending c auth network (Some out))
         | Inr l' \<Rightarrow> (l', out))))))))"

definition notSettledReasons :: "string list" where
  "notSettledReasons = [''not_peer'', ''unauthorized'', ''key_retired'', ''ts_stale'', ''replayed'',
     ''bad_request'', ''too_large'', ''not_found'', ''wire_too_old'', ''wire_too_new'']"

fun cut_prefix :: "string \<Rightarrow> string \<Rightarrow> string option" where
  "cut_prefix [] s = Some s"
| "cut_prefix (x # p) [] = None"
| "cut_prefix (x # p) (y # s) = (if x = y then cut_prefix p s else None)"

definition peerSettler :: "core \<Rightarrow> hub_conf \<Rightarrow> peer_world \<Rightarrow> time_ns \<Rightarrow> peer_settler" where
  "peerSettler c h w now network pp req auth l =
    (case cut_prefix ''hub:'' network of
      None \<Rightarrow> None
    | Some peer \<Rightarrow>
      if peer \<notin> set (PeerAIDs w) then None
      else Some (case SettleAtPeer w peer pp req of
        NoAnswer \<Rightarrow> (l, SettlementPending c auth network None)
      | StatusReply st reason \<Rightarrow>
          if reason \<in> set notSettledReasons then (l, SettlementRefusedByPeer c auth network)
          else (l, SettlementPending c auth network None)
      | Unreadable \<Rightarrow> (l, SettlementPending c auth network None)
      | Answer out \<Rightarrow>
          if \<not> Success out \<and> ErrorReason out = None then (l, SettlementPending c auth network None)
          else if \<not> Success out then (l, out)
          else ClearPeerSettlement c h w now peer out auth req l))"

section \<open>Discharging what is owed\<close>

definition SettleOwed ::
  "core \<Rightarrow> time_ns \<Rightarrow> aid \<Rightarrow> aid \<Rightarrow> kel \<Rightarrow> receipt option \<Rightarrow> ledger \<Rightarrow> error + ledger" where
  "SettleOwed c now hub peer k rec l =
    (case rec of
      None \<Rightarrow> Inl (ErrStatement ''no statement'')
    | Some r \<Rightarrow>
    (case amountInt64 (RAmount r) of
      None \<Rightarrow> Inl (Refused ReasonInvalidAmount)
    | Some amt \<Rightarrow>
      if RPayer r \<noteq> peer then Inl (ErrStatement ''payer'')
      else if RPayTo r \<noteq> hub then Inl (ErrStatement ''payee'')
      else if \<not> ReceiptVerify c r k peer (RSettleAt r) then Inl (ErrStatement ''signature'')
      else if has_key (hub_cleared l) (RAuthID r) then Inr l
      else
        let l1 = l\<lparr>hub_cleared := AList.update (RAuthID r)
                     \<lparr>hc_peer = peer, hc_amount = amt, hc_at = ledgerStamp now\<rparr> (hub_cleared l)\<rparr>;
            n = row_or (owed l1) peer 0
        in if amt > n then Inl (ErrStatement ''more than owed'')
           else Inr (l1\<lparr>owed := (case map_of (owed l1) peer of
                                  None \<Rightarrow> owed l1
                                | Some v \<Rightarrow> AList.update peer (v - amt) (owed l1))\<rparr>)))"

text \<open>The statement's terms; its signature is ANetCore's. The nonce is the random source's; the printed number and the hexadecimal text are the
  standard library's \<open>fmt\<close> and \<open>encoding/hex\<close>, the argument \<open>statement_id\<close> here.\<close>

definition IssueOwedSettlement ::
  "core \<Rightarrow> hub_conf \<Rightarrow> time_ns \<Rightarrow> (aid \<Rightarrow> string \<Rightarrow> u64 \<Rightarrow> millis \<Rightarrow> string) \<Rightarrow> aid \<Rightarrow> aid \<Rightarrow> u64 \<Rightarrow> string
    \<Rightarrow> error + receipt" where
  "IssueOwedSettlement c h now statement_id hub peer amount reference =
    (if \<not> hasHubKey h then Inl (ErrOther ''no signing key'')
     else if amount = 0 then Inl (ErrOther ''nothing to clear'')
     else if amountInt64 amount = None then Inl (Refused ReasonInvalidAmount)
     else
       let ms = unix_milli now;
           rec = \<lparr>RAuthID = statement_id peer reference amount ms, RPayer = hub, RPayTo = peer,
                  RAmount = amount, RNetwork = CreditNetwork c hub, RSettleAt = ms, REnvelope = None\<rparr>
       in (case SignReceipt c rec of None \<Rightarrow> Inl (ErrOther ''sign'') | Some _ \<Rightarrow> Inr rec))"

end
