(* ===== verification/Redemption.thy ===== *)
theory Redemption
  imports Settlement_Laws Clearing
begin

text \<open>
  \<open>internal/aghub/redemption.go\<close>: credit an agent signs away to this hub. A redemption is a
  settlement whose payee is the hub, made without the binding guard, and a note of the reference
  it was made for. The note and the settlement are two transactions, in that order.
\<close>

section \<open>Redeem\<close>

record redemption =
  rd_seq :: nat
  rd_auth_id :: string
  rd_aid :: aid
  rd_amount :: u64
  rd_reference :: string
  rd_at :: time_ns
  rd_receipt :: "string option"
  rd_stored_amount :: int

definition maxRedeemReference :: nat where "maxRedeemReference = 256"

text \<open>A row as it is listed: an amount that could not have been settled is shown as it is stored.\<close>

definition redemption_view :: "redemption_row \<Rightarrow> redemption" where
  "redemption_view r =
    (let v = \<lparr>rd_seq = r_seq r, rd_auth_id = r_auth_id r, rd_aid = r_aid r, rd_amount = 0,
              rd_reference = r_reference r, rd_at = r_at r, rd_receipt = None, rd_stored_amount = 0\<rparr>
     in case storedAmount (r_amount r) of
       Some n \<Rightarrow> v\<lparr>rd_amount := n\<rparr> | None \<Rightarrow> v\<lparr>rd_stored_amount := r_amount r\<rparr>)"

definition redemptionOf :: "core \<Rightarrow> hub_conf \<Rightarrow> aid \<Rightarrow> string \<Rightarrow> ledger \<Rightarrow> error + redemption option" where
  "redemptionOf c h hub i l =
    (case filter (\<lambda>r. r_auth_id r = i) (redemptions l) of
      [] \<Rightarrow> Inr None
    | r # _ \<Rightarrow> (case storedAmount (r_amount r) of
        None \<Rightarrow> Inl (ErrOther ''stored amount'')
      | Some n \<Rightarrow> (case settledBefore c h hub i l of
          Inl e \<Rightarrow> Inl e
        | Inr s \<Rightarrow> Inr (Some ((redemption_view r)
            \<lparr>rd_receipt := (case s of None \<Rightarrow> None | Some (out, _) \<Rightarrow> ExtReceipt out)\<rparr>)))))"

text \<open>\<open>INSERT INTO credit_redemption\<close>: the authorization id is unique.\<close>

definition add_redemption ::
  "string \<Rightarrow> aid \<Rightarrow> int \<Rightarrow> string \<Rightarrow> time_ns \<Rightarrow> ledger \<Rightarrow> ledger option" where
  "add_redemption i a amt reference at l =
    (if list_ex (\<lambda>r. r_auth_id r = i) (redemptions l) then None
     else Some (l\<lparr>redemptions := redemptions l @ [\<lparr>r_seq = Suc (redemption_seq l), r_auth_id = i, r_aid = a,
                    r_amount = amt, r_reference = reference, r_at = at\<rparr>],
                  redemption_seq := Suc (redemption_seq l)\<rparr>))"

text \<open>What follows the settlement of a redemption: its failure, or the note.\<close>

definition redeemNote ::
  "authorization \<Rightarrow> int \<Rightarrow> string \<Rightarrow> time_ns \<Rightarrow> ledger \<times> settlement_response \<Rightarrow> ledger \<times> (error + redemption)" where
  "redeemNote auth amt reference now s =
    (case s of (l2, out) \<Rightarrow>
       if \<not> Success out
       then (l2, Inl (case ErrorReason out of None \<Rightarrow> Panicked | Some r \<Rightarrow> Refused r))
       else (case add_redemption (STransaction out) (Payer auth) amt reference (ledgerStamp now) l2 of
         None \<Rightarrow> (l2, Inl (ErrOther ''credit was redeemed but the note could not be recorded''))
       | Some l3 \<Rightarrow>
           (l3, Inr \<lparr>rd_seq = redemption_seq l3, rd_auth_id = STransaction out, rd_aid = Payer auth,
                    rd_amount = Amount auth, rd_reference = reference, rd_at = ledgerStamp now,
                    rd_receipt = ExtReceipt out, rd_stored_amount = 0\<rparr>)))"

definition Redeem ::
  "core \<Rightarrow> hub_conf \<Rightarrow> (aid, bytes) table \<Rightarrow> aid \<Rightarrow> time_ns \<Rightarrow> payment_payload option \<Rightarrow> string \<Rightarrow> ledger
    \<Rightarrow> ledger \<times> (error + redemption)" where
  "Redeem c h kels hub now p reference l =
    (case verifiedAuth c kels hub p of
      Inl (_, e) \<Rightarrow> (l, Inl e)
    | Inr (auth, i, k) \<Rightarrow>
    (case amountInt64 (Amount auth) of
      None \<Rightarrow> (l, Inl (Refused ReasonInvalidAmount))
    | Some amt \<Rightarrow>
      if PayTo auth \<noteq> hub then (l, Inl (Refused ReasonPayeeMismatch))
      else if Payer auth = hub then (l, Inl (ErrOther ''the hub cannot redeem its own liability''))
      else if length reference > maxRedeemReference then (l, Inl (Refused ReasonMalformed))
      else if InteractionID auth \<noteq> [] \<and> InteractionID auth \<noteq> ''redeem:'' @ reference
           then (l, Inl (Refused ReasonMalformed))
      else (case redemptionOf c h hub i l of
        Inl _ \<Rightarrow> (l, Inl (Refused ReasonSettlementFailed))
      | Inr (Some prior) \<Rightarrow> (l, Inr prior)
      | Inr None \<Rightarrow>
        (case keyAtFirstVerify c kels auth i k (unix_milli now) l of
          (l1, Some e) \<Rightarrow> (l1, Inl e)
        | (l1, None) \<Rightarrow>
            redeemNote auth amt reference now
              (settleAuth c h kels hub now (auth\<lparr>InteractionID := []\<rparr>) i [] l1)))))"

lemma redeemNote_state:
  "redeemNote auth amt reference now (l2, out) = (l', r) \<Longrightarrow>
     l' = l2 \<or> add_redemption (STransaction out) (Payer auth) amt reference (ledgerStamp now) l2 = Some l'"
  by (auto simp: redeemNote_def split: if_splits option.splits)

section \<open>Listings\<close>

record redemption_window =
  rw_rows :: "redemption list"
  rw_total :: nat
  rw_sum :: u64
  rw_oldest :: nat

definition Redemptions :: "time_ns \<Rightarrow> aid \<Rightarrow> int \<Rightarrow> ledger \<Rightarrow> error + redemption_window" where
  "Redemptions now a limit l =
    (let rows = filter (\<lambda>r. r_aid r = a \<and> r_at r \<ge> windowStart now) (redemptions l) in
     case sql_sum 0 (map r_amount rows) of
       None \<Rightarrow> Inl (ErrOther ''integer overflow'')
     | Some s \<Rightarrow> Inr \<lparr>rw_rows = map redemption_view (rev (newest (page_limit limit) rows)),
                       rw_total = length rows,
                       rw_sum = (case storedAmount s of Some n \<Rightarrow> n | None \<Rightarrow> 0),
                       rw_oldest = (case rows of [] \<Rightarrow> 0 | r # _ \<Rightarrow> r_seq r)\<rparr>)"

text \<open>The sum of the operator's listing stops at the largest value it can state.\<close>

definition add_saturating :: "u64 \<Rightarrow> u64 \<Rightarrow> u64" where
  "add_saturating s n = (if s + n < n then - 1 else s + n)"

definition WindowRedemptions :: "time_ns \<Rightarrow> ledger \<Rightarrow> redemption_window" where
  "WindowRedemptions now l =
    (let rows = sort_key r_at (filter (\<lambda>r. r_at r \<ge> windowStart now) (redemptions l)) in
     \<lparr>rw_rows = map redemption_view rows, rw_total = length rows,
      rw_sum = foldl (\<lambda>s r. case storedAmount (r_amount r) of Some n \<Rightarrow> add_saturating s n | None \<Rightarrow> s) 0 rows,
      rw_oldest = foldl (\<lambda>o' r. if o' = 0 \<or> r_seq r < o' then r_seq r else o') 0 rows\<rparr>)"

end
