(* ===== verification/Janitor.thy ===== *)
theory Janitor
  imports Redemption
begin

text \<open>
  \<open>internal/aghub/janitor.go\<close>: the hourly deletion of ledger rows past their time. A deleted
  settlement, guard or clearing could be made again, so what each step keeps is what the replay
  protection of the ledger rests on. The lemmas say exactly which rows survive a round.
\<close>

section \<open>A round\<close>

definition prune_entries :: "time_ns \<Rightarrow> ledger \<Rightarrow> ledger" where
  "prune_entries now l = l\<lparr>entries := filter (\<lambda>e. \<not> e_at e < windowStart now) (entries l)\<rparr>"

definition prune_redemptions :: "time_ns \<Rightarrow> ledger \<Rightarrow> ledger" where
  "prune_redemptions now l = l\<lparr>redemptions := filter (\<lambda>r. \<not> r_at r < windowStart now) (redemptions l)\<rparr>"

definition prune_settled :: "time_ns \<Rightarrow> ledger \<Rightarrow> ledger" where
  "prune_settled now l =
    l\<lparr>settled := filter (\<lambda>(_, r). \<not> s_not_after r \<le> unix_milli (now - settledKeptAfter)) (settled l)\<rparr>"

definition prune_guards :: "time_ns \<Rightarrow> ledger \<Rightarrow> ledger" where
  "prune_guards now l = l\<lparr>guards := filter (\<lambda>(_, until). \<not> until \<le> unix_milli now) (guards l)\<rparr>"

definition prune_cleared :: "time_ns \<Rightarrow> ledger \<Rightarrow> ledger" where
  "prune_cleared now l =
    l\<lparr>cleared := filter (\<lambda>(_, r). \<not> c_settle_at r \<le> unix_milli (now - clearedKeptAfter)) (cleared l)\<rparr>"

definition prune_first_verifies :: "time_ns \<Rightarrow> ledger \<Rightarrow> ledger" where
  "prune_first_verifies now l =
    l\<lparr>first_verifies := filter (\<lambda>(_, r). \<not> fv_delete_after r \<le> unix_milli now) (first_verifies l)\<rparr>"

text \<open>\<open>ledgerRetention\<close>, in its order, and the loop of \<open>pruneLedgerAt\<close> over it; the round itself, which
  also drops the balance proofs, is in \<open>Supply_Epochs\<close>.\<close>

definition ledgerRetention :: "(time_ns \<Rightarrow> ledger \<Rightarrow> ledger) list" where
  "ledgerRetention = [prune_entries, prune_redemptions, prune_settled, prune_guards, prune_cleared,
     prune_first_verifies]"

definition pruneTables :: "time_ns \<Rightarrow> ledger \<Rightarrow> ledger" where
  "pruneTables now l = foldl (\<lambda>l step. step now l) l ledgerRetention"

lemmas prune_defs = prune_entries_def prune_redemptions_def prune_settled_def prune_guards_def
  prune_cleared_def prune_first_verifies_def

section \<open>What survives\<close>

lemma pruneTables_sel [simp]:
  "balances (pruneTables now l) = balances l" "issued (pruneTables now l) = issued l"
  "redeemed (pruneTables now l) = redeemed l" "owed (pruneTables now l) = owed l"
  "due (pruneTables now l) = due l" "hub_cleared (pruneTables now l) = hub_cleared l"
  "entry_seq (pruneTables now l) = entry_seq l" "redemption_seq (pruneTables now l) = redemption_seq l"
  "events_since (pruneTables now l) = events_since l" "last_to_day (pruneTables now l) = last_to_day l"
  "entries (pruneTables now l) = filter (\<lambda>e. windowStart now \<le> e_at e) (entries l)"
  "redemptions (pruneTables now l) = filter (\<lambda>r. windowStart now \<le> r_at r) (redemptions l)"
  "settled (pruneTables now l) =
     filter (\<lambda>(_, r). unix_milli (now - settledKeptAfter) < s_not_after r) (settled l)"
  "guards (pruneTables now l) = filter (\<lambda>(_, until). unix_milli now < until) (guards l)"
  "cleared (pruneTables now l) =
     filter (\<lambda>(_, r). unix_milli (now - clearedKeptAfter) < c_settle_at r) (cleared l)"
  "first_verifies (pruneTables now l) =
     filter (\<lambda>(_, r). unix_milli now < fv_delete_after r) (first_verifies l)"
  by (simp_all add: pruneTables_def ledgerRetention_def prune_defs not_less not_le)

lemma supply_ok_prune [simp]: "supply_ok h (pruneTables now l) = supply_ok h l"
  by (simp add: supply_ok_def)

text \<open>What an account reads of its window is the same whether or not earlier rounds have run.\<close>

lemma filter_window:
  assumes "now \<le> now'"
  shows "filter (\<lambda>e. Q e \<and> windowStart now' \<le> at e) (filter (\<lambda>e. windowStart now \<le> at e) xs) =
    filter (\<lambda>e. Q e \<and> windowStart now' \<le> at e) xs"
proof -
  have "windowStart now \<le> windowStart now'" using assms by (simp add: windowStart_def ledgerStamp_def)
  then show ?thesis by (induction xs) auto
qed

lemma LedgerEntries_after_prune:
  "now \<le> now' \<Longrightarrow> LedgerEntries now' a n (pruneTables now l) = LedgerEntries now' a n l"
  by (simp only: LedgerEntries_def pruneTables_sel filter_window)

lemma Redemptions_after_prune:
  "now \<le> now' \<Longrightarrow> Redemptions now' a n (pruneTables now l) = Redemptions now' a n l"
  by (simp only: Redemptions_def pruneTables_sel filter_window)

end
