(* ===== verification/Supply_Epochs.thy ===== *)
theory Supply_Epochs
  imports Janitor
begin

text \<open>
  \<open>internal/aghub/supply.go\<close>: the published supply epochs, the balance proofs and the operator's
  view of the supply. The Merkle sum tree (\<open>liabtree\<close>), the signed record (\<open>ael\<close>) and its
  encoding (\<open>coredet\<close>) are ANetCore's and are fields of \<open>liab_core\<close>.

  The lemmas show that a ledger that satisfies the supply invariant is never refused as one that
  does not add up, what a published epoch states, that the epochs of the chain cover the days
  without a gap or an overlap, and that the cache of trees never changes an answer.
\<close>

section \<open>Trees and records\<close>

record liab_entry =
  en_aid :: aid
  en_balance :: u64
  en_salt :: bytes

record liab_tree =
  t_root :: bytes
  t_outstanding :: u64
  t_depth :: nat
  t_entries :: "liab_entry list"
  t_proofs :: "(aid, string) table"

record liab_core =
  SaltSize :: nat
  BuildTree :: "(aid \<times> u64) list \<Rightarrow> int \<Rightarrow> liab_tree option"
  RebuildTree :: "int \<Rightarrow> liab_entry list \<Rightarrow> liab_tree option"
  HexRoot :: "bytes \<Rightarrow> string"
  GenesisPrev :: string
  EpochRecord :: "aid \<Rightarrow> int \<Rightarrow> int \<Rightarrow> bytes \<Rightarrow> u64 \<Rightarrow> nat \<Rightarrow> int \<Rightarrow> string \<Rightarrow> millis \<Rightarrow> (string \<times> bytes) option"
  RecordTimestamp :: "bytes \<Rightarrow> millis option"

section \<open>Tables\<close>

record epoch =
  ep_seq :: int
  ep_id :: string
  ep_prev_id :: string
  ep_from_day :: int
  ep_to_day :: int
  ep_root :: string
  ep_outstanding :: u64
  ep_depth :: nat
  ep_raw :: bytes

record epoch_meta =
  em_ledger_hw :: nat
  em_leaves :: nat

text \<open>\<open>leaves\<close> is \<open>liab_leaf\<close> by \<open>to_day\<close>, each epoch's rows in the order of \<open>pos\<close>; \<open>trees\<close> is the
  process's cache.\<close>

record epochs =
  chain :: "epoch list"
  leaves :: "(int, liab_entry list) table"
  metas :: "(int, epoch_meta) table"
  trees :: "(int, liab_tree) table"

definition epochEvents :: int where "epochEvents = 20"
definition epochDays :: int where "epochDays = 7"
definition proofKeptFor :: int where "proofKeptFor = 14 * day_ms"
definition issuancePage :: int where "issuancePage = 500"

section \<open>Publication\<close>

text \<open>\<open>ORDER BY seq DESC LIMIT 1\<close>: \<open>seq\<close> is the row's place in the chain.\<close>

definition supplyHead :: "liab_core \<Rightarrow> epochs \<Rightarrow> string \<times> int \<times> bool" where
  "supplyHead lc ep =
    (case chain ep of [] \<Rightarrow> (GenesisPrev lc, 0, False)
     | _ \<Rightarrow> (ep_id (last (chain ep)), ep_seq (last (chain ep)), True))"

text \<open>The rows of the tree: every registered agent and every account with a row, without the hub.
  The order of the query is not specified; the tree does not depend on it.\<close>

definition epoch_rows :: "(aid, bytes) table \<Rightarrow> aid \<Rightarrow> ledger \<Rightarrow> (aid \<times> int) list" where
  "epoch_rows kels hub l =
    map (\<lambda>a. (a, row_or (balances l) a 0))
      (filter (\<lambda>a. a \<noteq> hub) (remdups (map fst kels @ map fst (balances l))))"

definition closeEpochTx ::
  "liab_core \<Rightarrow> (aid, bytes) table \<Rightarrow> aid \<Rightarrow> int \<Rightarrow> int \<Rightarrow> int \<Rightarrow> time_ns \<Rightarrow> ledger \<Rightarrow> epochs
    \<Rightarrow> error + (epochs \<times> epoch)" where
  "closeEpochTx lc kels hub from_day to_day outst now l ep =
    (let rows = epoch_rows kels hub l in
     if list_ex (\<lambda>(_, b). b < 0) rows then Inl ErrSupplyMismatch
     else
       let hub_row = row_or (balances l) hub 0; ledger_hw = entry_seq l in
       (case BuildTree lc (map (\<lambda>(a, b). (a, word_of_int b)) rows) to_day of
         None \<Rightarrow> Inl ErrSupplyMismatch
       | Some tree \<Rightarrow>
         if outst < 0 \<or> t_outstanding tree \<noteq> word_of_int outst \<or> hub_row \<noteq> - outst
         then Inl ErrSupplyMismatch
         else (case supplyHead lc ep of (prev, sq, have) \<Rightarrow>
           let nxt = (if have then sq + 1 else 0) in
           (case EpochRecord lc hub from_day to_day (t_root tree) (t_outstanding tree) (t_depth tree)
                   nxt prev (unix_milli now) of
             None \<Rightarrow> Inl (ErrOther ''signing the record'')
           | Some (eid, raw) \<Rightarrow>
             if list_ex (\<lambda>e. ep_id e = eid \<or> ep_seq e = nxt \<or> ep_to_day e = to_day) (chain ep)
                \<or> has_key (leaves ep) to_day \<or> has_key (metas ep) to_day
             then Inl (ErrOther ''constraint'')
             else
               let e = \<lparr>ep_seq = nxt, ep_id = eid, ep_prev_id = prev, ep_from_day = from_day,
                        ep_to_day = to_day, ep_root = HexRoot lc (t_root tree),
                        ep_outstanding = t_outstanding tree, ep_depth = t_depth tree, ep_raw = raw\<rparr>
               in Inr (ep\<lparr>chain := chain ep @ [e],
                         leaves := AList.update to_day (t_entries tree) (leaves ep),
                         metas := AList.update to_day
                           \<lparr>em_ledger_hw = ledger_hw, em_leaves = length (t_entries tree)\<rparr> (metas ep)\<rparr>,
                      e)))))"

definition publishDueAt ::
  "liab_core \<Rightarrow> hub_conf \<Rightarrow> (aid, bytes) table \<Rightarrow> time_ns \<Rightarrow> ledger \<Rightarrow> epochs
    \<Rightarrow> error + (ledger \<times> epochs \<times> epoch option)" where
  "publishDueAt lc h kels now l ep =
    (if \<not> hasHubKey h \<or> hubAID h = [] then Inl ErrNoSigningKey
     else
       let d = utcDay now - 1 in
       (case last_to_day l of
         None \<Rightarrow> Inr (l, ep, None)
       | Some lst \<Rightarrow>
         if d \<le> lst \<or> d < 0 then Inr (l, ep, None)
         else if events_since l < epochEvents \<and> d - lst < epochDays then Inr (l, ep, None)
         else if list_ex (\<lambda>e. ep_to_day e = d) (chain ep) then Inr (l, ep, None)
         else
           rbind (closeEpochTx lc kels (hubAID h) (lst + 1) d (issued l - redeemed l) now l ep) (\<lambda>(ep', e).
             Inr (l\<lparr>events_since := 0, last_to_day := Some d\<rparr>, ep', Some e))))"

definition SupplyEpochs :: "int \<Rightarrow> int \<Rightarrow> epochs \<Rightarrow> epoch list" where
  "SupplyEpochs from limit ep =
    (let n = (if limit \<le> 0 \<or> limit > issuancePage then issuancePage else limit) in
     if from > max_int64 then []
     else take (nat n) (filter (\<lambda>e. ep_seq e \<ge> from) (chain ep)))"

definition latestEpoch :: "liab_core \<Rightarrow> epochs \<Rightarrow> epoch option" where
  "latestEpoch lc ep =
    (case supplyHead lc ep of (_, sq, have) \<Rightarrow>
      if \<not> have then None
      else (case SupplyEpochs sq 1 ep of [] \<Rightarrow> None | e # _ \<Rightarrow> Some e))"

text \<open>\<open>runSupplyEpochs\<close>: what a check leaves for the next tick, and when a tick checks.\<close>

definition check_again :: "error + 'a \<Rightarrow> bool" where
  "check_again r = (case r of Inl e \<Rightarrow> e \<noteq> ErrSupplyMismatch \<and> e \<noteq> ErrNoSigningKey | Inr _ \<Rightarrow> False)"

definition tick_checks :: "int \<Rightarrow> bool \<Rightarrow> time_ns \<Rightarrow> bool" where
  "tick_checks day again now \<longleftrightarrow> utcDay now \<noteq> day \<or> again"

section \<open>Balance proofs\<close>

definition cache_put :: "int \<Rightarrow> liab_tree \<Rightarrow> (int, liab_tree) table \<Rightarrow> (int, liab_tree) table" where
  "cache_put d t c =
    (let c = (if int (length c) \<ge> go_div (2 * proofKeptFor) day_ms then [] else c) in AList.update d t c)"

definition liabTree :: "liab_core \<Rightarrow> epoch \<Rightarrow> epochs \<Rightarrow> epochs \<times> (error + (liab_tree \<times> nat))" where
  "liabTree lc e ep =
    (case map_of (metas ep) (ep_to_day e) of
      None \<Rightarrow> (ep, Inl ErrProofUnavailable)
    | Some m \<Rightarrow>
      (let hit = (case map_of (trees ep) (ep_to_day e) of
                    Some t \<Rightarrow> if HexRoot lc (t_root t) = ep_root e then Some t else None
                  | None \<Rightarrow> None)
       in case hit of
         Some t \<Rightarrow> (ep, Inr (t, em_ledger_hw m))
       | None \<Rightarrow>
         (let rows = row_or (leaves ep) (ep_to_day e) [] in
          if list_ex (\<lambda>en. length (en_salt en) \<noteq> SaltSize lc) rows then (ep, Inl (ErrOther ''damaged leaf''))
          else if length rows \<noteq> em_leaves m then (ep, Inl (ErrOther ''leaves missing''))
          else (case RebuildTree lc (ep_to_day e) rows of
            None \<Rightarrow> (ep, Inl (ErrOther ''rebuild''))
          | Some t \<Rightarrow>
            if HexRoot lc (t_root t) \<noteq> ep_root e \<or> t_outstanding t \<noteq> ep_outstanding e \<or> t_depth t \<noteq> ep_depth e
            then (ep, Inl (ErrOther ''not the published root''))
            else (ep\<lparr>trees := cache_put (ep_to_day e) t (trees ep)\<rparr>, Inr (t, em_ledger_hw m))))))"

record liability_proof =
  lp_proof :: string
  lp_from_day :: int
  lp_ledger_hw :: nat
  lp_record :: string

definition liabilityProofAt ::
  "liab_core \<Rightarrow> aid \<Rightarrow> int option \<Rightarrow> time_ns \<Rightarrow> epochs \<Rightarrow> epochs \<times> (error + liability_proof)" where
  "liabilityProofAt lc a to_day now ep =
    (case (case to_day of
             None \<Rightarrow> latestEpoch lc ep
           | Some d \<Rightarrow> if d > max_int64 then None
                      else (case filter (\<lambda>e. ep_to_day e = d) (chain ep) of [] \<Rightarrow> None | e # _ \<Rightarrow> Some e)) of
      None \<Rightarrow> (ep, Inl ErrProofUnavailable)
    | Some e \<Rightarrow>
      (case RecordTimestamp lc (ep_raw e) of
        None \<Rightarrow> (ep, Inl (ErrOther ''record''))
      | Some at \<Rightarrow>
        if unix_milli now - at \<ge> proofKeptFor then (ep, Inl ErrProofUnavailable)
        else (case liabTree lc e ep of (ep', r) \<Rightarrow>
          (case r of
            Inl x \<Rightarrow> (ep', Inl x)
          | Inr (t, hw) \<Rightarrow>
            (case map_of (t_proofs t) a of
              None \<Rightarrow> (ep', Inl ErrProofUnavailable)
            | Some p \<Rightarrow> (ep', Inr \<lparr>lp_proof = p, lp_from_day = ep_from_day e, lp_ledger_hw = hw,
                                     lp_record = EncodeB64URL (ep_raw e)\<rparr>))))))"

definition drop_epoch :: "int \<Rightarrow> epochs \<Rightarrow> epochs" where
  "drop_epoch d ep = ep\<lparr>leaves := AList.delete d (leaves ep), metas := AList.delete d (metas ep),
                        trees := AList.delete d (trees ep)\<rparr>"

text \<open>The days to drop are collected first; a record that cannot be read ends the round with an
  error before anything is deleted.\<close>

definition joined_records :: "epochs \<Rightarrow> (int \<times> bytes) list" where
  "joined_records ep =
    concat (map (\<lambda>(d, _). map (\<lambda>e. (d, ep_raw e)) (filter (\<lambda>e. ep_to_day e = d) (chain ep))) (metas ep))"

definition pruneLiabilityProofsAt :: "liab_core \<Rightarrow> time_ns \<Rightarrow> epochs \<Rightarrow> error + epochs" where
  "pruneLiabilityProofsAt lc now ep =
    (let recs = joined_records ep in
     if list_ex (\<lambda>(_, raw). RecordTimestamp lc raw = None) recs then Inl (ErrOther ''record'')
     else
       let old = map fst (filter (\<lambda>(_, raw).
             unix_milli now - the (RecordTimestamp lc raw) \<ge> proofKeptFor) recs)
       in Inr (foldl (\<lambda>ep d. drop_epoch d ep) ep old))"

text \<open>The janitor's round: the ledger's tables, then the balance proofs; an error in the second leaves
  the first done.\<close>

definition pruneLedgerAt :: "liab_core \<Rightarrow> time_ns \<Rightarrow> ledger \<Rightarrow> epochs \<Rightarrow> ledger \<times> epochs \<times> error option" where
  "pruneLedgerAt lc now l ep =
    (case pruneLiabilityProofsAt lc now ep of
      Inl e \<Rightarrow> (pruneTables now l, ep, Some e)
    | Inr ep' \<Rightarrow> (pruneTables now l, ep', None))"

section \<open>The operator's view\<close>

record supply_view =
  sv_issued :: int
  sv_redeemed :: int
  sv_outstanding :: int
  sv_balances :: int
  sv_hub_row :: int
  sv_events :: int
  sv_owed :: int
  sv_due :: int
  sv_latest :: "epoch option"

definition Consistent :: "supply_view \<Rightarrow> bool" where
  "Consistent s \<longleftrightarrow> sv_balances s = sv_outstanding s \<and> sv_hub_row s = - sv_outstanding s"

definition Supply :: "liab_core \<Rightarrow> aid \<Rightarrow> ledger \<Rightarrow> epochs \<Rightarrow> error + supply_view" where
  "Supply lc hub l ep =
    (case sql_sum 0 (map snd (filter (\<lambda>(a, _). a \<noteq> hub) (balances l))) of
      None \<Rightarrow> Inl (ErrOther ''integer overflow'')
    | Some b \<Rightarrow> (case sql_sum 0 (map snd (owed l)) of
        None \<Rightarrow> Inl (ErrOther ''integer overflow'')
      | Some ow \<Rightarrow> (case sql_sum 0 (map snd (due l)) of
          None \<Rightarrow> Inl (ErrOther ''integer overflow'')
        | Some du \<Rightarrow> Inr \<lparr>sv_issued = issued l, sv_redeemed = redeemed l,
            sv_outstanding = issued l - redeemed l, sv_balances = b,
            sv_hub_row = row_or (balances l) hub 0, sv_events = events_since l, sv_owed = ow, sv_due = du,
            sv_latest = latestEpoch lc ep\<rparr>)))"

definition OwedByPeer :: "ledger \<Rightarrow> (aid, int) table" where
  "OwedByPeer l = filter (\<lambda>(_, n). n > 0) (owed l)"

section \<open>The tree's rows add up\<close>

lemma sum_except_as_set:
  assumes "keys_ok b"
  shows "sum_except hub b = (\<Sum>a \<in> fst ` set b - {hub}. row_or b a 0)"
proof (cases "hub \<in> fst ` set b")
  case True
  then have "(\<Sum>a \<in> fst ` set b. row_or b a 0) = row_or b hub 0 + (\<Sum>a \<in> fst ` set b - {hub}. row_or b a 0)"
    by (intro sum.remove) auto
  with assms show ?thesis by (simp add: sum_except_split col_sum_as_set)
next
  case False
  with assms show ?thesis by (simp add: sum_except_split col_sum_as_set row_or_not_key)
qed

lemma epoch_rows_sum:
  assumes "keys_ok (balances l)"
  shows "sum_list (map snd (epoch_rows kels hub l)) = sum_except hub (balances l)"
proof -
  let ?L = "filter (\<lambda>a. a \<noteq> hub) (remdups (map fst kels @ map fst (balances l)))"
  have "sum_list (map snd (epoch_rows kels hub l)) = sum_list (map (\<lambda>a. row_or (balances l) a 0) ?L)"
    by (simp add: epoch_rows_def o_def)
  also have "\<dots> = (\<Sum>a \<in> set ?L. row_or (balances l) a 0)"
    by (rule sum_list_distinct_conv_sum_set) simp
  also have "\<dots> = (\<Sum>a \<in> fst ` set (balances l) - {hub}. row_or (balances l) a 0)"
    by (rule sum.mono_neutral_right) (auto intro!: row_or_not_key)
  finally show ?thesis using assms by (simp add: sum_except_as_set)
qed

lemma epoch_rows_distinct: "distinct (map fst (epoch_rows kels hub l))"
  by (simp add: epoch_rows_def o_def)

lemma epoch_rows_row:
  assumes "(a, b) \<in> set (epoch_rows kels hub l)"
  shows "b = row_or (balances l) a 0 \<and> a \<noteq> hub \<and> (a \<in> fst ` set kels \<or> a \<in> fst ` set (balances l))"
  using assms by (auto simp: epoch_rows_def)

text \<open>What the tree library promises of \<open>Build\<close>: accounts with distinct, non-empty names whose
  total fits make a tree, and its total is theirs.\<close>

definition build_law :: "liab_core \<Rightarrow> bool" where
  "build_law lc \<longleftrightarrow> (\<forall>rows d. distinct (map fst rows) \<and> [] \<notin> set (map fst rows)
      \<and> sum_list (map (\<lambda>(_, b). uint b) rows) \<le> max_int64
    \<longrightarrow> (\<exists>t. BuildTree lc rows d = Some t
          \<and> uint (t_outstanding t) = sum_list (map (\<lambda>(_, b). uint b) rows)))"

definition names_ok :: "(aid, bytes) table \<Rightarrow> ledger \<Rightarrow> bool" where
  "names_ok kels l \<longleftrightarrow> \<not> has_key kels [] \<and> \<not> has_key (balances l) []"

lemma closeEpochTx_tree:
  assumes sup: "supply_ok h l" and law: "build_law lc" and names: "names_ok kels l"
  shows "\<exists>t. BuildTree lc (map (\<lambda>(a, b). (a, word_of_int b)) (epoch_rows kels (hubAID h) l)) d = Some t
      \<and> uint (t_outstanding t) = issued l - redeemed l"
    and "\<not> list_ex (\<lambda>(_, b). b < 0) (epoch_rows kels (hubAID h) l)"
proof -
  let ?rows = "epoch_rows kels (hubAID h) l"
  let ?w = "map (\<lambda>(a, b). (a, word_of_int b :: u64)) ?rows"
  note books = supply_okD(2) [OF sup]
  have row: "0 \<le> b \<and> b \<le> max_int64" if "(a, b) \<in> set ?rows" for a b
    using epoch_rows_row [OF that] books_okD(2,3) [OF books, of a] books_okD(6,7) [OF books] by auto
  then show "\<not> list_ex (\<lambda>(_, b). b < 0) ?rows" by (force simp: list_ex_iff)
  have "map (\<lambda>(_, b). uint b) ?w = map snd ?rows"
    using row by (auto simp: uint_of_int64)
  then have total: "sum_list (map (\<lambda>(_, b). uint b) ?w) = issued l - redeemed l"
    by (simp only: epoch_rows_sum [OF books_okD(1) [OF books]] books_okD(8) [OF books])
  have fst: "map fst ?w = map fst ?rows" by (induction ?rows) auto
  have "[] \<notin> set (map fst ?rows)"
    using epoch_rows_row names unfolding names_ok_def has_key_def by (fastforce simp: map_of_eq_None_iff image_iff)
  then have "distinct (map fst ?w)" "[] \<notin> set (map fst ?w)"
    unfolding fst using epoch_rows_distinct by auto
  moreover have "sum_list (map (\<lambda>(_, b). uint b) ?w) \<le> max_int64"
    unfolding total using books_okD(6,7) [OF books] by simp
  ultimately obtain t where "BuildTree lc ?w d = Some t" "uint (t_outstanding t) = sum_list (map (\<lambda>(_, b). uint b) ?w)"
    using law unfolding build_law_def by blast
  then show "\<exists>t. BuildTree lc ?w d = Some t \<and> uint (t_outstanding t) = issued l - redeemed l"
    using total by auto
qed

text \<open>A ledger that keeps the supply invariant is published, if it is due.\<close>

lemma closeEpochTx_adds_up:
  assumes sup: "supply_ok h l" and law: "build_law lc" and names: "names_ok kels l"
  shows "closeEpochTx lc kels (hubAID h) from_day to_day (issued l - redeemed l) now l ep \<noteq> Inl ErrSupplyMismatch"
    and "closeEpochTx lc kels (hubAID h) from_day to_day (issued l - redeemed l) now l ep = Inr (ep', e) \<Longrightarrow>
      uint (ep_outstanding e) = issued l - redeemed l \<and> ep_from_day e = from_day \<and> ep_to_day e = to_day \<and>
      chain ep' = chain ep @ [e] \<and>
      ep_seq e = (if chain ep = [] then 0 else ep_seq (last (chain ep)) + 1) \<and>
      ep_prev_id e = (if chain ep = [] then GenesisPrev lc else ep_id (last (chain ep))) \<and>
      map_of (metas ep') to_day = Some \<lparr>em_ledger_hw = entry_seq l,
        em_leaves = length (row_or (leaves ep') to_day [])\<rparr>"
proof -
  note books = supply_okD(2) [OF sup]
  obtain t where t: "BuildTree lc (map (\<lambda>(a, b). (a, word_of_int b)) (epoch_rows kels (hubAID h) l)) to_day = Some t"
      and o: "uint (t_outstanding t) = issued l - redeemed l"
    using closeEpochTx_tree(1) [OF sup law names] by blast
  have pos: "\<not> issued l - redeemed l < 0" using books_okD(5) [OF books] by simp
  have same: "t_outstanding t = word_of_int (issued l - redeemed l)" by (simp add: o [symmetric])
  have hub: "row_or (balances l) (hubAID h) 0 = - (issued l - redeemed l)"
    using books_okD(4) [OF books] by simp
  note go = t closeEpochTx_tree(2) [OF sup law names] pos same hub
  show "closeEpochTx lc kels (hubAID h) from_day to_day (issued l - redeemed l) now l ep \<noteq> Inl ErrSupplyMismatch"
    using go by (auto simp: closeEpochTx_def Let_def split: prod.splits option.splits)
  assume "closeEpochTx lc kels (hubAID h) from_day to_day (issued l - redeemed l) now l ep = Inr (ep', e)"
  then show "uint (ep_outstanding e) = issued l - redeemed l \<and> ep_from_day e = from_day \<and> ep_to_day e = to_day \<and>
      chain ep' = chain ep @ [e] \<and>
      ep_seq e = (if chain ep = [] then 0 else ep_seq (last (chain ep)) + 1) \<and>
      ep_prev_id e = (if chain ep = [] then GenesisPrev lc else ep_id (last (chain ep))) \<and>
      map_of (metas ep') to_day = Some \<lparr>em_ledger_hw = entry_seq l,
        em_leaves = length (row_or (leaves ep') to_day [])\<rparr>"
    using go o unfolding closeEpochTx_def supplyHead_def Let_def
    by (auto simp: table_simps split: prod.splits option.splits if_splits list.splits)
qed

section \<open>The chain of epochs\<close>

text \<open>\<open>linked prev sq frm es\<close>: the epochs \<open>es\<close> follow an epoch with the id \<open>prev\<close>, from the
  sequence number \<open>sq\<close> on, and each begins on the day after the one before it ended.\<close>

fun linked :: "string \<Rightarrow> int \<Rightarrow> int option \<Rightarrow> epoch list \<Rightarrow> bool" where
  "linked prev sq frm [] = True"
| "linked prev sq frm (e # es) =
    (ep_prev_id e = prev \<and> ep_seq e = sq \<and> (\<forall>f. frm = Some f \<longrightarrow> ep_from_day e = f) \<and>
     ep_from_day e \<le> ep_to_day e \<and> linked (ep_id e) (sq + 1) (Some (ep_to_day e + 1)) es)"

lemma linked_snoc:
  "linked prev sq frm (es @ [e]) \<longleftrightarrow> linked prev sq frm es \<and>
    (if es = [] then linked prev sq frm [e]
     else linked (ep_id (last es)) (ep_seq (last es) + 1) (Some (ep_to_day (last es) + 1)) [e])"
  by (induction es arbitrary: prev sq frm) auto

lemma linked_days:
  "linked prev sq (Some f) es \<Longrightarrow> es \<noteq> [] \<Longrightarrow>
     concat (map (\<lambda>e. [ep_from_day e..ep_to_day e]) es) = [f..ep_to_day (last es)] \<and> f \<le> ep_to_day (last es)"
proof (induction es arbitrary: prev sq f)
  case Nil
  then show ?case by simp
next
  case (Cons e es)
  then have f: "f = ep_from_day e" "f \<le> ep_to_day e"
    and rest: "linked (ep_id e) (sq + 1) (Some (ep_to_day e + 1)) es" by auto
  show ?case
  proof (cases "es = []")
    case True
    with f show ?thesis by simp
  next
    case False
    note IH = Cons.IH [OF rest False]
    have "[f..ep_to_day e] @ [ep_to_day e + 1..ep_to_day (last es)] = [f..ep_to_day (last es)]"
      using f IH by (intro upto_split2 [symmetric]) auto
    with False f IH show ?thesis by auto
  qed
qed

lemma linked_seqs: "linked prev sq frm es \<Longrightarrow> map ep_seq es = map (\<lambda>j. sq + int j) [0..<length es]"
proof (induction es arbitrary: prev sq frm)
  case Nil
  then show ?case by simp
next
  case (Cons e es)
  have "map ep_seq es = map (\<lambda>j. sq + int j) (map Suc [0..<length es])"
    using Cons by (auto simp: o_def ac_simps)
  then show ?case using Cons.prems by (simp add: upt_conv_Cons map_Suc_upt [symmetric] del: upt_Suc)
qed

lemma linked_prevs:
  "linked prev sq frm es \<Longrightarrow> es \<noteq> [] \<Longrightarrow> map ep_prev_id es = prev # map ep_id (butlast es)"
proof (induction es arbitrary: prev sq frm)
  case (Cons e es)
  with Cons.IH [of "ep_id e" "sq + 1" "Some (ep_to_day e + 1)"] show ?case
    by (cases "es = []") auto
qed simp

text \<open>The state between publications: the chain is linked, and the day the totals remember is the
  last day the chain covers.\<close>

definition epochs_ok :: "liab_core \<Rightarrow> ledger \<Rightarrow> epochs \<Rightarrow> bool" where
  "epochs_ok lc l ep \<longleftrightarrow> linked (GenesisPrev lc) 0 None (chain ep) \<and>
     (chain ep \<noteq> [] \<longrightarrow> last_to_day l = Some (ep_to_day (last (chain ep))))"

lemma epochs_ok_ledger: "epochs_ok lc l ep \<Longrightarrow> (last_to_day l \<noteq> None \<longrightarrow> last_to_day l' = last_to_day l)
    \<Longrightarrow> epochs_ok lc l' ep"
  by (auto simp: epochs_ok_def)

lemma publishDueAt_Inr:
  assumes pub: "publishDueAt lc h kels now l ep = Inr (l', ep', r)"
    and sup: "supply_ok h l" and law: "build_law lc" and names: "names_ok kels l"
  shows "r = None \<and> l' = l \<and> ep' = ep \<or>
    (\<exists>e d0. r = Some e \<and> last_to_day l = Some d0 \<and> d0 < utcDay now - 1 \<and> 0 \<le> utcDay now - 1 \<and>
       (epochEvents \<le> events_since l \<or> epochDays \<le> utcDay now - 1 - d0) \<and>
       l' = l\<lparr>events_since := 0, last_to_day := Some (utcDay now - 1)\<rparr> \<and>
       closeEpochTx lc kels (hubAID h) (d0 + 1) (utcDay now - 1) (issued l - redeemed l) now l ep = Inr (ep', e))"
  using pub unfolding publishDueAt_def Let_def
  by (auto simp: rbind_eq_Inr split: option.split_asm if_split_asm prod.split_asm)

lemma publishDueAt_epochs_ok:
  assumes pub: "publishDueAt lc h kels now l ep = Inr (l', ep', r)"
    and sup: "supply_ok h l" and law: "build_law lc" and names: "names_ok kels l" and ok: "epochs_ok lc l ep"
  shows "epochs_ok lc l' ep'"
proof (cases r)
  case None
  with publishDueAt_Inr [OF pub sup law names] ok show ?thesis by simp
next
  case (Some e)
  with publishDueAt_Inr [OF pub sup law names] obtain d0 where
    last: "last_to_day l = Some d0" and lt: "d0 < utcDay now - 1"
    and l': "l' = l\<lparr>events_since := 0, last_to_day := Some (utcDay now - 1)\<rparr>"
    and cl: "closeEpochTx lc kels (hubAID h) (d0 + 1) (utcDay now - 1) (issued l - redeemed l) now l ep = Inr (ep', e)"
    by auto
  note e = closeEpochTx_adds_up(2) [OF sup law names cl]
  show ?thesis using ok e last lt by (auto simp: epochs_ok_def l' linked_snoc)
qed

section \<open>Reading the chain page by page\<close>

text \<open>\<open>GET /x402/issuance?from=\<close> begins at \<open>from\<close>, so a reader continues with the last \<open>seq\<close> plus one.\<close>

definition issuance_after :: "epochs \<Rightarrow> int \<Rightarrow> epoch list" where
  "issuance_after ep c = SupplyEpochs (c + 1) 0 ep"

lemma SupplyEpochs_default:
  "from \<le> max_int64 \<Longrightarrow> SupplyEpochs from 0 ep = take 500 (filter (\<lambda>e. from \<le> ep_seq e) (chain ep))"
  by (simp add: SupplyEpochs_def issuancePage_def)

lemma linked_sorted: "linked prev sq frm es \<Longrightarrow> sorted_wrt (\<lambda>x y. ep_seq x < ep_seq y) es"
proof -
  assume "linked prev sq frm es"
  then have m: "map ep_seq es = map (\<lambda>j. sq + int j) [0..<length es]" by (rule linked_seqs)
  have "sorted_wrt (<) (map (\<lambda>j. sq + int j) [0..<length es])"
    by (simp add: sorted_wrt_map sorted_wrt_iff_nth_less)
  with m have "sorted_wrt (<) (map ep_seq es)" by simp
  then show ?thesis by (simp add: sorted_wrt_map)
qed

text \<open>A chain as \<open>publishDueAt\<close> builds it, with sequence numbers \<open>SQLite\<close> can hold.\<close>

definition chain_ok :: "liab_core \<Rightarrow> epochs \<Rightarrow> bool" where
  "chain_ok lc ep \<longleftrightarrow> linked (GenesisPrev lc) 0 None (chain ep) \<and> (\<forall>e \<in> set (chain ep). ep_seq e \<le> max_int64)"

lemma issuance_after_eq:
  assumes "chain_ok lc ep"
  shows "issuance_after ep c = take 500 (filter (\<lambda>e. c < ep_seq e) (chain ep))"
proof (cases "c + 1 \<le> max_int64")
  case True
  then show ?thesis by (simp add: issuance_after_def SupplyEpochs_default add1_zle_eq)
next
  case False
  with assms have "filter (\<lambda>e. c < ep_seq e) (chain ep) = []"
    by (auto simp: chain_ok_def filter_empty_conv)
  with False show ?thesis by (simp add: issuance_after_def SupplyEpochs_def)
qed

text \<open>A chain that is not one is read as empty, so that the interface holds of every state.\<close>

definition chain_rows :: "liab_core \<Rightarrow> epochs \<Rightarrow> epoch list" where
  "chain_rows lc ep = (if chain_ok lc ep then chain ep else [])"

interpretation issuance: cursor_pages
  "\<lambda>c. if chain_ok lc ep then issuance_after ep c else []" ep_seq "chain_rows lc ep" for lc ep
proof
  show "sorted_wrt (\<lambda>x y. ep_seq x < ep_seq y) (chain_rows lc ep)"
    using linked_sorted by (auto simp: chain_rows_def chain_ok_def)
  show "\<exists>k. (if chain_ok lc ep then issuance_after ep c else []) =
      take k (filter (\<lambda>r. c < ep_seq r) (chain_rows lc ep))" for c
    by (auto simp: chain_rows_def issuance_after_eq)
  show "(if chain_ok lc ep then issuance_after ep c else []) = [] \<Longrightarrow>
      filter (\<lambda>r. c < ep_seq r) (chain_rows lc ep) = []" for c
    by (auto simp: chain_rows_def issuance_after_eq split: if_splits)
qed

lemma issuance_walk:
  assumes "chain_ok lc ep"
  shows "walk_pages (issuance_after ep) ep_seq (-1) (length (chain ep)) = chain ep"
proof -
  have "filter (\<lambda>e. -1 < ep_seq e) (chain ep) = chain ep"
  proof -
    have "map ep_seq (chain ep) = map (\<lambda>j. 0 + int j) [0..<length (chain ep)]"
      using assms unfolding chain_ok_def by (intro linked_seqs) auto
    then have "ep_seq ` set (chain ep) = int ` {0..<length (chain ep)}"
      by (metis (no_types, lifting) add_0 image_cong list.set_map set_upt)
    then have "\<forall>e \<in> set (chain ep). 0 \<le> ep_seq e" by (metis imageE imageI of_nat_0_le_iff)
    then show ?thesis by (auto simp: filter_id_conv)
  qed
  with issuance.walk_complete [where lc = lc and ep = ep and c = "-1" and f = "length (chain ep)"] assms
  show ?thesis by (simp add: chain_rows_def)
qed

section \<open>The cache of trees\<close>

text \<open>Every cached tree is the one its epoch's stored leaves rebuild.\<close>

definition tree_fits :: "liab_core \<Rightarrow> epochs \<Rightarrow> int \<Rightarrow> liab_tree \<Rightarrow> bool" where
  "tree_fits lc ep d t \<longleftrightarrow>
     (\<exists>m e. map_of (metas ep) d = Some m \<and> e \<in> set (chain ep) \<and> ep_to_day e = d \<and>
        \<not> list_ex (\<lambda>en. length (en_salt en) \<noteq> SaltSize lc) (row_or (leaves ep) d []) \<and>
        length (row_or (leaves ep) d []) = em_leaves m \<and>
        RebuildTree lc d (row_or (leaves ep) d []) = Some t \<and>
        HexRoot lc (t_root t) = ep_root e \<and> t_outstanding t = ep_outstanding e \<and> t_depth t = ep_depth e)"

definition cache_ok :: "liab_core \<Rightarrow> epochs \<Rightarrow> bool" where
  "cache_ok lc ep \<longleftrightarrow> distinct (map ep_to_day (chain ep)) \<and>
     (\<forall>d t. map_of (trees ep) d = Some t \<longrightarrow> tree_fits lc ep d t)"

lemma tree_fits_trees [simp]: "tree_fits lc (ep\<lparr>trees := c\<rparr>) = tree_fits lc ep"
  by (simp add: tree_fits_def fun_eq_iff)

lemma distinct_to_day: "distinct (map f xs) \<Longrightarrow> x \<in> set xs \<Longrightarrow> y \<in> set xs \<Longrightarrow> f x = f y \<Longrightarrow> x = y"
  by (auto simp: distinct_map inj_on_def)

lemma liabTree_without_cache:
  assumes ok: "cache_ok lc ep" and e: "e \<in> set (chain ep)"
  shows "snd (liabTree lc e ep) = snd (liabTree lc e (ep\<lparr>trees := []\<rparr>))"
proof (cases "map_of (trees ep) (ep_to_day e)")
  case None
  then show ?thesis by (simp add: liabTree_def Let_def split: option.splits)
next
  case (Some t)
  then obtain m e' where m: "map_of (metas ep) (ep_to_day e) = Some m" and e': "e' \<in> set (chain ep)"
    "ep_to_day e' = ep_to_day e"
    and t: "\<not> list_ex (\<lambda>en. length (en_salt en) \<noteq> SaltSize lc) (row_or (leaves ep) (ep_to_day e) [])"
      "length (row_or (leaves ep) (ep_to_day e) []) = em_leaves m"
      "RebuildTree lc (ep_to_day e) (row_or (leaves ep) (ep_to_day e) []) = Some t"
      "HexRoot lc (t_root t) = ep_root e'" "t_outstanding t = ep_outstanding e'" "t_depth t = ep_depth e'"
    using ok unfolding cache_ok_def tree_fits_def by blast
  have "e' = e" using ok e e' distinct_to_day unfolding cache_ok_def by metis
  with Some m t show ?thesis by (simp add: liabTree_def Let_def)
qed

lemma cache_put_lookup:
  "map_of (cache_put d t c) d' = Some t' \<Longrightarrow> d' = d \<and> t' = t \<or> map_of c d' = Some t'"
  by (auto simp: cache_put_def Let_def map_of_update_eq split: if_splits)

lemma liabTree_state:
  assumes "e \<in> set (chain ep)"
  shows "fst (liabTree lc e ep) = ep \<or>
    (\<exists>t. tree_fits lc ep (ep_to_day e) t \<and>
         fst (liabTree lc e ep) = ep\<lparr>trees := cache_put (ep_to_day e) t (trees ep)\<rparr>)"
  using assms unfolding liabTree_def Let_def tree_fits_def
  by (auto split: option.split if_split)

lemma liabTree_cache_ok:
  assumes ok: "cache_ok lc ep" and e: "e \<in> set (chain ep)"
  shows "cache_ok lc (fst (liabTree lc e ep))"
  using liabTree_state [OF e, of lc]
proof (elim disjE exE conjE)
  assume "fst (liabTree lc e ep) = ep"
  with ok show ?thesis by simp
next
  fix t
  assume t: "tree_fits lc ep (ep_to_day e) t"
    and eq: "fst (liabTree lc e ep) = ep\<lparr>trees := cache_put (ep_to_day e) t (trees ep)\<rparr>"
  from ok t show ?thesis
    unfolding eq cache_ok_def by (auto dest: cache_put_lookup)
qed

lemma SupplyEpochs_trees [simp]: "SupplyEpochs f n (ep\<lparr>trees := c\<rparr>) = SupplyEpochs f n ep"
  by (simp add: SupplyEpochs_def)

lemma latestEpoch_trees [simp]: "latestEpoch lc (ep\<lparr>trees := c\<rparr>) = latestEpoch lc ep"
  by (simp add: latestEpoch_def supplyHead_def split: list.split)

lemma SupplyEpochs_subset: "set (SupplyEpochs f n ep) \<subseteq> set (chain ep)"
  by (auto simp: SupplyEpochs_def Let_def dest!: in_set_takeD)

lemma latestEpoch_in: "latestEpoch lc ep = Some e \<Longrightarrow> e \<in> set (chain ep)"
  using SupplyEpochs_subset [of "ep_seq (last (chain ep))" 1 ep]
  by (auto simp: latestEpoch_def supplyHead_def split: list.splits)

text \<open>The epoch a proof is asked of.\<close>

definition proof_epoch :: "liab_core \<Rightarrow> int option \<Rightarrow> epochs \<Rightarrow> epoch option" where
  "proof_epoch lc d ep =
    (case d of
      None \<Rightarrow> latestEpoch lc ep
    | Some d \<Rightarrow> if d > max_int64 then None
               else (case filter (\<lambda>e. ep_to_day e = d) (chain ep) of [] \<Rightarrow> None | e # _ \<Rightarrow> Some e))"

lemma proof_epoch_in: "proof_epoch lc d ep = Some e \<Longrightarrow> e \<in> set (chain ep)"
  unfolding proof_epoch_def
  by (auto split: option.splits if_splits list.splits dest: latestEpoch_in simp: filter_eq_Cons_iff)

lemma proof_epoch_trees [simp]: "proof_epoch lc d (ep\<lparr>trees := t\<rparr>) = proof_epoch lc d ep"
  by (cases d) (simp_all add: proof_epoch_def)

lemma liabilityProofAt_without_cache:
  assumes "cache_ok lc ep"
  shows "snd (liabilityProofAt lc a d now ep) = snd (liabilityProofAt lc a d now (ep\<lparr>trees := []\<rparr>))"
proof (cases "proof_epoch lc d ep")
  case None
  then show ?thesis unfolding liabilityProofAt_def proof_epoch_def [symmetric] by simp
next
  case (Some e)
  note wc = liabTree_without_cache [OF assms proof_epoch_in [OF Some]]
  show ?thesis
  proof (cases "RecordTimestamp lc (ep_raw e)")
    case None
    with Some show ?thesis unfolding liabilityProofAt_def proof_epoch_def [symmetric] by simp
  next
    case (Some ts)
    obtain x r where a: "liabTree lc e ep = (x, r)" by force
    obtain x' r' where b: "liabTree lc e (ep\<lparr>trees := []\<rparr>) = (x', r')" by force
    from wc a b have "r' = r" by simp
    with Some \<open>proof_epoch lc d ep = Some e\<close> a b show ?thesis
      unfolding liabilityProofAt_def proof_epoch_def [symmetric]
      by (auto split: sum.split option.split prod.split)
  qed
qed

lemma liabilityProofAt_state:
  assumes "liabilityProofAt lc a d now ep = (ep', r)"
  shows "ep' = ep \<or> (\<exists>e \<in> set (chain ep). ep' = fst (liabTree lc e ep))"
proof (cases "proof_epoch lc d ep")
  case None
  with assms show ?thesis unfolding liabilityProofAt_def proof_epoch_def [symmetric] by simp
next
  case (Some e)
  then have "ep' = ep \<or> ep' = fst (liabTree lc e ep)"
    using assms unfolding liabilityProofAt_def proof_epoch_def [symmetric]
    by (auto split: option.split_asm if_split_asm prod.split_asm sum.split_asm)
  then show ?thesis using proof_epoch_in [OF Some] by blast
qed

section \<open>What leaves the chain as it is\<close>

lemma drop_epoch_chain [simp]: "chain (drop_epoch d ep) = chain ep"
  by (simp add: drop_epoch_def)

lemma foldl_drop_chain [simp]: "chain (foldl (\<lambda>ep d. drop_epoch d ep) ep ds) = chain ep"
  by (induction ds arbitrary: ep) simp_all

lemma liabTree_chain [simp]: "chain (fst (liabTree lc e ep)) = chain ep"
  by (auto simp: liabTree_def Let_def split: option.split)

lemma liabilityProofAt_keeps:
  assumes "liabilityProofAt lc a d now ep = (ep', r)"
  shows "chain ep' = chain ep" and "cache_ok lc ep \<Longrightarrow> cache_ok lc ep'"
  using liabilityProofAt_state [OF assms] liabTree_cache_ok by auto

lemma drop_epoch_cache_ok: "cache_ok lc ep \<Longrightarrow> cache_ok lc (drop_epoch d ep)"
  by (auto simp: cache_ok_def tree_fits_def drop_epoch_def delete_conv' row_or_def split: if_splits)

lemma foldl_drop_cache_ok: "cache_ok lc ep \<Longrightarrow> cache_ok lc (foldl (\<lambda>ep d. drop_epoch d ep) ep ds)"
  by (induction ds arbitrary: ep) (auto intro: drop_epoch_cache_ok)

lemma pruneLiabilityProofsAt_keeps:
  assumes "pruneLiabilityProofsAt lc now ep = Inr ep'"
  shows "chain ep' = chain ep" and "cache_ok lc ep \<Longrightarrow> cache_ok lc ep'"
  using assms foldl_drop_cache_ok by (auto simp: pruneLiabilityProofsAt_def Let_def split: if_split_asm)

lemma pruneLedgerAt_keeps:
  assumes "pruneLedgerAt lc now l ep = (l', ep', r)"
  shows "l' = pruneTables now l" and "chain ep' = chain ep" and "cache_ok lc ep \<Longrightarrow> cache_ok lc ep'"
  using assms pruneLiabilityProofsAt_keeps by (auto simp: pruneLedgerAt_def split: sum.split_asm)

lemma closeEpochTx_cache_ok:
  assumes cl: "closeEpochTx lc kels hub f d outst now l ep = Inr (ep', e)" and ok: "cache_ok lc ep"
  shows "cache_ok lc ep'"
proof -
  from cl have fresh: "\<forall>x \<in> set (chain ep). ep_to_day x \<noteq> d" "\<not> has_key (metas ep) d"
    and ch: "chain ep' = chain ep @ [e]" "ep_to_day e = d" and tr: "trees ep' = trees ep"
    and up: "\<exists>es. leaves ep' = AList.update d es (leaves ep)" "\<exists>m. metas ep' = AList.update d m (metas ep)"
    unfolding closeEpochTx_def Let_def
    by (auto simp: list_ex_iff split: option.split_asm if_split_asm prod.split_asm)
  have "tree_fits lc ep' d' t" if t: "map_of (trees ep) d' = Some t" for d' t
  proof -
    from ok t have ft: "tree_fits lc ep d' t" by (simp add: cache_ok_def)
    with fresh(2) have "d' \<noteq> d" by (auto simp: tree_fits_def has_key_def)
    with up have "map_of (metas ep') d' = map_of (metas ep) d'"
      "row_or (leaves ep') d' [] = row_or (leaves ep) d' []"
      by (auto simp: table_simps)
    with ft ch show ?thesis unfolding tree_fits_def by auto
  qed
  with ok fresh(1) ch tr show ?thesis by (auto simp: cache_ok_def)
qed

lemma publishDueAt_cache_ok:
  assumes "publishDueAt lc h kels now l ep = Inr (l', ep', r)" and "cache_ok lc ep"
  shows "cache_ok lc ep'"
  using assms closeEpochTx_cache_ok unfolding publishDueAt_def Let_def
  by (auto simp: rbind_eq_Inr split: option.split_asm if_split_asm prod.split_asm)

end
