(* ===== verification/Ledger_Machine.thy ===== *)
theory Ledger_Machine
  imports Supply_Epochs
begin

text \<open>
  The ledger and everything that changes it, as a step relation: each step is one operation of the
  hub at one reading of the clock, and the state after it. A run is any sequence of operations at
  any times, with any payments and any answers of the peers.

  By rule induction the supply invariant holds in every reachable state, the epochs of the chain
  are linked, and no reachable state is one the source calls \<open>ErrSupplyMismatch\<close>. The locale
  \<open>at_most_once\<close> is interpreted for the three replay guards: a settled authorization, a cleared
  receipt of a peer and a discharge statement.
\<close>

section \<open>State and steps\<close>

record hub_state =
  hs_kels :: "(aid, bytes) table"
  hs_ledger :: ledger
  hs_epochs :: epochs

definition start_state :: hub_state where
  "start_state = \<lparr>hs_kels = [], hs_ledger = empty_ledger,
     hs_epochs = \<lparr>chain = [], leaves = [], metas = [], trees = []\<rparr>\<rparr>"

inductive hub_step :: "core \<Rightarrow> liab_core \<Rightarrow> hub_conf \<Rightarrow> time_ns \<Rightarrow> hub_state \<Rightarrow> hub_state \<Rightarrow> bool"
  for c :: core and lc :: liab_core and h :: hub_conf where
  step_register: "a \<noteq> hubAID h \<Longrightarrow> a \<noteq> [] \<Longrightarrow>
     hub_step c lc h now s (s\<lparr>hs_kels := AList.update a kel (hs_kels s)\<rparr>)"
| step_leave: "hub_step c lc h now s (s\<lparr>hs_kels := AList.delete a (hs_kels s)\<rparr>)"
| step_grant: "a \<noteq> hubAID h \<Longrightarrow> a \<noteq> [] \<Longrightarrow> amt \<le> max_int64 \<Longrightarrow>
     GrantCredit h now a amt reason (hs_ledger s) = Inr l' \<Longrightarrow>
     hub_step c lc h now s (s\<lparr>hs_ledger := l'\<rparr>)"
| step_issue: "a \<noteq> hubAID h \<Longrightarrow> a \<noteq> [] \<Longrightarrow> amt \<le> max_int64 \<Longrightarrow>
     issueTx h now a amt reason (hs_ledger s) = Inr l' \<Longrightarrow>
     hub_step c lc h now s (s\<lparr>hs_ledger := l'\<rparr>)"
| step_settle:
    "SettleWithRequirements c h (map_option (\<lambda>w. peerSettler c h w now) w) (hs_kels s) (hubAID h) now p req
       (hs_ledger s) = (l', out) \<Longrightarrow>
     hub_step c lc h now s (s\<lparr>hs_ledger := l'\<rparr>)"
| step_settle_peer:
    "peer \<noteq> [] \<Longrightarrow> SettleForPeer c h (hs_kels s) (hubAID h) now peer p req (hs_ledger s) = (l', out) \<Longrightarrow>
     hub_step c lc h now s (s\<lparr>hs_ledger := l'\<rparr>)"
| step_verify:
    "VerifyWithRequirements c (hs_kels s) (hubAID h) now p req (hs_ledger s) = (l', v) \<Longrightarrow>
     hub_step c lc h now s (s\<lparr>hs_ledger := l'\<rparr>)"
| step_redeem:
    "Redeem c h (hs_kels s) (hubAID h) now p reference (hs_ledger s) = (l', r) \<Longrightarrow>
     hub_step c lc h now s (s\<lparr>hs_ledger := l'\<rparr>)"
| step_discharged:
    "SettleOwed c now (hubAID h) peer k rec (hs_ledger s) = Inr l' \<Longrightarrow>
     hub_step c lc h now s (s\<lparr>hs_ledger := l'\<rparr>)"
| step_discharge:
    "DischargeDue peer amt (hs_ledger s) = Inr l' \<Longrightarrow>
     hub_step c lc h now s (s\<lparr>hs_ledger := l'\<rparr>)"
| step_prune:
    "pruneLedgerAt lc now (hs_ledger s) (hs_epochs s) = (l', ep', r) \<Longrightarrow>
     hub_step c lc h now s (s\<lparr>hs_ledger := l', hs_epochs := ep'\<rparr>)"
| step_drop_proofs:
    "pruneLiabilityProofsAt lc now (hs_epochs s) = Inr ep' \<Longrightarrow>
     hub_step c lc h now s (s\<lparr>hs_epochs := ep'\<rparr>)"
| step_proof:
    "liabilityProofAt lc a d now (hs_epochs s) = (ep', r) \<Longrightarrow>
     hub_step c lc h now s (s\<lparr>hs_epochs := ep'\<rparr>)"
| step_publish:
    "publishDueAt lc h (hs_kels s) now (hs_ledger s) (hs_epochs s) = Inr (l', ep', r) \<Longrightarrow>
     hub_step c lc h now s (s\<lparr>hs_ledger := l', hs_epochs := ep'\<rparr>)"

inductive reachable :: "core \<Rightarrow> liab_core \<Rightarrow> hub_conf \<Rightarrow> hub_state \<Rightarrow> bool"
  for c :: core and lc :: liab_core and h :: hub_conf where
  reach_start: "reachable c lc h start_state"
| reach_step: "reachable c lc h s \<Longrightarrow> hub_step c lc h now s s' \<Longrightarrow> reachable c lc h s'"

inductive_cases hub_stepE: "hub_step c lc h now s s'"

section \<open>Each operation keeps the supply invariant\<close>

lemma clearMove_Inr:
  assumes run: "clearMove h now peer r amt l = Inr l'" and amt: "0 < amt" "amt \<le> max_int64"
    and q: "RPayTo r \<noteq> hubAID h"
  shows "hasHubKey h" and "issued l + amt \<le> max_int64"
    and "balances l' = AList.update (hubAID h) (row_or (balances l) (hubAID h) 0 - amt)
                         (AList.update (RPayTo r) (row_or (balances l) (RPayTo r) 0 + amt) (balances l))"
    and "issued l' = issued l + amt" and "redeemed l' = redeemed l" and "due l' = due l"
    and "owed l' = AList.update peer (row_or (owed l) peer 0 + amt) (owed l)"
    and "settled l' = settled l" and "guards l' = guards l" and "hub_cleared l' = hub_cleared l"
    and "first_verifies l' = first_verifies l" and "redemptions l' = redemptions l"
    and "cleared l' = AList.update (RAuthID r) \<lparr>c_peer = peer, c_pay_to = RPayTo r, c_amount = amt,
           c_at = ledgerStamp now, c_settle_at = RSettleAt r\<rparr> (cleared l)"
    and "last_to_day l' = (case last_to_day l of None \<Rightarrow> Some (utcDay now - 1) | Some d \<Rightarrow> Some d)"
proof -
  from run obtain b b2 ow where key: "hasHubKey h"
    and b: "addToRow (balances l) (RPayTo r) amt = Inr b"
    and b2: "addToRow b (hubAID h) (- amt) = Inr b2"
    and ow: "addToRow (owed l) peer amt = Inr ow"
    and sv: "supplyEventTx now supplyIssued amt
        ((add_entry (hubAID h) (- amt) (RAuthID r) (ledgerStamp now)
          ((add_entry (RPayTo r) amt (RAuthID r) (ledgerStamp now)
            (l\<lparr>cleared := AList.update (RAuthID r) \<lparr>c_peer = peer, c_pay_to = RPayTo r, c_amount = amt,
               c_at = ledgerStamp now, c_settle_at = RSettleAt r\<rparr> (cleared l), balances := b\<rparr>))
           \<lparr>balances := b2\<rparr>))\<lparr>owed := ow\<rparr>) = Inr l'"
    by (auto simp: clearMove_def Let_def rbind_eq_Inr split: if_split_asm)
  note B = addToRow_credit [OF b less_imp_le [OF amt(1)] amt(2)]
  note B2 = addToRow_debit [OF b2 amt]
  note OW = addToRow_credit [OF ow less_imp_le [OF amt(1)] amt(2)]
  show "hasHubKey h" by (rule key)
  show "issued l + amt \<le> max_int64" "issued l' = issued l + amt" "redeemed l' = redeemed l" "due l' = due l"
    "owed l' = AList.update peer (row_or (owed l) peer 0 + amt) (owed l)"
    "settled l' = settled l" "guards l' = guards l" "hub_cleared l' = hub_cleared l"
    "first_verifies l' = first_verifies l" "redemptions l' = redemptions l"
    "cleared l' = AList.update (RAuthID r) \<lparr>c_peer = peer, c_pay_to = RPayTo r, c_amount = amt,
           c_at = ledgerStamp now, c_settle_at = RSettleAt r\<rparr> (cleared l)"
    "last_to_day l' = (case last_to_day l of None \<Rightarrow> Some (utcDay now - 1) | Some d \<Rightarrow> Some d)"
    using sv by (simp_all add: supplyEventTx_issued OW add_entry_def)
  show "balances l' = AList.update (hubAID h) (row_or (balances l) (hubAID h) 0 - amt)
                         (AList.update (RPayTo r) (row_or (balances l) (RPayTo r) 0 + amt) (balances l))"
    using sv q by (simp add: supplyEventTx_issued B B2 add_entry_def table_simps)
qed

text \<open>The two outcomes of a receipt: it was cleared before, or it is cleared now, inside its window.\<close>

lemma ClearFromPeer_Inr:
  assumes "ClearFromPeer c h now peer k (Some r) l = Inr l'" and "hubAID h \<noteq> []"
  shows "l' = l \<and> clearedTx (RAuthID r) l \<or>
    (\<exists>amt. amountInt64 (RAmount r) = Some amt \<and> RPayTo r \<noteq> hubAID h \<and> \<not> clearedTx (RAuthID r) l \<and>
       RNetwork r = CreditNetwork c peer \<and> ReceiptVerify c r k peer (RSettleAt r) \<and>
       unix_milli now - 604800000 \<le> RSettleAt r \<and> RSettleAt r \<le> unix_milli now + MaxSkewMillis c \<and>
       clearMove h now peer r amt l = Inr l')"
proof -
  have "go_div peerReceiptMaxAge ms_ns = 604800000"
    by (simp add: peerReceiptMaxAge_def time_defs go_div_nonneg)
  with assms show ?thesis
    by (auto simp: ClearFromPeer_def split: option.split_asm if_split_asm)
qed

lemma clearMove_supply_ok:
  assumes run: "clearMove h now peer r amt l = Inr l'" and amt: "0 < amt" "amt \<le> max_int64"
    and q: "RPayTo r \<noteq> hubAID h" and sup: "supply_ok h l"
  shows "supply_ok h l'"
proof -
  note c = clearMove_Inr [OF run amt q]
  note S = supply_okD [OF sup]
  have "books_ok (hubAID h) (balances l') (issued l') (redeemed l')"
    unfolding c using books_issue(2) [OF S(2) q _ c(2)] amt by simp
  moreover have "claims_ok (owed l') (issued l')"
    unfolding c using claims_add [OF S(3), of amt peer] amt by simp
  ultimately show ?thesis using S c by (simp add: supply_ok_def)
qed

section \<open>Every operation as a sequence of moves\<close>

text \<open>
  A move is what one transaction does to the ledger. Every step of the hub is a sequence of moves
  at one reading of the clock (the first verification, the settlement and the note of a redemption
  are three transactions), so a property of the ledger is proved for the moves.
\<close>

inductive ledger_move ::
  "core \<Rightarrow> hub_conf \<Rightarrow> (aid, bytes) table \<Rightarrow> time_ns \<Rightarrow> ledger \<Rightarrow> ledger \<Rightarrow> bool"
  for c :: core and h :: hub_conf and kels :: "(aid, bytes) table" and now :: time_ns where
  move_first_verify: "only_first_verifies l l' \<Longrightarrow> ledger_move c h kels now l l'"
| move_issue: "creditTx h now a amt reason l = Inr l' \<Longrightarrow> a \<noteq> hubAID h \<Longrightarrow> a \<noteq> [] \<Longrightarrow>
     0 < amt \<Longrightarrow> amt \<le> max_int64 \<Longrightarrow> ledger_move c h kels now l l'"
| move_settle: "fresh_settlement c h kels (hubAID h) now auth i via l amt guard rec \<Longrightarrow>
     registered kels (Payer auth) \<Longrightarrow> Payer auth \<noteq> hubAID h \<Longrightarrow>
     AuthID c auth0 = Some i \<Longrightarrow> NotAfter auth = NotAfter auth0 \<Longrightarrow>
     AuthVerify c auth0 k (unix_milli now) = None \<Longrightarrow>
     l' = settled_books (hubAID h) now auth i via amt
            (with_settlement now i (row_of auth now amt rec guard via) l) \<Longrightarrow>
     ledger_move c h kels now l l'"
| move_clear: "clearMove h now peer r amt l = Inr l' \<Longrightarrow> 0 < amt \<Longrightarrow> amt \<le> max_int64 \<Longrightarrow>
     RPayTo r \<noteq> hubAID h \<Longrightarrow> registered kels (RPayTo r) \<Longrightarrow> \<not> clearedTx (RAuthID r) l \<Longrightarrow>
     unix_milli now - 604800000 \<le> RSettleAt r \<Longrightarrow> ledger_move c h kels now l l'"
| move_note: "add_redemption i a amt reference at l = Some l' \<Longrightarrow> ledger_move c h kels now l l'"
| move_discharged: "SettleOwed c now (hubAID h) peer k rec l = Inr l' \<Longrightarrow> ledger_move c h kels now l l'"
| move_discharge: "DischargeDue peer amt l = Inr l' \<Longrightarrow> ledger_move c h kels now l l'"
| move_prune: "ledger_move c h kels now l (pruneTables now l)"

abbreviation ledger_moves ::
  "core \<Rightarrow> hub_conf \<Rightarrow> (aid, bytes) table \<Rightarrow> time_ns \<Rightarrow> ledger \<Rightarrow> ledger \<Rightarrow> bool" where
  "ledger_moves c h kels now \<equiv> (ledger_move c h kels now)\<^sup>*\<^sup>*"

lemma SettleOwed_supply_ok:
  assumes "SettleOwed c now hub peer k rec l = Inr l'" and "supply_ok h l"
  shows "supply_ok h l'"
proof -
  from assms(1) have "l' = l \<or> (\<exists>amt row v. l' = l\<lparr>hub_cleared := row, owed :=
      (case map_of (owed l) peer of None \<Rightarrow> owed l | Some v \<Rightarrow> AList.update peer (v - amt) (owed l))\<rparr> \<and>
      0 < amt \<and> amt \<le> row_or (owed l) peer 0)"
    by (auto simp: SettleOwed_def Let_def split: option.split_asm if_split_asm dest: amountInt64_bounds)
  then show ?thesis
    using assms(2) claims_sub [of "owed l" "issued l" _ peer]
    by (auto simp: supply_ok_def row_or_def split: option.splits)
qed

lemma DischargeDue_supply_ok:
  assumes "DischargeDue peer amt l = Inr l'" and "supply_ok h l"
  shows "supply_ok h l'"
  using assms claims_sub [of "due l" "redeemed l" amt peer]
  by (auto simp: DischargeDue_def supply_ok_def row_or_def split: option.splits if_splits)

lemma add_redemption_only:
  "add_redemption i a amt reference at l = Some l' \<Longrightarrow>
     \<exists>rs n. l' = l\<lparr>redemptions := rs, redemption_seq := n\<rparr>"
  by (auto simp: add_redemption_def split: if_splits)

lemma ledger_move_supply_ok:
  assumes "ledger_move c h kels now l l'" and "supply_ok h l"
  shows "supply_ok h l'"
  using assms
proof (induction rule: ledger_move.induct)
  case (move_first_verify l l')
  then show ?case using supply_ok_only [of l l' h] by simp
next
  case (move_issue a amt reason l l')
  then show ?case using creditTx_supply_ok by blast
next
  case (move_settle auth i via l amt guard rec auth0 k l')
  then have "0 < amt" "amt \<le> Balance l (Payer auth)"
    by (auto simp: fresh_settlement_def dest: amountInt64_bounds)
  with move_settle show ?case by (simp add: settled_books_supply_ok)
next
  case (move_clear peer r amt l l')
  then show ?case using clearMove_supply_ok by blast
next
  case (move_note i a amt reference at l l')
  then show ?case by (auto dest!: add_redemption_only simp: supply_ok_def)
next
  case (move_discharged peer k rec l l')
  then show ?case using SettleOwed_supply_ok by blast
next
  case (move_discharge peer amt l l')
  then show ?case using DischargeDue_supply_ok by blast
next
  case (move_prune l)
  then show ?case by simp
qed

lemma ledger_moves_supply_ok: "ledger_moves c h kels now l l' \<Longrightarrow> supply_ok h l \<Longrightarrow> supply_ok h l'"
  by (induction rule: rtranclp_induct) (auto intro: ledger_move_supply_ok)

lemma settleHere_moves:
  assumes run: "settleHere c h kels (hubAID h) now p req via l = (l', out)"
    and sup: "supply_ok h l" and nr: "\<not> registered kels (hubAID h)"
  shows "ledger_moves c h kels now l l'"
  using settleHere_effect [OF run sup refl nr]
proof (elim disjE conjE exE)
  assume "only_first_verifies l l'"
  then show ?thesis by (blast intro: move_first_verify)
next
  fix auth i k l1 amt guard rec
  assume va: "verifiedAuth c kels (hubAID h) p = Inr (auth, i, k)"
    and k1: "keyAtFirstVerify c kels auth i k (unix_milli now) l = (l1, None)"
    and f: "fresh_settlement c h kels (hubAID h) now auth i via l1 amt guard rec"
    and l': "l' = settled_books (hubAID h) now auth i via amt
               (with_settlement now i (row_of auth now amt rec guard via) l1)"
  note v = verifiedAuth_Inr [OF va]
  have p: "Payer auth \<noteq> hubAID h" using v(1) nr by auto
  obtain k' where "AuthVerify c auth k' (unix_milli now) = None" using keyAtFirstVerify_now [OF k1] by blast
  then have "ledger_move c h kels now l1 l'"
    by (rule move_settle [OF f v(1) p v(2) refl _ l'])
  moreover have "ledger_move c h kels now l l1" using keyAtFirstVerify_only [OF k1] by (rule move_first_verify)
  ultimately show ?thesis by (meson r_into_rtranclp rtranclp_trans)
qed

lemma ClearPeerSettlement_moves:
  assumes run: "ClearPeerSettlement c h w now peer out auth req l = (l', r)"
    and sup: "supply_ok h l" and here: "registered kels (ReqPayTo req)"
  shows "ledger_moves c h kels now l l'"
proof (cases "l' = l")
  case True
  then show ?thesis by simp
next
  case False
  with run obtain rec k where pay: "RPayTo rec = ReqPayTo req"
    and cl: "ClearFromPeer c h now peer k (Some rec) l = Inr l'"
    unfolding ClearPeerSettlement_def Let_def
    by (auto split: option.split_asm if_split_asm sum.split_asm)
  from ClearFromPeer_Inr [OF cl supply_okD(1) [OF sup]] False obtain amt where
    "amountInt64 (RAmount rec) = Some amt" "RPayTo rec \<noteq> hubAID h" "\<not> clearedTx (RAuthID rec) l"
    "unix_milli now - 604800000 \<le> RSettleAt rec" "clearMove h now peer rec amt l = Inr l'" by auto
  with here pay have "ledger_move c h kels now l l'"
    by (intro move_clear) (auto dest: amountInt64_bounds)
  then show ?thesis by blast
qed

lemma peerSettler_moves:
  assumes run: "peerSettler c h w now network pp req auth l = Some (l', r)"
    and sup: "supply_ok h l" and here: "registered kels (ReqPayTo req)"
  shows "ledger_moves c h kels now l l'"
proof (cases "l' = l")
  case True
  then show ?thesis by simp
next
  case False
  with run obtain peer out where "ClearPeerSettlement c h w now peer out auth req l = (l', r)"
    unfolding peerSettler_def by (auto split: option.split_asm if_split_asm peer_reply.split_asm)
  then show ?thesis using ClearPeerSettlement_moves sup here by blast
qed

lemma SettleWithRequirements_moves:
  assumes run: "SettleWithRequirements c h (map_option (\<lambda>w. peerSettler c h w now) w) kels (hubAID h) now p req l
      = (l', out)"
    and sup: "supply_ok h l" and nr: "\<not> registered kels (hubAID h)"
  shows "ledger_moves c h kels now l l'"
proof -
  consider "l' = l" | "settleHere c h kels (hubAID h) now p req [] l = (l', out)"
    | rq pp auth w' where "req = Some rq" "registered kels (ReqPayTo rq)"
        "peerSettler c h w' now (AcceptedNetwork pp) pp rq auth l = Some (l', out)"
    using run unfolding SettleWithRequirements_def Let_def payeeHere_def
    by (auto split: option.split_asm if_split_asm sum.split_asm prod.split_asm)
  then show ?thesis
  proof cases
    case 1
    then show ?thesis by simp
  next
    case 2
    then show ?thesis using settleHere_moves sup nr by blast
  next
    case 3
    then show ?thesis using peerSettler_moves sup by blast
  qed
qed

lemma SettleForPeer_moves:
  assumes run: "SettleForPeer c h kels (hubAID h) now peer p req l = (l', out)"
    and sup: "supply_ok h l" and nr: "\<not> registered kels (hubAID h)"
  shows "ledger_moves c h kels now l l'"
proof -
  consider "l' = l" | "settleHere c h kels (hubAID h) now p req peer l = (l', out)"
    using run unfolding SettleForPeer_def Let_def by (auto split: option.split_asm if_split_asm)
  then show ?thesis using settleHere_moves sup nr by (cases) blast+
qed

lemma VerifyWithRequirements_only:
  assumes "VerifyWithRequirements c kels hub now p req l = (l', v)"
  shows "only_first_verifies l l'"
proof (cases "l' = l")
  case True
  then show ?thesis by simp
next
  case False
  with assms obtain auth i k r where "keyAtFirstVerify c kels auth i k (unix_milli now) l = (l', r)"
    unfolding VerifyWithRequirements_def Let_def
    by (auto split: option.split_asm if_split_asm sum.split_asm prod.split_asm)
  then show ?thesis by (rule keyAtFirstVerify_only)
qed

lemma Redeem_moves:
  assumes run: "Redeem c h kels (hubAID h) now p reference l = (l', r)"
    and sup: "supply_ok h l" and nr: "\<not> registered kels (hubAID h)"
  shows "ledger_moves c h kels now l l'"
proof (cases "l' = l")
  case True
  then show ?thesis by simp
next
  case False
  with run obtain auth i k amt l1 x where va: "verifiedAuth c kels (hubAID h) p = Inr (auth, i, k)"
    and k1: "keyAtFirstVerify c kels auth i k (unix_milli now) l = (l1, x)"
    and rest: "x \<noteq> None \<Longrightarrow> l' = l1"
      "x = None \<Longrightarrow> redeemNote auth amt reference now
         (settleAuth c h kels (hubAID h) now (auth\<lparr>InteractionID := []\<rparr>) i [] l1) = (l', r)"
    unfolding Redeem_def Let_def
    by (auto split: option.split_asm if_split_asm sum.split_asm prod.split_asm)
  note v = verifiedAuth_Inr [OF va]
  have p: "Payer (auth\<lparr>InteractionID := []\<rparr>) \<noteq> hubAID h" using v(1) nr by auto
  have fv: "ledger_move c h kels now l l1" using keyAtFirstVerify_only [OF k1] by (rule move_first_verify)
  show ?thesis
  proof (cases x)
    case (Some e)
    with rest fv show ?thesis by auto
  next
    case None
    obtain l2 out where sa: "settleAuth c h kels (hubAID h) now (auth\<lparr>InteractionID := []\<rparr>) i [] l1 = (l2, out)"
      by force
    have nt: "l' = l2 \<or> (\<exists>j a amt ref at. add_redemption j a amt ref at l2 = Some l')"
      using redeemNote_state rest(2) [OF None] sa by metis
    obtain k' where kv: "AuthVerify c auth k' (unix_milli now) = None"
      using keyAtFirstVerify_now k1 None by blast
    have "supply_ok h l1" using ledger_move_supply_ok [OF fv sup] .
    from settleAuth_effect [OF sa this refl p] have "l2 = l1 \<or> ledger_move c h kels now l1 l2"
      using move_settle [of c h kels now "auth\<lparr>InteractionID := []\<rparr>" i "[]" l1 _ _ _ auth k' l2] v p kv by auto
    moreover have "l' = l2 \<or> ledger_move c h kels now l2 l'" using nt move_note by blast
    ultimately show ?thesis using fv by (meson rtranclp.rtrancl_refl rtranclp.rtrancl_into_rtrancl)
  qed
qed

section \<open>The invariant of the hub\<close>

definition tables_ok :: "ledger \<Rightarrow> bool" where
  "tables_ok l \<longleftrightarrow> keys_ok (settled l) \<and> keys_ok (guards l) \<and> keys_ok (cleared l) \<and> keys_ok (hub_cleared l)"

definition hub_inv :: "liab_core \<Rightarrow> hub_conf \<Rightarrow> hub_state \<Rightarrow> bool" where
  "hub_inv lc h s \<longleftrightarrow> supply_ok h (hs_ledger s) \<and> \<not> registered (hs_kels s) (hubAID h) \<and>
     names_ok (hs_kels s) (hs_ledger s) \<and> epochs_ok lc (hs_ledger s) (hs_epochs s) \<and>
     tables_ok (hs_ledger s) \<and> cache_ok lc (hs_epochs s)"

lemma add_entry_last [simp]: "last_to_day (settled_books hub now auth i via amt l) =
    (if credited_row hub via auth = hub then (case last_to_day l of None \<Rightarrow> Some (utcDay now - 1) | Some d \<Rightarrow> Some d)
     else last_to_day l)"
  by (simp add: settled_books_def Let_def)

lemma with_settlement_last [simp]: "last_to_day (with_settlement now i row l) = last_to_day l"
  by (simp add: with_settlement_def Let_def split: option.split)

lemma creditTx_last:
  assumes "creditTx h now a amt reason l = Inr l'" and "hubAID h \<noteq> []" "a \<noteq> hubAID h" "last_to_day l = Some d"
  shows "last_to_day l' = Some d"
  using assms by (auto simp: creditTx_def Let_def rbind_eq_Inr supplyEventTx_issued split: if_split_asm)

text \<open>What the moves keep beside the balances: the day of the publication clock once it runs, and
  that no account is without a name.\<close>

lemma ledger_move_frame:
  assumes "ledger_move c h kels now l l'" and "supply_ok h l" and "\<not> has_key kels []"
  shows "(last_to_day l = Some d \<longrightarrow> last_to_day l' = Some d) \<and>
    (\<not> has_key (balances l) [] \<longrightarrow> \<not> has_key (balances l') [])"
  using assms
proof (induction rule: ledger_move.induct)
  case (move_first_verify l l')
  then show ?case by (auto elim!: only_first_verifiesE)
next
  case (move_issue a amt reason l l')
  then have "hubAID h \<noteq> []" by (simp add: supply_ok_def)
  note c = creditTx_Inr [OF move_issue(1) this move_issue(2) _ move_issue(5)]
  show ?case
    using creditTx_last [OF move_issue(1) \<open>hubAID h \<noteq> []\<close> move_issue(2)] c(3) move_issue \<open>hubAID h \<noteq> []\<close>
    by (auto simp: table_simps)
next
  case (move_settle auth i via l amt guard rec auth0 k l')
  have "Payer auth \<noteq> []" using move_settle by (auto simp: registered_def)
  moreover have "credited_row (hubAID h) via auth \<noteq> []"
    using move_settle
    by (auto simp: credited_row_def fresh_settlement_def route_refusal_def registered_def Let_def supply_ok_def
        split: if_split_asm)
  ultimately show ?case using move_settle by (auto simp: move_row_def table_simps)
next
  case (move_clear peer r amt l l')
  note c = clearMove_Inr [OF move_clear(1-4)]
  have "RPayTo r \<noteq> []" "hubAID h \<noteq> []" using move_clear by (auto simp: registered_def supply_ok_def)
  then show ?case by (auto simp: c table_simps)
next
  case (move_note i a amt reference at l l')
  then show ?case by (auto dest!: add_redemption_only)
next
  case (move_discharged peer k rec l l')
  then show ?case by (auto simp: SettleOwed_def Let_def split: option.split_asm if_split_asm)
next
  case (move_discharge peer amt l l')
  then show ?case by (auto simp: DischargeDue_def split: option.split_asm if_split_asm)
qed simp

lemma ledger_moves_frame:
  assumes "ledger_moves c h kels now l l'" and "supply_ok h l" and "\<not> has_key kels []"
  shows "(last_to_day l = Some d \<longrightarrow> last_to_day l' = Some d) \<and>
    (\<not> has_key (balances l) [] \<longrightarrow> \<not> has_key (balances l') [])"
  using assms
proof (induction rule: rtranclp_induct)
  case base
  then show ?case by simp
next
  case (step l1 l2)
  have "supply_ok h l1" using ledger_moves_supply_ok [OF step(1) step(4)] .
  from ledger_move_frame [OF step(2) this step(5), of d] step show ?case by blast
qed

lemma creditTx_tables:
  assumes "creditTx h now a amt reason l = Inr l'"
  shows "settled l' = settled l" and "guards l' = guards l" and "cleared l' = cleared l"
    and "hub_cleared l' = hub_cleared l"
  using assms by (auto simp: creditTx_def Let_def rbind_eq_Inr supplyEventTx_issued split: if_split_asm)

lemma guards_with_settlement [simp]:
  "guards (with_settlement now i row l) =
     (case s_guard row of None \<Rightarrow> guards l | Some g \<Rightarrow> AList.update g (unix_milli (now + guardKept)) (guards l))"
  by (simp add: with_settlement_def Let_def split: option.split)

lemma ledger_move_tables:
  assumes "ledger_move c h kels now l l'" and "tables_ok l"
  shows "tables_ok l'"
  using assms
proof (induction rule: ledger_move.induct)
  case (move_first_verify l l')
  then show ?case by (auto simp: tables_ok_def elim!: only_first_verifiesE)
next
  case (move_issue a amt reason l l')
  then show ?case by (simp add: tables_ok_def creditTx_tables [OF move_issue(1)])
next
  case (move_settle auth i via l amt guard rec auth0 k l')
  then show ?case by (simp add: tables_ok_def split: option.split)
next
  case (move_clear peer r amt l l')
  then show ?case by (simp add: tables_ok_def clearMove_Inr [OF move_clear(1-4)])
next
  case (move_note i a amt reference at l l')
  then show ?case by (auto simp: tables_ok_def dest!: add_redemption_only)
next
  case (move_discharged peer k rec l l')
  then show ?case by (auto simp: tables_ok_def SettleOwed_def Let_def split: option.split_asm if_split_asm)
next
  case (move_discharge peer amt l l')
  then show ?case by (auto simp: tables_ok_def DischargeDue_def split: option.split_asm if_split_asm)
next
  case (move_prune l)
  then show ?case by (simp add: tables_ok_def)
qed

lemma ledger_moves_tables: "ledger_moves c h kels now l l' \<Longrightarrow> tables_ok l \<Longrightarrow> tables_ok l'"
  by (induction rule: rtranclp_induct) (auto intro: ledger_move_tables)

lemma issue_moves:
  assumes "issueTx h now a amt reason l = Inr l'" and "a \<noteq> hubAID h" "a \<noteq> []" "amt \<le> max_int64"
  shows "ledger_moves c h kels now l l'"
  using issueTx_creditTx [OF assms(1)] assms(2-4) by (blast intro: move_issue)

text \<open>A step of the hub changes the agents, makes a sequence of moves, or publishes an epoch.\<close>

lemma hub_step_effect:
  assumes st: "hub_step c lc h now s s'" and sup: "supply_ok h (hs_ledger s)"
    and nr: "\<not> registered (hs_kels s) (hubAID h)"
  shows "(\<exists>a kel. a \<noteq> hubAID h \<and> a \<noteq> [] \<and> s' = s\<lparr>hs_kels := AList.update a kel (hs_kels s)\<rparr>) \<or>
    (\<exists>a. s' = s\<lparr>hs_kels := AList.delete a (hs_kels s)\<rparr>) \<or>
    (\<exists>l' ep'. s' = s\<lparr>hs_ledger := l', hs_epochs := ep'\<rparr> \<and> chain ep' = chain (hs_epochs s) \<and>
       (cache_ok lc (hs_epochs s) \<longrightarrow> cache_ok lc ep') \<and>
       ledger_moves c h (hs_kels s) now (hs_ledger s) l') \<or>
    (\<exists>l' ep' r. s' = s\<lparr>hs_ledger := l', hs_epochs := ep'\<rparr> \<and>
       publishDueAt lc h (hs_kels s) now (hs_ledger s) (hs_epochs s) = Inr (l', ep', r))"
proof -
  have mv2: "?thesis" if "s' = s\<lparr>hs_ledger := l', hs_epochs := ep'\<rparr>" "chain ep' = chain (hs_epochs s)"
      "ledger_moves c h (hs_kels s) now (hs_ledger s) l'" "cache_ok lc (hs_epochs s) \<Longrightarrow> cache_ok lc ep'"
      for l' ep'
    using that by blast
  have mv: "?thesis" if "s' = s\<lparr>hs_ledger := l'\<rparr>" "ledger_moves c h (hs_kels s) now (hs_ledger s) l'" for l'
    using that mv2 [where l' = l' and ep' = "hs_epochs s"] by simp
  from st show ?thesis
  proof (cases rule: hub_step.cases)
    case (step_register a kel)
    then show ?thesis by blast
  next
    case (step_leave a)
    then show ?thesis by blast
  next
    case (step_grant a amt reason l')
    then obtain rs where "issueTx h now a amt rs (hs_ledger s) = Inr l'" using GrantCredit_issueTx by blast
    from issue_moves [OF this step_grant(2-4)] show ?thesis by (rule mv [OF step_grant(1)])
  next
    case (step_issue a amt reason l')
    from issue_moves [OF step_issue(5,2-4)] show ?thesis by (rule mv [OF step_issue(1)])
  next
    case (step_settle w p req l' out)
    from SettleWithRequirements_moves [OF step_settle(2) sup nr] show ?thesis by (rule mv [OF step_settle(1)])
  next
    case (step_settle_peer peer p req l' out)
    from SettleForPeer_moves [OF step_settle_peer(3) sup nr] show ?thesis by (rule mv [OF step_settle_peer(1)])
  next
    case (step_verify p req l' v)
    from move_first_verify [OF VerifyWithRequirements_only [OF step_verify(2)]]
    show ?thesis by (rule mv [OF step_verify(1) r_into_rtranclp])
  next
    case (step_redeem p reference l' r)
    from Redeem_moves [OF step_redeem(2) sup nr] show ?thesis by (rule mv [OF step_redeem(1)])
  next
    case (step_discharged peer k rec l')
    from move_discharged [OF step_discharged(2)] show ?thesis
      by (rule mv [OF step_discharged(1) r_into_rtranclp])
  next
    case (step_discharge peer amt l')
    from move_discharge [OF step_discharge(2)] show ?thesis
      by (rule mv [OF step_discharge(1) r_into_rtranclp])
  next
    case (step_prune l' ep' r)
    note ps = pruneLedgerAt_keeps [OF step_prune(2)]
    have "ledger_moves c h (hs_kels s) now (hs_ledger s) l'"
      unfolding ps(1) by (rule r_into_rtranclp) (rule move_prune)
    then show ?thesis by (rule mv2 [OF step_prune(1) ps(2) _ ps(3)])
  next
    case (step_drop_proofs ep')
    note ks = pruneLiabilityProofsAt_keeps [OF step_drop_proofs(2)]
    have "s' = s\<lparr>hs_ledger := hs_ledger s, hs_epochs := ep'\<rparr>" using step_drop_proofs(1) by simp
    then show ?thesis by (rule mv2 [OF _ ks(1) rtranclp.rtrancl_refl ks(2)])
  next
    case (step_proof a d ep' r)
    note ks = liabilityProofAt_keeps [OF step_proof(2)]
    have "s' = s\<lparr>hs_ledger := hs_ledger s, hs_epochs := ep'\<rparr>" using step_proof(1) by simp
    then show ?thesis by (rule mv2 [OF _ ks(1) rtranclp.rtrancl_refl ks(2)])
  next
    case (step_publish l' ep' r)
    then show ?thesis by blast
  qed
qed

lemma hub_inv_start: "hubAID h \<noteq> [] \<Longrightarrow> hub_inv lc h start_state"
  using supply_ok_empty [of h]
  by (simp add: hub_inv_def start_state_def registered_def has_key_def names_ok_def epochs_ok_def
      tables_ok_def empty_ledger_def cache_ok_def)

lemma hub_step_inv:
  assumes st: "hub_step c lc h now s s'" and inv: "hub_inv lc h s" and law: "build_law lc"
  shows "hub_inv lc h s'"
proof -
  have sup: "supply_ok h (hs_ledger s)" and nr: "\<not> registered (hs_kels s) (hubAID h)"
    and names: "names_ok (hs_kels s) (hs_ledger s)" and ep: "epochs_ok lc (hs_ledger s) (hs_epochs s)"
    and tabs: "tables_ok (hs_ledger s)" and co: "cache_ok lc (hs_epochs s)"
    using inv by (auto simp: hub_inv_def)
  consider (reg) a kel where "a \<noteq> hubAID h" "a \<noteq> []" "s' = s\<lparr>hs_kels := AList.update a kel (hs_kels s)\<rparr>"
    | (leave) a where "s' = s\<lparr>hs_kels := AList.delete a (hs_kels s)\<rparr>"
    | (moves) l' ep' where "s' = s\<lparr>hs_ledger := l', hs_epochs := ep'\<rparr>"
       "ledger_moves c h (hs_kels s) now (hs_ledger s) l'" "chain ep' = chain (hs_epochs s)"
       "cache_ok lc (hs_epochs s) \<longrightarrow> cache_ok lc ep'"
    | (publish) l' ep' r where "s' = s\<lparr>hs_ledger := l', hs_epochs := ep'\<rparr>"
       "publishDueAt lc h (hs_kels s) now (hs_ledger s) (hs_epochs s) = Inr (l', ep', r)"
    using hub_step_effect [OF st sup nr] by blast
  then show ?thesis
  proof cases
    case reg
    with sup nr names ep tabs co show ?thesis by (simp add: hub_inv_def registered_def names_ok_def table_simps)
  next
    case leave
    with sup nr names ep tabs co show ?thesis
      by (auto simp: hub_inv_def registered_def names_ok_def table_simps)
  next
    case moves
    have "\<not> has_key (hs_kels s) []" using names by (simp add: names_ok_def)
    note fr = ledger_moves_frame [OF moves(2) sup this]
    have "epochs_ok lc l' (hs_epochs s)"
      using ep fr by (intro epochs_ok_ledger [OF ep]) auto
    then have "epochs_ok lc l' ep'" using moves(3) by (simp add: epochs_ok_def)
    with moves co nr names fr ledger_moves_supply_ok [OF moves(2) sup] ledger_moves_tables [OF moves(2) tabs] show ?thesis
      by (auto simp: hub_inv_def names_ok_def)
  next
    case publish
    have "supply_ok h l' \<and> balances l' = balances (hs_ledger s) \<and> tables_ok l'"
      using publishDueAt_Inr [OF publish(2) sup law names] sup tabs by (auto simp: supply_ok_def tables_ok_def)
    with publish nr names publishDueAt_cache_ok [OF publish(2) co] publishDueAt_epochs_ok [OF publish(2) sup law names ep] show ?thesis
      by (auto simp: hub_inv_def names_ok_def)
  qed
qed

lemma reachable_inv: "reachable c lc h s \<Longrightarrow> hubAID h \<noteq> [] \<Longrightarrow> build_law lc \<Longrightarrow> hub_inv lc h s"
  by (induction rule: reachable.induct) (auto intro: hub_inv_start hub_step_inv)

end
