(* ===== verification/Ledger_Effects.thy ===== *)
theory Ledger_Effects
  imports Ledger_Machine
begin

text \<open>
  What the steps of the hub do to its books: the entries a step writes (\<open>new_entries\<close>, read off the
  \<open>AUTOINCREMENT\<close> sequence, so that the janitor's deletions do not hide any), every account moved by
  exactly these entries, and the two ways a peer's debt changes. Beside that, the debit of a
  settlement: an entry that takes credit from an account under the id of an authorization. A step
  writes it only together with the settled row of that authorization.
\<close>

section \<open>The entries of a step\<close>

definition new_entries :: "ledger \<Rightarrow> ledger \<Rightarrow> credit_entry list" where
  "new_entries l l' = filter (\<lambda>e. entry_seq l < e_seq e) (entries l')"

definition change_of :: "aid \<Rightarrow> credit_entry list \<Rightarrow> int" where
  "change_of a es = (\<Sum>e\<leftarrow>es. if e_aid e = a then e_delta e else 0)"

definition settlement_debit :: "hub_conf \<Rightarrow> string \<Rightarrow> credit_entry \<Rightarrow> bool" where
  "settlement_debit h i e \<longleftrightarrow> e_aid e \<noteq> hubAID h \<and> e_delta e < 0 \<and> e_reason e = i"

text \<open>The entries written in a run of the hub, in the order they were written.\<close>

fun booked :: "hub_state \<Rightarrow> (time_ns \<times> hub_state) list \<Rightarrow> credit_entry list" where
  "booked s [] = []"
| "booked s ((t, s') # r) = new_entries (hs_ledger s) (hs_ledger s') @ booked s' r"

definition entries_ok :: "ledger \<Rightarrow> bool" where
  "entries_ok l \<longleftrightarrow> (\<forall>e \<in> set (entries l). e_seq e \<le> entry_seq l)"

lemma change_of_simps [simp]:
  "change_of a [] = 0" "change_of a (es @ fs) = change_of a es + change_of a fs"
  "change_of a (e # es) = (if e_aid e = a then e_delta e else 0) + change_of a es"
  by (simp_all add: change_of_def)

text \<open>\<open>books now l add l'\<close>: on the way from \<open>l\<close> to \<open>l'\<close> the entries \<open>add\<close> were written, and of the others only
  some outside the ledger window deleted.\<close>

definition books :: "time_ns \<Rightarrow> ledger \<Rightarrow> credit_entry list \<Rightarrow> ledger \<Rightarrow> bool" where
  "books now l add l' \<longleftrightarrow>
     (\<exists>P. entries l' = filter P (entries l) @ add \<and> (\<forall>e. windowStart now \<le> e_at e \<longrightarrow> P e)) \<and>
     (\<forall>e \<in> set add. entry_seq l < e_seq e \<and> e_seq e \<le> entry_seq l' \<and> e_at e = now) \<and>
     entry_seq l \<le> entry_seq l' \<and> (\<forall>a. Balance l' a = Balance l a + change_of a add)"

lemma books_refl:
  "entries l' = entries l \<Longrightarrow> entry_seq l' = entry_seq l \<Longrightarrow> balances l' = balances l \<Longrightarrow> books now l [] l'"
  by (auto simp: books_def Balance_def intro!: exI [of _ "\<lambda>_. True"])

lemma windowStart_le: "windowStart now \<le> now"
  by (simp add: windowStart_def ledgerStamp_def ledgerWindow_def time_defs)

lemma books_trans:
  assumes "books now l add l1" and "books now l1 add' l2"
  shows "books now l (add @ add') l2"
proof -
  obtain P Q where P: "entries l1 = filter P (entries l) @ add" "\<forall>e. windowStart now \<le> e_at e \<longrightarrow> P e"
    and Q: "entries l2 = filter Q (entries l1) @ add'" "\<forall>e. windowStart now \<le> e_at e \<longrightarrow> Q e"
    using assms by (auto simp: books_def)
  have "filter Q add = add"
    using assms(1) Q(2) windowStart_le [of now] by (auto simp: books_def filter_id_conv)
  then have "entries l2 = filter (\<lambda>e. P e \<and> Q e) (entries l) @ add @ add'"
    by (simp add: P(1) Q(1) conj_commute)
  moreover have "\<forall>e. windowStart now \<le> e_at e \<longrightarrow> P e \<and> Q e" using P(2) Q(2) by blast
  ultimately have ex: "\<exists>P. entries l2 = filter P (entries l) @ add @ add' \<and> (\<forall>e. windowStart now \<le> e_at e \<longrightarrow> P e)"
    by (intro exI [of _ "\<lambda>e. P e \<and> Q e"]) simp
  have le: "entry_seq l \<le> entry_seq l1" "entry_seq l1 \<le> entry_seq l2"
    and bal: "Balance l2 a = Balance l a + change_of a (add @ add')" for a
    using assms by (simp_all add: books_def)
  have "entry_seq l < e_seq e \<and> e_seq e \<le> entry_seq l2 \<and> e_at e = now" if "e \<in> set (add @ add')" for e
    using that assms le unfolding books_def by fastforce
  with ex le bal show ?thesis by (simp add: books_def)
qed

text \<open>In a ledger whose entries are numbered up to its sequence these are its new entries.\<close>

lemma books_new:
  assumes "books now l add l'" and "entries_ok l"
  shows "new_entries l l' = add" and "entries_ok l'"
proof -
  obtain P where P: "entries l' = filter P (entries l) @ add" using assms(1) by (auto simp: books_def)
  have "filter (\<lambda>e. entry_seq l < e_seq e) (filter P (entries l)) = []"
    using assms(2) by (auto simp: entries_ok_def filter_empty_conv)
  moreover have "filter (\<lambda>e. entry_seq l < e_seq e) add = add"
    using assms(1) by (simp add: books_def filter_id_conv)
  ultimately show "new_entries l l' = add" by (simp add: new_entries_def P)
  show "entries_ok l'" using assms P unfolding books_def entries_ok_def by fastforce
qed

section \<open>The moves\<close>

lemma creditTx_seq:
  assumes "creditTx h now a amt reason l = Inr l'" and "hubAID h \<noteq> []" "a \<noteq> hubAID h" "amt \<noteq> 0"
  shows "entry_seq l' = entry_seq l + 2"
  using assms
  by (auto simp: creditTx_def Let_def rbind_eq_Inr supplyEventTx_issued add_entry_def split: if_split_asm)

lemma clearMove_entries:
  assumes "clearMove h now peer r amt l = Inr l'"
  shows "entry_seq l' = entry_seq l + 2" and "entries l' = entries l @
     [\<lparr>e_seq = entry_seq l + 1, e_aid = RPayTo r, e_delta = amt, e_reason = RAuthID r, e_at = ledgerStamp now\<rparr>,
      \<lparr>e_seq = entry_seq l + 2, e_aid = hubAID h, e_delta = - amt, e_reason = RAuthID r, e_at = ledgerStamp now\<rparr>]"
  using assms
  by (auto simp: clearMove_def Let_def rbind_eq_Inr supplyEventTx_issued add_entry_def split: if_split_asm)

lemma settled_books_seq:
  "entry_seq (settled_books hub now auth i via amt l) = entry_seq l + 2"
  "entry_seq (with_settlement now i row l) = entry_seq l"
  by (simp_all add: settled_books_def with_settlement_def Let_def add_entry_def split: option.split)

lemma books_two:
  assumes "entries l' = entries l @
     [\<lparr>e_seq = entry_seq l + 1, e_aid = a, e_delta = d, e_reason = i, e_at = ledgerStamp now\<rparr>,
      \<lparr>e_seq = entry_seq l + 2, e_aid = b, e_delta = f, e_reason = j, e_at = ledgerStamp now\<rparr>]"
    and "entry_seq l' = entry_seq l + 2"
    and "\<And>x. Balance l' x = Balance l x + (if a = x then d else 0) + (if b = x then f else 0)"
  shows "books now l [\<lparr>e_seq = entry_seq l + 1, e_aid = a, e_delta = d, e_reason = i, e_at = now\<rparr>,
      \<lparr>e_seq = entry_seq l + 2, e_aid = b, e_delta = f, e_reason = j, e_at = now\<rparr>] l'"
  using assms by (auto simp: books_def ledgerStamp_def intro!: exI [of _ "\<lambda>_. True"])

text \<open>What each move writes. A debit of a settlement is written by the move that settles its
  authorization and by no other: the authorization has no settled row before, has one after, and is still valid.\<close>

definition settled_until :: "string \<Rightarrow> millis \<Rightarrow> ledger \<Rightarrow> bool" where
  "settled_until i na l \<longleftrightarrow> (\<exists>r. map_of (settled l) i = Some r \<and> s_not_after r = na)"

definition debits_law :: "core \<Rightarrow> hub_conf \<Rightarrow> string \<Rightarrow> millis \<Rightarrow> time_ns \<Rightarrow> ledger \<Rightarrow> credit_entry list \<Rightarrow> ledger \<Rightarrow> bool" where
  "debits_law c h i na now l add l' \<longleftrightarrow> length (filter (settlement_debit h i) add) \<le> 1 \<and>
     (filter (settlement_debit h i) add \<noteq> [] \<longrightarrow>
       \<not> settled_until i na l \<and> settled_until i na l' \<and> unix_milli now \<le> na)"

text \<open>What the source relies on of \<open>payment.Authorization\<close>: its id is computed from the signed
  bytes, so it fixes \<open>NotAfter\<close>, and \<open>Verify\<close> refuses an authorization after its \<open>NotAfter\<close>.\<close>

definition auth_law :: "core \<Rightarrow> string \<Rightarrow> millis \<Rightarrow> bool" where
  "auth_law c i na \<longleftrightarrow> (\<forall>a. AuthID c a = Some i \<longrightarrow> NotAfter a = na) \<and>
     (\<forall>a k t. AuthVerify c a k t = None \<longrightarrow> t \<le> NotAfter a)"

lemma no_debits [simp]: "filter (settlement_debit h i) add = [] \<Longrightarrow> debits_law c h i na now l add l'"
  by (simp add: debits_law_def)

lemma ledger_move_books:
  assumes "ledger_move c h kels now l l'" and "hubAID h \<noteq> []"
  shows "\<exists>add. books now l add l' \<and> (\<forall>i na. auth_law c i na \<longrightarrow> debits_law c h i na now l add l')"
  using assms
proof (induction rule: ledger_move.induct)
  case (move_first_verify l l')
  then show ?case by (intro exI [of _ "[]"]) (auto elim!: only_first_verifiesE intro: books_refl)
next
  case (move_issue a amt reason l l')
  note c = creditTx_Inr [OF move_issue(1,6,2) _ move_issue(5)]
  have "books now l [\<lparr>e_seq = entry_seq l + 1, e_aid = hubAID h, e_delta = - amt,
      e_reason = reasonIssued @ '':'' @ reason, e_at = now\<rparr>,
     \<lparr>e_seq = entry_seq l + 2, e_aid = a, e_delta = amt, e_reason = reason, e_at = now\<rparr>] l'"
    by (rule books_two) (use move_issue creditTx_seq c in \<open>auto simp: Balance_def table_simps\<close>)
  moreover have "filter (settlement_debit h i) [\<lparr>e_seq = entry_seq l + 1, e_aid = hubAID h, e_delta = - amt,
      e_reason = reasonIssued @ '':'' @ reason, e_at = now\<rparr>,
     \<lparr>e_seq = entry_seq l + 2, e_aid = a, e_delta = amt, e_reason = reason, e_at = now\<rparr>] = []" for i
    using move_issue(4) by (simp add: settlement_debit_def)
  ultimately show ?case using no_debits by blast
next
  case (move_settle auth j via l amt guard rec auth0 k l')
  let ?add = "[\<lparr>e_seq = entry_seq l + 1, e_aid = Payer auth, e_delta = - amt, e_reason = j, e_at = now\<rparr>,
      \<lparr>e_seq = entry_seq l + 2, e_aid = credited_row (hubAID h) via auth, e_delta = amt, e_reason = j, e_at = now\<rparr>]"
  have amt: "0 < amt" and n: "map_of (settled l) j = None"
    using move_settle by (auto simp: fresh_settlement_def has_key_def dest: amountInt64_bounds)
  have "books now l ?add l'"
    by (rule books_two)
       (simp_all add: move_settle(7) settled_books_entries settled_books_seq settled_books_Balance)
  moreover have "debits_law c h i na now l ?add l'" if "auth_law c i na" for i na
    using move_settle(3-7) amt n that
    by (auto simp: debits_law_def settled_until_def settlement_debit_def auth_law_def map_of_update_eq)
  ultimately show ?case by blast
next
  case (move_clear peer r amt l l')
  note c = clearMove_Inr [OF move_clear(1-4)]
  have "books now l [\<lparr>e_seq = entry_seq l + 1, e_aid = RPayTo r, e_delta = amt, e_reason = RAuthID r, e_at = now\<rparr>,
      \<lparr>e_seq = entry_seq l + 2, e_aid = hubAID h, e_delta = - amt, e_reason = RAuthID r, e_at = now\<rparr>] l'"
    by (rule books_two) (use move_clear clearMove_entries [OF move_clear(1)] c in \<open>auto simp: Balance_def table_simps\<close>)
  moreover have "filter (settlement_debit h i) [\<lparr>e_seq = entry_seq l + 1, e_aid = RPayTo r, e_delta = amt,
      e_reason = RAuthID r, e_at = now\<rparr>,
      \<lparr>e_seq = entry_seq l + 2, e_aid = hubAID h, e_delta = - amt, e_reason = RAuthID r, e_at = now\<rparr>] = []" for i
    using move_clear(2) by (simp add: settlement_debit_def)
  ultimately show ?case using no_debits by blast
next
  case (move_note j a amt reference at l l')
  then show ?case by (intro exI [of _ "[]"]) (auto dest!: add_redemption_only intro: books_refl)
next
  case (move_discharged peer k rec l l')
  then show ?case
    by (intro exI [of _ "[]"])
       (auto simp: SettleOwed_def Let_def split: option.split_asm if_split_asm intro: books_refl)
next
  case (move_discharge peer amt l l')
  then show ?case
    by (intro exI [of _ "[]"]) (auto simp: DischargeDue_def split: option.split_asm if_split_asm intro: books_refl)
next
  case (move_prune l)
  have "books now l [] (pruneTables now l)"
    by (auto simp: books_def Balance_def intro!: exI [of _ "\<lambda>e. windowStart now \<le> e_at e"])
  then show ?case by (intro exI [of _ "[]"]) simp
qed

section \<open>What a peer owes\<close>

text \<open>The two operations that change it, told by their effect.\<close>

lemma ClearFromPeer_owed:
  assumes "ClearFromPeer c h now peer k (Some r) l = Inr l'" and "supply_ok h l" and "l' \<noteq> l"
  shows "\<not> clearedTx (RAuthID r) l"
    and "unix_milli now - 604800000 \<le> RSettleAt r"
    and "\<exists>row. map_of (cleared l') (RAuthID r) = Some row \<and> c_settle_at row = RSettleAt r"
    and "Balance l (RPayTo r) < Balance l' (RPayTo r)" and "Owed l p \<le> Owed l' p"
proof -
  from ClearFromPeer_Inr [OF assms(1) supply_okD(1) [OF assms(2)]] assms(3) obtain amt where
    amt: "amountInt64 (RAmount r) = Some amt" and q: "RPayTo r \<noteq> hubAID h"
    and n: "\<not> clearedTx (RAuthID r) l" and w: "unix_milli now - 604800000 \<le> RSettleAt r"
    and mv: "clearMove h now peer r amt l = Inr l'" by auto
  have pos: "0 < amt" "amt \<le> max_int64" using amt by (auto dest: amountInt64_bounds)
  note c = clearMove_Inr [OF mv pos q]
  show "\<not> clearedTx (RAuthID r) l" "unix_milli now - 604800000 \<le> RSettleAt r" by (rule n, rule w)
  show "\<exists>row. map_of (cleared l') (RAuthID r) = Some row \<and> c_settle_at row = RSettleAt r"
    by (simp add: c map_of_update_eq)
  show "Balance l (RPayTo r) < Balance l' (RPayTo r)" "Owed l p \<le> Owed l' p"
    using pos q by (simp_all add: c Balance_def Owed_def table_simps)
qed

lemma SettleOwed_owed:
  assumes "SettleOwed c now hub peer k (Some r) l = Inr l'" and "l' \<noteq> l"
  shows "\<not> has_key (hub_cleared l) (RAuthID r)" and "has_key (hub_cleared l') (RAuthID r)"
    and "Owed l' peer < Owed l peer" and "p \<noteq> peer \<Longrightarrow> Owed l' p = Owed l p"
proof -
  from assms obtain amt where amt: "amountInt64 (RAmount r) = Some amt" "amt \<le> row_or (owed l) peer 0"
    and n: "\<not> has_key (hub_cleared l) (RAuthID r)"
    and l': "l' = l\<lparr>hub_cleared := AList.update (RAuthID r) \<lparr>hc_peer = peer, hc_amount = amt, hc_at = ledgerStamp now\<rparr>
               (hub_cleared l), owed := (case map_of (owed l) peer of None \<Rightarrow> owed l
                 | Some v \<Rightarrow> AList.update peer (v - amt) (owed l))\<rparr>"
    by (auto simp: SettleOwed_def Let_def split: option.split_asm if_split_asm)
  have pos: "0 < amt" using amt(1) by (auto dest: amountInt64_bounds)
  show "\<not> has_key (hub_cleared l) (RAuthID r)" by (rule n)
  show "has_key (hub_cleared l') (RAuthID r)" by (simp add: l' table_simps)
  show "Owed l' peer < Owed l peer" "p \<noteq> peer \<Longrightarrow> Owed l' p = Owed l p"
    using amt(2) pos by (auto simp: l' Owed_def row_or_def map_of_update_eq split: option.split_asm option.split)
qed

lemma settleHere_owed:
  assumes "settleHere c h kels (hubAID h) now p req via l = (l', out)" and "supply_ok h l"
    and "\<not> registered kels (hubAID h)"
  shows "owed l' = owed l"
  using settleHere_effect [OF assms(1,2) refl assms(3)]
proof (elim disjE conjE exE)
  assume "only_first_verifies l l'"
  then show ?thesis by (auto elim!: only_first_verifiesE)
next
  fix auth i k l1 amt guard rec
  assume "keyAtFirstVerify c kels auth i k (unix_milli now) l = (l1, None)"
    and "l' = settled_books (hubAID h) now auth i via amt (with_settlement now i (row_of auth now amt rec guard via) l1)"
  then show ?thesis by (auto dest!: keyAtFirstVerify_only elim!: only_first_verifiesE)
qed

lemma Redeem_owed:
  assumes run: "Redeem c h kels (hubAID h) now p reference l = (l', r)" and sup: "supply_ok h l"
    and nr: "\<not> registered kels (hubAID h)"
  shows "owed l' = owed l"
proof (cases "l' = l")
  case False
  with run obtain auth i k l1 x where va: "verifiedAuth c kels (hubAID h) p = Inr (auth, i, k)"
    and k1: "keyAtFirstVerify c kels auth i k (unix_milli now) l = (l1, x)"
    and rest: "l' = l1 \<or> (\<exists>amt. redeemNote auth amt reference now
         (settleAuth c h kels (hubAID h) now (auth\<lparr>InteractionID := []\<rparr>) i [] l1) = (l', r))"
    unfolding Redeem_def Let_def
    by (auto split: option.split_asm if_split_asm sum.split_asm prod.split_asm)
  from keyAtFirstVerify_only [OF k1] obtain fv where l1: "l1 = l\<lparr>first_verifies := fv\<rparr>"
    by (rule only_first_verifiesE)
  have p: "Payer (auth\<lparr>InteractionID := []\<rparr>) \<noteq> hubAID h" using verifiedAuth_Inr(1) [OF va] nr by auto
  have sup1: "supply_ok h l1" using sup by (simp add: l1 supply_ok_def)
  obtain l2 out where sa: "settleAuth c h kels (hubAID h) now (auth\<lparr>InteractionID := []\<rparr>) i [] l1 = (l2, out)"
    by force
  have o2: "owed l2 = owed l1" using settleAuth_effect [OF sa sup1 refl p] by auto
  from rest show ?thesis
  proof (elim disjE exE)
    fix amt
    assume "redeemNote auth amt reference now
         (settleAuth c h kels (hubAID h) now (auth\<lparr>InteractionID := []\<rparr>) i [] l1) = (l', r)"
    then have "l' = l2 \<or> (\<exists>j a amt ref at. add_redemption j a amt ref at l2 = Some l')"
      using redeemNote_state sa by metis
    then have "owed l' = owed l2" by (auto dest!: add_redemption_only)
    with o2 show ?thesis by (simp add: l1)
  qed (simp add: l1)
qed simp

text \<open>A payment to a peer's network: the ledger changes only by the clearing of the peer's receipt.\<close>

lemma peerSettler_clears:
  assumes "peerSettler c h w now network pp req auth l = Some (l', r)" and "l' \<noteq> l"
  shows "\<exists>peer k rec. ClearFromPeer c h now peer k (Some rec) l = Inr l'"
proof -
  from assms obtain peer out where "ClearPeerSettlement c h w now peer out auth req l = (l', r)"
    unfolding peerSettler_def by (auto split: option.split_asm if_split_asm peer_reply.split_asm)
  with assms(2) show ?thesis
    unfolding ClearPeerSettlement_def Let_def
    by (auto split: option.split_asm if_split_asm sum.split_asm)
qed

lemma SettleWithRequirements_owed:
  assumes run: "SettleWithRequirements c h (map_option (\<lambda>w. peerSettler c h w now) w) kels (hubAID h) now p req l
      = (l', out)"
    and sup: "supply_ok h l" and nr: "\<not> registered kels (hubAID h)"
  shows "owed l' = owed l \<or> l' \<noteq> l \<and> (\<exists>peer k rec. ClearFromPeer c h now peer k (Some rec) l = Inr l')"
proof -
  consider "l' = l" | "settleHere c h kels (hubAID h) now p req [] l = (l', out)"
    | rq pp auth w' where "peerSettler c h w' now (AcceptedNetwork pp) pp rq auth l = Some (l', out)"
    using run unfolding SettleWithRequirements_def Let_def payeeHere_def
    by (auto split: option.split_asm if_split_asm sum.split_asm prod.split_asm)
  then show ?thesis
  proof cases
    case 3
    then show ?thesis using peerSettler_clears by (cases "l' = l") blast+
  qed (use settleHere_owed [OF _ sup nr] in auto)
qed

text \<open>A step of the hub leaves what the peers owe, clears a receipt, or applies a discharge.\<close>

lemma hub_step_owed:
  assumes st: "hub_step c lc h now s s'" and inv: "hub_inv lc h s" and law: "build_law lc"
  shows "owed (hs_ledger s') = owed (hs_ledger s) \<or>
    hs_ledger s' \<noteq> hs_ledger s \<and>
    (\<exists>peer k rec. ClearFromPeer c h now peer k (Some rec) (hs_ledger s) = Inr (hs_ledger s') \<or>
       SettleOwed c now (hubAID h) peer k (Some rec) (hs_ledger s) = Inr (hs_ledger s'))"
proof -
  have sup: "supply_ok h (hs_ledger s)" and nr: "\<not> registered (hs_kels s) (hubAID h)"
    and names: "names_ok (hs_kels s) (hs_ledger s)" using inv by (auto simp: hub_inv_def)
  have issue: "owed l' = owed (hs_ledger s)"
    if "issueTx h now a amt reason (hs_ledger s) = Inr l'" "a \<noteq> hubAID h" "amt \<le> max_int64" for a amt reason l'
    using issueTx_creditTx [OF that(1)] creditTx_Inr(6) [OF _ supply_okD(1) [OF sup] that(2)] that(3) by fastforce
  from st show ?thesis
  proof (cases rule: hub_step.cases)
    case (step_grant a amt reason l')
    then obtain rs where "issueTx h now a amt rs (hs_ledger s) = Inr l'" using GrantCredit_issueTx by blast
    from issue [OF this step_grant(2,4)] step_grant(1) show ?thesis by simp
  next
    case (step_issue a amt reason l')
    from issue [OF step_issue(5,2,4)] step_issue(1) show ?thesis by simp
  next
    case (step_settle w p req l' out)
    from SettleWithRequirements_owed [OF step_settle(2) sup nr] step_settle(1) show ?thesis by auto
  next
    case (step_settle_peer peer p req l' out)
    have "owed l' = owed (hs_ledger s)"
    proof (cases "l' = hs_ledger s")
      case False
      with step_settle_peer(3) have "settleHere c h (hs_kels s) (hubAID h) now p req peer (hs_ledger s) = (l', out)"
        unfolding SettleForPeer_def Let_def by (auto split: option.split_asm if_split_asm)
      then show ?thesis by (rule settleHere_owed [OF _ sup nr])
    qed simp
    with step_settle_peer(1) show ?thesis by simp
  next
    case (step_verify p req l' v)
    with VerifyWithRequirements_only [OF step_verify(2)] show ?thesis by (auto elim!: only_first_verifiesE)
  next
    case (step_redeem p reference l' r)
    from Redeem_owed [OF step_redeem(2) sup nr] step_redeem(1) show ?thesis by simp
  next
    case (step_discharged peer k rec l')
    then show ?thesis by (cases rec; cases "l' = hs_ledger s") (auto simp: SettleOwed_def)
  next
    case (step_discharge peer amt l')
    then show ?thesis by (auto simp: DischargeDue_def split: option.split_asm if_split_asm)
  next
    case (step_prune l' ep' r)
    then show ?thesis using pruneLedgerAt_keeps(1) [OF step_prune(2)] by simp
  next
    case (step_publish l' ep' r)
    then have "l' = hs_ledger s \<or> (\<exists>d. l' = (hs_ledger s)\<lparr>events_since := 0, last_to_day := d\<rparr>)"
      using publishDueAt_Inr [OF step_publish(2) sup law names] by blast
    with step_publish(1) show ?thesis by auto
  qed simp_all
qed

end
