(* ===== verification/Replay_Guards.thy ===== *)
theory Replay_Guards
  imports Ledger_Effects
begin

text \<open>
  The replay guards of the ledger over whole runs of the hub: \<open>credit_settled\<close>, \<open>credit_cleared\<close>,
  \<open>hub_cleared\<close> and \<open>settle_guard\<close>. Each of the first three is an interpretation of
  \<open>at_most_once\<close>; the laws it asks for are lemmas about the moves of the ledger, the deletions of
  the janitor among them.
\<close>

section \<open>Rows of the replay tables\<close>

lemma map_of_filter_row:
  "keys_ok t \<Longrightarrow> map_of (filter (\<lambda>(_, r). P r) t) k =
    (case map_of t k of None \<Rightarrow> None | Some v \<Rightarrow> if P v then Some v else None)"
  using map_of_filter_keys [of t "\<lambda>_. P" k] by simp

lemma unix_milli_days:
  "unix_milli (now - settledKeptAfter) = unix_milli now - 604800000"
  "unix_milli (now - clearedKeptAfter) = unix_milli now - 691200000"
  "unix_milli (now + guardKept) = unix_milli now + 2592000000"
  using unix_milli_minus [of now 604800000] unix_milli_minus [of now 691200000]
    unix_milli_minus [of now "- 2592000000"]
  by (simp_all add: window_defs time_defs)

text \<open>The settled row of an authorization.\<close>

lemma settled_move:
  assumes "ledger_move c h kels now l l'" and "tables_ok l"
  shows "(map_of (settled l) i = Some r \<longrightarrow>
            map_of (settled l') i = Some r \<or>
            map_of (settled l') i = None \<and> s_not_after r \<le> unix_milli now - 604800000) \<and>
    (map_of (settled l) i = None \<longrightarrow> map_of (settled l') i = Some r' \<longrightarrow>
       (\<exists>a k. AuthID c a = Some i \<and> s_not_after r' = NotAfter a \<and> AuthVerify c a k (unix_milli now) = None))"
  using assms
proof (induction rule: ledger_move.induct)
  case (move_first_verify l l')
  then show ?case by (auto elim!: only_first_verifiesE)
next
  case (move_issue a amt reason l l')
  then show ?case by (simp add: creditTx_tables [OF move_issue(1)])
next
  case (move_settle auth j via l amt guard rec auth0 k l')
  then show ?case by (auto simp: map_of_update_eq fresh_settlement_def has_key_def)
next
  case (move_clear peer r amt l l')
  then show ?case by (simp add: clearMove_Inr [OF move_clear(1-4)])
next
  case (move_note j a amt reference at l l')
  then show ?case by (auto dest!: add_redemption_only)
next
  case (move_discharged peer k rec l l')
  then show ?case by (auto simp: SettleOwed_def Let_def split: option.split_asm if_split_asm)
next
  case (move_discharge peer amt l l')
  then show ?case by (auto simp: DischargeDue_def split: option.split_asm if_split_asm)
next
  case (move_prune l)
  then show ?case
    by (auto simp: tables_ok_def map_of_filter_row unix_milli_days split: option.splits if_splits)
qed

text \<open>The cleared row of a receipt.\<close>

lemma cleared_move:
  assumes "ledger_move c h kels now l l'" and "tables_ok l"
  shows "(map_of (cleared l) i = Some r \<longrightarrow>
            map_of (cleared l') i = Some r \<or>
            map_of (cleared l') i = None \<and> c_settle_at r \<le> unix_milli now - 691200000) \<and>
    (map_of (cleared l) i = None \<longrightarrow> map_of (cleared l') i = Some r' \<longrightarrow>
       unix_milli now - 604800000 \<le> c_settle_at r')"
  using assms
proof (induction rule: ledger_move.induct)
  case (move_first_verify l l')
  then show ?case by (auto elim!: only_first_verifiesE)
next
  case (move_issue a amt reason l l')
  then show ?case by (simp add: creditTx_tables [OF move_issue(1)])
next
  case (move_settle auth j via l amt guard rec auth0 k l')
  then show ?case by auto
next
  case (move_clear peer rc amt l l')
  then show ?case
    by (auto simp: clearMove_Inr [OF move_clear(1-4)] map_of_update_eq clearedTx_def has_key_def)
next
  case (move_note j a amt reference at l l')
  then show ?case by (auto dest!: add_redemption_only)
next
  case (move_discharged peer k rec l l')
  then show ?case by (auto simp: SettleOwed_def Let_def split: option.split_asm if_split_asm)
next
  case (move_discharge peer amt l l')
  then show ?case by (auto simp: DischargeDue_def split: option.split_asm if_split_asm)
next
  case (move_prune l)
  then show ?case
    by (auto simp: tables_ok_def map_of_filter_row unix_milli_days split: option.splits if_splits)
qed

lemma hub_cleared_move:
  assumes "ledger_move c h kels now l l'"
  shows "has_key (hub_cleared l) i \<longrightarrow> has_key (hub_cleared l') i"
  using assms
proof (induction rule: ledger_move.induct)
  case (move_first_verify l l')
  then show ?case by (auto elim!: only_first_verifiesE)
next
  case (move_issue a amt reason l l')
  then show ?case by (simp add: creditTx_tables [OF move_issue(1)])
next
  case (move_clear peer r amt l l')
  then show ?case by (simp add: clearMove_Inr [OF move_clear(1-4)])
next
  case (move_note j a amt reference at l l')
  then show ?case by (auto dest!: add_redemption_only)
next
  case (move_discharged peer k rec l l')
  then show ?case by (auto simp: SettleOwed_def Let_def table_simps split: option.split_asm if_split_asm)
next
  case (move_discharge peer amt l l')
  then show ?case by (auto simp: DischargeDue_def split: option.split_asm if_split_asm)
qed simp_all

text \<open>A guard: kept while it is live, and not taken over before.\<close>

lemma guard_move:
  assumes "ledger_move c h kels now l l'" and "tables_ok l"
    and "map_of (guards l) g = Some u" and "unix_milli now < u"
  shows "map_of (guards l') g = Some u"
  using assms
proof (induction rule: ledger_move.induct)
  case (move_first_verify l l')
  then show ?case by (auto elim!: only_first_verifiesE)
next
  case (move_issue a amt reason l l')
  then show ?case by (simp add: creditTx_tables [OF move_issue(1)])
next
  case (move_settle auth j via l amt guard rec auth0 k l')
  then show ?case by (auto simp: fresh_settlement_def map_of_update_eq split: option.split)
next
  case (move_clear peer r amt l l')
  then show ?case by (simp add: clearMove_Inr [OF move_clear(1-4)])
next
  case (move_note j a amt reference at l l')
  then show ?case by (auto dest!: add_redemption_only)
next
  case (move_discharged peer k rec l l')
  then show ?case by (auto simp: SettleOwed_def Let_def split: option.split_asm if_split_asm)
next
  case (move_discharge peer amt l l')
  then show ?case by (auto simp: DischargeDue_def split: option.split_asm if_split_asm)
next
  case (move_prune l)
  then show ?case by (simp add: tables_ok_def map_of_filter_row)
qed

section \<open>The same over the steps of the hub\<close>

lemma moves_settled:
  assumes "ledger_moves c h kels now l l'" and "tables_ok l"
  shows "(\<forall>r. map_of (settled l) i = Some r \<longrightarrow>
      map_of (settled l') i = Some r \<or> s_not_after r \<le> unix_milli now - 604800000) \<and>
    (\<forall>r'. map_of (settled l) i = None \<longrightarrow> map_of (settled l') i = Some r' \<longrightarrow>
      (\<exists>a k. AuthID c a = Some i \<and> s_not_after r' = NotAfter a \<and> AuthVerify c a k (unix_milli now) = None))"
  using assms
proof (induction rule: rtranclp_induct)
  case (step y z)
  have ty: "tables_ok y" using ledger_moves_tables [OF step(1,4)] .
  note M = settled_move [OF step(2) ty, of i]
  note IH = step.IH [OF step(4)]
  show ?case
  proof (intro conjI allI impI)
    fix r
    assume "map_of (settled l) i = Some r"
    with IH M show "map_of (settled z) i = Some r \<or> s_not_after r \<le> unix_milli now - 604800000" by blast
  next
    fix r'
    assume n: "map_of (settled l) i = None" and z: "map_of (settled z) i = Some r'"
    show "\<exists>a k. AuthID c a = Some i \<and> s_not_after r' = NotAfter a \<and> AuthVerify c a k (unix_milli now) = None"
    proof (cases "map_of (settled y) i")
      case None
      with M z show ?thesis by blast
    next
      case (Some ry)
      with M z have "ry = r'" by fastforce
      with IH n Some show ?thesis by blast
    qed
  qed
qed auto

lemma settled_until_kept:
  assumes "ledger_moves c h kels now l l'" and "tables_ok l" and "settled_until i na l"
    and "unix_milli now \<le> na"
  shows "settled_until i na l'"
  using moves_settled [OF assms(1,2), of i] assms(3,4) unfolding settled_until_def by fastforce

text \<open>The debits of two sequences of moves, one after the other: once the first has written one, the row
  it wrote is still there for the second.\<close>

lemma debits_law_append:
  assumes "debits_law c h i na now l add l1" and "debits_law c h i na now l1 add' l2"
    and "settled_until i na l \<Longrightarrow> unix_milli now \<le> na \<Longrightarrow> settled_until i na l1"
    and "settled_until i na l1 \<Longrightarrow> unix_milli now \<le> na \<Longrightarrow> settled_until i na l2"
  shows "debits_law c h i na now l (add @ add') l2"
proof (cases "filter (settlement_debit h i) add = []")
  case True
  with assms show ?thesis by (auto simp: debits_law_def)
next
  case False
  with assms(1,2,4) have "filter (settlement_debit h i) add' = []" "settled_until i na l2"
    by (auto simp: debits_law_def)
  with assms(1) False show ?thesis by (auto simp: debits_law_def)
qed

lemma moves_books:
  assumes "ledger_moves c h kels now l l'" and "tables_ok l" and "hubAID h \<noteq> []"
  shows "\<exists>add. books now l add l' \<and> (\<forall>i na. auth_law c i na \<longrightarrow> debits_law c h i na now l add l')"
  using assms
proof (induction rule: rtranclp_induct)
  case base
  then show ?case by (intro exI [of _ "[]"]) (simp add: books_refl)
next
  case (step y z)
  obtain add where add: "books now l add y" "\<forall>i na. auth_law c i na \<longrightarrow> debits_law c h i na now l add y"
    using step.IH [OF step(4,5)] by blast
  obtain add' where add': "books now y add' z" "\<forall>i na. auth_law c i na \<longrightarrow> debits_law c h i na now y add' z"
    using ledger_move_books [OF step(2,5)] by blast
  have ty: "tables_ok y" using ledger_moves_tables [OF step(1,4)] .
  have "debits_law c h i na now l (add @ add') z" if "auth_law c i na" for i na
    by (rule debits_law_append [of c h i na now l add y])
       (use that add(2) add'(2) settled_until_kept [OF step(1,4)] settled_until_kept [OF r_into_rtranclp [where r = "ledger_move c h kels now", OF step(2)] ty]
        in auto)
  with books_trans [OF add(1) add'(1)] show ?case by blast
qed

lemma moves_cleared:
  assumes "ledger_moves c h kels now l l'" and "tables_ok l"
  shows "(\<forall>r. map_of (cleared l) i = Some r \<longrightarrow>
      map_of (cleared l') i = Some r \<or> c_settle_at r \<le> unix_milli now - 691200000) \<and>
    (\<forall>r'. map_of (cleared l) i = None \<longrightarrow> map_of (cleared l') i = Some r' \<longrightarrow>
      unix_milli now - 604800000 \<le> c_settle_at r')"
  using assms
proof (induction rule: rtranclp_induct)
  case (step y z)
  have ty: "tables_ok y" using ledger_moves_tables [OF step(1,4)] .
  note M = cleared_move [OF step(2) ty, of i]
  note IH = step.IH [OF step(4)]
  show ?case
  proof (intro conjI allI impI)
    fix r
    assume "map_of (cleared l) i = Some r"
    with IH M show "map_of (cleared z) i = Some r \<or> c_settle_at r \<le> unix_milli now - 691200000" by blast
  next
    fix r'
    assume n: "map_of (cleared l) i = None" and z: "map_of (cleared z) i = Some r'"
    show "unix_milli now - 604800000 \<le> c_settle_at r'"
    proof (cases "map_of (cleared y) i")
      case None
      with M z show ?thesis by blast
    next
      case (Some ry)
      with M z have "ry = r'" by fastforce
      with IH n Some show ?thesis by blast
    qed
  qed
qed auto

lemma moves_hub_cleared:
  "ledger_moves c h kels now l l' \<Longrightarrow> has_key (hub_cleared l) i \<Longrightarrow> has_key (hub_cleared l') i"
  by (induction rule: rtranclp_induct) (auto dest: hub_cleared_move)

lemma moves_guard:
  assumes "ledger_moves c h kels now l l'" and "tables_ok l"
    and "map_of (guards l) g = Some u" and "unix_milli now < u"
  shows "map_of (guards l') g = Some u"
  using assms
  by (induction rule: rtranclp_induct) (auto intro: guard_move ledger_moves_tables)

text \<open>What a step of the hub does to the ledger, in one place.\<close>

lemma hub_step_ledger:
  assumes st: "hub_step c lc h now s s'" and inv: "hub_inv lc h s" and law: "build_law lc"
  obtains "ledger_moves c h (hs_kels s) now (hs_ledger s) (hs_ledger s')"
  | d where "hs_ledger s' = (hs_ledger s)\<lparr>events_since := 0, last_to_day := d\<rparr>"
proof -
  have sup: "supply_ok h (hs_ledger s)" and nr: "\<not> registered (hs_kels s) (hubAID h)"
    and names: "names_ok (hs_kels s) (hs_ledger s)" using inv by (auto simp: hub_inv_def)
  show thesis
    using hub_step_effect [OF st sup nr]
  proof (elim disjE exE conjE)
    fix l' ep' r
    assume s': "s' = s\<lparr>hs_ledger := l', hs_epochs := ep'\<rparr>"
      and pub: "publishDueAt lc h (hs_kels s) now (hs_ledger s) (hs_epochs s) = Inr (l', ep', r)"
    have "l' = hs_ledger s \<or> (\<exists>d. l' = (hs_ledger s)\<lparr>events_since := 0, last_to_day := d\<rparr>)"
      using publishDueAt_Inr [OF pub sup law names] by blast
    then show thesis using that s' by auto
  qed (use that in auto)
qed

section \<open>At most once\<close>

text \<open>The steps that take effect: one that takes credit from an account under the authorization \<open>i\<close>;
  one that clears a receipt \<open>(i, at)\<close>, so that its payee is credited; one that applies a discharge
  \<open>i\<close>, so that the peer owes less.\<close>

definition settles_now :: "hub_conf \<Rightarrow> string \<Rightarrow> time_ns \<Rightarrow> hub_state \<Rightarrow> hub_state \<Rightarrow> bool" where
  "settles_now h i t s s' \<longleftrightarrow> filter (settlement_debit h i) (new_entries (hs_ledger s) (hs_ledger s')) \<noteq> []"

definition clears_now ::
  "core \<Rightarrow> hub_conf \<Rightarrow> string \<Rightarrow> millis \<Rightarrow> time_ns \<Rightarrow> hub_state \<Rightarrow> hub_state \<Rightarrow> bool" where
  "clears_now c h i at t s s' \<longleftrightarrow> (\<exists>peer k rec. RAuthID rec = i \<and> RSettleAt rec = at \<and>
     ClearFromPeer c h t peer k (Some rec) (hs_ledger s) = Inr (hs_ledger s') \<and>
     Balance (hs_ledger s) (RPayTo rec) < Balance (hs_ledger s') (RPayTo rec))"

definition discharges_now ::
  "core \<Rightarrow> hub_conf \<Rightarrow> string \<Rightarrow> time_ns \<Rightarrow> hub_state \<Rightarrow> hub_state \<Rightarrow> bool" where
  "discharges_now c h i t s s' \<longleftrightarrow> (\<exists>peer k rec. RAuthID rec = i \<and>
     SettleOwed c t (hubAID h) peer k (Some rec) (hs_ledger s) = Inr (hs_ledger s') \<and>
     Owed (hs_ledger s') peer < Owed (hs_ledger s) peer)"

definition good_step :: "core \<Rightarrow> liab_core \<Rightarrow> hub_conf \<Rightarrow> time_ns \<Rightarrow> hub_state \<Rightarrow> hub_state \<Rightarrow> bool" where
  "good_step c lc h t s s' \<longleftrightarrow> build_law lc \<and> hub_inv lc h s \<and> hub_step c lc h t s s'"

lemma good_step_settled:
  assumes "good_step c lc h t s s'"
  shows "map_of (settled (hs_ledger s)) i = Some r \<Longrightarrow>
      map_of (settled (hs_ledger s')) i = Some r \<or> s_not_after r \<le> unix_milli t - 604800000"
    and "map_of (settled (hs_ledger s)) i = None \<Longrightarrow> map_of (settled (hs_ledger s')) i = Some r' \<Longrightarrow>
      (\<exists>a k. AuthID c a = Some i \<and> s_not_after r' = NotAfter a \<and> AuthVerify c a k (unix_milli t) = None)"
proof -
  have st: "hub_step c lc h t s s'" and inv: "hub_inv lc h s" and law: "build_law lc"
    using assms by (auto simp: good_step_def)
  have tabs: "tables_ok (hs_ledger s)" using inv by (simp add: hub_inv_def)
  have "(\<forall>r. map_of (settled (hs_ledger s)) i = Some r \<longrightarrow>
      map_of (settled (hs_ledger s')) i = Some r \<or> s_not_after r \<le> unix_milli t - 604800000) \<and>
    (\<forall>r'. map_of (settled (hs_ledger s)) i = None \<longrightarrow> map_of (settled (hs_ledger s')) i = Some r' \<longrightarrow>
      (\<exists>a k. AuthID c a = Some i \<and> s_not_after r' = NotAfter a \<and> AuthVerify c a k (unix_milli t) = None))"
    by (rule hub_step_ledger [OF st inv law]) (auto dest: moves_settled [OF _ tabs, of c h _ _ _ i])
  then show "map_of (settled (hs_ledger s)) i = Some r \<Longrightarrow>
      map_of (settled (hs_ledger s')) i = Some r \<or> s_not_after r \<le> unix_milli t - 604800000"
    "map_of (settled (hs_ledger s)) i = None \<Longrightarrow> map_of (settled (hs_ledger s')) i = Some r' \<Longrightarrow>
      (\<exists>a k. AuthID c a = Some i \<and> s_not_after r' = NotAfter a \<and> AuthVerify c a k (unix_milli t) = None)"
    by blast+
qed

lemma good_step_cleared:
  assumes "good_step c lc h t s s'"
  shows "map_of (cleared (hs_ledger s)) i = Some r \<Longrightarrow>
      map_of (cleared (hs_ledger s')) i = Some r \<or> c_settle_at r \<le> unix_milli t - 691200000"
    and "map_of (cleared (hs_ledger s)) i = None \<Longrightarrow> map_of (cleared (hs_ledger s')) i = Some r' \<Longrightarrow>
      unix_milli t - 604800000 \<le> c_settle_at r'"
proof -
  have st: "hub_step c lc h t s s'" and inv: "hub_inv lc h s" and law: "build_law lc"
    using assms by (auto simp: good_step_def)
  have tabs: "tables_ok (hs_ledger s)" using inv by (simp add: hub_inv_def)
  have "(\<forall>r. map_of (cleared (hs_ledger s)) i = Some r \<longrightarrow>
      map_of (cleared (hs_ledger s')) i = Some r \<or> c_settle_at r \<le> unix_milli t - 691200000) \<and>
    (\<forall>r'. map_of (cleared (hs_ledger s)) i = None \<longrightarrow> map_of (cleared (hs_ledger s')) i = Some r' \<longrightarrow>
      unix_milli t - 604800000 \<le> c_settle_at r')"
    by (rule hub_step_ledger [OF st inv law]) (auto dest: moves_cleared [OF _ tabs, of c h _ _ _ i])
  then show "map_of (cleared (hs_ledger s)) i = Some r \<Longrightarrow>
      map_of (cleared (hs_ledger s')) i = Some r \<or> c_settle_at r \<le> unix_milli t - 691200000"
    "map_of (cleared (hs_ledger s)) i = None \<Longrightarrow> map_of (cleared (hs_ledger s')) i = Some r' \<Longrightarrow>
      unix_milli t - 604800000 \<le> c_settle_at r'"
    by blast+
qed

lemma good_step_hub_cleared:
  assumes "good_step c lc h t s s'" and "has_key (hub_cleared (hs_ledger s)) i"
  shows "has_key (hub_cleared (hs_ledger s')) i"
proof -
  have st: "hub_step c lc h t s s'" and inv: "hub_inv lc h s" and law: "build_law lc"
    using assms by (auto simp: good_step_def)
  show ?thesis
    by (rule hub_step_ledger [OF st inv law]) (use assms(2) moves_hub_cleared in auto)
qed

text \<open>A step's new entries, and the accounts they move.\<close>

lemma good_step_books:
  assumes "good_step c lc h t s s'" and "entries_ok (hs_ledger s)"
  shows "entries_ok (hs_ledger s')"
    and "Balance (hs_ledger s') a = Balance (hs_ledger s) a + change_of a (new_entries (hs_ledger s) (hs_ledger s'))"
    and "auth_law c i na \<Longrightarrow> debits_law c h i na t (hs_ledger s) (new_entries (hs_ledger s) (hs_ledger s')) (hs_ledger s')"
proof -
  have st: "hub_step c lc h t s s'" and inv: "hub_inv lc h s" and law: "build_law lc"
    using assms by (auto simp: good_step_def)
  have tabs: "tables_ok (hs_ledger s)" and hub: "hubAID h \<noteq> []" using inv by (auto simp: hub_inv_def supply_ok_def)
  have "\<exists>add. books t (hs_ledger s) add (hs_ledger s') \<and>
      (\<forall>i na. auth_law c i na \<longrightarrow> debits_law c h i na t (hs_ledger s) add (hs_ledger s'))"
  proof (rule hub_step_ledger [OF st inv law])
    assume "ledger_moves c h (hs_kels s) t (hs_ledger s) (hs_ledger s')"
    then show ?thesis using tabs hub by (rule moves_books)
  next
    fix d
    assume "hs_ledger s' = (hs_ledger s)\<lparr>events_since := 0, last_to_day := d\<rparr>"
    then show ?thesis by (intro exI [of _ "[]"]) (simp add: books_refl)
  qed
  then obtain add where b: "books t (hs_ledger s) add (hs_ledger s')"
    and d: "auth_law c i na \<Longrightarrow> debits_law c h i na t (hs_ledger s) add (hs_ledger s')" for i na by blast
  note n = books_new [OF b assms(2)]
  show "entries_ok (hs_ledger s')" by (rule n(2))
  show "Balance (hs_ledger s') a = Balance (hs_ledger s) a + change_of a (new_entries (hs_ledger s) (hs_ledger s'))"
    using b by (simp add: n(1) books_def)
  show "auth_law c i na \<Longrightarrow> debits_law c h i na t (hs_ledger s) (new_entries (hs_ledger s) (hs_ledger s')) (hs_ledger s')"
    using d by (simp add: n(1))
qed

lemma reachable_entries_ok:
  "reachable c lc h s \<Longrightarrow> hubAID h \<noteq> [] \<Longrightarrow> build_law lc \<Longrightarrow> entries_ok (hs_ledger s)"
proof (induction rule: reachable.induct)
  case reach_start
  then show ?case by (simp add: start_state_def empty_ledger_def entries_ok_def)
next
  case (reach_step s now s')
  have "good_step c lc h now s s'"
    using reach_step reachable_inv [OF reach_step(1)] by (simp add: good_step_def)
  from good_step_books(1) [OF this] reach_step show ?case by simp
qed

interpretation settled_guard: at_most_once
  "\<lambda>t s s'. auth_law c i na \<and> entries_ok (hs_ledger s) \<and> good_step c lc h t s s'" "settles_now h i"
  "\<lambda>s. settled_until i na (hs_ledger s)" "\<lambda>t. na < unix_milli t"
  for c lc h i na
proof
  fix t s s'
  assume st: "auth_law c i na \<and> entries_ok (hs_ledger s) \<and> good_step c lc h t s s'" and f: "settles_now h i t s s'"
  then have "debits_law c h i na t (hs_ledger s) (new_entries (hs_ledger s) (hs_ledger s')) (hs_ledger s')"
    using good_step_books(3) by blast
  with f show "\<not> settled_until i na (hs_ledger s) \<and> \<not> na < unix_milli t" and "settled_until i na (hs_ledger s')"
    by (auto simp: debits_law_def settles_now_def)
next
  fix t s s'
  assume "auth_law c i na \<and> entries_ok (hs_ledger s) \<and> good_step c lc h t s s'" and "settled_until i na (hs_ledger s)"
  with good_step_settled(1) [of c lc h t s s' i]
  show "settled_until i na (hs_ledger s') \<or> na < unix_milli t" unfolding settled_until_def by force
next
  fix t t' :: time_ns
  assume "na < unix_milli t" and "t \<le> t'"
  then show "na < unix_milli t'" using unix_milli_mono by fastforce
qed

lemma clears_now_facts:
  assumes "good_step c lc h t s s'" and "clears_now c h i at t s s'"
  shows "\<not> clearedTx i (hs_ledger s)" and "unix_milli t - 604800000 \<le> at"
    and "\<exists>r. map_of (cleared (hs_ledger s')) i = Some r \<and> c_settle_at r = at"
proof -
  have sup: "supply_ok h (hs_ledger s)" using assms(1) by (simp add: good_step_def hub_inv_def)
  obtain peer k rec where r: "RAuthID rec = i" "RSettleAt rec = at"
    and cl: "ClearFromPeer c h t peer k (Some rec) (hs_ledger s) = Inr (hs_ledger s')"
    and b: "Balance (hs_ledger s) (RPayTo rec) < Balance (hs_ledger s') (RPayTo rec)"
    using assms(2) by (auto simp: clears_now_def)
  have "hs_ledger s' \<noteq> hs_ledger s" using b by auto
  note f = ClearFromPeer_owed [OF cl sup this]
  show "\<not> clearedTx i (hs_ledger s)" "unix_milli t - 604800000 \<le> at"
    "\<exists>r. map_of (cleared (hs_ledger s')) i = Some r \<and> c_settle_at r = at"
    using f(1-3) unfolding r by blast+
qed

interpretation cleared_guard: at_most_once
  "\<lambda>t s s'. good_step c lc h t s s'" "clears_now c h i at"
  "\<lambda>s. \<exists>r. map_of (cleared (hs_ledger s)) i = Some r \<and> c_settle_at r = at"
  "\<lambda>t. at < unix_milli t - 604800000"
  for c lc h i at
proof
  fix t s s'
  assume st: "good_step c lc h t s s'" and f: "clears_now c h i at t s s'"
  from clears_now_facts [OF st f]
  show "\<not> (\<exists>r. map_of (cleared (hs_ledger s)) i = Some r \<and> c_settle_at r = at) \<and> \<not> at < unix_milli t - 604800000"
    and "\<exists>r. map_of (cleared (hs_ledger s')) i = Some r \<and> c_settle_at r = at"
    by (auto simp: clearedTx_def has_key_def)
next
  fix t s s'
  assume st: "good_step c lc h t s s'"
    and "\<exists>r. map_of (cleared (hs_ledger s)) i = Some r \<and> c_settle_at r = at"
  then show "(\<exists>r. map_of (cleared (hs_ledger s')) i = Some r \<and> c_settle_at r = at) \<or> at < unix_milli t - 604800000"
    using good_step_cleared(1) [OF st, of i] by force
next
  fix t t' :: time_ns
  assume "at < unix_milli t - 604800000" and "t \<le> t'"
  then show "at < unix_milli t' - 604800000" using unix_milli_mono by fastforce
qed

lemma discharges_now_facts:
  assumes "discharges_now c h i t s s'"
  shows "\<not> has_key (hub_cleared (hs_ledger s)) i \<and> has_key (hub_cleared (hs_ledger s')) i"
proof -
  obtain peer k rec where r: "RAuthID rec = i"
    and so: "SettleOwed c t (hubAID h) peer k (Some rec) (hs_ledger s) = Inr (hs_ledger s')"
    and less: "Owed (hs_ledger s') peer < Owed (hs_ledger s) peer"
    using assms by (auto simp: discharges_now_def)
  have "hs_ledger s' \<noteq> hs_ledger s" using less by auto
  from SettleOwed_owed(1,2) [OF so this] r show ?thesis by blast
qed

interpretation discharge_guard: at_most_once
  "\<lambda>t s s'. good_step c lc h t s s'" "discharges_now c h i"
  "\<lambda>s. has_key (hub_cleared (hs_ledger s)) i" "\<lambda>t. False"
  for c lc h i
  by unfold_locales (auto dest: good_step_hub_cleared discharges_now_facts)

text \<open>Every change of what a peer owes is one of these two.\<close>

lemma good_step_owed:
  assumes "good_step c lc h t s s'"
  shows "Owed (hs_ledger s) p < Owed (hs_ledger s') p \<Longrightarrow> \<exists>i at. clears_now c h i at t s s'"
    and "Owed (hs_ledger s') p < Owed (hs_ledger s) p \<Longrightarrow> \<exists>i. discharges_now c h i t s s'"
proof -
  have st: "hub_step c lc h t s s'" and inv: "hub_inv lc h s" and law: "build_law lc"
    using assms by (auto simp: good_step_def)
  have sup: "supply_ok h (hs_ledger s)" using inv by (simp add: hub_inv_def)
  note eff = hub_step_owed [OF st inv law]
  show "\<exists>i at. clears_now c h i at t s s'" if up: "Owed (hs_ledger s) p < Owed (hs_ledger s') p"
  proof -
    from eff up obtain peer k rec where ne: "hs_ledger s' \<noteq> hs_ledger s"
      and "ClearFromPeer c h t peer k (Some rec) (hs_ledger s) = Inr (hs_ledger s') \<or>
           SettleOwed c t (hubAID h) peer k (Some rec) (hs_ledger s) = Inr (hs_ledger s')"
      by (auto simp: Owed_def)
    then show ?thesis
    proof (elim disjE)
      assume cl: "ClearFromPeer c h t peer k (Some rec) (hs_ledger s) = Inr (hs_ledger s')"
      from cl ClearFromPeer_owed(4) [OF cl sup ne] show ?thesis unfolding clears_now_def by blast
    next
      assume so: "SettleOwed c t (hubAID h) peer k (Some rec) (hs_ledger s) = Inr (hs_ledger s')"
      from SettleOwed_owed(3,4) [OF so ne] up have False by (cases "p = peer") fastforce+
      then show ?thesis ..
    qed
  qed
  show "\<exists>i. discharges_now c h i t s s'" if down: "Owed (hs_ledger s') p < Owed (hs_ledger s) p"
  proof -
    from eff down obtain peer k rec where ne: "hs_ledger s' \<noteq> hs_ledger s"
      and "ClearFromPeer c h t peer k (Some rec) (hs_ledger s) = Inr (hs_ledger s') \<or>
           SettleOwed c t (hubAID h) peer k (Some rec) (hs_ledger s) = Inr (hs_ledger s')"
      by (auto simp: Owed_def)
    then show ?thesis
    proof (elim disjE)
      assume cl: "ClearFromPeer c h t peer k (Some rec) (hs_ledger s) = Inr (hs_ledger s')"
      from ClearFromPeer_owed(5) [OF cl sup ne, of p] down have False by simp
      then show ?thesis ..
    next
      assume so: "SettleOwed c t (hubAID h) peer k (Some rec) (hs_ledger s) = Inr (hs_ledger s')"
      from so SettleOwed_owed(3) [OF so ne] show ?thesis unfolding discharges_now_def by blast
    qed
  qed
qed

text \<open>A run of the hub from a reachable state takes good steps only.\<close>

lemma run_good:
  assumes "clock_run (hub_step c lc h) t0 s r" and "hub_inv lc h s" and "build_law lc"
  shows "clock_run (good_step c lc h) t0 s r"
  using assms
proof (induction r arbitrary: t0 s)
  case (Cons x r)
  obtain t s' where x: "x = (t, s')" by force
  with Cons.prems have st: "hub_step c lc h t s s'" and le: "t0 \<le> t"
    and rest: "clock_run (hub_step c lc h) t s' r" by (simp_all add: x)
  note inv = hub_step_inv [OF st Cons.prems(2,3)]
  from Cons.IH [OF rest inv Cons.prems(3)] st le Cons.prems show ?case by (simp add: x good_step_def)
qed simp

lemma run_and: "P \<Longrightarrow> clock_run step t0 s r \<Longrightarrow> clock_run (\<lambda>t s s'. P \<and> step t s s') t0 s r"
  by (induction r arbitrary: t0 s) auto

lemma clock_run_mono: "clock_run P t0 s r \<Longrightarrow> (\<And>t s s'. P t s s' \<Longrightarrow> Q t s s') \<Longrightarrow> clock_run Q t0 s r"
  by (induction r arbitrary: t0 s) auto

lemma good_step_guard:
  assumes "good_step c lc h t s s'" and "map_of (guards (hs_ledger s)) g = Some u" and "unix_milli t < u"
  shows "map_of (guards (hs_ledger s')) g = Some u"
proof -
  have st: "hub_step c lc h t s s'" and inv: "hub_inv lc h s" and law: "build_law lc"
    using assms by (auto simp: good_step_def)
  have tabs: "tables_ok (hs_ledger s)" using inv by (simp add: hub_inv_def)
  show ?thesis
  proof (rule hub_step_ledger [OF st inv law])
    assume "ledger_moves c h (hs_kels s) t (hs_ledger s) (hs_ledger s')"
    then show ?thesis using tabs assms(2,3) by (rule moves_guard)
  qed (use assms(2) in simp)
qed

end
