(* ===== verification/Demo.thy ===== *)
theory Demo
  imports Replay_Guards
begin

text \<open>
  One concrete instance of every parameter, small enough to compute with: a core whose signatures
  are the byte strings themselves, a sum tree that is its list of leaves, a hub with two agents.
  It shows that what the properties assume of ANetCore can hold, and the properties are applied
  to it.
\<close>

section \<open>A core\<close>

definition demo_auth :: authorization where
  "demo_auth = \<lparr>Payer = ''alice'', PayTo = ''bob'', Amount = 5, Network = ''hub:H'',
     InteractionID = ''t1'', IssuedAt = 1000, NotAfter = 301000,
     AEnvelope = Some \<lparr>SignerAID = ''alice'', KeyStateSeq = 0, Sig = [1]\<rparr>\<rparr>"

definition demo_redeem_auth :: authorization where
  "demo_redeem_auth = demo_auth\<lparr>PayTo := ''H'', InteractionID := ''redeem:r''\<rparr>"

text \<open>A payment on the ledger of the peer hub \<open>P\<close>, and the receipt that hub signed for it.\<close>

definition demo_peer_auth :: authorization where
  "demo_peer_auth = demo_auth\<lparr>Payer := ''carol'', Network := ''hub:P''\<rparr>"

text \<open>A second payment for the same task.\<close>

definition demo_second :: authorization where
  "demo_second = demo_auth\<lparr>Amount := 6\<rparr>"

definition demo_receipt :: receipt where
  "demo_receipt = \<lparr>RAuthID = ''auth3'', RPayer = ''carol'', RPayTo = ''bob'', RAmount = 5, RNetwork = ''hub:P'',
     RSettleAt = 2000, REnvelope = Some \<lparr>SignerAID = ''P'', KeyStateSeq = 0, Sig = [1]\<rparr>\<rparr>"

text \<open>A decimal number, as \<open>payment.ParseAmount\<close> reads one.\<close>

definition demo_digits :: "string \<Rightarrow> nat option" where
  "demo_digits s = (if s = [] \<or> \<not> list_all (\<lambda>ch. 48 \<le> (of_char ch :: nat) \<and> (of_char ch :: nat) \<le> 57) s then None
     else Some (foldl (\<lambda>n ch. 10 * n + (of_char ch - 48)) 0 s))"

definition demo_kel :: kel where
  "demo_kel = [\<lparr>EvType = Inception, EvKeys = [replicate 32 7], EvSeq = 0, EvWitnesses = [], EvEventID = ''e0''\<rparr>]"

definition demo_core :: core where
  "demo_core = \<lparr>MaxAuthWindow = 24 * hour_ns, MaxSkewMillis = 120000, SchemeCredit = ''anet-credit'',
     CreditNetwork = (\<lambda>a. ''hub:'' @ a), ParseAmount = (\<lambda>s. map_option word_of_nat (demo_digits s)),
     UnmarshalAuthorization = (\<lambda>b. if b = [1] then Some demo_auth else if b = [2] then Some demo_redeem_auth
       else if b = [3] then Some demo_peer_auth else if b = [4] then Some demo_second else None),
     AuthID = (\<lambda>a. if a = demo_auth then Some ''auth1'' else if a = demo_redeem_auth then Some ''auth2''
       else if a = demo_peer_auth then Some ''auth3'' else if a = demo_second then Some ''auth4'' else None),
     AuthVerify = (\<lambda>a k t. if t > NotAfter a then Some VErrExpired else None),
     AuthPreimage = (\<lambda>a. Some [0]), EnvelopeValid = (\<lambda>e. True), Ed25519Verify = (\<lambda>key pre sg. True),
     UnmarshalKEL = (\<lambda>b. Some demo_kel),
     Replay = (\<lambda>k. Some [\<lparr>StKeyStateSeq = 0, StStatus = StatusActive, StAID = ''alice'', StToad = 1,
       StWitness = ''H'', StLastEventID = ''e0''\<rparr>]),
     SettleGuard = (\<lambda>p b. Some [9]), SignReceipt = (\<lambda>r. Some [7]),
     UnmarshalReceipt = (\<lambda>b. if b = [7] then Some demo_receipt else None), ReceiptVerify = (\<lambda>r k a t. True)\<rparr>"

definition demo_hub :: hub_conf where
  "demo_hub = \<lparr>hubAID = ''H'', hasHubKey = True\<rparr>"

definition demo_kels :: "(aid, bytes) table" where
  "demo_kels = [(''alice'', [1]), (''bob'', [2])]"

definition demo_payload :: payment_payload where
  "demo_payload = \<lparr>AcceptedScheme = ''anet-credit'', AcceptedNetwork = ''hub:H'', AcceptedPayTo = ''bob'',
     AcceptedAmount = ''5'', Payload = [(''authorization'', AnyString ''AQ=='')]\<rparr>"

definition demo_second_payload :: payment_payload where
  "demo_second_payload = demo_payload\<lparr>AcceptedAmount := ''6'', Payload := [(''authorization'', AnyString ''BA=='')]\<rparr>"

definition demo_requirements :: requirements where
  "demo_requirements = \<lparr>ReqScheme = ''anet-credit'', ReqNetwork = ''hub:H'', ReqPayTo = ''bob'', ReqAmount = ''5''\<rparr>"

definition demo_time :: time_ns where
  "demo_time = 2000 * ms_ns"

section \<open>A tree\<close>

definition demo_liab :: liab_core where
  "demo_liab = \<lparr>SaltSize = 0,
     BuildTree = (\<lambda>rows d. Some \<lparr>t_root = [], t_outstanding = word_of_int (sum_list (map (\<lambda>(_, b). uint b) rows)),
        t_depth = 0, t_entries = map (\<lambda>(a, b). \<lparr>en_aid = a, en_balance = b, en_salt = []\<rparr>) rows, t_proofs = []\<rparr>),
     RebuildTree = (\<lambda>d es. Some \<lparr>t_root = [], t_outstanding = word_of_int (sum_list (map (\<lambda>e. uint (en_balance e)) es)),
        t_depth = 0, t_entries = es, t_proofs = map (\<lambda>e. (en_aid e, ''path'')) es\<rparr>),
     HexRoot = (\<lambda>b. ''00''), GenesisPrev = ''genesis'',
     EpochRecord = (\<lambda>a f t r out d sq prev at. Some ([char_of (nat (sq mod 128))], [])),
     RecordTimestamp = (\<lambda>b. Some 1728000000)\<rparr>"

lemma demo_build_law: "build_law demo_liab"
proof -
  have "uint (word_of_int (sum_list (map (\<lambda>(_, b). uint b) rows)) :: u64) = sum_list (map (\<lambda>(_, b). uint b) rows)"
    if "sum_list (map (\<lambda>(_, b). uint b) rows) \<le> max_int64" for rows :: "(aid \<times> u64) list"
    by (rule uint_of_int64) (use that in \<open>auto intro: sum_list_nonneg\<close>)
  then show ?thesis by (simp add: build_law_def demo_liab_def)
qed


lemma demo_auth_law: "auth_law demo_core ''auth1'' 301000"
  by (auto simp: auth_law_def demo_core_def demo_auth_def demo_redeem_auth_def demo_peer_auth_def demo_second_def split: if_splits)

section \<open>A ledger\<close>

text \<open>Alice holds 100 credits.\<close>

definition demo_ledger :: ledger where
  "demo_ledger = empty_ledger\<lparr>balances := [(''H'', - 100), (''alice'', 100)],
     entries := [\<lparr>e_seq = 1, e_aid = ''H'', e_delta = - 100, e_reason = ''issued:g'', e_at = 0\<rparr>,
                 \<lparr>e_seq = 2, e_aid = ''alice'', e_delta = 100, e_reason = ''g'', e_at = 0\<rparr>],
     entry_seq := 2, issued := 100, events_since := 1, last_to_day := Some (- 1)\<rparr>"

lemma demo_grant: "GrantCredit demo_hub 0 ''alice'' 100 ''g'' empty_ledger = Inr demo_ledger"
  by (simp add: GrantCredit_def issueTx_def creditTx_def issuanceRoom_def issuedTotal_def addToRow_def
      supplyEventTx_def add_entry_def empty_ledger_def demo_ledger_def demo_hub_def Let_def wrap64_def
      max_int64_def min_int64_def utcDay_def unix_milli_def go_div_def ledgerStamp_def reasonIssued_def
      time_defs row_or_def)

lemma demo_supply_ok: "supply_ok demo_hub demo_ledger"
  by (rule GrantCredit_supply_ok [OF demo_grant])
     (simp_all add: demo_hub_def max_int64_def supply_ok_empty)

lemma demo_not_registered: "\<not> registered demo_kels (hubAID demo_hub)"
  by (simp add: registered_def has_key_def demo_kels_def demo_hub_def)

text \<open>The settlement of alice's payment to bob.\<close>

lemmas demo_defs = demo_core_def demo_hub_def demo_kels_def demo_payload_def demo_requirements_def
  demo_auth_def demo_redeem_auth_def demo_peer_auth_def demo_second_def demo_receipt_def demo_ledger_def demo_kel_def demo_time_def demo_digits_def empty_ledger_def

lemma demo_settle:
  "snd (SettleWithRequirements demo_core demo_hub None demo_kels ''H'' demo_time (Some demo_payload)
     (Some demo_requirements) demo_ledger) =
   \<lparr>Success = True, ErrorReason = None, SPayer = ''alice'', STransaction = ''auth1'', SNetwork = ''hub:H'',
    SAmount = 5, ExtReceipt = Some ''Bw=='', ExtReplayed = False, ExtOriginal = None\<rparr>"
  by code_simp

lemma demo_own: "on_own_network demo_core (hubAID demo_hub) (Some demo_payload)"
  by (auto simp: on_own_network_def demo_payload_def demo_core_def demo_hub_def)

abbreviation demo_run :: "ledger \<times> settlement_response" where
  "demo_run \<equiv> SettleWithRequirements demo_core demo_hub None demo_kels (hubAID demo_hub) demo_time (Some demo_payload)
     (Some demo_requirements) demo_ledger"

lemma demo_run_out: "Success (snd demo_run) \<and> \<not> ExtReplayed (snd demo_run) \<and> STransaction (snd demo_run) = ''auth1''"
  using demo_settle by (simp add: demo_hub_def)

lemma demo_run_entries:
  "map (\<lambda>e. (e_seq e, e_aid e, e_delta e, e_reason e)) (entries (fst demo_run)) =
    [(1, ''H'', - 100, ''issued:g''), (2, ''alice'', 100, ''g''), (3, ''alice'', - 5, ''auth1''), (4, ''bob'', 5, ''auth1'')]"
proof -
  have "map (\<lambda>e. (e_seq e, e_aid e, e_delta e, e_reason e)) (entries (fst (SettleWithRequirements demo_core demo_hub None
      demo_kels ''H'' demo_time (Some demo_payload) (Some demo_requirements) demo_ledger))) =
    [(1, ''H'', - 100, ''issued:g''), (2, ''alice'', 100, ''g''), (3, ''alice'', - 5, ''auth1''), (4, ''bob'', 5, ''auth1'')]"
    by code_simp
  then show ?thesis by (simp add: demo_hub_def)
qed

section \<open>A run of the hub\<close>

text \<open>Alice and bob are registered, alice is granted credit.\<close>

definition demo_base :: hub_state where
  "demo_base = start_state\<lparr>hs_kels := demo_kels, hs_ledger := demo_ledger\<rparr>"

lemma demo_base_reachable: "reachable demo_core demo_liab demo_hub demo_base"
proof -
  let ?s1 = "start_state\<lparr>hs_kels := AList.update ''alice'' [1] (hs_kels start_state)\<rparr>"
  let ?s2 = "?s1\<lparr>hs_kels := AList.update ''bob'' [2] (hs_kels ?s1)\<rparr>"
  have "reachable demo_core demo_liab demo_hub ?s1"
    by (rule reach_step [OF reach_start step_register [where now = 0]]) (simp_all add: demo_hub_def)
  then have "reachable demo_core demo_liab demo_hub ?s2"
    by (rule reach_step [OF _ step_register [where now = 0]]) (simp_all add: demo_hub_def)
  moreover have "hub_step demo_core demo_liab demo_hub 0 ?s2 (?s2\<lparr>hs_ledger := demo_ledger\<rparr>)"
    by (rule step_grant [where a = "''alice''" and amt = 100 and reason = "''g''"])
       (use demo_grant in \<open>simp_all add: demo_hub_def start_state_def max_int64_def\<close>)
  moreover have "?s2\<lparr>hs_ledger := demo_ledger\<rparr> = demo_base"
    by (simp add: demo_base_def start_state_def demo_kels_def)
  ultimately show ?thesis using reach_step by metis
qed

lemma demo_base_sel [simp]: "hs_kels demo_base = demo_kels" "hs_ledger demo_base = demo_ledger"
  by (simp_all add: demo_base_def)

text \<open>Then alice's payment to bob is settled, and settled again a minute later.\<close>

definition demo_settled :: hub_state where
  "demo_settled = demo_base\<lparr>hs_ledger := fst demo_run\<rparr>"

lemma demo_settle_step: "hub_step demo_core demo_liab demo_hub demo_time demo_base demo_settled"
  unfolding demo_settled_def
  by (rule step_settle [where w = None and p = "Some demo_payload" and req = "Some demo_requirements"
        and out = "snd demo_run"]) simp

lemma demo_settled_row: "authSettled ''auth1'' (hs_ledger demo_settled) \<and> \<not> authSettled ''auth1'' (hs_ledger demo_base)"
proof -
  have "has_key (settled (fst (SettleWithRequirements demo_core demo_hub None demo_kels ''H'' demo_time
     (Some demo_payload) (Some demo_requirements) demo_ledger))) ''auth1'' \<and> settled demo_ledger = []"
    by code_simp
  then show ?thesis by (simp add: authSettled_def demo_settled_def demo_hub_def has_key_def)
qed

definition demo_retry :: "ledger \<times> settlement_response" where
  "demo_retry = SettleWithRequirements demo_core demo_hub None demo_kels (hubAID demo_hub) (demo_time + 60 * second_ns)
     (Some demo_payload) (Some demo_requirements) (fst demo_run)"

lemma demo_retry_balance: "map_of (balances (fst demo_retry)) ''alice'' = Some 95"
  unfolding demo_retry_def by code_simp

definition demo_steps :: "(time_ns \<times> hub_state) list" where
  "demo_steps = [(demo_time, demo_settled),
     (demo_time + 60 * second_ns, demo_settled\<lparr>hs_ledger := fst demo_retry\<rparr>)]"

lemma demo_steps_run: "clock_run (hub_step demo_core demo_liab demo_hub) 0 demo_base demo_steps"
proof -
  have "hub_step demo_core demo_liab demo_hub (demo_time + 60 * second_ns) demo_settled
      (demo_settled\<lparr>hs_ledger := fst demo_retry\<rparr>)"
    by (rule step_settle [where w = None and p = "Some demo_payload" and req = "Some demo_requirements"
        and out = "snd demo_retry"]) (simp add: demo_retry_def demo_settled_def)
  with demo_settle_step show ?thesis by (simp add: demo_steps_def demo_time_def time_defs)
qed

section \<open>Clearing with a peer\<close>

definition demo_world :: peer_world where
  "demo_world = \<lparr>PeerAIDs = [''P''],
     SettleAtPeer = (\<lambda>a pp rq. Answer \<lparr>Success = True, ErrorReason = None, SPayer = ''carol'',
        STransaction = ''auth3'', SNetwork = ''hub:P'', SAmount = 5, ExtReceipt = Some ''Bw=='',
        ExtReplayed = False, ExtOriginal = None\<rparr>),
     PeerKEL = (\<lambda>a. Some demo_kel), RefreshPeerKEL = None\<rparr>"

definition demo_peer_payload :: payment_payload where
  "demo_peer_payload = demo_payload\<lparr>AcceptedNetwork := ''hub:P'', Payload := [(''authorization'', AnyString ''Aw=='')]\<rparr>"

definition demo_clearing :: "ledger \<times> settlement_response" where
  "demo_clearing = SettleWithRequirements demo_core demo_hub
     (map_option (\<lambda>w. peerSettler demo_core demo_hub w demo_time) (Some demo_world)) demo_kels (hubAID demo_hub) demo_time
     (Some demo_peer_payload) (Some (demo_requirements\<lparr>ReqNetwork := ''hub:P''\<rparr>)) demo_ledger"

definition demo_cleared :: hub_state where
  "demo_cleared = demo_base\<lparr>hs_ledger := fst demo_clearing\<rparr>"

definition demo_discharge :: receipt where
  "demo_discharge = \<lparr>RAuthID = ''st1'', RPayer = ''P'', RPayTo = ''H'', RAmount = 3, RNetwork = ''hub:P'',
     RSettleAt = 2000, REnvelope = None\<rparr>"

definition demo_discharged :: hub_state where
  "demo_discharged = demo_cleared\<lparr>hs_ledger :=
     projr (SettleOwed demo_core demo_time (hubAID demo_hub) ''P'' demo_kel (Some demo_discharge) (hs_ledger demo_cleared))\<rparr>"

definition demo_peer_steps :: "(time_ns \<times> hub_state) list" where
  "demo_peer_steps = [(demo_time, demo_cleared), (demo_time, demo_discharged)]"

lemma demo_clearing_facts:
  "map (\<lambda>(i, r). (i, c_settle_at r)) (cleared (fst demo_clearing)) = [(''auth3'', 2000)] \<and>
   map_of (owed (fst demo_clearing)) ''P'' = Some 5 \<and> map_of (balances (fst demo_clearing)) ''bob'' = Some 5 \<and>
   hub_cleared (fst demo_clearing) = []"
  unfolding demo_clearing_def by code_simp

lemma demo_discharge_facts:
  "\<exists>l. SettleOwed demo_core demo_time (hubAID demo_hub) ''P'' demo_kel (Some demo_discharge) (fst demo_clearing) = Inr l \<and>
     has_key (hub_cleared l) ''st1'' \<and> map_of (owed l) ''P'' = Some 2"
  using demo_clearing_facts
  by (simp add: SettleOwed_def demo_discharge_def demo_hub_def demo_core_def amountInt64_def max_int64_def
      has_key_def row_or_def Let_def map_of_update_eq)

lemma demo_peer_run: "clock_run (hub_step demo_core demo_liab demo_hub) 0 demo_base demo_peer_steps"
proof -
  have "hub_step demo_core demo_liab demo_hub demo_time demo_base demo_cleared"
    unfolding demo_cleared_def
    by (rule step_settle [where w = "Some demo_world" and out = "snd demo_clearing"]) (simp add: demo_clearing_def)
  moreover have "hub_step demo_core demo_liab demo_hub demo_time demo_cleared demo_discharged"
    unfolding demo_discharged_def
    by (rule step_discharged [where peer = "''P''" and k = demo_kel and rec = "Some demo_discharge"])
       (use demo_discharge_facts in \<open>auto simp: demo_cleared_def\<close>)
  ultimately show ?thesis by (simp add: demo_peer_steps_def demo_time_def time_defs)
qed

section \<open>A rotated key\<close>

text \<open>A core that tells key states apart: a history has one key state for each event, and a signature at
  the first of them verifies until 1500 ms once there is a second.\<close>

definition rotated_kel :: kel where
  "rotated_kel = demo_kel @ [\<lparr>EvType = Rotation, EvKeys = [replicate 32 8], EvSeq = 1, EvWitnesses = [], EvEventID = ''e1''\<rparr>]"

definition rotated_core :: core where
  "rotated_core = demo_core\<lparr>UnmarshalKEL := (\<lambda>b. Some (if b = [9] then rotated_kel else demo_kel)),
     Replay := (\<lambda>k. Some (map (\<lambda>e. \<lparr>StKeyStateSeq = EvSeq e, StStatus = StatusActive, StAID = ''alice'', StToad = 1,
       StWitness = ''H'', StLastEventID = EvEventID e\<rparr>) k)),
     AuthVerify := (\<lambda>a k t. if t > NotAfter a then Some VErrExpired
       else if 1 < length k \<and> 1500 < t then Some VErrOther else None)\<rparr>"

text \<open>Alice's payment is verified, her key rotated, the payment settled a second later; and the same without
  the verification.\<close>

definition seen_verify :: "ledger \<times> verify_response" where
  "seen_verify = VerifyWithRequirements rotated_core demo_kels (hubAID demo_hub) demo_time (Some demo_payload)
     (Some demo_requirements) demo_ledger"

definition seen_state :: hub_state where
  "seen_state = demo_base\<lparr>hs_ledger := fst seen_verify\<rparr>"

definition rotated_state :: hub_state where
  "rotated_state = seen_state\<lparr>hs_kels := AList.update ''alice'' [9] (hs_kels seen_state)\<rparr>"

definition rotated_run :: "(time_ns \<times> hub_state) list" where
  "rotated_run =
    (let s1 = start_state\<lparr>hs_kels := AList.update ''alice'' [1] (hs_kels start_state)\<rparr>;
         s2 = s1\<lparr>hs_kels := AList.update ''bob'' [2] (hs_kels s1)\<rparr>
     in [(0, s1), (0, s2), (0, demo_base), (demo_time, seen_state), (demo_time, rotated_state)])"

definition rotated_settle :: "ledger \<times> settlement_response" where
  "rotated_settle = SettleWithRequirements rotated_core demo_hub None (hs_kels rotated_state) (hubAID demo_hub)
     (demo_time + 1000 * ms_ns) (Some demo_payload) (Some demo_requirements) (hs_ledger rotated_state)"

definition unseen_settle :: "ledger \<times> settlement_response" where
  "unseen_settle = SettleWithRequirements rotated_core demo_hub None (hs_kels rotated_state) (hubAID demo_hub)
     (demo_time + 1000 * ms_ns) (Some demo_payload) (Some demo_requirements) demo_ledger"

lemma rotated_run_end: "rotated_state = end_of start_state rotated_run"
  by (simp add: rotated_run_def Let_def)

lemma rotated_run_ok: "clock_run (hub_step rotated_core demo_liab demo_hub) 0 start_state rotated_run"
proof -
  let ?step = "hub_step rotated_core demo_liab demo_hub"
  let ?s1 = "start_state\<lparr>hs_kels := AList.update ''alice'' [1] (hs_kels start_state)\<rparr>"
  let ?s2 = "?s1\<lparr>hs_kels := AList.update ''bob'' [2] (hs_kels ?s1)\<rparr>"
  have "?step 0 start_state ?s1" "?step 0 ?s1 ?s2"
    by (rule step_register; simp add: demo_hub_def)+
  moreover have "?step 0 ?s2 (?s2\<lparr>hs_ledger := demo_ledger\<rparr>)"
    by (rule step_grant [where a = "''alice''" and amt = 100 and reason = "''g''"])
       (use demo_grant in \<open>simp_all add: demo_hub_def start_state_def max_int64_def\<close>)
  moreover have "?s2\<lparr>hs_ledger := demo_ledger\<rparr> = demo_base"
    by (simp add: demo_base_def start_state_def demo_kels_def)
  moreover have "?step demo_time demo_base seen_state"
    unfolding seen_state_def
    by (rule step_verify [where p = "Some demo_payload" and req = "Some demo_requirements" and v = "snd seen_verify"])
       (simp add: seen_verify_def)
  moreover have "?step demo_time seen_state rotated_state"
    unfolding rotated_state_def by (rule step_register) (simp_all add: demo_hub_def)
  ultimately show ?thesis by (simp add: rotated_run_def Let_def demo_time_def ms_ns_def)
qed

lemma rotated_settled: "Success (snd rotated_settle) \<and> \<not> ExtReplayed (snd rotated_settle)"
  by code_simp

lemma unseen_refused: "\<not> Success (snd unseen_settle)"
  by code_simp

lemma rotated_facts:
  "AuthVerify rotated_core demo_auth rotated_kel 3000 = Some VErrOther"
  "AuthID rotated_core demo_auth = Some ''auth1''" "Payer demo_auth = ''alice''"
  "AgentKEL_of (hs_kels rotated_state) ''alice'' = Some [9]" "UnmarshalKEL rotated_core [9] = Some rotated_kel"
  "map_option KeyStateSeq (AEnvelope demo_auth) = Some 0" "unix_milli (demo_time + 1000 * ms_ns) = 3000"
  by (simp_all add: rotated_core_def rotated_kel_def demo_core_def demo_auth_def demo_kel_def rotated_state_def seen_state_def
      demo_base_def demo_kels_def AgentKEL_of_def demo_time_def ms_ns_def unix_milli_def go_div_def)

end
