(* ===== verification/Ledger_Properties.thy ===== *)
theory Ledger_Properties
  imports Demo
begin

text \<open>
  The properties of the credit ledger. Each is stated over the definitions of the components and
  proved from their lemmas; the theorem after it applies it to the instance of \<open>Demo\<close>.
\<close>

section \<open>The supply\<close>

lemma sql_sum_ok:
  "\<forall>x \<in> set xs. 0 \<le> x \<Longrightarrow> 0 \<le> acc \<Longrightarrow> acc + sum_list xs \<le> max_int64 \<Longrightarrow> sql_sum acc xs = Some (acc + sum_list xs)"
proof (induction xs arbitrary: acc)
  case (Cons x xs)
  then have "0 \<le> sum_list xs" by (auto intro: sum_list_nonneg)
  with Cons show ?case by (auto simp: in_int64_def min_int64_max algebra_simps)
qed simp

lemma row_nonneg_list: "keys_ok t \<Longrightarrow> (\<And>k. P k \<Longrightarrow> 0 \<le> row_or t k 0) \<Longrightarrow>
    \<forall>x \<in> set (map snd (filter (\<lambda>(k, v). P k) t)). 0 \<le> (x :: int)"
  using in_set_row_or by (fastforce simp: image_iff)

lemma claims_sum: "claims_ok t n \<Longrightarrow> n \<le> max_int64 \<Longrightarrow> \<exists>s. sql_sum 0 (map snd t) = Some s"
  using sql_sum_ok [of "map snd t" 0] row_nonneg_list [of t "\<lambda>_. True"]
  by (auto simp: claims_ok_def col_sum_def)

lemma Supply_consistent:
  assumes "supply_ok h l"
  shows "\<exists>v. Supply lc (hubAID h) l ep = Inr v \<and> Consistent v \<and> sv_outstanding v = issued l - redeemed l"
proof -
  note S = supply_okD [OF assms]
  note B = books_okD [OF S(2)]
  let ?rows = "map snd (filter (\<lambda>(a, _). a \<noteq> hubAID h) (balances l))"
  have sum: "sum_list ?rows = issued l - redeemed l"
    using B(8) by (simp add: sum_except_def col_sum_def)
  have "sql_sum 0 ?rows = Some (0 + sum_list ?rows)"
    using row_nonneg_list [OF B(1), of "\<lambda>a. a \<noteq> hubAID h"] B(2,5-7) sum by (intro sql_sum_ok) auto
  moreover obtain ow where "sql_sum 0 (map snd (owed l)) = Some ow"
    using claims_sum [OF S(3)] B(7) by blast
  moreover obtain du where "sql_sum 0 (map snd (due l)) = Some du"
    using claims_sum [OF S(4)] B(5,7) by force
  ultimately show ?thesis using sum B(4) by (simp add: Supply_def Consistent_def)
qed

text \<open>C1: In every state the hub can reach, by any sequence of registrations, grants, settlements,
  verifications, redemptions, clearings, discharges, deletions and publications at any times, the
  operator's view of the supply is answered and consistent (P-PAY-3: the accounts add up to issued
  minus redeemed, and the hub's own row is the negative of it), and no account is negative.\<close>

theorem reachable_supply_consistent:
  assumes "reachable c lc h s" and "hubAID h \<noteq> []" and "build_law lc"
  shows "(\<exists>v. Supply lc (hubAID h) (hs_ledger s) (hs_epochs s) = Inr v \<and> Consistent v) \<and>
    (\<forall>a. a \<noteq> hubAID h \<longrightarrow> 0 \<le> Balance (hs_ledger s) a)"
proof -
  have sup: "supply_ok h (hs_ledger s)" using reachable_inv [OF assms] by (simp add: hub_inv_def)
  then show ?thesis
    using Supply_consistent [OF sup] books_okD(2) [OF supply_okD(2) [OF sup]] unfolding Balance_def by blast
qed

definition demo_state :: hub_state where
  "demo_state = start_state\<lparr>hs_ledger := demo_ledger\<rparr>"

lemma demo_reachable: "reachable demo_core demo_liab demo_hub demo_state"
proof -
  have "hub_step demo_core demo_liab demo_hub 0 start_state (start_state\<lparr>hs_ledger := demo_ledger\<rparr>)"
    by (rule step_grant [where a = "''alice''" and amt = 100 and reason = "''g''"])
       (use demo_grant in \<open>simp_all add: demo_hub_def start_state_def max_int64_def\<close>)
  then show ?thesis unfolding demo_state_def by (rule reach_step [OF reach_start])
qed

theorem reachable_supply_consistent_witness:
  "(\<exists>v. Supply demo_liab ''H'' demo_ledger (hs_epochs demo_state) = Inr v \<and> Consistent v) \<and>
    0 \<le> Balance demo_ledger ''alice''"
  using reachable_supply_consistent [OF demo_reachable _ demo_build_law]
  by (simp add: demo_hub_def demo_state_def)

text \<open>C9: A supply epoch is never refused because the ledger does not add up: whatever operations came
  before, \<open>publishDueAt\<close> does not answer \<open>ErrSupplyMismatch\<close>, and an epoch it publishes states as
  outstanding exactly what was issued less what was redeemed.\<close>

theorem reachable_publishes:
  assumes "reachable c lc h s" and "hubAID h \<noteq> []" and "build_law lc"
  shows "publishDueAt lc h (hs_kels s) now (hs_ledger s) (hs_epochs s) \<noteq> Inl ErrSupplyMismatch \<and>
    (\<forall>l' ep' e. publishDueAt lc h (hs_kels s) now (hs_ledger s) (hs_epochs s) = Inr (l', ep', Some e) \<longrightarrow>
       uint (ep_outstanding e) = issued (hs_ledger s) - redeemed (hs_ledger s) \<and>
       ep_to_day e = utcDay now - 1)"
proof -
  have inv: "hub_inv lc h s" using reachable_inv [OF assms] .
  then have sup: "supply_ok h (hs_ledger s)" and names: "names_ok (hs_kels s) (hs_ledger s)"
    by (auto simp: hub_inv_def)
  have "publishDueAt lc h (hs_kels s) now (hs_ledger s) (hs_epochs s) \<noteq> Inl ErrSupplyMismatch"
    using closeEpochTx_adds_up(1) [OF sup assms(3) names]
    by (auto simp: publishDueAt_def Let_def rbind_eq_Inl split: option.splits if_splits)
  then show ?thesis
    using publishDueAt_Inr [OF _ sup assms(3) names] closeEpochTx_adds_up(2) [OF sup assms(3) names] by blast
qed

theorem reachable_publishes_witness:
  "publishDueAt demo_liab demo_hub [] (8 * day_ns) demo_ledger (hs_epochs demo_state) \<noteq> Inl ErrSupplyMismatch \<and>
   (\<exists>l' ep' e. publishDueAt demo_liab demo_hub [] (8 * day_ns) demo_ledger (hs_epochs demo_state) = Inr (l', ep', Some e) \<and>
      ep_outstanding e = 100)"
proof -
  have "publishDueAt demo_liab demo_hub [] (8 * day_ns) demo_ledger (hs_epochs demo_state) \<noteq> Inl ErrSupplyMismatch"
    using reachable_publishes [OF demo_reachable _ demo_build_law, of "8 * day_ns"]
    by (simp add: demo_hub_def demo_state_def start_state_def)
  moreover have "map_option (\<lambda>e. ep_outstanding e)
      (case publishDueAt demo_liab demo_hub [] (8 * day_ns) demo_ledger (hs_epochs demo_state) of
         Inr (l', ep', r) \<Rightarrow> r | Inl _ \<Rightarrow> None) = Some 100"
    by code_simp
  ultimately show ?thesis by (auto split: sum.splits)
qed

text \<open>C10: The published epochs form one unbroken record: their sequence numbers count from 0, each names
  the id of the one before it, and the days they cover, put one after the other, are exactly the
  days from the first epoch's first day to the last epoch's last day.\<close>

theorem reachable_epochs_unbroken:
  assumes "reachable c lc h s" and "hubAID h \<noteq> []" and "build_law lc"
    and "chain (hs_epochs s) \<noteq> []"
  shows "let es = chain (hs_epochs s) in
    map ep_seq es = map int [0..<length es] \<and>
    map ep_prev_id es = GenesisPrev lc # map ep_id (butlast es) \<and>
    concat (map (\<lambda>e. [ep_from_day e..ep_to_day e]) es) = [ep_from_day (hd es)..ep_to_day (last es)]"
proof -
  let ?es = "chain (hs_epochs s)"
  have ln: "linked (GenesisPrev lc) 0 None ?es"
    using reachable_inv [OF assms(1-3)] by (simp add: hub_inv_def epochs_ok_def)
  obtain e es where es: "?es = e # es" using assms(4) by (cases ?es) auto
  have "map ep_seq ?es = map int [0..<length ?es]" using linked_seqs [OF ln] by simp
  moreover have "map ep_prev_id ?es = GenesisPrev lc # map ep_id (butlast ?es)"
    using linked_prevs [OF ln assms(4)] .
  moreover have "linked (GenesisPrev lc) 0 (Some (ep_from_day e)) ?es" using ln by (simp add: es)
  from linked_days [OF this assms(4)]
  have "concat (map (\<lambda>e. [ep_from_day e..ep_to_day e]) ?es) = [ep_from_day (hd ?es)..ep_to_day (last ?es)]"
    by (simp add: es)
  ultimately show ?thesis by (simp only: Let_def)
qed

text \<open>The state after the first publication.\<close>

definition demo_published :: hub_state where
  "demo_published = (case publishDueAt demo_liab demo_hub [] (8 * day_ns) demo_ledger (hs_epochs demo_state) of
     Inl e \<Rightarrow> demo_state | Inr (l', ep', r) \<Rightarrow> demo_state\<lparr>hs_ledger := l', hs_epochs := ep'\<rparr>)"

lemma demo_published_reachable: "reachable demo_core demo_liab demo_hub demo_published"
proof (cases "publishDueAt demo_liab demo_hub [] (8 * day_ns) demo_ledger (hs_epochs demo_state)")
  case (Inl e)
  then show ?thesis using demo_reachable by (simp add: demo_published_def)
next
  case (Inr r)
  obtain l' ep' x where "r = (l', ep', x)" by (cases r) auto
  with Inr have pub: "publishDueAt demo_liab demo_hub (hs_kels demo_state) (8 * day_ns) (hs_ledger demo_state)
      (hs_epochs demo_state) = Inr (l', ep', x)"
    and eq: "demo_published = demo_state\<lparr>hs_ledger := l', hs_epochs := ep'\<rparr>"
    by (simp_all add: demo_published_def demo_state_def start_state_def)
  show ?thesis unfolding eq by (rule reach_step [OF demo_reachable step_publish [OF pub]])
qed

lemma demo_published_chain:
  "map (\<lambda>e. (ep_seq e, ep_from_day e, ep_to_day e)) (chain (hs_epochs demo_published)) = [(0, 0, 7)]"
  by code_simp

theorem reachable_epochs_unbroken_witness:
  "concat (map (\<lambda>e. [ep_from_day e..ep_to_day e]) (chain (hs_epochs demo_published))) = [0..7]"
proof -
  have ne: "chain (hs_epochs demo_published) \<noteq> []" using demo_published_chain by auto
  obtain e where e: "chain (hs_epochs demo_published) = [e]" "ep_from_day e = 0" "ep_to_day e = 7"
    using demo_published_chain by auto
  show ?thesis
    using reachable_epochs_unbroken [OF demo_published_reachable _ demo_build_law ne] e
    by (simp add: demo_hub_def Let_def)
qed

section \<open>Settlement\<close>

text \<open>C3: A successful first settlement at \<open>/x402/settle\<close> of a payment on this hub's ledger moves exactly
  the amount the payer signed, from the payer to the payee the requirements name: the authorization
  was signed by a registered payer, meets the required terms, had not settled before, was covered by
  the payer's balance; no other balance and no supply total changes, and the two ledger entries name
  the authorization.\<close>

theorem settle_moves_exactly:
  assumes "SettleWithRequirements c h ps kels (hubAID h) now p req l = (l', out)"
    and "on_own_network c (hubAID h) p"
    and "Success out" and "\<not> ExtReplayed out"
    and "supply_ok h l" and "\<not> registered kels (hubAID h)"
  shows "\<exists>auth i k rq want. verifiedAuth c kels (hubAID h) p = Inr (auth, i, k) \<and> req = Some rq \<and>
    PayTo auth = ReqPayTo rq \<and> registered kels (PayTo auth) \<and> registered kels (Payer auth) \<and>
    ParseAmount c (ReqAmount rq) = Some want \<and> 1 \<le> uint want \<and> uint want \<le> uint (Amount auth) \<and>
    \<not> authSettled i l \<and> authSettled i l' \<and> uint (Amount auth) \<le> Balance l (Payer auth) \<and>
    (\<forall>a. Balance l' a = Balance l a - (if a = Payer auth then uint (Amount auth) else 0)
                                   + (if a = PayTo auth then uint (Amount auth) else 0)) \<and>
    issued l' = issued l \<and> redeemed l' = redeemed l \<and> owed l' = owed l \<and> due l' = due l \<and>
    map (\<lambda>e. (e_aid e, e_delta e, e_reason e)) (entries l') =
      map (\<lambda>e. (e_aid e, e_delta e, e_reason e)) (entries l)
        @ [(Payer auth, - uint (Amount auth), i), (PayTo auth, uint (Amount auth), i)] \<and>
    SPayer out = Payer auth \<and> STransaction out = i \<and> SAmount out = Amount auth"
proof -
  from SettleWithRequirements_own [OF assms(1,2)] assms(3) obtain rq where rq: "req = Some rq"
    and here: "registered kels (ReqPayTo rq)" "hubAID h \<noteq> [] \<longrightarrow> ReqPayTo rq \<noteq> hubAID h"
    and run: "settleHere c h kels (hubAID h) now p req [] l = (l', out)" by blast
  show ?thesis
  proof (rule settleHere_success [OF run assms(3-5) refl assms(6)])
    fix auth i k amt guard rec
    assume va: "verifiedAuth c kels (hubAID h) p = Inr (auth, i, k)"
      and cr: "CheckRequirements c p (Some auth) req = None"
      and amt: "amountInt64 (Amount auth) = Some amt"
      and fresh: "\<not> has_key (settled l) i" and le: "amt \<le> Balance l (Payer auth)"
      and bal: "\<forall>a. Balance l' a = Balance l a - (if a = Payer auth then amt else 0)
                               + (if a = credited_row (hubAID h) [] auth then amt else 0)"
      and iss: "issued l' = issued l" and ow: "owed l' = owed l"
      and red: "redeemed l' = redeemed l + (if credited_row (hubAID h) [] auth = hubAID h then amt else 0)"
      and du: "due l' = (if [] \<noteq> ([] :: string) then AList.update [] (row_or (due l) [] 0 + amt) (due l) else due l)"
      and st: "settled l' = AList.update i (row_of auth now amt rec guard []) (settled l)"
      and en: "map (\<lambda>e. (e_aid e, e_delta e, e_reason e)) (entries l') =
         map (\<lambda>e. (e_aid e, e_delta e, e_reason e)) (entries l)
           @ [(Payer auth, - amt, i), (credited_row (hubAID h) [] auth, amt, i)]"
      and out: "out = settled_answer auth i rec"
    obtain pp where pp: "p = Some pp" using verifiedAuth_Inr(7) [OF va] by blast
    note C = CheckRequirements_None [OF cr [unfolded rq pp]]
    have a: "amt = uint (Amount auth)" using amt by (simp add: amountInt64_Some)
    obtain want w a' where W: "ParseAmount c (ReqAmount rq) = Some want" "amountInt64 want = Some w"
      "amountInt64 (Amount auth) = Some a'" "w \<le> a'" using C(10) by blast
    have "1 \<le> uint want \<and> uint want \<le> uint (Amount auth)"
      using W by (auto simp: amountInt64_Some)
    moreover have "PayTo auth \<noteq> hubAID h" using here C(1) assms(6) by auto
    moreover have "credited_row (hubAID h) [] auth = PayTo auth" by (simp add: credited_row_def)
    ultimately show ?thesis
      using va rq C(1) here(1) verifiedAuth_Inr(1) [OF va] W(1) fresh le bal iss ow red du st en out a
      by (intro exI [of _ auth] exI [of _ i] exI [of _ k] exI [of _ rq] exI [of _ want])
         (simp add: authSettled_def has_key_update settled_answer_def)
  qed
qed

theorem settle_moves_exactly_witness:
  "Balance (fst demo_run) ''alice'' = 95 \<and> Balance (fst demo_run) ''bob'' = 5"
proof -
  obtain l' out where run: "demo_run = (l', out)" by force
  have "Success out" "\<not> ExtReplayed out" using demo_run_out run by simp_all
  from settle_moves_exactly [OF run demo_own this demo_supply_ok demo_not_registered]
  obtain auth i k where va: "verifiedAuth demo_core demo_kels (hubAID demo_hub) (Some demo_payload) = Inr (auth, i, k)"
    and b: "\<forall>a. Balance l' a = Balance demo_ledger a - (if a = Payer auth then uint (Amount auth) else 0)
                                   + (if a = PayTo auth then uint (Amount auth) else 0)" by auto
  have "verifiedAuth demo_core demo_kels ''H'' (Some demo_payload) = Inr (demo_auth, ''auth1'', demo_kel)"
    by code_simp
  then have "auth = demo_auth" using va by (simp add: demo_hub_def)
  moreover have "Balance demo_ledger ''alice'' = 100 \<and> Balance demo_ledger ''bob'' = 0" by code_simp
  ultimately show ?thesis using b run by (simp add: demo_auth_def)
qed

text \<open>C11: A settlement that is not a first success moves nothing: whatever the refusal, and for a repeat,
  the ledger of a payment on this hub's network is the one before the request, but for the record of
  the first verification.\<close>

theorem refused_settlement_moves_nothing:
  assumes "SettleWithRequirements c h ps kels (hubAID h) now p req l = (l', out)"
    and "on_own_network c (hubAID h) p"
    and "\<not> Success out \<or> ExtReplayed out"
    and "supply_ok h l" and "\<not> registered kels (hubAID h)"
  shows "l' = l\<lparr>first_verifies := first_verifies l'\<rparr>"
  using SettleWithRequirements_own [OF assms(1,2)]
proof (elim disjE exE conjE)
  assume "l' = l"
  then show ?thesis by simp
next
  fix rq
  assume "settleHere c h kels (hubAID h) now p req [] l = (l', out)"
  from settleHere_effect [OF this assms(4) refl assms(5)] assms(3)
  have "only_first_verifies l l'" by (auto simp: settled_answer_def)
  then show ?thesis by (simp add: only_first_verifies_def)
qed

theorem refused_settlement_moves_nothing_witness:
  "snd (SettleWithRequirements demo_core demo_hub None demo_kels (hubAID demo_hub) demo_time (Some demo_payload)
     (Some (demo_requirements\<lparr>ReqAmount := ''6''\<rparr>)) demo_ledger) =
     refusedSettlement demo_core (Refused ReasonInvalidAmount) (Some demo_auth) ''hub:H'' \<and>
   balances (fst (SettleWithRequirements demo_core demo_hub None demo_kels (hubAID demo_hub) demo_time (Some demo_payload)
     (Some (demo_requirements\<lparr>ReqAmount := ''6''\<rparr>)) demo_ledger)) = balances demo_ledger"
proof -
  obtain l' out where run: "SettleWithRequirements demo_core demo_hub None demo_kels (hubAID demo_hub) demo_time
      (Some demo_payload) (Some (demo_requirements\<lparr>ReqAmount := ''6''\<rparr>)) demo_ledger = (l', out)" by force
  have "snd (SettleWithRequirements demo_core demo_hub None demo_kels ''H'' demo_time (Some demo_payload)
     (Some (demo_requirements\<lparr>ReqAmount := ''6''\<rparr>)) demo_ledger) =
     refusedSettlement demo_core (Refused ReasonInvalidAmount) (Some demo_auth) ''hub:H''"
    by code_simp
  then have out: "out = refusedSettlement demo_core (Refused ReasonInvalidAmount) (Some demo_auth) ''hub:H''"
    using run by (simp add: demo_hub_def)
  then have no: "\<not> Success out \<or> ExtReplayed out" by simp
  have "l' = demo_ledger\<lparr>first_verifies := first_verifies l'\<rparr>"
    by (rule refused_settlement_moves_nothing [OF run demo_own no demo_supply_ok demo_not_registered])
  then have "balances l' = balances (demo_ledger\<lparr>first_verifies := first_verifies l'\<rparr>)" by (rule arg_cong)
  with run out show ?thesis by simp
qed

end
