(* ===== verification/Replay_Properties.thy ===== *)
theory Replay_Properties
  imports Demo
begin

text \<open>
  The properties of the replay guards: what happens at most once however often it is asked for,
  what a repeat is answered, and how long a task stays bound to one payment. They rest on the
  interpretations of \<open>at_most_once\<close> in \<open>Replay_Guards\<close>.
\<close>

section \<open>Runs that keep a row\<close>

definition run_end :: "'s \<Rightarrow> (time_ns \<times> 's) list \<Rightarrow> 's" where
  "run_end s r = (if r = [] then s else snd (last r))"

lemma run_end_simps [simp]: "run_end s [] = s" "run_end s ((t, s') # r) = run_end s' r"
  by (simp_all add: run_end_def)

lemma run_inv:
  "clock_run (hub_step c lc h) t0 s r \<Longrightarrow> hub_inv lc h s \<Longrightarrow> build_law lc \<Longrightarrow> hub_inv lc h (run_end s r)"
proof (induction r arbitrary: t0 s)
  case (Cons x r)
  obtain t s' where x: "x = (t, s')" by force
  with Cons.prems have "hub_inv lc h s'" using hub_step_inv [of c lc h t s s'] by simp
  with Cons x show ?case by auto
qed simp

lemma run_keeps_settled:
  assumes "clock_run (good_step c lc h) t0 s r" and "map_of (settled (hs_ledger s)) i = Some row"
    and "\<forall>(t, _) \<in> set r. unix_milli t - 604800000 < s_not_after row"
  shows "map_of (settled (hs_ledger (run_end s r))) i = Some row"
  using assms
proof (induction r arbitrary: t0 s)
  case (Cons x r)
  obtain t s' where x: "x = (t, s')" by force
  from Cons.prems have "map_of (settled (hs_ledger s')) i = Some row"
    using good_step_settled(1) [of c lc h t s s' i row] by (force simp: x)
  with Cons show ?case by (auto simp: x)
qed simp

lemma run_keeps_guard:
  assumes "clock_run (good_step c lc h) t0 s r" and "map_of (guards (hs_ledger s)) g = Some u"
    and "\<forall>(t, _) \<in> set r. unix_milli t < u"
  shows "map_of (guards (hs_ledger (run_end s r))) g = Some u"
  using assms
proof (induction r arbitrary: t0 s)
  case (Cons x r)
  obtain t s' where x: "x = (t, s')" by force
  from Cons.prems have "map_of (guards (hs_ledger s')) g = Some u"
    using good_step_guard [of c lc h t s s' g u] by (simp add: x)
  with Cons show ?case by (auto simp: x)
qed simp

section \<open>At most once\<close>

lemma run_entries:
  "clock_run (good_step c lc h) t0 s r \<Longrightarrow> entries_ok (hs_ledger s) \<Longrightarrow>
     clock_run (\<lambda>t s s'. entries_ok (hs_ledger s) \<and> good_step c lc h t s s') t0 s r"
proof (induction r arbitrary: t0 s)
  case (Cons x r)
  obtain t s' where x: "x = (t, s')" by force
  with Cons.prems good_step_books(1) [of c lc h t s s'] show ?case by (auto intro!: Cons.IH)
qed simp

text \<open>In a run no more debits are booked under an authorization than there are steps that settle it, and
  every account has moved by what was booked.\<close>

lemma run_debits:
  assumes "clock_run (good_step c lc h) t0 s r" and "entries_ok (hs_ledger s)" and "auth_law c i na"
  shows "length (filter (settlement_debit h i) (booked s r)) \<le> count_firings (settles_now h i) s r"
  using assms(1,2)
proof (induction r arbitrary: t0 s)
  case (Cons x r)
  obtain t s' where x: "x = (t, s')" by force
  from Cons.prems(1) have st: "good_step c lc h t s s'" and rest: "clock_run (good_step c lc h) t s' r"
    by (simp_all add: x)
  note b = good_step_books [OF st Cons.prems(2)]
  from b(3) [OF assms(3)] have "length (filter (settlement_debit h i) (new_entries (hs_ledger s) (hs_ledger s'))) \<le>
      (if settles_now h i t s s' then 1 else 0)" by (auto simp: debits_law_def settles_now_def)
  with Cons.IH [OF rest b(1)] show ?case by (simp add: x)
qed simp

lemma run_balance:
  assumes "clock_run (good_step c lc h) t0 s r" and "entries_ok (hs_ledger s)"
  shows "Balance (hs_ledger (run_end s r)) a = Balance (hs_ledger s) a + change_of a (booked s r)"
  using assms
proof (induction r arbitrary: t0 s)
  case (Cons x r)
  obtain t s' where x: "x = (t, s')" by force
  from Cons.prems(1) have st: "good_step c lc h t s s'" and rest: "clock_run (good_step c lc h) t s' r"
    by (simp_all add: x)
  note b = good_step_books [OF st Cons.prems(2)]
  from Cons.IH [OF rest b(1)] b(2) [of a] show ?case by (simp add: x)
qed simp

text \<open>C2: An authorization moves credit at most once: in any run of the hub from a reachable state, whatever
  operations it is made of and whichever of the doors (\<open>/x402/settle\<close>, \<open>/fed/v3/settle\<close>,
  \<open>/x402/redeem\<close>) they come through, and although the janitor deletes settled rows, at most one entry
  takes credit from an account under its id; and every account has moved by exactly the entries
  written in the run, so no credit moves beside them.\<close>

theorem authorization_settles_at_most_once:
  assumes "reachable c lc h s" and "hubAID h \<noteq> []" and "build_law lc" and "auth_law c i na"
    and "clock_run (hub_step c lc h) t0 s r"
  shows "length (filter (settlement_debit h i) (booked s r)) \<le> 1 \<and>
    (\<forall>a. Balance (hs_ledger (run_end s r)) a = Balance (hs_ledger s) a + change_of a (booked s r))"
proof -
  have run: "clock_run (good_step c lc h) t0 s r" using run_good [OF assms(5) reachable_inv [OF assms(1-3)] assms(3)] .
  have ok: "entries_ok (hs_ledger s)" using reachable_entries_ok [OF assms(1-3)] .
  have "count_firings (settles_now h i) s r \<le> 1"
    using settled_guard.at_most_one_firing [OF run_and [OF assms(4) run_entries [OF run ok]]] .
  with run_debits [OF run ok assms(4)] run_balance [OF run ok] show ?thesis by auto
qed

theorem authorization_settles_at_most_once_witness:
  "length (filter (settlement_debit demo_hub ''auth1'') (booked demo_base demo_steps)) = 1 \<and>
   change_of ''alice'' (booked demo_base demo_steps) = - 5 \<and>
   Balance (hs_ledger (run_end demo_base demo_steps)) ''alice'' = 95"
proof -
  have "length (filter (settlement_debit demo_hub ''auth1'') (booked demo_base demo_steps)) \<le> 1 \<and>
      (\<forall>a. Balance (hs_ledger (run_end demo_base demo_steps)) a =
         Balance (hs_ledger demo_base) a + change_of a (booked demo_base demo_steps))"
    by (rule authorization_settles_at_most_once [OF demo_base_reachable _ demo_build_law demo_auth_law demo_steps_run])
       (simp add: demo_hub_def)
  moreover have "filter (settlement_debit demo_hub ''auth1'') (new_entries demo_ledger (fst demo_run)) \<noteq> []"
    using demo_run_entries by (auto simp: new_entries_def settlement_debit_def demo_hub_def demo_ledger_def)
  moreover have "Balance (fst demo_retry) ''alice'' = 95" "Balance demo_ledger ''alice'' = 100"
    using demo_retry_balance by (simp_all add: demo_ledger_def Balance_def row_or_def)
  ultimately show ?thesis
    by (auto simp: demo_steps_def demo_settled_def le_Suc_eq)
qed

text \<open>C7: A peer's receipt is cleared at most once: in any run of the hub from a reachable state at most one
  step credits the payee of a peer's receipt with a given authorization and settlement time, although
  the row that remembers it is deleted after eight days; and nothing but such a step ever raises what
  a peer owes.\<close>

theorem receipt_cleared_at_most_once:
  assumes "reachable c lc h s" and "hubAID h \<noteq> []" and "build_law lc"
    and "clock_run (hub_step c lc h) t0 s r"
  shows "count_firings (clears_now c h i settled_at) s r \<le> 1 \<and>
    clock_run (\<lambda>t s s'. \<forall>peer. Owed (hs_ledger s) peer < Owed (hs_ledger s') peer \<longrightarrow>
      (\<exists>i at. clears_now c h i at t s s')) t0 s r"
proof -
  have run: "clock_run (good_step c lc h) t0 s r" using run_good [OF assms(4) reachable_inv [OF assms(1-3)] assms(3)] .
  from cleared_guard.at_most_one_firing [OF run] show ?thesis
    by (intro conjI clock_run_mono [OF run]) (simp, use good_step_owed(1) in blast)
qed

theorem receipt_cleared_at_most_once_witness:
  "count_firings (clears_now demo_core demo_hub ''auth3'' 2000) demo_base demo_peer_steps = 1 \<and>
   Owed (hs_ledger demo_base) ''P'' = 0 \<and> Owed (hs_ledger demo_cleared) ''P'' = 5"
proof -
  have o: "Owed (hs_ledger demo_base) ''P'' = 0" "Owed (hs_ledger demo_cleared) ''P'' = 5"
    using demo_clearing_facts by (simp_all add: Owed_def row_or_def demo_cleared_def demo_ledger_def empty_ledger_def)
  have c: "count_firings (clears_now demo_core demo_hub i at) demo_base demo_peer_steps \<le> 1 \<and>
    clock_run (\<lambda>t s s'. \<forall>peer. Owed (hs_ledger s) peer < Owed (hs_ledger s') peer \<longrightarrow>
      (\<exists>i at. clears_now demo_core demo_hub i at t s s')) 0 demo_base demo_peer_steps" for i at
    by (rule receipt_cleared_at_most_once [OF demo_base_reachable _ demo_build_law demo_peer_run])
       (simp add: demo_hub_def)
  from c [of "''auth3''" 2000] have "Owed (hs_ledger demo_base) ''P'' < Owed (hs_ledger demo_cleared) ''P'' \<longrightarrow>
      (\<exists>i at. clears_now demo_core demo_hub i at demo_time demo_base demo_cleared)"
    unfolding demo_peer_steps_def by simp blast
  then obtain i at where f: "clears_now demo_core demo_hub i at demo_time demo_base demo_cleared" using o by auto
  have "good_step demo_core demo_liab demo_hub demo_time demo_base demo_cleared"
    using demo_peer_run demo_build_law reachable_inv [OF demo_base_reachable _ demo_build_law]
    by (simp add: good_step_def demo_peer_steps_def demo_hub_def)
  from clears_now_facts(3) [OF this f] have "i = ''auth3'' \<and> at = 2000"
    using demo_clearing_facts by (auto simp: demo_cleared_def split: if_split_asm)
  with f c [of "''auth3''" 2000] o show ?thesis by (simp add: demo_peer_steps_def)
qed

text \<open>C8: A discharge statement of a peer is applied at most once: in any run of the hub from a reachable
  state at most one step takes the amount of a statement off what the peer owes; and nothing but such
  a step ever lowers what a peer owes.\<close>

theorem discharge_applied_at_most_once:
  assumes "reachable c lc h s" and "hubAID h \<noteq> []" and "build_law lc"
    and "clock_run (hub_step c lc h) t0 s r"
  shows "count_firings (discharges_now c h i) s r \<le> 1 \<and>
    clock_run (\<lambda>t s s'. \<forall>peer. Owed (hs_ledger s') peer < Owed (hs_ledger s) peer \<longrightarrow>
      (\<exists>i. discharges_now c h i t s s')) t0 s r"
proof -
  have run: "clock_run (good_step c lc h) t0 s r" using run_good [OF assms(4) reachable_inv [OF assms(1-3)] assms(3)] .
  from discharge_guard.at_most_one_firing [OF run] show ?thesis
    by (intro conjI clock_run_mono [OF run]) (simp, use good_step_owed(2) in blast)
qed

theorem discharge_applied_at_most_once_witness:
  "count_firings (discharges_now demo_core demo_hub ''st1'') demo_base demo_peer_steps = 1 \<and>
   Owed (hs_ledger demo_cleared) ''P'' = 5 \<and> Owed (hs_ledger demo_discharged) ''P'' = 2"
proof -
  have c: "count_firings (discharges_now demo_core demo_hub ''st1'') demo_base demo_peer_steps \<le> 1 \<and>
    clock_run (\<lambda>t s s'. \<forall>peer. Owed (hs_ledger s') peer < Owed (hs_ledger s) peer \<longrightarrow>
      (\<exists>i. discharges_now demo_core demo_hub i t s s')) 0 demo_base demo_peer_steps"
    by (rule discharge_applied_at_most_once [OF demo_base_reachable _ demo_build_law demo_peer_run])
       (simp add: demo_hub_def)
  have o: "Owed (hs_ledger demo_cleared) ''P'' = 5" "Owed (hs_ledger demo_discharged) ''P'' = 2"
    and so: "SettleOwed demo_core demo_time (hubAID demo_hub) ''P'' demo_kel (Some demo_discharge) (hs_ledger demo_cleared) =
      Inr (hs_ledger demo_discharged)"
    using demo_clearing_facts demo_discharge_facts
    by (auto simp: Owed_def row_or_def demo_cleared_def demo_discharged_def)
  have "discharges_now demo_core demo_hub ''st1'' demo_time demo_cleared demo_discharged"
    unfolding discharges_now_def
    by (rule exI [of _ "''P''"], rule exI [of _ demo_kel], rule exI [of _ demo_discharge])
       (use so o in \<open>simp add: demo_discharge_def\<close>)
  with c o show ?thesis by (simp add: demo_peer_steps_def)
qed

section \<open>Repeats\<close>

lemma verifiedAuth_same_kel:
  assumes "verifiedAuth c kels hub p = Inr (auth, i, k)"
    and "AgentKEL_of kels' (Payer auth) = AgentKEL_of kels (Payer auth)"
  shows "verifiedAuth c kels' hub p = Inr (auth, i, k)"
proof -
  note v = verifiedAuth_Inr [OF assms(1)]
  obtain pp where "p = Some pp" using v(7) by blast
  then have "verifiedAuth c kels' hub p = verifiedAuth c kels hub p"
    using v(6) assms(2) by (simp add: verifiedAuth_def cong: option.case_cong)
  with assms(1) show ?thesis by simp
qed

text \<open>A settled row answers a repeat with the response of the settlement that wrote it.\<close>

lemma repeatOf_settled:
  assumes row: "map_of (settled l) i = Some (row_of auth now amt rec guard via)"
    and amt: "amountInt64 (Amount auth) = Some amt" and net: "Network auth = CreditNetwork c hub"
    and rec: "signReceipt c h i (Payer auth) (PayTo auth) (Amount auth) (Network auth) t = Inr rec"
    and sigs: "\<forall>r b. SignReceipt c r = Some b \<longrightarrow> b \<noteq> []"
  shows "repeatOf c h hub i auth via l = Some ((settled_answer auth i rec)\<lparr>ExtReplayed := True\<rparr>)"
proof -
  have ne: "rec \<noteq> Some []" using rec sigs by (auto simp: signReceipt_def split: if_split_asm option.split_asm)
  have "signReceipt c h j a b n nw tt = Inr None" if "rec = None" for j a b n nw tt
    using rec that by (auto simp: signReceipt_def split: if_split_asm option.split_asm)
  with ne row amt net show ?thesis
    by (cases rec) (auto simp: repeatOf_def settledBefore_def row_of_def storedAmount_amountInt64 settled_answer_def
        receipt_member_def)
qed

text \<open>C4: A repeat of a settled payment is answered with the original receipt: after a first success, and
  whatever else the hub does in any run that ends before the settled row may be deleted (seven days
  after the authorization ends), the same request moves nothing. It is answered with the response of
  the first settlement, marked as a replay, if its payee is still registered here and the payer's
  stored key history still verifies the authorization; it does if it is the history of the first
  settlement. Otherwise the repeat is refused by these two checks, which come before the look-up of
  the settled row: payee not local, or the refusal of the verification.\<close>

theorem repeat_answers_original_receipt:
  assumes "reachable c lc h s" and "hubAID h \<noteq> []" and "build_law lc"
    and run: "SettleWithRequirements c h (map_option (\<lambda>w. peerSettler c h w now) w) (hs_kels s) (hubAID h) now p req
                (hs_ledger s) = (l', out)"
    and own: "on_own_network c (hubAID h) p" and ok: "Success out" "\<not> ExtReplayed out"
    and pa: "parseAuth c p = Inr auth"
    and later: "clock_run (hub_step c lc h) now (s\<lparr>hs_ledger := l'\<rparr>) r"
    and window: "\<forall>(t, _) \<in> set r. unix_milli t - 604800000 < NotAfter auth"
    and sigs: "\<forall>r b. SignReceipt c r = Some b \<longrightarrow> b \<noteq> []"
  shows "let s2 = run_end (s\<lparr>hs_ledger := l'\<rparr>) r; own = CreditNetwork c (hubAID h) in
    SettleWithRequirements c h ps2 (hs_kels s2) (hubAID h) now2 p req (hs_ledger s2) =
      (hs_ledger s2,
       if \<not> registered (hs_kels s2) (PayTo auth) then refusedSettlement c (Refused ReasonPayeeNotLocal) None own
       else case verifiedAuth c (hs_kels s2) (hubAID h) p of
              Inl (a, e) \<Rightarrow> refusedSettlement c e a own
            | Inr _ \<Rightarrow> out\<lparr>ExtReplayed := True\<rparr>) \<and>
    (AgentKEL_of (hs_kels s2) (Payer auth) = AgentKEL_of (hs_kels s) (Payer auth) \<longrightarrow>
       (\<exists>x. verifiedAuth c (hs_kels s2) (hubAID h) p = Inr x))"
proof -
  let ?s1 = "s\<lparr>hs_ledger := l'\<rparr>"
  let ?s2 = "run_end ?s1 r"
  have inv: "hub_inv lc h s" using reachable_inv [OF assms(1-3)] .
  have inv1: "hub_inv lc h ?s1" by (rule hub_step_inv [OF step_settle [OF run] inv assms(3)])
  have sup: "supply_ok h (hs_ledger s)" and nr: "\<not> registered (hs_kels s) (hubAID h)"
    using inv by (auto simp: hub_inv_def)
  from SettleWithRequirements_own [OF run own] ok obtain rq where rq: "req = Some rq"
    and hub: "hubAID h \<noteq> [] \<longrightarrow> ReqPayTo rq \<noteq> hubAID h"
    and sh: "settleHere c h (hs_kels s) (hubAID h) now p req [] (hs_ledger s) = (l', out)" by blast
  show ?thesis
  proof (rule settleHere_success [OF sh ok sup refl nr])
    fix auth' i k amt guard rec
    assume va: "verifiedAuth c (hs_kels s) (hubAID h) p = Inr (auth', i, k)"
      and cr: "CheckRequirements c p (Some auth') req = None"
      and amt: "amountInt64 (Amount auth') = Some amt"
      and rec: "signReceipt c h i (Payer auth') (PayTo auth') (Amount auth') (Network auth') (unix_milli now) = Inr rec"
      and st: "settled l' = AList.update i (row_of auth' now amt rec guard []) (settled (hs_ledger s))"
      and out: "out = settled_answer auth' i rec"
    note v = verifiedAuth_Inr [OF va]
    have auth: "auth' = auth" using v(6) pa by simp
    obtain pp where pp: "p = Some pp" using v(7) by blast
    have "map_of (settled (hs_ledger ?s2)) i = Some (row_of auth now amt rec guard [])"
      by (rule run_keeps_settled [OF run_good [OF later inv1 assms(3)]])
         (use window in \<open>simp_all add: st auth map_of_update_eq row_of_def\<close>)
    from repeatOf_settled [OF this _ _ _ sigs] amt rec v(3)
    have rp: "repeatOf c h (hubAID h) i auth [] (hs_ledger ?s2) = Some (out\<lparr>ExtReplayed := True\<rparr>)"
      by (simp add: auth out)
    have same: "verifiedAuth c (hs_kels ?s2) (hubAID h) p = Inr (auth, i, k)"
      if "AgentKEL_of (hs_kels ?s2) (Payer auth) = AgentKEL_of (hs_kels s) (Payer auth)"
      using verifiedAuth_same_kel [OF va] that by (simp add: auth)
    have pay: "PayTo auth = ReqPayTo rq" using CheckRequirements_None(1) [OF cr [unfolded rq pp]] by (simp add: auth)
    have nh: "payeeIsThisHub (hubAID h) rq = None" using hub by (auto simp: payeeIsThisHub_def)
    have again: "SettleWithRequirements c h ps2 (hs_kels ?s2) (hubAID h) now2 p req (hs_ledger ?s2) =
      (hs_ledger ?s2,
       if \<not> registered (hs_kels ?s2) (PayTo auth) then refusedSettlement c (Refused ReasonPayeeNotLocal) None (CreditNetwork c (hubAID h))
       else case verifiedAuth c (hs_kels ?s2) (hubAID h) p of
              Inl (a, e) \<Rightarrow> refusedSettlement c e a (CreditNetwork c (hubAID h))
            | Inr _ \<Rightarrow> out\<lparr>ExtReplayed := True\<rparr>)"
    proof (cases "verifiedAuth c (hs_kels ?s2) (hubAID h) p")
      case (Inl ae)
      with nh pay rq pp own show ?thesis
        by (cases ae) (auto simp: SettleWithRequirements_def settleHere_def on_own_network_def payeeHere_def Let_def)
    next
      case (Inr y)
      obtain auth2 i2 k2 where y: "y = (auth2, i2, k2)" by (cases y)
      note v2 = verifiedAuth_Inr [OF Inr [unfolded y]]
      have y2: "auth2 = auth" using v2(6) pa by simp
      moreover have "i2 = i" using v2(2) v(2) by (simp add: y2 auth)
      ultimately show ?thesis using Inr y rp cr nh pay rq pp own auth
        by (simp add: SettleWithRequirements_def settleHere_def on_own_network_def payeeHere_def Let_def)
    qed
    show ?thesis unfolding Let_def using again same by blast
  qed
qed

theorem repeat_answers_original_receipt_witness:
  "demo_retry = (fst demo_run, (snd demo_run)\<lparr>ExtReplayed := True\<rparr>) \<and>
   SettleWithRequirements demo_core demo_hub None [(''alice'', [1])] (hubAID demo_hub) (demo_time + 60 * second_ns)
      (Some demo_payload) (Some demo_requirements) (fst demo_run) =
     (fst demo_run, refusedSettlement demo_core (Refused ReasonPayeeNotLocal) None ''hub:H'')"
proof -
  let ?run = "SettleWithRequirements demo_core demo_hub (map_option (\<lambda>w. peerSettler demo_core demo_hub w demo_time) None)
     (hs_kels demo_base) (hubAID demo_hub) demo_time (Some demo_payload) (Some demo_requirements) (hs_ledger demo_base)"
  let ?s1 = "demo_base\<lparr>hs_ledger := fst demo_run\<rparr>"
  let ?again = "\<lambda>kels. SettleWithRequirements demo_core demo_hub None kels (hubAID demo_hub) (demo_time + 60 * second_ns)
      (Some demo_payload) (Some demo_requirements) (fst demo_run)"
  let ?left = "?s1\<lparr>hs_kels := AList.delete ''bob'' (hs_kels ?s1)\<rparr>"
  have run: "?run = (fst demo_run, snd demo_run)" by simp
  have ok: "Success (snd demo_run)" "\<not> ExtReplayed (snd demo_run)" using demo_run_out by simp_all
  have pa: "parseAuth demo_core (Some demo_payload) = Inr demo_auth" by code_simp
  have hub: "hubAID demo_hub \<noteq> []" and net: "CreditNetwork demo_core (hubAID demo_hub) = ''hub:H''"
    by (simp_all add: demo_hub_def demo_core_def)
  have sigs: "\<forall>r b. SignReceipt demo_core r = Some b \<longrightarrow> b \<noteq> []" by (simp add: demo_core_def)
  note again = repeat_answers_original_receipt [OF demo_base_reachable hub demo_build_law run demo_own ok pa _ _ sigs,
      where ?now2.0 = "demo_time + 60 * second_ns" and ?ps2.0 = None]
  have here: "registered demo_kels (PayTo demo_auth)" "\<not> registered [(''alice'', [1])] (PayTo demo_auth)"
    by (simp_all add: demo_auth_def demo_kels_def registered_def has_key_def)
  have "?again demo_kels = (fst demo_run, if \<not> registered demo_kels (PayTo demo_auth) then
        refusedSettlement demo_core (Refused ReasonPayeeNotLocal) None (CreditNetwork demo_core (hubAID demo_hub))
       else case verifiedAuth demo_core demo_kels (hubAID demo_hub) (Some demo_payload) of
              Inl (a, e) \<Rightarrow> refusedSettlement demo_core e a (CreditNetwork demo_core (hubAID demo_hub))
            | Inr _ \<Rightarrow> (snd demo_run)\<lparr>ExtReplayed := True\<rparr>) \<and>
     (\<exists>x. verifiedAuth demo_core demo_kels (hubAID demo_hub) (Some demo_payload) = Inr x)"
    using again [of "[]"] unfolding Let_def by simp
  then have "?again demo_kels = (fst demo_run, (snd demo_run)\<lparr>ExtReplayed := True\<rparr>)" using here(1) by auto
  moreover have "?again [(''alice'', [1])] =
      (fst demo_run, refusedSettlement demo_core (Refused ReasonPayeeNotLocal) None ''hub:H'')"
  proof -
    have st: "clock_run (hub_step demo_core demo_liab demo_hub) demo_time ?s1 [(demo_time, ?left)]"
      using step_leave [of demo_core demo_liab demo_hub demo_time ?s1 "''bob''"] by simp
    have w: "\<forall>(t, _) \<in> set [(demo_time, ?left)]. unix_milli t - 604800000 < NotAfter demo_auth"
      by (simp add: demo_auth_def demo_time_def ms_ns_def unix_milli_def go_div_def)
    have k: "hs_kels (run_end ?s1 [(demo_time, ?left)]) = [(''alice'', [1])]"
      "hs_ledger (run_end ?s1 [(demo_time, ?left)]) = fst demo_run" by (simp_all add: demo_kels_def)
    from again [OF st w] here(2) show ?thesis unfolding Let_def k net by simp
  qed
  ultimately show ?thesis unfolding demo_retry_def by simp
qed

section \<open>A task bound to one payment\<close>

text \<open>C5: A task is bound to at most one payment of a payer: for thirty days after a first success whose
  authorization names a task, and whatever the hub does in between, no other settlement under the
  same binding key succeeds for the first time, at either of the two settlement doors.\<close>

theorem task_bound_to_one_payment:
  assumes "reachable c lc h s" and "hubAID h \<noteq> []" and "build_law lc"
    and run: "SettleWithRequirements c h (map_option (\<lambda>w. peerSettler c h w now) w) (hs_kels s) (hubAID h) now p req
                (hs_ledger s) = (l', out)"
    and own: "on_own_network c (hubAID h) p" and ok: "Success out" "\<not> ExtReplayed out"
    and pa: "parseAuth c p = Inr auth" "InteractionID auth \<noteq> []"
    and g: "settleGuardKey c (Payer auth) (InteractionID auth) = Some g"
    and later: "clock_run (hub_step c lc h) now (s\<lparr>hs_ledger := l'\<rparr>) r"
    and window: "\<forall>(t, _) \<in> set r. unix_milli t < unix_milli (now + guardKept)"
    and s2: "s2 = run_end (s\<lparr>hs_ledger := l'\<rparr>) r" and now2: "unix_milli now2 < unix_milli (now + guardKept)"
    and pa2: "parseAuth c p2 = Inr auth2" "InteractionID auth2 \<noteq> []"
    and g2: "settleGuardKey c (Payer auth2) (InteractionID auth2) = Some g"
    and door: "SettleWithRequirements c h ps2 (hs_kels s2) (hubAID h) now2 p2 req2 (hs_ledger s2) = (l2, out2) \<and>
                 on_own_network c (hubAID h) p2 \<or>
               SettleForPeer c h (hs_kels s2) (hubAID h) now2 peer p2 req2 (hs_ledger s2) = (l2, out2)"
  shows "\<not> Success out2 \<or> ExtReplayed out2"
proof (rule ccontr)
  assume "\<not> ?thesis"
  then have ok2: "Success out2" "\<not> ExtReplayed out2" by simp_all
  let ?s1 = "s\<lparr>hs_ledger := l'\<rparr>"
  have inv: "hub_inv lc h s" using reachable_inv [OF assms(1-3)] .
  have inv1: "hub_inv lc h ?s1" by (rule hub_step_inv [OF step_settle [OF run] inv assms(3)])
  have inv2: "hub_inv lc h s2" unfolding s2 by (rule run_inv [OF later inv1 assms(3)])
  from SettleWithRequirements_own [OF run own] ok obtain rq where
    sh: "settleHere c h (hs_kels s) (hubAID h) now p req [] (hs_ledger s) = (l', out)" by blast
  have "map_of (guards l') g = Some (unix_milli (now + guardKept))"
    by (rule settleHere_success [OF sh ok _ refl])
       (use inv pa g verifiedAuth_Inr(6) in \<open>auto simp: hub_inv_def guard_of_def map_of_update_eq\<close>)
  then have held: "map_of (guards (hs_ledger s2)) g = Some (unix_milli (now + guardKept))"
    unfolding s2 by (intro run_keeps_guard [OF run_good [OF later inv1 assms(3)]]) (use window in simp_all)
  obtain via where sh2: "settleHere c h (hs_kels s2) (hubAID h) now2 p2 req2 via (hs_ledger s2) = (l2, out2)"
  proof -
    from door show thesis
    proof (elim disjE conjE)
      assume "SettleWithRequirements c h ps2 (hs_kels s2) (hubAID h) now2 p2 req2 (hs_ledger s2) = (l2, out2)"
        and "on_own_network c (hubAID h) p2"
      from SettleWithRequirements_own [OF this] ok2(1) that show thesis by blast
    next
      assume "SettleForPeer c h (hs_kels s2) (hubAID h) now2 peer p2 req2 (hs_ledger s2) = (l2, out2)"
      from SettleForPeer_here(1) [OF this ok2(1)] show thesis by (rule that)
    qed
  qed
  show False
    by (rule settleHere_success [OF sh2 ok2 _ refl])
       (use inv2 pa2 g2 held now2 verifiedAuth_Inr(6) in \<open>auto simp: hub_inv_def guard_of_def\<close>)
qed

theorem task_bound_to_one_payment_witness:
  "snd (SettleWithRequirements demo_core demo_hub None demo_kels ''H'' (2 * demo_time) (Some demo_second_payload)
     (Some demo_requirements) (fst demo_run)) =
     (refusedSettlement demo_core (Refused ReasonDuplicateBinding) (Some demo_second) ''hub:H'')\<lparr>ExtOriginal := Some ''auth1''\<rparr> \<and>
   \<not> Success (snd (SettleWithRequirements demo_core demo_hub None demo_kels ''H'' (2 * demo_time) (Some demo_second_payload)
     (Some demo_requirements) (fst demo_run)))"
proof -
  let ?run = "SettleWithRequirements demo_core demo_hub (map_option (\<lambda>w. peerSettler demo_core demo_hub w demo_time) None)
     (hs_kels demo_base) (hubAID demo_hub) demo_time (Some demo_payload) (Some demo_requirements) (hs_ledger demo_base)"
  let ?run2 = "SettleWithRequirements demo_core demo_hub None demo_kels ''H'' (2 * demo_time) (Some demo_second_payload)
     (Some demo_requirements) (fst demo_run)"
  have run: "?run = (fst demo_run, snd demo_run)" by simp
  have ok: "Success (snd demo_run)" "\<not> ExtReplayed (snd demo_run)" using demo_run_out by simp_all
  have pa: "parseAuth demo_core (Some demo_payload) = Inr demo_auth" by code_simp
  have pa2: "parseAuth demo_core (Some demo_second_payload) = Inr demo_second" by code_simp
  have "hs_kels (run_end (demo_base\<lparr>hs_ledger := fst demo_run\<rparr>) []) = demo_kels"
    "hs_ledger (run_end (demo_base\<lparr>hs_ledger := fst demo_run\<rparr>) []) = fst demo_run" by simp_all
  then have door: "SettleWithRequirements demo_core demo_hub None (hs_kels (run_end (demo_base\<lparr>hs_ledger := fst demo_run\<rparr>) []))
      (hubAID demo_hub) (2 * demo_time) (Some demo_second_payload) (Some demo_requirements)
      (hs_ledger (run_end (demo_base\<lparr>hs_ledger := fst demo_run\<rparr>) [])) = (fst ?run2, snd ?run2) \<and>
      on_own_network demo_core (hubAID demo_hub) (Some demo_second_payload)"
    by (simp add: demo_hub_def on_own_network_def demo_second_payload_def demo_payload_def demo_core_def)
  have "\<not> Success (snd ?run2) \<or> ExtReplayed (snd ?run2)"
    by (rule task_bound_to_one_payment [OF demo_base_reachable _ demo_build_law run demo_own ok pa _ _ _ _ refl _ pa2 _ _
          disjI1 [OF door], where g = "[9]"])
       (simp_all add: demo_hub_def demo_auth_def demo_second_def demo_core_def settleGuardKey_def window_defs
          demo_time_def ms_ns_def unix_milli_def go_div_def time_defs)
  moreover have "snd (SettleWithRequirements demo_core demo_hub None demo_kels ''H'' (2 * demo_time) (Some demo_second_payload)
     (Some demo_requirements) (fst (SettleWithRequirements demo_core demo_hub None demo_kels ''H'' demo_time (Some demo_payload)
     (Some demo_requirements) demo_ledger))) =
     (refusedSettlement demo_core (Refused ReasonDuplicateBinding) (Some demo_second) ''hub:H'')\<lparr>ExtOriginal := Some ''auth1''\<rparr>"
    by code_simp
  ultimately show ?thesis by (simp add: demo_hub_def)
qed

end
