(* ===== verification/Door_Properties.thy ===== *)
theory Door_Properties
  imports Demo
begin

text \<open>
  The properties of the single doors of the ledger: what \<open>/x402/verify\<close> promises, and exactly what a
  settlement for a peer, a clearing, a redemption and a discharge do to the accounts.
\<close>

section \<open>Verify and settle\<close>

text \<open>C6: What \<open>/x402/verify\<close> calls valid, \<open>/x402/settle\<close> settles: when the check of a payment answers
  valid, settling the same payment in the ledger the check left, at the same time, succeeds for the
  first time and names the payer the check named (with a signing key, provided signing does not
  fail).\<close>

theorem verify_promises_settlement:
  assumes "VerifyWithRequirements c kels (hubAID h) now p req l = (l', v)" and "IsValid v"
    and "supply_ok h l" and "\<not> registered kels (hubAID h)"
    and "hasHubKey h \<Longrightarrow> \<forall>r. SignReceipt c r \<noteq> None"
  shows "\<exists>l'' out. SettleWithRequirements c h ps kels (hubAID h) now p req l' = (l'', out) \<and>
    Success out \<and> \<not> ExtReplayed out \<and> SPayer out = VPayer v"
  using verify_settles [OF assms(1-3) refl assms(4,5)] by blast

theorem verify_promises_settlement_witness:
  "\<exists>l'' out. SettleWithRequirements demo_core demo_hub None demo_kels (hubAID demo_hub) demo_time (Some demo_payload)
     (Some demo_requirements) (fst (VerifyWithRequirements demo_core demo_kels (hubAID demo_hub) demo_time
        (Some demo_payload) (Some demo_requirements) demo_ledger)) = (l'', out) \<and> Success out"
proof -
  let ?v = "VerifyWithRequirements demo_core demo_kels (hubAID demo_hub) demo_time
        (Some demo_payload) (Some demo_requirements) demo_ledger"
  have "snd (VerifyWithRequirements demo_core demo_kels ''H'' demo_time
        (Some demo_payload) (Some demo_requirements) demo_ledger) =
      \<lparr>IsValid = True, InvalidReason = None, VPayer = ''alice''\<rparr>"
    by code_simp
  then have valid: "IsValid (snd ?v)" by (simp add: demo_hub_def)
  have run: "?v = (fst ?v, snd ?v)" by simp
  show ?thesis
    using verify_promises_settlement [OF run valid demo_supply_ok demo_not_registered, of None]
    by (force simp: demo_core_def)
qed

section \<open>Settling for a peer\<close>

text \<open>A first success at \<open>/fed/v3/settle\<close> takes the amount off the payer and books it against this
  hub: its own row and the redeemed total grow by it, and so does what is due to the peer; the payee
  has no account here, and no other balance and no other peer's due changes.\<close>

theorem settle_for_peer_books_due:
  assumes "SettleForPeer c h kels (hubAID h) now peer p req l = (l', out)" and "peer \<noteq> []"
    and "Success out" and "\<not> ExtReplayed out"
    and "supply_ok h l" and "\<not> registered kels (hubAID h)"
  shows "\<exists>auth i k. verifiedAuth c kels (hubAID h) p = Inr (auth, i, k) \<and> \<not> registered kels (PayTo auth) \<and>
    PayTo auth \<noteq> peer \<and> \<not> authSettled i l \<and> authSettled i l' \<and> uint (Amount auth) \<le> Balance l (Payer auth) \<and>
    (\<forall>a. Balance l' a = Balance l a - (if a = Payer auth then uint (Amount auth) else 0)
                                   + (if a = hubAID h then uint (Amount auth) else 0)) \<and>
    issued l' = issued l \<and> redeemed l' = redeemed l + uint (Amount auth) \<and>
    (\<forall>q. DueTo l' q = DueTo l q + (if q = peer then uint (Amount auth) else 0)) \<and> owed l' = owed l"
proof (rule settleHere_success [OF SettleForPeer_here(1) [OF assms(1,3)] assms(3-5) refl assms(6)])
  fix auth i k amt guard rec
  assume va: "verifiedAuth c kels (hubAID h) p = Inr (auth, i, k)"
    and cr: "CheckRequirements c p (Some auth) req = None"
    and amt: "amountInt64 (Amount auth) = Some amt" and fresh: "\<not> has_key (settled l) i"
    and le: "amt \<le> Balance l (Payer auth)"
    and bal: "\<forall>a. Balance l' a = Balance l a - (if a = Payer auth then amt else 0)
                             + (if a = credited_row (hubAID h) peer auth then amt else 0)"
    and iss: "issued l' = issued l" and ow: "owed l' = owed l"
    and red: "redeemed l' = redeemed l + (if credited_row (hubAID h) peer auth = hubAID h then amt else 0)"
    and du: "due l' = (if peer \<noteq> [] then AList.update peer (row_or (due l) peer 0 + amt) (due l) else due l)"
    and st: "settled l' = AList.update i (row_of auth now amt rec guard peer) (settled l)"
  obtain rq where rq: "req = Some rq" "ReqPayTo rq \<noteq> peer" "\<not> registered kels (ReqPayTo rq)"
    using SettleForPeer_here(2) [OF assms(1,3)] by blast
  obtain pp where pp: "p = Some pp" using verifiedAuth_Inr(7) [OF va] by blast
  note C = CheckRequirements_None(1) [OF cr [unfolded rq(1) pp]]
  have "amt = uint (Amount auth)" using amt by (simp add: amountInt64_Some)
  moreover have "credited_row (hubAID h) peer auth = hubAID h" using assms(2) by (simp add: credited_row_def)
  ultimately show ?thesis
    using va rq C fresh le bal iss red du st ow assms(2)
    by (intro exI [of _ auth] exI [of _ i] exI [of _ k]) (simp add: authSettled_def has_key_update DueTo_def row_or_update)
qed

text \<open>The payee of the request is an agent of the peer.\<close>

definition demo_kels_alice :: "(aid, bytes) table" where
  "demo_kels_alice = [(''alice'', [1])]"

theorem settle_for_peer_books_due_witness:
  "let l' = fst (SettleForPeer demo_core demo_hub demo_kels_alice (hubAID demo_hub) demo_time ''P'' (Some demo_payload)
      (Some demo_requirements) demo_ledger) in
   Balance l' ''alice'' = 95 \<and> DueTo l' ''P'' = 5 \<and> redeemed l' = 5"
proof -
  let ?run = "SettleForPeer demo_core demo_hub demo_kels_alice (hubAID demo_hub) demo_time ''P'' (Some demo_payload)
      (Some demo_requirements) demo_ledger"
  have run: "?run = (fst ?run, snd ?run)" by simp
  have "(Success (snd (SettleForPeer demo_core demo_hub demo_kels_alice ''H'' demo_time ''P'' (Some demo_payload)
      (Some demo_requirements) demo_ledger)), ExtReplayed (snd (SettleForPeer demo_core demo_hub demo_kels_alice ''H''
      demo_time ''P'' (Some demo_payload) (Some demo_requirements) demo_ledger))) = (True, False)"
    by code_simp
  then have ok: "Success (snd ?run)" "\<not> ExtReplayed (snd ?run)" by (simp_all add: demo_hub_def)
  have nr: "\<not> registered demo_kels_alice (hubAID demo_hub)"
    by (simp add: registered_def has_key_def demo_kels_alice_def demo_hub_def)
  have va: "verifiedAuth demo_core demo_kels_alice ''H'' (Some demo_payload) = Inr (demo_auth, ''auth1'', demo_kel)"
    by code_simp
  show ?thesis
    using settle_for_peer_books_due [OF run _ ok demo_supply_ok nr] va
    by (auto simp: demo_hub_def demo_auth_def Let_def Balance_def DueTo_def row_or_def demo_ledger_def empty_ledger_def)
qed

section \<open>Clearing a peer's receipt\<close>

text \<open>A peer's receipt credits its payee exactly its amount, as credit issued here against the peer:
  \<open>ClearFromPeer\<close> succeeds without effect for a receipt that was cleared, and otherwise only for a
  receipt the peer signed on its own network, settled at most seven days ago and not in the future
  beyond the allowed skew; then the payee's account, the issued total and what the peer owes grow by
  the amount and the hub's own row shrinks by it.\<close>

theorem clearing_credits_exactly:
  assumes "ClearFromPeer c h now peer k (Some r) l = Inr l'" and "hubAID h \<noteq> []"
  shows "clearedTx (RAuthID r) l \<and> l' = l \<or>
    \<not> clearedTx (RAuthID r) l \<and> clearedTx (RAuthID r) l' \<and> ReceiptVerify c r k peer (RSettleAt r) \<and>
    RNetwork r = CreditNetwork c peer \<and> RPayTo r \<noteq> hubAID h \<and>
    unix_milli now - 7 * 24 * 60 * 60 * 1000 \<le> RSettleAt r \<and> RSettleAt r \<le> unix_milli now + MaxSkewMillis c \<and>
    1 \<le> uint (RAmount r) \<and>
    (\<forall>a. Balance l' a = Balance l a + (if a = RPayTo r then uint (RAmount r) else 0)
                                   - (if a = hubAID h then uint (RAmount r) else 0)) \<and>
    issued l' = issued l + uint (RAmount r) \<and> issued l' \<le> max_int64 \<and> redeemed l' = redeemed l \<and>
    (\<forall>q. Owed l' q = Owed l q + (if q = peer then uint (RAmount r) else 0)) \<and> due l' = due l"
  using ClearFromPeer_Inr [OF assms]
proof (elim disjE exE conjE)
  fix amt
  assume a: "amountInt64 (RAmount r) = Some amt" and q: "RPayTo r \<noteq> hubAID h" and n: "\<not> clearedTx (RAuthID r) l"
    and rest: "RNetwork r = CreditNetwork c peer" "ReceiptVerify c r k peer (RSettleAt r)"
      "unix_milli now - 604800000 \<le> RSettleAt r" "RSettleAt r \<le> unix_milli now + MaxSkewMillis c"
    and run: "clearMove h now peer r amt l = Inr l'"
  note b = amountInt64_bounds [OF a]
  note m = clearMove_Inr [OF run b q]
  have "amt = uint (RAmount r)" using a by (simp add: amountInt64_Some)
  then show ?thesis
    using a q n rest m(2-) b
    by (simp add: clearedTx_def has_key_update Balance_def Owed_def row_or_update amountInt64_Some)
qed simp

theorem clearing_credits_exactly_witness:
  "\<exists>l'. ClearFromPeer demo_core demo_hub demo_time ''P'' demo_kel (Some demo_receipt) demo_ledger = Inr l' \<and>
     Balance l' ''bob'' = 5 \<and> Owed l' ''P'' = 5 \<and> issued l' = 105"
proof -
  let ?run = "ClearFromPeer demo_core demo_hub demo_time ''P'' demo_kel (Some demo_receipt) demo_ledger"
  have "map_option issued (case ?run of Inl _ \<Rightarrow> None | Inr l \<Rightarrow> Some l) = Some 105" by code_simp
  then obtain l' where run: "?run = Inr l'" by (auto split: sum.splits)
  have "\<not> clearedTx ''auth3'' demo_ledger" by code_simp
  moreover have "RPayTo demo_receipt = ''bob''" "RAmount demo_receipt = 5" "RAuthID demo_receipt = ''auth3''"
    "hubAID demo_hub = ''H''" "Balance demo_ledger ''bob'' = 0" "Owed demo_ledger ''P'' = 0" "issued demo_ledger = 100"
    by (simp_all add: demo_receipt_def demo_hub_def Balance_def Owed_def row_or_def demo_ledger_def empty_ledger_def)
  ultimately show ?thesis using clearing_credits_exactly [OF run] run by (intro exI [of _ l']) simp
qed

section \<open>Redeeming\<close>

lemma settleAuth_repeat_id:
  assumes "settleAuth c h kels hub now auth i via l = (l', out)" and "has_key (settled l) i"
    and "Success out"
  shows "STransaction out = i"
  using assms
  by (auto simp: settleAuth_def settleConflict_def repeatOf_def settledBefore_def Let_def
      split: option.splits sum.splits if_splits)

text \<open>What a redemption that succeeded did: the note it added, after what \<open>settleAuth\<close> did.\<close>

lemma Redeem_Inr:
  assumes "Redeem c h kels hub now p reference l = (l', Inr rd)"
  obtains (note_found) auth i k r rs where "verifiedAuth c kels hub p = Inr (auth, i, k)" "l' = l" "rd_auth_id rd = i"
    "filter (\<lambda>r. r_auth_id r = i) (redemptions l) = r # rs" "PayTo auth = hub"
  | (settled_now) auth i k l1 l2 out amt where "verifiedAuth c kels hub p = Inr (auth, i, k)" "PayTo auth = hub"
    "filter (\<lambda>r. r_auth_id r = i) (redemptions l) = []" "length reference \<le> maxRedeemReference"
    "InteractionID auth = [] \<or> InteractionID auth = ''redeem:'' @ reference"
    "keyAtFirstVerify c kels auth i k (unix_milli now) l = (l1, None)" "amountInt64 (Amount auth) = Some amt"
    "settleAuth c h kels hub now (auth\<lparr>InteractionID := []\<rparr>) i [] l1 = (l2, out)" "Success out"
    "add_redemption (STransaction out) (Payer auth) amt reference (ledgerStamp now) l2 = Some l'"
proof -
  obtain auth i k where va: "verifiedAuth c kels hub p = Inr (auth, i, k)"
    using assms by (cases "verifiedAuth c kels hub p") (auto simp: Redeem_def)
  obtain amt where amt: "amountInt64 (Amount auth) = Some amt" and pay: "PayTo auth = hub"
    and len: "length reference \<le> maxRedeemReference"
    and bind: "InteractionID auth = [] \<or> InteractionID auth = ''redeem:'' @ reference"
    using assms va by (auto simp: Redeem_def split: option.split_asm if_split_asm)
  have rest: "(case redemptionOf c h hub i l of
        Inl _ \<Rightarrow> (l, Inl (Refused ReasonSettlementFailed))
      | Inr (Some prior) \<Rightarrow> (l, Inr prior)
      | Inr None \<Rightarrow>
        (case keyAtFirstVerify c kels auth i k (unix_milli now) l of
          (l1, Some e) \<Rightarrow> (l1, Inl e)
        | (l1, None) \<Rightarrow>
            redeemNote auth amt reference now
              (settleAuth c h kels hub now (auth\<lparr>InteractionID := []\<rparr>) i [] l1))) = (l', Inr rd)"
    using assms va amt by (simp add: Redeem_def split: if_split_asm)
  show thesis
  proof (cases "filter (\<lambda>r. r_auth_id r = i) (redemptions l)")
    case (Cons r rs)
    have "r_auth_id r = i" using Cons by (auto simp: filter_eq_Cons_iff)
    with rest Cons len bind pay have "l' = l \<and> rd_auth_id rd = i"
      by (auto simp: redemptionOf_def redemption_view_def Let_def split: option.split_asm sum.split_asm if_split_asm)
    with va Cons pay show thesis by (intro note_found) auto
  next
    case Nil
    obtain l1 x where k1: "keyAtFirstVerify c kels auth i k (unix_milli now) l = (l1, x)" by force
    obtain l2 out where sa: "settleAuth c h kels hub now (auth\<lparr>InteractionID := []\<rparr>) i [] l1 = (l2, out)" by force
    have "x = None \<and> redeemNote auth amt reference now (l2, out) = (l', Inr rd)"
      using rest Nil k1 sa len bind pay
      by (cases x) (auto simp: redemptionOf_def split: if_split_asm)
    then have "x = None" "Success out"
      "add_redemption (STransaction out) (Payer auth) amt reference (ledgerStamp now) l2 = Some l'"
      by (auto simp: redeemNote_def split: if_split_asm option.split_asm)
    with va pay Nil len bind k1 amt sa show thesis by (intro settled_now) auto
  qed
qed

text \<open>C12: A redemption destroys exactly the credit it was signed for, once, and is noted: a redemption that
  succeeds names an authorization of a registered payer to this hub, and either answers the note it
  left before and changes nothing, or it adds the note for an authorization that had settled before
  without moving credit again, or it settles the authorization now: the payer's account falls and the
  redeemed total grows by exactly the amount, and one note with the reference is added.\<close>

theorem redemption_destroys_exactly:
  assumes run: "Redeem c h kels (hubAID h) now p reference l = (l', Inr rd)"
    and sup: "supply_ok h l" and nr: "\<not> registered kels (hubAID h)"
  shows "\<exists>auth i k. verifiedAuth c kels (hubAID h) p = Inr (auth, i, k) \<and> PayTo auth = hubAID h \<and>
    registered kels (Payer auth) \<and>
    (if list_ex (\<lambda>r. r_auth_id r = i) (redemptions l) then l' = l \<and> rd_auth_id rd = i
     else redemptions l' = redemptions l @ [\<lparr>r_seq = Suc (redemption_seq l), r_auth_id = i, r_aid = Payer auth,
            r_amount = uint (Amount auth), r_reference = reference, r_at = now\<rparr>] \<and>
          length reference \<le> 256 \<and> issued l' = issued l \<and> authSettled i l' \<and>
          (if authSettled i l then balances l' = balances l \<and> redeemed l' = redeemed l
           else uint (Amount auth) \<le> Balance l (Payer auth) \<and> redeemed l' = redeemed l + uint (Amount auth) \<and>
             (\<forall>a. Balance l' a = Balance l a - (if a = Payer auth then uint (Amount auth) else 0)
                                           + (if a = hubAID h then uint (Amount auth) else 0))))"
  using run
proof (cases rule: Redeem_Inr)
  case (note_found auth i k r rs)
  then have "list_ex (\<lambda>r. r_auth_id r = i) (redemptions l)" by (auto simp: list_ex_iff filter_eq_Cons_iff)
  with note_found show ?thesis using verifiedAuth_Inr(1) [OF note_found(1)] by auto
next
  case (settled_now auth i k l1 l2 out amt)
  from keyAtFirstVerify_only [OF settled_now(6)] obtain fv where l1: "l1 = l\<lparr>first_verifies := fv\<rparr>"
    by (rule only_first_verifiesE)
  have bal1: "Balance l1 = Balance l" by (simp add: l1 Balance_def fun_eq_iff)
  have no: "\<not> list_ex (\<lambda>r. r_auth_id r = i) (redemptions l)" using settled_now(3) by (auto simp: list_ex_iff filter_empty_conv)
  have amt: "amt = uint (Amount auth)" using settled_now(7) by (simp add: amountInt64_Some)
  have p: "Payer (auth\<lparr>InteractionID := []\<rparr>) \<noteq> hubAID h" using verifiedAuth_Inr(1) [OF settled_now(1)] nr by auto
  have sup1: "supply_ok h l1" using sup by (simp add: l1)
  from settleAuth_effect [OF settled_now(8) sup1 refl p] settled_now(9)
  consider (rep) "l2 = l1" "has_key (settled l1) i"
    | (new) amt' guard rec where "fresh_settlement c h kels (hubAID h) now (auth\<lparr>InteractionID := []\<rparr>) i [] l1 amt' guard rec"
      "l2 = settled_books (hubAID h) now (auth\<lparr>InteractionID := []\<rparr>) i [] amt'
         (with_settlement now i (row_of (auth\<lparr>InteractionID := []\<rparr>) now amt' rec guard []) l1)"
      "out = settled_answer (auth\<lparr>InteractionID := []\<rparr>) i rec" by blast
  then show ?thesis
  proof cases
    case rep
    then have "STransaction out = i" using settleAuth_repeat_id [OF settled_now(8)] settled_now(9) by blast
    with rep no settled_now verifiedAuth_Inr(1) [OF settled_now(1)] show ?thesis
      by (auto simp: add_redemption_def l1 amt ledgerStamp_def maxRedeemReference_def authSettled_def split: if_split_asm)
  next
    case new
    have i: "STransaction out = i" using new(3) by (simp add: settled_answer_def)
    have fresh: "\<not> authSettled i l" "amt' = amt" "amt \<le> Balance l (Payer auth)"
      using new(1) settled_now(7) by (auto simp: fresh_settlement_def authSettled_def l1 bal1 [unfolded l1])
    have l': "l' = l2\<lparr>redemptions := redemptions l @ [\<lparr>r_seq = Suc (redemption_seq l), r_auth_id = i, r_aid = Payer auth,
            r_amount = amt, r_reference = reference, r_at = now\<rparr>], redemption_seq := Suc (redemption_seq l)\<rparr>"
      using settled_now(10) by (simp add: add_redemption_def i new(2) l1 ledgerStamp_def split: if_split_asm)
    have b2: "Balance l2 a = Balance l a - (if a = Payer auth then amt else 0) + (if a = hubAID h then amt else 0)" for a
      using settled_now(2) by (simp add: new(2) fresh(2) settled_books_Balance bal1 credited_row_def)
    have s2: "issued l2 = issued l" "redeemed l2 = redeemed l + amt" "authSettled i l2"
      using settled_now(2) by (simp_all add: new(2) fresh(2) l1 credited_row_def authSettled_def has_key_update)
    have bl: "Balance l' = Balance l2" "authSettled i l'" "issued l' = issued l2" "redeemed l' = redeemed l2"
      using s2(3) by (simp_all add: l' Balance_def fun_eq_iff authSettled_def)
    show ?thesis
      using settled_now(1,2,4) verifiedAuth_Inr(1) [OF settled_now(1)] no fresh b2 s2 bl
      by (intro exI [of _ auth] exI [of _ i] exI [of _ k]) (simp add: l' amt maxRedeemReference_def)
  qed
qed

definition demo_redeem_payload :: payment_payload where
  "demo_redeem_payload = demo_payload\<lparr>AcceptedPayTo := ''H'', Payload := [(''authorization'', AnyString ''Ag=='')]\<rparr>"

theorem redemption_destroys_exactly_witness:
  "let l' = fst (Redeem demo_core demo_hub demo_kels (hubAID demo_hub) demo_time (Some demo_redeem_payload) ''r'' demo_ledger) in
   Balance l' ''alice'' = 95 \<and> redeemed l' = 5 \<and> map r_reference (redemptions l') = [''r'']"
proof -
  let ?run = "Redeem demo_core demo_hub demo_kels (hubAID demo_hub) demo_time (Some demo_redeem_payload) ''r'' demo_ledger"
  have "map_option rd_amount (case snd (Redeem demo_core demo_hub demo_kels ''H'' demo_time (Some demo_redeem_payload) ''r''
      demo_ledger) of Inl _ \<Rightarrow> None | Inr rd \<Rightarrow> Some rd) = Some 5"
    by code_simp
  then obtain rd where "snd ?run = Inr rd" by (auto simp: demo_hub_def split: sum.splits)
  then have run: "?run = (fst ?run, Inr rd)" by (simp add: prod_eq_iff)
  have va: "verifiedAuth demo_core demo_kels ''H'' (Some demo_redeem_payload) = Inr (demo_redeem_auth, ''auth2'', demo_kel)"
    by code_simp
  have facts: "hubAID demo_hub = ''H''" "redemptions demo_ledger = []" "redeemed demo_ledger = 0"
    "\<not> authSettled ''auth2'' demo_ledger" "Balance demo_ledger ''alice'' = 100" "Payer demo_redeem_auth = ''alice''"
    "Amount demo_redeem_auth = 5"
    by (simp_all add: demo_hub_def demo_ledger_def empty_ledger_def authSettled_def Balance_def row_or_def
        demo_redeem_auth_def demo_auth_def has_key_def)
  show ?thesis
    using redemption_destroys_exactly [OF run demo_supply_ok demo_not_registered] va facts by (auto simp: Let_def)
qed

end
