(* ===== verification/First_Verifies.thy ===== *)
theory First_Verifies
  imports Replay_Guards
begin

text \<open>
  Where the records of first verifications come from (\<open>x402_first_verify\<close>). A row that says the key
  was the active tip was written by a step of the hub at which the payer's stored key history had its
  active tip at that key state and an authorization with this id, signed under it, verified. This is
  followed through every operation and then over runs.
\<close>

section \<open>Seen while its key was current\<close>

text \<open>\<open>seen_at_tip c kels i payer seq t\<close>: with the agents \<open>kels\<close> and at \<open>t\<close>, an authorization of \<open>payer\<close>
  with the id \<open>i\<close>, signed at the key state \<open>seq\<close>, verifies under that key state of the payer's stored key
  history, and this key state is the history's active tip.\<close>

definition seen_at_tip :: "core \<Rightarrow> (aid, bytes) table \<Rightarrow> string \<Rightarrow> aid \<Rightarrow> u64 \<Rightarrow> millis \<Rightarrow> bool" where
  "seen_at_tip c kels i payer seq t \<longleftrightarrow>
     (\<exists>auth env raw k sts. AuthID c auth = Some i \<and> Payer auth = payer \<and> AEnvelope auth = Some env \<and> KeyStateSeq env = seq \<and>
        AgentKEL_of kels payer = Some raw \<and> UnmarshalKEL c raw = Some k \<and>
        AuthVerify c auth (take (unat seq + 1) k) t = None \<and>
        Replay c k = Some sts \<and> sts \<noteq> [] \<and> StKeyStateSeq (last sts) = seq \<and> StStatus (last sts) = StatusActive)"

text \<open>\<open>tips_from c kels t l l'\<close>: the rows of \<open>l'\<close> that say so are rows of \<open>l\<close>, or true now.\<close>

definition tips_from :: "core \<Rightarrow> (aid, bytes) table \<Rightarrow> millis \<Rightarrow> ledger \<Rightarrow> ledger \<Rightarrow> bool" where
  "tips_from c kels t l l' \<longleftrightarrow> (\<forall>i row. (i, row) \<in> set (first_verifies l') \<longrightarrow> fv_tip_at_first row \<longrightarrow>
     (i, row) \<in> set (first_verifies l) \<or> seen_at_tip c kels i (fv_payer row) (word_of_int (fv_key_state_seq row)) t)"

lemma tips_from_same: "first_verifies l' = first_verifies l \<Longrightarrow> tips_from c kels t l l'"
  by (simp add: tips_from_def)

lemma tips_from_then_same: "tips_from c kels t l l1 \<Longrightarrow> first_verifies l' = first_verifies l1 \<Longrightarrow> tips_from c kels t l l'"
  by (simp add: tips_from_def)

lemma in_set_update: "(j, w) \<in> set (AList.update k v t) \<Longrightarrow> j = k \<and> w = v \<or> (j, w) \<in> set t"
  by (induction t) (auto split: if_split_asm)

section \<open>The operations\<close>

lemma keyAtFirstVerify_tips:
  assumes va: "verifiedAuth c kels hub p = Inr (auth, i, k)"
    and run: "keyAtFirstVerify c kels auth i k now l = (l', r)"
  shows "tips_from c kels now l l'"
proof (cases "l' = l")
  case True
  then show ?thesis by (simp add: tips_from_same)
next
  case False
  note v = verifiedAuth_Inr [OF va]
  from run False obtain env x where env: "AEnvelope auth = Some env"
    and ver: "AuthVerify c auth (take (unat (KeyStateSeq env) + 1) k) now = None"
    and rf: "recordFirstVerify c kels auth i (KeyStateSeq env) now l = (l', x)"
    by (auto simp: keyAtFirstVerify_def Let_def split: option.split_asm if_split_asm prod.split_asm sum.split_asm)
  obtain raw where raw: "AgentKEL_of kels (Payer auth) = Some raw" "UnmarshalKEL c raw = Some k" using v(5) by blast
  from rf raw False obtain s0 ss where rp: "Replay c k = Some (s0 # ss)"
    and fv: "first_verifies l' = AList.update i
      \<lparr>fv_payer = Payer auth, fv_key_state_seq = uint (KeyStateSeq env),
       fv_tip_at_first = (StKeyStateSeq (last (s0 # ss)) = KeyStateSeq env \<and> StStatus (last (s0 # ss)) = StatusActive),
       fv_first_verified_at = now, fv_delete_after = firstVerifyDeleteAfter (NotAfter auth)\<rparr> (first_verifies l)"
    unfolding recordFirstVerify_def Let_def
    by (auto split: option.split_asm list.split_asm if_split_asm)
  have "seen_at_tip c kels i (Payer auth) (KeyStateSeq env) now"
    if "StKeyStateSeq (last (s0 # ss)) = KeyStateSeq env" "StStatus (last (s0 # ss)) = StatusActive"
    using that v(2) env raw ver rp unfolding seen_at_tip_def by blast
  then show ?thesis unfolding tips_from_def fv by (auto dest!: in_set_update)
qed

lemma settleAuth_first_verifies:
  assumes "settleAuth c h kels hub now auth i via l = (l', out)" and "supply_ok h l" and "hub = hubAID h"
    and "Payer auth \<noteq> hub"
  shows "first_verifies l' = first_verifies l"
  using settleAuth_effect [OF assms] by auto

lemma settleHere_tips:
  assumes run: "settleHere c h kels (hubAID h) now p req via l = (l', out)" and sup: "supply_ok h l"
    and nr: "\<not> registered kels (hubAID h)"
  shows "tips_from c kels (unix_milli now) l l'"
proof (cases "l' = l")
  case True
  then show ?thesis by (simp add: tips_from_same)
next
  case False
  with run obtain auth i k where va: "verifiedAuth c kels (hubAID h) p = Inr (auth, i, k)"
    and rest: "(case keyAtFirstVerify c kels auth i k (unix_milli now) l of
         (l', Some e) \<Rightarrow> (l', refusedSettlement c e (Some auth) (CreditNetwork c (hubAID h)))
       | (l', None) \<Rightarrow> settleAuth c h kels (hubAID h) now auth i via l') = (l', out)"
    unfolding settleHere_def Let_def by (auto split: option.split_asm sum.split_asm prod.split_asm)
  obtain l1 x where k1: "keyAtFirstVerify c kels auth i k (unix_milli now) l = (l1, x)" by force
  have p: "Payer auth \<noteq> hubAID h" using verifiedAuth_Inr(1) [OF va] nr by auto
  have sup1: "supply_ok h l1" using keyAtFirstVerify_only [OF k1] sup supply_ok_only by blast
  have "first_verifies l' = first_verifies l1"
    using rest k1 settleAuth_first_verifies [OF _ sup1 refl p] by (cases x) auto
  with keyAtFirstVerify_tips [OF va k1] show ?thesis by (rule tips_from_then_same)
qed

lemma VerifyWithRequirements_tips:
  assumes "VerifyWithRequirements c kels hub now p req l = (l', v)"
  shows "tips_from c kels (unix_milli now) l l'"
proof (cases "l' = l")
  case True
  then show ?thesis by (simp add: tips_from_same)
next
  case False
  with assms obtain auth i k r where "verifiedAuth c kels hub p = Inr (auth, i, k)"
    "keyAtFirstVerify c kels auth i k (unix_milli now) l = (l', r)"
    unfolding VerifyWithRequirements_def Let_def
    by (auto split: option.split_asm if_split_asm sum.split_asm prod.split_asm)
  then show ?thesis by (rule keyAtFirstVerify_tips)
qed

lemma Redeem_tips:
  assumes run: "Redeem c h kels (hubAID h) now p reference l = (l', r)" and sup: "supply_ok h l"
    and nr: "\<not> registered kels (hubAID h)"
  shows "tips_from c kels (unix_milli now) l l'"
proof (cases "l' = l")
  case True
  then show ?thesis by (simp add: tips_from_same)
next
  case False
  with run obtain auth i k l1 x where va: "verifiedAuth c kels (hubAID h) p = Inr (auth, i, k)"
    and k1: "keyAtFirstVerify c kels auth i k (unix_milli now) l = (l1, x)"
    and rest: "l' = l1 \<or> (\<exists>amt. redeemNote auth amt reference now
         (settleAuth c h kels (hubAID h) now (auth\<lparr>InteractionID := []\<rparr>) i [] l1) = (l', r))"
    unfolding Redeem_def Let_def
    by (auto split: option.split_asm if_split_asm sum.split_asm prod.split_asm)
  have p: "Payer (auth\<lparr>InteractionID := []\<rparr>) \<noteq> hubAID h" using verifiedAuth_Inr(1) [OF va] nr by auto
  have sup1: "supply_ok h l1" using keyAtFirstVerify_only [OF k1] sup supply_ok_only by blast
  obtain l2 out where sa: "settleAuth c h kels (hubAID h) now (auth\<lparr>InteractionID := []\<rparr>) i [] l1 = (l2, out)"
    by force
  note f2 = settleAuth_first_verifies [OF sa sup1 refl p]
  have "first_verifies l' = first_verifies l1"
    using rest
  proof (elim disjE exE)
    fix amt
    assume "redeemNote auth amt reference now
         (settleAuth c h kels (hubAID h) now (auth\<lparr>InteractionID := []\<rparr>) i [] l1) = (l', r)"
    then have "l' = l2 \<or> (\<exists>j a amt ref at. add_redemption j a amt ref at l2 = Some l')"
      using redeemNote_state sa by metis
    with f2 show ?thesis by (auto dest!: add_redemption_only)
  qed simp
  with keyAtFirstVerify_tips [OF va k1] show ?thesis by (rule tips_from_then_same)
qed

lemma creditTx_first_verifies:
  assumes "creditTx h now a amt reason l = Inr l'"
  shows "first_verifies l' = first_verifies l"
  using assms by (auto simp: creditTx_def Let_def rbind_eq_Inr supplyEventTx_issued add_entry_def split: if_split_asm)

lemma SettleWithRequirements_tips:
  assumes run: "SettleWithRequirements c h (map_option (\<lambda>w. peerSettler c h w now) w) kels (hubAID h) now p req l
      = (l', out)"
    and sup: "supply_ok h l" and nr: "\<not> registered kels (hubAID h)"
  shows "tips_from c kels (unix_milli now) l l'"
proof (cases "l' = l")
  case True
  then show ?thesis by (simp add: tips_from_same)
next
  case False
  then consider "settleHere c h kels (hubAID h) now p req [] l = (l', out)"
    | rq pp auth w' where "peerSettler c h w' now (AcceptedNetwork pp) pp rq auth l = Some (l', out)"
    using run unfolding SettleWithRequirements_def Let_def payeeHere_def
    by (auto split: option.split_asm if_split_asm sum.split_asm prod.split_asm)
  then show ?thesis
  proof cases
    case 1
    then show ?thesis by (rule settleHere_tips [OF _ sup nr])
  next
    case 2
    from peerSettler_clears [OF 2 False] obtain peer k rec where "ClearFromPeer c h now peer k (Some rec) l = Inr l'"
      by blast
    from ClearFromPeer_Inr [OF this supply_okD(1) [OF sup]] False obtain amt where
      "amountInt64 (RAmount rec) = Some amt" "RPayTo rec \<noteq> hubAID h" "clearMove h now peer rec amt l = Inr l'" by auto
    then have "first_verifies l' = first_verifies l" by (auto dest: amountInt64_bounds intro: clearMove_Inr(11))
    then show ?thesis by (rule tips_from_same)
  qed
qed

lemma hub_step_tips:
  assumes st: "hub_step c lc h now s s'" and inv: "hub_inv lc h s" and law: "build_law lc"
  shows "tips_from c (hs_kels s) (unix_milli now) (hs_ledger s) (hs_ledger s')"
proof -
  have sup: "supply_ok h (hs_ledger s)" and nr: "\<not> registered (hs_kels s) (hubAID h)"
    and names: "names_ok (hs_kels s) (hs_ledger s)" using inv by (auto simp: hub_inv_def)
  from st show ?thesis
  proof (cases rule: hub_step.cases)
    case (step_grant a amt reason l')
    then obtain rs where "issueTx h now a amt rs (hs_ledger s) = Inr l'" using GrantCredit_issueTx by blast
    with step_grant(1) show ?thesis by (auto dest!: issueTx_creditTx creditTx_first_verifies intro: tips_from_same)
  next
    case (step_issue a amt reason l')
    then show ?thesis by (auto dest!: issueTx_creditTx creditTx_first_verifies intro: tips_from_same)
  next
    case (step_settle w p req l' out)
    from SettleWithRequirements_tips [OF step_settle(2) sup nr] step_settle(1) show ?thesis by simp
  next
    case (step_settle_peer peer p req l' out)
    have "tips_from c (hs_kels s) (unix_milli now) (hs_ledger s) l'"
    proof (cases "l' = hs_ledger s")
      case False
      with step_settle_peer(3) have "settleHere c h (hs_kels s) (hubAID h) now p req peer (hs_ledger s) = (l', out)"
        unfolding SettleForPeer_def Let_def by (auto split: option.split_asm if_split_asm)
      then show ?thesis by (rule settleHere_tips [OF _ sup nr])
    qed (simp add: tips_from_same)
    with step_settle_peer(1) show ?thesis by simp
  next
    case (step_verify p req l' v)
    with VerifyWithRequirements_tips [OF step_verify(2)] show ?thesis by simp
  next
    case (step_redeem p reference l' r)
    from Redeem_tips [OF step_redeem(2) sup nr] step_redeem(1) show ?thesis by simp
  next
    case (step_discharged peer k rec l')
    then have "first_verifies l' = first_verifies (hs_ledger s)"
      by (auto simp: SettleOwed_def Let_def split: option.split_asm if_split_asm)
    with step_discharged(1) show ?thesis by (simp add: tips_from_same)
  next
    case (step_discharge peer amt l')
    then have "first_verifies l' = first_verifies (hs_ledger s)"
      by (auto simp: DischargeDue_def split: option.split_asm if_split_asm)
    with step_discharge(1) show ?thesis by (simp add: tips_from_same)
  next
    case (step_prune l' ep' r)
    then show ?thesis using pruneLedgerAt_keeps(1) [OF step_prune(2)] by (simp add: tips_from_def)
  next
    case (step_publish l' ep' r)
    then have "l' = hs_ledger s \<or> (\<exists>d. l' = (hs_ledger s)\<lparr>events_since := 0, last_to_day := d\<rparr>)"
      using publishDueAt_Inr [OF step_publish(2) sup law names] by blast
    with step_publish(1) show ?thesis by (auto intro: tips_from_same)
  qed (simp_all add: tips_from_same)
qed

section \<open>Runs\<close>

text \<open>The states of a run in which its steps were taken, each with the clock of its step.\<close>

fun taken_in :: "'s \<Rightarrow> (time_ns \<times> 's) list \<Rightarrow> (time_ns \<times> 's) list" where
  "taken_in s [] = []"
| "taken_in s ((t, s') # r) = (t, s) # taken_in s' r"

lemma run_tips:
  assumes "clock_run (good_step c lc h) t0 s r" and "(i, row) \<in> set (first_verifies (hs_ledger (end_of s r)))"
    and "fv_tip_at_first row"
  shows "(i, row) \<in> set (first_verifies (hs_ledger s)) \<or>
    (\<exists>t s1. (t, s1) \<in> set (taken_in s r) \<and>
       seen_at_tip c (hs_kels s1) i (fv_payer row) (word_of_int (fv_key_state_seq row)) (unix_milli t))"
  using assms(1,2)
proof (induction r arbitrary: t0 s)
  case (Cons x r)
  obtain t s' where x: "x = (t, s')" by force
  from Cons.prems have st: "good_step c lc h t s s'" and rest: "clock_run (good_step c lc h) t s' r"
    and row: "(i, row) \<in> set (first_verifies (hs_ledger (end_of s' r)))" by (simp_all add: x)
  have tf: "tips_from c (hs_kels s) (unix_milli t) (hs_ledger s) (hs_ledger s')"
    using st hub_step_tips by (auto simp: good_step_def)
  from Cons.IH [OF rest row] show ?case
  proof (elim disjE exE conjE)
    assume "(i, row) \<in> set (first_verifies (hs_ledger s'))"
    with tf assms(3) show ?thesis unfolding tips_from_def by (auto simp: x)
  next
    fix t1 s1
    assume "(t1, s1) \<in> set (taken_in s' r)"
      "seen_at_tip c (hs_kels s1) i (fv_payer row) (word_of_int (fv_key_state_seq row)) (unix_milli t1)"
    then show ?thesis by (auto simp: x)
  qed
qed simp

lemma good_run_inv:
  "clock_run (good_step c lc h) t0 s r \<Longrightarrow> hub_inv lc h s \<Longrightarrow> build_law lc \<Longrightarrow> hub_inv lc h (end_of s r)"
proof (induction r arbitrary: t0 s)
  case (Cons x r)
  obtain t s' where x: "x = (t, s')" by force
  with Cons.prems have "hub_inv lc h s'" using hub_step_inv [of c lc h t s s'] by (simp add: good_step_def)
  with Cons x show ?case by auto
qed simp

text \<open>A key check that passes: the key is current, or the payment was seen while it was, before or now.\<close>

lemma keyAtFirstVerify_seen:
  assumes run: "keyAtFirstVerify c kels auth i k now l = (l', None)"
    and va: "verifiedAuth c kels hub p = Inr (auth, i, k)"
  shows "\<exists>env. AEnvelope auth = Some env \<and>
    (AuthVerify c auth k now = None \<or>
     AuthVerify c auth (take (unat (KeyStateSeq env) + 1) k) now = None \<and>
       (seen_at_tip c kels i (Payer auth) (KeyStateSeq env) now \<or>
        (\<exists>row. map_of (first_verifies l) i = Some row \<and> fv_tip_at_first row \<and> fv_payer row = Payer auth \<and>
           word_of_int (fv_key_state_seq row) = KeyStateSeq env)))"
proof -
  obtain env where env: "AEnvelope auth = Some env"
    using run by (auto simp: keyAtFirstVerify_def split: option.split_asm)
  obtain l1 r where rf: "recordFirstVerify c kels auth i (KeyStateSeq env) now l = (l1, r)" by force
  note v = verifiedAuth_Inr [OF va]
  obtain raw where raw: "AgentKEL_of kels (Payer auth) = Some raw" "UnmarshalKEL c raw = Some k" using v(5) by blast
  show ?thesis
  proof (cases "AuthVerify c auth k now = None")
    case False
    with run env rf have ver: "AuthVerify c auth (take (unat (KeyStateSeq env) + 1) k) now = None" and r: "r = Inr True"
      by (auto simp: keyAtFirstVerify_def currentAuth_def Let_def split: if_split_asm option.split_asm sum.split_asm)
    have "seen_at_tip c kels i (Payer auth) (KeyStateSeq env) now \<or>
        (\<exists>row. map_of (first_verifies l) i = Some row \<and> fv_tip_at_first row \<and> fv_payer row = Payer auth \<and>
           word_of_int (fv_key_state_seq row) = KeyStateSeq env)"
    proof (cases "map_of (first_verifies l) i")
      case (Some row)
      with rf [unfolded r] show ?thesis by (auto simp: recordFirstVerify_def firstVerifyOf_def)
    next
      case None
      with rf [unfolded r] raw obtain s0 ss where "Replay c k = Some (s0 # ss)"
        "StKeyStateSeq (last (s0 # ss)) = KeyStateSeq env" "StStatus (last (s0 # ss)) = StatusActive"
        by (auto simp: recordFirstVerify_def firstVerifyOf_def Let_def split: option.split_asm list.split_asm if_split_asm)
      with v(2) env raw ver show ?thesis unfolding seen_at_tip_def by blast
    qed
    with env ver show ?thesis by blast
  qed (use env in blast)
qed

text \<open>The doors that move credit on an authorization for the first time pass the key check.\<close>

lemma settleHere_key:
  assumes "settleHere c h kels (hubAID h) now p req via l = (l', out)" and "Success out" "\<not> ExtReplayed out"
    and "supply_ok h l" and "\<not> registered kels (hubAID h)"
  shows "\<exists>auth i k l1. verifiedAuth c kels (hubAID h) p = Inr (auth, i, k) \<and>
    keyAtFirstVerify c kels auth i k (unix_milli now) l = (l1, None)"
  using settleHere_effect [OF assms(1,4) refl assms(5)] assms(2,3) by blast

lemma Redeem_key:
  assumes "Redeem c h kels (hubAID h) now p reference l = (l', Inr rd)" and "l' \<noteq> l"
  shows "\<exists>auth i k l1. verifiedAuth c kels (hubAID h) p = Inr (auth, i, k) \<and>
    keyAtFirstVerify c kels auth i k (unix_milli now) l = (l1, None)"
  using assms unfolding Redeem_def Let_def
  by (auto split: option.split_asm if_split_asm sum.split_asm prod.split_asm)

end
