(* ===== verification/Listing_Properties.thy ===== *)
theory Listing_Properties
  imports Demo First_Verifies
begin

text \<open>
  Properties of what the hub shows of its ledger: listings and proofs answer the same whatever the
  janitor and the cache did before, the chain of epochs can be read whole, page by page. And of the
  parts the ledger is built on: the widths of amounts, the window of an authorization, the key an
  authorization is checked against, base64url.
\<close>

section \<open>Listings\<close>

text \<open>A listing never shows the janitor: the entries and the redemptions of an account read at any time
  after the janitor ran are the same as if it had not run.\<close>

theorem listings_independent_of_janitor:
  assumes "now \<le> now'"
  shows "LedgerEntries now' a n (pruneTables now l) = LedgerEntries now' a n l \<and>
    Redemptions now' a n (pruneTables now l) = Redemptions now' a n l"
  using LedgerEntries_after_prune [OF assms] Redemptions_after_prune [OF assms] by blast

theorem listings_independent_of_janitor_witness:
  "LedgerEntries (14 * day_ns) ''alice'' 0 (pruneTables (14 * day_ns) demo_ledger) =
     LedgerEntries (14 * day_ns) ''alice'' 0 demo_ledger \<and>
   (case LedgerEntries (14 * day_ns) ''alice'' 0 demo_ledger of Inl _ \<Rightarrow> False | Inr w \<Rightarrow> lw_total w = 1)"
proof -
  have "(case LedgerEntries (14 * day_ns) ''alice'' 0 demo_ledger of Inl _ \<Rightarrow> False | Inr w \<Rightarrow> lw_total w = 1)"
    by code_simp
  then show ?thesis using listings_independent_of_janitor [of "14 * day_ns" "14 * day_ns" "''alice''" 0 demo_ledger]
    by simp
qed

text \<open>A liability proof never shows the cache: in every reachable state, and after any history of
  proofs, publications and deletions, \<open>liabilityProofAt\<close> answers what it would answer with an empty
  cache of trees.\<close>

theorem liability_proof_independent_of_cache:
  assumes "reachable c lc h s" and "hubAID h \<noteq> []" and "build_law lc"
  shows "snd (liabilityProofAt lc a d now (hs_epochs s)) =
    snd (liabilityProofAt lc a d now ((hs_epochs s)\<lparr>trees := []\<rparr>))"
  using liabilityProofAt_without_cache reachable_inv [OF assms] by (simp add: hub_inv_def)

text \<open>The public record can be read whole: from a reachable state (with fewer epochs than SQLite can
  number), a reader who asks for the epochs after the last one it has, page after page, gets every
  epoch of the chain once and in order.\<close>

theorem issuance_pages_complete:
  assumes "reachable c lc h s" and "hubAID h \<noteq> []" and "build_law lc"
    and "int (length (chain (hs_epochs s))) \<le> max_int64"
  shows "walk_pages (\<lambda>c. SupplyEpochs (c + 1) 0 (hs_epochs s)) ep_seq (-1) (length (chain (hs_epochs s))) =
    chain (hs_epochs s)"
proof -
  let ?es = "chain (hs_epochs s)"
  have ln: "linked (GenesisPrev lc) 0 None ?es"
    using reachable_inv [OF assms(1-3)] by (simp add: hub_inv_def epochs_ok_def)
  have "ep_seq e \<le> max_int64" if "e \<in> set ?es" for e
  proof -
    have "ep_seq e \<in> set (map ep_seq ?es)" using that by simp
    then show ?thesis using linked_seqs [OF ln] assms(4) by auto
  qed
  with ln have "chain_ok lc (hs_epochs s)" by (simp add: chain_ok_def)
  from issuance_walk [OF this] show ?thesis by (simp add: issuance_after_def [abs_def])
qed

text \<open>Two epochs, published two weeks apart.\<close>

definition demo_publish :: "time_ns \<Rightarrow> hub_state \<Rightarrow> hub_state" where
  "demo_publish now s = (case publishDueAt demo_liab demo_hub (hs_kels s) now (hs_ledger s) (hs_epochs s) of
     Inl e \<Rightarrow> s | Inr (l', ep', r) \<Rightarrow> s\<lparr>hs_ledger := l', hs_epochs := ep'\<rparr>)"

lemma demo_publish_reachable:
  "reachable demo_core demo_liab demo_hub s \<Longrightarrow> reachable demo_core demo_liab demo_hub (demo_publish now s)"
  unfolding demo_publish_def by (auto intro: reach_step step_publish split: sum.splits)

definition demo_two_epochs :: hub_state where
  "demo_two_epochs = demo_publish (22 * day_ns) (demo_publish (8 * day_ns) demo_base)"

lemma demo_two_reachable: "reachable demo_core demo_liab demo_hub demo_two_epochs"
  unfolding demo_two_epochs_def by (intro demo_publish_reachable demo_base_reachable)

lemma demo_two_chain: "map (\<lambda>e. (ep_seq e, ep_to_day e)) (chain (hs_epochs demo_two_epochs)) = [(0, 7), (1, 21)]"
  by code_simp

theorem issuance_pages_complete_witness:
  "walk_pages (\<lambda>c. SupplyEpochs (c + 1) 0 (hs_epochs demo_two_epochs)) ep_seq (-1) 2 = chain (hs_epochs demo_two_epochs)"
proof -
  have "length (chain (hs_epochs demo_two_epochs)) = 2" using arg_cong [OF demo_two_chain, of length] by simp
  then show ?thesis
    using issuance_pages_complete [OF demo_two_reachable _ demo_build_law] by (simp add: demo_hub_def max_int64_def)
qed

theorem liability_proof_independent_of_cache_witness:
  "snd (liabilityProofAt demo_liab ''alice'' None (23 * day_ns) (hs_epochs demo_two_epochs)) =
     snd (liabilityProofAt demo_liab ''alice'' None (23 * day_ns) ((hs_epochs demo_two_epochs)\<lparr>trees := []\<rparr>)) \<and>
   (case snd (liabilityProofAt demo_liab ''alice'' None (23 * day_ns) (hs_epochs demo_two_epochs)) of
      Inr _ \<Rightarrow> True | _ \<Rightarrow> False)"
proof -
  have "(case snd (liabilityProofAt demo_liab ''alice'' None (23 * day_ns) (hs_epochs demo_two_epochs)) of
      Inr _ \<Rightarrow> True | _ \<Rightarrow> False)" by code_simp
  then show ?thesis
    using liability_proof_independent_of_cache [OF demo_two_reachable _ demo_build_law, of "''alice''" None "23 * day_ns"]
    by (simp add: demo_hub_def)
qed

section \<open>Amounts\<close>

text \<open>An amount is accepted as a ledger number exactly when its signed reading is positive, and then
  it is that reading: \<open>amountInt64\<close> never lets a conversion of the wire's unsigned 64 bits turn into a
  negative or zero movement.\<close>

theorem amount_is_signed_reading:
  "amountInt64 n = (if 1 \<le> sint n then Some (sint n) else None)"
  by (rule amountInt64_eq_cast)

text \<open>The guarded addition of a row is exact: for a row and a delta of 64 bits it fails exactly when
  the sum does not fit in 64 bits (or the delta is the least number), and otherwise the row holds the
  sum and every other row is unchanged; no table with rows in range ever gets one out of range.\<close>

theorem guarded_addition_exact:
  assumes "rows_in_range t" and "in_int64 d"
  shows "(case addToRow t k d of
      Inl e \<Rightarrow> e = Refused ReasonInvalidAmount \<and> (d = min_int64 \<or> \<not> in_int64 (row_or t k 0 + d))
    | Inr t' \<Rightarrow> in_int64 (row_or t k 0 + d) \<and> rows_in_range t' \<and>
        (\<forall>a. row_or t' a 0 = row_or t a 0 + (if a = k then d else 0)))"
proof (cases "addToRow t k d")
  case (Inl e)
  have "e = Refused ReasonInvalidAmount"
    using Inl by (auto simp: addToRow_def Let_def split: if_split_asm option.split_asm)
  with Inl addToRow_Inr [OF assms(2) rows_in_range_row [OF assms(1)], of k] show ?thesis by auto
next
  case (Inr t')
  with addToRow_Inr [OF assms(2) rows_in_range_row [OF assms(1)], of k t'] addToRow_in_range [OF Inr assms]
  show ?thesis by (simp add: row_or_update)
qed

theorem guarded_addition_exact_witness:
  "addToRow [(''a'', max_int64)] ''a'' 1 = Inl (Refused ReasonInvalidAmount) \<and>
   (case addToRow [(''a'', max_int64 - 1)] ''a'' 1 of Inl _ \<Rightarrow> False | Inr t' \<Rightarrow> row_or t' ''a'' 0 = max_int64)"
proof -
  have r: "rows_in_range [(''a'', max_int64)]" "rows_in_range [(''a'', max_int64 - 1)]" "in_int64 1"
    by (simp_all add: rows_in_range_def in_int64_def min_int64_def max_int64_def)
  have "addToRow [(''a'', max_int64)] ''a'' 1 = Inl (Refused ReasonInvalidAmount)" by code_simp
  moreover have "(case addToRow [(''a'', max_int64 - 1)] ''a'' 1 of Inl _ \<Rightarrow> False | Inr t' \<Rightarrow> True)" by code_simp
  ultimately show ?thesis
    using guarded_addition_exact [OF r(2,3), of "''a''"] by (auto simp: row_or_def split: sum.splits)
qed

section \<open>Authorizations\<close>

text \<open>No authorization is open longer than the longest window: whenever \<open>parseAuth\<close> accepts an
  authorization, its end is at most that many milliseconds after its beginning, although the code
  subtracts the two as unsigned 64-bit numbers.\<close>

theorem authorization_window_bounded:
  assumes "parseAuth c p = Inr auth" and "in_int64 (IssuedAt auth)" and "in_int64 (NotAfter auth)"
    and "0 \<le> MaxAuthWindow c" and "MaxAuthWindow c \<le> max_int64"
  shows "NotAfter auth - IssuedAt auth \<le> MaxAuthWindow c div 1000000"
proof (cases "NotAfter auth > IssuedAt auth")
  case False
  then have "NotAfter auth - IssuedAt auth \<le> 0" by simp
  also have "0 \<le> MaxAuthWindow c div 1000000" using assms(4) by simp
  finally show ?thesis .
next
  case True
  have "uint (word_of_int (NotAfter auth) - word_of_int (IssuedAt auth) :: u64) = NotAfter auth - IssuedAt auth"
    unfolding wi_hom_sub uint_word_of_int
    by (rule mod_pos_pos_trivial) (use True assms(2,3) in \<open>auto simp: in_int64_def min_int64_def max_int64_def\<close>)
  moreover have "uint (maxAuthWindowMillis c) = MaxAuthWindow c div 1000000"
  proof -
    have "go_div (MaxAuthWindow c) ms_ns = MaxAuthWindow c div 1000000"
      using assms(4) by (simp add: go_div_nonneg ms_ns_def)
    moreover have "MaxAuthWindow c div 1000000 \<le> max_int64" using assms(4,5) by simp
    ultimately show ?thesis using assms(4) by (simp add: maxAuthWindowMillis_def uint_of_int64)
  qed
  ultimately show ?thesis
    using parseAuth_Inr(2) [OF assms(1)] True
    by (auto simp: authWindow_def word_less_def not_less split: if_split_asm)
qed

theorem authorization_window_bounded_witness:
  "NotAfter demo_auth - IssuedAt demo_auth \<le> MaxAuthWindow demo_core div 1000000"
proof -
  have "parseAuth demo_core (Some demo_payload) = Inr demo_auth" by code_simp
  then show ?thesis
    by (rule authorization_window_bounded)
       (simp_all add: demo_auth_def demo_core_def in_int64_def min_int64_def max_int64_def time_defs)
qed

text \<open>C13: A payment signed with a key that is no longer current moves credit only if the hub saw it while
  the key was: after any run of the hub from its start, a payment that succeeds for the first time, at
  either settlement door or as a redemption, verifies now against the payer's whole stored key
  history, or it verifies now against the history cut at the key state that signed it and in some step
  of the run, or now, the hub verified an authorization with this id, payer and key state when that
  key state was the active tip of the history it stored for the payer then.\<close>

theorem retired_key_needs_first_verification:
  assumes "hubAID h \<noteq> []" and law: "build_law lc"
    and run: "clock_run (hub_step c lc h) t0 start_state r"
    and s: "s = end_of start_state r"
    and door: "SettleWithRequirements c h ps (hs_kels s) (hubAID h) now p req (hs_ledger s) = (l', out) \<and>
          on_own_network c (hubAID h) p \<and> Success out \<and> \<not> ExtReplayed out \<or>
        SettleForPeer c h (hs_kels s) (hubAID h) now peer p req (hs_ledger s) = (l', out) \<and>
          Success out \<and> \<not> ExtReplayed out \<or>
        Redeem c h (hs_kels s) (hubAID h) now p reference (hs_ledger s) = (l', Inr rd) \<and> l' \<noteq> hs_ledger s"
    and pa: "parseAuth c p = Inr auth"
  shows "\<exists>i env raw k. AuthID c auth = Some i \<and> AEnvelope auth = Some env \<and>
    AgentKEL_of (hs_kels s) (Payer auth) = Some raw \<and> UnmarshalKEL c raw = Some k \<and>
    (AuthVerify c auth k (unix_milli now) = None \<or>
     AuthVerify c auth (take (unat (KeyStateSeq env) + 1) k) (unix_milli now) = None \<and>
       (\<exists>t s1. (t, s1) \<in> set (taken_in start_state r @ [(now, s)]) \<and>
          seen_at_tip c (hs_kels s1) i (Payer auth) (KeyStateSeq env) (unix_milli t)))"
proof -
  have inv0: "hub_inv lc h start_state" by (rule hub_inv_start [OF assms(1)])
  have good: "clock_run (good_step c lc h) t0 start_state r" by (rule run_good [OF run inv0 law])
  have inv: "hub_inv lc h s" unfolding s by (rule good_run_inv [OF good inv0 law])
  have sup: "supply_ok h (hs_ledger s)" and nr: "\<not> registered (hs_kels s) (hubAID h)"
    using inv by (auto simp: hub_inv_def)
  have "\<exists>a i k l1. verifiedAuth c (hs_kels s) (hubAID h) p = Inr (a, i, k) \<and>
      keyAtFirstVerify c (hs_kels s) a i k (unix_milli now) (hs_ledger s) = (l1, None)"
    using door
  proof (elim disjE conjE)
    assume st: "SettleWithRequirements c h ps (hs_kels s) (hubAID h) now p req (hs_ledger s) = (l', out)"
      "on_own_network c (hubAID h) p" and ok: "Success out" "\<not> ExtReplayed out"
    from SettleWithRequirements_own [OF st] ok(1)
    have "settleHere c h (hs_kels s) (hubAID h) now p req [] (hs_ledger s) = (l', out)" by blast
    from settleHere_key [OF this ok sup nr] show ?thesis .
  next
    assume st: "SettleForPeer c h (hs_kels s) (hubAID h) now peer p req (hs_ledger s) = (l', out)"
      and ok: "Success out" "\<not> ExtReplayed out"
    from settleHere_key [OF SettleForPeer_here(1) [OF st ok(1)] ok sup nr] show ?thesis .
  next
    assume "Redeem c h (hs_kels s) (hubAID h) now p reference (hs_ledger s) = (l', Inr rd)" "l' \<noteq> hs_ledger s"
    then show ?thesis by (rule Redeem_key)
  qed
  then obtain a i k l1 where va: "verifiedAuth c (hs_kels s) (hubAID h) p = Inr (a, i, k)"
    and k1: "keyAtFirstVerify c (hs_kels s) a i k (unix_milli now) (hs_ledger s) = (l1, None)" by blast
  note v = verifiedAuth_Inr [OF va]
  have a: "a = auth" using v(6) pa by simp
  obtain env where env: "AEnvelope auth = Some env"
    and key: "AuthVerify c auth k (unix_milli now) = None \<or>
     AuthVerify c auth (take (unat (KeyStateSeq env) + 1) k) (unix_milli now) = None \<and>
       (seen_at_tip c (hs_kels s) i (Payer auth) (KeyStateSeq env) (unix_milli now) \<or>
        (\<exists>row. map_of (first_verifies (hs_ledger s)) i = Some row \<and> fv_tip_at_first row \<and> fv_payer row = Payer auth \<and>
           word_of_int (fv_key_state_seq row) = KeyStateSeq env))"
    using keyAtFirstVerify_seen [OF k1 va] unfolding a by blast
  have before: "\<exists>t s1. (t, s1) \<in> set (taken_in start_state r) \<and>
      seen_at_tip c (hs_kels s1) i (Payer auth) (KeyStateSeq env) (unix_milli t)"
    if row: "map_of (first_verifies (hs_ledger s)) i = Some row" "fv_tip_at_first row" "fv_payer row = Payer auth"
      "word_of_int (fv_key_state_seq row) = KeyStateSeq env" for row
  proof -
    have "(i, row) \<in> set (first_verifies (hs_ledger (end_of start_state r)))"
      using map_of_SomeD [OF row(1)] by (simp add: s)
    from run_tips [OF good this row(2)] row(3,4) show ?thesis by (simp add: start_state_def empty_ledger_def)
  qed
  have "AuthVerify c auth k (unix_milli now) = None \<or>
     AuthVerify c auth (take (unat (KeyStateSeq env) + 1) k) (unix_milli now) = None \<and>
       (\<exists>t s1. (t, s1) \<in> set (taken_in start_state r @ [(now, s)]) \<and>
          seen_at_tip c (hs_kels s1) i (Payer auth) (KeyStateSeq env) (unix_milli t))"
  proof -
    have "\<exists>t s1. (t, s1) \<in> set (taken_in start_state r @ [(now, s)]) \<and>
          seen_at_tip c (hs_kels s1) i (Payer auth) (KeyStateSeq env) (unix_milli t)"
      if "\<not> AuthVerify c auth k (unix_milli now) = None"
    proof (cases "seen_at_tip c (hs_kels s) i (Payer auth) (KeyStateSeq env) (unix_milli now)")
      case True
      then show ?thesis by (intro exI [of _ now] exI [of _ s]) simp
    next
      case False
      with key that before have "\<exists>t s1. (t, s1) \<in> set (taken_in start_state r) \<and>
          seen_at_tip c (hs_kels s1) i (Payer auth) (KeyStateSeq env) (unix_milli t)" by blast
      then obtain t s1 where "(t, s1) \<in> set (taken_in start_state r)"
        "seen_at_tip c (hs_kels s1) i (Payer auth) (KeyStateSeq env) (unix_milli t)" by blast
      then show ?thesis by (intro exI [of _ t] exI [of _ s1]) simp
    qed
    with key show ?thesis by blast
  qed
  with env v(2,5) show ?thesis unfolding a by blast
qed

text \<open>A payment verified while its key was current, the payer's key rotated, the payment settled: by the
  record of the first verification, and not without it.\<close>

theorem retired_key_needs_first_verification_witness:
  "(\<exists>t s1. (t, s1) \<in> set (taken_in start_state rotated_run @ [(demo_time + 1000 * ms_ns, rotated_state)]) \<and>
     seen_at_tip rotated_core (hs_kels s1) ''auth1'' ''alice'' 0 (unix_milli t)) \<and>
   AuthVerify rotated_core demo_auth rotated_kel 3000 = Some VErrOther \<and>
   Success (snd rotated_settle) \<and> \<not> Success (snd unseen_settle)"
proof -
  have "\<exists>i env raw k. AuthID rotated_core demo_auth = Some i \<and> AEnvelope demo_auth = Some env \<and>
    AgentKEL_of (hs_kels rotated_state) (Payer demo_auth) = Some raw \<and> UnmarshalKEL rotated_core raw = Some k \<and>
    (AuthVerify rotated_core demo_auth k (unix_milli (demo_time + 1000 * ms_ns)) = None \<or>
     AuthVerify rotated_core demo_auth (take (unat (KeyStateSeq env) + 1) k) (unix_milli (demo_time + 1000 * ms_ns)) = None \<and>
       (\<exists>t s1. (t, s1) \<in> set (taken_in start_state rotated_run @ [(demo_time + 1000 * ms_ns, rotated_state)]) \<and>
          seen_at_tip rotated_core (hs_kels s1) i (Payer demo_auth) (KeyStateSeq env) (unix_milli t)))"
  proof (rule retired_key_needs_first_verification [OF _ demo_build_law rotated_run_ok rotated_run_end disjI1])
    show "SettleWithRequirements rotated_core demo_hub None (hs_kels rotated_state) (hubAID demo_hub)
        (demo_time + 1000 * ms_ns) (Some demo_payload) (Some demo_requirements) (hs_ledger rotated_state) =
       (fst rotated_settle, snd rotated_settle) \<and> on_own_network rotated_core (hubAID demo_hub) (Some demo_payload) \<and>
       Success (snd rotated_settle) \<and> \<not> ExtReplayed (snd rotated_settle)"
      using rotated_settled by (simp add: rotated_settle_def on_own_network_def demo_payload_def rotated_core_def demo_core_def demo_hub_def)
    show "parseAuth rotated_core (Some demo_payload) = Inr demo_auth" by code_simp
  qed (simp add: demo_hub_def)
  then obtain env where "AEnvelope demo_auth = Some env" and "\<exists>t s1. (t, s1) \<in> set (taken_in start_state rotated_run @
       [(demo_time + 1000 * ms_ns, rotated_state)]) \<and>
     seen_at_tip rotated_core (hs_kels s1) ''auth1'' ''alice'' (KeyStateSeq env) (unix_milli t)"
    unfolding rotated_facts(2,3,4,7) using rotated_facts(1,4,5) by (auto simp del: set_append)
  then show ?thesis using rotated_settled unseen_refused rotated_facts(1,6) by simp
qed

section \<open>Binary on the wire\<close>

text \<open>C14: A byte string has one spelling on the wire: \<open>DecodeB64URL\<close> accepts a text exactly when it is the
  text \<open>EncodeB64URL\<close> writes for the bytes it answers, so padding, line breaks, the other alphabet and
  stray final bits are all refused, and everything encoded decodes to itself.\<close>

theorem b64url_one_spelling:
  "DecodeB64URL m s = Inr b \<longleftrightarrow> s = EncodeB64URL b"
  using decode_encode_aux encode_decode_aux by (auto simp: DecodeB64URL_Inr)

end
