(* ===== verification/Quota.thy ===== *)
theory Quota
  imports Hub_Prelude
begin

text \<open>
  \<open>internal/aghub/quota.go\<close>: what one recipient takes from senders that are not its contacts. The
  raised values are the table \<open>quota_override\<close>, written by \<open>SetQuota\<close> in this process or another; the
  hub process reads the whole table into a cache and uses it for \<open>quotaRefresh\<close>.
\<close>

section \<open>Quotas\<close>

record quota =
  FirstContactsPerMin :: int
  NonContactMsgs :: int
  NonContactBytes :: int

definition DefaultFirstContactsPerMin :: int where "DefaultFirstContactsPerMin = 30"
definition DefaultNonContactMsgs :: int where "DefaultNonContactMsgs = 500"
definition DefaultNonContactBytes :: int where "DefaultNonContactBytes = 67108864"
definition maxQuotaValue :: int where "maxQuotaValue = 2147483647"
definition quotaRefresh :: int where "quotaRefresh = 30 * second_ns"

lemmas quota_consts = DefaultFirstContactsPerMin_def DefaultNonContactMsgs_def DefaultNonContactBytes_def
  maxQuotaValue_def

definition DefaultQuota :: quota where
  "DefaultQuota = \<lparr>FirstContactsPerMin = DefaultFirstContactsPerMin, NonContactMsgs = DefaultNonContactMsgs,
     NonContactBytes = DefaultNonContactBytes\<rparr>"

definition FirstContactsBurst :: "quota \<Rightarrow> int" where
  "FirstContactsBurst q = wrap64 (2 * FirstContactsPerMin q)"

record quota_change =
  ch_first_contacts :: "int option"
  ch_msgs :: "int option"
  ch_mib :: "int option"

datatype quota_error = QuotaBelowDefaultError string int | ErrQuotaTooLarge

section \<open>A change\<close>

text \<open>The loop of \<open>QuotaChange.Check\<close> over the values in the order of the options.\<close>

fun check_values :: "(string \<times> int option \<times> int) list \<Rightarrow> quota_error option" where
  "check_values [] = None"
| "check_values ((name, v, least) # r) =
    (case v of
      None \<Rightarrow> check_values r
    | Some n \<Rightarrow> if n < least then Some (QuotaBelowDefaultError name least)
                else if n > maxQuotaValue then Some ErrQuotaTooLarge else check_values r)"

definition Check :: "quota_change \<Rightarrow> quota_error option" where
  "Check ch = check_values
     [(''first-contacts-per-min'', ch_first_contacts ch, FirstContactsPerMin DefaultQuota),
      (''non-contact-msgs'', ch_msgs ch, NonContactMsgs DefaultQuota),
      (''non-contact-mib'', ch_mib ch, drop_bit 20 (NonContactBytes DefaultQuota))]"

definition QuotaOf :: "(aid, quota) table \<Rightarrow> aid \<Rightarrow> quota" where
  "QuotaOf t a = row_or t a DefaultQuota"

text \<open>The cache of the hub process; \<open>SetQuota\<close> in this process marks it invalid.\<close>

record quota_cache =
  qc_rows :: "(aid, quota) table"
  qc_read_at :: time_ns
  qc_valid :: bool

definition invalidate :: "quota_cache \<Rightarrow> quota_cache" where
  "invalidate c = c\<lparr>qc_valid := False\<rparr>"

definition apply_change :: "quota_change \<Rightarrow> quota \<Rightarrow> quota" where
  "apply_change ch q =
    (let q = (case ch_first_contacts ch of None \<Rightarrow> q | Some n \<Rightarrow> q\<lparr>FirstContactsPerMin := n\<rparr>);
         q = (case ch_msgs ch of None \<Rightarrow> q | Some n \<Rightarrow> q\<lparr>NonContactMsgs := n\<rparr>)
     in (case ch_mib ch of None \<Rightarrow> q | Some n \<Rightarrow> q\<lparr>NonContactBytes := wrap64 (push_bit 20 n)\<rparr>))"

definition SetQuota ::
  "aid \<Rightarrow> quota_change \<Rightarrow> (aid, quota) table \<Rightarrow> quota_cache \<Rightarrow> quota_error + ((aid, quota) table \<times> quota_cache \<times> quota)" where
  "SetQuota a ch t c =
    (case Check ch of
      Some e \<Rightarrow> Inl e
    | None \<Rightarrow>
      (let q = apply_change ch (QuotaOf t a);
           t' = (if q = DefaultQuota then AList.delete a t else AList.update a q t)
       in Inr (t', invalidate c, q)))"

section \<open>The quota in force\<close>

definition clamp :: "quota \<Rightarrow> quota" where
  "clamp q = \<lparr>FirstContactsPerMin = max (FirstContactsPerMin q) (FirstContactsPerMin DefaultQuota),
     NonContactMsgs = max (NonContactMsgs q) (NonContactMsgs DefaultQuota),
     NonContactBytes = max (NonContactBytes q) (NonContactBytes DefaultQuota)\<rparr>"

definition readQuotaOverrides :: "(aid, quota) table \<Rightarrow> (aid, quota) table" where
  "readQuotaOverrides t = map (\<lambda>(a, q). (a, clamp q)) t"

text \<open>\<open>db\<close> is \<open>None\<close> when the table cannot be read.\<close>

definition quota_lookup ::
  "time_ns \<Rightarrow> (aid, quota) table option \<Rightarrow> aid \<Rightarrow> quota_cache \<Rightarrow> quota_cache \<times> quota" where
  "quota_lookup now db a c =
    (let c = (if \<not> qc_valid c \<or> now - qc_read_at c \<ge> quotaRefresh \<or> now < qc_read_at c
              then (case db of None \<Rightarrow> c
                    | Some t \<Rightarrow> \<lparr>qc_rows = readQuotaOverrides t, qc_read_at = now, qc_valid = True\<rparr>)
              else c)
     in (c, row_or (qc_rows c) a DefaultQuota))"

definition QuotaFor :: "time_ns \<Rightarrow> (aid, quota) table option \<Rightarrow> aid \<Rightarrow> quota_cache \<Rightarrow> quota_cache \<times> quota" where
  "QuotaFor now db a c = quota_lookup now db a c"

section \<open>Lemmas\<close>

definition at_least_default :: "quota \<Rightarrow> bool" where
  "at_least_default q \<longleftrightarrow> DefaultFirstContactsPerMin \<le> FirstContactsPerMin q \<and>
     DefaultNonContactMsgs \<le> NonContactMsgs q \<and> DefaultNonContactBytes \<le> NonContactBytes q"

lemma at_least_default_simps [simp]: "at_least_default DefaultQuota" "at_least_default (clamp q)"
  by (simp_all add: at_least_default_def DefaultQuota_def clamp_def)

lemma clamp_id: "at_least_default q \<Longrightarrow> clamp q = q"
  by (simp add: at_least_default_def clamp_def DefaultQuota_def)

lemma map_of_read [table_simps]: "map_of (readQuotaOverrides t) a = map_option clamp (map_of t a)"
  by (induction t) (auto simp: readQuotaOverrides_def)

text \<open>What a change that \<open>Check\<close> lets through can be.\<close>

lemma check_values_None:
  "check_values vs = None \<longleftrightarrow> (\<forall>(name, v, least) \<in> set vs. \<forall>n. v = Some n \<longrightarrow> least \<le> n \<and> n \<le> maxQuotaValue)"
  by (induction vs rule: check_values.induct) (auto split: option.splits if_splits)

lemma Check_None:
  "Check ch = None \<longleftrightarrow>
    (\<forall>n. ch_first_contacts ch = Some n \<longrightarrow> DefaultFirstContactsPerMin \<le> n \<and> n \<le> maxQuotaValue) \<and>
    (\<forall>n. ch_msgs ch = Some n \<longrightarrow> DefaultNonContactMsgs \<le> n \<and> n \<le> maxQuotaValue) \<and>
    (\<forall>n. ch_mib ch = Some n \<longrightarrow> 64 \<le> n \<and> n \<le> maxQuotaValue)"
  by (simp add: Check_def check_values_None DefaultQuota_def DefaultNonContactBytes_def drop_bit_eq_div
      del: check_values.simps)

lemma mib_bytes:
  assumes "64 \<le> n" and "n \<le> maxQuotaValue"
  shows "wrap64 (push_bit 20 n) = n * 1048576" and "DefaultNonContactBytes \<le> n * 1048576"
  using assms
  by (auto simp: push_bit_eq_mult wrap64_def maxQuotaValue_def DefaultNonContactBytes_def)

lemma apply_change_at_least:
  assumes "Check ch = None" and "at_least_default q"
  shows "at_least_default (apply_change ch q)"
  using assms mib_bytes
  by (auto simp: Check_None apply_change_def at_least_default_def Let_def split: option.splits)

lemma SetQuota_Inr:
  "SetQuota a ch t c = Inr (t', c', q) \<longleftrightarrow>
     Check ch = None \<and> q = apply_change ch (QuotaOf t a) \<and> c' = invalidate c \<and>
     t' = (if q = DefaultQuota then AList.delete a t else AList.update a q t)"
  by (auto simp: SetQuota_def Let_def split: option.splits)

lemma SetQuota_reads_back:
  assumes "SetQuota a ch t c = Inr (t', c', q)"
  shows "QuotaOf t' a = q" and "a' \<noteq> a \<Longrightarrow> QuotaOf t' a' = QuotaOf t a'"
  using assms by (auto simp: SetQuota_Inr QuotaOf_def row_or_def map_of_update_eq delete_conv' split: if_splits)

text \<open>The cache holds the clamped table as it was when it was read.\<close>

definition cache_at_least :: "quota_cache \<Rightarrow> bool" where
  "cache_at_least c \<longleftrightarrow> (\<forall>a q. map_of (qc_rows c) a = Some q \<longrightarrow> at_least_default q)"

lemma quota_lookup_at_least:
  assumes "quota_lookup now db a c = (c', q)" and "cache_at_least c"
  shows "cache_at_least c' \<and> at_least_default q"
proof -
  have "cache_at_least c'"
    using assms by (auto simp: quota_lookup_def Let_def cache_at_least_def map_of_read split: option.splits if_splits)
  moreover have "q = row_or (qc_rows c') a DefaultQuota"
    using assms(1) by (auto simp: quota_lookup_def Let_def)
  ultimately show ?thesis by (auto simp: cache_at_least_def row_or_def split: option.splits)
qed

lemma quota_lookup_refreshed:
  assumes "\<not> qc_valid c \<or> quotaRefresh \<le> now - qc_read_at c \<or> now < qc_read_at c"
  shows "quota_lookup now (Some t) a c =
    (\<lparr>qc_rows = readQuotaOverrides t, qc_read_at = now, qc_valid = True\<rparr>, clamp (QuotaOf t a))"
proof -
  have "row_or (readQuotaOverrides t) a DefaultQuota = clamp (QuotaOf t a)"
    using clamp_id [of DefaultQuota] by (auto simp: row_or_def map_of_read QuotaOf_def split: option.splits)
  with assms show ?thesis by (simp add: quota_lookup_def)
qed

section \<open>Two processes\<close>

text \<open>
  The table and the hub's cache over time. \<open>q_set\<close> is a change made in the hub process, \<open>q_outside\<close> one
  made by \<open>anet-hub quota\<close> in another process (any new table), \<open>q_read\<close> a send's lookup, which may find
  the table unreadable. \<open>qs_changed\<close> is the time of the last change from outside; it is not read by
  the code.
\<close>

record quota_state =
  qs_table :: "(aid, quota) table"
  qs_cache :: quota_cache
  qs_changed :: time_ns

inductive quota_step :: "time_ns \<Rightarrow> quota_state \<Rightarrow> quota_state \<Rightarrow> bool" where
  q_set: "SetQuota a ch (qs_table s) (qs_cache s) = Inr (t', c', q) \<Longrightarrow>
     quota_step now s (s\<lparr>qs_table := t', qs_cache := c'\<rparr>)"
| q_outside: "quota_step now s (s\<lparr>qs_table := t', qs_changed := now\<rparr>)"
| q_read: "quota_lookup now (if ok then Some (qs_table s) else None) a (qs_cache s) = (c', q) \<Longrightarrow>
     quota_step now s (s\<lparr>qs_cache := c'\<rparr>)"

inductive_simps quota_step_iff: "quota_step now s s'"

inductive quota_reachable :: "time_ns \<Rightarrow> quota_state \<Rightarrow> bool" where
  quota_start: "quota_reachable t0 \<lparr>qs_table = t, qs_cache = \<lparr>qc_rows = [], qc_read_at = 0, qc_valid = False\<rparr>,
     qs_changed = t0\<rparr>"
| quota_next: "quota_reachable t0 s \<Longrightarrow> quota_step now s s' \<Longrightarrow> t0 \<le> now \<Longrightarrow> quota_reachable now s'"

text \<open>A valid cache is the table as it is, or was read before the last change from outside.\<close>

definition quota_inv :: "time_ns \<Rightarrow> quota_state \<Rightarrow> bool" where
  "quota_inv t0 s \<longleftrightarrow> cache_at_least (qs_cache s) \<and> qs_changed s \<le> t0 \<and>
     (qc_valid (qs_cache s) \<longrightarrow>
        qc_read_at (qs_cache s) \<le> t0 \<and>
        (qc_rows (qs_cache s) = readQuotaOverrides (qs_table s) \<or> qc_read_at (qs_cache s) \<le> qs_changed s))"

lemma quota_reachable_inv: "quota_reachable t0 s \<Longrightarrow> quota_inv t0 s"
proof (induction rule: quota_reachable.induct)
  case (quota_next t0 s now s')
  then have inv: "quota_inv t0 s" and le: "t0 \<le> now" by simp_all
  from \<open>quota_step now s s'\<close> show ?case
  proof (cases rule: quota_step.cases)
    case (q_set a ch t' c' q)
    with inv le show ?thesis by (auto simp: quota_inv_def SetQuota_Inr invalidate_def cache_at_least_def)
  next
    case (q_outside t')
    with inv le show ?thesis by (auto simp: quota_inv_def)
  next
    case (q_read ok a c' q)
    from quota_lookup_at_least [OF q_read(2)] inv have "cache_at_least c'" by (simp add: quota_inv_def)
    moreover have "c' = qs_cache s \<or> c' = \<lparr>qc_rows = readQuotaOverrides (qs_table s), qc_read_at = now, qc_valid = True\<rparr>"
      using q_read(2) by (auto simp: quota_lookup_def Let_def split: if_splits)
    ultimately show ?thesis using q_read(1) inv le by (auto simp: quota_inv_def)
  qed
qed (simp add: quota_inv_def cache_at_least_def)

end
