(* ===== verification/Mailbox.thy ===== *)
theory Mailbox
  imports Quota
begin

text \<open>
  \<open>internal/aghub/relay.go\<close>: the mailboxes. A row is a sealed envelope that waits for its recipient;
  \<open>RelayEnqueue\<close> adds one, \<open>RelayPoll\<close> reads a page, \<open>RelayAck\<close> deletes, and the janitor deletes what
  nobody collected.

  The table \<open>relay_message\<close> is the list of its rows in the order of their ids, which is the order they
  were inserted in; \<open>row_seq\<close> is the counter of its \<open>AUTOINCREMENT\<close>. What ANetCore's \<open>seal\<close> decides about
  an envelope or a key set is a field of the record \<open>seal_core\<close>. The sizes of the rows are lengths of
  stored envelopes, so their sum is a number SQLite holds.
\<close>

section \<open>ANetCore's seal\<close>

record outer =
  o_to :: aid
  o_kid :: bytes
  o_exp :: "u64 option"

text \<open>\<open>KeySetKeys\<close> decodes a stored key set: its keys, in order, each with its \<open>not_after\<close>.\<close>

record seal_core =
  CapClassContact :: u64
  CapClassStranger :: u64
  DeliveryDeadlineMS :: int
  ParseOuter :: "bytes \<Rightarrow> outer option"
  EnvDigest :: "bytes \<Rightarrow> bytes option"
  KeySetKeys :: "bytes \<Rightarrow> (bytes \<times> u64) list option"

definition KIDLen :: nat where "KIDLen = 16"

section \<open>State\<close>

record relay_row =
  rm_id :: int
  rm_rid :: bytes
  rm_to :: aid
  rm_digest :: bytes
  rm_class :: u64
  rm_cap :: "bytes option"
  rm_size :: int
  rm_created :: millis
  rm_exp :: "int option"
  rm_payload :: bytes

record redelivery_row =
  rd_count :: int
  rd_window_start :: millis

record kid_entry =
  ke_seq :: u64
  ke_raw :: bytes
  ke_keys :: "(bytes, u64) table"

record relay =
  messages :: "relay_row list"
  row_seq :: int
  redelivery :: "(bytes, redelivery_row) table"
  agent_keys :: "(aid, u64 \<times> bytes) table"
  kids :: "(aid, kid_entry) table"

record relay_quota =
  mq_messages :: int
  mq_bytes :: int

datatype relay_error =
  ErrBadEnvelope | ErrClass | ErrContactWithoutCap | ErrRandom | ErrKidStale | ErrKeySet
  | RedeliveryLimited int | ErrMailboxFull | ErrStrangersBusy | ErrRidTaken | ErrPurgeTTL | ErrMailboxChanged

record relay_item =
  it_to :: aid
  it_envelope :: bytes
  it_digest :: bytes
  it_class :: u64
  it_cap :: "bytes option"
  it_exp :: "u64 option"
  it_kid :: bytes

datatype queued = Queued int bytes | Duplicate bytes

definition MaxStrangerCapRows :: int where "MaxStrangerCapRows = 200"
definition MaxRedeliveries :: int where "MaxRedeliveries = 3"
definition RedeliveryWindow :: int where "RedeliveryWindow = 24 * hour_ns"
definition ridAttempts :: nat where "ridAttempts = 4"
definition kidCacheMax :: nat where "kidCacheMax = 4096"
definition MaxPollLimit :: int where "MaxPollLimit = 1000"

section \<open>Bounds\<close>

definition SetRelayQuota :: "int \<Rightarrow> int \<Rightarrow> relay_quota \<Rightarrow> relay_quota" where
  "SetRelayQuota msgs bytes q =
    (let q = (if msgs > 0 then q\<lparr>mq_messages := msgs\<rparr> else q)
     in if bytes > 0 then q\<lparr>mq_bytes := bytes\<rparr> else q)"

section \<open>The recipient's keys\<close>

text \<open>\<open>withinDeadline\<close>: the difference is taken as unsigned, after it was seen not to be negative.\<close>

definition withinDeadline :: "seal_core \<Rightarrow> u64 \<Rightarrow> millis \<Rightarrow> bool" where
  "withinDeadline sc not_after accepted =
    (if accepted < 0 then True
     else let at = word_of_int accepted in
       at \<le> not_after \<or> at - not_after \<le> word_of_int (DeliveryDeadlineMS sc))"

definition kids_of :: "(bytes \<times> u64) list \<Rightarrow> (bytes, u64) table" where
  "kids_of ks = foldl (\<lambda>m (kid, na). if length kid = KIDLen then AList.update kid na m else m) [] ks"

definition keysOf ::
  "seal_core \<Rightarrow> aid \<Rightarrow> u64 \<Rightarrow> bytes \<Rightarrow> (aid, kid_entry) table \<Rightarrow> (aid, kid_entry) table \<times> (relay_error + (bytes, u64) table)" where
  "keysOf sc a sq raw c =
    (case (case map_of c a of
             None \<Rightarrow> None
           | Some e \<Rightarrow> if ke_seq e = sq \<and> ke_raw e = raw then Some (ke_keys e) else None) of
      Some keys \<Rightarrow> (c, Inr keys)
    | None \<Rightarrow>
      (case KeySetKeys sc raw of
        None \<Rightarrow> (c, Inl ErrKeySet)
      | Some ks \<Rightarrow>
        (let keys = kids_of ks;
             c = (if length c \<ge> kidCacheMax then [] else c)
         in (AList.update a \<lparr>ke_seq = sq, ke_raw = raw, ke_keys = keys\<rparr> c, Inr keys))))"

definition kidAcceptable ::
  "seal_core \<Rightarrow> aid \<Rightarrow> bytes \<Rightarrow> millis \<Rightarrow> relay \<Rightarrow> relay \<times> relay_error option" where
  "kidAcceptable sc to kid accepted r =
    (case map_of (agent_keys r) to of
      None \<Rightarrow> (r, Some ErrKidStale)
    | Some (sq, raw) \<Rightarrow>
      (case keysOf sc to sq raw (kids r) of (c, ks) \<Rightarrow>
        (r\<lparr>kids := c\<rparr>,
         case ks of
           Inl e \<Rightarrow> Some e
         | Inr keys \<Rightarrow>
           if length kid \<noteq> KIDLen then Some ErrKidStale
           else (case map_of keys kid of
             None \<Rightarrow> Some ErrKidStale
           | Some not_after \<Rightarrow> if \<not> withinDeadline sc not_after accepted then Some ErrKidStale else None))))"

section \<open>Queueing\<close>

definition CheckEnvelope :: "seal_core \<Rightarrow> aid \<Rightarrow> bytes \<Rightarrow> relay_error + outer" where
  "CheckEnvelope sc to env =
    (case ParseOuter sc env of
      None \<Rightarrow> Inl ErrBadEnvelope
    | Some out \<Rightarrow> if o_to out \<noteq> to then Inl ErrBadEnvelope else Inr out)"

definition RelayQueued :: "aid \<Rightarrow> bytes \<Rightarrow> relay \<Rightarrow> bytes option" where
  "RelayQueued to digest r =
    map_option rm_rid (List.find (\<lambda>m. rm_to m = to \<and> rm_digest m = digest) (messages r))"

text \<open>The attempts at a rid no row has; \<open>draw n\<close> is the draw made with \<open>n\<close> attempts left, \<open>None\<close> when the
  random source fails.\<close>

fun unused_rid :: "(nat \<Rightarrow> bytes option) \<Rightarrow> relay_row list \<Rightarrow> nat \<Rightarrow> bytes \<Rightarrow> relay_error + bytes" where
  "unused_rid draw ms left rid =
    (if \<not> list_ex (\<lambda>m. rm_rid m = rid) ms then Inr rid
     else (case left of
       0 \<Rightarrow> Inl ErrRidTaken
     | Suc n \<Rightarrow> (case draw n of None \<Rightarrow> Inl ErrRandom | Some rid' \<Rightarrow> unused_rid draw ms n rid')))"

declare unused_rid.simps [simp del]

definition mail_of :: "aid \<Rightarrow> relay_row list \<Rightarrow> relay_row list" where
  "mail_of to ms = filter (\<lambda>m. rm_to m = to) ms"

definition size_sum :: "relay_row list \<Rightarrow> int" where
  "size_sum ms = sum_list (map rm_size ms)"

text \<open>The redelivery count: the row when its window is open (\<open>Inr\<close>), or the refusal.\<close>

definition redelivery_open :: "bytes \<Rightarrow> millis \<Rightarrow> relay \<Rightarrow> relay_error + bool" where
  "redelivery_open digest now_ms r =
    (case map_of (redelivery r) digest of
      None \<Rightarrow> Inr False
    | Some w \<Rightarrow>
      (let fin = rd_window_start w + go_div RedeliveryWindow ms_ns in
       if now_ms < fin
       then (if rd_count w \<ge> MaxRedeliveries then Inl (RedeliveryLimited ((fin - now_ms) * ms_ns)) else Inr True)
       else Inr False))"

definition count_redelivery :: "bytes \<Rightarrow> millis \<Rightarrow> bool \<Rightarrow> relay \<Rightarrow> relay" where
  "count_redelivery digest now_ms in_window r =
    (if in_window
     then (case map_of (redelivery r) digest of
             None \<Rightarrow> r
           | Some w \<Rightarrow> r\<lparr>redelivery := AList.update digest (w\<lparr>rd_count := rd_count w + 1\<rparr>) (redelivery r)\<rparr>)
     else r\<lparr>redelivery := AList.update digest \<lparr>rd_count = 1, rd_window_start = now_ms\<rparr> (redelivery r)\<rparr>)"

text \<open>The room in the mailbox, and for a non-contact envelope in its share and its credential.\<close>

definition mailbox_room :: "seal_core \<Rightarrow> relay_quota \<Rightarrow> quota \<Rightarrow> relay_item \<Rightarrow> relay_row list \<Rightarrow> relay_error option" where
  "mailbox_room sc mq q it ms =
    (let size = int (length (it_envelope it));
         mail = mail_of (it_to it) ms
     in
     if int (length mail) + 1 > mq_messages mq \<or> size_sum mail + size > mq_bytes mq then Some ErrMailboxFull
     else if it_class it = CapClassStranger sc then
       (let share = filter (\<lambda>m. rm_class m = CapClassStranger sc) mail in
        if int (length share) + 1 > NonContactMsgs q \<or> size_sum share + size > NonContactBytes q
        then Some ErrStrangersBusy
        else (case it_cap it of
          None \<Rightarrow> None
        | Some cap \<Rightarrow>
            if int (length (filter (\<lambda>m. rm_cap m = Some cap) mail)) + 1 > MaxStrangerCapRows
            then Some ErrStrangersBusy else None))
     else None)"

definition RelayEnqueue ::
  "seal_core \<Rightarrow> relay_quota \<Rightarrow> quota \<Rightarrow> time_ns \<Rightarrow> (nat \<Rightarrow> bytes option) \<Rightarrow> relay_item \<Rightarrow> relay \<Rightarrow> relay \<times> (relay_error + queued)" where
  "RelayEnqueue sc mq q now draw it r =
    (if it_to it = [] \<or> it_envelope it = [] then (r, Inl ErrBadEnvelope)
     else if it_class it \<noteq> CapClassContact sc \<and> it_class it \<noteq> CapClassStranger sc then (r, Inl ErrClass)
     else if it_class it = CapClassContact sc \<and> it_cap it = None then (r, Inl ErrContactWithoutCap)
     else (case draw (ridAttempts - 1) of
       None \<Rightarrow> (r, Inl ErrRandom)
     | Some rid \<Rightarrow>
       (let now_ms = unix_milli now in
        case RelayQueued (it_to it) (it_digest it) r of
          Some held \<Rightarrow> (r, Inr (Duplicate held))
        | None \<Rightarrow>
          (case redelivery_open (it_digest it) now_ms r of
            Inl e \<Rightarrow> (r, Inl e)
          | Inr in_window \<Rightarrow>
            (case kidAcceptable sc (it_to it) (it_kid it) now_ms r of (r, x) \<Rightarrow>
              (case x of
                Some e \<Rightarrow> (r, Inl e)
              | None \<Rightarrow>
                (case mailbox_room sc mq q it (messages r) of
                  Some e \<Rightarrow> (r, Inl e)
                | None \<Rightarrow>
                  if (case it_exp it of None \<Rightarrow> False | Some x \<Rightarrow> uint x > max_int64) then (r, Inl ErrBadEnvelope)
                  else (case unused_rid draw (messages r) (ridAttempts - 1) rid of
                    Inl e \<Rightarrow> (r, Inl e)
                  | Inr rid \<Rightarrow>
                    (let i = row_seq r + 1;
                         row = \<lparr>rm_id = i, rm_rid = rid, rm_to = it_to it, rm_digest = it_digest it,
                                rm_class = it_class it, rm_cap = it_cap it,
                                rm_size = int (length (it_envelope it)), rm_created = now_ms,
                                rm_exp = map_option uint (it_exp it), rm_payload = it_envelope it\<rparr>
                     in (count_redelivery (it_digest it) now_ms in_window
                           (r\<lparr>messages := messages r @ [row], row_seq := i\<rparr>),
                         Inr (Queued i rid)))))))))))"

definition QueueEnvelope ::
  "seal_core \<Rightarrow> relay_quota \<Rightarrow> quota \<Rightarrow> time_ns \<Rightarrow> (nat \<Rightarrow> bytes option) \<Rightarrow> aid \<Rightarrow> bytes \<Rightarrow> relay \<Rightarrow> relay \<times> (relay_error + queued)" where
  "QueueEnvelope sc mq q now draw to env r =
    (case CheckEnvelope sc to env of
      Inl e \<Rightarrow> (r, Inl e)
    | Inr out \<Rightarrow>
      (case EnvDigest sc env of
        None \<Rightarrow> (r, Inl ErrBadEnvelope)
      | Some d \<Rightarrow> RelayEnqueue sc mq q now draw
          \<lparr>it_to = to, it_envelope = env, it_digest = d, it_class = CapClassStranger sc, it_cap = None,
           it_exp = o_exp out, it_kid = o_kid out\<rparr> r))"

section \<open>Reading\<close>

record relay_message =
  RM_ID :: int
  RM_ToAID :: aid
  RM_Size :: int
  RM_CreatedAt :: millis
  RM_Payload :: bytes

definition not_expired :: "millis \<Rightarrow> relay_row \<Rightarrow> bool" where
  "not_expired now_ms m = (case rm_exp m of None \<Rightarrow> True | Some x \<Rightarrow> x > now_ms)"

text \<open>The loop over the rows of the first query: \<open>limit + 1\<close> of them at most.\<close>

fun poll_loop :: "int \<Rightarrow> int \<Rightarrow> int \<Rightarrow> relay_row list \<Rightarrow> relay_row list \<Rightarrow> relay_row list \<times> bool" where
  "poll_loop limit budget acc msgs [] = (msgs, False)"
| "poll_loop limit budget acc msgs (m # rows) =
    (if int (length msgs) = limit \<or> msgs \<noteq> [] \<and> acc + rm_size m > budget then (msgs, True)
     else poll_loop limit budget (acc + rm_size m) (msgs @ [m]) rows)"

definition message_of :: "relay_row \<Rightarrow> bytes \<Rightarrow> relay_message" where
  "message_of m payload = \<lparr>RM_ID = rm_id m, RM_ToAID = rm_to m, RM_Size = rm_size m,
     RM_CreatedAt = rm_created m, RM_Payload = payload\<rparr>"

text \<open>The payloads of the page, matched to it by id.\<close>

fun fill_payloads :: "relay_row list \<Rightarrow> (int \<times> bytes) list \<Rightarrow> relay_error + relay_message list" where
  "fill_payloads [] [] = Inr []"
| "fill_payloads (m # ms) ((i, payload) # ps) =
    (if rm_id m \<noteq> i then Inl ErrMailboxChanged
     else rbind (fill_payloads ms ps) (\<lambda>r. Inr (message_of m payload # r)))"
| "fill_payloads [] (p # ps) = Inl ErrMailboxChanged"
| "fill_payloads (m # ms) [] = Inl ErrMailboxChanged"

definition RelayPoll ::
  "time_ns \<Rightarrow> aid \<Rightarrow> int \<Rightarrow> int \<Rightarrow> int \<Rightarrow> relay \<Rightarrow> relay_error + (relay_message list \<times> bool)" where
  "RelayPoll now to after limit budget r =
    (let limit = (if limit \<le> 0 then 100 else limit);
         limit = (if limit > MaxPollLimit then MaxPollLimit else limit);
         after = (if after < 0 then 0 else after);
         now_ms = unix_milli now;
         rows = take (nat (limit + 1))
                  (filter (\<lambda>m. rm_to m = to \<and> rm_id m > after \<and> not_expired now_ms m) (messages r))
     in case poll_loop limit budget 0 [] rows of (msgs, rest) \<Rightarrow>
       if msgs = [] then Inr ([], rest)
       else rbind (fill_payloads msgs (map (\<lambda>m. (rm_id m, rm_payload m))
                    (filter (\<lambda>m. rm_to m = to \<and> rm_id (hd msgs) \<le> rm_id m \<and> rm_id m \<le> rm_id (last msgs)
                                  \<and> not_expired now_ms m) (messages r))))
                  (\<lambda>ms. Inr (ms, rest)))"

definition RelayPending :: "aid \<Rightarrow> relay \<Rightarrow> nat" where
  "RelayPending to r = length (mail_of to (messages r))"

section \<open>Deleting\<close>

text \<open>The ids deleted so far are the second component.\<close>

fun relayAckTx :: "aid \<Rightarrow> int list \<Rightarrow> relay_row list \<times> int list \<Rightarrow> relay_row list \<times> int list" where
  "relayAckTx to [] s = s"
| "relayAckTx to (i # is) (ms, deleted) =
    (if i \<in> set deleted then relayAckTx to is (ms, deleted)
     else if list_ex (\<lambda>m. rm_id m = i \<and> rm_to m = to) ms
          then relayAckTx to is (filter (\<lambda>m. \<not> (rm_id m = i \<and> rm_to m = to)) ms, deleted @ [i])
          else relayAckTx to is (ms, deleted))"

definition RelayAck :: "aid \<Rightarrow> int list \<Rightarrow> relay \<Rightarrow> relay \<times> int list" where
  "RelayAck to is r =
    (if is = [] then (r, [])
     else (case relayAckTx to is (messages r, []) of (ms, deleted) \<Rightarrow> (r\<lparr>messages := ms\<rparr>, deleted)))"

definition PurgeExpiredRelay :: "int \<Rightarrow> time_ns \<Rightarrow> relay \<Rightarrow> relay \<times> (relay_error + nat)" where
  "PurgeExpiredRelay ttl now r =
    (if ttl \<le> 0 then (r, Inl ErrPurgeTTL)
     else let gone = (\<lambda>m. rm_created m < unix_milli (now - ttl)) in
       (r\<lparr>messages := filter (\<lambda>m. \<not> gone m) (messages r),
          redelivery := filter (\<lambda>(_, w). \<not> rd_window_start w \<le> unix_milli (now - RedeliveryWindow)) (redelivery r)\<rparr>,
        Inr (length (filter gone (messages r)))))"

definition PurgeExpiredByExp :: "time_ns \<Rightarrow> relay \<Rightarrow> relay \<times> nat" where
  "PurgeExpiredByExp now r =
    (let gone = (\<lambda>m. \<not> not_expired (unix_milli now) m) in
     (r\<lparr>messages := filter (\<lambda>m. \<not> gone m) (messages r)\<rparr>, length (filter gone (messages r))))"

section \<open>A recipient that leaves\<close>

text \<open>What a deregistration deletes here: the steps \<open>mailbox\<close> and \<open>encryption key set\<close> of \<open>deregSteps\<close>
  (\<open>deregister.go\<close>; that the whole transaction does this to the mailbox is \<open>DeregisterTx_relay\<close> in
  \<open>Departure_Laws\<close>).\<close>

definition dropMailbox :: "aid \<Rightarrow> relay \<Rightarrow> relay" where
  "dropMailbox a r = r\<lparr>messages := filter (\<lambda>m. rm_to m \<noteq> a) (messages r), agent_keys := AList.delete a (agent_keys r)\<rparr>"

end
