(* ===== verification/Delivery.thy ===== *)
theory Delivery
  imports Mailbox
begin

text \<open>
  \<open>internal/aghub/dack.go\<close>: the delivery confirmations. The recipient hands one in with the ack of an
  envelope; the sender asks for it with the rid it was given and the handle only the two ends can
  compute.

  \<open>relay_dack\<close> is the list of its rows in the order of their rowids. \<open>dk_known\<close> and \<open>dk_count\<close> are the count
  the process keeps of them; \<open>dk_max\<close> is the bound a test may set, 0 in the program.
\<close>

section \<open>State\<close>

record dack_row =
  dk_handle :: bytes
  dk_dack :: bytes
  dk_exp :: millis

record dacks =
  dk_rows :: "dack_row list"
  dk_known :: bool
  dk_count :: int
  dk_max :: int

definition DAckTTL :: int where "DAckTTL = 7 * 24 * hour_ns"
definition DAckFetchedTTL :: int where "DAckFetchedTTL = 10 * minute_ns"
definition MaxDAckRows :: int where "MaxDAckRows = 2000000"
definition HandleLen :: nat where "HandleLen = 16"
definition DAckLen :: nat where "DAckLen = 80"

definition dack_bound :: "dacks \<Rightarrow> int" where
  "dack_bound d = (if dk_max d > 0 then dk_max d else MaxDAckRows)"

section \<open>Handing in\<close>

record ack_item =
  ai_id :: int
  ai_handle :: "bytes option"
  ai_dack :: bytes

record ack_result =
  ar_acked :: nat
  ar_stored :: nat
  ar_evicted :: nat

text \<open>The update of a stored handle, or the insertion of a new row; the number of rows inserted.\<close>

definition put_dack :: "bytes \<Rightarrow> bytes \<Rightarrow> millis \<Rightarrow> dack_row list \<Rightarrow> dack_row list \<times> int" where
  "put_dack handle dack x rows =
    (if list_ex (\<lambda>d. dk_handle d = handle) rows
     then (map (\<lambda>d. if dk_handle d = handle then d\<lparr>dk_dack := dack, dk_exp := x\<rparr> else d) rows, 0)
     else (rows @ [\<lparr>dk_handle = handle, dk_dack = dack, dk_exp = x\<rparr>], 1))"

text \<open>The loop over the items: the ids used so far, the rows, how many were inserted, how many stored.
  \<open>None\<close> is the refusal of a confirmation of the wrong size.\<close>

fun store_dacks ::
  "millis \<Rightarrow> int list \<Rightarrow> ack_item list \<Rightarrow> int list \<Rightarrow> dack_row list \<Rightarrow> int \<Rightarrow> nat \<Rightarrow> (dack_row list \<times> int \<times> nat) option" where
  "store_dacks x deleted [] used rows inserted stored = Some (rows, inserted, stored)"
| "store_dacks x deleted (it # items) used rows inserted stored =
    (if ai_id it \<notin> set deleted \<or> ai_id it \<in> set used then store_dacks x deleted items used rows inserted stored
     else (case ai_handle it of
       None \<Rightarrow> store_dacks x deleted items (ai_id it # used) rows inserted stored
     | Some handle \<Rightarrow>
         if length handle \<noteq> HandleLen \<or> length (ai_dack it) \<noteq> DAckLen then None
         else (case put_dack handle (ai_dack it) x rows of (rows', n) \<Rightarrow>
           store_dacks x deleted items (ai_id it # used) rows' (inserted + n) (Suc stored))))"

text \<open>\<open>DELETE ... ORDER BY exp, rowid LIMIT n\<close>.\<close>

definition evict :: "int \<Rightarrow> dack_row list \<Rightarrow> dack_row list" where
  "evict n rows =
    (let gone = set (map dk_handle (take (nat n) (sort_key dk_exp rows)))
     in filter (\<lambda>d. dk_handle d \<notin> gone) rows)"

definition boundDAcksTx :: "dacks \<Rightarrow> int \<Rightarrow> dack_row list \<Rightarrow> dack_row list \<times> int \<times> nat" where
  "boundDAcksTx d inserted rows =
    (let kept = (if dk_known d then dk_count d + inserted else int (length rows)) in
     if kept \<le> dack_bound d then (rows, kept, 0)
     else (let n = int (length rows) in
       if n \<le> dack_bound d then (rows, n, 0)
       else (let rows' = evict (n - dack_bound d) rows; e = length rows - length rows'
             in (rows', n - int e, e))))"

definition StoreDAcks ::
  "time_ns \<Rightarrow> aid \<Rightarrow> ack_item list \<Rightarrow> relay \<Rightarrow> dacks \<Rightarrow> relay \<times> dacks \<times> ack_result option" where
  "StoreDAcks now to items r d =
    (if items = [] then (r, d, Some \<lparr>ar_acked = 0, ar_stored = 0, ar_evicted = 0\<rparr>)
     else (case relayAckTx to (map ai_id items) (messages r, []) of (ms, deleted) \<Rightarrow>
       (case store_dacks (unix_milli (now + DAckTTL)) deleted items [] (dk_rows d) 0 0 of
         None \<Rightarrow> (r, d, None)
       | Some (rows, inserted, stored) \<Rightarrow>
         (case boundDAcksTx d inserted rows of (rows', n, e) \<Rightarrow>
           (r\<lparr>messages := ms\<rparr>, d\<lparr>dk_rows := rows', dk_known := True, dk_count := n\<rparr>,
            Some \<lparr>ar_acked = length deleted, ar_stored = stored, ar_evicted = e\<rparr>)))))"

definition PurgeExpiredDAcks :: "time_ns \<Rightarrow> dacks \<Rightarrow> dacks \<times> nat" where
  "PurgeExpiredDAcks now d =
    (let gone = (\<lambda>w. dk_exp w \<le> unix_milli now);
         n = length (filter gone (dk_rows d));
         d' = d\<lparr>dk_rows := filter (\<lambda>w. \<not> gone w) (dk_rows d)\<rparr>
     in (if dk_known d then d'\<lparr>dk_count := max 0 (dk_count d - int n)\<rparr> else d', n))"

section \<open>Asking\<close>

datatype relay_status = StatusQueued | StatusDone bytes | StatusUnknown

definition status_of :: "millis \<Rightarrow> relay \<Rightarrow> dacks \<Rightarrow> bytes \<times> bytes \<Rightarrow> relay_status" where
  "status_of now_ms r d it =
    (case it of (rid, handle) \<Rightarrow>
      if list_ex (\<lambda>m. rm_rid m = rid) (messages r) then StatusQueued
      else (case List.find (\<lambda>w. dk_handle w = handle \<and> dk_exp w > now_ms) (dk_rows d) of
        None \<Rightarrow> StatusUnknown
      | Some w \<Rightarrow> StatusDone (dk_dack w)))"

text \<open>The handles answered done that have more time than the cut leaves.\<close>

definition status_cut :: "millis \<Rightarrow> millis \<Rightarrow> relay \<Rightarrow> dacks \<Rightarrow> (bytes \<times> bytes) list \<Rightarrow> bytes list" where
  "status_cut now_ms fetched r d items =
    map snd (filter (\<lambda>(rid, handle). \<not> list_ex (\<lambda>m. rm_rid m = rid) (messages r) \<and>
      (case List.find (\<lambda>w. dk_handle w = handle \<and> dk_exp w > now_ms) (dk_rows d) of
         None \<Rightarrow> False | Some w \<Rightarrow> dk_exp w > fetched)) items)"

definition RelayStatus ::
  "time_ns \<Rightarrow> (bytes \<times> bytes) list \<Rightarrow> relay \<Rightarrow> dacks \<Rightarrow> dacks \<times> relay_status list" where
  "RelayStatus now items r d =
    (let now_ms = unix_milli now;
         fetched = now_ms + go_div DAckFetchedTTL ms_ns;
         cut = status_cut now_ms fetched r d items
     in (d\<lparr>dk_rows := map (\<lambda>w. if dk_handle w \<in> set cut then w\<lparr>dk_exp := min (dk_exp w) fetched\<rparr> else w) (dk_rows d)\<rparr>,
         map (status_of now_ms r d) items))"

end
