(* ===== verification/Mailbox_Laws.thy ===== *)
theory Mailbox_Laws
  imports Delivery
begin

text \<open>
  Lemmas of the mailboxes: the two outcomes of \<open>RelayEnqueue\<close>, a page as a prefix of what waits, the
  cache of key sets, what the deletions keep, and the invariant of the tables.
\<close>

section \<open>The cache of key sets\<close>

definition kids_fit :: "seal_core \<Rightarrow> (aid, kid_entry) table \<Rightarrow> bool" where
  "kids_fit sc c \<longleftrightarrow> (\<forall>a e. map_of c a = Some e \<longrightarrow> map_option kids_of (KeySetKeys sc (ke_raw e)) = Some (ke_keys e))"

lemma kids_fit_Nil [simp]: "kids_fit sc []"
  by (simp add: kids_fit_def)

lemma keysOf_fits:
  assumes "keysOf sc a sq raw c = (c', ks)" and "kids_fit sc c"
  shows "kids_fit sc c'" and "ks = (case KeySetKeys sc raw of None \<Rightarrow> Inl ErrKeySet | Some l \<Rightarrow> Inr (kids_of l))"
proof -
  have "kids_fit sc c' \<and> ks = (case KeySetKeys sc raw of None \<Rightarrow> Inl ErrKeySet | Some l \<Rightarrow> Inr (kids_of l))"
  proof (cases "\<exists>e. map_of c a = Some e \<and> ke_seq e = sq \<and> ke_raw e = raw")
    case True
    then obtain e where e: "map_of c a = Some e" "ke_seq e = sq" "ke_raw e = raw" by blast
    with assms(2) have "map_option kids_of (KeySetKeys sc raw) = Some (ke_keys e)" by (auto simp: kids_fit_def)
    with e assms show ?thesis by (auto simp: keysOf_def)
  next
    case False
    then have "(case map_of c a of None \<Rightarrow> None
        | Some e \<Rightarrow> if ke_seq e = sq \<and> ke_raw e = raw then Some (ke_keys e) else None) = None"
      by (auto split: option.split)
    with assms show ?thesis
      by (auto simp: keysOf_def Let_def kids_fit_def map_of_update_eq split: option.split_asm if_split_asm)
  qed
  then show "kids_fit sc c'" and "ks = (case KeySetKeys sc raw of None \<Rightarrow> Inl ErrKeySet | Some l \<Rightarrow> Inr (kids_of l))"
    by blast+
qed

text \<open>Whether a kid is acceptable, without the cache.\<close>

definition kid_published :: "seal_core \<Rightarrow> aid \<Rightarrow> bytes \<Rightarrow> millis \<Rightarrow> relay \<Rightarrow> bool" where
  "kid_published sc to kid accepted r \<longleftrightarrow>
     (\<exists>sq raw ks na. map_of (agent_keys r) to = Some (sq, raw) \<and> KeySetKeys sc raw = Some ks \<and>
        length kid = KIDLen \<and> map_of (kids_of ks) kid = Some na \<and> withinDeadline sc na accepted)"

lemma kidAcceptable_iff:
  assumes "kidAcceptable sc to kid accepted r = (r', x)" and "kids_fit sc (kids r)"
  shows "x = None \<longleftrightarrow> kid_published sc to kid accepted r"
proof (cases "map_of (agent_keys r) to")
  case None
  with assms(1) show ?thesis by (auto simp: kidAcceptable_def kid_published_def)
next
  case (Some p)
  obtain sq raw where p: "p = (sq, raw)" by force
  obtain c ks where k: "keysOf sc to sq raw (kids r) = (c, ks)" by force
  show ?thesis
  proof (cases "KeySetKeys sc raw")
    case None
    with keysOf_fits(2) [OF k assms(2)] have "ks = Inl ErrKeySet" by simp
    with assms(1) Some p k None show ?thesis by (auto simp: kidAcceptable_def kid_published_def)
  next
    case (Some l)
    with keysOf_fits(2) [OF k assms(2)] have "ks = Inr (kids_of l)" by simp
    with assms(1) \<open>map_of (agent_keys r) to = Some p\<close> p k Some show ?thesis
      by (auto simp: kidAcceptable_def kid_published_def split: option.splits if_splits)
  qed
qed

lemma kidAcceptable_state:
  assumes "kidAcceptable sc to kid accepted r = (r', x)"
  shows "\<exists>c. r' = r\<lparr>kids := c\<rparr> \<and> (kids_fit sc (kids r) \<longrightarrow> kids_fit sc c)"
proof (cases "map_of (agent_keys r) to")
  case None
  with assms have "r' = r\<lparr>kids := kids r\<rparr>" by (simp add: kidAcceptable_def)
  then show ?thesis by blast
next
  case (Some p)
  obtain sq raw where p: "p = (sq, raw)" by force
  obtain c ks where k: "keysOf sc to sq raw (kids r) = (c, ks)" by force
  with assms Some p have "r' = r\<lparr>kids := c\<rparr>" by (auto simp: kidAcceptable_def)
  with keysOf_fits(1) [OF k] show ?thesis by blast
qed

lemma withinDeadline_iff:
  assumes "accepted \<le> max_int64" and "0 \<le> DeliveryDeadlineMS sc" and "DeliveryDeadlineMS sc \<le> max_int64"
  shows "withinDeadline sc na accepted \<longleftrightarrow> accepted \<le> uint na + DeliveryDeadlineMS sc"
proof (cases "accepted < 0")
  case True
  have "0 \<le> uint na" by simp
  with True assms(2) have "accepted \<le> uint na + DeliveryDeadlineMS sc" by linarith
  with True show ?thesis by (simp add: withinDeadline_def)
next
  case False
  have u: "uint (word_of_int n :: u64) = n" if "0 \<le> n" "n \<le> max_int64" for n
    unfolding uint_word_of_int by (rule mod_pos_pos_trivial) (use that in \<open>simp_all add: max_int64_def\<close>)
  have a: "uint (word_of_int accepted :: u64) = accepted" and d: "uint (word_of_int (DeliveryDeadlineMS sc) :: u64) = DeliveryDeadlineMS sc"
    using u False assms by simp_all
  show ?thesis
  proof (cases "accepted \<le> uint na")
    case True
    with False a assms(2) show ?thesis by (simp add: withinDeadline_def word_le_def)
  next
    case lt: False
    then have "na \<le> word_of_int accepted" using a by (simp add: word_le_def)
    then have "uint (word_of_int accepted - na) = accepted - uint na"
      using a uint_sub_if' [of "word_of_int accepted" na] by (simp add: word_le_def)
    with lt False a d show ?thesis by (auto simp: withinDeadline_def Let_def word_le_def)
  qed
qed

section \<open>Queueing\<close>

definition queued_row :: "relay_item \<Rightarrow> int \<Rightarrow> bytes \<Rightarrow> millis \<Rightarrow> relay_row" where
  "queued_row it i rid now_ms = \<lparr>rm_id = i, rm_rid = rid, rm_to = it_to it, rm_digest = it_digest it,
     rm_class = it_class it, rm_cap = it_cap it, rm_size = int (length (it_envelope it)), rm_created = now_ms,
     rm_exp = map_option uint (it_exp it), rm_payload = it_envelope it\<rparr>"

lemma unused_rid_fresh: "unused_rid draw ms left rid = Inr rid' \<Longrightarrow> \<forall>m \<in> set ms. rm_rid m \<noteq> rid'"
proof (induction draw ms left rid rule: unused_rid.induct)
  case (1 draw ms left rid)
  from "1.prems" [unfolded unused_rid.simps [of draw ms left rid]] "1.IH" show ?case
    by (auto simp: list_ex_iff split: if_splits nat.splits option.splits)
qed

text \<open>An enqueue leaves the tables as they are, but for the cache, or it adds one row and counts it.\<close>

lemma RelayEnqueue_cases:
  assumes "RelayEnqueue sc mq q now draw it r = (r', res)" and fit: "kids_fit sc (kids r)"
  obtains (kept) c where "r' = r\<lparr>kids := c\<rparr>" "kids_fit sc c" "\<And>i rid. res \<noteq> Inr (Queued i rid)"
  | (added) c rid w where "kids_fit sc c"
    "r' = count_redelivery (it_digest it) (unix_milli now) w
            (r\<lparr>kids := c, messages := messages r @ [queued_row it (row_seq r + 1) rid (unix_milli now)],
               row_seq := row_seq r + 1\<rparr>)"
    "res = Inr (Queued (row_seq r + 1) rid)"
    "it_to it \<noteq> []" "it_envelope it \<noteq> []" "it_class it = CapClassContact sc \<or> it_class it = CapClassStranger sc"
    "RelayQueued (it_to it) (it_digest it) r = None"
    "redelivery_open (it_digest it) (unix_milli now) r = Inr w"
    "kid_published sc (it_to it) (it_kid it) (unix_milli now) r"
    "mailbox_room sc mq q it (messages r) = None"
    "\<forall>m \<in> set (messages r). rm_rid m \<noteq> rid"
proof -
  have kept': thesis if "r' = r" "\<And>i rid. res \<noteq> Inr (Queued i rid)"
    using kept [of "kids r"] that fit by simp
  consider (early) "r' = r" "\<And>i rid. res \<noteq> Inr (Queued i rid)"
    | (late) rid w where "it_to it \<noteq> []" "it_envelope it \<noteq> []"
      "it_class it = CapClassContact sc \<or> it_class it = CapClassStranger sc"
      "draw (ridAttempts - 1) = Some rid" "RelayQueued (it_to it) (it_digest it) r = None"
      "redelivery_open (it_digest it) (unix_milli now) r = Inr w"
      "\<not> (it_class it = CapClassContact sc \<and> it_cap it = None)"
    using assms(1) by (auto simp: RelayEnqueue_def Let_def split: if_split_asm option.split_asm sum.split_asm)
  then show thesis
  proof cases
    case early
    then show thesis by (rule kept')
  next
    case (late rid w)
    obtain r1 x where k: "kidAcceptable sc (it_to it) (it_kid it) (unix_milli now) r = (r1, x)" by force
    obtain c where c: "r1 = r\<lparr>kids := c\<rparr>" "kids_fit sc c" using kidAcceptable_state [OF k] fit by blast
    note run = assms(1) [unfolded RelayEnqueue_def Let_def]
    show thesis
    proof (cases "x = None \<and> mailbox_room sc mq q it (messages r1) = None \<and>
        \<not> (case it_exp it of None \<Rightarrow> False | Some y \<Rightarrow> uint y > max_int64) \<and>
        (\<exists>rid'. unused_rid draw (messages r1) (ridAttempts - 1) rid = Inr rid')")
      case True
      then obtain rid' where u: "unused_rid draw (messages r1) (ridAttempts - 1) rid = Inr rid'" by blast
      have "kid_published sc (it_to it) (it_kid it) (unix_milli now) r" using kidAcceptable_iff [OF k fit] True by simp
      moreover have "r' = count_redelivery (it_digest it) (unix_milli now) w
            (r\<lparr>kids := c, messages := messages r @ [queued_row it (row_seq r + 1) rid' (unix_milli now)],
               row_seq := row_seq r + 1\<rparr>) \<and> res = Inr (Queued (row_seq r + 1) rid')"
        using run late k True u c by (auto simp: queued_row_def)
      moreover have "\<forall>m \<in> set (messages r). rm_rid m \<noteq> rid'" using unused_rid_fresh [OF u] c by simp
      moreover have "mailbox_room sc mq q it (messages r) = None" using True c by simp
      ultimately show thesis using late c by (intro added [where c = c and rid = rid' and w = w]) auto
    next
      case False
      with run late k have "r' = r1 \<and> (\<forall>i rid. res \<noteq> Inr (Queued i rid))"
        by (auto split: option.split_asm if_split_asm sum.split_asm)
      with c show thesis by (intro kept [of c]) auto
    qed
  qed
qed

lemma count_redelivery_sel [simp]:
  "messages (count_redelivery d t w r) = messages r" "row_seq (count_redelivery d t w r) = row_seq r"
  "kids (count_redelivery d t w r) = kids r" "agent_keys (count_redelivery d t w r) = agent_keys r"
  by (simp_all add: count_redelivery_def split: option.split)

section \<open>The invariant of the tables\<close>

text \<open>\<open>PRIMARY KEY AUTOINCREMENT\<close> and the two \<open>UNIQUE\<close> constraints of the schema, and the bounds of a mailbox.\<close>

definition ids_ok :: "relay \<Rightarrow> bool" where
  "ids_ok r \<longleftrightarrow> sorted_wrt (\<lambda>m n. rm_id m < rm_id n) (messages r) \<and> (\<forall>m \<in> set (messages r). 1 \<le> rm_id m \<and> rm_id m \<le> row_seq r) \<and>
     0 \<le> row_seq r"

definition unique_ok :: "relay \<Rightarrow> bool" where
  "unique_ok r \<longleftrightarrow> distinct (map rm_rid (messages r)) \<and> distinct (map (\<lambda>m. (rm_to m, rm_digest m)) (messages r))"

definition sizes_ok :: "relay \<Rightarrow> bool" where
  "sizes_ok r \<longleftrightarrow> (\<forall>m \<in> set (messages r). rm_size m = int (length (rm_payload m)) \<and> rm_payload m \<noteq> [])"

definition bounds_ok :: "relay_quota \<Rightarrow> relay \<Rightarrow> bool" where
  "bounds_ok mq r \<longleftrightarrow> (\<forall>a. mail_of a (messages r) = [] \<or>
     int (length (mail_of a (messages r))) \<le> mq_messages mq \<and> size_sum (mail_of a (messages r)) \<le> mq_bytes mq)"

definition relay_ok :: "seal_core \<Rightarrow> relay_quota \<Rightarrow> relay \<Rightarrow> bool" where
  "relay_ok sc mq r \<longleftrightarrow> ids_ok r \<and> unique_ok r \<and> sizes_ok r \<and> bounds_ok mq r \<and> keys_ok (redelivery r) \<and> kids_fit sc (kids r)"

lemmas relay_ok_defs = relay_ok_def ids_ok_def unique_ok_def sizes_ok_def bounds_ok_def

lemma relay_ok_empty:
  "relay_ok sc mq \<lparr>messages = [], row_seq = 0, redelivery = [], agent_keys = k, kids = []\<rparr>"
  by (simp add: relay_ok_defs mail_of_def)

lemma relay_ok_kids: "relay_ok sc mq r \<Longrightarrow> kids_fit sc c \<Longrightarrow> relay_ok sc mq (r\<lparr>kids := c\<rparr>)"
  by (simp add: relay_ok_defs)

lemma size_sum_simps [simp]: "size_sum [] = 0" "size_sum (m # ms) = rm_size m + size_sum ms"
  "size_sum (xs @ ys) = size_sum xs + size_sum ys"
  by (simp_all add: size_sum_def)

lemma size_sum_filter_le: "(\<forall>m \<in> set ms. 0 \<le> rm_size m) \<Longrightarrow> size_sum (filter P ms) \<le> size_sum ms"
  by (induction ms) auto

lemma mail_of_append [simp]: "mail_of a (xs @ ys) = mail_of a xs @ mail_of a ys"
  by (simp add: mail_of_def)

lemma mail_of_filter: "mail_of a (filter P ms) = filter P (mail_of a ms)"
  by (simp add: mail_of_def conj_commute)

lemma RelayQueued_None: "RelayQueued to d r = None \<longleftrightarrow> (\<forall>m \<in> set (messages r). (rm_to m, rm_digest m) \<noteq> (to, d))"
  by (auto simp: RelayQueued_def find_None_iff)

text \<open>Deletions keep the invariant.\<close>

lemma bounds_filter:
  assumes "bounds_ok mq r" and "\<forall>m \<in> set (messages r). 0 \<le> rm_size m"
  shows "bounds_ok mq (r\<lparr>messages := filter P (messages r)\<rparr>)"
  unfolding bounds_ok_def
proof
  fix a
  let ?m = "mail_of a (messages r)"
  have "\<forall>m \<in> set ?m. 0 \<le> rm_size m" using assms(2) by (simp add: mail_of_def)
  then have s: "size_sum (filter P ?m) \<le> size_sum ?m" by (rule size_sum_filter_le)
  have "?m = [] \<or> int (length ?m) \<le> mq_messages mq \<and> size_sum ?m \<le> mq_bytes mq"
    using assms(1) by (simp add: bounds_ok_def)
  then have "filter P ?m = [] \<or> int (length (filter P ?m)) \<le> mq_messages mq \<and> size_sum (filter P ?m) \<le> mq_bytes mq"
  proof
    assume "int (length ?m) \<le> mq_messages mq \<and> size_sum ?m \<le> mq_bytes mq"
    moreover have "int (length (filter P ?m)) \<le> int (length ?m)" by simp
    ultimately show ?thesis using s by linarith
  qed simp
  then show "mail_of a (messages (r\<lparr>messages := filter P (messages r)\<rparr>)) = [] \<or>
      int (length (mail_of a (messages (r\<lparr>messages := filter P (messages r)\<rparr>)))) \<le> mq_messages mq \<and>
      size_sum (mail_of a (messages (r\<lparr>messages := filter P (messages r)\<rparr>))) \<le> mq_bytes mq"
    by (simp add: mail_of_filter)
qed

lemma relay_ok_filter:
  assumes "relay_ok sc mq r"
  shows "relay_ok sc mq (r\<lparr>messages := filter P (messages r)\<rparr>)"
proof -
  have "\<forall>m \<in> set (messages r). 0 \<le> rm_size m" using assms by (auto simp: relay_ok_defs)
  with bounds_filter [of mq r P] assms show ?thesis
    by (auto simp: relay_ok_defs sorted_wrt_filter distinct_map_filter)
qed

lemma relay_ok_redelivery: "relay_ok sc mq r \<Longrightarrow> keys_ok rd \<Longrightarrow> relay_ok sc mq (r\<lparr>redelivery := rd\<rparr>)"
  by (simp add: relay_ok_defs)

lemma relay_ok_agent_keys: "relay_ok sc mq r \<Longrightarrow> relay_ok sc mq (r\<lparr>agent_keys := k\<rparr>)"
  by (simp add: relay_ok_defs)

lemma relayAckTx_filter:
  "relayAckTx to is (ms, deleted) = (ms', deleted') \<Longrightarrow>
     ms' = filter (\<lambda>m. \<not> (rm_to m = to \<and> rm_id m \<in> set is \<and> rm_id m \<notin> set deleted)) ms \<and>
     set deleted' = set deleted \<union> {j \<in> set is. j \<notin> set deleted \<and> (\<exists>m \<in> set ms. rm_to m = to \<and> rm_id m = j)} \<and>
     (distinct deleted \<longrightarrow> distinct deleted')"
proof (induction "is" arbitrary: ms deleted)
  case Nil
  then show ?case by simp
next
  case (Cons i "is")
  show ?case
  proof (cases "i \<in> set deleted \<or> \<not> (\<exists>m \<in> set ms. rm_id m = i \<and> rm_to m = to)")
    case True
    with Cons.prems have "relayAckTx to is (ms, deleted) = (ms', deleted')" by (auto simp: list_ex_iff split: if_splits)
    note IH = Cons.IH [OF this]
    have "ms' = filter (\<lambda>m. \<not> (rm_to m = to \<and> rm_id m \<in> set (i # is) \<and> rm_id m \<notin> set deleted)) ms"
      unfolding conjunct1 [OF IH] by (rule filter_cong) (use True in auto)
    with IH True show ?thesis by auto
  next
    case False
    let ?ms = "filter (\<lambda>m. \<not> (rm_id m = i \<and> rm_to m = to)) ms"
    from False Cons.prems have run: "relayAckTx to is (?ms, deleted @ [i]) = (ms', deleted')"
      by (auto simp: list_ex_iff split: if_splits)
    note IH = Cons.IH [OF run]
    have "ms' = filter (\<lambda>m. \<not> (rm_to m = to \<and> rm_id m \<in> set (i # is) \<and> rm_id m \<notin> set deleted)) ms"
      unfolding conjunct1 [OF IH] filter_filter by (rule filter_cong) (use False in auto)
    moreover have "set deleted' = set deleted \<union>
        {j \<in> set (i # is). j \<notin> set deleted \<and> (\<exists>m \<in> set ms. rm_to m = to \<and> rm_id m = j)}"
      using IH False by auto
    ultimately show ?thesis using IH False by simp
  qed
qed

lemma relay_ok_ack:
  assumes "relayAckTx to is (messages r, []) = (ms, deleted)" and "relay_ok sc mq r"
  shows "relay_ok sc mq (r\<lparr>messages := ms\<rparr>)"
  using relayAckTx_filter [OF assms(1)] relay_ok_filter [OF assms(2)] by simp

text \<open>So does an enqueue.\<close>

lemma mailbox_room_None:
  "mailbox_room sc mq q it ms = None \<Longrightarrow>
     int (length (mail_of (it_to it) ms)) + 1 \<le> mq_messages mq \<and>
     size_sum (mail_of (it_to it) ms) + int (length (it_envelope it)) \<le> mq_bytes mq"
  by (auto simp: mailbox_room_def Let_def split: if_split_asm)

lemma relay_ok_enqueue:
  assumes run: "RelayEnqueue sc mq q now draw it r = (r', res)" and ok: "relay_ok sc mq r"
  shows "relay_ok sc mq r'"
proof -
  have fit: "kids_fit sc (kids r)" using ok by (simp add: relay_ok_def)
  from run fit show ?thesis
  proof (cases rule: RelayEnqueue_cases)
    case (kept c)
    with ok relay_ok_kids show ?thesis by blast
  next
    case (added c rid w)
    let ?row = "queued_row it (row_seq r + 1) rid (unix_milli now)"
    let ?r = "r\<lparr>kids := c, messages := messages r @ [?row], row_seq := row_seq r + 1\<rparr>"
    have row: "rm_id ?row = row_seq r + 1" "rm_to ?row = it_to it" "rm_digest ?row = it_digest it" "rm_rid ?row = rid"
      "rm_size ?row = int (length (it_envelope it))" "rm_payload ?row = it_envelope it"
      by (simp_all add: queued_row_def)
    note room = mailbox_room_None [OF added(10)]
    have "ids_ok ?r" using ok by (auto simp: relay_ok_defs sorted_wrt_append row)
    moreover have "unique_ok ?r"
      using ok added(7,11) by (auto simp: relay_ok_defs row RelayQueued_None image_iff)
    moreover have "sizes_ok ?r" using ok added(5) by (simp add: relay_ok_defs row)
    moreover have "bounds_ok mq ?r"
      using ok room by (auto simp: relay_ok_defs row mail_of_def [of _ "[?row]"])
    ultimately have "relay_ok sc mq ?r" using ok added(1) by (simp add: relay_ok_def)
    moreover have "keys_ok (redelivery r)" using ok by (simp add: relay_ok_def)
    ultimately show ?thesis
      unfolding added(2) by (auto simp: count_redelivery_def intro!: relay_ok_redelivery split: option.split)
  qed
qed

section \<open>A page\<close>

text \<open>What waits for a recipient and can still be opened, oldest first.\<close>

definition live_mail :: "millis \<Rightarrow> aid \<Rightarrow> relay \<Rightarrow> relay_row list" where
  "live_mail now_ms to r = filter (\<lambda>m. rm_to m = to \<and> not_expired now_ms m) (messages r)"

definition row_message :: "relay_row \<Rightarrow> relay_message" where
  "row_message m = message_of m (rm_payload m)"

lemma row_message_sel [simp]: "RM_ID (row_message m) = rm_id m" "RM_Payload (row_message m) = rm_payload m"
  "RM_Size (row_message m) = rm_size m"
  by (simp_all add: row_message_def message_of_def)

lemma poll_loop_prefix:
  assumes "poll_loop limit budget acc msgs rows = (ms, rest)" and "int (length msgs) \<le> limit" "0 < limit"
  shows "\<exists>k \<le> length rows. ms = msgs @ take k rows \<and> (rest \<longleftrightarrow> k < length rows) \<and> int (length msgs + k) \<le> limit \<and>
    (msgs = [] \<longrightarrow> rows \<noteq> [] \<longrightarrow> 0 < k) \<and>
    (acc + size_sum (take k rows) \<le> budget \<or> k = 0 \<or> msgs = [] \<and> k = 1)"
  using assms
proof (induction limit budget acc msgs rows rule: poll_loop.induct)
  case (1 limit budget acc msgs)
  then show ?case by auto
next
  case (2 limit budget acc msgs m rows)
  show ?case
  proof (cases "int (length msgs) = limit \<or> msgs \<noteq> [] \<and> acc + rm_size m > budget")
    case True
    with 2 show ?thesis by (intro exI [of _ 0]) auto
  next
    case False
    with 2 have run: "poll_loop limit budget (acc + rm_size m) (msgs @ [m]) rows = (ms, rest)" by simp
    from False 2 have "int (length (msgs @ [m])) \<le> limit" by auto
    from "2.IH" [OF False run this "2.prems"(3)] obtain k where k: "k \<le> length rows" "ms = (msgs @ [m]) @ take k rows"
      "rest \<longleftrightarrow> k < length rows" "int (length (msgs @ [m]) + k) \<le> limit"
      "acc + rm_size m + size_sum (take k rows) \<le> budget \<or> k = 0" by auto
    then show ?thesis using False by (intro exI [of _ "Suc k"]) auto
  qed
qed

lemma sorted_split:
  "sorted_wrt (\<lambda>x y. f x < (f y :: int)) xs \<Longrightarrow> xs = filter (\<lambda>x. f x \<le> c) xs @ filter (\<lambda>x. c < f x) xs"
proof (induction xs)
  case (Cons x xs)
  show ?case
  proof (cases "f x \<le> c")
    case True
    with Cons show ?thesis by simp
  next
    case False
    with Cons.prems have "filter (\<lambda>x. f x \<le> c) xs = []" "filter (\<lambda>x. c < f x) xs = xs"
      by (auto simp: filter_empty_conv filter_id_conv)
    with False show ?thesis by simp
  qed
qed simp

lemma sorted_between:
  assumes "sorted_wrt (\<lambda>x y. f x < (f y :: int)) xs" and "p = take k (filter (\<lambda>x. c < f x) xs)" and "p \<noteq> []"
  shows "filter (\<lambda>x. f (hd p) \<le> f x \<and> f x \<le> f (last p)) xs = p"
proof -
  let ?b = "drop k (filter (\<lambda>x. c < f x) xs)"
  have split: "xs = filter (\<lambda>x. f x \<le> c) xs @ p @ ?b"
    using sorted_split [OF assms(1), of c] assms(2) by simp
  have sorted: "sorted_wrt (\<lambda>x y. f x < f y) (p @ ?b)"
    using sorted_wrt_filter [OF assms(1)] assms(2) by simp
  have c: "\<forall>x \<in> set p. c < f x" using assms(2) by (auto dest: in_set_takeD)
  have hd: "\<forall>x \<in> set p. f (hd p) \<le> f x" using sorted assms(3) by (cases p) (auto intro: less_imp_le)
  have "p = butlast p @ [last p]" using assms(3) by simp
  then have "sorted_wrt (\<lambda>x y. f x < f y) (butlast p @ [last p])" using sorted by (simp add: sorted_wrt_append)
  then have last: "\<forall>x \<in> set p. f x \<le> f (last p)"
    using assms(3) by (cases p rule: rev_cases) (auto simp: sorted_wrt_append)
  have b: "\<forall>x \<in> set ?b. f (last p) < f x" using sorted assms(3) by (auto simp: sorted_wrt_append)
  let ?P = "\<lambda>x. f (hd p) \<le> f x \<and> f x \<le> f (last p)"
  have "filter ?P (filter (\<lambda>x. f x \<le> c) xs) = []"
  proof -
    have "c < f (hd p)" using c assms(3) by simp
    then show ?thesis by (auto simp: filter_empty_conv)
  qed
  moreover have "filter ?P p = p" using hd last by (simp add: filter_id_conv)
  moreover have "filter ?P ?b = []" using b by (auto simp: filter_empty_conv not_le)
  ultimately have "filter ?P (filter (\<lambda>x. f x \<le> c) xs @ p @ ?b) = p" by simp
  with split show ?thesis by simp
qed

lemma fill_payloads_same: "fill_payloads ms (map (\<lambda>m. (rm_id m, rm_payload m)) ms) = Inr (map row_message ms)"
  by (induction ms) (simp_all add: row_message_def)

text \<open>A page is the beginning of what follows the cursor, and says whether that is all of it; the mailbox
  never changes within one read.\<close>

lemma RelayPoll_page:
  assumes "ids_ok r"
  shows "\<exists>k. let rows = filter (\<lambda>m. max 0 after < rm_id m) (live_mail (unix_milli now) to r) in
    k \<le> length rows \<and> k \<le> 1000 \<and> (rows \<noteq> [] \<longrightarrow> 0 < k) \<and>
    (size_sum (take k rows) \<le> budget \<or> k \<le> 1) \<and>
    RelayPoll now to after limit budget r = Inr (map row_message (take k rows), k < length rows)"
proof -
  define lim where "lim = (if (if limit \<le> 0 then 100 else limit) > MaxPollLimit then MaxPollLimit
                           else if limit \<le> 0 then 100 else limit)"
  have lim: "0 < lim" "lim \<le> 1000" by (auto simp: lim_def MaxPollLimit_def)
  define rows where "rows = filter (\<lambda>m. max 0 after < rm_id m) (live_mail (unix_milli now) to r)"
  have rows_eq: "filter (\<lambda>m. rm_to m = to \<and> rm_id m > max 0 after \<and> not_expired (unix_milli now) m) (messages r) = rows"
    by (auto simp: rows_def live_mail_def filter_filter intro!: filter_cong)
  define page where "page = take (nat (lim + 1)) rows"
  obtain ms rest where loop: "poll_loop lim budget 0 [] page = (ms, rest)" by force
  have "int (length ([] :: relay_row list)) \<le> lim" using lim by simp
  from poll_loop_prefix [OF loop this lim(1)] obtain k where K: "k \<le> length page"
    "ms = [] @ take k page" "rest \<longleftrightarrow> k < length page" "int (length ([] :: relay_row list) + k) \<le> lim"
    "([] :: relay_row list) = [] \<longrightarrow> page \<noteq> [] \<longrightarrow> 0 < k"
    "0 + size_sum (take k page) \<le> budget \<or> k = 0 \<or> ([] :: relay_row list) = [] \<and> k = 1" by blast
  then have k: "k \<le> length page" "ms = take k page" "rest \<longleftrightarrow> k < length page" "int k \<le> lim"
    "page \<noteq> [] \<longrightarrow> 0 < k" "size_sum (take k page) \<le> budget \<or> k \<le> 1" by auto
  have "min k (nat (lim + 1)) = k" using k(4) by linarith
  then have tk: "take k page = take k rows" by (simp add: page_def)
  have more: "rest \<longleftrightarrow> k < length rows" using k(3,4) by (auto simp: page_def)
  have pos: "rows \<noteq> [] \<longrightarrow> 0 < k" using k(5) lim by (auto simp: page_def)
  have le: "k \<le> length rows" using k(1) by (simp add: page_def)
  have max: "(if after < 0 then 0 else after) = max 0 after" by simp
  have sorted: "sorted_wrt (\<lambda>x y. rm_id x < rm_id y) (live_mail (unix_milli now) to r)"
    using assms by (simp add: ids_ok_def live_mail_def sorted_wrt_filter)
  have "RelayPoll now to after limit budget r =
      (if ms = [] then Inr ([], rest)
       else rbind (fill_payloads ms (map (\<lambda>m. (rm_id m, rm_payload m))
              (filter (\<lambda>m. rm_to m = to \<and> rm_id (hd ms) \<le> rm_id m \<and> rm_id m \<le> rm_id (last ms)
                            \<and> not_expired (unix_milli now) m) (messages r)))) (\<lambda>ms. Inr (ms, rest)))"
    unfolding RelayPoll_def Let_def max rows_eq lim_def [symmetric] page_def [symmetric] loop by simp
  also have "\<dots> = Inr (map row_message (take k rows), k < length rows)"
  proof (cases "ms = []")
    case True
    then show ?thesis using k(2) tk more by simp
  next
    case False
    have "filter (\<lambda>m. rm_to m = to \<and> rm_id (hd ms) \<le> rm_id m \<and> rm_id m \<le> rm_id (last ms) \<and>
           not_expired (unix_milli now) m) (messages r) =
        filter (\<lambda>m. rm_id (hd ms) \<le> rm_id m \<and> rm_id m \<le> rm_id (last ms)) (live_mail (unix_milli now) to r)"
      by (auto simp: live_mail_def filter_filter intro!: filter_cong)
    also have "\<dots> = ms"
      by (rule sorted_between [OF sorted _ False, where c = "max 0 after" and k = k]) (simp add: k(2) tk rows_def)
    finally show ?thesis using False k(2) tk more fill_payloads_same [of ms] by simp
  qed
  finally show ?thesis
    using k(4,6) lim tk pos le unfolding rows_def [symmetric] Let_def
    by (intro exI [of _ k]) auto
qed

end
