(* ===== verification/Mailbox_Machine.thy ===== *)
theory Mailbox_Machine
  imports Mailbox_Laws "HOL-Library.Multiset"
begin

text \<open>
  The mailboxes over time. The locale \<open>mail_queue\<close> is what a mailbox promises the daemon that reads it,
  whatever the page limits; it is interpreted on \<open>RelayPoll\<close> and \<open>RelayAck\<close>, and the loop of a reader
  that polls from the head and acks each page is proved in it. Then the operations of the mailboxes
  and of the delivery confirmations as a step relation with events, their invariant, and the count
  of redeliveries.
\<close>

section \<open>A mailbox as a queue\<close>

text \<open>Poll, hand the page over, ack it, poll again: what was handed over and the state after.\<close>

fun drain :: "('s \<Rightarrow> (int \<times> 'm) list) \<Rightarrow> (int list \<Rightarrow> 's \<Rightarrow> 's) \<Rightarrow> nat \<Rightarrow> 's \<Rightarrow> (int \<times> 'm) list \<times> 's" where
  "drain poll ack 0 s = ([], s)"
| "drain poll ack (Suc n) s =
    (case poll s of
      [] \<Rightarrow> ([], s)
    | x # p \<Rightarrow> (case drain poll ack n (ack (map fst (x # p)) s) of (ms, s') \<Rightarrow> ((x # p) @ ms, s')))"

locale mail_queue =
  fixes inv :: "'s \<Rightarrow> bool"
    and box :: "'s \<Rightarrow> 'a \<Rightarrow> (int \<times> 'm) list"
    and page :: "'a \<Rightarrow> int \<Rightarrow> 's \<Rightarrow> (int \<times> 'm) list"
    and ack :: "'a \<Rightarrow> int list \<Rightarrow> 's \<Rightarrow> 's"
  assumes box_sorted: "inv s \<Longrightarrow> sorted_wrt (\<lambda>x y. fst x < fst y) (box s a)"
    and page_prefix: "inv s \<Longrightarrow> \<exists>k. page a c s = take k (filter (\<lambda>x. c < fst x) (box s a))"
    and page_nonempty: "inv s \<Longrightarrow> page a c s = [] \<Longrightarrow> filter (\<lambda>x. c < fst x) (box s a) = []"
    and box_positive: "inv s \<Longrightarrow> x \<in> set (box s a) \<Longrightarrow> 0 < fst x"
    and ack_box: "inv s \<Longrightarrow> box (ack a is s) b = (if b = a then filter (\<lambda>x. fst x \<notin> set is) (box s a) else box s b)"
    and ack_inv: "inv s \<Longrightarrow> inv (ack a is s)"
begin

lemma pages: "inv s \<Longrightarrow> cursor_pages (\<lambda>c. page a c s) fst (box s a)"
  by unfold_locales (auto intro: box_sorted page_prefix dest: page_nonempty)

lemma from_head: "inv s \<Longrightarrow> filter (\<lambda>x. 0 < fst x) (box s a) = box s a"
  using box_positive by (auto simp: filter_id_conv)

lemma walk_box: "inv s \<Longrightarrow> length (box s a) \<le> n \<Longrightarrow> walk_pages (\<lambda>c. page a c s) fst 0 n = box s a"
  using cursor_pages.walk_complete [OF pages, of s 0 a n] by (simp add: from_head)

lemma page_rest:
  assumes "inv s" and "page a 0 s = p"
  shows "box s a = p @ filter (\<lambda>x. fst x \<notin> set (map fst p)) (box s a)"
proof -
  obtain k where k: "p = take k (box s a)" using page_prefix [OF assms(1), of a 0] assms by (auto simp: from_head)
  have d: "distinct (map fst (box s a))"
  proof -
    have "sorted_wrt (<) (map fst (box s a))" using box_sorted [OF assms(1), of a] by (simp add: sorted_wrt_map)
    then show ?thesis by (simp add: strict_sorted_iff)
  qed
  have split: "box s a = p @ drop k (box s a)" by (simp add: k)
  then have "distinct (map fst p @ map fst (drop k (box s a)))" using d by (metis map_append)
  then have "set (map fst p) \<inter> set (map fst (drop k (box s a))) = {}" by simp
  then have "filter (\<lambda>x. fst x \<notin> set (map fst p)) (p @ drop k (box s a)) = drop k (box s a)"
    by (auto simp: filter_empty_conv filter_id_conv)
  with split show ?thesis by metis
qed

lemma drain_box:
  "inv s \<Longrightarrow> length (box s a) \<le> n \<Longrightarrow>
     \<exists>s'. drain (page a 0) (ack a) n s = (box s a, s') \<and> box s' a = [] \<and> (\<forall>b. b \<noteq> a \<longrightarrow> box s' b = box s b) \<and> inv s'"
proof (induction n arbitrary: s)
  case 0
  then show ?case by simp
next
  case (Suc n)
  show ?case
  proof (cases "page a 0 s")
    case Nil
    with page_nonempty [OF Suc.prems(1) Nil] Suc.prems show ?thesis by (simp add: from_head)
  next
    case (Cons x p)
    let ?s = "ack a (map fst (x # p)) s"
    have rest: "box s a = (x # p) @ box ?s a"
      using page_rest [OF Suc.prems(1) Cons] ack_box [OF Suc.prems(1), of a "map fst (x # p)" a] by simp
    then have "length (box s a) = Suc (length p) + length (box ?s a)" using arg_cong [OF rest, of length] by simp
    then have "length (box ?s a) \<le> n" using Suc.prems(2) by simp
    from Suc.IH [OF ack_inv [OF Suc.prems(1)] this] obtain s' where s':
      "drain (page a 0) (ack a) n ?s = (box ?s a, s')" "box s' a = []" "\<forall>b. b \<noteq> a \<longrightarrow> box s' b = box ?s b" "inv s'"
      by blast
    have "drain (page a 0) (ack a) (Suc n) s = ((x # p) @ box ?s a, s')" using Cons s'(1) by simp
    then have "drain (page a 0) (ack a) (Suc n) s = (box s a, s')" by (simp only: rest [symmetric])
    moreover have "\<forall>b. b \<noteq> a \<longrightarrow> box s' b = box s b"
      using s'(3) ack_box [OF Suc.prems(1), of a "map fst (x # p)"] by simp
    ultimately show ?thesis using s'(2,4) by blast
  qed
qed

end

text \<open>The model's mailbox.\<close>

definition mail_box :: "time_ns \<Rightarrow> relay \<Rightarrow> aid \<Rightarrow> (int \<times> relay_message) list" where
  "mail_box now r a = map (\<lambda>m. (rm_id m, row_message m)) (live_mail (unix_milli now) a r)"

definition mail_page :: "time_ns \<Rightarrow> int \<Rightarrow> int \<Rightarrow> aid \<Rightarrow> int \<Rightarrow> relay \<Rightarrow> (int \<times> relay_message) list" where
  "mail_page now limit budget a c r =
    (case RelayPoll now a c limit budget r of Inl _ \<Rightarrow> [] | Inr (ms, _) \<Rightarrow> map (\<lambda>m. (RM_ID m, m)) ms)"

lemma RelayAck_messages:
  "messages (fst (RelayAck a is r)) = filter (\<lambda>m. \<not> (rm_to m = a \<and> rm_id m \<in> set is)) (messages r)"
proof (cases "is = []")
  case True
  then show ?thesis by (simp add: RelayAck_def)
next
  case False
  obtain ms d where "relayAckTx a is (messages r, []) = (ms, d)" by force
  with relayAckTx_filter [OF this] False show ?thesis by (simp add: RelayAck_def)
qed

lemma mail_page_prefix:
  assumes "ids_ok r"
  shows "\<exists>k. mail_page now limit budget a c r = take k (filter (\<lambda>x. c < fst x) (mail_box now r a)) \<and>
    (filter (\<lambda>x. c < fst x) (mail_box now r a) \<noteq> [] \<longrightarrow> 0 < k)"
proof -
  have pos: "\<forall>m \<in> set (live_mail (unix_milli now) a r). 1 \<le> rm_id m"
    using assms by (simp add: ids_ok_def live_mail_def)
  have eq: "filter (\<lambda>x. c < fst x) (mail_box now r a) =
      map (\<lambda>m. (rm_id m, row_message m)) (filter (\<lambda>m. max 0 c < rm_id m) (live_mail (unix_milli now) a r))"
  proof -
    have "filter (\<lambda>m. max 0 c < rm_id m) (live_mail (unix_milli now) a r) =
        filter (\<lambda>m. c < rm_id m) (live_mail (unix_milli now) a r)"
      by (rule filter_cong) (use pos in auto)
    then show ?thesis by (simp add: mail_box_def filter_map comp_def)
  qed
  obtain k where k: "let rows = filter (\<lambda>m. max 0 c < rm_id m) (live_mail (unix_milli now) a r) in
    k \<le> length rows \<and> k \<le> 1000 \<and> (rows \<noteq> [] \<longrightarrow> 0 < k) \<and> (size_sum (take k rows) \<le> budget \<or> k \<le> 1) \<and>
    RelayPoll now a c limit budget r = Inr (map row_message (take k rows), k < length rows)"
    using RelayPoll_page [OF assms] by blast
  then show ?thesis
    unfolding eq by (intro exI [of _ k]) (simp add: Let_def mail_page_def comp_def take_map)
qed

interpretation relay_queue: mail_queue
  ids_ok "mail_box now" "mail_page now limit budget" "\<lambda>a is r. fst (RelayAck a is r)"
  for now limit budget
proof
  fix s :: relay and a b :: aid and c :: int and "is" :: "int list" and x :: "int \<times> relay_message"
  assume ok: "ids_ok s"
  show "sorted_wrt (\<lambda>x y. fst x < fst y) (mail_box now s a)"
    using ok by (simp add: mail_box_def live_mail_def ids_ok_def sorted_wrt_map sorted_wrt_filter)
  show "\<exists>k. mail_page now limit budget a c s = take k (filter (\<lambda>x. c < fst x) (mail_box now s a))"
    using mail_page_prefix [OF ok] by blast
  show "mail_page now limit budget a c s = [] \<Longrightarrow> filter (\<lambda>x. c < fst x) (mail_box now s a) = []"
    using mail_page_prefix [OF ok, of now limit budget a c] by force
  show "x \<in> set (mail_box now s a) \<Longrightarrow> 0 < fst x"
    using ok by (auto simp: mail_box_def live_mail_def ids_ok_def)
  show "mail_box now (fst (RelayAck a is s)) b =
      (if b = a then filter (\<lambda>x. fst x \<notin> set is) (mail_box now s a) else mail_box now s b)"
  proof -
    have "filter (\<lambda>m. rm_to m = b \<and> not_expired (unix_milli now) m) (messages (fst (RelayAck a is s))) =
        filter (\<lambda>m. rm_to m = b \<and> not_expired (unix_milli now) m \<and> (b = a \<longrightarrow> rm_id m \<notin> set is)) (messages s)"
      unfolding RelayAck_messages filter_filter by (rule filter_cong) auto
    then show ?thesis
      by (auto simp: mail_box_def live_mail_def filter_map comp_def filter_filter conj_assoc)
  qed
  show "ids_ok (fst (RelayAck a is s))"
    using ok RelayAck_messages [of a "is" s]
    by (auto simp: ids_ok_def sorted_wrt_filter RelayAck_def split: prod.splits)
qed

section \<open>The operations as steps\<close>

text \<open>
  \<open>EvKeys\<close> is any publication of key sets and \<open>EvOutside\<close> another process that deletes confirmations;
  what they write is not restricted. The quota of a send is any the lookup may answer, the draws of
  rids are any.
\<close>

record mail_state =
  ml_relay :: relay
  ml_dacks :: dacks

datatype mail_event =
  EvSend relay_item | EvAck aid "ack_item list" | EvRelayAck aid "int list" | EvPurge int | EvPurgeExp
  | EvKeys | EvDeregister aid | EvStatus "(bytes \<times> bytes) list" | EvPurgeDacks | EvOutside

inductive mail_step :: "seal_core \<Rightarrow> relay_quota \<Rightarrow> mail_event \<Rightarrow> time_ns \<Rightarrow> mail_state \<Rightarrow> mail_state \<Rightarrow> bool"
  for sc :: seal_core and mq :: relay_quota where
  ml_send: "RelayEnqueue sc mq q now draw it (ml_relay s) = (r', res) \<Longrightarrow>
     mail_step sc mq (EvSend it) now s (s\<lparr>ml_relay := r'\<rparr>)"
| ml_ack: "StoreDAcks now a items (ml_relay s) (ml_dacks s) = (r', d', res) \<Longrightarrow>
     mail_step sc mq (EvAck a items) now s (s\<lparr>ml_relay := r', ml_dacks := d'\<rparr>)"
| ml_relay_ack: "RelayAck a is (ml_relay s) = (r', del) \<Longrightarrow>
     mail_step sc mq (EvRelayAck a is) now s (s\<lparr>ml_relay := r'\<rparr>)"
| ml_purge: "PurgeExpiredRelay ttl now (ml_relay s) = (r', res) \<Longrightarrow>
     mail_step sc mq (EvPurge ttl) now s (s\<lparr>ml_relay := r'\<rparr>)"
| ml_purge_exp: "PurgeExpiredByExp now (ml_relay s) = (r', n) \<Longrightarrow>
     mail_step sc mq EvPurgeExp now s (s\<lparr>ml_relay := r'\<rparr>)"
| ml_keys: "mail_step sc mq EvKeys now s (s\<lparr>ml_relay := (ml_relay s)\<lparr>agent_keys := k\<rparr>\<rparr>)"
| ml_dereg: "mail_step sc mq (EvDeregister a) now s (s\<lparr>ml_relay := dropMailbox a (ml_relay s)\<rparr>)"
| ml_status: "RelayStatus now items (ml_relay s) (ml_dacks s) = (d', res) \<Longrightarrow>
     mail_step sc mq (EvStatus items) now s (s\<lparr>ml_dacks := d'\<rparr>)"
| ml_purge_dacks: "PurgeExpiredDAcks now (ml_dacks s) = (d', n) \<Longrightarrow>
     mail_step sc mq EvPurgeDacks now s (s\<lparr>ml_dacks := d'\<rparr>)"
| ml_outside: "mail_step sc mq EvOutside now s
     (s\<lparr>ml_dacks := (ml_dacks s)\<lparr>dk_rows := filter P (dk_rows (ml_dacks s))\<rparr>\<rparr>)"

definition mail_start :: "(aid, u64 \<times> bytes) table \<Rightarrow> int \<Rightarrow> mail_state" where
  "mail_start k m = \<lparr>ml_relay = \<lparr>messages = [], row_seq = 0, redelivery = [], agent_keys = k, kids = []\<rparr>,
     ml_dacks = \<lparr>dk_rows = [], dk_known = False, dk_count = 0, dk_max = m\<rparr>\<rparr>"

inductive mail_reachable :: "seal_core \<Rightarrow> relay_quota \<Rightarrow> mail_state \<Rightarrow> bool"
  for sc :: seal_core and mq :: relay_quota where
  mail_init: "mail_reachable sc mq (mail_start k m)"
| mail_next: "mail_reachable sc mq s \<Longrightarrow> mail_step sc mq ev now s s' \<Longrightarrow> mail_reachable sc mq s'"

inductive_cases mail_stepE: "mail_step sc mq ev now s s'"

section \<open>The confirmations\<close>

text \<open>The count the process keeps is never below the number of rows, and the rows are within the bound.\<close>

definition dacks_ok :: "dacks \<Rightarrow> bool" where
  "dacks_ok d \<longleftrightarrow> distinct (map dk_handle (dk_rows d)) \<and> (dk_known d \<longrightarrow> int (length (dk_rows d)) \<le> dk_count d) \<and>
     int (length (dk_rows d)) \<le> dack_bound d"

lemma dack_bound_pos [simp]: "0 < dack_bound d"
  by (simp add: dack_bound_def MaxDAckRows_def)

lemma put_dack_rows:
  assumes "put_dack h k x rows = (rows', n)" and "distinct (map dk_handle rows)"
  shows "distinct (map dk_handle rows')" and "int (length rows') = int (length rows) + n" and "0 \<le> n"
proof -
  have "map dk_handle (map (\<lambda>d. if dk_handle d = h then d\<lparr>dk_dack := k, dk_exp := x\<rparr> else d) rows) = map dk_handle rows"
    by (induction rows) auto
  with assms show "distinct (map dk_handle rows')" "int (length rows') = int (length rows) + n" "0 \<le> n"
    by (auto simp: put_dack_def list_ex_iff split: if_splits simp del: map_map)
qed

lemma store_dacks_rows:
  "store_dacks x del items used rows ins st = Some (rows', ins', st') \<Longrightarrow> distinct (map dk_handle rows) \<Longrightarrow>
     distinct (map dk_handle rows') \<and> int (length rows') - ins' = int (length rows) - ins"
proof (induction x del items used rows ins st rule: store_dacks.induct)
  case (2 x del it items used rows ins st)
  show ?case
  proof (cases "ai_id it \<notin> set del \<or> ai_id it \<in> set used")
    case True
    with 2 show ?thesis by simp
  next
    case False
    show ?thesis
    proof (cases "ai_handle it")
      case None
      with False 2 show ?thesis by simp
    next
      case (Some h)
      obtain rows1 n where p: "put_dack h (ai_dack it) x rows = (rows1, n)" by force
      note q = put_dack_rows [OF p "2.prems"(2)]
      from False Some "2.prems"(1) p have ok: "\<not> (length h \<noteq> HandleLen \<or> length (ai_dack it) \<noteq> DAckLen)"
        and run: "store_dacks x del items (ai_id it # used) rows1 (ins + n) (Suc st) = Some (rows', ins', st')"
        by (auto split: if_splits)
      from "2.IH"(3) [OF False Some ok p [symmetric] run q(1)] q(2) show ?thesis by simp
    qed
  qed
qed simp

lemma sort_key_take_handles:
  assumes "distinct (map dk_handle rows)" and "n \<le> length rows"
  shows "length (filter (\<lambda>d. dk_handle d \<notin> set (map dk_handle (take n (sort_key dk_exp rows)))) rows) = length rows - n"
proof -
  let ?s = "sort_key dk_exp rows"
  let ?P = "\<lambda>d. dk_handle d \<notin> set (map dk_handle (take n ?s))"
  have m: "mset ?s = mset rows" by simp
  have "mset (map dk_handle ?s) = mset (map dk_handle rows)" by simp
  then have d: "distinct (map dk_handle ?s)" using assms(1) by (metis mset_eq_imp_distinct_iff)
  have len: "length ?s = length rows" by simp
  have split: "map dk_handle ?s = map dk_handle (take n ?s) @ map dk_handle (drop n ?s)"
    by (metis append_take_drop_id map_append)
  have "set (map dk_handle (take n ?s)) \<inter> set (map dk_handle (drop n ?s)) = {}"
    using d unfolding split by simp
  then have "filter ?P (take n ?s) = []" "filter ?P (drop n ?s) = drop n ?s"
    by (auto simp: filter_empty_conv filter_id_conv)
  then have "filter ?P (take n ?s @ drop n ?s) = drop n ?s" by (simp only: filter_append append_Nil)
  then have "filter ?P ?s = drop n ?s" by (simp only: append_take_drop_id)
  then have drop: "length (filter ?P ?s) = length rows - n" by simp
  have "length (filter ?P rows) = length (filter ?P ?s)"
    by (rule mset_eq_length) (simp only: mset_filter m)
  then show ?thesis using drop by (rule trans)
qed

lemma boundDAcksTx_ok:
  assumes "boundDAcksTx d ins rows = (rows', n, e)" and "distinct (map dk_handle rows)"
    and "dk_known d \<longrightarrow> int (length rows) \<le> dk_count d + ins"
  shows "distinct (map dk_handle rows') \<and> int (length rows') \<le> n \<and> int (length rows') \<le> dack_bound d \<and>
    (e = 0 \<or> int (length rows) > dack_bound d)"
proof -
  define kept where "kept = (if dk_known d then dk_count d + ins else int (length rows))"
  have kept: "int (length rows) \<le> kept" using assms(3) by (simp add: kept_def)
  have un: "boundDAcksTx d ins rows = (if kept \<le> dack_bound d then (rows, kept, 0)
     else (let n = int (length rows) in
       if n \<le> dack_bound d then (rows, n, 0)
       else (let rows' = evict (n - dack_bound d) rows; e = length rows - length rows' in (rows', n - int e, e))))"
    by (simp add: boundDAcksTx_def kept_def Let_def)
  show ?thesis
  proof (cases "kept \<le> dack_bound d \<or> int (length rows) \<le> dack_bound d")
    case True
    with assms(1,2) kept un show ?thesis by (auto simp: Let_def split: if_splits)
  next
    case False
    let ?k = "nat (int (length rows) - dack_bound d)"
    have k: "?k \<le> length rows" using dack_bound_pos [of d] by linarith
    have "length (evict (int (length rows) - dack_bound d) rows) = length rows - ?k"
      unfolding evict_def Let_def by (rule sort_key_take_handles [OF assms(2) k])
    moreover have "distinct (map dk_handle (evict (int (length rows) - dack_bound d) rows))"
      unfolding evict_def Let_def by (rule distinct_map_filter [OF assms(2)])
    ultimately show ?thesis using assms(1) un False k by (auto simp: Let_def)
  qed
qed

lemma StoreDAcks_ok:
  assumes "StoreDAcks now a items r d = (r', d', res)" and "dacks_ok d"
  shows "dacks_ok d'" and "\<exists>is. messages r' = filter (\<lambda>m. \<not> (rm_to m = a \<and> rm_id m \<in> set is)) (messages r) \<and>
    r' = r\<lparr>messages := messages r'\<rparr> \<and> set is \<subseteq> ai_id ` set items"
proof -
  have "dacks_ok d' \<and> (\<exists>is. messages r' = filter (\<lambda>m. \<not> (rm_to m = a \<and> rm_id m \<in> set is)) (messages r) \<and>
    r' = r\<lparr>messages := messages r'\<rparr> \<and> set is \<subseteq> ai_id ` set items)"
  proof (cases "items = []")
    case True
    with assms have "dacks_ok d'" "r' = r" by (simp_all add: StoreDAcks_def)
    then show ?thesis by (intro conjI exI [of _ "[]"]) auto
  next
    case False
    obtain ms del where ack: "relayAckTx a (map ai_id items) (messages r, []) = (ms, del)" by force
    show ?thesis
    proof (cases "store_dacks (unix_milli (now + DAckTTL)) del items [] (dk_rows d) 0 0")
      case None
      with assms False ack have "dacks_ok d'" "r' = r" by (simp_all add: StoreDAcks_def)
      then show ?thesis by (intro conjI exI [of _ "[]"]) auto
    next
      case (Some t)
      obtain rows ins st where t: "t = (rows, ins, st)" by (cases t)
      obtain rows' n e where b: "boundDAcksTx d ins rows = (rows', n, e)" by (cases "boundDAcksTx d ins rows")
      have out: "r' = r\<lparr>messages := ms\<rparr>" "d' = d\<lparr>dk_rows := rows', dk_known := True, dk_count := n\<rparr>"
        using assms(1) False ack Some t b by (simp_all add: StoreDAcks_def)
      have s: "distinct (map dk_handle rows) \<and> int (length rows) - ins = int (length (dk_rows d)) - 0"
        using store_dacks_rows [OF Some [unfolded t]] assms(2) by (simp add: dacks_ok_def)
      have "dk_known d \<longrightarrow> int (length rows) \<le> dk_count d + ins"
        using s assms(2) by (auto simp: dacks_ok_def)
      with boundDAcksTx_ok [OF b] s have "distinct (map dk_handle rows') \<and> int (length rows') \<le> n \<and>
          int (length rows') \<le> dack_bound d" by blast
      then have "dacks_ok d'" by (auto simp: dacks_ok_def out dack_bound_def)
      moreover have "messages r' = filter (\<lambda>m. \<not> (rm_to m = a \<and> rm_id m \<in> set (map ai_id items))) (messages r)"
        using relayAckTx_filter [OF ack] by (simp add: out)
      ultimately show ?thesis by (intro conjI exI [of _ "map ai_id items"]) (auto simp: out)
    qed
  qed
  then show "dacks_ok d'" and "\<exists>is. messages r' = filter (\<lambda>m. \<not> (rm_to m = a \<and> rm_id m \<in> set is)) (messages r) \<and>
    r' = r\<lparr>messages := messages r'\<rparr> \<and> set is \<subseteq> ai_id ` set items" by blast+
qed

definition mail_inv :: "seal_core \<Rightarrow> relay_quota \<Rightarrow> mail_state \<Rightarrow> bool" where
  "mail_inv sc mq s \<longleftrightarrow> relay_ok sc mq (ml_relay s) \<and> dacks_ok (ml_dacks s)"

lemma RelayStatus_rows:
  assumes "RelayStatus now items r d = (d', res)" and "dacks_ok d"
  shows "dacks_ok d'"
proof -
  let ?f = "\<lambda>cut fetched. \<lambda>w :: dack_row. if dk_handle w \<in> set cut then w\<lparr>dk_exp := min (dk_exp w) fetched\<rparr> else w"
  have "map dk_handle (map (?f cut fetched) rows) = map dk_handle rows" for cut fetched rows
    by (induction rows) auto
  with assms show ?thesis
    by (auto simp: RelayStatus_def Let_def dacks_ok_def dack_bound_def simp del: map_map)
qed

lemma int_filter_le: "int (length xs) \<le> n \<Longrightarrow> int (length (filter P xs)) \<le> n"
  by (meson length_filter_le of_nat_mono order_trans)

lemma dacks_ok_filter: "dacks_ok d \<Longrightarrow> dacks_ok (d\<lparr>dk_rows := filter P (dk_rows d)\<rparr>)"
  by (auto simp: dacks_ok_def dack_bound_def distinct_map_filter int_filter_le)

lemma PurgeExpiredDAcks_ok:
  assumes "PurgeExpiredDAcks now d = (d', n)" and "dacks_ok d"
  shows "dacks_ok d'"
proof -
  let ?gone = "\<lambda>w. dk_exp w \<le> unix_milli now"
  have len: "length (filter ?gone (dk_rows d)) + length (filter (\<lambda>w. \<not> ?gone w) (dk_rows d)) = length (dk_rows d)"
    by (rule sum_length_filter_compl)
  have "d' = (let d1 = d\<lparr>dk_rows := filter (\<lambda>w. \<not> ?gone w) (dk_rows d)\<rparr> in
      if dk_known d then d1\<lparr>dk_count := max 0 (dk_count d - int (length (filter ?gone (dk_rows d))))\<rparr> else d1)"
    using assms(1) by (auto simp: PurgeExpiredDAcks_def Let_def)
  with dacks_ok_filter [OF assms(2), of "\<lambda>w. \<not> ?gone w"] assms(2) len show ?thesis
    by (auto simp: dacks_ok_def dack_bound_def Let_def)
qed

lemma mail_step_inv: "mail_step sc mq ev now s s' \<Longrightarrow> mail_inv sc mq s \<Longrightarrow> mail_inv sc mq s'"
proof (induction rule: mail_step.induct)
  case (ml_send q now draw it s r' res)
  then show ?case using relay_ok_enqueue by (simp add: mail_inv_def)
next
  case (ml_ack now a items s r' d' res)
  from ml_ack(2) have ok: "relay_ok sc mq (ml_relay s)" "dacks_ok (ml_dacks s)" by (simp_all add: mail_inv_def)
  from StoreDAcks_ok(2) [OF ml_ack(1) ok(2)] obtain "is" where
    "messages r' = filter (\<lambda>m. \<not> (rm_to m = a \<and> rm_id m \<in> set is)) (messages (ml_relay s))"
    "r' = (ml_relay s)\<lparr>messages := messages r'\<rparr>" by blast
  then have "relay_ok sc mq r'" using relay_ok_filter [OF ok(1)] by metis
  with StoreDAcks_ok(1) [OF ml_ack(1) ok(2)] show ?case by (simp add: mail_inv_def)
next
  case (ml_relay_ack a "is" s r' del now)
  then show ?case
    using relay_ok_ack [of a "is" "ml_relay s"] by (auto simp: RelayAck_def mail_inv_def split: if_splits prod.splits)
next
  case (ml_purge ttl now s r' res)
  have "relay_ok sc mq ((ml_relay s)\<lparr>messages := filter P (messages (ml_relay s)), redelivery := filter Q (redelivery (ml_relay s))\<rparr>)" for P Q
  proof -
    have "relay_ok sc mq ((ml_relay s)\<lparr>messages := filter P (messages (ml_relay s))\<rparr>)"
      using ml_purge(2) by (intro relay_ok_filter) (simp add: mail_inv_def)
    then show ?thesis
      using relay_ok_redelivery [of sc mq "(ml_relay s)\<lparr>messages := filter P (messages (ml_relay s))\<rparr>"] ml_purge(2)
      by (simp add: mail_inv_def relay_ok_def)
  qed
  with ml_purge show ?case by (auto simp: PurgeExpiredRelay_def Let_def mail_inv_def split: if_splits)
next
  case (ml_purge_exp now s r' n)
  then show ?case by (auto simp: PurgeExpiredByExp_def Let_def mail_inv_def intro: relay_ok_filter)
next
  case (ml_keys now s k)
  then show ?case by (simp add: mail_inv_def relay_ok_agent_keys)
next
  case (ml_dereg a now s)
  have "relay_ok sc mq ((ml_relay s)\<lparr>messages := filter (\<lambda>m. rm_to m \<noteq> a) (messages (ml_relay s))\<rparr>)"
    using ml_dereg by (intro relay_ok_filter) (simp add: mail_inv_def)
  from relay_ok_agent_keys [of sc mq _ "AList.delete a (agent_keys (ml_relay s))"] this ml_dereg show ?case
    by (simp add: mail_inv_def dropMailbox_def)
next
  case (ml_status now items s d' res)
  then show ?case using RelayStatus_rows by (auto simp: mail_inv_def)
next
  case (ml_purge_dacks now s d' n)
  then show ?case using PurgeExpiredDAcks_ok by (auto simp: mail_inv_def)
next
  case (ml_outside now s P)
  then show ?case using dacks_ok_filter by (auto simp: mail_inv_def)
qed

lemma mail_reachable_inv: "mail_reachable sc mq s \<Longrightarrow> mail_inv sc mq s"
proof (induction rule: mail_reachable.induct)
  case (mail_init k m)
  then show ?case
    using relay_ok_empty less_imp_le [OF dack_bound_pos] by (simp add: mail_start_def mail_inv_def dacks_ok_def)
qed (rule mail_step_inv)

section \<open>What a step does to the messages\<close>

text \<open>The rows a step deletes, as the event says.\<close>

definition may_delete :: "mail_event \<Rightarrow> time_ns \<Rightarrow> relay_row \<Rightarrow> bool" where
  "may_delete ev now m =
    (case ev of
      EvAck a items \<Rightarrow> rm_to m = a \<and> rm_id m \<in> ai_id ` set items
    | EvRelayAck a is \<Rightarrow> rm_to m = a \<and> rm_id m \<in> set is
    | EvPurge ttl \<Rightarrow> rm_created m < unix_milli (now - ttl)
    | EvPurgeExp \<Rightarrow> \<not> not_expired (unix_milli now) m
    | EvDeregister a \<Rightarrow> rm_to m = a
    | _ \<Rightarrow> False)"

lemma mail_step_deletes:
  assumes "mail_step sc mq ev now s s'" and "mail_inv sc mq s"
    and "m \<in> set (messages (ml_relay s))" and "m \<notin> set (messages (ml_relay s'))"
  shows "may_delete ev now m"
  using assms
proof (induction rule: mail_step.induct)
  case (ml_send q now draw it s r' res)
  then have "kids_fit sc (kids (ml_relay s))" by (simp add: mail_inv_def relay_ok_def)
  from ml_send(1) this have "set (messages (ml_relay s)) \<subseteq> set (messages r')"
    by (cases rule: RelayEnqueue_cases) auto
  with ml_send show ?case by auto
next
  case (ml_ack now a items s r' d' res)
  from ml_ack(2) have "dacks_ok (ml_dacks s)" by (simp add: mail_inv_def)
  from StoreDAcks_ok(2) [OF ml_ack(1) this] ml_ack show ?case by (auto simp: may_delete_def)
next
  case (ml_relay_ack a "is" s r' del now)
  then show ?case using RelayAck_messages [of a "is" "ml_relay s"] by (auto simp: may_delete_def)
next
  case (ml_purge ttl now s r' res)
  then show ?case by (auto simp: PurgeExpiredRelay_def Let_def may_delete_def split: if_splits)
next
  case (ml_purge_exp now s r' n)
  then show ?case by (auto simp: PurgeExpiredByExp_def Let_def may_delete_def)
next
  case (ml_dereg a now s)
  then show ?case by (auto simp: dropMailbox_def may_delete_def)
qed auto

section \<open>Redeliveries\<close>

lemma redelivery_window_ms:
  "go_div RedeliveryWindow ms_ns = 86400000" "unix_milli (now - RedeliveryWindow) = unix_milli now - 86400000"
proof -
  show "go_div RedeliveryWindow ms_ns = 86400000" by (simp add: RedeliveryWindow_def time_defs go_div_nonneg)
  show "unix_milli (now - RedeliveryWindow) = unix_milli now - 86400000"
    using unix_milli_minus [of now 86400000] by (simp add: RedeliveryWindow_def time_defs)
qed

text \<open>A step queued the envelope with this digest.\<close>

definition queues_now :: "bytes \<Rightarrow> time_ns \<Rightarrow> mail_state \<Rightarrow> mail_state \<Rightarrow> bool" where
  "queues_now d t s s' \<longleftrightarrow> (\<exists>m \<in> set (messages (ml_relay s')). rm_digest m = d \<and> row_seq (ml_relay s) < rm_id m)"

text \<open>The count of the window that opened at \<open>t0\<close> or later; older windows are over by then.\<close>

definition counted_since :: "time_ns \<Rightarrow> bytes \<Rightarrow> relay \<Rightarrow> int" where
  "counted_since t0 d r = (case map_of (redelivery r) d of
     None \<Rightarrow> 0 | Some w \<Rightarrow> if unix_milli t0 \<le> rd_window_start w then rd_count w else 0)"

definition no_old_window :: "time_ns \<Rightarrow> bytes \<Rightarrow> relay \<Rightarrow> bool" where
  "no_old_window t0 d r \<longleftrightarrow> (\<forall>w. map_of (redelivery r) d = Some w \<longrightarrow>
     unix_milli t0 \<le> rd_window_start w \<or> rd_window_start w + 86400000 \<le> unix_milli t0)"

lemma counted_same: "redelivery r' = redelivery r \<Longrightarrow> counted_since t0 d r' = counted_since t0 d r"
  "redelivery r' = redelivery r \<Longrightarrow> no_old_window t0 d r' = no_old_window t0 d r"
  by (simp_all add: counted_since_def no_old_window_def)

lemma no_new_rows:
  assumes "ids_ok (ml_relay s)" and "set (messages (ml_relay s')) \<subseteq> set (messages (ml_relay s))"
  shows "\<not> queues_now d t s s'"
  using assms by (fastforce simp: queues_now_def ids_ok_def)

lemma queued_counts:
  assumes run: "RelayEnqueue sc mq q now draw it (ml_relay s) = (r', res)" and inv: "mail_inv sc mq s"
    and t: "t0 \<le> now" "unix_milli now < unix_milli t0 + 86400000" and old: "no_old_window t0 d (ml_relay s)"
    and le: "counted_since t0 d (ml_relay s) \<le> 3"
  shows "no_old_window t0 d r' \<and> counted_since t0 d r' \<le> 3 \<and>
    counted_since t0 d r' = counted_since t0 d (ml_relay s) + (if queues_now d now s (s\<lparr>ml_relay := r'\<rparr>) then 1 else 0)"
proof -
  let ?r = "ml_relay s"
  have ids: "ids_ok ?r" and fit: "kids_fit sc (kids ?r)" using inv by (auto simp: mail_inv_def relay_ok_def)
  have ms: "unix_milli t0 \<le> unix_milli now" using t(1) by (rule unix_milli_mono)
  from run fit show ?thesis
  proof (cases rule: RelayEnqueue_cases)
    case (kept c)
    have "\<not> queues_now d now s (s\<lparr>ml_relay := r'\<rparr>)" by (rule no_new_rows [OF ids]) (simp add: kept)
    with kept old le show ?thesis by (simp add: counted_same [of "?r\<lparr>kids := c\<rparr>" ?r])
  next
    case (added c rid w)
    have old_row: "\<not> (rm_digest m = d \<and> row_seq ?r < rm_id m)" if "m \<in> set (messages ?r)" for m
      using ids that by (auto simp: ids_ok_def)
    have fires: "queues_now d now s (s\<lparr>ml_relay := r'\<rparr>) \<longleftrightarrow> it_digest it = d"
      using old_row by (auto simp: queues_now_def added(2) queued_row_def)
    show ?thesis
    proof (cases "it_digest it = d")
      case False
      have "map_of (redelivery r') d = map_of (redelivery ?r) d"
        using False by (auto simp: added(2) count_redelivery_def map_of_update_eq split: option.split)
      then have "no_old_window t0 d r' = no_old_window t0 d ?r" "counted_since t0 d r' = counted_since t0 d ?r"
        by (simp_all add: no_old_window_def counted_since_def)
      with False fires old le show ?thesis by simp
    next
      case True
      show ?thesis
      proof (cases w)
        case in_win: True
        then obtain x where x: "map_of (redelivery ?r) d = Some x" "unix_milli now < rd_window_start x + 86400000"
          "rd_count x < 3"
          using added(8) True
          by (auto simp: redelivery_open_def Let_def redelivery_window_ms MaxRedeliveries_def split: option.split_asm if_split_asm)
        then have "unix_milli t0 \<le> rd_window_start x" using old ms by (auto simp: no_old_window_def)
        with x True in_win fires show ?thesis
          by (simp add: added(2) count_redelivery_def counted_since_def no_old_window_def map_of_update_eq)
      next
        case False
        then have "\<forall>x. map_of (redelivery ?r) d = Some x \<longrightarrow> rd_window_start x + 86400000 \<le> unix_milli now"
          using added(8) True
          by (auto simp: redelivery_open_def Let_def redelivery_window_ms split: option.split_asm if_split_asm)
        then have "counted_since t0 d ?r = 0"
          using t(2) by (auto simp: counted_since_def split: option.split)
        with False True fires ms show ?thesis
          by (simp add: added(2) count_redelivery_def counted_since_def no_old_window_def map_of_update_eq)
      qed
    qed
  qed
qed

lemma mail_step_counts:
  assumes "mail_step sc mq ev now s s'" and "mail_inv sc mq s"
    and "t0 \<le> now" "unix_milli now < unix_milli t0 + 86400000" and "no_old_window t0 d (ml_relay s)"
    and "counted_since t0 d (ml_relay s) \<le> 3"
  shows "no_old_window t0 d (ml_relay s') \<and> counted_since t0 d (ml_relay s') \<le> 3 \<and>
    counted_since t0 d (ml_relay s') = counted_since t0 d (ml_relay s) + (if queues_now d now s s' then 1 else 0)"
proof -
  have ids: "ids_ok (ml_relay s)" and keys: "keys_ok (redelivery (ml_relay s))" and dk: "dacks_ok (ml_dacks s)"
    using assms(2) by (auto simp: mail_inv_def relay_ok_def)
  have same: ?thesis if "redelivery (ml_relay s') = redelivery (ml_relay s)"
    "set (messages (ml_relay s')) \<subseteq> set (messages (ml_relay s))"
    using assms(5,6) counted_same [OF that(1)] no_new_rows [OF ids that(2)] by simp
  from assms(1) show ?thesis
  proof (cases rule: mail_step.cases)
    case (ml_send q draw it r' res)
    from queued_counts [OF ml_send(3) assms(2-6)] ml_send(2) show ?thesis by simp
  next
    case (ml_ack a items r' d' res)
    from StoreDAcks_ok(2) [OF ml_ack(3) dk] obtain "is" where
      "messages r' = filter (\<lambda>m. \<not> (rm_to m = a \<and> rm_id m \<in> set is)) (messages (ml_relay s))"
      "r' = (ml_relay s)\<lparr>messages := messages r'\<rparr>" by blast
    then have "redelivery r' = redelivery (ml_relay s)" "set (messages r') \<subseteq> set (messages (ml_relay s))"
      by (metis relay.select_convs(3) relay.surjective relay.update_convs(1), auto)
    with ml_ack(2) same show ?thesis by simp
  next
    case (ml_relay_ack a "is" r' del)
    have "redelivery r' = redelivery (ml_relay s)" "set (messages r') \<subseteq> set (messages (ml_relay s))"
      using ml_relay_ack(3) RelayAck_messages [of a "is" "ml_relay s"]
      by (auto simp: RelayAck_def split: if_splits prod.splits)
    with ml_relay_ack(2) same show ?thesis by simp
  next
    case (ml_purge ttl r' res)
    show ?thesis
    proof (cases "ttl \<le> 0")
      case True
      with ml_purge have "s' = s" by (simp add: PurgeExpiredRelay_def)
      with same show ?thesis by simp
    next
      case False
      have "map_of (redelivery r') d = (case map_of (redelivery (ml_relay s)) d of None \<Rightarrow> None
          | Some w \<Rightarrow> if \<not> rd_window_start w \<le> unix_milli now - 86400000 then Some w else None)"
        using ml_purge(3) False map_of_filter_keys [OF keys, of "\<lambda>_ w. \<not> rd_window_start w \<le> unix_milli now - 86400000" d]
        by (auto simp: PurgeExpiredRelay_def Let_def redelivery_window_ms)
      then have "counted_since t0 d r' = counted_since t0 d (ml_relay s)" "no_old_window t0 d r'"
        using assms(4,5) by (auto simp: counted_since_def no_old_window_def split: option.splits if_splits)
      moreover have "set (messages r') \<subseteq> set (messages (ml_relay s))"
        using ml_purge(3) False by (auto simp: PurgeExpiredRelay_def Let_def)
      ultimately show ?thesis using no_new_rows [OF ids, of s' d now] ml_purge(2) assms(6) by simp
    qed
  next
    case (ml_purge_exp r' n)
    then show ?thesis using same by (auto simp: PurgeExpiredByExp_def Let_def)
  next
    case (ml_dereg a)
    then show ?thesis using same by (auto simp: dropMailbox_def)
  qed (use same in auto)
qed

lemma at_most_three:
  assumes "clock_run (\<lambda>t s s'. \<exists>ev. mail_step sc mq ev t s s') t1 s r" and "mail_inv sc mq s"
    and "t0 \<le> t1" and "\<forall>(t, _) \<in> set r. unix_milli t < unix_milli t0 + 86400000"
    and "no_old_window t0 d (ml_relay s)" and "counted_since t0 d (ml_relay s) \<le> 3"
  shows "int (count_firings (queues_now d) s r) + counted_since t0 d (ml_relay s) \<le> 3"
  using assms
proof (induction r arbitrary: t1 s)
  case (Cons x r)
  obtain t s' where x: "x = (t, s')" by force
  from Cons.prems obtain ev where st: "mail_step sc mq ev t s s'" and le: "t1 \<le> t"
    and rest: "clock_run (\<lambda>t s s'. \<exists>ev. mail_step sc mq ev t s s') t s' r" by (auto simp: x)
  have t: "t0 \<le> t" "unix_milli t < unix_milli t0 + 86400000" using le Cons.prems(3,4) by (auto simp: x)
  note c = mail_step_counts [OF st Cons.prems(2) t Cons.prems(5,6)]
  have "int (count_firings (queues_now d) s' r) + counted_since t0 d (ml_relay s') \<le> 3"
    by (rule Cons.IH [OF rest mail_step_inv [OF st Cons.prems(2)] t(1)]) (use c Cons.prems(4) in \<open>auto simp: x\<close>)
  with c show ?case by (auto simp: x split: if_splits)
qed simp

end
