(* ===== verification/Delivery_Laws.thy ===== *)
theory Delivery_Laws
  imports Mailbox_Machine
begin

text \<open>
  What a stored confirmation answers: the loop of \<open>StoreDAcks\<close> leaves the confirmation of an item it
  deleted under the item's handle, the steps that follow leave it there, and a later question finds it.
\<close>

lemma put_dack_keeps:
  "put_dack h k x rows = (rows', n) \<Longrightarrow> w \<in> set rows \<Longrightarrow> dk_handle w \<noteq> h \<Longrightarrow> w \<in> set rows'"
  by (force simp: put_dack_def split: if_splits)

lemma put_dack_puts:
  "put_dack h k x rows = (rows', n) \<Longrightarrow> \<lparr>dk_handle = h, dk_dack = k, dk_exp = x\<rparr> \<in> set rows'"
  by (force simp: put_dack_def list_ex_iff image_iff split: if_splits)

lemma store_dacks_keeps:
  "store_dacks x del items used rows ins st = Some (rows', ins', st') \<Longrightarrow> w \<in> set rows \<Longrightarrow>
     \<forall>it \<in> set items. ai_handle it \<noteq> Some (dk_handle w) \<Longrightarrow> w \<in> set rows'"
proof (induction x del items used rows ins st rule: store_dacks.induct)
  case (2 x del it items used rows ins st)
  show ?case
  proof (cases "ai_id it \<notin> set del \<or> ai_id it \<in> set used")
    case True
    with "2.IH"(1) [OF True] "2.prems" show ?thesis by simp
  next
    case used: False
    show ?thesis
    proof (cases "ai_handle it")
      case None
      with "2.IH"(2) [OF used None] "2.prems" used show ?thesis by auto
    next
      case (Some g)
      obtain rows1 n where p: "put_dack g (ai_dack it) x rows = (rows1, n)" by force
      from used Some "2.prems"(1) p have ok: "\<not> (length g \<noteq> HandleLen \<or> length (ai_dack it) \<noteq> DAckLen)"
        and run: "store_dacks x del items (ai_id it # used) rows1 (ins + n) (Suc st) = Some (rows', ins', st')"
        by (auto split: if_splits)
      have "w \<in> set rows1" using put_dack_keeps [OF p "2.prems"(2)] "2.prems"(3) Some by auto
      from "2.IH"(3) [OF used Some ok p [symmetric] run this] "2.prems"(3) show ?thesis by simp
    qed
  qed
qed simp

text \<open>An item stores its confirmation if no earlier item has its id, and no later one its handle.\<close>

lemma store_dacks_stores:
  "store_dacks x del (pre @ it # post) used rows ins st = Some (rows', ins', st') \<Longrightarrow> ai_id it \<in> set del \<Longrightarrow>
     ai_id it \<notin> set used \<Longrightarrow> ai_id it \<notin> ai_id ` set pre \<Longrightarrow> ai_handle it = Some h \<Longrightarrow>
     Some h \<notin> ai_handle ` set post \<Longrightarrow> \<lparr>dk_handle = h, dk_dack = ai_dack it, dk_exp = x\<rparr> \<in> set rows'"
proof (induction pre arbitrary: used rows ins st)
  case Nil
  obtain rows1 n where p: "put_dack h (ai_dack it) x rows = (rows1, n)" by force
  with Nil have "store_dacks x del post (ai_id it # used) rows1 (ins + n) (Suc st) = Some (rows', ins', st')"
    by (auto split: if_splits)
  moreover have "\<forall>j \<in> set post. ai_handle j \<noteq> Some h" using Nil by force
  ultimately show ?case using store_dacks_keeps put_dack_puts [OF p] by fastforce
next
  case (Cons i pre)
  have other: "ai_id it \<noteq> ai_id i" "ai_id it \<notin> ai_id ` set pre" using Cons.prems(4) by auto
  show ?case
  proof (cases "ai_id i \<notin> set del \<or> ai_id i \<in> set used")
    case True
    with Cons.prems(1) have "store_dacks x del (pre @ it # post) used rows ins st = Some (rows', ins', st')" by auto
    from Cons.IH [OF this Cons.prems(2,3) other(2) Cons.prems(5,6)] show ?thesis .
  next
    case used: False
    have nu: "ai_id it \<notin> set (ai_id i # used)" using Cons.prems(3) other(1) by simp
    show ?thesis
    proof (cases "ai_handle i")
      case None
      with Cons.prems(1) used
      have "store_dacks x del (pre @ it # post) (ai_id i # used) rows ins st = Some (rows', ins', st')" by simp
      from Cons.IH [OF this Cons.prems(2) nu other(2) Cons.prems(5,6)] show ?thesis .
    next
      case (Some g)
      obtain rows1 n where "put_dack g (ai_dack i) x rows = (rows1, n)" by force
      with used Some Cons.prems(1)
      have "store_dacks x del (pre @ it # post) (ai_id i # used) rows1 (ins + n) (Suc st) = Some (rows', ins', st')"
        by (auto split: if_splits)
      from Cons.IH [OF this Cons.prems(2) nu other(2) Cons.prems(5,6)] show ?thesis .
    qed
  qed
qed

lemma boundDAcksTx_none_evicted: "boundDAcksTx d ins rows = (rows', n, 0) \<Longrightarrow> set rows' = set rows"
proof -
  assume b: "boundDAcksTx d ins rows = (rows', n, 0)"
  have same: "filter P rows = rows" if "length rows - length (filter P rows) = 0" for P
  proof -
    have "length rows \<le> length (filter P rows)" using that by simp
    then have "length (filter P rows) = length rows" using length_filter_le [of P rows] by linarith
    then show ?thesis by (metis length_filter_less less_irrefl filter_True)
  qed
  have ev: "evict k rows = rows" if "length rows - length (evict k rows) = 0" for k
    using that unfolding evict_def Let_def by (rule same)
  from b have "rows' = rows \<or> (rows' = evict (int (length rows) - dack_bound d) rows \<and> length rows - length rows' = 0)"
    by (auto simp: boundDAcksTx_def Let_def split: if_splits)
  with ev show ?thesis by metis
qed

lemma find_dack:
  assumes "distinct (map dk_handle rows)" and "w \<in> set rows" and "now_ms < dk_exp w"
  shows "List.find (\<lambda>v. dk_handle v = dk_handle w \<and> dk_exp v > now_ms) rows = Some w"
  using assms
proof (induction rows)
  case (Cons v rows)
  then show ?case by (cases "v = w") (force simp: image_iff)+
qed simp

text \<open>The confirmation \<open>k\<close> is stored under the handle \<open>h\<close> until after \<open>T\<close>, and its message is gone.\<close>

definition confirmed :: "bytes \<Rightarrow> bytes \<Rightarrow> bytes \<Rightarrow> time_ns \<Rightarrow> mail_state \<Rightarrow> bool" where
  "confirmed rid h k T s \<longleftrightarrow>
     (\<exists>w \<in> set (dk_rows (ml_dacks s)). dk_handle w = h \<and> dk_dack w = k \<and> unix_milli T < dk_exp w) \<and>
     (\<forall>m \<in> set (messages (ml_relay s)). rm_rid m \<noteq> rid)"

lemma confirmed_answers:
  assumes "confirmed rid h k T s" and "dacks_ok (ml_dacks s)"
  shows "snd (RelayStatus T [(rid, h)] (ml_relay s) (ml_dacks s)) = [StatusDone k]"
proof -
  obtain w where w: "w \<in> set (dk_rows (ml_dacks s))" "dk_handle w = h" "dk_dack w = k" "unix_milli T < dk_exp w"
    using assms(1) by (auto simp: confirmed_def)
  have "distinct (map dk_handle (dk_rows (ml_dacks s)))" using assms(2) by (simp add: dacks_ok_def)
  from find_dack [OF this w(1,4)] w have
    "List.find (\<lambda>v. dk_handle v = h \<and> dk_exp v > unix_milli T) (dk_rows (ml_dacks s)) = Some w" by simp
  moreover have "\<not> list_ex (\<lambda>m. rm_rid m = rid) (messages (ml_relay s))"
    using assms(1) by (auto simp: confirmed_def list_ex_iff)
  ultimately show ?thesis using w by (simp add: RelayStatus_def Let_def status_of_def)
qed

lemma StoreDAcks_rows:
  assumes "StoreDAcks now a items r d = (r', d', res)"
  obtains (same) "d' = d" "r' = r"
  | (stored) del ms rows ins st n e where "relayAckTx a (map ai_id items) (messages r, []) = (ms, del)" "messages r' = ms"
      "store_dacks (unix_milli (now + DAckTTL)) del items [] (dk_rows d) 0 0 = Some (rows, ins, st)"
      "boundDAcksTx d ins rows = (dk_rows d', n, e)"
      "res = Some \<lparr>ar_acked = length del, ar_stored = st, ar_evicted = e\<rparr>"
proof (cases "items = []")
  case True
  with assms show thesis by (intro same) (simp_all add: StoreDAcks_def)
next
  case False
  obtain ms del where ack: "relayAckTx a (map ai_id items) (messages r, []) = (ms, del)" by force
  show thesis
  proof (cases "store_dacks (unix_milli (now + DAckTTL)) del items [] (dk_rows d) 0 0")
    case None
    with assms False ack show thesis by (intro same) (simp_all add: StoreDAcks_def)
  next
    case (Some t)
    obtain rows ins st where t: "t = (rows, ins, st)" by (cases t)
    obtain rows' n e where b: "boundDAcksTx d ins rows = (rows', n, e)" by (cases "boundDAcksTx d ins rows")
    from assms False ack Some t b show thesis by (intro stored [OF ack _ _ _]) (auto simp: StoreDAcks_def)
  qed
qed

text \<open>An ack that hands in the confirmation of a waiting message, and evicts none.\<close>

lemma StoreDAcks_confirms:
  assumes run: "StoreDAcks now a items (ml_relay s) (ml_dacks s) = (r', d', Some res)" and ev: "ar_evicted res = 0"
    and it: "items = pre @ it # post" "ai_handle it = Some h" "ai_id it \<notin> ai_id ` set pre" "Some h \<notin> ai_handle ` set post"
    and m: "m \<in> set (messages (ml_relay s))" "rm_to m = a" "rm_id m = ai_id it" and ok: "unique_ok (ml_relay s)"
    and t: "unix_milli T < unix_milli (now + DAckTTL)"
  shows "confirmed (rm_rid m) h (ai_dack it) T (s\<lparr>ml_relay := r', ml_dacks := d'\<rparr>)"
proof -
  obtain ms del where ack: "relayAckTx a (map ai_id items) (messages (ml_relay s), []) = (ms, del)" by force
  note F = relayAckTx_filter [OF ack]
  have del: "ai_id it \<in> set del" using F it(1) m by force
  have ne: "items \<noteq> []" using it(1) by simp
  from run ne ack obtain rows ins st where st:
    "store_dacks (unix_milli (now + DAckTTL)) del items [] (dk_rows (ml_dacks s)) 0 0 = Some (rows, ins, st)"
    by (auto simp: StoreDAcks_def split: option.splits)
  obtain rows' n e where b: "boundDAcksTx (ml_dacks s) ins rows = (rows', n, e)" by (cases "boundDAcksTx (ml_dacks s) ins rows")
  from run ne ack st b have out: "messages r' = ms" "dk_rows d' = rows'" "e = ar_evicted res"
    by (auto simp: StoreDAcks_def)
  from store_dacks_stores [OF st [unfolded it(1)] del _ it(3,2,4)]
  have "\<lparr>dk_handle = h, dk_dack = ai_dack it, dk_exp = unix_milli (now + DAckTTL)\<rparr> \<in> set (dk_rows d')"
    using boundDAcksTx_none_evicted [of "ml_dacks s" ins rows rows' n] b out(3) ev by (simp add: out(2))
  moreover have "rm_rid x \<noteq> rm_rid m" if x: "x \<in> set (messages r')" for x
  proof
    assume rid: "rm_rid x = rm_rid m"
    have "x \<in> set (messages (ml_relay s))" using x F by (simp add: out(1))
    then have "x = m" using rid m(1) ok by (auto simp: unique_ok_def distinct_map dest: inj_onD)
    with x F it(1) m show False by (auto simp: out(1))
  qed
  ultimately show ?thesis using t unfolding confirmed_def by (intro conjI bexI) auto
qed

section \<open>The steps that leave a confirmation\<close>

text \<open>
  What may be done to the mailboxes without touching the confirmation under \<open>h\<close> before \<open>T\<close>: no ack hands
  in another one under this handle or evicts any; no other process deletes any; a status check that
  names the handle is less than ten minutes (\<open>DAckFetchedTTL\<close>) before \<open>T\<close>, since the first of them that
  answers done cuts the row to that; and no send draws the 16 random bytes of the rid again.
\<close>

definition spares_dack :: "bytes \<Rightarrow> bytes \<Rightarrow> time_ns \<Rightarrow> mail_event \<Rightarrow> time_ns \<Rightarrow> mail_state \<Rightarrow> mail_state \<Rightarrow> bool" where
  "spares_dack rid h T ev t s s' \<longleftrightarrow>
     (case ev of
       EvAck a items \<Rightarrow> Some h \<notin> ai_handle ` set items \<and>
         (\<forall>res. snd (snd (StoreDAcks t a items (ml_relay s) (ml_dacks s))) = Some res \<longrightarrow> ar_evicted res = 0)
     | EvStatus items \<Rightarrow> h \<in> snd ` set items \<longrightarrow> unix_milli T < unix_milli t + 600000
     | EvSend it \<Rightarrow> (\<forall>m \<in> set (messages (ml_relay s')). rm_rid m \<noteq> rid)
     | EvOutside \<Rightarrow> False
     | _ \<Rightarrow> True)"

lemma dack_fetched_ms: "go_div DAckFetchedTTL ms_ns = 600000"
  by (simp add: DAckFetchedTTL_def time_defs go_div_nonneg)

lemma StoreDAcks_spares:
  assumes run: "StoreDAcks t a items r d = (r', d', res)" and h: "Some (dk_handle w) \<notin> ai_handle ` set items"
    and ev: "\<And>x. res = Some x \<Longrightarrow> ar_evicted x = 0" and w: "w \<in> set (dk_rows d)"
  shows "w \<in> set (dk_rows d')"
  using run
proof (cases rule: StoreDAcks_rows)
  case same
  with w show ?thesis by simp
next
  case (stored del ms rows ins st n e)
  have "\<forall>it \<in> set items. ai_handle it \<noteq> Some (dk_handle w)" using h by force
  from store_dacks_keeps [OF stored(3) w this] have "w \<in> set rows" .
  moreover have "e = 0" using ev [OF stored(5)] by simp
  ultimately show ?thesis using boundDAcksTx_none_evicted [of d ins rows "dk_rows d'" n] stored(4) by simp
qed

text \<open>The cut of a status check, seen from a row.\<close>

lemma RelayStatus_row:
  assumes run: "RelayStatus t items r d = (d', res)" and w: "w \<in> set (dk_rows d)" "unix_milli T < dk_exp w"
    and cut: "dk_handle w \<in> snd ` set items \<Longrightarrow> unix_milli T < unix_milli t + 600000"
  shows "\<exists>v \<in> set (dk_rows d'). dk_handle v = dk_handle w \<and> dk_dack v = dk_dack w \<and> unix_milli T < dk_exp v"
proof -
  let ?cut = "status_cut (unix_milli t) (unix_milli t + 600000) r d items"
  let ?v = "if dk_handle w \<in> set ?cut then w\<lparr>dk_exp := min (dk_exp w) (unix_milli t + 600000)\<rparr> else w"
  have "?v \<in> set (dk_rows d')"
    using run w(1) by (auto simp: RelayStatus_def Let_def dack_fetched_ms image_iff)
  moreover have "set ?cut \<subseteq> snd ` set items" by (auto simp: status_cut_def)
  then have "unix_milli T < dk_exp ?v" using w(2) cut by auto
  ultimately show ?thesis by (intro bexI [of _ ?v]) auto
qed

lemma confirmed_step:
  assumes st: "mail_step sc mq ev t s s'" and sp: "spares_dack rid h T ev t s s'" and inv: "mail_inv sc mq s"
    and le: "t \<le> T" and c: "confirmed rid h k T s"
  shows "confirmed rid h k T s'"
proof -
  have dk: "dacks_ok (ml_dacks s)" using inv by (simp add: mail_inv_def)
  obtain w where w: "w \<in> set (dk_rows (ml_dacks s))" "dk_handle w = h" "dk_dack w = k" "unix_milli T < dk_exp w"
    and gone: "\<forall>m \<in> set (messages (ml_relay s)). rm_rid m \<noteq> rid" using c by (auto simp: confirmed_def)
  have keeps: ?thesis if "w \<in> set (dk_rows (ml_dacks s'))" "set (messages (ml_relay s')) \<subseteq> set (messages (ml_relay s))"
    using that w gone unfolding confirmed_def by blast
  from st show ?thesis
  proof (cases rule: mail_step.cases)
    case (ml_send q draw it r' res)
    with sp w show ?thesis by (auto simp: spares_dack_def confirmed_def)
  next
    case (ml_ack a items r' d' res)
    from sp ml_ack have "Some (dk_handle w) \<notin> ai_handle ` set items" "res = Some x \<Longrightarrow> ar_evicted x = 0" for x
      using w(2) by (auto simp: spares_dack_def)
    from StoreDAcks_spares [OF ml_ack(3) this w(1)] have "w \<in> set (dk_rows d')" .
    moreover have "set (messages r') \<subseteq> set (messages (ml_relay s))"
      using StoreDAcks_ok(2) [OF ml_ack(3) dk] by auto
    ultimately show ?thesis using keeps ml_ack(2) by simp
  next
    case (ml_relay_ack a "is" r' del)
    then show ?thesis using keeps w(1) RelayAck_messages [of a "is" "ml_relay s"] by auto
  next
    case (ml_purge ttl r' res)
    then show ?thesis using keeps w(1) by (auto simp: PurgeExpiredRelay_def Let_def split: if_splits)
  next
    case (ml_purge_exp r' n)
    then show ?thesis using keeps w(1) by (auto simp: PurgeExpiredByExp_def Let_def)
  next
    case (ml_status items d' res)
    from sp ml_status(1) w(2) have "dk_handle w \<in> snd ` set items \<Longrightarrow> unix_milli T < unix_milli t + 600000"
      by (simp add: spares_dack_def)
    from RelayStatus_row [OF ml_status(3) w(1,4) this] show ?thesis
      using w(2,3) gone ml_status(2) by (simp add: confirmed_def)
  next
    case (ml_purge_dacks d' n)
    have "unix_milli t < dk_exp w" using unix_milli_mono [OF le] w(4) by simp
    then show ?thesis using keeps w(1) ml_purge_dacks by (auto simp: PurgeExpiredDAcks_def Let_def split: if_splits)
  next
    case ml_outside
    with sp show ?thesis by (simp add: spares_dack_def)
  qed (use keeps w(1) in \<open>auto simp: dropMailbox_def\<close>)
qed

lemma confirmed_run:
  "clock_run (\<lambda>t u u'. \<exists>ev. mail_step sc mq ev t u u' \<and> spares_dack rid h T ev t u u') t0 s r \<Longrightarrow> mail_inv sc mq s \<Longrightarrow>
     end_time t0 r \<le> T \<Longrightarrow> confirmed rid h k T s \<Longrightarrow>
     confirmed rid h k T (end_of s r) \<and> mail_inv sc mq (end_of s r)"
proof (induction r arbitrary: t0 s)
  case (Cons x r)
  obtain t s' where x: "x = (t, s')" by force
  from Cons.prems obtain ev where st: "mail_step sc mq ev t s s'" "spares_dack rid h T ev t s s'"
    and rest: "clock_run (\<lambda>t u u'. \<exists>ev. mail_step sc mq ev t u u' \<and> spares_dack rid h T ev t u u') t s' r"
    by (auto simp: x)
  have "end_time t r \<le> T" using Cons.prems(3) by (simp add: x)
  moreover have "t \<le> T" using clock_run_time [OF rest] calculation by linarith
  ultimately show ?case
    using Cons.IH [OF rest mail_step_inv [OF st(1) Cons.prems(2)] _ confirmed_step [OF st Cons.prems(2) _ Cons.prems(4)]]
    by (simp add: x)
qed simp

end
