(* ===== verification/Delivery_Wire.thy ===== *)
theory Delivery_Wire
  imports Delivery_Laws Wire_B64
begin

text \<open>
  \<open>internal/aghub/dack.go\<close>: the delivery confirmations on the wire. The items of \<open>/relay/ack\<close> and of a
  status check are decoded strictly; the answer to a status check is written by one hub and read by
  another, which accepts nothing but the contract's answer. The members are as \<open>wire3.DecodeStrict\<close>
  read them; a member left out is the empty string, an id left out is \<open>None\<close>.
\<close>

section \<open>Items\<close>

definition RIDLen :: nat where "RIDLen = 16"
definition MaxAckItems :: nat where "MaxAckItems = nat MaxPollLimit"
definition MaxStatusItems :: nat where "MaxStatusItems = 64"

record relay_ack_item =
  ra_id :: "int option"
  ra_handle :: string
  ra_dack :: string

text \<open>The loop of \<open>decodeAckItems\<close> from item \<open>i\<close>; \<open>Inl\<close> is the index of the first item that is not one.\<close>

fun decode_ack_loop :: "nat \<Rightarrow> relay_ack_item list \<Rightarrow> nat + ack_item list" where
  "decode_ack_loop i [] = Inr []"
| "decode_ack_loop i (it # r) =
    (case ra_id it of
      None \<Rightarrow> Inl i
    | Some n \<Rightarrow>
      if n \<le> 0 \<or> (ra_handle it = []) \<noteq> (ra_dack it = []) then Inl i
      else if ra_handle it = [] then
        rbind (decode_ack_loop (Suc i) r) (\<lambda>out. Inr (\<lparr>ai_id = n, ai_handle = None, ai_dack = []\<rparr> # out))
      else (case DecodeB64URLSize ''handle'' (ra_handle it) HandleLen of
        Inl _ \<Rightarrow> Inl i
      | Inr h \<Rightarrow>
        (case DecodeB64URLSize ''dack'' (ra_dack it) DAckLen of
          Inl _ \<Rightarrow> Inl i
        | Inr d \<Rightarrow>
          rbind (decode_ack_loop (Suc i) r) (\<lambda>out. Inr (\<lparr>ai_id = n, ai_handle = Some h, ai_dack = d\<rparr> # out)))))"

definition decodeAckItems :: "relay_ack_item list \<Rightarrow> nat + ack_item list" where
  "decodeAckItems req =
    (if req = [] then Inl 0
     else if length req > MaxAckItems then Inl MaxAckItems
     else decode_ack_loop 0 req)"

fun decode_status_loop :: "(string \<times> string) list \<Rightarrow> (bytes \<times> bytes) list option" where
  "decode_status_loop [] = Some []"
| "decode_status_loop ((rid, handle) # r) =
    (case DecodeB64URLSize ''rid'' rid RIDLen of
      Inl _ \<Rightarrow> None
    | Inr rd \<Rightarrow>
      (case DecodeB64URLSize ''handle'' handle HandleLen of
        Inl _ \<Rightarrow> None
      | Inr h \<Rightarrow> map_option (\<lambda>out. (rd, h) # out) (decode_status_loop r)))"

definition decodeStatusItems :: "(string \<times> string) list \<Rightarrow> (bytes \<times> bytes) list option" where
  "decodeStatusItems items =
    (if length items < 1 \<or> length items > MaxStatusItems then None else decode_status_loop items)"

section \<open>Answers\<close>

record relay_status_result =
  rs_state :: string
  rs_dack :: string

definition encode_status_item :: "relay_status \<Rightarrow> relay_status_result" where
  "encode_status_item r = (case r of
     StatusQueued \<Rightarrow> \<lparr>rs_state = ''queued'', rs_dack = []\<rparr>
   | StatusDone k \<Rightarrow> \<lparr>rs_state = ''done'', rs_dack = EncodeB64URL k\<rparr>
   | StatusUnknown \<Rightarrow> \<lparr>rs_state = ''unknown'', rs_dack = []\<rparr>)"

definition encodeStatus :: "relay_status list \<Rightarrow> relay_status_result list" where
  "encodeStatus results = map encode_status_item results"

datatype peer_answer_error =
  NotStrictJSON decode_error | WrongCount nat nat | DAckWithState string | BadDAck decode_error | UnknownState

fun peer_status_loop :: "relay_status_result list \<Rightarrow> peer_answer_error + relay_status list" where
  "peer_status_loop [] = Inr []"
| "peer_status_loop (it # r) =
    rbind
      (if rs_state it = ''queued'' \<or> rs_state it = ''unknown'' then
         (if rs_dack it \<noteq> [] then Inl (DAckWithState (rs_state it))
          else Inr (if rs_state it = ''queued'' then StatusQueued else StatusUnknown))
       else if rs_state it = ''done'' then
         (case DecodeB64URLSize ''dack'' (rs_dack it) DAckLen of
           Inl e \<Rightarrow> Inl (BadDAck e)
         | Inr d \<Rightarrow> Inr (StatusDone d))
       else Inl UnknownState)
      (\<lambda>s. rbind (peer_status_loop r) (\<lambda>out. Inr (s # out)))"

definition decodePeerStatus ::
  "decode_error + relay_status_result list \<Rightarrow> nat \<Rightarrow> peer_answer_error + relay_status list" where
  "decodePeerStatus ans n =
    (case ans of
      Inl e \<Rightarrow> Inl (NotStrictJSON e)
    | Inr items \<Rightarrow>
      if length items \<noteq> n then Inl (WrongCount (length items) n) else peer_status_loop items)"

section \<open>Lemmas\<close>

lemma DecodeB64URLSize_Inr:
  "DecodeB64URLSize m s n = Inr b \<longleftrightarrow> b64url_decode s = Some b \<and> length b = n"
  by (auto simp: DecodeB64URLSize_def rbind_eq_Inr DecodeB64URL_Inr split: if_splits)

lemma DecodeB64URLSize_encode: "length b = n \<Longrightarrow> DecodeB64URLSize m (EncodeB64URL b) n = Inr b"
  by (simp add: DecodeB64URLSize_Inr decode_encode_aux)

definition status_sized :: "relay_status \<Rightarrow> bool" where
  "status_sized r = (case r of StatusDone k \<Rightarrow> length k = DAckLen | _ \<Rightarrow> True)"

lemma peer_status_loop_encode:
  "\<forall>r \<in> set rs. status_sized r \<Longrightarrow> peer_status_loop (encodeStatus rs) = Inr rs"
proof (induction rs)
  case (Cons r rs)
  then show ?case
    by (cases r) (auto simp: encodeStatus_def encode_status_item_def status_sized_def DecodeB64URLSize_encode)
qed (simp add: encodeStatus_def)

text \<open>And the converse: an accepted answer is one that \<open>encodeStatus\<close> writes.\<close>

lemma peer_status_loop_Inr:
  "peer_status_loop items = Inr rs \<Longrightarrow> items = encodeStatus rs \<and> (\<forall>r \<in> set rs. status_sized r)"
proof (induction items arbitrary: rs)
  case (Cons it items)
  then obtain s out where s: "rs = s # out" "peer_status_loop items = Inr out"
    "(if rs_state it = ''queued'' \<or> rs_state it = ''unknown'' then
         (if rs_dack it \<noteq> [] then Inl (DAckWithState (rs_state it))
          else Inr (if rs_state it = ''queued'' then StatusQueued else StatusUnknown))
       else if rs_state it = ''done'' then
         (case DecodeB64URLSize ''dack'' (rs_dack it) DAckLen of
           Inl e \<Rightarrow> Inl (BadDAck e)
         | Inr d \<Rightarrow> Inr (StatusDone d))
       else Inl UnknownState) = Inr s"
    by (auto simp del: if_split simp: rbind_eq_Inr)
  have "it = encode_status_item s \<and> status_sized s"
    using s(3) by (cases it)
      (auto simp: encode_status_item_def status_sized_def DecodeB64URLSize_Inr encode_decode_aux
            split: if_splits sum.splits)
  with Cons.IH [OF s(2)] s(1) show ?case by (simp add: encodeStatus_def)
qed (simp add: encodeStatus_def)

text \<open>What \<open>decodeAckItems\<close> lets through.\<close>

lemma decode_ack_loop_Inr:
  "decode_ack_loop i req = Inr out \<Longrightarrow> length out = length req \<and>
     (\<forall>it \<in> set out. 0 < ai_id it \<and> (ai_handle it = None \<and> ai_dack it = [] \<or>
        (\<exists>h. ai_handle it = Some h \<and> length h = HandleLen \<and> length (ai_dack it) = DAckLen)))"
proof (induction req arbitrary: i out)
  case (Cons it req)
  then show ?case
    by (auto simp: DecodeB64URLSize_Inr rbind_eq_Inr split: option.splits if_splits sum.splits) fastforce+
qed simp

text \<open>So the store never refuses what was decoded: its size checks cannot fail.\<close>

lemma store_dacks_sized:
  "\<forall>it \<in> set items. \<forall>h. ai_handle it = Some h \<longrightarrow> length h = HandleLen \<and> length (ai_dack it) = DAckLen \<Longrightarrow>
     store_dacks x del items used rows ins st \<noteq> None"
proof (induction x del items used rows ins st rule: store_dacks.induct)
  case (2 x del it items used rows ins st)
  then show ?case by (auto split: if_splits option.splits prod.splits)
qed simp

text \<open>Every stored confirmation has the size the wire requires.\<close>

definition dacks_sized :: "dacks \<Rightarrow> bool" where
  "dacks_sized d \<longleftrightarrow> (\<forall>w \<in> set (dk_rows d). length (dk_dack w) = DAckLen)"

lemma put_dack_sized:
  "put_dack h k x rows = (rows', n) \<Longrightarrow> \<forall>w \<in> set rows. length (dk_dack w) = DAckLen \<Longrightarrow> length k = DAckLen \<Longrightarrow>
     \<forall>w \<in> set rows'. length (dk_dack w) = DAckLen"
  by (auto simp: put_dack_def split: if_splits)

lemma store_dacks_rows_sized:
  "store_dacks x del items used rows ins st = Some (rows', ins', st') \<Longrightarrow>
     \<forall>w \<in> set rows. length (dk_dack w) = DAckLen \<Longrightarrow> \<forall>w \<in> set rows'. length (dk_dack w) = DAckLen"
proof (induction x del items used rows ins st rule: store_dacks.induct)
  case (2 x del it items used rows ins st)
  show ?case
  proof (cases "ai_id it \<notin> set del \<or> ai_id it \<in> set used")
    case True
    with "2.IH"(1) [OF True] "2.prems" show ?thesis by simp
  next
    case used: False
    show ?thesis
    proof (cases "ai_handle it")
      case None
      with "2.IH"(2) [OF used None] "2.prems" used show ?thesis by simp
    next
      case (Some g)
      obtain rows1 n where p: "put_dack g (ai_dack it) x rows = (rows1, n)" by force
      from used Some "2.prems"(1) p have ok: "\<not> (length g \<noteq> HandleLen \<or> length (ai_dack it) \<noteq> DAckLen)"
        and run: "store_dacks x del items (ai_id it # used) rows1 (ins + n) (Suc st) = Some (rows', ins', st')"
        by (auto split: if_splits)
      have "\<forall>w \<in> set rows1. length (dk_dack w) = DAckLen" using put_dack_sized [OF p "2.prems"(2)] ok by simp
      from "2.IH"(3) [OF used Some ok p [symmetric] run this] show ?thesis .
    qed
  qed
qed simp

lemma StoreDAcks_sized:
  assumes "StoreDAcks now a items r d = (r', d', res)" and "dacks_sized d"
  shows "dacks_sized d'"
proof (cases "d' = d")
  case False
  obtain ms del where ack: "relayAckTx a (map ai_id items) (messages r, []) = (ms, del)" by force
  from False assms(1) ack obtain rows ins st where st:
    "store_dacks (unix_milli (now + DAckTTL)) del items [] (dk_rows d) 0 0 = Some (rows, ins, st)"
    by (auto simp: StoreDAcks_def split: option.splits if_splits)
  obtain rows' n e where b: "boundDAcksTx d ins rows = (rows', n, e)" by (cases "boundDAcksTx d ins rows")
  have "dk_rows d' = rows'" using False assms(1) ack st b by (auto simp: StoreDAcks_def split: if_splits)
  moreover have "set rows' \<subseteq> set rows"
    using b by (auto simp: boundDAcksTx_def evict_def Let_def split: if_splits)
  ultimately show ?thesis using store_dacks_rows_sized [OF st] assms(2) by (auto simp: dacks_sized_def)
qed (use assms(2) in simp)

lemma mail_reachable_sized: "mail_reachable sc mq s \<Longrightarrow> dacks_sized (ml_dacks s)"
proof (induction rule: mail_reachable.induct)
  case (mail_init k m)
  show ?case by (simp add: mail_start_def dacks_sized_def)
next
  case (mail_next s ev now s')
  from mail_next(2) show ?case
  proof (cases rule: mail_step.cases)
    case (ml_ack a items r' d' res)
    with StoreDAcks_sized [OF ml_ack(3) mail_next(3)] show ?thesis by simp
  qed (use mail_next(3) in \<open>auto simp: dacks_sized_def RelayStatus_def PurgeExpiredDAcks_def Let_def split: if_splits\<close>)
qed

lemma RelayStatus_sized: "dacks_sized d \<Longrightarrow> r \<in> set (snd (RelayStatus now items rl d)) \<Longrightarrow> status_sized r"
  by (auto simp: RelayStatus_def Let_def status_of_def status_sized_def dacks_sized_def find_Some_iff
      dest: nth_mem split: option.splits)

end
