(* ===== verification/Mail_Properties.thy ===== *)
theory Mail_Properties
  imports Delivery_Wire
begin

text \<open>
  The properties of the mailboxes, of the delivery confirmations and of the recipients' quotas, each
  applied to a small instance: envelopes of three bytes, a key set of one key.
\<close>

section \<open>An instance\<close>

definition demo_seal :: seal_core where
  "demo_seal = \<lparr>CapClassContact = 1, CapClassStranger = 2, DeliveryDeadlineMS = 3600000,
     ParseOuter = (\<lambda>b. Some \<lparr>o_to = ''bob'', o_kid = replicate 16 1, o_exp = None\<rparr>), EnvDigest = (\<lambda>b. Some b),
     KeySetKeys = (\<lambda>b. if b = [9] then Some [(replicate 16 1, 1000000)] else None)\<rparr>"

definition demo_mq :: relay_quota where "demo_mq = \<lparr>mq_messages = 3, mq_bytes = 8\<rparr>"

definition demo_item :: relay_item where
  "demo_item = \<lparr>it_to = ''bob'', it_envelope = [1, 2, 3], it_digest = [5], it_class = 1, it_cap = Some [7],
     it_exp = None, it_kid = replicate 16 1\<rparr>"

definition demo_item2 :: relay_item where
  "demo_item2 = demo_item\<lparr>it_envelope := [4, 5], it_digest := [6]\<rparr>"

definition demo_relay0 :: relay where
  "demo_relay0 = \<lparr>messages = [], row_seq = 0, redelivery = [], agent_keys = [(''bob'', (1, [9]))], kids = []\<rparr>"

definition demo_send1 :: "relay \<times> (relay_error + queued)" where
  "demo_send1 = RelayEnqueue demo_seal demo_mq DefaultQuota (1000 * ms_ns) (\<lambda>n. Some [1]) demo_item demo_relay0"

definition demo_send2 :: "relay \<times> (relay_error + queued)" where
  "demo_send2 = RelayEnqueue demo_seal demo_mq DefaultQuota (2000 * ms_ns) (\<lambda>n. Some [2]) demo_item2 (fst demo_send1)"

lemma demo_sends:
  "snd demo_send1 = Inr (Queued 1 [1])" "snd demo_send2 = Inr (Queued 2 [2])"
  "messages (fst demo_send2) = [queued_row demo_item 1 [1] 1000, queued_row demo_item2 2 [2] 2000]"
  by code_simp+

definition demo_mail :: mail_state where
  "demo_mail = (mail_start [(''bob'', (1, [9]))] 2)\<lparr>ml_relay := fst demo_send2\<rparr>"

lemma demo_start_relay: "ml_relay (mail_start [(''bob'', (1, [9]))] 2) = demo_relay0"
  by (simp add: mail_start_def demo_relay0_def)

lemma demo_send_steps:
  "mail_step demo_seal demo_mq (EvSend demo_item) (1000 * ms_ns) (mail_start [(''bob'', (1, [9]))] 2)
     ((mail_start [(''bob'', (1, [9]))] 2)\<lparr>ml_relay := fst demo_send1\<rparr>)"
  "mail_step demo_seal demo_mq (EvSend demo_item2) (2000 * ms_ns)
     ((mail_start [(''bob'', (1, [9]))] 2)\<lparr>ml_relay := fst demo_send1\<rparr>) demo_mail"
proof -
  show "mail_step demo_seal demo_mq (EvSend demo_item) (1000 * ms_ns) (mail_start [(''bob'', (1, [9]))] 2)
     ((mail_start [(''bob'', (1, [9]))] 2)\<lparr>ml_relay := fst demo_send1\<rparr>)"
    by (rule ml_send [where q = DefaultQuota and draw = "\<lambda>n. Some [1]" and res = "snd demo_send1"])
       (simp add: demo_start_relay demo_send1_def)
  have "mail_step demo_seal demo_mq (EvSend demo_item2) (2000 * ms_ns)
     ((mail_start [(''bob'', (1, [9]))] 2)\<lparr>ml_relay := fst demo_send1\<rparr>)
     (((mail_start [(''bob'', (1, [9]))] 2)\<lparr>ml_relay := fst demo_send1\<rparr>)\<lparr>ml_relay := fst demo_send2\<rparr>)"
    by (rule ml_send [where q = DefaultQuota and draw = "\<lambda>n. Some [2]" and res = "snd demo_send2"])
       (simp add: demo_send2_def)
  then show "mail_step demo_seal demo_mq (EvSend demo_item2) (2000 * ms_ns)
     ((mail_start [(''bob'', (1, [9]))] 2)\<lparr>ml_relay := fst demo_send1\<rparr>) demo_mail"
    by (simp add: demo_mail_def)
qed

lemma demo_mail_reachable: "mail_reachable demo_seal demo_mq demo_mail"
  by (rule mail_next [OF mail_next [OF mail_init demo_send_steps(1)] demo_send_steps(2)])

lemma demo_mail_inv: "mail_inv demo_seal demo_mq demo_mail"
  by (rule mail_reachable_inv [OF demo_mail_reachable])

lemma demo_mail_sel: "ml_relay demo_mail = fst demo_send2" "ml_dacks demo_mail = ml_dacks (mail_start [(''bob'', (1, [9]))] 2)"
  by (simp_all add: demo_mail_def)

section \<open>The tables\<close>

text \<open>C15: The mailboxes keep their invariant in every reachable state: ids grow in the order of queueing
  and are never used twice, no two rows share a rid, no recipient holds one envelope twice, every
  mailbox is within the operator's bounds of messages and bytes, and the stored delivery
  confirmations have distinct handles and are within their bound.\<close>

theorem mailboxes_within_bounds:
  assumes "mail_reachable sc mq s"
  shows "sorted_wrt (<) (map rm_id (messages (ml_relay s))) \<and>
    distinct (map rm_rid (messages (ml_relay s))) \<and>
    distinct (map (\<lambda>m. (rm_to m, rm_digest m)) (messages (ml_relay s))) \<and>
    (\<forall>a. mail_of a (messages (ml_relay s)) = [] \<or>
       int (length (mail_of a (messages (ml_relay s)))) \<le> mq_messages mq \<and>
       sum_list (map (\<lambda>m. int (length (rm_payload m))) (mail_of a (messages (ml_relay s)))) \<le> mq_bytes mq) \<and>
    distinct (map dk_handle (dk_rows (ml_dacks s))) \<and>
    int (length (dk_rows (ml_dacks s))) \<le> dack_bound (ml_dacks s)"
proof -
  have inv: "relay_ok sc mq (ml_relay s)" "dacks_ok (ml_dacks s)"
    using mail_reachable_inv [OF assms] by (auto simp: mail_inv_def)
  have size: "sum_list (map (\<lambda>m. int (length (rm_payload m))) (mail_of a (messages (ml_relay s)))) =
      size_sum (mail_of a (messages (ml_relay s)))" for a
    unfolding size_sum_def by (rule arg_cong [where f = sum_list], rule map_cong)
      (use inv(1) in \<open>auto simp: relay_ok_defs mail_of_def\<close>)
  show ?thesis
    unfolding size using inv by (simp add: relay_ok_defs dacks_ok_def sorted_wrt_map)
qed

theorem mailboxes_within_bounds_witness:
  "map rm_id (messages (ml_relay demo_mail)) = [1, 2] \<and> length (mail_of ''bob'' (messages (ml_relay demo_mail))) = 2 \<and>
   distinct (map rm_rid (messages (ml_relay demo_mail)))"
  using mailboxes_within_bounds [OF demo_mail_reachable]
  by (simp add: demo_mail_sel demo_sends mail_of_def queued_row_def demo_item_def demo_item2_def)

text \<open>C16: A queued message is never lost: whatever the mail operations of the hub do next (sends, acks,
  status checks, purges, new key sets, deregistrations), a row leaves its mailbox only by an ack of
  its own recipient that names its id, by the purge of messages older than the time to live, because
  its own expiry has passed, or with the whole mailbox of a recipient that deregisters. A restored
  database starts with empty mailboxes (\<open>restoreCleared\<close> in \<open>restore.go\<close>) and is not a step here.\<close>

theorem message_kept_until_collected:
  assumes "mail_reachable sc mq s" and "mail_step sc mq ev now s s'"
    and "m \<in> set (messages (ml_relay s))" and "m \<notin> set (messages (ml_relay s'))"
  shows "(\<exists>items. ev = EvAck (rm_to m) items \<and> rm_id m \<in> ai_id ` set items) \<or>
    (\<exists>is. ev = EvRelayAck (rm_to m) is \<and> rm_id m \<in> set is) \<or>
    (\<exists>ttl. ev = EvPurge ttl \<and> rm_created m < unix_milli (now - ttl)) \<or>
    (\<exists>x. ev = EvPurgeExp \<and> rm_exp m = Some x \<and> x \<le> unix_milli now) \<or>
    ev = EvDeregister (rm_to m)"
  using mail_step_deletes [OF assms(2) mail_reachable_inv [OF assms(1)] assms(3,4)]
  by (cases ev) (auto simp: may_delete_def not_expired_def split: option.splits)

definition demo_acked :: mail_state where
  "demo_acked = demo_mail\<lparr>ml_relay := fst (RelayAck ''bob'' [1] (ml_relay demo_mail))\<rparr>"

lemma demo_ack_step: "mail_step demo_seal demo_mq (EvRelayAck ''bob'' [1]) (3000 * ms_ns) demo_mail demo_acked"
  unfolding demo_acked_def by (rule ml_relay_ack) (rule surjective_pairing)

theorem message_kept_until_collected_witness:
  "\<exists>is. EvRelayAck ''bob'' [1] = EvRelayAck ''bob'' is \<and> 1 \<in> set is"
proof -
  let ?m = "queued_row demo_item 1 [1] 1000"
  have "?m \<in> set (messages (ml_relay demo_mail))" by (simp add: demo_mail_sel demo_sends)
  moreover have "?m \<notin> set (messages (ml_relay demo_acked))"
    by (simp add: demo_acked_def RelayAck_messages queued_row_def demo_item_def)
  ultimately have "\<exists>is. EvRelayAck ''bob'' [1] = EvRelayAck (rm_to ?m) is \<and> rm_id ?m \<in> set is"
    using message_kept_until_collected [OF demo_mail_reachable demo_ack_step, of ?m] by blast
  then show ?thesis by (simp add: queued_row_def demo_item_def)
qed

section \<open>A mailbox is a queue\<close>

text \<open>C17: Queueing is an append: \<open>RelayEnqueue\<close> that answers a new id adds exactly that one message at the
  end of its recipient's queue, above every id there, and whatever it answers it changes no other
  mailbox; any other answer leaves every mailbox as it was.\<close>

theorem enqueue_refines_append:
  assumes "RelayEnqueue sc mq q now draw it r = (r', res)" and "relay_ok sc mq r"
    and "unix_milli now = ms"
  shows "(case res of
      Inr (Queued i rid) \<Rightarrow>
        (\<forall>a. live_mail t a r' = live_mail t a r @
           (if a = it_to it \<and> not_expired t (queued_row it i rid ms) then [queued_row it i rid ms] else [])) \<and>
        (\<forall>m \<in> set (messages r). rm_id m < i \<and> rm_rid m \<noteq> rid)
    | _ \<Rightarrow> messages r' = messages r)"
proof -
  have fit: "kids_fit sc (kids r)" and ids: "ids_ok r" using assms(2) by (auto simp: relay_ok_def)
  from assms(1) fit show ?thesis
  proof (cases rule: RelayEnqueue_cases)
    case (kept c)
    then show ?thesis by (auto split: sum.split queued.split)
  next
    case (added c rid w)
    have "rm_to (queued_row it (row_seq r + 1) rid ms) = it_to it" by (simp add: queued_row_def)
    with added ids show ?thesis
      by (auto simp: live_mail_def assms(3) ids_ok_def)
  qed
qed

theorem enqueue_refines_append_witness:
  "live_mail 3000 ''bob'' (fst demo_send1) = [queued_row demo_item 1 [1] 1000]"
proof -
  have run: "RelayEnqueue demo_seal demo_mq DefaultQuota (1000 * ms_ns) (\<lambda>n. Some [1]) demo_item demo_relay0 =
      (fst demo_send1, Inr (Queued 1 [1]))"
    using demo_sends(1) unfolding demo_send1_def by (simp add: prod_eq_iff)
  have ok: "relay_ok demo_seal demo_mq demo_relay0" unfolding demo_relay0_def by (rule relay_ok_empty)
  have "unix_milli (1000 * ms_ns) = 1000" by (simp add: unix_milli_def ms_ns_def)
  from enqueue_refines_append [OF run ok this, of 3000] show ?thesis
    by (simp add: live_mail_def demo_relay0_def not_expired_def queued_row_def demo_item_def)
qed

text \<open>C18: A reader gets the whole mailbox: polling from the head and acking each page, whatever the page
  limit and the byte budget, hands over every message that can still be opened exactly once and in
  the order it was queued, leaves that mailbox empty and every other one untouched, and ends after
  at most as many rounds as there are messages.\<close>

theorem poll_and_ack_drains:
  assumes "mail_reachable sc mq s"
    and "length (mail_box now (ml_relay s) a) \<le> n"
  shows "\<exists>r'. drain (mail_page now limit budget a 0) (\<lambda>is r. fst (RelayAck a is r)) n (ml_relay s) =
      (mail_box now (ml_relay s) a, r') \<and>
    mail_box now r' a = [] \<and> (\<forall>b. b \<noteq> a \<longrightarrow> mail_box now r' b = mail_box now (ml_relay s) b)"
proof -
  have "ids_ok (ml_relay s)" using mail_reachable_inv [OF assms(1)] by (simp add: mail_inv_def relay_ok_def)
  from relay_queue.drain_box [OF this assms(2)] show ?thesis by blast
qed

theorem poll_and_ack_drains_witness:
  "\<exists>r'. drain (mail_page (3000 * ms_ns) 1 1 ''bob'' 0) (\<lambda>is r. fst (RelayAck ''bob'' is r)) 2 (ml_relay demo_mail) =
      ([(1, row_message (queued_row demo_item 1 [1] 1000)), (2, row_message (queued_row demo_item2 2 [2] 2000))], r') \<and>
    mail_box (3000 * ms_ns) r' ''bob'' = []"
proof -
  have box: "mail_box (3000 * ms_ns) (ml_relay demo_mail) ''bob'' =
      [(1, row_message (queued_row demo_item 1 [1] 1000)), (2, row_message (queued_row demo_item2 2 [2] 2000))]"
    by (simp add: mail_box_def live_mail_def demo_mail_sel demo_sends queued_row_def demo_item_def demo_item2_def not_expired_def)
  then show ?thesis
    using poll_and_ack_drains [OF demo_mail_reachable, of "3000 * ms_ns" "''bob''" 2 1 1] by auto
qed

text \<open>A page says whether it is all: \<open>RelayPoll\<close> never fails in a reachable state, its page is the
  oldest messages above the cursor, at least one when there is any and within the byte budget unless
  it is a single message, and its second answer is true exactly when messages remain after the page.\<close>

theorem poll_page_exact:
  assumes "mail_reachable sc mq s"
  shows "\<exists>k. let waiting = filter (\<lambda>x. max 0 after < fst x) (mail_box now (ml_relay s) a) in
    RelayPoll now a after limit budget (ml_relay s) = Inr (map snd (take k waiting), k < length waiting) \<and>
    (0 < k \<or> waiting = []) \<and> k \<le> 1000 \<and>
    (sum_list (map (\<lambda>x. RM_Size (snd x)) (take k waiting)) \<le> budget \<or> k \<le> 1)"
proof -
  have ids: "ids_ok (ml_relay s)" using mail_reachable_inv [OF assms] by (simp add: mail_inv_def relay_ok_def)
  let ?rows = "filter (\<lambda>m. max 0 after < rm_id m) (live_mail (unix_milli now) a (ml_relay s))"
  obtain k where k: "k \<le> 1000" "?rows \<noteq> [] \<longrightarrow> 0 < k" "size_sum (take k ?rows) \<le> budget \<or> k \<le> 1"
    "RelayPoll now a after limit budget (ml_relay s) = Inr (map row_message (take k ?rows), k < length ?rows)"
    using RelayPoll_page [OF ids] unfolding Let_def by blast
  have w: "filter (\<lambda>x. max 0 after < fst x) (mail_box now (ml_relay s) a) = map (\<lambda>m. (rm_id m, row_message m)) ?rows"
    by (simp add: mail_box_def filter_map comp_def)
  show ?thesis
    unfolding w Let_def by (intro exI [of _ k]) (use k in \<open>auto simp: take_map comp_def size_sum_def\<close>)
qed

theorem poll_page_exact_witness:
  "\<exists>k. RelayPoll (3000 * ms_ns) ''bob'' 0 1 100 (ml_relay demo_mail) =
     Inr (map snd (take k (mail_box (3000 * ms_ns) (ml_relay demo_mail) ''bob'')), k < 2)"
proof -
  have "mail_box (3000 * ms_ns) (ml_relay demo_mail) ''bob'' =
      [(1, row_message (queued_row demo_item 1 [1] 1000)), (2, row_message (queued_row demo_item2 2 [2] 2000))]"
    by (simp add: mail_box_def live_mail_def demo_mail_sel demo_sends queued_row_def demo_item_def demo_item2_def not_expired_def)
  then show ?thesis
    using poll_page_exact [OF demo_mail_reachable, of 0 "3000 * ms_ns" "''bob''" 1 100]
    by (auto simp: Let_def numeral_2_eq_2)
qed

section \<open>What may be queued\<close>

text \<open>Only mail the recipient can open is queued: when \<open>RelayEnqueue\<close> queues an envelope, the recipient
  has published a key set, the envelope names one of its keys, the envelope is accepted before that
  key's end plus the delivery deadline, the envelope is not there yet, and the class is a contact's
  with a credential or a stranger's; what the process cached of key sets does not matter.\<close>

theorem queued_under_published_key:
  assumes "mail_reachable sc mq s"
    and "RelayEnqueue sc mq q now draw it (ml_relay s) = (r', Inr (Queued i rid))"
    and "unix_milli now \<le> max_int64" and "0 \<le> DeliveryDeadlineMS sc" and "DeliveryDeadlineMS sc \<le> max_int64"
  shows "(\<exists>sq raw ks na. map_of (agent_keys (ml_relay s)) (it_to it) = Some (sq, raw) \<and> KeySetKeys sc raw = Some ks \<and>
      length (it_kid it) = KIDLen \<and> map_of (kids_of ks) (it_kid it) = Some na \<and>
      unix_milli now \<le> uint na + DeliveryDeadlineMS sc) \<and>
    RelayQueued (it_to it) (it_digest it) (ml_relay s) = None \<and>
    (it_class it = CapClassContact sc \<and> it_cap it \<noteq> None \<or> it_class it = CapClassStranger sc)"
proof -
  have fit: "kids_fit sc (kids (ml_relay s))"
    using mail_reachable_inv [OF assms(1)] by (simp add: mail_inv_def relay_ok_def)
  from assms(2) fit have pub: "kid_published sc (it_to it) (it_kid it) (unix_milli now) (ml_relay s)"
    "RelayQueued (it_to it) (it_digest it) (ml_relay s) = None"
    by (cases rule: RelayEnqueue_cases, auto)+
  have "it_class it = CapClassContact sc \<and> it_cap it \<noteq> None \<or> it_class it = CapClassStranger sc"
    using assms(2) by (auto simp: RelayEnqueue_def split: if_split_asm)
  with pub show ?thesis unfolding kid_published_def withinDeadline_iff [OF assms(3-5)] by blast
qed

theorem queued_under_published_key_witness:
  "KeySetKeys demo_seal [9] = Some [(replicate 16 1, 1000000)] \<and> 2000 \<le> uint (1000000 :: u64) + 3600000 \<and>
   RelayQueued ''bob'' [6] (fst demo_send1) = None"
proof -
  let ?s = "(mail_start [(''bob'', (1, [9]))] 2)\<lparr>ml_relay := fst demo_send1\<rparr>"
  have r: "mail_reachable demo_seal demo_mq ?s" by (rule mail_next [OF mail_init demo_send_steps(1)])
  have run: "RelayEnqueue demo_seal demo_mq DefaultQuota (2000 * ms_ns) (\<lambda>n. Some [2]) demo_item2 (ml_relay ?s) =
      (fst demo_send2, Inr (Queued 2 [2]))"
    using demo_sends(2) unfolding demo_send2_def by (simp add: prod_eq_iff)
  have "unix_milli (2000 * ms_ns) = 2000" "unix_milli (2000 * ms_ns) \<le> max_int64"
    "0 \<le> DeliveryDeadlineMS demo_seal" "DeliveryDeadlineMS demo_seal \<le> max_int64"
    by (simp_all add: unix_milli_def ms_ns_def demo_seal_def max_int64_def)
  with queued_under_published_key [OF r run this(2-4)] show ?thesis
    by (auto simp: demo_item2_def demo_item_def demo_seal_def kids_of_def split: if_splits)
qed

text \<open>C19: No envelope is queued more than three times in the day after it was first queued, whatever is
  acked, deleted and sent again in between.\<close>

theorem redelivered_at_most_three:
  assumes "mail_reachable sc mq s"
    and "clock_run (\<lambda>t s s'. \<exists>ev. mail_step sc mq ev t s s') t0 s r"
    and "\<forall>(t, _) \<in> set r. unix_milli t < unix_milli t0 + 86400000"
    and "map_of (redelivery (ml_relay s)) d = None"
  shows "count_firings (queues_now d) s r \<le> 3"
proof -
  have "no_old_window t0 d (ml_relay s)" "counted_since t0 d (ml_relay s) = 0"
    using assms(4) by (simp_all add: no_old_window_def counted_since_def)
  with at_most_three [OF assms(2) mail_reachable_inv [OF assms(1)] order_refl assms(3), of d] show ?thesis by simp
qed

theorem redelivered_at_most_three_witness:
  "count_firings (queues_now [5]) (mail_start [(''bob'', (1, [9]))] 2)
     [(1000 * ms_ns, (mail_start [(''bob'', (1, [9]))] 2)\<lparr>ml_relay := fst demo_send1\<rparr>), (2000 * ms_ns, demo_mail)] \<le> 3"
proof (rule redelivered_at_most_three [OF mail_init])
  show "clock_run (\<lambda>t s s'. \<exists>ev. mail_step demo_seal demo_mq ev t s s') (1000 * ms_ns) (mail_start [(''bob'', (1, [9]))] 2)
     [(1000 * ms_ns, (mail_start [(''bob'', (1, [9]))] 2)\<lparr>ml_relay := fst demo_send1\<rparr>), (2000 * ms_ns, demo_mail)]"
    using demo_send_steps by (auto simp: ms_ns_def)
qed (simp_all add: unix_milli_def ms_ns_def demo_start_relay demo_relay0_def)

section \<open>Delivery confirmations\<close>

text \<open>C20: A sender's question is answered truthfully: while its message waits the hub says it is queued.
  Once the recipient acked it with a confirmation (by an item whose id no earlier item of the ack has
  and whose handle no later one) and none was evicted, the hub answers that very confirmation to whoever
  asks with the rid and the handle at any time \<open>T\<close> of the seven days after the ack and of the ten
  minutes after the first status check that named the handle. Whatever the mail operations are in
  between, provided none of them hands in another confirmation under the same 16 byte handle, evicts,
  or draws the rid again, and no other process deletes confirmations.\<close>

theorem confirmation_reaches_sender:
  assumes reach: "mail_reachable sc mq s"
    and run: "StoreDAcks now a items (ml_relay s) (ml_dacks s) = (r', d', Some res)" "ar_evicted res = 0"
    and it: "items = pre @ it # post" "ai_handle it = Some h" "ai_id it \<notin> ai_id ` set pre" "Some h \<notin> ai_handle ` set post"
    and m: "m \<in> set (messages (ml_relay s))" "rm_to m = a" "rm_id m = ai_id it"
    and later: "clock_run (\<lambda>t u u'. \<exists>ev. mail_step sc mq ev t u u' \<and> spares_dack (rm_rid m) h T ev t u u') now
      (s\<lparr>ml_relay := r', ml_dacks := d'\<rparr>) r"
    and "end_time now r \<le> T" and "unix_milli T < unix_milli (now + DAckTTL)"
  shows "snd (RelayStatus before [(rm_rid m, h)] (ml_relay s) (ml_dacks s)) = [StatusQueued] \<and>
    (let u = end_of (s\<lparr>ml_relay := r', ml_dacks := d'\<rparr>) r in
      snd (RelayStatus T [(rm_rid m, h)] (ml_relay u) (ml_dacks u)) = [StatusDone (ai_dack it)])"
proof -
  have inv: "mail_inv sc mq s" by (rule mail_reachable_inv [OF reach])
  then have un: "unique_ok (ml_relay s)" by (simp add: mail_inv_def relay_ok_def)
  have inv1: "mail_inv sc mq (s\<lparr>ml_relay := r', ml_dacks := d'\<rparr>)" by (rule mail_step_inv [OF ml_ack [OF run(1)] inv])
  have "confirmed (rm_rid m) h (ai_dack it) T (s\<lparr>ml_relay := r', ml_dacks := d'\<rparr>)"
    by (rule StoreDAcks_confirms [OF run it m un]) (rule assms(13))
  from confirmed_run [OF later inv1 assms(12) this]
  have "snd (RelayStatus T [(rm_rid m, h)] (ml_relay (end_of (s\<lparr>ml_relay := r', ml_dacks := d'\<rparr>) r))
      (ml_dacks (end_of (s\<lparr>ml_relay := r', ml_dacks := d'\<rparr>) r))) = [StatusDone (ai_dack it)]"
    using confirmed_answers by (simp add: mail_inv_def)
  moreover have "snd (RelayStatus before [(rm_rid m, h)] (ml_relay s) (ml_dacks s)) = [StatusQueued]"
    using m by (auto simp: RelayStatus_def Let_def status_of_def list_ex_iff)
  ultimately show ?thesis by (simp add: Let_def)
qed

definition demo_ack :: ack_item where
  "demo_ack = \<lparr>ai_id = 1, ai_handle = Some (replicate 16 7), ai_dack = replicate 80 8\<rparr>"

lemma demo_ack_run:
  "snd (snd (StoreDAcks (3000 * ms_ns) ''bob'' [demo_ack] (ml_relay demo_mail) (ml_dacks demo_mail))) =
     Some \<lparr>ar_acked = 1, ar_stored = 1, ar_evicted = 0\<rparr>"
  by code_simp

text \<open>The sender asks a second after the ack, and again nine minutes later.\<close>

theorem confirmation_reaches_sender_witness:
  "\<exists>r' d' d''. StoreDAcks (3000 * ms_ns) ''bob'' [demo_ack] (ml_relay demo_mail) (ml_dacks demo_mail) =
       (r', d', Some \<lparr>ar_acked = 1, ar_stored = 1, ar_evicted = 0\<rparr>) \<and>
     snd (RelayStatus (4000 * ms_ns) [([1], replicate 16 7)] (ml_relay demo_mail) (ml_dacks demo_mail)) = [StatusQueued] \<and>
     RelayStatus (4000 * ms_ns) [([1], replicate 16 7)] r' d' = (d'', [StatusDone (replicate 80 8)]) \<and>
     snd (RelayStatus (544000 * ms_ns) [([1], replicate 16 7)] r' d'') = [StatusDone (replicate 80 8)]"
proof -
  obtain r' d' where run: "StoreDAcks (3000 * ms_ns) ''bob'' [demo_ack] (ml_relay demo_mail) (ml_dacks demo_mail) =
      (r', d', Some \<lparr>ar_acked = 1, ar_stored = 1, ar_evicted = 0\<rparr>)"
    using demo_ack_run by (metis prod.collapse)
  let ?h = "replicate 16 7"
  let ?m = "queued_row demo_item 1 [1] 1000"
  let ?u = "demo_mail\<lparr>ml_relay := r', ml_dacks := d'\<rparr>"
  have m: "?m \<in> set (messages (ml_relay demo_mail))" "rm_to ?m = ''bob''" "rm_id ?m = ai_id demo_ack" "rm_rid ?m = [1]"
    by (simp_all add: demo_mail_sel demo_sends queued_row_def demo_item_def demo_ack_def)
  have it: "[demo_ack] = [] @ demo_ack # []" "ai_handle demo_ack = Some ?h" "ai_id demo_ack \<notin> ai_id ` set []"
    "Some ?h \<notin> ai_handle ` set []" by (simp_all add: demo_ack_def)
  have ms: "unix_milli (n * ms_ns) = n" if "0 \<le> n" for n
    using that by (simp add: unix_milli_def ms_ns_def go_div_nonneg)
  have ttl: "unix_milli (3000 * ms_ns + DAckTTL) = 604803000"
    by (simp add: unix_milli_def DAckTTL_def time_defs go_div_def)
  have in_time: "unix_milli (4000 * ms_ns) < unix_milli (3000 * ms_ns + DAckTTL)"
    "unix_milli (544000 * ms_ns) < unix_milli (3000 * ms_ns + DAckTTL)" "3000 * ms_ns \<le> 4000 * ms_ns"
    "4000 * ms_ns \<le> 544000 * ms_ns"
    by (simp_all only: ttl ms) (simp_all add: ms_ns_def)
  note ans = confirmation_reaches_sender [OF demo_mail_reachable run _ it m(1-3), unfolded m(4) Let_def]
  have first: "snd (RelayStatus (4000 * ms_ns) [([1], ?h)] (ml_relay demo_mail) (ml_dacks demo_mail)) = [StatusQueued] \<and>
      snd (RelayStatus (4000 * ms_ns) [([1], ?h)] r' d') = [StatusDone (ai_dack demo_ack)]"
    using ans [of "4000 * ms_ns" "[]" "4000 * ms_ns"] in_time(1,3) by simp
  obtain d'' where st: "RelayStatus (4000 * ms_ns) [([1], ?h)] r' d' = (d'', [StatusDone (ai_dack demo_ack)])"
    using first by (metis prod.collapse)
  have step: "mail_step demo_seal demo_mq (EvStatus [([1], ?h)]) (4000 * ms_ns) ?u (?u\<lparr>ml_dacks := d''\<rparr>)"
    by (rule ml_status) (use st in simp)
  have "clock_run (\<lambda>t u u'. \<exists>ev. mail_step demo_seal demo_mq ev t u u' \<and> spares_dack [1] ?h (544000 * ms_ns) ev t u u')
      (3000 * ms_ns) ?u [(4000 * ms_ns, ?u\<lparr>ml_dacks := d''\<rparr>)]"
  proof -
    have "spares_dack [1] ?h (544000 * ms_ns) (EvStatus [([1], ?h)]) (4000 * ms_ns) ?u (?u\<lparr>ml_dacks := d''\<rparr>)"
      by (simp add: spares_dack_def ms)
    with step in_time(3) show ?thesis by auto
  qed
  from ans [OF _ this _ in_time(2)] in_time(4) have "snd (RelayStatus (544000 * ms_ns) [([1], ?h)] r' d'') = [StatusDone (ai_dack demo_ack)]"
    by simp
  with run first st show ?thesis by (auto simp: demo_ack_def)
qed

text \<open>The answer survives the trip between hubs: what a hub answers to a peer's status check is read
  back by the peer as the very same answers, and an answer the peer accepts is one a hub writes, so
  neither side can take a confirmation of another size, or a fourth state, for an answer.\<close>

theorem peer_status_roundtrip:
  assumes "mail_reachable sc mq s"
    and "RelayStatus now items (ml_relay s) (ml_dacks s) = (d', res)"
  shows "decodePeerStatus (Inr (encodeStatus res)) (length items) = Inr res \<and>
    (\<forall>ans out. decodePeerStatus (Inr ans) (length items) = Inr out \<longrightarrow> ans = encodeStatus out \<and> length out = length items)"
proof
  have "length res = length items" using assms(2) by (auto simp: RelayStatus_def Let_def)
  moreover have "\<forall>r \<in> set res. status_sized r"
    using RelayStatus_sized [OF mail_reachable_sized [OF assms(1)]] assms(2) by (metis snd_conv)
  ultimately show "decodePeerStatus (Inr (encodeStatus res)) (length items) = Inr res"
    using peer_status_loop_encode [of res] by (simp add: decodePeerStatus_def encodeStatus_def)
  show "\<forall>ans out. decodePeerStatus (Inr ans) (length items) = Inr out \<longrightarrow> ans = encodeStatus out \<and> length out = length items"
    by (auto simp: decodePeerStatus_def encodeStatus_def dest!: peer_status_loop_Inr split: if_splits)
qed

theorem peer_status_roundtrip_witness:
  "\<exists>res. snd (RelayStatus 7 [([1], replicate 16 7)] (ml_relay demo_mail) (ml_dacks demo_mail)) = res \<and>
     decodePeerStatus (Inr (encodeStatus res)) 1 = Inr res"
proof -
  obtain d' res where run: "RelayStatus 7 [([1], replicate 16 7)] (ml_relay demo_mail) (ml_dacks demo_mail) = (d', res)" by force
  from peer_status_roundtrip [OF demo_mail_reachable run] run show ?thesis by simp
qed

text \<open>C21: An acknowledgement that decodes is stored: \<open>decodeAckItems\<close> takes 1 to 1000 items, each with a
  positive id and with a handle of 16 bytes and a confirmation of 80 bytes or neither, and
  \<open>StoreDAcks\<close> then never refuses one for its size.\<close>

theorem decoded_ack_is_stored:
  assumes "decodeAckItems req = Inr items"
  shows "1 \<le> length items \<and> length items = length req \<and> length items \<le> 1000 \<and> (\<forall>it \<in> set items. 0 < ai_id it) \<and>
    snd (snd (StoreDAcks now a items r d)) \<noteq> None"
proof -
  have run: "decode_ack_loop 0 req = Inr items" "req \<noteq> []" "length req \<le> MaxAckItems"
    using assms by (auto simp: decodeAckItems_def split: if_splits)
  note D = decode_ack_loop_Inr [OF run(1)]
  obtain ms del where ack: "relayAckTx a (map ai_id items) (messages r, []) = (ms, del)" by force
  have "store_dacks (unix_milli (now + DAckTTL)) del items [] (dk_rows d) 0 0 \<noteq> None"
    by (rule store_dacks_sized) (use D in fastforce)
  then obtain rows ins st where "store_dacks (unix_milli (now + DAckTTL)) del items [] (dk_rows d) 0 0 = Some (rows, ins, st)"
    by (metis not_None_eq prod_cases3)
  with ack have "snd (snd (StoreDAcks now a items r d)) \<noteq> None"
    by (simp add: StoreDAcks_def split: prod.split)
  with D run show ?thesis by (auto simp: MaxAckItems_def MaxPollLimit_def Suc_le_eq)
qed

theorem decoded_ack_is_stored_witness:
  "\<exists>items. decodeAckItems [\<lparr>ra_id = Some 4, ra_handle = [], ra_dack = []\<rparr>] = Inr items \<and> length items = 1"
proof -
  obtain items where run: "decodeAckItems [\<lparr>ra_id = Some 4, ra_handle = [], ra_dack = []\<rparr>] = Inr items"
    by (simp add: decodeAckItems_def MaxAckItems_def MaxPollLimit_def)
  from decoded_ack_is_stored [OF run] run show ?thesis by auto
qed

section \<open>Quotas\<close>

text \<open>The quota a send is held to is never below the defaults, whatever the table says, and is the
  table's own within thirty seconds of a change made by another process, at once after one made in
  the hub process.\<close>

theorem quota_in_force:
  assumes "quota_reachable t0 s" and "t0 \<le> now"
    and "QuotaFor now (if ok then Some (qs_table s) else None) a (qs_cache s) = (c', q)"
  shows "DefaultFirstContactsPerMin \<le> FirstContactsPerMin q \<and> DefaultNonContactMsgs \<le> NonContactMsgs q \<and>
    DefaultNonContactBytes \<le> NonContactBytes q \<and>
    (ok \<and> qs_changed s + quotaRefresh \<le> now \<longrightarrow> q = clamp (QuotaOf (qs_table s) a))"
proof -
  have inv: "quota_inv t0 s" by (rule quota_reachable_inv [OF assms(1)])
  have run: "quota_lookup now (if ok then Some (qs_table s) else None) a (qs_cache s) = (c', q)"
    using assms(3) by (simp add: QuotaFor_def)
  have "at_least_default q" using quota_lookup_at_least [OF run] inv by (simp add: quota_inv_def)
  moreover have "q = clamp (QuotaOf (qs_table s) a)" if c: "ok" "qs_changed s + quotaRefresh \<le> now"
  proof (cases "\<not> qc_valid (qs_cache s) \<or> quotaRefresh \<le> now - qc_read_at (qs_cache s) \<or> now < qc_read_at (qs_cache s)")
    case True
    from quota_lookup_refreshed [OF this, of "qs_table s" a] run c show ?thesis by simp
  next
    case False
    then have "\<not> qc_read_at (qs_cache s) \<le> qs_changed s" using c(2) by linarith
    with inv False have "qc_rows (qs_cache s) = readQuotaOverrides (qs_table s)" by (auto simp: quota_inv_def)
    moreover have "q = row_or (qc_rows (qs_cache s)) a DefaultQuota"
      using run False c(1) by (auto simp: quota_lookup_def Let_def)
    ultimately show ?thesis using clamp_id [of DefaultQuota]
      by (auto simp: row_or_def QuotaOf_def table_simps split: option.splits)
  qed
  ultimately show ?thesis by (auto simp: at_least_default_def)
qed

definition demo_quota :: quota_state where
  "demo_quota = \<lparr>qs_table = [(''bob'', \<lparr>FirstContactsPerMin = 5, NonContactMsgs = 900, NonContactBytes = 67108864\<rparr>)],
     qs_cache = \<lparr>qc_rows = [], qc_read_at = 0, qc_valid = False\<rparr>, qs_changed = 0\<rparr>"

theorem quota_in_force_witness:
  "snd (QuotaFor (30 * second_ns) (Some (qs_table demo_quota)) ''bob'' (qs_cache demo_quota)) =
     \<lparr>FirstContactsPerMin = 30, NonContactMsgs = 900, NonContactBytes = 67108864\<rparr>"
proof -
  have r: "quota_reachable 0 demo_quota" unfolding demo_quota_def by (rule quota_start)
  obtain c' q where run: "QuotaFor (30 * second_ns) (if True then Some (qs_table demo_quota) else None) ''bob'' (qs_cache demo_quota) = (c', q)"
    by force
  have "(0 :: int) \<le> 30 * second_ns" by (simp add: time_defs)
  from quota_in_force [OF r this run] have "q = clamp (QuotaOf (qs_table demo_quota) ''bob'')"
    by (auto simp: demo_quota_def quotaRefresh_def)
  then show ?thesis
    using run by (simp add: demo_quota_def QuotaOf_def row_or_def clamp_def DefaultQuota_def quota_consts)
qed

text \<open>A change of a quota reads back: when \<open>SetQuota\<close> accepts it, the next send is held to exactly the
  quota it answered, which is not below the defaults, and no
  other recipient's quota moved.\<close>

theorem set_quota_reads_back:
  assumes "SetQuota a ch t c = Inr (t', c', q)" and "at_least_default (QuotaOf t a)"
  shows "snd (QuotaFor now (Some t') a c') = q \<and> QuotaOf t' a = q \<and>
    (b = a \<or> QuotaOf t' b = QuotaOf t b) \<and>
    DefaultFirstContactsPerMin \<le> FirstContactsPerMin q \<and> DefaultNonContactMsgs \<le> NonContactMsgs q \<and>
    DefaultNonContactBytes \<le> NonContactBytes q"
proof -
  have s: "Check ch = None" "q = apply_change ch (QuotaOf t a)" "\<not> qc_valid c'"
    using assms(1) by (auto simp: SetQuota_Inr invalidate_def)
  have q: "at_least_default q" using apply_change_at_least [OF s(1) assms(2)] s(2) by simp
  have "quota_lookup now (Some t') a c' = (\<lparr>qc_rows = readQuotaOverrides t', qc_read_at = now, qc_valid = True\<rparr>, clamp (QuotaOf t' a))"
    by (rule quota_lookup_refreshed) (simp add: s(3))
  then have "snd (QuotaFor now (Some t') a c') = q"
    using SetQuota_reads_back(1) [OF assms(1)] clamp_id [OF q] by (simp add: QuotaFor_def)
  with SetQuota_reads_back [OF assms(1)] q show ?thesis unfolding at_least_default_def by blast
qed

theorem set_quota_reads_back_witness:
  "\<exists>t' c' q. SetQuota ''bob'' \<lparr>ch_first_contacts = None, ch_msgs = Some 900, ch_mib = Some 64\<rparr> [] (qs_cache demo_quota) =
     Inr (t', c', q) \<and> snd (QuotaFor 7 (Some t') ''bob'' c') = q"
proof -
  let ?c = "\<lparr>ch_first_contacts = None, ch_msgs = Some 900, ch_mib = Some 64\<rparr>"
  have "Check ?c = None" by code_simp
  then obtain t' c' q where run: "SetQuota ''bob'' ?c [] (qs_cache demo_quota) = Inr (t', c', q)"
    by (simp add: SetQuota_def Let_def)
  have "at_least_default (QuotaOf [] ''bob'')" by (simp add: QuotaOf_def row_or_def)
  from set_quota_reads_back [OF run this] run show ?thesis by blast
qed

end
