(* ===== verification/Signed_Times.thy ===== *)
theory Signed_Times
  imports Hub_Prelude
begin

text \<open>
  \<open>internal/aghub/auth2.go\<close>, RC1: the times of signed requests. For each signer the hub keeps a floor,
  the times it accepted above the floor and the largest time it accepted; a time is accepted once.
  The signers are spread over parts, each under its own lock. What a part forgets raises the floor
  of every signer without state in it.

  Times are 64-bit words, the hub's clock an \<open>int\<close> of milliseconds. The hash that picks the part
  (\<open>maphash\<close>, with a random seed) and the growth of a slice's capacity (\<open>append\<close>) are functions of
  the record \<open>rc1_env\<close>, with ANetCore's \<open>MaxSkewMillis\<close>.
\<close>

section \<open>State\<close>

record rc1_env =
  Skew :: int
  Hash :: "aid \<Rightarrow> u64"
  Grow :: "nat \<Rightarrow> nat \<Rightarrow> nat"

record rc1_signer =
  sg_floor :: u64
  sg_max :: u64
  sg_recent :: "u64 list"
  sg_cap :: nat

record rc1_shard =
  sh_signers :: "(aid, rc1_signer) table"
  sh_gone :: u64
  sh_swept :: int

record rc1_state =
  rc_shards :: "rc1_shard list"
  rc_bytes :: int
  rc_high :: int
  rc_low :: int
  rc_next_valve :: int
  rc_logged :: int
  rc_next :: "32 word"

datatype rc1_verdict = rc1Accepted | rc1Outside | rc1Stale u64 | rc1Replayed

definition rc1W :: u64 where "rc1W = 30000"
definition rc1KNew :: int where "rc1KNew = 16"
definition rc1KAgent :: int where "rc1KAgent = 64"
definition rc1SweepEvery :: int where "rc1SweepEvery = 10000"
definition rc1ValveEvery :: int where "rc1ValveEvery = 1000"
definition rc1ValveLogEvery :: int where "rc1ValveLogEvery = 60000"
definition rc1SignerBytes :: int where "rc1SignerBytes = 96"

definition newRC1 :: "millis \<Rightarrow> nat \<Rightarrow> int \<Rightarrow> int \<Rightarrow> rc1_state" where
  "newRC1 now shards high low =
    \<lparr>rc_shards = replicate shards \<lparr>sh_signers = [], sh_gone = word_of_int (max (now - 1) 0), sh_swept = now\<rparr>,
     rc_bytes = 0, rc_high = high, rc_low = low, rc_next_valve = 0, rc_logged = 0, rc_next = 0\<rparr>"

definition shard_of :: "rc1_env \<Rightarrow> aid \<Rightarrow> rc1_state \<Rightarrow> nat" where
  "shard_of e a r = unat (Hash e a) mod length (rc_shards r)"

section \<open>One time of one signer\<close>

definition rc1InWindow :: "rc1_env \<Rightarrow> u64 \<Rightarrow> millis \<Rightarrow> bool" where
  "rc1InWindow e ts now =
    (if ts > push_bit 62 1 then False
     else let skew = now - uint ts; skew = (if skew < 0 then - skew else skew) in skew \<le> Skew e)"

definition signerBytes :: "aid \<Rightarrow> rc1_signer \<Rightarrow> int" where
  "signerBytes a s = rc1SignerBytes + int (length a) + 8 * int (sg_cap s)"

text \<open>\<open>slices.BinarySearch\<close> of an ascending slice: the first position not below \<open>t\<close>, and whether \<open>t\<close> is
  there.\<close>

definition binary_search :: "u64 list \<Rightarrow> u64 \<Rightarrow> nat \<times> bool" where
  "binary_search xs t = (let i = length (takeWhile (\<lambda>x. x < t) xs) in (i, i < length xs \<and> xs ! i = t))"

definition raiseFloor :: "u64 \<Rightarrow> rc1_signer \<Rightarrow> rc1_signer" where
  "raiseFloor f s = (case binary_search (sg_recent s) (f + 1) of (j, _) \<Rightarrow>
     s\<lparr>sg_floor := f, sg_recent := drop j (sg_recent s)\<rparr>)"

text \<open>The loop that raises the floor while more than \<open>k\<close> times are kept; \<open>None\<close> when the fuel runs out.\<close>

fun trim_recent :: "nat \<Rightarrow> int \<Rightarrow> rc1_signer \<Rightarrow> rc1_signer option" where
  "trim_recent fuel k s =
    (if int (length (sg_recent s)) \<le> k then Some s
     else (case fuel of 0 \<Rightarrow> None | Suc n \<Rightarrow> trim_recent n k (raiseFloor (hd (sg_recent s)) s)))"

declare trim_recent.simps [simp del]

definition insert_time :: "rc1_env \<Rightarrow> nat \<Rightarrow> u64 \<Rightarrow> rc1_signer \<Rightarrow> rc1_signer" where
  "insert_time e i ts s =
    (let n = Suc (length (sg_recent s)) in
     s\<lparr>sg_recent := take i (sg_recent s) @ ts # drop i (sg_recent s),
       sg_cap := (if n > sg_cap s then Grow e (sg_cap s) n else sg_cap s),
       sg_max := max (sg_max s) ts\<rparr>)"

definition raise_window :: "rc1_signer \<Rightarrow> rc1_signer" where
  "raise_window s =
    (if sg_max s > rc1W \<and> sg_max s - rc1W > sg_floor s then raiseFloor (sg_max s - rc1W) s else s)"

text \<open>The verdict, the part after it and the change of the memory estimate.\<close>

definition acceptLocked ::
  "rc1_env \<Rightarrow> aid \<Rightarrow> u64 \<Rightarrow> int \<Rightarrow> millis \<Rightarrow> rc1_shard \<Rightarrow> rc1_verdict \<times> rc1_shard \<times> int" where
  "acceptLocked e a ts k now sh =
    (if \<not> rc1InWindow e ts now then (rc1Outside, sh, 0)
     else
      (case (case map_of (sh_signers sh) a of
               None \<Rightarrow>
                 if ts \<le> sh_gone sh then Inl (sh_gone sh)
                 else let s = \<lparr>sg_floor = sh_gone sh, sg_max = 0, sg_recent = [], sg_cap = 0\<rparr> in Inr (s, signerBytes a s)
             | Some s \<Rightarrow> Inr (s, 0)) of
        Inl gone \<Rightarrow> (rc1Stale gone, sh, 0)
      | Inr (s, added) \<Rightarrow>
        (let put = (\<lambda>s. sh\<lparr>sh_signers := AList.update a s (sh_signers sh)\<rparr>) in
         if ts \<le> sg_floor s then (rc1Stale (sg_floor s), put s, added)
         else (case binary_search (sg_recent s) ts of (i, seen) \<Rightarrow>
           if seen then (rc1Replayed, put s, added)
           else
            (let s' = raise_window (insert_time e i ts s);
                 s' = (case trim_recent (length (sg_recent s')) (max k 1) s' of None \<Rightarrow> s' | Some t \<Rightarrow> t)
             in (rc1Accepted, put s', added + (signerBytes a s' - signerBytes a s)))))))"

section \<open>Forgetting\<close>

definition sg_top :: "rc1_signer \<Rightarrow> u64" where
  "sg_top s = max (sg_floor s) (sg_max s)"

definition sweep_drops :: "rc1_env \<Rightarrow> millis \<Rightarrow> rc1_signer \<Rightarrow> bool" where
  "sweep_drops e now s \<longleftrightarrow> now - Skew e > 0 \<and> sg_top s < word_of_int (now - Skew e)"

text \<open>The signers are dropped in the map's order, which changes neither the largest top nor the sum.\<close>

definition sweepLocked :: "rc1_env \<Rightarrow> millis \<Rightarrow> rc1_shard \<Rightarrow> rc1_shard \<times> int" where
  "sweepLocked e now sh =
    (let sh = sh\<lparr>sh_swept := now\<rparr>;
         gone = filter (\<lambda>(_, s). sweep_drops e now s) (sh_signers sh)
     in (sh\<lparr>sh_gone := foldl (\<lambda>g (_, s). max g (sg_top s)) (sh_gone sh) gone,
            sh_signers := filter (\<lambda>(_, s). \<not> sweep_drops e now s) (sh_signers sh)\<rparr>,
         - sum_list (map (\<lambda>(a, s). signerBytes a s) gone)))"

definition put_shard :: "nat \<Rightarrow> rc1_shard \<times> int \<Rightarrow> rc1_state \<Rightarrow> rc1_state" where
  "put_shard i x r = (case x of (sh, d) \<Rightarrow>
     r\<lparr>rc_shards := (rc_shards r)[i := sh], rc_bytes := rc_bytes r + d\<rparr>)"

definition sweep_due :: "millis \<Rightarrow> rc1_shard \<Rightarrow> bool" where
  "sweep_due now sh \<longleftrightarrow> now - sh_swept sh \<ge> rc1SweepEvery"

definition sweep_shard :: "rc1_env \<Rightarrow> millis \<Rightarrow> nat \<Rightarrow> rc1_state \<Rightarrow> rc1_state" where
  "sweep_shard e now i r = put_shard i (sweepLocked e now (rc_shards r ! i)) r"

text \<open>\<open>free\<close> says whether the lock of the next part could be taken.\<close>

definition sweepNext :: "rc1_env \<Rightarrow> bool \<Rightarrow> millis \<Rightarrow> rc1_state \<Rightarrow> rc1_state" where
  "sweepNext e free now r =
    (let r = r\<lparr>rc_next := rc_next r + 1\<rparr>; i = unat (rc_next r) mod length (rc_shards r) in
     if free \<and> sweep_due now (rc_shards r ! i) then sweep_shard e now i r else r)"

section \<open>The valve\<close>

definition demote :: "rc1_signer \<Rightarrow> rc1_signer" where
  "demote s = s\<lparr>sg_floor := max (sg_floor s) (sg_max s), sg_recent := [], sg_cap := 0\<rparr>"

text \<open>The signer \<open>a\<close> of part \<open>i\<close> becomes strictly monotonic, if it is still there.\<close>

definition demote_at :: "nat \<Rightarrow> aid \<Rightarrow> rc1_state \<Rightarrow> rc1_state" where
  "demote_at i a r =
    (let sh = rc_shards r ! i in
     case map_of (sh_signers sh) a of
       None \<Rightarrow> r
     | Some s \<Rightarrow> put_shard i (sh\<lparr>sh_signers := AList.update a (demote s) (sh_signers sh)\<rparr>,
                   signerBytes a (demote s) - signerBytes a s) r)"

fun demote_loop :: "(u64 \<times> aid \<times> nat) list \<Rightarrow> rc1_state \<Rightarrow> rc1_state" where
  "demote_loop [] r = r"
| "demote_loop ((_, a, i) # c) r = (if rc_bytes r < rc_low r then r else demote_loop c (demote_at i a r))"

definition idle_list :: "rc1_state \<Rightarrow> (u64 \<times> aid \<times> nat) list" where
  "idle_list r = concat (map (\<lambda>i. map (\<lambda>(a, s). (sg_max s, a, i))
     (filter (\<lambda>(a, s). sg_cap s > 0) (sh_signers (rc_shards r ! i)))) [0..<length (rc_shards r)])"

text \<open>\<open>first\<close> says whether no other goroutine runs the valve. A tie of the sort is broken by the order
  of the list.\<close>

definition relieve :: "rc1_env \<Rightarrow> bool \<Rightarrow> millis \<Rightarrow> rc1_state \<Rightarrow> rc1_state" where
  "relieve e first now r =
    (if rc_bytes r \<le> rc_high r \<or> now < rc_next_valve r \<or> \<not> first then r
     else
      (let r = foldl (\<lambda>r i. sweep_shard e now i r) r [0..<length (rc_shards r)];
           l = (if rc_bytes r \<ge> rc_low r then sort_key fst (idle_list r) else []);
           r = demote_loop l r
       in if rc_bytes r \<ge> rc_low r
          then r\<lparr>rc_next_valve := now + rc1ValveEvery,
                 rc_logged := (if rc_logged r = 0 \<or> now - rc_logged r \<ge> rc1ValveLogEvery then now else rc_logged r)\<rparr>
          else r))"

section \<open>A request\<close>

definition accept_at :: "rc1_env \<Rightarrow> aid \<Rightarrow> u64 \<Rightarrow> int \<Rightarrow> millis \<Rightarrow> rc1_state \<Rightarrow> rc1_state \<times> rc1_verdict" where
  "accept_at e a ts k now r =
    (let i = shard_of e a r in
     case acceptLocked e a ts k now (rc_shards r ! i) of (v, sh, d) \<Rightarrow>
      (let r = put_shard i (sh, d) r in
       (if sweep_due now sh then sweep_shard e now i r else r, v)))"

definition accept :: "rc1_env \<Rightarrow> bool \<Rightarrow> bool \<Rightarrow> aid \<Rightarrow> u64 \<Rightarrow> int \<Rightarrow> millis \<Rightarrow> rc1_state \<Rightarrow> rc1_state \<times> rc1_verdict" where
  "accept e free first a ts k now r =
    (case accept_at e a ts k now r of (r, v) \<Rightarrow> (relieve e first now (sweepNext e free now r), v))"

end
