(* ===== verification/Signed_Times_Laws.thy ===== *)
theory Signed_Times_Laws
  imports Signed_Times
begin

text \<open>
  The laws of RC1. A signer's state is kept in order, its kept times lie between its floor and its
  largest time; what a signer may not use again (\<open>covered\<close>) only grows; the memory estimate is exact.
\<close>

section \<open>Ascending lists\<close>

lemma takeWhile_less_filter: "sorted_wrt (<) xs \<Longrightarrow> takeWhile (\<lambda>x. x < (t :: 'a :: linorder)) xs = filter (\<lambda>x. x < t) xs"
proof (induction xs)
  case (Cons x xs)
  show ?case
  proof (cases "x < t")
    case False
    then have "filter (\<lambda>x. x < t) xs = []" using Cons.prems by (auto simp: filter_empty_conv)
    with False show ?thesis by simp
  qed (use Cons in simp)
qed simp

lemma drop_less_filter:
  assumes "sorted_wrt (<) xs"
  shows "drop (length (takeWhile (\<lambda>x. x < (t :: 'a :: linorder)) xs)) xs = filter (\<lambda>x. t \<le> x) xs"
  using assms
proof (induction xs)
  case (Cons x xs)
  show ?case
  proof (cases "x < t")
    case False
    then have "filter (\<lambda>x. t \<le> x) (x # xs) = x # xs" using Cons.prems by (auto simp: filter_id_conv)
    with False show ?thesis by simp
  qed (use Cons in auto)
qed simp

lemma binary_search_sorted:
  assumes "sorted_wrt (<) xs"
  shows "binary_search xs t = (length (filter (\<lambda>x. x < t) xs), t \<in> set xs)"
proof -
  let ?i = "length (filter (\<lambda>x. x < t) xs)"
  have tw: "takeWhile (\<lambda>x. x < t) xs = filter (\<lambda>x. x < t) xs" by (rule takeWhile_less_filter [OF assms])
  have d: "drop ?i xs = filter (\<lambda>x. t \<le> x) xs" using drop_less_filter [OF assms, of t] by (simp add: tw)
  have "?i < length xs \<and> xs ! ?i = t \<longleftrightarrow> drop ?i xs \<noteq> [] \<and> hd (drop ?i xs) = t" by (auto simp: hd_drop_conv_nth)
  also have "\<dots> \<longleftrightarrow> t \<in> set xs"
  proof
    assume "drop ?i xs \<noteq> [] \<and> hd (drop ?i xs) = t"
    then show "t \<in> set xs" by (metis hd_in_set in_set_dropD)
  next
    assume "t \<in> set xs"
    then have m: "t \<in> set (filter (\<lambda>x. t \<le> x) xs)" by simp
    then have ne: "filter (\<lambda>x. t \<le> x) xs \<noteq> []" by (metis list.set(1) empty_iff)
    have s: "sorted_wrt (<) (filter (\<lambda>x. t \<le> x) xs)" by (rule sorted_wrt_filter [OF assms])
    from ne obtain y ys where y: "filter (\<lambda>x. t \<le> x) xs = y # ys" by (cases "filter (\<lambda>x. t \<le> x) xs") auto
    have "y \<in> set (filter (\<lambda>x. t \<le> x) xs)" by (simp add: y)
    then have "t \<le> y" by simp
    moreover have "t = y \<or> y < t" using m s by (auto simp: y)
    ultimately show "drop ?i xs \<noteq> [] \<and> hd (drop ?i xs) = t" by (auto simp: d y)
  qed
  finally show ?thesis by (simp add: binary_search_def tw Let_def)
qed

section \<open>A signer\<close>

abbreviation max_time :: u64 where "max_time \<equiv> push_bit 62 1"

definition signer_ok :: "rc1_signer \<Rightarrow> bool" where
  "signer_ok s \<longleftrightarrow> sorted_wrt (<) (sg_recent s) \<and> (\<forall>x \<in> set (sg_recent s). sg_floor s < x \<and> x \<le> sg_max s) \<and>
     sg_floor s \<le> sg_max s \<and> sg_max s \<le> max_time"

definition used :: "u64 \<Rightarrow> rc1_signer \<Rightarrow> bool" where
  "used x s \<longleftrightarrow> x \<le> sg_floor s \<or> x \<in> set (sg_recent s)"

lemma max_time_val: "unat max_time = 4611686018427387904" "uint max_time = 4611686018427387904"
  by (simp_all add: push_bit_eq_mult)

lemma succ_le: "f \<le> max_time \<Longrightarrow> (f + 1 \<le> x) \<longleftrightarrow> (f < (x :: u64))"
proof -
  assume "f \<le> max_time"
  then have "unat f \<le> 4611686018427387904" using max_time_val(1) by (simp add: word_le_nat_alt)
  then have "unat (f + 1) = unat f + 1" by (simp add: unat_word_ariths)
  then show ?thesis by (simp add: word_le_nat_alt word_less_nat_alt Suc_le_eq)
qed

lemma raiseFloor_eq:
  assumes "sorted_wrt (<) (sg_recent s)" and "f \<le> max_time"
  shows "raiseFloor f s = s\<lparr>sg_floor := f, sg_recent := filter (\<lambda>x. f < x) (sg_recent s)\<rparr>"
  using drop_less_filter [OF assms(1), of "f + 1"] succ_le [OF assms(2)]
  by (simp add: raiseFloor_def binary_search_def Let_def)

lemma raiseFloor_ok:
  assumes "signer_ok s" and "sg_floor s \<le> f" and "f \<le> sg_max s"
  shows "signer_ok (raiseFloor f s)" and "used x s \<Longrightarrow> used x (raiseFloor f s)"
    and "sg_max (raiseFloor f s) = sg_max s" and "sg_cap (raiseFloor f s) = sg_cap s"
    and "f \<in> set (sg_recent s) \<Longrightarrow> length (sg_recent (raiseFloor f s)) < length (sg_recent s)"
proof -
  have f: "f \<le> max_time" using assms order_trans by (auto simp: signer_ok_def)
  have eq: "raiseFloor f s = s\<lparr>sg_floor := f, sg_recent := filter (\<lambda>x. f < x) (sg_recent s)\<rparr>"
    by (rule raiseFloor_eq [OF _ f]) (use assms(1) in \<open>simp add: signer_ok_def\<close>)
  show "signer_ok (raiseFloor f s)" using assms by (auto simp: eq signer_ok_def sorted_wrt_filter)
  show "used x s \<Longrightarrow> used x (raiseFloor f s)" using assms(2) by (auto simp: used_def eq)
  show "sg_max (raiseFloor f s) = sg_max s" "sg_cap (raiseFloor f s) = sg_cap s" by (simp_all add: eq)
  show "length (sg_recent (raiseFloor f s)) < length (sg_recent s)" if "f \<in> set (sg_recent s)"
    using that by (auto simp: eq intro: length_filter_less)
qed

text \<open>The loop ends within as many rounds as times are kept.\<close>

lemma trim_recent_ends:
  "signer_ok s \<Longrightarrow> 1 \<le> k \<Longrightarrow> length (sg_recent s) \<le> fuel \<Longrightarrow>
     \<exists>t. trim_recent fuel k s = Some t \<and> signer_ok t \<and> int (length (sg_recent t)) \<le> k \<and>
       sg_max t = sg_max s \<and> sg_cap t = sg_cap s \<and> (\<forall>x. used x s \<longrightarrow> used x t)"
proof (induction fuel arbitrary: s)
  case 0
  then show ?case by (auto simp: trim_recent.simps)
next
  case (Suc n)
  show ?case
  proof (cases "int (length (sg_recent s)) \<le> k")
    case True
    with Suc.prems show ?thesis by (auto simp: trim_recent.simps)
  next
    case False
    then have ne: "sg_recent s \<noteq> []" using Suc.prems(2) by auto
    let ?f = "hd (sg_recent s)"
    have m: "?f \<in> set (sg_recent s)" using ne by simp
    with Suc.prems(1) have f: "sg_floor s \<le> ?f" "?f \<le> sg_max s" by (auto simp: signer_ok_def less_imp_le)
    note R = raiseFloor_ok [OF Suc.prems(1) f]
    have "length (sg_recent (raiseFloor ?f s)) \<le> n" using R(5) [OF m] Suc.prems(3) by linarith
    from Suc.IH [OF R(1) Suc.prems(2) this] obtain t where "trim_recent n k (raiseFloor ?f s) = Some t" "signer_ok t"
      "int (length (sg_recent t)) \<le> k" "sg_max t = sg_max s" "sg_cap t = sg_cap s" "\<forall>x. used x (raiseFloor ?f s) \<longrightarrow> used x t"
      using R(3,4) by auto
    with False R(2) show ?thesis by (auto simp: trim_recent.simps)
  qed
qed

lemma insert_time_ok:
  fixes e :: rc1_env
  assumes "signer_ok s \<or> sg_recent s = [] \<and> sg_max s = 0" and "sg_floor s < ts" and "ts \<notin> set (sg_recent s)" and "ts \<le> max_time"
  defines "s' \<equiv> insert_time e (fst (binary_search (sg_recent s) ts)) ts s"
  shows "signer_ok s'" and "sg_max s' = max (sg_max s) ts" and "used x s \<or> x = ts \<Longrightarrow> used x s'"
proof -
  have sorted: "sorted_wrt (<) (sg_recent s)" using assms(1) by (auto simp: signer_ok_def)
  let ?lo = "filter (\<lambda>x. x < ts) (sg_recent s)"
  have i: "fst (binary_search (sg_recent s) ts) = length ?lo" by (simp add: binary_search_sorted [OF sorted])
  have tk: "take (length ?lo) (sg_recent s) = ?lo"
    using takeWhile_less_filter [OF sorted, of ts] by (metis takeWhile_eq_take)
  have dr: "drop (length ?lo) (sg_recent s) = filter (\<lambda>x. ts \<le> x) (sg_recent s)"
    using drop_less_filter [OF sorted, of ts] takeWhile_less_filter [OF sorted, of ts] by simp
  have r: "sg_recent s' = ?lo @ ts # filter (\<lambda>x. ts \<le> x) (sg_recent s)"
    by (simp add: s'_def insert_time_def Let_def i tk dr)
  have o: "sg_max s' = max (sg_max s) ts" "sg_floor s' = sg_floor s" by (simp_all add: s'_def insert_time_def Let_def)
  then show "sg_max s' = max (sg_max s) ts" by simp
  have lt: "\<forall>x \<in> set (filter (\<lambda>x. ts \<le> x) (sg_recent s)). ts < x" using assms(3) by (auto simp: order.strict_iff_order)
  have st: "set (sg_recent s') = insert ts (set (sg_recent s))" by (auto simp: r)
  have "sorted_wrt (<) (sg_recent s')"
    unfolding r using sorted_wrt_filter [OF sorted] lt by (auto simp: sorted_wrt_append)
  moreover have "sg_floor s' \<le> sg_max s'" using assms(2) by (simp add: o le_max_iff_disj less_imp_le)
  moreover have "sg_max s' \<le> max_time" using assms(1,4) by (auto simp: o signer_ok_def)
  moreover have "\<forall>x \<in> set (sg_recent s'). sg_floor s' < x \<and> x \<le> sg_max s'"
    using assms(1,2) unfolding st by (auto simp: o signer_ok_def le_max_iff_disj)
  ultimately show "signer_ok s'" by (simp add: signer_ok_def)
  show "used x s \<or> x = ts \<Longrightarrow> used x s'" by (auto simp: used_def st o)
qed

lemma raise_window_ok:
  assumes "signer_ok s"
  shows "signer_ok (raise_window s)" and "used x s \<Longrightarrow> used x (raise_window s)"
    and "sg_max (raise_window s) = sg_max s" and "sg_cap (raise_window s) = sg_cap s"
proof -
  have "signer_ok (raise_window s) \<and> (used x s \<longrightarrow> used x (raise_window s)) \<and> sg_max (raise_window s) = sg_max s \<and>
      sg_cap (raise_window s) = sg_cap s"
  proof (cases "sg_max s > rc1W \<and> sg_max s - rc1W > sg_floor s")
    case True
    then have "sg_max s - rc1W \<le> sg_max s" by (simp add: word_sub_le less_imp_le)
    with True raiseFloor_ok [OF assms, of "sg_max s - rc1W"] show ?thesis by (simp add: raise_window_def less_imp_le)
  next
    case False
    then have "raise_window s = s" by (simp only: raise_window_def if_False)
    with assms show ?thesis by simp
  qed
  then show "signer_ok (raise_window s)" and "used x s \<Longrightarrow> used x (raise_window s)"
    and "sg_max (raise_window s) = sg_max s" and "sg_cap (raise_window s) = sg_cap s" by blast+
qed

section \<open>A part\<close>

definition shard_ok :: "rc1_shard \<Rightarrow> bool" where
  "shard_ok sh \<longleftrightarrow> keys_ok (sh_signers sh) \<and> (\<forall>(a, s) \<in> set (sh_signers sh). signer_ok s)"

definition covered :: "aid \<Rightarrow> u64 \<Rightarrow> rc1_shard \<Rightarrow> bool" where
  "covered a x sh = (case map_of (sh_signers sh) a of None \<Rightarrow> x \<le> sh_gone sh | Some s \<Rightarrow> used x s)"

definition shard_bytes :: "rc1_shard \<Rightarrow> int" where
  "shard_bytes sh = sum_list (map (\<lambda>(a, s). signerBytes a s) (sh_signers sh))"

lemma signers_ok_update: "(\<forall>(a, s) \<in> set t. P s) \<Longrightarrow> P s' \<Longrightarrow> \<forall>(a, s) \<in> set (AList.update a' s' t). P s"
proof (induction t)
  case (Cons x t)
  then show ?case by (cases x) auto
qed simp

lemma bytes_update:
  "sum_list (map (\<lambda>(a, s). f a s) (AList.update a' s' t)) =
    sum_list (map (\<lambda>(a, s). f a s) t) + (case map_of t a' of None \<Rightarrow> f a' s' | Some s \<Rightarrow> f a' s' - (f a' s :: int))"
  by (induction t) auto

text \<open>A request under the lock, with everything it is about.\<close>

lemma acceptLocked_spec:
  assumes run: "acceptLocked e a ts k now sh = (v, sh', d)" and ok: "shard_ok sh"
  shows "shard_ok sh'" and "covered b x sh \<Longrightarrow> covered b x sh'" and "shard_bytes sh' = shard_bytes sh + d"
    and "sh_gone sh' = sh_gone sh" and "sh_swept sh' = sh_swept sh"
    and "v = rc1Accepted \<longleftrightarrow> rc1InWindow e ts now \<and> \<not> covered a ts sh"
    and "v = rc1Accepted \<Longrightarrow> covered a ts sh'"
    and "v \<noteq> rc1Accepted \<Longrightarrow> sh' = sh"
    and "v = rc1Accepted \<Longrightarrow> \<exists>s. sh_signers sh' = AList.update a s (sh_signers sh) \<and>
           int (length (sg_recent s)) \<le> max k 1 \<and>
           sg_max s = (case map_of (sh_signers sh) a of None \<Rightarrow> ts | Some s0 \<Rightarrow> max (sg_max s0) ts)"
proof -
  let ?fresh = "\<lparr>sg_floor = sh_gone sh, sg_max = 0, sg_recent = [], sg_cap = 0\<rparr>"
  define s where "s = (case map_of (sh_signers sh) a of None \<Rightarrow> ?fresh | Some s \<Rightarrow> s)"
  define added where "added = (case map_of (sh_signers sh) a of None \<Rightarrow> signerBytes a ?fresh | Some s \<Rightarrow> 0)"
  have s_ok: "signer_ok s \<or> sg_recent s = [] \<and> sg_max s = 0"
    using ok by (auto simp: s_def shard_ok_def dest!: map_of_SomeD split: option.splits)
  have sorted: "sorted_wrt (<) (sg_recent s)" using s_ok by (auto simp: signer_ok_def)
  note bs = binary_search_sorted [OF sorted, of ts]
  have cov: "covered a ts sh \<longleftrightarrow> ts \<le> sg_floor s \<or> ts \<in> set (sg_recent s)"
    by (auto simp: covered_def s_def used_def split: option.splits)
  have same: "AList.update a s (sh_signers sh) = sh_signers sh" if "map_of (sh_signers sh) a \<noteq> None"
    using that ok by (auto simp: s_def shard_ok_def keys_ok_def intro: update_triv)
  have all: "shard_ok sh' \<and> (\<forall>b x. covered b x sh \<longrightarrow> covered b x sh') \<and> shard_bytes sh' = shard_bytes sh + d \<and>
      sh_gone sh' = sh_gone sh \<and> sh_swept sh' = sh_swept sh \<and>
      (v = rc1Accepted \<longleftrightarrow> rc1InWindow e ts now \<and> \<not> covered a ts sh) \<and> (v = rc1Accepted \<longrightarrow> covered a ts sh') \<and>
      (v \<noteq> rc1Accepted \<longrightarrow> sh' = sh) \<and>
      (v = rc1Accepted \<longrightarrow> (\<exists>s. sh_signers sh' = AList.update a s (sh_signers sh) \<and> int (length (sg_recent s)) \<le> max k 1 \<and>
           sg_max s = (case map_of (sh_signers sh) a of None \<Rightarrow> ts | Some s0 \<Rightarrow> max (sg_max s0) ts)))"
  proof (cases "rc1InWindow e ts now \<and> \<not> covered a ts sh")
    case False
    have "v \<noteq> rc1Accepted \<and> sh' = sh \<and> d = 0"
    proof (cases "rc1InWindow e ts now")
      case True
      with False have c: "covered a ts sh" by simp
      show ?thesis
      proof (cases "map_of (sh_signers sh) a")
        case None
        with c run True show ?thesis by (auto simp: acceptLocked_def covered_def)
      next
        case (Some s0)
        then have "s0 = s" by (simp add: s_def)
        with c cov same run True Some bs show ?thesis
          by (auto simp: acceptLocked_def split: if_splits)
      qed
    qed (use run in \<open>simp add: acceptLocked_def\<close>)
    with False ok show ?thesis by simp
  next
    case True
    then have fl: "sg_floor s < ts" and nin: "ts \<notin> set (sg_recent s)" using cov by (auto simp: not_le)
    have mt: "ts \<le> max_time" using True by (auto simp: rc1InWindow_def split: if_splits)
    define s1 where "s1 = insert_time e (fst (binary_search (sg_recent s) ts)) ts s"
    note I = insert_time_ok [OF s_ok fl nin mt, where e = e, folded s1_def]
    define s2 where "s2 = raise_window s1"
    note W = raise_window_ok [OF I(1), folded s2_def]
    obtain t where t: "trim_recent (length (sg_recent s2)) (max k 1) s2 = Some t" "signer_ok t"
      "int (length (sg_recent t)) \<le> max k 1" "sg_max t = sg_max s2" "\<forall>x. used x s2 \<longrightarrow> used x t"
      using trim_recent_ends [OF W(1), of "max k 1" "length (sg_recent s2)"] by auto
    have lookup: "(case map_of (sh_signers sh) a of
        None \<Rightarrow> if ts \<le> sh_gone sh then Inl (sh_gone sh) else Inr (?fresh, signerBytes a ?fresh)
      | Some s \<Rightarrow> Inr (s, 0)) = Inr (s, added)"
      using True by (auto simp: covered_def s_def added_def split: option.splits)
    have s1: "insert_time e (length (filter (\<lambda>x. x < ts) (sg_recent s))) ts s = s1" by (simp add: s1_def bs)
    have nle: "\<not> ts \<le> sg_floor s" using fl by simp
    have "acceptLocked e a ts k now sh =
        (rc1Accepted, sh\<lparr>sh_signers := AList.update a t (sh_signers sh)\<rparr>, added + (signerBytes a t - signerBytes a s))"
      unfolding acceptLocked_def Let_def lookup
      using True nin nle by (simp add: bs s1 s2_def [symmetric] t(1))
    then have out: "v = rc1Accepted" "sh' = sh\<lparr>sh_signers := AList.update a t (sh_signers sh)\<rparr>"
      "d = added + (signerBytes a t - signerBytes a s)"
      using run by simp_all
    have "shard_ok sh'" using ok t(2) signers_ok_update [of "sh_signers sh" signer_ok] by (auto simp: shard_ok_def out)
    moreover have "\<forall>b x. covered b x sh \<longrightarrow> covered b x sh'"
    proof (intro allI impI)
      fix b x assume c: "covered b x sh"
      show "covered b x sh'"
      proof (cases "b = a")
        case True
        with c have "used x s" by (auto simp: covered_def s_def used_def split: option.splits)
        with I(3) W(2) t(5) True show ?thesis by (simp add: covered_def out map_of_update_eq)
      qed (use c in \<open>simp add: covered_def out map_of_update_eq cong: option.case_cong\<close>)
    qed
    moreover have "covered a ts sh'" using I(3) [of ts] W(2) t(5) by (simp add: covered_def out map_of_update_eq)
    moreover have "shard_bytes sh' = shard_bytes sh + d"
      by (auto simp: shard_bytes_def out bytes_update added_def s_def split: option.splits)
    moreover have "sg_max t = (case map_of (sh_signers sh) a of None \<Rightarrow> ts | Some s0 \<Rightarrow> max (sg_max s0) ts)"
      using t(4) W(3) I(2) by (auto simp: s_def split: option.splits)
    ultimately show ?thesis using True t(3) by (auto simp: out)
  qed
  then show "shard_ok sh'" and "covered b x sh \<Longrightarrow> covered b x sh'" and "shard_bytes sh' = shard_bytes sh + d"
    and "sh_gone sh' = sh_gone sh" and "sh_swept sh' = sh_swept sh"
    and "v = rc1Accepted \<longleftrightarrow> rc1InWindow e ts now \<and> \<not> covered a ts sh"
    and "v = rc1Accepted \<Longrightarrow> covered a ts sh'" and "v \<noteq> rc1Accepted \<Longrightarrow> sh' = sh"
    and "v = rc1Accepted \<Longrightarrow> \<exists>s. sh_signers sh' = AList.update a s (sh_signers sh) \<and> int (length (sg_recent s)) \<le> max k 1 \<and>
           sg_max s = (case map_of (sh_signers sh) a of None \<Rightarrow> ts | Some s0 \<Rightarrow> max (sg_max s0) ts)"
    by blast+
qed

section \<open>Sweeping\<close>

lemma foldl_max_ge: "(g :: u64) \<le> foldl (\<lambda>g (_, s). max g (f s)) g xs" "(a, s) \<in> set xs \<Longrightarrow> f s \<le> foldl (\<lambda>g (_, s). max g (f s)) g xs"
proof -
  show ge: "g \<le> foldl (\<lambda>g (_, s). max g (f s)) g xs" for g xs
    by (induction xs arbitrary: g) (auto intro: order_trans [OF max.cobounded1])
  show "(a, s) \<in> set xs \<Longrightarrow> f s \<le> foldl (\<lambda>g (_, s). max g (f s)) g xs"
  proof (induction xs arbitrary: g)
    case (Cons x xs)
    then show ?case using ge [of "max g (f s)" xs] by (auto intro: order_trans [OF max.cobounded2])
  qed simp
qed

lemma foldl_max_in: "foldl (\<lambda>g (_, s). max g (f s)) (g :: u64) xs = g \<or> (\<exists>(a, s) \<in> set xs. foldl (\<lambda>g (_, s). max g (f s)) g xs = f s)"
proof (induction xs arbitrary: g)
  case (Cons x xs)
  obtain a s where x: "x = (a, s)" by force
  from Cons.IH [of "max g (f s)"] show ?case by (auto simp: x max_def split: if_splits)
qed simp

lemma sweepLocked_spec:
  assumes run: "sweepLocked e now sh = (sh', d)" and ok: "shard_ok sh"
  shows "shard_ok sh'" and "covered b x sh \<Longrightarrow> covered b x sh'" and "shard_bytes sh' = shard_bytes sh + d"
    and "sh_gone sh' = sh_gone sh \<or> (0 < now - Skew e \<and> sh_gone sh' < word_of_int (now - Skew e))"
    and "map_of (sh_signers sh') b = Some s \<Longrightarrow> map_of (sh_signers sh) b = Some s"
    and "sh_gone sh \<le> sh_gone sh'"
proof -
  let ?gone = "filter (\<lambda>(_, s). sweep_drops e now s) (sh_signers sh)"
  have out: "sh_signers sh' = filter (\<lambda>(_, s). \<not> sweep_drops e now s) (sh_signers sh)"
    "sh_gone sh' = foldl (\<lambda>g (_, s). max g (sg_top s)) (sh_gone sh) ?gone"
    "d = - sum_list (map (\<lambda>(a, s). signerBytes a s) ?gone)"
    using run by (auto simp: sweepLocked_def Let_def)
  have keys: "keys_ok (sh_signers sh)" using ok by (simp add: shard_ok_def)
  have look: "map_of (sh_signers sh') b = (case map_of (sh_signers sh) b of None \<Rightarrow> None
      | Some s \<Rightarrow> if \<not> sweep_drops e now s then Some s else None)" for b
    using map_of_filter_keys [OF keys, of "\<lambda>_ s. \<not> sweep_drops e now s" b] by (simp add: out)
  show "shard_ok sh'" using ok by (auto simp: shard_ok_def out)
  show "sh_gone sh \<le> sh_gone sh'" unfolding out by (rule foldl_max_ge(1))
  show "map_of (sh_signers sh') b = Some s \<Longrightarrow> map_of (sh_signers sh) b = Some s"
    by (auto simp: look split: option.splits if_splits)
  show "covered b x sh \<Longrightarrow> covered b x sh'"
  proof -
    assume c: "covered b x sh"
    show "covered b x sh'"
    proof (cases "map_of (sh_signers sh) b")
      case None
      with c have "x \<le> sh_gone sh" by (simp add: covered_def)
      then have "x \<le> sh_gone sh'" using foldl_max_ge(1) order_trans unfolding out by blast
      with None show ?thesis by (simp add: covered_def look)
    next
      case (Some s)
      show ?thesis
      proof (cases "sweep_drops e now s")
        case True
        have "(b, s) \<in> set (sh_signers sh)" using Some by (rule map_of_SomeD)
        then have "(b, s) \<in> set ?gone" "signer_ok s" using True ok by (auto simp: shard_ok_def)
        then have "sg_top s \<le> sh_gone sh'" using foldl_max_ge(2) [of b s ?gone sg_top] by (simp add: out)
        moreover have "x \<le> sg_top s" using c Some \<open>signer_ok s\<close>
          by (auto simp: covered_def used_def sg_top_def signer_ok_def le_max_iff_disj)
        ultimately show ?thesis using Some True by (simp add: covered_def look)
      qed (use c Some in \<open>simp add: covered_def look\<close>)
    qed
  qed
  show "shard_bytes sh' = shard_bytes sh + d"
  proof -
    have "sum_list (map f (filter P xs)) + sum_list (map f (filter (\<lambda>x. \<not> P x) xs)) = (sum_list (map f xs) :: int)"
      for f :: "'q \<Rightarrow> int" and P xs by (induction xs) auto
    from this [of "\<lambda>(a, s). signerBytes a s" "\<lambda>(_, s). sweep_drops e now s" "sh_signers sh"] show ?thesis
      by (simp add: shard_bytes_def out case_prod_unfold)
  qed
  show "sh_gone sh' = sh_gone sh \<or> (0 < now - Skew e \<and> sh_gone sh' < word_of_int (now - Skew e))"
    using foldl_max_in [of sg_top "sh_gone sh" ?gone] unfolding out [symmetric]
    by (auto simp: sweep_drops_def)
qed

lemma demote_ok:
  assumes "signer_ok s"
  shows "signer_ok (demote s)" and "used x s \<Longrightarrow> used x (demote s)" and "sg_max (demote s) = sg_max s"
  using assms by (auto simp: demote_def signer_ok_def used_def le_max_iff_disj)

end
