(* ===== verification/Signed_Times_Machine.thy ===== *)
theory Signed_Times_Machine
  imports Signed_Times_Laws
begin

text \<open>
  RC1 over time. Requests, sweeps and the valve interleave: each holds the lock of one part at a
  time, so a step is what one of them does under one lock. \<open>rw_log\<close> is every time accepted so far and
  \<open>rw_now\<close> the latest clock any of them read; neither is read by the code. The clock of a step is any:
  it may step back.
\<close>

section \<open>Steps\<close>

record rc1_world =
  rw_state :: rc1_state
  rw_log :: "(aid \<times> u64) list"
  rw_now :: millis

definition request_at :: "rc1_env \<Rightarrow> aid \<Rightarrow> u64 \<Rightarrow> int \<Rightarrow> millis \<Rightarrow> rc1_state \<Rightarrow> rc1_state \<times> rc1_verdict" where
  "request_at e a ts k now r =
    (case acceptLocked e a ts k now (rc_shards r ! shard_of e a r) of (v, sh, d) \<Rightarrow>
      (put_shard (shard_of e a r) (sh, d) r, v))"

definition log_verdict :: "aid \<Rightarrow> u64 \<Rightarrow> rc1_verdict \<Rightarrow> (aid \<times> u64) list \<Rightarrow> (aid \<times> u64) list" where
  "log_verdict a ts v l = (if v = rc1Accepted then (a, ts) # l else l)"

inductive rc1_step :: "rc1_env \<Rightarrow> rc1_world \<Rightarrow> rc1_world \<Rightarrow> bool" for e :: rc1_env where
  rc1_request: "request_at e a ts k now (rw_state w) = (r', v) \<Longrightarrow>
     rc1_step e w \<lparr>rw_state = r', rw_log = log_verdict a ts v (rw_log w), rw_now = max (rw_now w) now\<rparr>"
| rc1_sweep: "i < length (rc_shards (rw_state w)) \<Longrightarrow>
     rc1_step e w (w\<lparr>rw_state := sweep_shard e now i (rw_state w), rw_now := max (rw_now w) now\<rparr>)"
| rc1_demote: "i < length (rc_shards (rw_state w)) \<Longrightarrow> rc1_step e w (w\<lparr>rw_state := demote_at i a (rw_state w)\<rparr>)"
| rc1_book: "rc1_step e w (w\<lparr>rw_state := (rw_state w)\<lparr>rc_next := n, rc_next_valve := v, rc_logged := l\<rparr>\<rparr>)"

inductive rc1_reachable :: "rc1_env \<Rightarrow> millis \<Rightarrow> rc1_world \<Rightarrow> bool" for e :: rc1_env and start :: millis where
  rc1_start: "0 < shards \<Longrightarrow>
     rc1_reachable e start \<lparr>rw_state = newRC1 start shards high low, rw_log = [], rw_now = start\<rparr>"
| rc1_next: "rc1_reachable e start w \<Longrightarrow> rc1_step e w w' \<Longrightarrow> rc1_reachable e start w'"

section \<open>The invariant\<close>

definition all_bytes :: "rc1_state \<Rightarrow> int" where
  "all_bytes r = sum_list (map shard_bytes (rc_shards r))"

definition gone_ok :: "rc1_env \<Rightarrow> millis \<Rightarrow> millis \<Rightarrow> rc1_shard \<Rightarrow> bool" where
  "gone_ok e start latest sh \<longleftrightarrow> uint (sh_gone sh) \<le> max (start - 1) 0 \<or> uint (sh_gone sh) < latest - Skew e"

definition maxima_ok :: "(aid \<times> u64) list \<Rightarrow> rc1_shard \<Rightarrow> bool" where
  "maxima_ok l sh \<longleftrightarrow> (\<forall>(a, s) \<in> set (sh_signers sh). (a, sg_max s) \<in> set l)"

definition rc1_ok :: "rc1_env \<Rightarrow> millis \<Rightarrow> rc1_world \<Rightarrow> bool" where
  "rc1_ok e start w \<longleftrightarrow> rc_shards (rw_state w) \<noteq> [] \<and> rc_bytes (rw_state w) = all_bytes (rw_state w) \<and>
     distinct (rw_log w) \<and>
     (\<forall>(a, x) \<in> set (rw_log w). covered a x (rc_shards (rw_state w) ! shard_of e a (rw_state w))) \<and>
     (\<forall>sh \<in> set (rc_shards (rw_state w)). shard_ok sh \<and> gone_ok e start (rw_now w) sh \<and> maxima_ok (rw_log w) sh)"

lemma put_shard_sel [simp]:
  "rc_shards (put_shard i (sh, d) r) = (rc_shards r)[i := sh]" "rc_bytes (put_shard i (sh, d) r) = rc_bytes r + d"
  "shard_of e a (put_shard i (sh, d) r) = shard_of e a r"
  by (simp_all add: put_shard_def shard_of_def)

lemma shard_of_bound: "rc_shards r \<noteq> [] \<Longrightarrow> shard_of e a r < length (rc_shards r)"
  by (simp add: shard_of_def)

lemma sum_list_list_update:
  "i < length xs \<Longrightarrow> sum_list (xs[i := y]) = sum_list xs - xs ! i + (y :: int)"
proof (induction xs arbitrary: i)
  case (Cons x xs)
  then show ?case by (cases i) auto
qed simp

lemma in_updateD: "(b, t) \<in> set (AList.update a s xs) \<Longrightarrow> (b, t) = (a, s) \<or> (b, t) \<in> set xs"
  by (induction xs) (auto split: if_splits)

lemma maxima_update:
  assumes "maxima_ok l sh" and "sh_signers sh' = AList.update a s (sh_signers sh)" and "(a, sg_max s) \<in> set l'"
    and "set l \<subseteq> set l'"
  shows "maxima_ok l' sh'"
  unfolding maxima_ok_def assms(2)
  using assms(1,3,4) by (auto simp: maxima_ok_def dest!: in_updateD)

lemma part_ok_mono:
  "gone_ok e start n sh \<Longrightarrow> n \<le> n' \<Longrightarrow> gone_ok e start n' sh" "maxima_ok l sh \<Longrightarrow> set l \<subseteq> set l' \<Longrightarrow> maxima_ok l' sh"
  by (auto simp: gone_ok_def maxima_ok_def)

lemma world_update:
  "w\<lparr>rw_state := r, rw_now := n\<rparr> = \<lparr>rw_state = r, rw_log = rw_log w, rw_now = n\<rparr>"
  "w\<lparr>rw_state := r\<rparr> = \<lparr>rw_state = r, rw_log = rw_log w, rw_now = rw_now w\<rparr>"
  by simp_all

lemma put_shard_bytes:
  "i < length (rc_shards r) \<Longrightarrow> all_bytes (put_shard i (sh, d) r) = all_bytes r + shard_bytes sh - shard_bytes (rc_shards r ! i)"
  by (simp add: all_bytes_def map_update sum_list_list_update)

text \<open>Replacing one part by one that is no worse.\<close>

lemma rc1_ok_put:
  assumes ok: "rc1_ok e start w" and i: "i < length (rc_shards (rw_state w))"
    and sh: "shard_ok sh" "\<And>b x. covered b x (rc_shards (rw_state w) ! i) \<Longrightarrow> covered b x sh"
      "shard_bytes sh = shard_bytes (rc_shards (rw_state w) ! i) + d" "gone_ok e start n sh" "maxima_ok l sh"
    and n: "rw_now w \<le> n" and l: "distinct l" "set (rw_log w) \<subseteq> set l"
      "\<forall>(a, x) \<in> set l - set (rw_log w). shard_of e a (rw_state w) = i \<and> covered a x sh"
  shows "rc1_ok e start \<lparr>rw_state = put_shard i (sh, d) (rw_state w), rw_log = l, rw_now = n\<rparr>"
proof -
  let ?r = "rw_state w"
  have cov: "covered a x ((rc_shards ?r)[i := sh] ! shard_of e a ?r)" if "(a, x) \<in> set l" for a x
  proof (cases "(a, x) \<in> set (rw_log w)")
    case True
    then have "covered a x (rc_shards ?r ! shard_of e a ?r)" using ok by (auto simp: rc1_ok_def)
    with sh(2) i show ?thesis by (cases "shard_of e a ?r = i") auto
  next
    case False
    with that l(3) have "shard_of e a ?r = i \<and> covered a x sh" by blast
    with i show ?thesis by simp
  qed
  have set: "shard_ok sh' \<and> gone_ok e start n sh' \<and> maxima_ok l sh'" if "sh' \<in> set ((rc_shards ?r)[i := sh])" for sh'
  proof -
    have "sh' = sh \<or> sh' \<in> set (rc_shards ?r)" using that set_update_subset_insert by fastforce
    then show ?thesis
    proof
      assume "sh' \<in> set (rc_shards ?r)"
      with ok have "shard_ok sh'" "gone_ok e start (rw_now w) sh'" "maxima_ok (rw_log w) sh'" by (auto simp: rc1_ok_def)
      with part_ok_mono n l(2) show ?thesis by blast
    qed (use sh in simp)
  qed
  have "rc_bytes (put_shard i (sh, d) ?r) = all_bytes (put_shard i (sh, d) ?r)"
    using ok i sh(3) by (simp add: put_shard_bytes rc1_ok_def)
  with ok cov set l(1) show ?thesis by (auto simp: rc1_ok_def)
qed

lemma request_ok:
  assumes ok: "rc1_ok e start w" and run: "request_at e a ts k now (rw_state w) = (r', v)"
  shows "rc1_ok e start \<lparr>rw_state = r', rw_log = log_verdict a ts v (rw_log w), rw_now = max (rw_now w) now\<rparr>"
    and "v = rc1Accepted \<longleftrightarrow> rc1InWindow e ts now \<and> \<not> covered a ts (rc_shards (rw_state w) ! shard_of e a (rw_state w))"
proof -
  let ?i = "shard_of e a (rw_state w)"
  let ?sh = "rc_shards (rw_state w) ! ?i"
  have i: "?i < length (rc_shards (rw_state w))" using ok by (auto simp: rc1_ok_def intro: shard_of_bound)
  then have sok: "shard_ok ?sh" "gone_ok e start (rw_now w) ?sh" "maxima_ok (rw_log w) ?sh" using ok by (auto simp: rc1_ok_def)
  obtain sh' d where acc: "acceptLocked e a ts k now ?sh = (v, sh', d)" and r': "r' = put_shard ?i (sh', d) (rw_state w)"
    using run by (auto simp: request_at_def split: prod.splits)
  note S = acceptLocked_spec [OF acc sok(1)]
  show "v = rc1Accepted \<longleftrightarrow> rc1InWindow e ts now \<and> \<not> covered a ts ?sh" by (rule S(6))
  have new: "(a, ts) \<notin> set (rw_log w)" if "v = rc1Accepted" using S(6) that ok by (auto simp: rc1_ok_def)
  have maxima: "maxima_ok (log_verdict a ts v (rw_log w)) sh'"
  proof (cases "v = rc1Accepted")
    case True
    then obtain s where s: "sh_signers sh' = AList.update a s (sh_signers ?sh)"
      "sg_max s = (case map_of (sh_signers ?sh) a of None \<Rightarrow> ts | Some s0 \<Rightarrow> max (sg_max s0) ts)" using S(9) by blast
    have "(a, sg_max s) \<in> set ((a, ts) # rw_log w)"
      using s(2) sok(3) by (auto simp: maxima_ok_def max_def dest!: map_of_SomeD split: option.splits)
    then show ?thesis by (intro maxima_update [OF sok(3) s(1)]) (auto simp: True log_verdict_def)
  next
    case False
    with S(8) sok(3) show ?thesis by (simp add: log_verdict_def)
  qed
  have g: "gone_ok e start (max (rw_now w) now) sh'" using sok(2) S(4) by (auto simp: gone_ok_def)
  show "rc1_ok e start \<lparr>rw_state = r', rw_log = log_verdict a ts v (rw_log w), rw_now = max (rw_now w) now\<rparr>"
    unfolding r'
  proof (rule rc1_ok_put [OF ok i S(1) S(2) S(3) g maxima])
    show "distinct (log_verdict a ts v (rw_log w))" using ok new by (simp add: log_verdict_def rc1_ok_def)
    show "set (rw_log w) \<subseteq> set (log_verdict a ts v (rw_log w))" by (auto simp: log_verdict_def)
    show "\<forall>(b, x) \<in> set (log_verdict a ts v (rw_log w)) - set (rw_log w). shard_of e b (rw_state w) = ?i \<and> covered b x sh'"
      using S(7) by (auto simp: log_verdict_def)
  qed simp_all
qed

lemma sweep_ok:
  assumes ok: "rc1_ok e start w" and i: "i < length (rc_shards (rw_state w))"
  shows "rc1_ok e start (w\<lparr>rw_state := sweep_shard e now i (rw_state w), rw_now := max (rw_now w) now\<rparr>)"
proof -
  let ?sh = "rc_shards (rw_state w) ! i"
  have sok: "shard_ok ?sh" "gone_ok e start (rw_now w) ?sh" "maxima_ok (rw_log w) ?sh" using ok i by (auto simp: rc1_ok_def)
  obtain sh' d where sw: "sweepLocked e now ?sh = (sh', d)" by force
  note S = sweepLocked_spec [OF sw sok(1)]
  have g: "gone_ok e start (max (rw_now w) now) sh'"
  proof (rule disjE [OF S(4)])
    assume "sh_gone sh' = sh_gone ?sh"
    with sok(2) show ?thesis by (auto simp: gone_ok_def)
  next
    assume g: "0 < now - Skew e \<and> sh_gone sh' < word_of_int (now - Skew e)"
    have "uint (word_of_int (now - Skew e) :: u64) \<le> now - Skew e"
      unfolding uint_word_of_int using g by (intro zmod_le_nonneg_dividend) simp
    moreover have "uint (sh_gone sh') < uint (word_of_int (now - Skew e) :: u64)" using g by (simp add: word_less_def)
    ultimately have "uint (sh_gone sh') < now - Skew e" by linarith
    then show ?thesis by (auto simp: gone_ok_def)
  qed
  have k: "keys_ok (sh_signers sh')" using S(1) by (simp add: shard_ok_def)
  have "maxima_ok (rw_log w) sh'" unfolding maxima_ok_def
  proof clarify
    fix b s assume "(b, s) \<in> set (sh_signers sh')"
    then have "map_of (sh_signers sh') b = Some s" using k by (simp add: keys_ok_def)
    then have "(b, s) \<in> set (sh_signers ?sh)" using S(5) map_of_SomeD by metis
    with sok(3) show "(b, sg_max s) \<in> set (rw_log w)" by (auto simp: maxima_ok_def)
  qed
  from rc1_ok_put [OF ok i S(1) S(2) S(3) g this] ok show ?thesis
    unfolding sweep_shard_def sw world_update by (simp add: rc1_ok_def [of e start w])
qed

lemma demote_ok_at:
  assumes ok: "rc1_ok e start w" and i: "i < length (rc_shards (rw_state w))"
  shows "rc1_ok e start (w\<lparr>rw_state := demote_at i a (rw_state w)\<rparr>)"
proof (cases "map_of (sh_signers (rc_shards (rw_state w) ! i)) a")
  case None
  with ok show ?thesis by (simp add: demote_at_def)
next
  case (Some s)
  let ?sh = "rc_shards (rw_state w) ! i"
  let ?sh' = "?sh\<lparr>sh_signers := AList.update a (demote s) (sh_signers ?sh)\<rparr>"
  have sok: "shard_ok ?sh" "gone_ok e start (rw_now w) ?sh" "maxima_ok (rw_log w) ?sh" using ok i by (auto simp: rc1_ok_def)
  have "signer_ok s" using Some sok(1) by (auto simp: shard_ok_def dest: map_of_SomeD)
  note D = demote_ok [OF this]
  have 1: "shard_ok ?sh'" using sok(1) D(1) signers_ok_update [of "sh_signers ?sh" signer_ok] by (auto simp: shard_ok_def)
  have 2: "covered b x ?sh \<Longrightarrow> covered b x ?sh'" for b x
    using Some D(2) by (auto simp: covered_def map_of_update_eq split: option.splits)
  have 3: "shard_bytes ?sh' = shard_bytes ?sh + (signerBytes a (demote s) - signerBytes a s)"
    by (simp add: shard_bytes_def bytes_update Some)
  have 4: "gone_ok e start (rw_now w) ?sh'" using sok(2) by (simp add: gone_ok_def)
  have 5: "maxima_ok (rw_log w) ?sh'"
  proof -
    have "(a, sg_max s) \<in> set (rw_log w)" using Some sok(3) by (auto simp: maxima_ok_def dest: map_of_SomeD)
    then show ?thesis by (intro maxima_update [OF sok(3), of _ a "demote s"]) (simp_all add: D(3))
  qed
  have "demote_at i a (rw_state w) = put_shard i (?sh', signerBytes a (demote s) - signerBytes a s) (rw_state w)"
    by (simp add: demote_at_def Let_def Some)
  with rc1_ok_put [OF ok i 1 2 3 4 5] ok show ?thesis
    unfolding world_update by (simp add: rc1_ok_def [of e start w])
qed

lemma rc1_step_ok: "rc1_step e w w' \<Longrightarrow> rc1_ok e start w \<Longrightarrow> rc1_ok e start w'"
proof (induction rule: rc1_step.induct)
  case (rc1_book w n v l)
  then show ?case by (simp add: rc1_ok_def all_bytes_def shard_of_def)
qed (auto intro: request_ok sweep_ok demote_ok_at)

lemma rc1_reachable_ok: "rc1_reachable e start w \<Longrightarrow> rc1_ok e start w"
proof (induction rule: rc1_reachable.induct)
  case (rc1_start shards high low)
  have "uint (word_of_int (max (start - 1) 0) :: u64) \<le> max (start - 1) 0"
    unfolding uint_word_of_int by (rule zmod_le_nonneg_dividend) simp
  with rc1_start show ?case
    by (auto simp: rc1_ok_def newRC1_def all_bytes_def shard_bytes_def shard_ok_def gone_ok_def maxima_ok_def sum_list_replicate)
qed (rule rc1_step_ok)

section \<open>What is accepted\<close>

lemma window_bound: "rc1InWindow e ts now \<Longrightarrow> now - Skew e \<le> uint ts"
  by (auto simp: rc1InWindow_def Let_def split: if_splits)

lemma above_all_not_covered:
  assumes ok: "rc1_ok e start w" and start: "1 \<le> start" "start \<le> uint ts" and now: "rw_now w \<le> now"
    and win: "rc1InWindow e ts now" and above: "\<forall>x. (a, x) \<in> set (rw_log w) \<longrightarrow> x < ts"
  shows "\<not> covered a ts (rc_shards (rw_state w) ! shard_of e a (rw_state w))"
proof -
  let ?sh = "rc_shards (rw_state w) ! shard_of e a (rw_state w)"
  have "?sh \<in> set (rc_shards (rw_state w))" using ok by (intro nth_mem shard_of_bound) (simp add: rc1_ok_def)
  then have sok: "shard_ok ?sh" "gone_ok e start (rw_now w) ?sh" "maxima_ok (rw_log w) ?sh" using ok by (auto simp: rc1_ok_def)
  show ?thesis
  proof (cases "map_of (sh_signers ?sh) a")
    case None
    have "uint (sh_gone ?sh) < uint ts" using sok(2) start now window_bound [OF win] by (auto simp: gone_ok_def)
    with None show ?thesis by (simp add: covered_def word_le_def)
  next
    case (Some s)
    then have s: "(a, s) \<in> set (sh_signers ?sh)" by (rule map_of_SomeD)
    then have "signer_ok s" "sg_max s < ts" using sok above by (auto simp: shard_ok_def maxima_ok_def)
    then have "\<not> used ts s" by (auto simp: signer_ok_def used_def)
    with Some show ?thesis by (simp add: covered_def)
  qed
qed

section \<open>The whole operation is a run of steps\<close>

lemma put_shard_length [simp]: "length (rc_shards (put_shard i x r)) = length (rc_shards r)"
  by (simp add: put_shard_def split: prod.split)

lemma sweep_shard_length [simp]: "length (rc_shards (sweep_shard e now i r)) = length (rc_shards r)"
  by (simp add: sweep_shard_def)

lemma demote_at_length [simp]: "length (rc_shards (demote_at i a r)) = length (rc_shards r)"
  by (simp add: demote_at_def Let_def split: option.split)

abbreviation rc1_run :: "rc1_env \<Rightarrow> rc1_world \<Rightarrow> rc1_world \<Rightarrow> bool" where
  "rc1_run e \<equiv> rtranclp (rc1_step e)"

lemma run_sweep:
  assumes "i < length (rc_shards r)"
  shows "rc1_run e \<lparr>rw_state = r, rw_log = l, rw_now = max n now\<rparr>
    \<lparr>rw_state = sweep_shard e now i r, rw_log = l, rw_now = max n now\<rparr>"
  using rc1_sweep [of i "\<lparr>rw_state = r, rw_log = l, rw_now = max n now\<rparr>" e now] assms by auto

lemma run_sweeps:
  "\<forall>i \<in> set is. i < length (rc_shards r) \<Longrightarrow>
    rc1_run e \<lparr>rw_state = r, rw_log = l, rw_now = max n now\<rparr>
      \<lparr>rw_state = foldl (\<lambda>r i. sweep_shard e now i r) r is, rw_log = l, rw_now = max n now\<rparr>"
proof (induction "is" arbitrary: r)
  case (Cons i "is")
  have "rc1_run e \<lparr>rw_state = r, rw_log = l, rw_now = max n now\<rparr>
      \<lparr>rw_state = sweep_shard e now i r, rw_log = l, rw_now = max n now\<rparr>" by (rule run_sweep) (use Cons.prems in simp)
  also have "rc1_run e \<dots> \<lparr>rw_state = foldl (\<lambda>r i. sweep_shard e now i r) (sweep_shard e now i r) is, rw_log = l, rw_now = max n now\<rparr>"
    by (rule Cons.IH) (use Cons.prems in simp)
  finally show ?case by simp
qed simp

lemma run_demotes:
  "\<forall>(_, a, i) \<in> set c. i < length (rc_shards r) \<Longrightarrow>
    rc1_run e \<lparr>rw_state = r, rw_log = l, rw_now = n\<rparr> \<lparr>rw_state = demote_loop c r, rw_log = l, rw_now = n\<rparr>"
proof (induction c r rule: demote_loop.induct)
  case (2 x a i c r)
  show ?case
  proof (cases "rc_bytes r < rc_low r")
    case False
    have "rc1_step e \<lparr>rw_state = r, rw_log = l, rw_now = n\<rparr> \<lparr>rw_state = demote_at i a r, rw_log = l, rw_now = n\<rparr>"
      using rc1_demote [of i "\<lparr>rw_state = r, rw_log = l, rw_now = n\<rparr>" e a] "2.prems" by auto
    moreover have "rc1_run e \<lparr>rw_state = demote_at i a r, rw_log = l, rw_now = n\<rparr>
        \<lparr>rw_state = demote_loop c (demote_at i a r), rw_log = l, rw_now = n\<rparr>"
      by (rule "2.IH" [OF False]) (use "2.prems" in auto)
    ultimately have "rc1_run e \<lparr>rw_state = r, rw_log = l, rw_now = n\<rparr>
        \<lparr>rw_state = demote_loop c (demote_at i a r), rw_log = l, rw_now = n\<rparr>" by (rule converse_rtranclp_into_rtranclp)
    with False show ?thesis by simp
  qed simp
qed simp

lemma run_book:
  "rc1_run e \<lparr>rw_state = r, rw_log = l, rw_now = n\<rparr> \<lparr>rw_state = r\<lparr>rc_next := x, rc_next_valve := y, rc_logged := z\<rparr>, rw_log = l, rw_now = n\<rparr>"
  using rc1_book [of e "\<lparr>rw_state = r, rw_log = l, rw_now = n\<rparr>", where n = x and v = y and l = z] by auto

lemma foldl_sweeps_length [simp]: "length (rc_shards (foldl (\<lambda>r i. sweep_shard e now i r) r is)) = length (rc_shards r)"
  by (induction "is" arbitrary: r) simp_all

lemma idle_bound: "(x, a, i) \<in> set (idle_list r) \<Longrightarrow> i < length (rc_shards r)"
  by (auto simp: idle_list_def)

lemma run_relieve:
  "rc1_run e \<lparr>rw_state = r, rw_log = l, rw_now = max n now\<rparr> \<lparr>rw_state = relieve e first now r, rw_log = l, rw_now = max n now\<rparr>"
proof (cases "rc_bytes r \<le> rc_high r \<or> now < rc_next_valve r \<or> \<not> first")
  case True
  then have "relieve e first now r = r" by (simp only: relieve_def if_True)
  then show ?thesis by simp
next
  case False
  define r1 where "r1 = foldl (\<lambda>r i. sweep_shard e now i r) r [0..<length (rc_shards r)]"
  define c where "c = (if rc_bytes r1 \<ge> rc_low r1 then sort_key fst (idle_list r1) else [])"
  define r2 where "r2 = demote_loop c r1"
  have "rc1_run e \<lparr>rw_state = r, rw_log = l, rw_now = max n now\<rparr> \<lparr>rw_state = r1, rw_log = l, rw_now = max n now\<rparr>"
    unfolding r1_def by (rule run_sweeps) simp
  also have "rc1_run e \<dots> \<lparr>rw_state = r2, rw_log = l, rw_now = max n now\<rparr>"
    unfolding r2_def by (rule run_demotes) (auto simp: c_def dest: idle_bound)
  also have "rc1_run e \<dots> \<lparr>rw_state = relieve e first now r, rw_log = l, rw_now = max n now\<rparr>"
  proof -
    have rel: "relieve e first now r = (if rc_bytes r2 \<ge> rc_low r2
        then r2\<lparr>rc_next_valve := now + rc1ValveEvery,
               rc_logged := (if rc_logged r2 = 0 \<or> now - rc_logged r2 \<ge> rc1ValveLogEvery then now else rc_logged r2)\<rparr>
        else r2)"
      using False unfolding relieve_def by (simp only: if_False Let_def r1_def [symmetric] c_def [symmetric] r2_def [symmetric])
    show ?thesis
      using run_book [of e r2 l "max n now", where x = "rc_next r2"] unfolding rel
      by (cases "rc_bytes r2 \<ge> rc_low r2") auto
  qed
  finally show ?thesis .
qed

lemma accept_is_run:
  assumes run: "accept e free first a ts k now r = (r', v)" and ne: "rc_shards r \<noteq> []"
  shows "rc1_run e \<lparr>rw_state = r, rw_log = l, rw_now = n\<rparr> \<lparr>rw_state = r', rw_log = log_verdict a ts v l, rw_now = max n now\<rparr>"
proof -
  let ?l = "log_verdict a ts v l"
  obtain r1 v1 where req: "request_at e a ts k now r = (r1, v1)" by force
  let ?i = "shard_of e a r"
  define r2 where "r2 = (if sweep_due now (rc_shards r1 ! ?i) then sweep_shard e now ?i r1 else r1)"
  have len: "length (rc_shards r1) = length (rc_shards r)" using req by (auto simp: request_at_def split: prod.splits)
  have at: "accept_at e a ts k now r = (r2, v1)"
    using req shard_of_bound [OF ne, of e a]
    by (auto simp: accept_at_def request_at_def r2_def Let_def split: prod.splits)
  have out: "v = v1" "r' = relieve e first now (sweepNext e free now r2)" using run at by (auto simp: accept_def)
  have "rc1_run e \<lparr>rw_state = r, rw_log = l, rw_now = n\<rparr> \<lparr>rw_state = r1, rw_log = ?l, rw_now = max n now\<rparr>"
    using rc1_request [of e a ts k now "\<lparr>rw_state = r, rw_log = l, rw_now = n\<rparr>" r1 v1] req out(1) by auto
  also have "rc1_run e \<dots> \<lparr>rw_state = r2, rw_log = ?l, rw_now = max n now\<rparr>"
    using run_sweep [of ?i r1] shard_of_bound [OF ne, of e a] len by (auto simp: r2_def)
  also have "rc1_run e \<dots> \<lparr>rw_state = sweepNext e free now r2, rw_log = ?l, rw_now = max n now\<rparr>"
  proof -
    let ?r = "r2\<lparr>rc_next := rc_next r2 + 1\<rparr>"
    have "length (rc_shards r2) = length (rc_shards r)" by (simp add: r2_def len)
    with ne have "rc_shards r2 \<noteq> []" by (metis list.size(3) length_0_conv)
    then have i: "unat (rc_next ?r) mod length (rc_shards ?r) < length (rc_shards ?r)" by simp
    have "rc1_run e \<lparr>rw_state = r2, rw_log = ?l, rw_now = max n now\<rparr> \<lparr>rw_state = ?r, rw_log = ?l, rw_now = max n now\<rparr>"
      using run_book [of e r2 ?l "max n now", where x = "rc_next r2 + 1" and y = "rc_next_valve r2" and z = "rc_logged r2"]
      by simp
    also have "rc1_run e \<dots> \<lparr>rw_state = sweepNext e free now r2, rw_log = ?l, rw_now = max n now\<rparr>"
    proof (cases "free \<and> sweep_due now (rc_shards ?r ! (unat (rc_next ?r) mod length (rc_shards ?r)))")
      case True
      then have "sweepNext e free now r2 = sweep_shard e now (unat (rc_next ?r) mod length (rc_shards ?r)) ?r"
        unfolding sweepNext_def Let_def by (rule if_P)
      then show ?thesis using run_sweep [OF i] by (simp only:)
    next
      case False
      then have "sweepNext e free now r2 = ?r" unfolding sweepNext_def Let_def by (rule if_not_P)
      then show ?thesis by (simp only: rtranclp.rtrancl_refl)
    qed
    finally show ?thesis .
  qed
  also have "rc1_run e \<dots> \<lparr>rw_state = r', rw_log = ?l, rw_now = max n now\<rparr>" unfolding out(2) by (rule run_relieve)
  finally show ?thesis .
qed

lemma accept_verdict:
  assumes "accept e free first a ts k now r = (r', v)"
  shows "snd (request_at e a ts k now r) = v"
  using assms by (auto simp: accept_def accept_at_def request_at_def Let_def split: prod.splits)

section \<open>The valve\<close>

definition signer_at :: "rc1_state \<Rightarrow> nat \<Rightarrow> aid \<Rightarrow> rc1_signer option" where
  "signer_at r i a = map_of (sh_signers (rc_shards r ! i)) a"

lemma signer_at_demote:
  "i < length (rc_shards r) \<Longrightarrow> j < length (rc_shards r) \<Longrightarrow>
    signer_at (demote_at j b r) i a = (if i = j \<and> a = b then map_option demote (signer_at r i a) else signer_at r i a)"
  by (auto simp: signer_at_def demote_at_def Let_def map_of_update_eq nth_list_update split: option.split)

lemma demote_at_low [simp]: "rc_low (demote_at i a r) = rc_low r"
  by (simp add: demote_at_def put_shard_def Let_def split: option.split)

lemma demote_loop_spec:
  "\<forall>(_, a, i) \<in> set c. i < length (rc_shards r) \<Longrightarrow>
    rc_bytes (demote_loop c r) < rc_low (demote_loop c r) \<or>
    (\<forall>i < length (rc_shards r). \<forall>a s. signer_at (demote_loop c r) i a = Some s \<longrightarrow>
       sg_cap s = 0 \<or> signer_at r i a = Some s \<and> (\<forall>x. (x, a, i) \<notin> set c))"
proof (induction c r rule: demote_loop.induct)
  case (2 x a i c r)
  show ?case
  proof (cases "rc_bytes r < rc_low r")
    case False
    have "\<forall>(_, a, i) \<in> set c. i < length (rc_shards (demote_at i a r))" using "2.prems" by auto
    moreover have i: "i < length (rc_shards r)" using "2.prems" by auto
    ultimately have IH: "rc_bytes (demote_loop c (demote_at i a r)) < rc_low (demote_loop c (demote_at i a r)) \<or>
      (\<forall>j < length (rc_shards r). \<forall>b s. signer_at (demote_loop c (demote_at i a r)) j b = Some s \<longrightarrow>
         sg_cap s = 0 \<or> signer_at (demote_at i a r) j b = Some s \<and> (\<forall>x. (x, b, j) \<notin> set c))"
      using "2.IH" [OF False] "2.prems" by simp
    have "signer_at (demote_at i a r) j b = Some s \<Longrightarrow> sg_cap s = 0 \<or> signer_at r j b = Some s \<and> \<not> (j = i \<and> b = a)"
      if "j < length (rc_shards r)" for j b s
      using signer_at_demote [OF that i] by (auto simp: demote_def split: if_splits)
    with IH False show ?thesis by fastforce
  qed simp
qed simp

lemma relieve_spec:
  assumes "rc_bytes r > rc_high r" and "rc_next_valve r \<le> now"
  shows "rc_bytes (relieve e True now r) < rc_low (relieve e True now r) \<or>
    (\<forall>i < length (rc_shards r). \<forall>a s. signer_at (relieve e True now r) i a = Some s \<longrightarrow> sg_cap s = 0)"
proof -
  define r1 where "r1 = foldl (\<lambda>r i. sweep_shard e now i r) r [0..<length (rc_shards r)]"
  define c where "c = (if rc_bytes r1 \<ge> rc_low r1 then sort_key fst (idle_list r1) else [])"
  define r2 where "r2 = demote_loop c r1"
  have rel: "relieve e True now r = (if rc_bytes r2 \<ge> rc_low r2
      then r2\<lparr>rc_next_valve := now + rc1ValveEvery,
             rc_logged := (if rc_logged r2 = 0 \<or> now - rc_logged r2 \<ge> rc1ValveLogEvery then now else rc_logged r2)\<rparr>
      else r2)"
  proof -
    have "\<not> (rc_bytes r \<le> rc_high r \<or> now < rc_next_valve r \<or> \<not> True)" using assms by simp
    then show ?thesis
      unfolding relieve_def by (simp only: if_False Let_def r1_def [symmetric] c_def [symmetric] r2_def [symmetric])
  qed
  have c: "\<forall>(_, a, i) \<in> set c. i < length (rc_shards r1)" by (auto simp: c_def dest: idle_bound)
  have len: "length (rc_shards r1) = length (rc_shards r)" by (simp add: r1_def)
  have "rc_bytes r2 < rc_low r2 \<or> (\<forall>i < length (rc_shards r). \<forall>a s. signer_at r2 i a = Some s \<longrightarrow> sg_cap s = 0)"
  proof (cases "rc_bytes r1 \<ge> rc_low r1")
    case False
    then show ?thesis by (simp add: r2_def c_def)
  next
    case True
    have "(sg_max s, a, i) \<in> set c" if "i < length (rc_shards r)" "signer_at r1 i a = Some s" "sg_cap s \<noteq> 0" for i a s
    proof -
      have "(a, s) \<in> set (sh_signers (rc_shards r1 ! i))" using that(2) by (auto simp: signer_at_def dest: map_of_SomeD)
      then show ?thesis using that(1,3) True len by (force simp: c_def idle_list_def)
    qed
    then have "rc_bytes r2 < rc_low r2 \<or> (\<forall>i < length (rc_shards r1). \<forall>a s. signer_at r2 i a = Some s \<longrightarrow> sg_cap s = 0)"
      using demote_loop_spec [OF c] unfolding r2_def [symmetric] len by meson
    then show ?thesis by (simp only: len)
  qed
  then show ?thesis by (auto simp: rel signer_at_def)
qed

end
