(* ===== verification/Admission_Gate.thy ===== *)
theory Admission_Gate
  imports Hub_Prelude
begin

text \<open>
  \<open>internal/aghub/admission.go\<close>, the gate's process memory: the counters of open registrations and of
  trial grants of the current UTC day, per level of the client's network, and the window places held
  by registrations in progress. A registration takes a hold and gives it back if it does not go
  through.

  An address is the byte string of \<open>net.IP\<close>. The HMAC under the day's key and ANetCore's proof of
  work (\<open>regpow\<close>) are fields of the record \<open>gate_core\<close>; the draw of a day key is an argument.
\<close>

section \<open>Parameters and constants\<close>

record gate_core =
  Hmac :: "bytes \<Rightarrow> bytes \<Rightarrow> bytes"
  PowSeed :: "bytes \<Rightarrow> u64 \<Rightarrow> bytes"
  PowHour :: "u64 \<Rightarrow> u64"
  PowNotAfter :: "u64 \<Rightarrow> u64"
  PowCheck :: "aid \<Rightarrow> aid \<Rightarrow> bytes \<Rightarrow> bytes \<Rightarrow> int \<Rightarrow> bool"

record net_limit =
  nl_v6 :: bool
  nl_bits :: nat
  nl_max :: int

definition signupQuota :: "net_limit list" where
  "signupQuota =
    [\<lparr>nl_v6 = False, nl_bits = 32, nl_max = 20\<rparr>, \<lparr>nl_v6 = False, nl_bits = 24, nl_max = 200\<rparr>,
     \<lparr>nl_v6 = True, nl_bits = 64, nl_max = 20\<rparr>, \<lparr>nl_v6 = True, nl_bits = 48, nl_max = 200\<rparr>,
     \<lparr>nl_v6 = True, nl_bits = 32, nl_max = 1000\<rparr>]"

definition trialBudget :: "net_limit list" where
  "trialBudget =
    [\<lparr>nl_v6 = False, nl_bits = 24, nl_max = 3\<rparr>,
     \<lparr>nl_v6 = True, nl_bits = 48, nl_max = 3\<rparr>, \<lparr>nl_v6 = True, nl_bits = 32, nl_max = 10\<rparr>]"

definition trialBudgetHub :: int where "trialBudgetHub = 100"

section \<open>Networks\<close>

text \<open>\<open>net.IP.To4\<close>, \<open>To16\<close> and \<open>Mask\<close> with a mask of the leading bits.\<close>

definition v4in6 :: bytes where "v4in6 = replicate 10 0 @ [255, 255]"
definition IPv4zero :: bytes where "IPv4zero = v4in6 @ replicate 4 0"

definition To4 :: "bytes \<Rightarrow> bytes option" where
  "To4 ip = (if length ip = 4 then Some ip
     else if length ip = 16 \<and> take 12 ip = v4in6 then Some (drop 12 ip) else None)"

definition To16 :: "bytes \<Rightarrow> bytes option" where
  "To16 ip = (if length ip = 4 then Some (v4in6 @ ip) else if length ip = 16 then Some ip else None)"

fun mask_bits :: "nat \<Rightarrow> bytes \<Rightarrow> bytes" where
  "mask_bits n [] = []"
| "mask_bits n (b # r) =
    (if n \<ge> 8 then b # mask_bits (n - 8) r
     else push_bit (8 - n) (drop_bit (8 - n) b) # mask_bits 0 r)"

definition ascii :: "string \<Rightarrow> bytes" where
  "ascii s = map (\<lambda>c. word_of_nat (of_char c)) s"

text \<open>The network of an address at one level, when the level is of its family.\<close>

definition net_addr :: "net_limit \<Rightarrow> bytes \<Rightarrow> bytes option" where
  "net_addr l ip =
    (case To4 ip of
      Some v4 \<Rightarrow> if nl_v6 l then None else Some (mask_bits (nl_bits l) v4)
    | None \<Rightarrow> (case To16 ip of
        Some v6 \<Rightarrow> if \<not> nl_v6 l then None else Some (mask_bits (nl_bits l) v6)
      | None \<Rightarrow> None))"

definition netKey :: "gate_core \<Rightarrow> bytes \<Rightarrow> string \<Rightarrow> net_limit \<Rightarrow> bytes \<Rightarrow> bytes option" where
  "netKey g dayKey kind l ip =
    (case net_addr l ip of
      None \<Rightarrow> None
    | Some addr \<Rightarrow>
        Some (take 16 (Hmac g dayKey (ascii kind @ [word_of_nat (nl_bits l), if nl_v6 l then 6 else 4] @ addr))))"

section \<open>The gate\<close>

record gate =
  gt_pow_key :: bytes
  gt_bits :: int
  gt_day :: int
  gt_day_key :: bytes
  gt_signup :: "(bytes, int) table"
  gt_trials :: "(bytes, int) table"
  gt_trial_n :: int
  gt_window :: "(int, int) table"

record gate_hold =
  gh_day :: int
  gh_signup :: "bytes list"
  gh_trials :: "bytes list"
  gh_trial_n :: bool
  gh_window :: int

definition newAdmissionGate :: "bytes \<Rightarrow> int \<Rightarrow> gate" where
  "newAdmissionGate k bits = \<lparr>gt_pow_key = k, gt_bits = bits, gt_day = - 1, gt_day_key = [], gt_signup = [],
     gt_trials = [], gt_trial_n = 0, gt_window = []\<rparr>"

definition rollDay :: "bytes \<Rightarrow> time_ns \<Rightarrow> gate \<Rightarrow> gate" where
  "rollDay draw now g =
    (let day = go_div (unix_milli now) 86400000 in
     if day = gt_day g then g
     else g\<lparr>gt_day := day, gt_day_key := draw, gt_signup := [], gt_trials := [], gt_trial_n := 0\<rparr>)"

definition untilTomorrow :: "time_ns \<Rightarrow> int" where
  "untilTomorrow now =
    (let ms = unix_milli now; next = (go_div ms 86400000 + 1) * 86400000 in (next - ms) * ms_ns)"

text \<open>The loop over the levels: the keys of the levels that apply, or \<open>None\<close> when one is full.\<close>

fun level_keys :: "(net_limit \<Rightarrow> bytes option) \<Rightarrow> (bytes, int) table \<Rightarrow> net_limit list \<Rightarrow> bytes list option" where
  "level_keys key counts [] = Some []"
| "level_keys key counts (l # ls) =
    (case key l of
      None \<Rightarrow> level_keys key counts ls
    | Some k \<Rightarrow> if row_or counts k 0 \<ge> nl_max l then None
                else map_option (\<lambda>ks. k # ks) (level_keys key counts ls))"

definition count_up :: "'k list \<Rightarrow> ('k, int) table \<Rightarrow> ('k, int) table" where
  "count_up ks t = foldl (\<lambda>t k. AList.update k (row_or t k 0 + 1) t) t ks"

definition count_down1 :: "'k \<Rightarrow> ('k, int) table \<Rightarrow> ('k, int) table" where
  "count_down1 k t = (let n = row_or t k 0 - 1 in if n \<le> 0 then AList.delete k t else AList.update k n t)"

definition count_down :: "'k list \<Rightarrow> ('k, int) table \<Rightarrow> ('k, int) table" where
  "count_down ks t = foldl (\<lambda>t k. count_down1 k t) t ks"

definition reserveSignup :: "gate_core \<Rightarrow> bytes \<Rightarrow> bytes option \<Rightarrow> time_ns \<Rightarrow> gate \<Rightarrow> gate \<times> gate_hold option" where
  "reserveSignup c draw ip now g =
    (let g = rollDay draw now g;
         ip = (case ip of None \<Rightarrow> IPv4zero | Some i \<Rightarrow> i)
     in case level_keys (\<lambda>l. netKey c (gt_day_key g) ''signup'' l ip) (gt_signup g) signupQuota of
       None \<Rightarrow> (g, None)
     | Some ks \<Rightarrow> (g\<lparr>gt_signup := count_up ks (gt_signup g)\<rparr>,
                   Some \<lparr>gh_day = gt_day g, gh_signup = ks, gh_trials = [], gh_trial_n = False, gh_window = 0\<rparr>))"

definition reserveTrial :: "gate_core \<Rightarrow> bytes \<Rightarrow> bytes option \<Rightarrow> time_ns \<Rightarrow> gate \<Rightarrow> gate \<times> gate_hold option" where
  "reserveTrial c draw ip now g =
    (let g = rollDay draw now g;
         ip = (case ip of None \<Rightarrow> IPv4zero | Some i \<Rightarrow> i)
     in if gt_trial_n g \<ge> trialBudgetHub then (g, None)
     else (case level_keys (\<lambda>l. netKey c (gt_day_key g) ''trial'' l ip) (gt_trials g) trialBudget of
       None \<Rightarrow> (g, None)
     | Some ks \<Rightarrow> (g\<lparr>gt_trials := count_up ks (gt_trials g), gt_trial_n := gt_trial_n g + 1\<rparr>,
                   Some \<lparr>gh_day = gt_day g, gh_signup = [], gh_trials = ks, gh_trial_n = True, gh_window = 0\<rparr>)))"

text \<open>A window as it was read from the table.\<close>

record window =
  w_id :: int
  w_opens :: millis
  w_closes :: millis
  w_max :: int
  w_used :: int
  w_label :: string

definition reserveWindow :: "window \<Rightarrow> gate \<Rightarrow> gate \<times> gate_hold option" where
  "reserveWindow w g =
    (if w_used w + row_or (gt_window g) (w_id w) 0 \<ge> w_max w then (g, None)
     else (g\<lparr>gt_window := count_up [w_id w] (gt_window g)\<rparr>,
           Some \<lparr>gh_day = - 1, gh_signup = [], gh_trials = [], gh_trial_n = False, gh_window = w_id w\<rparr>))"

definition release :: "gate_hold option \<Rightarrow> gate \<Rightarrow> gate" where
  "release hold g =
    (case hold of
      None \<Rightarrow> g
    | Some h \<Rightarrow>
      (let g = (if gh_window h \<noteq> 0 then g\<lparr>gt_window := count_down1 (gh_window h) (gt_window g)\<rparr> else g) in
       if gh_day h \<noteq> gt_day g then g
       else
        (let g = g\<lparr>gt_signup := count_down (gh_signup h) (gt_signup g), gt_trials := count_down (gh_trials h) (gt_trials g)\<rparr>
         in if gh_trial_n h \<and> gt_trial_n g > 0 then g\<lparr>gt_trial_n := gt_trial_n g - 1\<rparr> else g)))"

definition committed :: "gate_hold option \<Rightarrow> gate \<Rightarrow> gate" where
  "committed hold g =
    (case hold of
      None \<Rightarrow> g
    | Some h \<Rightarrow> if gh_window h = 0 then g else g\<lparr>gt_window := count_down1 (gh_window h) (gt_window g)\<rparr>)"

section \<open>The proof of work\<close>

definition powSeed :: "gate_core \<Rightarrow> gate \<Rightarrow> u64 \<Rightarrow> bytes" where
  "powSeed c g hour = PowSeed c (gt_pow_key g) hour"

record challenge =
  ch_seed :: bytes
  ch_bits :: int
  ch_not_after :: u64

definition challenge_at :: "gate_core \<Rightarrow> time_ns \<Rightarrow> gate \<Rightarrow> challenge" where
  "challenge_at c now g =
    (let h = PowHour c (word_of_int (unix_milli now)) in
     \<lparr>ch_seed = powSeed c g h, ch_bits = gt_bits g, ch_not_after = PowNotAfter c h\<rparr>)"

definition checkPow :: "gate_core \<Rightarrow> aid \<Rightarrow> aid \<Rightarrow> bytes \<Rightarrow> bytes \<Rightarrow> time_ns \<Rightarrow> gate \<Rightarrow> bool" where
  "checkPow c hub a seed nonce now g =
    (if length seed \<noteq> 32 then False
     else
      (let h = PowHour c (word_of_int (unix_milli now));
           ok = (seed = powSeed c g h);
           ok = (if \<not> ok \<and> h > 0 then seed = powSeed c g (h - 1) else ok)
       in ok \<and> PowCheck c hub a seed nonce (gt_bits g)))"

section \<open>Counting\<close>

lemma row_or_count_up: "row_or (count_up ks t) k 0 = row_or t k 0 + int (count_list ks k)"
proof (induction ks arbitrary: t)
  case (Cons j ks)
  have "count_up (j # ks) t = count_up ks (AList.update j (row_or t j 0 + 1) t)" by (simp add: count_up_def)
  then show ?case using Cons.IH by (simp add: row_or_update)
qed (simp add: count_up_def)

lemma row_or_count_down1:
  "0 \<le> row_or t j (0 :: int) \<Longrightarrow> row_or (count_down1 j t) k 0 = (if k = j then max 0 (row_or t j 0 - 1) else row_or t k 0)"
  by (auto simp: count_down1_def Let_def row_or_update row_or_delete)

lemma row_or_count_down:
  "\<forall>j. int (count_list ks j) \<le> row_or t j 0 \<Longrightarrow> row_or (count_down ks t) k 0 = row_or t k 0 - int (count_list ks k)"
proof (induction ks arbitrary: t)
  case (Cons j ks)
  have pos: "1 \<le> row_or t j 0" using Cons.prems by (auto dest: spec [of _ j])
  have one: "row_or (count_down1 j t) i 0 = (if i = j then row_or t j 0 - 1 else row_or t i 0)" for i
    using row_or_count_down1 [of t j i] pos by auto
  have "\<forall>i. int (count_list ks i) \<le> row_or (count_down1 j t) i 0"
  proof
    fix i show "int (count_list ks i) \<le> row_or (count_down1 j t) i 0"
      using Cons.prems [rule_format, of i] by (auto simp: one)
  qed
  from Cons.IH [OF this] show ?case by (auto simp: count_down_def one)
qed (simp add: count_down_def)

lemma level_keys_Some:
  "level_keys key counts ls = Some ks \<Longrightarrow> ks = List.map_filter key ls \<and>
     (\<forall>l \<in> set ls. \<forall>k. key l = Some k \<longrightarrow> row_or counts k 0 < nl_max l)"
  by (induction ls arbitrary: ks) (auto simp: List.map_filter_simps split: option.splits if_splits)

lemma level_keys_None:
  "level_keys key counts ls = None \<longleftrightarrow> (\<exists>l \<in> set ls. \<exists>k. key l = Some k \<and> nl_max l \<le> row_or counts k 0)"
  by (induction ls) (auto split: option.splits if_splits)

section \<open>The gate over a day\<close>

text \<open>
  \<open>gm_holds\<close> is every hold given out and not given back, with the address it was given for; it is not
  read by the code. A trial that was paid or a registration that went through keeps its hold for the
  day.
\<close>

record gate_state =
  gm_gate :: gate
  gm_signups :: "(gate_hold \<times> bytes) list"
  gm_trials :: "(gate_hold \<times> bytes) list"

definition the_ip :: "bytes option \<Rightarrow> bytes" where
  "the_ip ip = (case ip of None \<Rightarrow> IPv4zero | Some i \<Rightarrow> i)"

inductive gate_step :: "gate_core \<Rightarrow> time_ns \<Rightarrow> gate_state \<Rightarrow> gate_state \<Rightarrow> bool" for c :: gate_core where
  g_signup: "reserveSignup c draw ip now (gm_gate s) = (g', r) \<Longrightarrow>
     gate_step c now s (s\<lparr>gm_gate := g', gm_signups := (case r of None \<Rightarrow> gm_signups s | Some h \<Rightarrow> (h, the_ip ip) # gm_signups s)\<rparr>)"
| g_trial: "reserveTrial c draw ip now (gm_gate s) = (g', r) \<Longrightarrow>
     gate_step c now s (s\<lparr>gm_gate := g', gm_trials := (case r of None \<Rightarrow> gm_trials s | Some h \<Rightarrow> (h, the_ip ip) # gm_trials s)\<rparr>)"
| g_window: "reserveWindow w (gm_gate s) = (g', r) \<Longrightarrow> w_id w \<noteq> 0 \<Longrightarrow> gate_step c now s (s\<lparr>gm_gate := g'\<rparr>)"
| g_release_signup: "x \<in> set (gm_signups s) \<Longrightarrow>
     gate_step c now s (s\<lparr>gm_gate := release (Some (fst x)) (gm_gate s), gm_signups := remove1 x (gm_signups s)\<rparr>)"
| g_release_trial: "x \<in> set (gm_trials s) \<Longrightarrow>
     gate_step c now s (s\<lparr>gm_gate := release (Some (fst x)) (gm_gate s), gm_trials := remove1 x (gm_trials s)\<rparr>)"
| g_release_window: "gate_step c now s (s\<lparr>gm_gate :=
     release (Some \<lparr>gh_day = - 1, gh_signup = [], gh_trials = [], gh_trial_n = False, gh_window = i\<rparr>) (gm_gate s)\<rparr>)"
| g_committed: "gate_step c now s (s\<lparr>gm_gate := committed h (gm_gate s)\<rparr>)"

inductive gate_reachable :: "gate_core \<Rightarrow> time_ns \<Rightarrow> gate_state \<Rightarrow> bool" for c :: gate_core where
  gate_start: "0 \<le> now \<Longrightarrow> gate_reachable c now \<lparr>gm_gate = newAdmissionGate k bits, gm_signups = [], gm_trials = []\<rparr>"
| gate_next: "gate_reachable c t s \<Longrightarrow> gate_step c now s s' \<Longrightarrow> t \<le> now \<Longrightarrow> gate_reachable c now s'"

section \<open>The counters are exact and within the limits\<close>

definition counted :: "(gate_hold \<Rightarrow> bytes list) \<Rightarrow> (net_limit \<Rightarrow> bytes \<Rightarrow> bytes option) \<Rightarrow> net_limit list \<Rightarrow>
    (bytes, int) table \<Rightarrow> (gate_hold \<times> bytes) list \<Rightarrow> bool" where
  "counted sel key quota counts hs \<longleftrightarrow>
    (\<forall>k. row_or counts k 0 = int (sum_list (map (\<lambda>x. count_list (sel (fst x)) k) hs))) \<and>
    (\<forall>x \<in> set hs. sel (fst x) = List.map_filter (\<lambda>l. key l (snd x)) quota) \<and>
    (\<forall>l \<in> set quota. \<forall>k. int (length (filter (\<lambda>x. key l (snd x) = Some k) hs)) \<le> nl_max l)"

lemma counted_Nil: "\<forall>l \<in> set quota. 0 \<le> nl_max l \<Longrightarrow> counted sel key quota [] []"
  by (simp add: counted_def)

lemma via_le_count:
  assumes "\<forall>x \<in> set hs. sel (fst x) = List.map_filter (\<lambda>l. key l (snd x)) quota" and "l \<in> set quota"
  shows "length (filter (\<lambda>x. key l (snd x) = Some k) hs) \<le> sum_list (map (\<lambda>x. count_list (sel (fst x)) k) hs)"
  using assms(1)
proof (induction hs)
  case (Cons x hs)
  have "1 \<le> count_list (sel (fst x)) k" if "key l (snd x) = Some k"
  proof -
    have "k \<in> set (sel (fst x))" using Cons.prems that assms(2) by (force simp: List.map_filter_def image_iff)
    then show ?thesis by (metis count_list_0_iff less_one not_less)
  qed
  with Cons show ?case by fastforce
qed simp

lemma counted_add:
  assumes "level_keys (\<lambda>l. key l ip) counts quota = Some ks" and "sel h = ks" and "counted sel key quota counts hs"
  shows "counted sel key quota (count_up ks counts) ((h, ip) # hs)"
proof -
  note L = level_keys_Some [OF assms(1)]
  have all: "\<forall>x \<in> set hs. sel (fst x) = List.map_filter (\<lambda>l. key l (snd x)) quota"
    and row: "row_or counts k 0 = int (sum_list (map (\<lambda>x. count_list (sel (fst x)) k) hs))" for k
    using assms(3) by (simp_all add: counted_def)
  have "int (length (filter (\<lambda>x. key l (snd x) = Some k) ((h, ip) # hs))) \<le> nl_max l" if "l \<in> set quota" for l k
  proof (cases "key l ip = Some k")
    case True
    then have "row_or counts k 0 < nl_max l" using L that by blast
    with via_le_count [OF all that, of k] row [of k] True show ?thesis by simp
  next
    case False
    with assms(3) that show ?thesis by (simp add: counted_def)
  qed
  with L assms(2) all row show ?thesis by (auto simp: counted_def row_or_count_up)
qed

lemma sum_list_remove1: "x \<in> set hs \<Longrightarrow> sum_list (map f (remove1 x hs)) = sum_list (map f hs) - (f x :: nat)"
  by (induction hs) (auto simp: member_le_sum_list intro: add_diff_assoc)

lemma sum_list_member: "x \<in> set hs \<Longrightarrow> (f x :: nat) \<le> sum_list (map f hs)"
  by (induction hs) auto

lemma length_filter_remove1: "length (filter P (remove1 x hs)) \<le> length (filter P hs)"
  by (induction hs) auto

lemma counted_remove:
  assumes "x \<in> set hs" and "counted sel key quota counts hs"
  shows "counted sel key quota (count_down (sel (fst x)) counts) (remove1 x hs)"
proof -
  have row: "row_or counts k 0 = int (sum_list (map (\<lambda>x. count_list (sel (fst x)) k) hs))" for k
    using assms(2) by (simp add: counted_def)
  have le: "count_list (sel (fst x)) k \<le> sum_list (map (\<lambda>x. count_list (sel (fst x)) k) hs)" for k
    by (rule sum_list_member [OF assms(1)])
  have down: "row_or (count_down (sel (fst x)) counts) k 0 = row_or counts k 0 - int (count_list (sel (fst x)) k)" for k
    by (rule row_or_count_down) (simp add: row le)
  have "row_or (count_down (sel (fst x)) counts) k 0 = int (sum_list (map (\<lambda>x. count_list (sel (fst x)) k) (remove1 x hs)))" for k
    unfolding down row sum_list_remove1 [OF assms(1)] using le [of k] by (simp add: of_nat_diff)
  moreover have "int (length (filter P (remove1 x hs))) \<le> n" if "int (length (filter P hs)) \<le> n" for P n
    using that length_filter_remove1 [of P x hs] by linarith
  ultimately show ?thesis
    using assms(2) by (auto simp: counted_def dest: notin_set_remove1 in_set_remove1 set_mp [OF set_remove1_subset])
qed

text \<open>The invariant of the gate: exact counters for the holds of its day.\<close>

definition today :: "gate \<Rightarrow> (gate_hold \<times> bytes) list \<Rightarrow> (gate_hold \<times> bytes) list" where
  "today g hs = filter (\<lambda>x. gh_day (fst x) = gt_day g) hs"

definition gate_inv :: "gate_core \<Rightarrow> time_ns \<Rightarrow> gate_state \<Rightarrow> bool" where
  "gate_inv c t s \<longleftrightarrow> (let g = gm_gate s in
     counted gh_signup (netKey c (gt_day_key g) ''signup'') signupQuota (gt_signup g) (today g (gm_signups s)) \<and>
     counted gh_trials (netKey c (gt_day_key g) ''trial'') trialBudget (gt_trials g) (today g (gm_trials s)) \<and>
     gt_trial_n g = int (length (today g (gm_trials s))) \<and> gt_trial_n g \<le> trialBudgetHub \<and>
     (\<forall>x \<in> set (gm_signups s). gh_trials (fst x) = [] \<and> \<not> gh_trial_n (fst x) \<and> gh_day (fst x) \<le> gt_day g) \<and>
     (\<forall>x \<in> set (gm_trials s). gh_signup (fst x) = [] \<and> gh_trial_n (fst x) \<and> gh_day (fst x) \<le> gt_day g) \<and>
     gt_day g \<le> unix_milli t div 86400000 \<and> - 1 \<le> gt_day g \<and> 0 \<le> t)"

lemma quota_pos: "\<forall>l \<in> set signupQuota. 0 \<le> nl_max l" "\<forall>l \<in> set trialBudget. 0 \<le> nl_max l"
  by (simp_all add: signupQuota_def trialBudget_def)

lemma rollDay_inv:
  assumes "gate_inv c t s" and "t \<le> now"
  shows "gate_inv c now (s\<lparr>gm_gate := rollDay draw now (gm_gate s)\<rparr>)"
proof -
  have t: "0 \<le> t" using assms(1) by (simp add: gate_inv_def Let_def)
  then have ms: "0 \<le> unix_milli now" using assms(2) by (simp add: unix_milli_def ms_ns_def)
  have day: "go_div (unix_milli now) 86400000 = unix_milli now div 86400000" by (rule go_div_nonneg [OF ms]) simp
  have mono: "unix_milli t div 86400000 \<le> unix_milli now div 86400000"
    by (rule zdiv_mono1 [OF unix_milli_mono [OF assms(2)]]) simp
  show ?thesis
  proof (cases "unix_milli now div 86400000 = gt_day (gm_gate s)")
    case True
    then have "rollDay draw now (gm_gate s) = gm_gate s" by (simp add: rollDay_def day)
    with assms t mono show ?thesis by (auto simp: gate_inv_def Let_def)
  next
    case False
    then have lt: "gt_day (gm_gate s) < unix_milli now div 86400000" using assms(1) mono by (auto simp: gate_inv_def Let_def)
    have none: "filter (\<lambda>x. gh_day (fst x) = unix_milli now div 86400000) (gm_signups s) = []"
      "filter (\<lambda>x. gh_day (fst x) = unix_milli now div 86400000) (gm_trials s) = []"
      using assms(1) lt by (force simp: gate_inv_def Let_def filter_empty_conv)+
    from False lt assms t mono quota_pos show ?thesis
      by (auto simp: gate_inv_def Let_def rollDay_def day today_def none counted_Nil trialBudgetHub_def less_imp_le
          dest: order_trans less_le_trans intro: order_trans [OF _ less_imp_le [OF lt]])
  qed
qed

lemma gate_inv_later: "gate_inv c t s \<Longrightarrow> t \<le> now \<Longrightarrow> gate_inv c now s"
proof -
  assume inv: "gate_inv c t s" and le: "t \<le> now"
  have "unix_milli t div 86400000 \<le> unix_milli now div 86400000"
    by (rule zdiv_mono1 [OF unix_milli_mono [OF le]]) simp
  with inv le show ?thesis by (simp add: gate_inv_def Let_def)
qed

lemma gate_inv_window: "gate_inv c t s \<Longrightarrow> gate_inv c t (s\<lparr>gm_gate := (gm_gate s)\<lparr>gt_window := w\<rparr>\<rparr>)"
  by (simp add: gate_inv_def Let_def today_def)

lemma gate_window_id: "g\<lparr>gt_window := gt_window g\<rparr> = g" by simp

lemma release_day:
  assumes "gh_window h = 0" and "gh_day h = gt_day g"
  shows "release (Some h) g = (let g = g\<lparr>gt_signup := count_down (gh_signup h) (gt_signup g), gt_trials := count_down (gh_trials h) (gt_trials g)\<rparr>
     in if gh_trial_n h \<and> gt_trial_n g > 0 then g\<lparr>gt_trial_n := gt_trial_n g - 1\<rparr> else g)"
  using assms by (simp add: release_def)

lemma today_remove1: "today g (remove1 x hs) = (if gh_day (fst x) = gt_day g then remove1 x (today g hs) else today g hs)"
  unfolding today_def by (induction hs) auto

definition holds_plain :: "gate_state \<Rightarrow> bool" where
  "holds_plain s \<longleftrightarrow> (\<forall>x \<in> set (gm_signups s) \<union> set (gm_trials s). gh_window (fst x) = 0)"

lemma gate_step_inv:
  assumes "gate_step c now s s'" and "gate_inv c t s" and "t \<le> now" and "holds_plain s"
  shows "gate_inv c now s' \<and> holds_plain s'"
  using assms
proof (induction rule: gate_step.induct)
  case (g_signup draw ip now s g' r)
  let ?s = "s\<lparr>gm_gate := rollDay draw now (gm_gate s)\<rparr>"
  have inv: "gate_inv c now ?s" by (rule rollDay_inv [OF g_signup(2,3)])
  let ?g = "gm_gate ?s"
  let ?keys = "level_keys (\<lambda>l. netKey c (gt_day_key ?g) ''signup'' l (the_ip ip)) (gt_signup ?g) signupQuota"
  show ?case
  proof (cases ?keys)
    case None
    with g_signup(1) have "g' = ?g" "r = None" by (auto simp: reserveSignup_def Let_def the_ip_def)
    with inv g_signup(4) show ?thesis by (simp add: holds_plain_def)
  next
    case (Some ks)
    let ?h = "\<lparr>gh_day = gt_day ?g, gh_signup = ks, gh_trials = [], gh_trial_n = False, gh_window = 0\<rparr>"
    from Some g_signup(1) have out: "g' = ?g\<lparr>gt_signup := count_up ks (gt_signup ?g)\<rparr>" "r = Some ?h"
      by (auto simp: reserveSignup_def Let_def the_ip_def)
    have "counted gh_signup (netKey c (gt_day_key ?g) ''signup'') signupQuota (count_up ks (gt_signup ?g))
        ((?h, the_ip ip) # today ?g (gm_signups s))"
      by (rule counted_add [where ip = "the_ip ip" and ks = ks]) (use inv Some in \<open>simp_all add: gate_inv_def Let_def\<close>)
    with inv g_signup(4) show ?thesis by (simp add: gate_inv_def Let_def out today_def holds_plain_def)
  qed
next
  case (g_trial draw ip now s g' r)
  let ?s = "s\<lparr>gm_gate := rollDay draw now (gm_gate s)\<rparr>"
  have inv: "gate_inv c now ?s" by (rule rollDay_inv [OF g_trial(2,3)])
  let ?g = "gm_gate ?s"
  let ?keys = "level_keys (\<lambda>l. netKey c (gt_day_key ?g) ''trial'' l (the_ip ip)) (gt_trials ?g) trialBudget"
  show ?case
  proof (cases "gt_trial_n ?g \<ge> trialBudgetHub \<or> ?keys = None")
    case True
    with g_trial(1) have "g' = ?g" "r = None" by (auto simp: reserveTrial_def Let_def the_ip_def split: if_splits)
    with inv g_trial(4) show ?thesis by (simp add: holds_plain_def)
  next
    case False
    then obtain ks where ks: "?keys = Some ks" by blast
    let ?h = "\<lparr>gh_day = gt_day ?g, gh_signup = [], gh_trials = ks, gh_trial_n = True, gh_window = 0\<rparr>"
    from False ks g_trial(1) have out: "g' = ?g\<lparr>gt_trials := count_up ks (gt_trials ?g), gt_trial_n := gt_trial_n ?g + 1\<rparr>" "r = Some ?h"
      by (auto simp: reserveTrial_def Let_def the_ip_def split: if_splits)
    have "counted gh_trials (netKey c (gt_day_key ?g) ''trial'') trialBudget (count_up ks (gt_trials ?g))
        ((?h, the_ip ip) # today ?g (gm_trials s))"
      by (rule counted_add [where ip = "the_ip ip" and ks = ks]) (use inv ks in \<open>simp_all add: gate_inv_def Let_def\<close>)
    with inv g_trial(4) False show ?thesis by (simp add: gate_inv_def Let_def out today_def holds_plain_def)
  qed
next
  case (g_window w s g' r now)
  then have "\<exists>w. g' = (gm_gate s)\<lparr>gt_window := w\<rparr>"
    by (auto simp: reserveWindow_def split: if_splits intro: exI [of _ "gt_window (gm_gate s)"])
  with g_window gate_inv_window gate_inv_later show ?case by (fastforce simp: holds_plain_def)
next
  case (g_release_signup x s now)
  let ?g = "gm_gate s"
  note inv = gate_inv_later [OF g_release_signup(2,3)]
  have x: "gh_trials (fst x) = []" "\<not> gh_trial_n (fst x)" "gh_window (fst x) = 0"
    using inv g_release_signup(1,4) by (auto simp: gate_inv_def Let_def holds_plain_def)
  have plain: "holds_plain (s\<lparr>gm_gate := release (Some (fst x)) ?g, gm_signups := remove1 x (gm_signups s)\<rparr>)"
    using g_release_signup(4) by (auto simp: holds_plain_def dest: set_mp [OF set_remove1_subset])
  show ?case
  proof (cases "gh_day (fst x) = gt_day ?g")
    case True
    then have m: "x \<in> set (today ?g (gm_signups s))" using g_release_signup(1) by (simp add: today_def)
    have rel: "release (Some (fst x)) ?g = ?g\<lparr>gt_signup := count_down (gh_signup (fst x)) (gt_signup ?g)\<rparr>"
      using release_day [OF x(3) True] x by (simp add: count_down_def)
    have "counted gh_signup (netKey c (gt_day_key ?g) ''signup'') signupQuota (count_down (gh_signup (fst x)) (gt_signup ?g))
        (remove1 x (today ?g (gm_signups s)))"
      by (rule counted_remove [OF m]) (use inv in \<open>simp add: gate_inv_def Let_def\<close>)
    with inv True plain show ?thesis
      by (auto simp: gate_inv_def Let_def rel today_remove1 today_def [of "_\<lparr>gt_signup := _\<rparr>"] today_def [of ?g, symmetric]
          dest: set_mp [OF set_remove1_subset])
  next
    case False
    then have "release (Some (fst x)) ?g = ?g" using x(3) by (simp add: release_def)
    with inv False plain show ?thesis
      by (auto simp: gate_inv_def Let_def today_remove1 dest: set_mp [OF set_remove1_subset])
  qed
next
  case (g_release_trial x s now)
  let ?g = "gm_gate s"
  note inv = gate_inv_later [OF g_release_trial(2,3)]
  have x: "gh_signup (fst x) = []" "gh_trial_n (fst x)" "gh_window (fst x) = 0"
    using inv g_release_trial(1,4) by (auto simp: gate_inv_def Let_def holds_plain_def)
  have plain: "holds_plain (s\<lparr>gm_gate := release (Some (fst x)) ?g, gm_trials := remove1 x (gm_trials s)\<rparr>)"
    using g_release_trial(4) by (auto simp: holds_plain_def dest: set_mp [OF set_remove1_subset])
  show ?case
  proof (cases "gh_day (fst x) = gt_day ?g")
    case True
    then have m: "x \<in> set (today ?g (gm_trials s))" using g_release_trial(1) by (simp add: today_def)
    then have "0 < length (today ?g (gm_trials s))" by auto
    with m have len: "int (length (remove1 x (today ?g (gm_trials s)))) = int (length (today ?g (gm_trials s))) - 1"
      "0 < length (today ?g (gm_trials s))" by (auto simp: length_remove1 of_nat_diff Suc_le_eq)
    then have n: "gt_trial_n ?g = int (length (today ?g (gm_trials s)))" "0 < gt_trial_n ?g"
      using inv by (simp_all add: gate_inv_def Let_def)
    have rel: "release (Some (fst x)) ?g =
        ?g\<lparr>gt_trials := count_down (gh_trials (fst x)) (gt_trials ?g), gt_trial_n := gt_trial_n ?g - 1\<rparr>"
      using release_day [OF x(3) True] x n by (simp add: count_down_def)
    have "counted gh_trials (netKey c (gt_day_key ?g) ''trial'') trialBudget (count_down (gh_trials (fst x)) (gt_trials ?g))
        (remove1 x (today ?g (gm_trials s)))"
      by (rule counted_remove [OF m]) (use inv in \<open>simp add: gate_inv_def Let_def\<close>)
    moreover have "today (?g\<lparr>gt_trials := a, gt_trial_n := b\<rparr>) hs = today ?g hs" for a b hs by (simp add: today_def)
    ultimately show ?thesis using inv True plain n len
      by (auto simp: gate_inv_def Let_def rel today_remove1 of_nat_diff dest: set_mp [OF set_remove1_subset])
  next
    case False
    then have "release (Some (fst x)) ?g = ?g" using x(3) by (simp add: release_def)
    with inv False plain show ?thesis
      by (auto simp: gate_inv_def Let_def today_remove1 dest: set_mp [OF set_remove1_subset])
  qed
next
  case (g_release_window now s i)
  note inv = gate_inv_later [OF g_release_window(1,2)]
  let ?h = "\<lparr>gh_day = - 1, gh_signup = [], gh_trials = [], gh_trial_n = False, gh_window = i\<rparr>"
  have "\<exists>w. release (Some ?h) (gm_gate s) = (gm_gate s)\<lparr>gt_window := w\<rparr>"
    by (auto simp: release_def Let_def count_down_def intro: exI [of _ "gt_window (gm_gate s)"])
  with inv gate_inv_window g_release_window(3) show ?case by (fastforce simp: holds_plain_def)
next
  case (g_committed now s h)
  note inv = gate_inv_later [OF g_committed(1,2)]
  have "\<exists>w. committed h (gm_gate s) = (gm_gate s)\<lparr>gt_window := w\<rparr>"
    by (auto simp: committed_def split: option.split intro: exI [of _ "gt_window (gm_gate s)"])
  with inv gate_inv_window g_committed(3) show ?case by (fastforce simp: holds_plain_def)
qed

lemma gate_reachable_inv: "gate_reachable c t s \<Longrightarrow> gate_inv c t s \<and> holds_plain s"
proof (induction rule: gate_reachable.induct)
  case (gate_start now k bits)
  then have "0 \<le> unix_milli now" by (simp add: unix_milli_def ms_ns_def)
  then have "- 1 \<le> unix_milli now div 86400000" by (simp add: div_int_pos_iff order_trans [of "-1" 0])
  with gate_start quota_pos show ?case
    by (simp add: gate_inv_def Let_def newAdmissionGate_def today_def counted_Nil trialBudgetHub_def holds_plain_def)
next
  case (gate_next t s now s')
  then show ?case using gate_step_inv by blast
qed

end
