(* ===== verification/Admission.thy ===== *)
theory Admission
  imports Admission_Gate Ledger "HOL-Library.Char_ord" "HOL-Library.List_Lexorder"
begin

text \<open>
  \<open>internal/aghub/admission.go\<close>, the tables: who may register here for the first time and what a
  newcomer gets. The admission list with its grants, the sign-up windows, the mode, the columns of
  the agent row that say how an account came in, its probation and its trial credit. The credit paid
  is the ledger's \<open>issueTx\<close>.

  \<open>ValidAID\<close> is ANetCore's test of an AID, an argument. \<open>admission_window\<close> is the list of its rows in the
  order of their ids.
\<close>

section \<open>State\<close>

datatype via = viaList | viaWindow | viaOpen | viaRegistered
datatype trial = trialNone | trialPending | trialGranted

text \<open>The table \<open>agent\<close>. \<open>caps\<close> is the list that the JSON of the column encodes; \<open>dir_hash\<close> and \<open>dir_box\<close> are
  always written together, so they are one optional pair.\<close>

record agent_row =
  ag_kel :: bytes
  ag_via :: via
  ag_probation :: "millis option"
  ag_trial :: trial
  ag_name :: string
  ag_caps :: "string list"
  ag_summary :: string
  ag_readme :: string
  ag_tip_seq :: int
  ag_tip_head :: string
  ag_registered_at :: time_ns
  ag_visibility :: string
  ag_last_seen :: "time_ns option"
  ag_dir :: "(bytes \<times> bytes) option"

record admitted_row =
  ad_label :: string
  ad_grant :: int
  ad_granted :: int
  ad_created :: millis

record accounts =
  ac_agents :: "(aid, agent_row) table"
  ac_admitted :: "(aid, admitted_row) table"
  ac_windows :: "window list"
  ac_window_seq :: int
  ac_mode :: "string option"
  ac_ledger :: ledger

datatype admission_error =
  ErrBadAID | ErrNegativeGrant | BadLineError nat | ErrUnknownMode | ErrWindowTooBig | ErrWindowOpen window
  | errNotAdmitted | errWindowFilled | ErrUnknownRoute | LedgerError error

definition AdmissionClosed :: string where "AdmissionClosed = ''closed''"
definition AdmissionOpen :: string where "AdmissionOpen = ''open''"
definition ProbationPeriod :: int where "ProbationPeriod = 72 * hour_ns"
definition TrialCredits :: int where "TrialCredits = 20"
definition MaxWindowLength :: int where "MaxWindowLength = 7 * 24 * hour_ns"
definition MaxWindowSize :: int where "MaxWindowSize = 10000"
definition reasonAdmissionGrant :: string where "reasonAdmissionGrant = ''admission grant''"
definition reasonTrialCredit :: string where "reasonTrialCredit = ''trial credit''"

section \<open>The mode\<close>

definition admissionMode :: "accounts \<Rightarrow> string" where
  "admissionMode ac =
    (case ac_mode ac of
      None \<Rightarrow> AdmissionClosed
    | Some v \<Rightarrow> if v \<noteq> AdmissionOpen then AdmissionClosed else AdmissionOpen)"

definition SetAdmissionMode :: "string \<Rightarrow> accounts \<Rightarrow> admission_error + accounts" where
  "SetAdmissionMode mode ac =
    (if mode \<noteq> AdmissionOpen \<and> mode \<noteq> AdmissionClosed then Inl ErrUnknownMode
     else Inr (ac\<lparr>ac_mode := Some mode\<rparr>))"

section \<open>The admission list\<close>

record admit_result =
  Registered :: bool
  Paid :: int
  Grant :: int
  AlreadyGranted :: bool

definition ledger_issue :: "hub_conf \<Rightarrow> time_ns \<Rightarrow> aid \<Rightarrow> int \<Rightarrow> string \<Rightarrow> accounts \<Rightarrow> admission_error + accounts" where
  "ledger_issue h now a amt reason ac =
    (case issueTx h now a amt reason (ac_ledger ac) of
      Inl e \<Rightarrow> Inl (LedgerError e)
    | Inr l \<Rightarrow> Inr (ac\<lparr>ac_ledger := l\<rparr>))"

definition payListGrantTx :: "hub_conf \<Rightarrow> time_ns \<Rightarrow> aid \<Rightarrow> accounts \<Rightarrow> admission_error + (accounts \<times> int)" where
  "payListGrantTx h now a ac =
    (case map_of (ac_admitted ac) a of
      None \<Rightarrow> Inr (ac, 0)
    | Some r \<Rightarrow>
      if ad_grant r \<le> 0 \<or> ad_granted r \<noteq> 0 then Inr (ac, 0)
      else rbind (ledger_issue h now a (ad_grant r) reasonAdmissionGrant
                    (ac\<lparr>ac_admitted := AList.update a (r\<lparr>ad_granted := 1\<rparr>) (ac_admitted ac)\<rparr>))
             (\<lambda>ac. Inr (ac, ad_grant r)))"

definition admit_list_row :: "aid \<Rightarrow> int \<Rightarrow> string \<Rightarrow> bool \<Rightarrow> time_ns \<Rightarrow> accounts \<Rightarrow> admitted_row \<times> bool" where
  "admit_list_row a grant label labelSet now ac =
    (case map_of (ac_admitted ac) a of
      None \<Rightarrow> (\<lparr>ad_label = label, ad_grant = grant, ad_granted = 0, ad_created = unix_milli now\<rparr>, False)
    | Some r \<Rightarrow>
      (let r = (if labelSet then r\<lparr>ad_label := label\<rparr> else r)
       in if grant > 0 then (if ad_granted r \<noteq> 0 then (r, True) else (r\<lparr>ad_grant := grant\<rparr>, False)) else (r, False)))"

text \<open>The update of the row of an account already registered.\<close>

definition vouched :: "millis \<Rightarrow> agent_row \<Rightarrow> agent_row" where
  "vouched ms g = g\<lparr>ag_via := viaList,
     ag_probation := (case ag_probation g of None \<Rightarrow> None | Some p \<Rightarrow> if p > ms then Some ms else Some p),
     ag_trial := (if ag_trial g = trialPending then trialNone else ag_trial g)\<rparr>"

definition admitTx ::
  "hub_conf \<Rightarrow> aid \<Rightarrow> int \<Rightarrow> string \<Rightarrow> bool \<Rightarrow> time_ns \<Rightarrow> accounts \<Rightarrow> admission_error + (accounts \<times> admit_result)" where
  "admitTx h a grant label labelSet now ac =
    (case admit_list_row a grant label labelSet now ac of (r, already) \<Rightarrow>
     (let ac = ac\<lparr>ac_admitted := AList.update a r (ac_admitted ac)\<rparr> in
      case map_of (ac_agents ac) a of
        None \<Rightarrow> Inr (ac, \<lparr>Registered = False, Paid = 0, Grant = (if ad_granted r = 0 then ad_grant r else 0),
                           AlreadyGranted = already\<rparr>)
      | Some g \<Rightarrow>
        (let ac = ac\<lparr>ac_agents := AList.update a (vouched (unix_milli now) g) (ac_agents ac)\<rparr> in
         if ad_granted r = 0 \<and> ad_grant r > 0
         then rbind (payListGrantTx h now a ac) (\<lambda>(ac, paid).
                Inr (ac, \<lparr>Registered = True, Paid = paid, Grant = 0, AlreadyGranted = already\<rparr>))
         else Inr (ac, \<lparr>Registered = True, Paid = 0, Grant = 0, AlreadyGranted = already\<rparr>))))"

definition Admit ::
  "(aid \<Rightarrow> bool) \<Rightarrow> hub_conf \<Rightarrow> aid \<Rightarrow> int \<Rightarrow> string \<Rightarrow> bool \<Rightarrow> time_ns \<Rightarrow> accounts \<Rightarrow>
   admission_error + (accounts \<times> admit_result)" where
  "Admit validAID h a grant label labelSet now ac =
    (if \<not> validAID a then Inl ErrBadAID
     else if grant < 0 then Inl ErrNegativeGrant
     else admitTx h a grant label labelSet now ac)"

text \<open>\<open>strings.TrimSpace\<close>: the white space of Unicode, as UTF-8.\<close>

definition space_seqs :: "string list" where
  "space_seqs = map (map char_of)
     ([[0x09], [0x0A], [0x0B], [0x0C], [0x0D], [0x20], [0xC2, 0x85], [0xC2, 0xA0], [0xE1, 0x9A, 0x80]]
      @ map (\<lambda>n. [0xE2, 0x80, n]) ([0x80..<0x8B] @ [0xA8, 0xA9, 0xAF]) @ [[0xE2, 0x81, 0x9F], [0xE3, 0x80, 0x80 :: nat]])"

fun strip_front :: "string list \<Rightarrow> nat \<Rightarrow> string \<Rightarrow> string" where
  "strip_front seqs 0 s = s"
| "strip_front seqs (Suc n) s =
    (case List.find (\<lambda>q. take (length q) s = q) seqs of
      None \<Rightarrow> s
    | Some q \<Rightarrow> strip_front seqs n (drop (length q) s))"

definition TrimSpace :: "string \<Rightarrow> string" where
  "TrimSpace s =
    (let s = strip_front space_seqs (length s) s
     in rev (strip_front (map rev space_seqs) (length s) (rev s)))"

text \<open>The lines of the file, as \<open>bufio.Scanner\<close> gives them, from line \<open>n\<close>: the distinct AIDs in the order of
  their first line.\<close>

fun file_aids :: "(aid \<Rightarrow> bool) \<Rightarrow> nat \<Rightarrow> string list \<Rightarrow> aid list \<Rightarrow> admission_error + aid list" where
  "file_aids validAID n [] aids = Inr aids"
| "file_aids validAID n (l # ls) aids =
    (let line = TrimSpace l in
     if line = [] \<or> take 1 line = ''#'' then file_aids validAID (Suc n) ls aids
     else if \<not> validAID line then Inl (BadLineError n)
     else file_aids validAID (Suc n) ls (if line \<in> set aids then aids else aids @ [line]))"

fun admit_all :: "hub_conf \<Rightarrow> int \<Rightarrow> string \<Rightarrow> bool \<Rightarrow> time_ns \<Rightarrow> aid list \<Rightarrow> accounts \<times> nat \<Rightarrow> admission_error + (accounts \<times> nat)" where
  "admit_all h grant label labelSet now [] s = Inr s"
| "admit_all h grant label labelSet now (a # as) (ac, n) =
    rbind (admitTx h a grant label labelSet now ac) (\<lambda>(ac, r).
      admit_all h grant label labelSet now as (ac, if Registered r then Suc n else n))"

definition AdmitFile ::
  "(aid \<Rightarrow> bool) \<Rightarrow> hub_conf \<Rightarrow> string list \<Rightarrow> int \<Rightarrow> string \<Rightarrow> bool \<Rightarrow> time_ns \<Rightarrow> accounts \<Rightarrow>
   admission_error + (accounts \<times> nat \<times> nat)" where
  "AdmitFile validAID h lines grant label labelSet now ac =
    (if grant < 0 then Inl ErrNegativeGrant
     else rbind (file_aids validAID 1 lines []) (\<lambda>aids.
       rbind (admit_all h grant label labelSet now aids (ac, 0)) (\<lambda>(ac, registered).
         Inr (ac, length aids, registered))))"

definition isAdmitted :: "accounts \<Rightarrow> aid \<Rightarrow> bool" where
  "isAdmitted ac a = has_key (ac_admitted ac) a"

section \<open>Sign-up windows\<close>

definition openWindow :: "time_ns \<Rightarrow> accounts \<Rightarrow> window option" where
  "openWindow now ac =
    (let ms = unix_milli now in List.find (\<lambda>w. w_opens w \<le> ms \<and> w_closes w > ms) (rev (ac_windows ac)))"

definition OpenWindow :: "int \<Rightarrow> int \<Rightarrow> string \<Rightarrow> time_ns \<Rightarrow> accounts \<Rightarrow> admission_error + (accounts \<times> window)" where
  "OpenWindow d mx label now ac =
    (if d \<le> 0 \<or> d > MaxWindowLength \<or> mx \<le> 0 \<or> mx > MaxWindowSize then Inl ErrWindowTooBig
     else (case openWindow now ac of
       Some w \<Rightarrow> Inl (ErrWindowOpen w)
     | None \<Rightarrow>
       (let i = ac_window_seq ac + 1;
            w = \<lparr>w_id = i, w_opens = unix_milli now, w_closes = unix_milli (now + d), w_max = mx, w_used = 0, w_label = label\<rparr>
        in Inr (ac\<lparr>ac_windows := ac_windows ac @ [w], ac_window_seq := i\<rparr>, w))))"

definition set_window :: "int \<Rightarrow> (window \<Rightarrow> window) \<Rightarrow> accounts \<Rightarrow> accounts" where
  "set_window i f ac = ac\<lparr>ac_windows := map (\<lambda>w. if w_id w = i then f w else w) (ac_windows ac)\<rparr>"

definition CloseWindow :: "time_ns \<Rightarrow> accounts \<Rightarrow> accounts \<times> window option" where
  "CloseWindow now ac =
    (case openWindow now ac of
      None \<Rightarrow> (ac, None)
    | Some w \<Rightarrow> (set_window (w_id w) (\<lambda>w. w\<lparr>w_closes := unix_milli now\<rparr>) ac, Some (w\<lparr>w_closes := unix_milli now\<rparr>)))"

record admissions =
  as_mode :: string
  as_window :: "window option"
  as_admitted :: "(aid \<times> admitted_row) list"

definition ListAdmissions :: "time_ns \<Rightarrow> accounts \<Rightarrow> admissions" where
  "ListAdmissions now ac =
    \<lparr>as_mode = admissionMode ac, as_window = openWindow now ac,
     as_admitted = sort_key (\<lambda>(_, r). ad_created r) (sort_key fst (ac_admitted ac))\<rparr>"

section \<open>An account\<close>

definition ProbationUntil :: "time_ns \<Rightarrow> accounts \<Rightarrow> aid \<Rightarrow> millis option \<times> bool" where
  "ProbationUntil now ac a =
    (case map_of (ac_agents ac) a of
      None \<Rightarrow> (None, False)
    | Some g \<Rightarrow> (case ag_probation g of None \<Rightarrow> (None, False) | Some p \<Rightarrow> (Some p, now < p * ms_ns)))"

record trial_state =
  ts_probation_until :: "u64 option"
  ts_trial :: "trial option"

definition trialStateOf :: "accounts \<Rightarrow> aid \<Rightarrow> trial_state" where
  "trialStateOf ac a =
    (case map_of (ac_agents ac) a of
      None \<Rightarrow> \<lparr>ts_probation_until = None, ts_trial = None\<rparr>
    | Some g \<Rightarrow>
      if ag_via g = viaList \<or> ag_trial g \<noteq> trialPending \<and> ag_trial g \<noteq> trialGranted
      then \<lparr>ts_probation_until = None, ts_trial = None\<rparr>
      else \<lparr>ts_probation_until = (case ag_probation g of None \<Rightarrow> None | Some p \<Rightarrow> if p \<ge> 0 then Some (word_of_int p) else None),
            ts_trial = Some (ag_trial g)\<rparr>)"

text \<open>\<open>seen\<close> is the agent row as it was read before the transaction; the row may have changed since.\<close>

definition trial_due :: "time_ns \<Rightarrow> agent_row \<Rightarrow> bool" where
  "trial_due now g \<longleftrightarrow> ag_trial g = trialPending \<and> (case ag_probation g of None \<Rightarrow> False | Some p \<Rightarrow> p \<le> unix_milli now)"

definition maybeGrantTrial ::
  "gate_core \<Rightarrow> hub_conf \<Rightarrow> bytes \<Rightarrow> time_ns \<Rightarrow> aid \<Rightarrow> bytes option \<Rightarrow> agent_row option \<Rightarrow> gate \<Rightarrow> accounts \<Rightarrow>
   gate \<times> accounts \<times> (admission_error + bool)" where
  "maybeGrantTrial c h draw now a ip seen g ac =
    (case seen of
      None \<Rightarrow> (g, ac, Inr False)
    | Some row \<Rightarrow>
      if \<not> trial_due now row then (g, ac, Inr False)
      else (case reserveTrial c draw ip now g of (g, hold) \<Rightarrow>
        (case hold of
          None \<Rightarrow> (g, ac, Inr False)
        | Some _ \<Rightarrow>
          (case map_of (ac_agents ac) a of
            None \<Rightarrow> (release hold g, ac, Inr False)
          | Some r \<Rightarrow>
            if \<not> trial_due now r then (release hold g, ac, Inr False)
            else (case ledger_issue h now a TrialCredits reasonTrialCredit
                    (ac\<lparr>ac_agents := AList.update a (r\<lparr>ag_trial := trialGranted\<rparr>) (ac_agents ac)\<rparr>) of
              Inl e \<Rightarrow> (release hold g, ac, Inl e)
            | Inr ac' \<Rightarrow> (g, ac', Inr True))))))"

section \<open>Beside a new registration\<close>

definition writeAdmissionTx :: "hub_conf \<Rightarrow> time_ns \<Rightarrow> aid \<Rightarrow> via \<Rightarrow> int \<Rightarrow> time_ns \<Rightarrow> accounts \<Rightarrow> admission_error + accounts" where
  "writeAdmissionTx h now a v win adm_now ac =
    (case v of
      viaList \<Rightarrow>
        if \<not> has_key (ac_admitted ac) a then Inl errNotAdmitted
        else
          rbind (payListGrantTx h now a
            (ac\<lparr>ac_agents := (case map_of (ac_agents ac) a of None \<Rightarrow> ac_agents ac
               | Some g \<Rightarrow> AList.update a (g\<lparr>ag_via := viaList, ag_probation := None, ag_trial := trialNone\<rparr>) (ac_agents ac))\<rparr>))
            (\<lambda>(ac, _). Inr ac)
    | viaRegistered \<Rightarrow> Inl ErrUnknownRoute
    | _ \<Rightarrow>
        rbind (if v = viaWindow then
                 (if list_ex (\<lambda>w. w_id w = win \<and> w_used w < w_max w) (ac_windows ac)
                  then Inr (set_window win (\<lambda>w. if w_used w < w_max w then w\<lparr>w_used := w_used w + 1\<rparr> else w) ac)
                  else Inl errWindowFilled)
               else Inr ac)
          (\<lambda>ac. Inr (ac\<lparr>ac_agents := (case map_of (ac_agents ac) a of None \<Rightarrow> ac_agents ac
             | Some g \<Rightarrow> AList.update a (g\<lparr>ag_via := v, ag_probation := Some (unix_milli (adm_now + ProbationPeriod)),
                                       ag_trial := trialPending\<rparr>) (ac_agents ac))\<rparr>)))"

text \<open>The gate of \<open>/register\<close> for an AID not registered here (\<open>server.go\<close>, \<open>admissionGate\<close>): refused, or what
  the registration writes beside its row and the hold to give back. \<open>pow\<close> is the seed and the nonce
  of the request's proof of work.\<close>

datatype gate_refusal = AdmissionRequired | PowRequired challenge | RegistrationQuota int

datatype gate_answer = CheckAdmitted via int "gate_hold option" | CheckOpenOnly | CheckOpen via int "gate_hold option"

definition admissionGate ::
  "gate_core \<Rightarrow> hub_conf \<Rightarrow> bytes \<Rightarrow> aid \<Rightarrow> bool \<Rightarrow> (bytes \<times> bytes) option \<Rightarrow> bytes option \<Rightarrow> time_ns \<Rightarrow> accounts \<Rightarrow> gate \<Rightarrow>
   gate \<times> (gate_refusal + gate_answer)" where
  "admissionGate c h draw a checkOnly pow ip now ac g =
    (if isAdmitted ac a then (g, Inr (CheckAdmitted viaList 0 None))
     else
      (let mode = admissionMode ac; win = openWindow now ac in
       if mode \<noteq> AdmissionOpen \<and> (case win of None \<Rightarrow> True | Some w \<Rightarrow> w_used w \<ge> w_max w)
       then (g, Inl AdmissionRequired)
       else if checkOnly then (g, Inr CheckOpenOnly)
       else if (case pow of None \<Rightarrow> True | Some (seed, nonce) \<Rightarrow> \<not> checkPow c (hubAID h) a seed nonce now g)
       then (g, Inl (PowRequired (challenge_at c now g)))
       else if mode = AdmissionOpen then
         (case reserveSignup c draw ip now g of (g, hold) \<Rightarrow>
           (case hold of None \<Rightarrow> (g, Inl (RegistrationQuota (untilTomorrow now)))
            | Some hh \<Rightarrow> (g, Inr (CheckOpen viaOpen 0 (Some hh)))))
       else (case win of
         None \<Rightarrow> (g, Inl AdmissionRequired)
       | Some w \<Rightarrow>
         (case reserveWindow w g of (g, hold) \<Rightarrow>
           (case hold of None \<Rightarrow> (g, Inl AdmissionRequired)
            | Some hh \<Rightarrow> (g, Inr (CheckOpen viaWindow (w_id w) (Some hh))))))))"

end
