(* ===== verification/Wire_Numbers.thy ===== *)
theory Wire_Numbers
  imports Hub_Prelude
begin

text \<open>
  Decimal numbers as the hub reads and writes them: the times of a request's headers (\<open>auth2.go\<close>) and
  the count in the file \<open>kel_hwm\<close> (\<open>restore.go\<close>). What is read back is what was written.
\<close>

section \<open>Reading and writing\<close>

text \<open>\<open>strconv.ParseUint(s, 10, 64)\<close> and \<open>strconv.FormatUint(n, 10)\<close>.\<close>

fun digits_val :: "nat \<Rightarrow> string \<Rightarrow> nat option" where
  "digits_val n [] = Some n"
| "digits_val n (c # s) =
    (let d = of_char c :: nat in if 48 \<le> d \<and> d \<le> 57 then digits_val (10 * n + (d - 48)) s else None)"

definition ParseUint :: "string \<Rightarrow> u64 option" where
  "ParseUint s =
    (if s = [] then None
     else (case digits_val 0 s of
       None \<Rightarrow> None
     | Some n \<Rightarrow> if n < 18446744073709551616 then Some (word_of_nat n) else None))"

fun format_nat :: "nat \<Rightarrow> string" where
  "format_nat n = (if n < 10 then [char_of (48 + n)] else format_nat (n div 10) @ [char_of (48 + n mod 10)])"

declare format_nat.simps [simp del]

definition FormatUint :: "u64 \<Rightarrow> string" where
  "FormatUint n = format_nat (unat n)"

definition canonical_uint :: "string \<Rightarrow> u64 option" where
  "canonical_uint s = (case ParseUint s of None \<Rightarrow> None | Some n \<Rightarrow> if FormatUint n \<noteq> s then None else Some n)"

lemma digits_val_snoc:
  "digits_val m s = Some n \<Longrightarrow> d < 10 \<Longrightarrow> digits_val m (s @ [char_of (48 + d)]) = Some (10 * n + d)"
  by (induction m s rule: digits_val.induct) (auto simp: Let_def split: if_splits)

lemma digits_val_format: "digits_val 0 (format_nat n) = Some n"
proof (induction n rule: format_nat.induct)
  case (1 n)
  show ?case
  proof (cases "n < 10")
    case True
    then show ?thesis by (simp add: format_nat.simps Let_def)
  next
    case False
    from digits_val_snoc [OF "1.IH" [OF False], of "n mod 10"] False show ?thesis
      by (simp add: format_nat.simps [of n])
  qed
qed

lemma format_nat_not_Nil [simp]: "format_nat n \<noteq> []"
  by (subst format_nat.simps) simp

lemma ParseUint_FormatUint: "ParseUint (FormatUint n) = Some n"
proof -
  have "unat n < 2 ^ LENGTH(64)" by (rule unsigned_less)
  then have "unat n < 18446744073709551616" by simp
  then show ?thesis by (simp add: ParseUint_def FormatUint_def digits_val_format)
qed

lemma canonical_uint_Some: "canonical_uint s = Some n \<longleftrightarrow> s = FormatUint n"
  by (auto simp: canonical_uint_def ParseUint_FormatUint split: option.splits if_splits)

section \<open>One spelling\<close>

lemma digits_val_append:
  "digits_val m (s @ [ch]) = (case digits_val m s of None \<Rightarrow> None
     | Some v \<Rightarrow> let d = of_char ch :: nat in if 48 \<le> d \<and> d \<le> 57 then Some (10 * v + (d - 48)) else None)"
  by (induction m s rule: digits_val.induct) (auto simp: Let_def split: if_splits)

lemma digits_val_pos: "digits_val 0 s = Some v \<Longrightarrow> s \<noteq> [] \<Longrightarrow> hd s \<noteq> CHR ''0'' \<Longrightarrow> 0 < v"
proof (induction s arbitrary: v rule: rev_induct)
  case Nil
  then show ?case by simp
next
  case (snoc ch s)
  from snoc.prems(1) obtain u where u: "digits_val 0 s = Some u" "48 \<le> (of_char ch :: nat)" "v = 10 * u + (of_char ch - 48)"
    by (auto simp: digits_val_append Let_def split: option.splits if_splits)
  show ?case
  proof (cases "s = []")
    case True
    with snoc.prems have "ch \<noteq> CHR ''0''" by simp
    then have "(of_char ch :: nat) \<noteq> of_char (CHR ''0'')" by (simp only: of_char_eq_iff not_False_eq_True)
    with u show ?thesis by simp
  next
    case False
    with snoc.IH [OF u(1) False] snoc.prems u show ?thesis by simp
  qed
qed

lemma format_digits_val:
  "digits_val 0 s = Some v \<Longrightarrow> s \<noteq> [] \<Longrightarrow> length s = 1 \<or> hd s \<noteq> CHR ''0'' \<Longrightarrow> format_nat v = s"
proof (induction s arbitrary: v rule: rev_induct)
  case Nil
  then show ?case by simp
next
  case (snoc ch s)
  from snoc.prems(1) obtain u where u: "digits_val 0 s = Some u" "48 \<le> (of_char ch :: nat)" "(of_char ch :: nat) \<le> 57"
    "v = 10 * u + (of_char ch - 48)"
    by (auto simp: digits_val_append Let_def split: option.splits if_splits)
  show ?case
  proof (cases "s = []")
    case True
    with u show ?thesis by (simp add: format_nat.simps)
  next
    case False
    with snoc.prems have hd0: "hd s \<noteq> CHR ''0''" by (simp add: Suc_length_conv)
    then have "0 < u" using digits_val_pos [OF u(1) False] by simp
    moreover have "format_nat u = s" using snoc.IH [OF u(1) False] hd0 by simp
    moreover obtain d where d: "(of_char ch :: nat) = 48 + d" "d < 10"
    proof
      show "(of_char ch :: nat) = 48 + (of_char ch - 48)" using u(2) by (rule le_add_diff_inverse [symmetric])
      show "(of_char ch :: nat) - 48 < 10" using u(3) by linarith
    qed
    moreover have "ch = char_of (48 + d)" by (simp only: d(1) [symmetric] char_of_char)
    ultimately show ?thesis using u(4) by (subst format_nat.simps) simp
  qed
qed

lemma length_format_nat: "n < 10 ^ k \<Longrightarrow> 0 < k \<Longrightarrow> length (format_nat n) \<le> k"
proof (induction n arbitrary: k rule: format_nat.induct)
  case (1 n)
  show ?case
  proof (cases "n < 10")
    case True
    with 1 show ?thesis by (simp add: format_nat.simps)
  next
    case False
    then have k: "1 < k" using 1(2,3) by (cases "k = 1") simp_all
    then have "n div 10 < 10 ^ (k - 1)" using 1(2) by (simp add: less_mult_imp_div_less power_eq_if mult.commute)
    with 1(1) [OF False this] k False show ?thesis by (subst format_nat.simps) simp
  qed
qed

definition decimal_digit :: "char \<Rightarrow> bool" where
  "decimal_digit ch \<longleftrightarrow> 48 \<le> (of_char ch :: nat) \<and> (of_char ch :: nat) \<le> 57"

lemma format_nat_digits: "list_all decimal_digit (format_nat n)"
proof (induction n rule: format_nat.induct)
  case (1 n)
  then show ?case by (cases "n < 10") (simp_all add: format_nat.simps [of n] decimal_digit_def)
qed

lemma format_nat_leading: "length (format_nat n) > 1 \<Longrightarrow> hd (format_nat n) \<noteq> CHR ''0''"
proof (induction n rule: format_nat.induct)
  case (1 n)
  show ?case
  proof (cases "n < 10")
    case True
    with 1(2) show ?thesis by (simp add: format_nat.simps)
  next
    case False
    show ?thesis
    proof (cases "n div 10 < 10")
      case True
      have "hd (format_nat n) = char_of (48 + n div 10)" using False True by (simp add: format_nat.simps [of n] format_nat.simps [of "n div 10"])
      moreover have "(of_char (char_of (48 + n div 10)) :: nat) \<noteq> of_char (CHR ''0'')" using False True by simp
      ultimately show ?thesis by (metis of_char_eq_iff)
    next
      case big: False
      then have "length (format_nat (n div 10)) > 1" by (subst format_nat.simps) (simp add: Suc_lessI)
      with 1(1) [OF False] False show ?thesis by (simp add: format_nat.simps [of n])
    qed
  qed
qed

end
