(* ===== verification/Signed_Requests.thy ===== *)
theory Signed_Requests
  imports Signed_Times_Machine Admission Facilitator Wire_Numbers
begin

text \<open>
  \<open>internal/aghub/auth2.go\<close>: the signed requests. The headers are parsed, the time is looked at, the
  signature is checked under the tip of the signer's stored key history, and only then is RC1 asked.
  The preimage, the verification of an object and the decoding of a signature are ANetCore's: the
  record \<open>sign_core\<close>. A header's values are a function of its name.
\<close>

section \<open>The headers\<close>

record sign_core =
  sn_core :: core
  ValidAID :: "aid \<Rightarrow> bool"
  DecodeSig :: "string \<Rightarrow> bytes option"
  PreimageV2 :: "string \<Rightarrow> aid \<Rightarrow> aid \<Rightarrow> u64 \<Rightarrow> string \<Rightarrow> string \<Rightarrow> bytes \<Rightarrow> bytes"
  ReplayAID :: "kel \<Rightarrow> aid"
  VerifyObject :: "kel \<Rightarrow> aid \<Rightarrow> u64 \<Rightarrow> u64 \<Rightarrow> bytes \<Rightarrow> bytes \<Rightarrow> bool"

record v2_auth =
  va_aid :: aid
  va_ts :: u64
  va_seq :: u64
  va_sig :: bytes

datatype header_error = errNoAuthHeaders | errSignerNotAnAID | ErrTSHeader | ErrSeqHeader | ErrSigHeader

definition singleHeader :: "(string \<Rightarrow> string list) \<Rightarrow> string \<Rightarrow> string option" where
  "singleHeader hs name = (case hs name of [v] \<Rightarrow> if v = [] then None else Some v | _ \<Rightarrow> None)"

definition parseV2Headers :: "sign_core \<Rightarrow> (string \<Rightarrow> string list) \<Rightarrow> header_error + v2_auth" where
  "parseV2Headers sn hs =
    (case (singleHeader hs ''X-ANet-AID'', singleHeader hs ''X-ANet-TS'', singleHeader hs ''X-ANet-Seq'',
           singleHeader hs ''X-ANet-Sig'') of
      (Some a, Some ts, Some sq, Some sg) \<Rightarrow>
        if \<not> ValidAID sn a then Inl errSignerNotAnAID
        else (case canonical_uint ts of
          None \<Rightarrow> Inl ErrTSHeader
        | Some t \<Rightarrow> (case canonical_uint sq of
            None \<Rightarrow> Inl ErrSeqHeader
          | Some q \<Rightarrow> (case DecodeSig sn sg of
              None \<Rightarrow> Inl ErrSigHeader
            | Some b \<Rightarrow> Inr \<lparr>va_aid = a, va_ts = t, va_seq = q, va_sig = b\<rparr>)))
    | _ \<Rightarrow> Inl errNoAuthHeaders)"

section \<open>The signature\<close>

datatype auth_failure = NoHubIdentity | OutsideWindow | BadSignature | KeyRetired | TsStale u64 | Replayed

definition signatureFailure :: "sign_core \<Rightarrow> v2_auth \<Rightarrow> bytes \<Rightarrow> kel \<Rightarrow> auth_failure option" where
  "signatureFailure sn a pre k =
    (if plausibleSignature (sn_core sn) k (va_seq a) pre (va_sig a) \<noteq> None then Some BadSignature
     else (case Replay (sn_core sn) k of
       None \<Rightarrow> Some BadSignature
     | Some states \<Rightarrow>
       if ReplayAID sn k \<noteq> va_aid a then Some BadSignature
       else
        (let tip = last states in
         if va_seq a \<noteq> StKeyStateSeq tip \<or> StStatus tip \<noteq> StatusActive then Some KeyRetired
         else if \<not> VerifyObject sn k (va_aid a) (va_seq a) (va_ts a) pre (va_sig a) then Some BadSignature
         else None)))"

section \<open>RC1\<close>

definition rc1K :: "time_ns \<Rightarrow> accounts \<Rightarrow> aid \<Rightarrow> bool \<Rightarrow> int" where
  "rc1K now ac a registering =
    (if registering \<and> \<not> has_key (ac_agents ac) a then rc1KNew
     else if snd (ProbationUntil now ac a) then rc1KNew else rc1KAgent)"

definition rc1Check ::
  "rc1_env \<Rightarrow> bool \<Rightarrow> bool \<Rightarrow> v2_auth \<Rightarrow> int \<Rightarrow> millis \<Rightarrow> rc1_state \<Rightarrow> rc1_state \<times> auth_failure option" where
  "rc1Check e free first a k now r =
    (case accept e free first (va_aid a) (va_ts a) k now r of (r, v) \<Rightarrow>
      (r, case v of rc1Stale floor \<Rightarrow> Some (TsStale floor) | rc1Replayed \<Rightarrow> Some Replayed
                  | rc1Outside \<Rightarrow> Some OutsideWindow | rc1Accepted \<Rightarrow> None))"

text \<open>A request: its action, whether that is a registration, its method, target and body.\<close>

record v2_request =
  rq_action :: string
  rq_register :: bool
  rq_method :: string
  rq_uri :: string
  rq_body :: bytes

definition request_preimage :: "sign_core \<Rightarrow> aid \<Rightarrow> v2_request \<Rightarrow> v2_auth \<Rightarrow> bytes" where
  "request_preimage sn hub q a = PreimageV2 sn (rq_action q) (va_aid a) hub (va_ts a) (rq_method q) (rq_uri q) (rq_body q)"

definition verifyV2 ::
  "sign_core \<Rightarrow> rc1_env \<Rightarrow> bool \<Rightarrow> bool \<Rightarrow> aid \<Rightarrow> v2_request \<Rightarrow> v2_auth \<Rightarrow> kel \<Rightarrow> time_ns \<Rightarrow> accounts \<Rightarrow> rc1_state \<Rightarrow>
   rc1_state \<times> auth_failure option" where
  "verifyV2 sn e free first hub q a k now ac r =
    (if hub = [] then (r, Some NoHubIdentity)
     else
      (let now_ms = unix_milli now in
       if \<not> rc1InWindow e (va_ts a) now_ms then (r, Some OutsideWindow)
       else (case signatureFailure sn a (request_preimage sn hub q a) k of
         Some f \<Rightarrow> (r, Some f)
       | None \<Rightarrow> rc1Check e free first a (rc1K now ac (va_aid a) (rq_register q)) now_ms r)))"

section \<open>What an accepted request is\<close>

text \<open>A request that passes was signed under the tip of the stored key history, over its own method,
  target and body and this hub's AID.\<close>

definition signed_at_tip :: "sign_core \<Rightarrow> aid \<Rightarrow> v2_request \<Rightarrow> v2_auth \<Rightarrow> kel \<Rightarrow> bool" where
  "signed_at_tip sn hub q a k \<longleftrightarrow>
    (\<exists>states. Replay (sn_core sn) k = Some states \<and> ReplayAID sn k = va_aid a \<and>
       va_seq a = StKeyStateSeq (last states) \<and> StStatus (last states) = StatusActive) \<and>
    VerifyObject sn k (va_aid a) (va_seq a) (va_ts a) (request_preimage sn hub q a) (va_sig a)"

lemma signatureFailure_None:
  "signatureFailure sn a (request_preimage sn hub q a) k = None \<Longrightarrow> signed_at_tip sn hub q a k"
  by (auto simp: signatureFailure_def signed_at_tip_def Let_def split: option.splits if_splits)

lemma verifyV2_None:
  assumes "verifyV2 sn e free first hub q a k now ac r = (r', None)"
  shows "signed_at_tip sn hub q a k"
    and "accept e free first (va_aid a) (va_ts a) (rc1K now ac (va_aid a) (rq_register q)) (unix_milli now) r = (r', rc1Accepted)"
  using assms signatureFailure_None
  by (auto simp: verifyV2_def rc1Check_def Let_def split: if_splits option.splits prod.splits rc1_verdict.splits)

lemma accept_outside_window:
  assumes "accept e free first a ts k now r = (r', v)"
  shows "v = rc1Outside \<longleftrightarrow> \<not> rc1InWindow e ts now"
  using accept_verdict [OF assms]
  by (auto simp: request_at_def acceptLocked_def Let_def split: prod.splits option.splits sum.splits if_splits)

text \<open>A request that does not get as far as RC1 leaves no trace in it.\<close>

lemma verifyV2_untouched:
  assumes "verifyV2 sn e free first hub q a k now ac r = (r', Some f)"
  shows "(\<exists>floor. f = TsStale floor) \<or> f = Replayed \<or> r' = r \<and> f \<in> {NoHubIdentity, OutsideWindow, BadSignature, KeyRetired}"
proof -
  have "f \<in> {BadSignature, KeyRetired}" if "signatureFailure sn a p k = Some f" for p f
    using that by (auto simp: signatureFailure_def Let_def split: option.splits if_splits)
  moreover have "\<not> rc1InWindow e (va_ts a) (unix_milli now)"
    if "accept e free first (va_aid a) (va_ts a) (rc1K now ac (va_aid a) (rq_register q)) (unix_milli now) r = (r', rc1Outside)"
    using accept_outside_window [OF that] by simp
  ultimately show ?thesis using assms
    by (auto simp: verifyV2_def rc1Check_def Let_def split: if_splits option.splits prod.splits rc1_verdict.splits)
qed

text \<open>A time RC1 accepts is inside the window and was not accepted before.\<close>

lemma accepted_is_new:
  assumes "rc1_reachable e start w" "accept e free first a ts k now (rw_state w) = (r', rc1Accepted)"
  shows "rc1InWindow e ts now \<and> (a, ts) \<notin> set (rw_log w)"
proof -
  have ok: "rc1_ok e start w" by (rule rc1_reachable_ok [OF assms(1)])
  obtain r2 v2 where q: "request_at e a ts k now (rw_state w) = (r2, v2)" by force
  with accept_verdict [OF assms(2)] request_ok(2) [OF ok q] have "rc1InWindow e ts now"
    "\<not> covered a ts (rc_shards (rw_state w) ! shard_of e a (rw_state w))" by auto
  with ok show ?thesis by (auto simp: rc1_ok_def)
qed

end
