(* ===== verification/Request_Properties.thy ===== *)
theory Request_Properties
  imports Signed_Requests Demo
begin

text \<open>
  The properties of signed requests (RC1 and the verification before it), each applied to a hub with
  two parts that started at the millisecond 1000000 and has 300 seconds of skew.
\<close>

section \<open>An instance\<close>

definition demo_rc1 :: rc1_env where
  "demo_rc1 = \<lparr>Skew = 300000, Hash = (\<lambda>a. of_nat (length a)), Grow = (\<lambda>c n. n)\<rparr>"

definition demo_rc1_state :: rc1_state where
  "demo_rc1_state = newRC1 1000000 2 200 150"

definition demo_rc1_world :: rc1_world where
  "demo_rc1_world = \<lparr>rw_state = demo_rc1_state, rw_log = [], rw_now = 1000000\<rparr>"

lemma demo_rc1_reachable: "rc1_reachable demo_rc1 1000000 demo_rc1_world"
  unfolding demo_rc1_world_def demo_rc1_state_def by (rule rc1_start) simp

definition demo_rc1_once :: rc1_state where
  "demo_rc1_once = fst (accept demo_rc1 True True ''alice'' 1000500 64 1000600 demo_rc1_state)"

lemma demo_rc1_first: "accept demo_rc1 True True ''alice'' 1000500 64 1000600 demo_rc1_state = (demo_rc1_once, rc1Accepted)"
proof -
  have "snd (accept demo_rc1 True True ''alice'' 1000500 64 1000600 demo_rc1_state) = rc1Accepted" by code_simp
  then show ?thesis by (simp add: demo_rc1_once_def prod_eq_iff)
qed

section \<open>One time, once\<close>

lemma rc1_run_reachable: "rc1_run e w w' \<Longrightarrow> rc1_reachable e start w \<Longrightarrow> rc1_reachable e start w'"
  by (induction rule: rtranclp_induct) (auto intro: rc1_next)

text \<open>C22: A signed time is accepted at most once. Whatever requests, sweeps and demotions ran before, in any
  interleaving and with any clock, forwards or back, a request is accepted only with a time in the
  window that this signer has never been accepted with; and what the request leaves is again such a
  world, with exactly the accepted time added.\<close>

theorem signed_time_accepted_once:
  assumes "rc1_reachable e start w" and "accept e free first a ts k now (rw_state w) = (r', v)"
  shows "(v = rc1Accepted \<longrightarrow> (a, ts) \<notin> set (rw_log w) \<and> rc1InWindow e ts now) \<and>
    rc1_reachable e start \<lparr>rw_state = r', rw_log = log_verdict a ts v (rw_log w), rw_now = max (rw_now w) now\<rparr>"
proof -
  have ok: "rc1_ok e start w" by (rule rc1_reachable_ok [OF assms(1)])
  then have "rc_shards (rw_state w) \<noteq> []" by (simp add: rc1_ok_def)
  from accept_is_run [OF assms(2) this, of "rw_log w" "rw_now w"]
  have "rc1_run e w \<lparr>rw_state = r', rw_log = log_verdict a ts v (rw_log w), rw_now = max (rw_now w) now\<rparr>" by (cases w) simp
  then have r: "rc1_reachable e start \<lparr>rw_state = r', rw_log = log_verdict a ts v (rw_log w), rw_now = max (rw_now w) now\<rparr>"
    using assms(1) by (rule rc1_run_reachable)
  from rc1_reachable_ok [OF r] have "distinct (log_verdict a ts v (rw_log w))" by (simp add: rc1_ok_def)
  moreover have "v = rc1Accepted \<Longrightarrow> rc1InWindow e ts now"
    using accept_verdict [OF assms(2)] request_ok(2) [OF ok] by (cases "request_at e a ts k now (rw_state w)") auto
  ultimately show ?thesis using r by (auto simp: log_verdict_def)
qed

theorem signed_time_accepted_once_witness:
  "rc1_reachable demo_rc1 1000000 \<lparr>rw_state = demo_rc1_once, rw_log = [(''alice'', 1000500)], rw_now = 1000600\<rparr> \<and>
   snd (accept demo_rc1 True True ''alice'' 1000500 64 1000700 demo_rc1_once) = rc1Replayed"
proof -
  have "accept demo_rc1 True True ''alice'' 1000500 64 1000600 (rw_state demo_rc1_world) = (demo_rc1_once, rc1Accepted)"
    using demo_rc1_first by (simp add: demo_rc1_world_def)
  from signed_time_accepted_once [OF demo_rc1_reachable this]
  have "rc1_reachable demo_rc1 1000000 \<lparr>rw_state = demo_rc1_once, rw_log = [(''alice'', 1000500)], rw_now = 1000600\<rparr>"
    by (simp add: log_verdict_def demo_rc1_world_def)
  moreover have "snd (accept demo_rc1 True True ''alice'' 1000500 64 1000700 demo_rc1_once) = rc1Replayed"
    by code_simp
  ultimately show ?thesis by simp
qed

text \<open>C23: A signer whose clock runs forwards is always accepted. In any reachable world, whatever other signers
  sent and whatever was swept or demoted to save memory, a request whose time is later than every time
  this signer was accepted with, not before the hub's start and within the window of the hub's
  clock, which has not stepped back, is accepted.\<close>

theorem later_time_is_accepted:
  assumes "rc1_reachable e start w" and "1 \<le> start" "start \<le> uint ts" and "rw_now w \<le> now"
    and "rc1InWindow e ts now" and "\<forall>x. (a, x) \<in> set (rw_log w) \<longrightarrow> x < ts"
  shows "snd (accept e free first a ts k now (rw_state w)) = rc1Accepted"
proof -
  have ok: "rc1_ok e start w" by (rule rc1_reachable_ok [OF assms(1)])
  obtain r' v where q: "request_at e a ts k now (rw_state w) = (r', v)" by force
  have "v = rc1Accepted"
    using request_ok(2) [OF ok q] above_all_not_covered [OF ok assms(2,3,4,5,6)] assms(5) by blast
  moreover obtain r2 v2 where a: "accept e free first a ts k now (rw_state w) = (r2, v2)" by force
  ultimately show ?thesis using accept_verdict [OF a] q by simp
qed

theorem later_time_is_accepted_witness:
  "snd (accept demo_rc1 False False ''alice'' 1000500 64 1000600 (rw_state demo_rc1_world)) = rc1Accepted"
proof -
  have u: "uint (1000500 :: u64) = 1000500" by simp
  have "rc1InWindow demo_rc1 1000500 1000600" by code_simp
  then show ?thesis
    using later_time_is_accepted [OF demo_rc1_reachable, of 1000500 1000600 "''alice''"]
    by (simp add: demo_rc1_world_def u)
qed

text \<open>The memory of RC1 is counted exactly and the valve works. In every reachable world the estimate the
  valve compares is the sum over the signers of what each is charged; and when the estimate is above the
  high mark and the valve is due, the one run of it ends below the low mark or with every signer
  left strictly monotonic, keeping no times.\<close>

theorem rc1_memory_is_counted:
  assumes "rc1_reachable e start w"
  shows "rc_bytes (rw_state w) = (\<Sum>sh \<leftarrow> rc_shards (rw_state w). \<Sum>(a, s) \<leftarrow> sh_signers sh. signerBytes a s) \<and>
    (rc_bytes (rw_state w) > rc_high (rw_state w) \<longrightarrow> rc_next_valve (rw_state w) \<le> now \<longrightarrow>
      rc_bytes (relieve e True now (rw_state w)) < rc_low (relieve e True now (rw_state w)) \<or>
      (\<forall>i < length (rc_shards (rw_state w)). \<forall>a s. signer_at (relieve e True now (rw_state w)) i a = Some s \<longrightarrow> sg_cap s = 0))"
proof -
  have "rc1_ok e start w" by (rule rc1_reachable_ok [OF assms])
  then have "rc_bytes (rw_state w) = (\<Sum>sh \<leftarrow> rc_shards (rw_state w). \<Sum>(a, s) \<leftarrow> sh_signers sh. signerBytes a s)"
    by (simp add: rc1_ok_def all_bytes_def shard_bytes_def [abs_def])
  with relieve_spec show ?thesis by blast
qed

definition demo_rc1_full :: rc1_world where
  "demo_rc1_full = \<lparr>rw_state = fst (accept demo_rc1 False False ''bob'' 1000501 64 1000601
       (fst (accept demo_rc1 False False ''carol'' 1000500 64 1000600 demo_rc1_state))),
     rw_log = [(''bob'', 1000501), (''carol'', 1000500)], rw_now = 1000601\<rparr>"

lemma demo_rc1_full_reachable: "rc1_reachable demo_rc1 1000000 demo_rc1_full"
proof -
  let ?a = "accept demo_rc1 False False ''carol'' 1000500 64 1000600 demo_rc1_state"
  let ?b = "accept demo_rc1 False False ''bob'' 1000501 64 1000601 (fst ?a)"
  have va: "snd ?a = rc1Accepted" by code_simp
  have vb: "snd ?b = rc1Accepted" by code_simp
  let ?w1 = "\<lparr>rw_state = fst ?a, rw_log = [(''carol'', 1000500 :: u64)], rw_now = 1000600\<rparr>"
  have start: "rc_shards (rw_state demo_rc1_world) \<noteq> []"
    by (simp add: demo_rc1_world_def demo_rc1_state_def newRC1_def)
  have a: "accept demo_rc1 False False ''carol'' 1000500 64 1000600 demo_rc1_state = (fst ?a, rc1Accepted)"
    using va by (simp add: prod_eq_iff)
  have b: "accept demo_rc1 False False ''bob'' 1000501 64 1000601 (fst ?a) = (fst ?b, rc1Accepted)"
    using vb by (simp add: prod_eq_iff)
  from accept_is_run [OF a, of "[]" 1000000] start
  have "rc1_run demo_rc1 demo_rc1_world ?w1" by (simp add: demo_rc1_world_def log_verdict_def)
  from rc1_run_reachable [OF this demo_rc1_reachable] have r1: "rc1_reachable demo_rc1 1000000 ?w1" .
  from rc1_reachable_ok [OF r1] have "rc_shards (fst ?a) \<noteq> []" by (simp add: rc1_ok_def)
  from accept_is_run [OF b this, of "[(''carol'', 1000500)]" 1000600]
  have "rc1_run demo_rc1 ?w1 demo_rc1_full" by (simp add: demo_rc1_full_def log_verdict_def)
  from rc1_run_reachable [OF this r1] show ?thesis .
qed

theorem rc1_memory_is_counted_witness:
  "rc_bytes (rw_state demo_rc1_full) = 216 \<and> rc_bytes (relieve demo_rc1 True 1002000 (rw_state demo_rc1_full)) = 200 \<and>
   map_option sg_cap (signer_at (relieve demo_rc1 True 1002000 (rw_state demo_rc1_full)) 1 ''bob'') = Some 0"
proof -
  let ?r = "relieve demo_rc1 True 1002000 (rw_state demo_rc1_full)"
  have v: "rc_high (rw_state demo_rc1_full) < rc_bytes (rw_state demo_rc1_full)" "rc_next_valve (rw_state demo_rc1_full) \<le> 1002000"
    "rc_bytes (rw_state demo_rc1_full) = 216" "rc_bytes ?r = 200" "\<not> rc_bytes ?r < rc_low ?r"
    "1 < length (rc_shards (rw_state demo_rc1_full))"
    by code_simp+
  have "signer_at ?r 1 ''bob'' \<noteq> None" by code_simp
  then obtain s where s: "signer_at ?r 1 ''bob'' = Some s" by blast
  from rc1_memory_is_counted [OF demo_rc1_full_reachable, of 1002000] v s have "sg_cap s = 0" by blast
  with v s show ?thesis by simp
qed

section \<open>The kept times\<close>

lemma trim_more_fuel: "trim_recent n k s = Some t \<Longrightarrow> n \<le> m \<Longrightarrow> trim_recent m k s = Some t"
proof (induction n arbitrary: s m)
  case 0
  then show ?case by (simp add: trim_recent.simps split: if_splits)
next
  case (Suc n)
  then obtain j where "m = Suc j" "n \<le> j" by (cases m) auto
  with Suc show ?case by (simp add: trim_recent.simps [of "Suc _"] split: if_splits)
qed

text \<open>C24: The loop that raises a signer's floor until few enough times are kept ends, after at most one round
  for each kept time, whatever the fuel above that: it keeps at most as many times as the signer may
  have, and every time that was used up before stays used up.\<close>

theorem trim_loop_ends:
  assumes "signer_ok s" and "length (sg_recent s) \<le> fuel"
  shows "\<exists>t. trim_recent fuel (max k 1) s = Some t \<and> trim_recent (length (sg_recent s)) (max k 1) s = Some t \<and>
    signer_ok t \<and> int (length (sg_recent t)) \<le> max k 1 \<and> sg_max t = sg_max s \<and> (\<forall>x. used x s \<longrightarrow> used x t)"
proof -
  obtain t where t: "trim_recent (length (sg_recent s)) (max k 1) s = Some t" "signer_ok t"
    "int (length (sg_recent t)) \<le> max k 1" "sg_max t = sg_max s" "\<forall>x. used x s \<longrightarrow> used x t"
    using trim_recent_ends [OF assms(1), of "max k 1" "length (sg_recent s)"] by auto
  with trim_more_fuel [OF t(1) assms(2)] show ?thesis by blast
qed

definition demo_signer :: rc1_signer where
  "demo_signer = \<lparr>sg_floor = 10, sg_max = 40, sg_recent = [20, 21, 40], sg_cap = 4\<rparr>"

theorem trim_loop_ends_witness:
  "\<exists>t. trim_recent 9 (max 1 1) demo_signer = Some t \<and> sg_max t = 40 \<and> sg_recent t = [40] \<and> used 21 t"
proof -
  have "max_time = 4611686018427387904" by code_simp
  then have ok: "signer_ok demo_signer" by (auto simp: signer_ok_def demo_signer_def)
  have "length (sg_recent demo_signer) \<le> 9" by (simp add: demo_signer_def)
  from trim_loop_ends [OF ok this, of 1] obtain t where t: "trim_recent 9 (max 1 1) demo_signer = Some t"
    "sg_max t = 40" "used 21 demo_signer \<longrightarrow> used 21 t"
    by (auto simp: demo_signer_def)
  have "map_option sg_recent (trim_recent 9 (max 1 1) demo_signer) = Some [40]" by code_simp
  with t have "sg_recent t = [40]" by simp
  moreover have "used 21 demo_signer" by code_simp
  ultimately show ?thesis using t by blast
qed

section \<open>A verified request\<close>

text \<open>C25: What \<open>verifyV2\<close> lets through is a request for this hub, in the window, signed over its own method,
  target and body under the tip of the stored key history of its signer, which is active, with a time
  that signer was not accepted with before. A request refused before its time is looked at leaves RC1
  as it was, so nobody can use up the times of another.\<close>

theorem verified_request_is_signed:
  assumes "rc1_reachable e start w"
    and "verifyV2 sn e free first hub q a k now ac (rw_state w) = (r', res)"
  shows "(res = None \<longrightarrow> signed_at_tip sn hub q a k \<and> rc1InWindow e (va_ts a) (unix_milli now) \<and>
      (va_aid a, va_ts a) \<notin> set (rw_log w)) \<and>
    (\<forall>f \<in> {NoHubIdentity, OutsideWindow, BadSignature, KeyRetired}. res = Some f \<longrightarrow> r' = rw_state w)"
proof -
  have "signed_at_tip sn hub q a k \<and> rc1InWindow e (va_ts a) (unix_milli now) \<and> (va_aid a, va_ts a) \<notin> set (rw_log w)"
    if "res = None"
    using verifyV2_None [OF assms(2) [unfolded that]] accepted_is_new [OF assms(1)] by blast
  moreover have "r' = rw_state w" if "res = Some f" "f \<in> {NoHubIdentity, OutsideWindow, BadSignature, KeyRetired}" for f
    using verifyV2_untouched [OF assms(2) [unfolded that(1)]] that(2) by auto
  ultimately show ?thesis by blast
qed

definition demo_sign :: sign_core where
  "demo_sign = \<lparr>sn_core = demo_core, ValidAID = (\<lambda>a. a \<noteq> []), DecodeSig = (\<lambda>s. Some [1]),
     PreimageV2 = (\<lambda>act a hub ts m u b. [0]), ReplayAID = (\<lambda>k. ''alice''), VerifyObject = (\<lambda>k a sq ts p sg. sg = [1])\<rparr>"

definition demo_request :: v2_request where
  "demo_request = \<lparr>rq_action = ''poll'', rq_register = False, rq_method = ''GET'', rq_uri = ''/mailbox'', rq_body = []\<rparr>"

definition demo_v2 :: "bytes \<Rightarrow> v2_auth" where
  "demo_v2 sg = \<lparr>va_aid = ''alice'', va_ts = 1000500, va_seq = 0, va_sig = sg\<rparr>"

definition demo_accounts :: accounts where
  "demo_accounts = \<lparr>ac_agents = [], ac_admitted = [], ac_windows = [], ac_window_seq = 0, ac_mode = None, ac_ledger = empty_ledger\<rparr>"

theorem verified_request_is_signed_witness:
  "\<exists>r'. verifyV2 demo_sign demo_rc1 True True ''H'' demo_request (demo_v2 [1]) demo_kel (1000600 * ms_ns) demo_accounts
       demo_rc1_state = (r', None) \<and> signed_at_tip demo_sign ''H'' demo_request (demo_v2 [1]) demo_kel \<and>
   verifyV2 demo_sign demo_rc1 True True ''H'' demo_request (demo_v2 [2]) demo_kel (1000600 * ms_ns) demo_accounts
       demo_rc1_state = (demo_rc1_state, Some BadSignature)"
proof -
  let ?v = "\<lambda>sg. verifyV2 demo_sign demo_rc1 True True ''H'' demo_request (demo_v2 sg) demo_kel (1000600 * ms_ns) demo_accounts
       (rw_state demo_rc1_world)"
  have w: "rw_state demo_rc1_world = demo_rc1_state" by (simp add: demo_rc1_world_def)
  obtain r1 f1 r2 f2 where v: "?v [1] = (r1, f1)" "?v [2] = (r2, f2)" by force
  have "snd (?v [1]) = None" "snd (?v [2]) = Some BadSignature" by code_simp+
  with v have f: "f1 = None" "f2 = Some BadSignature" by simp_all
  from verified_request_is_signed [OF demo_rc1_reachable v(1)] f(1)
  have "signed_at_tip demo_sign ''H'' demo_request (demo_v2 [1]) demo_kel" by simp
  moreover from verified_request_is_signed [OF demo_rc1_reachable v(2)] f(2) have "r2 = rw_state demo_rc1_world" by simp
  ultimately show ?thesis using v f w by simp
qed

end
