(* ===== verification/Admission_Laws.thy ===== *)
theory Admission_Laws
  imports Admission
begin

text \<open>
  The laws of admission, and the accounts over time. Every payment goes through the ledger's \<open>issueTx\<close>
  and keeps its books; the sign-up windows keep their places; a trial credit is paid once per
  registration.
\<close>

section \<open>Payments\<close>

lemma ledger_issue_Inr:
  "ledger_issue h now a amt reason ac = Inr ac' \<longleftrightarrow>
     (\<exists>l. issueTx h now a amt reason (ac_ledger ac) = Inr l \<and> ac' = ac\<lparr>ac_ledger := l\<rparr>)"
  by (auto simp: ledger_issue_def split: sum.splits)

text \<open>The books after an operation: kept, or one issuance to an account that is not the hub's own.\<close>

definition paid_to :: "hub_conf \<Rightarrow> time_ns \<Rightarrow> aid \<Rightarrow> int \<Rightarrow> ledger \<Rightarrow> ledger \<Rightarrow> bool" where
  "paid_to h now a amt l l' \<longleftrightarrow> (amt = 0 \<and> l' = l) \<or> (0 < amt \<and> (\<exists>reason. issueTx h now a amt reason l = Inr l'))"

lemma paid_to_supply_ok:
  "paid_to h now a amt l l' \<Longrightarrow> a \<noteq> hubAID h \<Longrightarrow> amt \<le> max_int64 \<Longrightarrow> supply_ok h l \<Longrightarrow> supply_ok h l'"
  using issueTx_creditTx creditTx_supply_ok unfolding paid_to_def by metis

lemma paid_to_balance:
  assumes "paid_to h now a amt l l'" and "hubAID h \<noteq> []" "a \<noteq> hubAID h" "amt \<le> max_int64"
  shows "Balance l' b = (if b = a then Balance l a + amt else if b = hubAID h then Balance l b - amt else Balance l b)"
    and "issued l' = issued l + amt"
proof -
  have "(Balance l' b = (if b = a then Balance l a + amt else if b = hubAID h then Balance l b - amt else Balance l b)) \<and>
      issued l' = issued l + amt"
  proof (cases "amt = 0")
    case True
    with assms(1) show ?thesis by (auto simp: paid_to_def)
  next
    case False
    with assms(1) obtain reason where "issueTx h now a amt reason l = Inr l'" by (auto simp: paid_to_def)
    then have "creditTx h now a amt reason l = Inr l'" by (auto dest: issueTx_creditTx)
    note c = creditTx_Inr [OF this assms(2,3) False assms(4)]
    from c(4) show ?thesis using assms(3) by (auto simp: Balance_def c(3) table_simps)
  qed
  then show "Balance l' b = (if b = a then Balance l a + amt else if b = hubAID h then Balance l b - amt else Balance l b)"
    and "issued l' = issued l + amt" by blast+
qed

lemma payListGrantTx_Inr:
  assumes "payListGrantTx h now a ac = Inr (ac', n)"
  shows "paid_to h now a n (ac_ledger ac) (ac_ledger ac')" and "0 \<le> n"
    and "ac' = ac\<lparr>ac_ledger := ac_ledger ac', ac_admitted := ac_admitted ac'\<rparr>"
    and "n = 0 \<Longrightarrow> ac' = ac"
    and "n \<noteq> 0 \<Longrightarrow> \<exists>r. map_of (ac_admitted ac) a = Some r \<and> ad_granted r = 0 \<and> n = ad_grant r \<and>
           ac_admitted ac' = AList.update a (r\<lparr>ad_granted := 1\<rparr>) (ac_admitted ac)"
  using assms by (auto simp: payListGrantTx_def rbind_eq_Inr ledger_issue_Inr paid_to_def split: option.splits if_splits)

lemma admit_list_row_grant:
  assumes "admit_list_row a grant label labelSet now ac = (r, already)"
  shows "ad_grant r = (case map_of (ac_admitted ac) a of None \<Rightarrow> grant
      | Some r0 \<Rightarrow> if grant > 0 \<and> ad_granted r0 = 0 then grant else ad_grant r0)"
    and "ad_granted r = (case map_of (ac_admitted ac) a of None \<Rightarrow> 0 | Some r0 \<Rightarrow> ad_granted r0)"
  using assms by (auto simp: admit_list_row_def Let_def split: option.splits if_splits)

text \<open>What \<open>admitTx\<close> does, in every case.\<close>

lemma admitTx_Inr:
  assumes run: "admitTx h a grant label labelSet now ac = Inr (ac', res)"
  obtains r where "map_of (ac_admitted ac') a = Some r"
    "\<And>b. b \<noteq> a \<Longrightarrow> map_of (ac_admitted ac') b = map_of (ac_admitted ac) b"
    "ac_agents ac' = (case map_of (ac_agents ac) a of None \<Rightarrow> ac_agents ac
       | Some g \<Rightarrow> AList.update a (vouched (unix_milli now) g) (ac_agents ac))"
    "ac_windows ac' = ac_windows ac" "ac_window_seq ac' = ac_window_seq ac" "ac_mode ac' = ac_mode ac"
    "paid_to h now a (Paid res) (ac_ledger ac) (ac_ledger ac')" "0 \<le> Paid res"
    "Registered res \<longleftrightarrow> has_key (ac_agents ac) a" "Paid res \<noteq> 0 \<Longrightarrow> has_key (ac_agents ac) a"
    "ad_grant r = (case map_of (ac_admitted ac) a of None \<Rightarrow> grant
       | Some r0 \<Rightarrow> if grant > 0 \<and> ad_granted r0 = 0 then grant else ad_grant r0)"
    "Paid res = (if has_key (ac_agents ac) a \<and> (case map_of (ac_admitted ac) a of None \<Rightarrow> True | Some r0 \<Rightarrow> ad_granted r0 = 0) \<and>
       ad_grant r > 0 then ad_grant r else 0)"
    "ad_granted r = (if Paid res \<noteq> 0 then 1 else case map_of (ac_admitted ac) a of None \<Rightarrow> 0 | Some r0 \<Rightarrow> ad_granted r0)"
proof -
  obtain r already where row: "admit_list_row a grant label labelSet now ac = (r, already)" by force
  note R = admit_list_row_grant [OF row]
  let ?ac = "ac\<lparr>ac_admitted := AList.update a r (ac_admitted ac)\<rparr>"
  show thesis
  proof (cases "map_of (ac_agents ac) a")
    case None
    with run row have "ac' = ?ac" "Paid res = 0" "\<not> Registered res" by (auto simp: admitTx_def)
    with None R show thesis
      by (intro that [of r]) (auto simp: table_simps has_key_def paid_to_def split: option.split)
  next
    case (Some g)
    let ?ac2 = "?ac\<lparr>ac_agents := AList.update a (vouched (unix_milli now) g) (ac_agents ac)\<rparr>"
    show thesis
    proof (cases "ad_granted r = 0 \<and> ad_grant r > 0")
      case False
      with run row Some have "ac' = ?ac2" "Paid res = 0" "Registered res" by (auto simp: admitTx_def Let_def)
      with Some False R show thesis
        by (intro that [of r]) (auto simp: table_simps has_key_def paid_to_def split: option.splits)
    next
      case True
      with run row Some obtain n where pay: "payListGrantTx h now a ?ac2 = Inr (ac', n)"
        and res: "Paid res = n" "Registered res"
        by (auto simp: admitTx_def Let_def rbind_eq_Inr)
      note P = payListGrantTx_Inr [OF pay]
      have n: "n = ad_grant r" "n \<noteq> 0"
        using pay True by (auto simp: payListGrantTx_def table_simps rbind_eq_Inr)
      with P(5) have adm: "ac_admitted ac' = AList.update a (r\<lparr>ad_granted := 1\<rparr>) (AList.update a r (ac_admitted ac))"
        by (auto simp: table_simps)
      have rest: "ac_agents ac' = ac_agents ?ac2" "ac_windows ac' = ac_windows ac" "ac_window_seq ac' = ac_window_seq ac" "ac_mode ac' = ac_mode ac"
        by (subst P(3), simp)+
      show thesis
        by (rule that [of "r\<lparr>ad_granted := 1\<rparr>"])
          (use P(1,2) n True R res Some in \<open>auto simp: adm rest table_simps has_key_def split: option.splits\<close>)
    qed
  qed
qed

section \<open>The accounts over time\<close>

text \<open>
  \<open>a_register\<close> is the admission part of a registration of an AID that was not registered; \<open>a_leave\<close> a
  deregistration, which takes the list row with it when the admission was revoked; \<open>a_again\<close> anything
  that changes the other columns of a registered account; \<open>a_sweep\<close> the deletion of old windows;
  \<open>a_ledger\<close> any other operation of the ledger that keeps its books.
\<close>

inductive adm_step :: "(aid \<Rightarrow> bool) \<Rightarrow> gate_core \<Rightarrow> hub_conf \<Rightarrow> time_ns \<Rightarrow> accounts \<times> gate \<Rightarrow> accounts \<times> gate \<Rightarrow> bool"
  for valid :: "aid \<Rightarrow> bool" and c :: gate_core and h :: hub_conf where
  a_admit: "Admit valid h a grant label labelSet now ac = Inr (ac', res) \<Longrightarrow> grant \<le> max_int64 \<Longrightarrow>
     adm_step valid c h now (ac, g) (ac', g)"
| a_mode: "SetAdmissionMode mode ac = Inr ac' \<Longrightarrow> adm_step valid c h now (ac, g) (ac', g)"
| a_open: "OpenWindow d mx label now ac = Inr (ac', w) \<Longrightarrow> adm_step valid c h now (ac, g) (ac', g)"
| a_close: "CloseWindow now ac = (ac', w) \<Longrightarrow> adm_step valid c h now (ac, g) (ac', g)"
| a_register: "\<not> has_key (ac_agents ac) a \<Longrightarrow> a \<noteq> hubAID h \<Longrightarrow>
     writeAdmissionTx h now a v win adm_now
       (ac\<lparr>ac_agents := AList.update a (k\<lparr>ag_via := viaList, ag_probation := None, ag_trial := trialNone\<rparr>) (ac_agents ac)\<rparr>)
       = Inr ac' \<Longrightarrow> adm_step valid c h now (ac, g) (ac', g')"
| a_trial: "maybeGrantTrial c h draw now a ip seen g ac = (g', ac', res) \<Longrightarrow> adm_step valid c h now (ac, g) (ac', g')"
| a_again: "map_of (ac_agents ac) a = Some r \<Longrightarrow> ag_via k = ag_via r \<Longrightarrow> ag_probation k = ag_probation r \<Longrightarrow>
     ag_trial k = ag_trial r \<Longrightarrow> adm_step valid c h now (ac, g) (ac\<lparr>ac_agents := AList.update a k (ac_agents ac)\<rparr>, g)"
| a_leave: "adm_step valid c h now (ac, g)
     (ac\<lparr>ac_agents := AList.delete a (ac_agents ac), ac_admitted := (if revoked then AList.delete a (ac_admitted ac) else ac_admitted ac)\<rparr>, g)"
| a_sweep: "adm_step valid c h now (ac, g) (ac\<lparr>ac_windows := filter (\<lambda>w. \<not> w_closes w < x) (ac_windows ac)\<rparr>, g)"
| a_ledger: "(supply_ok h (ac_ledger ac) \<longrightarrow> supply_ok h l) \<Longrightarrow> adm_step valid c h now (ac, g) (ac\<lparr>ac_ledger := l\<rparr>, g)"

inductive_cases adm_stepE: "adm_step valid c h now s s'"

inductive adm_reachable :: "(aid \<Rightarrow> bool) \<Rightarrow> gate_core \<Rightarrow> hub_conf \<Rightarrow> time_ns \<Rightarrow> accounts \<times> gate \<Rightarrow> bool"
  for valid :: "aid \<Rightarrow> bool" and c :: gate_core and h :: hub_conf where
  adm_start: "adm_reachable valid c h t (\<lparr>ac_agents = [], ac_admitted = [], ac_windows = [], ac_window_seq = 0, ac_mode = None,
     ac_ledger = empty_ledger\<rparr>, newAdmissionGate k bits)"
| adm_next: "adm_reachable valid c h t s \<Longrightarrow> adm_step valid c h now s s' \<Longrightarrow> t \<le> now \<Longrightarrow> adm_reachable valid c h now s'"

definition windows_ok :: "time_ns \<Rightarrow> accounts \<Rightarrow> bool" where
  "windows_ok t ac \<longleftrightarrow> sorted_wrt (\<lambda>v w. w_id v < w_id w \<and> w_closes v \<le> unix_milli t) (ac_windows ac) \<and>
     (\<forall>w \<in> set (ac_windows ac). 1 \<le> w_id w \<and> w_id w \<le> ac_window_seq ac \<and> w_opens w \<le> unix_milli t \<and>
        0 \<le> w_used w \<and> w_used w \<le> w_max w \<and> w_max w \<le> MaxWindowSize) \<and> 0 \<le> ac_window_seq ac"

definition accounts_ok :: "hub_conf \<Rightarrow> accounts \<Rightarrow> bool" where
  "accounts_ok h ac \<longleftrightarrow> supply_ok h (ac_ledger ac) \<and> \<not> has_key (ac_agents ac) (hubAID h) \<and>
     (\<forall>a r. map_of (ac_admitted ac) a = Some r \<longrightarrow> ad_grant r \<le> max_int64)"

lemma set_window_sel [simp]:
  "ac_agents (set_window i f ac) = ac_agents ac" "ac_admitted (set_window i f ac) = ac_admitted ac"
  "ac_ledger (set_window i f ac) = ac_ledger ac" "ac_window_seq (set_window i f ac) = ac_window_seq ac"
  by (simp_all add: set_window_def)

lemma sorted_wrt_map_same:
  "sorted_wrt R xs \<Longrightarrow> (\<And>x y. x \<in> set xs \<Longrightarrow> y \<in> set xs \<Longrightarrow> R x y \<Longrightarrow> R (f x) (f y)) \<Longrightarrow> sorted_wrt R (map f xs)"
  by (induction xs) auto

text \<open>The admission part of a registration, by its route.\<close>

lemma writeAdmissionTx_list:
  assumes "writeAdmissionTx h now a viaList win adm_now ac = Inr ac'"
  obtains n where "has_key (ac_admitted ac) a" "paid_to h now a n (ac_ledger ac) (ac_ledger ac')"
    "n = 0 \<and> ac_admitted ac' = ac_admitted ac \<or> (\<exists>r. map_of (ac_admitted ac) a = Some r \<and> ad_granted r = 0 \<and> n = ad_grant r \<and>
       ac_admitted ac' = AList.update a (r\<lparr>ad_granted := 1\<rparr>) (ac_admitted ac))"
    "ac_agents ac' = (case map_of (ac_agents ac) a of None \<Rightarrow> ac_agents ac
        | Some g \<Rightarrow> AList.update a (g\<lparr>ag_via := viaList, ag_probation := None, ag_trial := trialNone\<rparr>) (ac_agents ac))"
    "ac_windows ac' = ac_windows ac" "ac_window_seq ac' = ac_window_seq ac" "ac_mode ac' = ac_mode ac"
proof -
  let ?ac = "ac\<lparr>ac_agents := (case map_of (ac_agents ac) a of None \<Rightarrow> ac_agents ac
        | Some g \<Rightarrow> AList.update a (g\<lparr>ag_via := viaList, ag_probation := None, ag_trial := trialNone\<rparr>) (ac_agents ac))\<rparr>"
  from assms obtain n where k: "has_key (ac_admitted ac) a" and pay: "payListGrantTx h now a ?ac = Inr (ac', n)"
    by (auto simp: writeAdmissionTx_def rbind_eq_Inr split: if_splits)
  note P = payListGrantTx_Inr [OF pay]
  have "ac_agents ac' = ac_agents ?ac" "ac_windows ac' = ac_windows ac" "ac_window_seq ac' = ac_window_seq ac" "ac_mode ac' = ac_mode ac"
    by (subst P(3), simp)+
  moreover have "n = 0 \<and> ac_admitted ac' = ac_admitted ac \<or> (\<exists>r. map_of (ac_admitted ac) a = Some r \<and> ad_granted r = 0 \<and>
      n = ad_grant r \<and> ac_admitted ac' = AList.update a (r\<lparr>ad_granted := 1\<rparr>) (ac_admitted ac))"
    using P(4,5) by (cases "n = 0") auto
  ultimately show thesis using k P(1) by (intro that [of n]) auto
qed

lemma writeAdmissionTx_gate:
  assumes run: "writeAdmissionTx h now a v win adm_now ac = Inr ac'" and v: "v = viaWindow \<or> v = viaOpen"
  shows "ac_ledger ac' = ac_ledger ac" and "ac_admitted ac' = ac_admitted ac"
    and "ac_window_seq ac' = ac_window_seq ac" and "ac_mode ac' = ac_mode ac"
    and "ac_agents ac' = (case map_of (ac_agents ac) a of None \<Rightarrow> ac_agents ac
        | Some g \<Rightarrow> AList.update a (g\<lparr>ag_via := v, ag_probation := Some (unix_milli (adm_now + ProbationPeriod)),
             ag_trial := trialPending\<rparr>) (ac_agents ac))"
    and "ac_windows ac' = ac_windows ac \<or>
      ac_windows ac' = map (\<lambda>w. if w_id w = win \<and> w_used w < w_max w then w\<lparr>w_used := w_used w + 1\<rparr> else w) (ac_windows ac)"
proof -
  define ac1 where "ac1 = (if v = viaWindow
    then set_window win (\<lambda>w. if w_used w < w_max w then w\<lparr>w_used := w_used w + 1\<rparr> else w) ac else ac)"
  have eq: "ac' = ac1\<lparr>ac_agents := (case map_of (ac_agents ac1) a of None \<Rightarrow> ac_agents ac1
        | Some g \<Rightarrow> AList.update a (g\<lparr>ag_via := v, ag_probation := Some (unix_milli (adm_now + ProbationPeriod)),
             ag_trial := trialPending\<rparr>) (ac_agents ac1))\<rparr>"
    using v run unfolding writeAdmissionTx_def ac1_def by (elim disjE) (simp_all add: rbind_eq_Inr split: if_split_asm)
  have ag: "ac_agents ac1 = ac_agents ac" by (simp add: ac1_def set_window_def)
  show "ac_ledger ac' = ac_ledger ac" "ac_admitted ac' = ac_admitted ac" "ac_window_seq ac' = ac_window_seq ac" "ac_mode ac' = ac_mode ac"
    unfolding eq by (simp_all add: ac1_def set_window_def)
  show "ac_agents ac' = (case map_of (ac_agents ac) a of None \<Rightarrow> ac_agents ac
        | Some g \<Rightarrow> AList.update a (g\<lparr>ag_via := v, ag_probation := Some (unix_milli (adm_now + ProbationPeriod)),
             ag_trial := trialPending\<rparr>) (ac_agents ac))"
    unfolding eq ag by simp
  have "map (\<lambda>w. if w_id w = win then if w_used w < w_max w then w\<lparr>w_used := w_used w + 1\<rparr> else w else w) (ac_windows ac) =
      map (\<lambda>w. if w_id w = win \<and> w_used w < w_max w then w\<lparr>w_used := w_used w + 1\<rparr> else w) (ac_windows ac)"
    by (rule map_cong) auto
  then show "ac_windows ac' = ac_windows ac \<or>
      ac_windows ac' = map (\<lambda>w. if w_id w = win \<and> w_used w < w_max w then w\<lparr>w_used := w_used w + 1\<rparr> else w) (ac_windows ac)"
    unfolding eq by (simp add: ac1_def set_window_def)
qed

text \<open>A trial grant.\<close>

lemma maybeGrantTrial_cases:
  assumes "maybeGrantTrial c h draw now a ip seen g ac = (g', ac', res)"
  obtains (not_paid) "ac' = ac" "res \<noteq> Inr True"
  | (paid) r l where "res = Inr True" "map_of (ac_agents ac) a = Some r" "trial_due now r"
    "issueTx h now a TrialCredits reasonTrialCredit (ac_ledger ac) = Inr l"
    "ac' = ac\<lparr>ac_agents := AList.update a (r\<lparr>ag_trial := trialGranted\<rparr>) (ac_agents ac), ac_ledger := l\<rparr>"
    "\<exists>hold. reserveTrial c draw ip now g = (g', Some hold)"
proof (cases "\<exists>row. seen = Some row \<and> trial_due now row")
  case False
  then have "ac' = ac" "res = Inr False" using assms by (auto simp: maybeGrantTrial_def split: option.splits if_splits)
  then show thesis by (intro not_paid) simp_all
next
  case True
  then obtain row where row: "seen = Some row" "trial_due now row" by blast
  obtain g1 hold where res: "reserveTrial c draw ip now g = (g1, hold)" by force
  show thesis
  proof (cases "\<exists>hh r. hold = Some hh \<and> map_of (ac_agents ac) a = Some r \<and> trial_due now r")
    case False
    with assms row res have "ac' = ac" "res = Inr False"
      by (auto simp: maybeGrantTrial_def split: option.splits if_splits)
    then show thesis by (intro not_paid) simp_all
  next
    case True
    then obtain hh r where r: "hold = Some hh" "map_of (ac_agents ac) a = Some r" "trial_due now r" by blast
    show thesis
    proof (cases "issueTx h now a TrialCredits reasonTrialCredit (ac_ledger ac)")
      case (Inl e)
      with assms row res r have "ac' = ac" "res = Inl (LedgerError e)" by (simp_all add: maybeGrantTrial_def ledger_issue_def)
      then show thesis by (intro not_paid) simp_all
    next
      case (Inr l)
      with assms row res r show thesis by (intro paid [of r l]) (simp_all add: maybeGrantTrial_def ledger_issue_def)
    qed
  qed
qed

section \<open>The invariant\<close>

lemma windows_ok_later: "windows_ok t ac \<Longrightarrow> t \<le> now \<Longrightarrow> windows_ok now ac"
proof -
  assume w: "windows_ok t ac" and le: "t \<le> now"
  have ms: "unix_milli t \<le> unix_milli now" by (rule unix_milli_mono [OF le])
  have "sorted_wrt (\<lambda>v w. w_id v < w_id w \<and> w_closes v \<le> unix_milli now) (ac_windows ac)"
    by (rule sorted_wrt_mono_rel [of _ "\<lambda>v w. w_id v < w_id w \<and> w_closes v \<le> unix_milli t"])
      (use w ms in \<open>auto simp: windows_ok_def\<close>)
  with w ms show ?thesis by (fastforce simp: windows_ok_def)
qed

lemma openWindow_None:
  "openWindow now ac = None \<longleftrightarrow> (\<forall>w \<in> set (ac_windows ac). \<not> (w_opens w \<le> unix_milli now \<and> unix_milli now < w_closes w))"
  by (auto simp: openWindow_def Let_def find_None_iff)

lemma openWindow_Some:
  "openWindow now ac = Some w \<Longrightarrow> w \<in> set (ac_windows ac) \<and> w_opens w \<le> unix_milli now \<and> unix_milli now < w_closes w"
proof -
  assume "openWindow now ac = Some w"
  then obtain i where "i < length (rev (ac_windows ac))" "rev (ac_windows ac) ! i = w"
    "w_opens w \<le> unix_milli now \<and> unix_milli now < w_closes w"
    by (auto simp: openWindow_def Let_def find_Some_iff)
  then show ?thesis by (metis nth_mem set_rev)
qed

lemma windows_ok_open:
  assumes "OpenWindow d mx label now ac = Inr (ac', w)" and "windows_ok now ac"
  shows "windows_ok now ac'"
proof -
  let ?w = "\<lparr>w_id = ac_window_seq ac + 1, w_opens = unix_milli now, w_closes = unix_milli (now + d), w_max = mx, w_used = 0,
     w_label = label\<rparr>"
  have none: "openWindow now ac = None" and ac': "ac' = ac\<lparr>ac_windows := ac_windows ac @ [?w], ac_window_seq := ac_window_seq ac + 1\<rparr>"
    and mx: "0 < mx" "mx \<le> MaxWindowSize"
    using assms(1) by (auto simp: OpenWindow_def Let_def split: if_splits option.splits)
  have closed: "\<forall>v \<in> set (ac_windows ac). w_closes v \<le> unix_milli now"
    using none assms(2) by (force simp: openWindow_None windows_ok_def)
  with assms(2) mx show ?thesis
    by (auto simp: ac' windows_ok_def sorted_wrt_append)
qed

lemma windows_ok_map:
  assumes "windows_ok now ac" and "\<And>w. w \<in> set (ac_windows ac) \<Longrightarrow> w_id (f w) = w_id w \<and> w_closes (f w) \<le> max (w_closes w) (unix_milli now) \<and>
      w_opens (f w) = w_opens w \<and> 0 \<le> w_used (f w) \<and> w_used (f w) \<le> w_max w \<and> w_max (f w) = w_max w"
    and "ac_windows ac' = map f (ac_windows ac)" and "ac_window_seq ac' = ac_window_seq ac"
  shows "windows_ok now ac'"
proof -
  have "sorted_wrt (\<lambda>v w. w_id v < w_id w \<and> w_closes v \<le> unix_milli now) (map f (ac_windows ac))"
  proof (rule sorted_wrt_map_same)
    show "sorted_wrt (\<lambda>v w. w_id v < w_id w \<and> w_closes v \<le> unix_milli now) (ac_windows ac)"
      using assms(1) by (simp add: windows_ok_def)
    fix x y assume "x \<in> set (ac_windows ac)" "y \<in> set (ac_windows ac)" "w_id x < w_id y \<and> w_closes x \<le> unix_milli now"
    with assms(2) [of x] assms(2) [of y] show "w_id (f x) < w_id (f y) \<and> w_closes (f x) \<le> unix_milli now" by auto
  qed
  with assms show ?thesis by (auto simp: windows_ok_def)
qed

lemma windows_ok_close:
  assumes "CloseWindow now ac = (ac', w)" and "windows_ok now ac"
  shows "windows_ok now ac'"
proof (cases "openWindow now ac")
  case None
  with assms show ?thesis by (simp add: CloseWindow_def)
next
  case (Some v)
  with assms(1) have "ac' = set_window (w_id v) (\<lambda>w. w\<lparr>w_closes := unix_milli now\<rparr>) ac" by (simp add: CloseWindow_def)
  then show ?thesis
    by (intro windows_ok_map [OF assms(2), where f = "\<lambda>w. if w_id w = w_id v then w\<lparr>w_closes := unix_milli now\<rparr> else w"])
      (use assms(2) in \<open>auto simp: set_window_def windows_ok_def\<close>)
qed

lemma adm_step_inv:
  assumes "adm_step valid c h now s s'" and "windows_ok t (fst s)" "accounts_ok h (fst s)" and "t \<le> now"
  shows "windows_ok now (fst s') \<and> accounts_ok h (fst s')"
proof -
  have w: "windows_ok now (fst s)" by (rule windows_ok_later [OF assms(2,4)])
  have books: "supply_ok h (ac_ledger (fst s))" and nohub: "\<not> has_key (ac_agents (fst s)) (hubAID h)"
    and grants: "\<And>a r. map_of (ac_admitted (fst s)) a = Some r \<Longrightarrow> ad_grant r \<le> max_int64"
    using assms(3) by (auto simp: accounts_ok_def)
  from assms(1) show ?thesis
  proof (cases rule: adm_step.cases)
    case (a_admit a grant label labelSet ac ac' res g)
    from a_admit(3) have tx: "admitTx h a grant label labelSet now ac = Inr (ac', res)"
      by (auto simp: Admit_def split: if_splits)
    from tx show ?thesis
    proof (cases rule: admitTx_Inr)
      case (1 r)
      have gr: "ad_grant r \<le> max_int64" using 1(11) a_admit(1,4) grants by (auto split: option.splits if_splits)
      then have "Paid res \<le> max_int64" using 1(12) by auto
      moreover have "a \<noteq> hubAID h" if "Paid res \<noteq> 0" using 1(10) [OF that] nohub a_admit(1) by auto
      ultimately have "supply_ok h (ac_ledger ac')"
        using paid_to_supply_ok [OF 1(7)] books a_admit(1) 1(7) by (cases "Paid res = 0") (auto simp: paid_to_def)
      moreover have "map_of (ac_admitted ac') b = Some r' \<Longrightarrow> ad_grant r' \<le> max_int64" for b r'
        using 1(1) 1(2) [of b] gr grants [of b] a_admit(1) by (cases "b = a") auto
      moreover have "\<not> has_key (ac_agents ac') (hubAID h)"
        using nohub a_admit(1) unfolding 1(3) by (auto simp: has_key_def table_simps split: option.splits)
      ultimately show ?thesis using w a_admit(1,2) 1(4,5) by (simp add: accounts_ok_def windows_ok_def)
    qed
  next
    case (a_mode mode ac ac' g)
    with w assms(3) show ?thesis by (auto simp: SetAdmissionMode_def windows_ok_def accounts_ok_def split: if_splits)
  next
    case (a_open d mx label ac ac' v g)
    with windows_ok_open [OF a_open(3)] w assms(3) show ?thesis
      by (auto simp: OpenWindow_def Let_def accounts_ok_def split: if_splits option.splits)
  next
    case (a_close ac ac' v g)
    with windows_ok_close [OF a_close(3)] w assms(3) show ?thesis
      by (auto simp: CloseWindow_def accounts_ok_def split: option.splits)
  next
    case (a_register ac a v win adm_now k ac' g g')
    let ?ac = "ac\<lparr>ac_agents := AList.update a (k\<lparr>ag_via := viaList, ag_probation := None, ag_trial := trialNone\<rparr>) (ac_agents ac)\<rparr>"
    have nohub': "\<not> has_key (ac_agents ?ac) (hubAID h)" using nohub a_register(1,4) by (simp add: table_simps)
    have key: "map_of (ac_agents ?ac) a \<noteq> None" by (simp add: table_simps)
    consider "v = viaList" | "v = viaWindow \<or> v = viaOpen"
      using a_register(5) by (cases v) (auto simp: writeAdmissionTx_def)
    then show ?thesis
    proof cases
      case 1
      from a_register(5) [unfolded 1] show ?thesis
      proof (cases rule: writeAdmissionTx_list)
        case (1 n)
        have n: "n \<le> max_int64" using 1(3) grants a_register(1) by auto
        have "supply_ok h (ac_ledger ac')"
          by (rule paid_to_supply_ok [OF 1(2) a_register(4) n]) (use books a_register(1) in simp)
        moreover have "map_of (ac_admitted ac') b = Some r' \<Longrightarrow> ad_grant r' \<le> max_int64" for b r'
          using 1(3) grants [of b] grants [of a] a_register(1) by (auto simp: table_simps split: if_splits)
        moreover have "\<not> has_key (ac_agents ac') (hubAID h)"
          using nohub a_register(1,4) unfolding 1(4) by (auto simp: has_key_def table_simps split: option.splits)
        ultimately show ?thesis using w a_register(1,2) 1(5,6) by (simp add: accounts_ok_def windows_ok_def)
      qed
    next
      case 2
      note G = writeAdmissionTx_gate [OF a_register(5) 2]
      have "\<not> has_key (ac_agents ac') (hubAID h)"
        using nohub a_register(1,4) unfolding G(5) by (auto simp: has_key_def table_simps split: option.splits)
      then have acc: "accounts_ok h ac'" using assms(3) G(1,2) a_register(1) by (simp add: accounts_ok_def)
      have "windows_ok now ac'"
      proof (rule disjE [OF G(6)])
        assume "ac_windows ac' = ac_windows ?ac"
        with w G(3) a_register(1) show ?thesis by (simp add: windows_ok_def)
      next
        assume m: "ac_windows ac' = map (\<lambda>w. if w_id w = win \<and> w_used w < w_max w then w\<lparr>w_used := w_used w + 1\<rparr> else w) (ac_windows ?ac)"
        show ?thesis
          by (rule windows_ok_map [where ac = ac and f = "\<lambda>w. if w_id w = win \<and> w_used w < w_max w then w\<lparr>w_used := w_used w + 1\<rparr> else w"])
            (use m w G(3) a_register(1) in \<open>auto simp: windows_ok_def\<close>)
      qed
      with acc a_register(2) show ?thesis by simp
    qed
  next
    case (a_trial draw a ip seen g ac g' ac' res)
    from a_trial(3) show ?thesis
    proof (cases rule: maybeGrantTrial_cases)
      case not_paid
      with w assms(3) a_trial show ?thesis by simp
    next
      case (paid r l)
      have ah: "a \<noteq> hubAID h" using paid(2) nohub a_trial(1) by (auto simp: has_key_def)
      have "paid_to h now a TrialCredits (ac_ledger ac) l" using paid(4) by (auto simp: paid_to_def TrialCredits_def)
      then have "supply_ok h l"
        by (rule paid_to_supply_ok [OF _ ah]) (use books a_trial(1) in \<open>simp_all add: TrialCredits_def max_int64_def\<close>)
      with paid ah w assms(3) a_trial(1,2) show ?thesis by (auto simp: accounts_ok_def windows_ok_def table_simps)
    qed
  next
    case (a_again ac a r k g)
    with w assms(3) show ?thesis by (auto simp: accounts_ok_def windows_ok_def table_simps has_key_def)
  next
    case (a_leave ac g a revoked)
    with w assms(3) show ?thesis by (auto simp: accounts_ok_def windows_ok_def table_simps delete_conv' split: if_splits)
  next
    case (a_sweep ac g x)
    with w assms(3) show ?thesis by (auto simp: accounts_ok_def windows_ok_def sorted_wrt_filter)
  next
    case (a_ledger ac l g)
    with w assms(3) show ?thesis by (auto simp: accounts_ok_def windows_ok_def)
  qed
qed

lemma adm_reachable_inv:
  "adm_reachable valid c h t s \<Longrightarrow> hubAID h \<noteq> [] \<Longrightarrow> windows_ok t (fst s) \<and> accounts_ok h (fst s)"
proof (induction rule: adm_reachable.induct)
  case (adm_start t k bits)
  then show ?case by (simp add: windows_ok_def accounts_ok_def supply_ok_empty has_key_def)
next
  case (adm_next t s now s')
  then show ?case using adm_step_inv by blast
qed

text \<open>At most one window is open at a time.\<close>

lemma one_open:
  assumes "windows_ok t ac" and "t \<le> now" and "v \<in> set (ac_windows ac)" "w \<in> set (ac_windows ac)"
    and "unix_milli now < w_closes v" "unix_milli now < w_closes w"
  shows "v = w"
proof (rule ccontr)
  assume ne: "v \<noteq> w"
  have s: "sorted_wrt (\<lambda>v w. w_id v < w_id w \<and> w_closes v \<le> unix_milli now) (ac_windows ac)"
    using windows_ok_later [OF assms(1,2)] by (simp add: windows_ok_def)
  obtain i j where ij: "i < length (ac_windows ac)" "ac_windows ac ! i = v" "j < length (ac_windows ac)" "ac_windows ac ! j = w"
    using assms(3,4) by (auto simp: in_set_conv_nth)
  with ne have "i < j \<or> j < i" by (metis nat_neq_iff)
  with s ij have "w_closes v \<le> unix_milli now \<or> w_closes w \<le> unix_milli now"
    unfolding sorted_wrt_iff_nth_less by blast
  with assms(5,6) show False by linarith
qed

section \<open>One trial credit per registration\<close>

definition pays_trial :: "aid \<Rightarrow> time_ns \<Rightarrow> accounts \<times> gate \<Rightarrow> accounts \<times> gate \<Rightarrow> bool" where
  "pays_trial a t s s' \<longleftrightarrow> (\<exists>r r'. map_of (ac_agents (fst s)) a = Some r \<and> ag_trial r = trialPending \<and>
     map_of (ac_agents (fst s')) a = Some r' \<and> ag_trial r' = trialGranted)"

definition registers :: "aid \<Rightarrow> time_ns \<Rightarrow> accounts \<times> gate \<Rightarrow> accounts \<times> gate \<Rightarrow> bool" where
  "registers a t s s' \<longleftrightarrow> \<not> has_key (ac_agents (fst s)) a \<and> has_key (ac_agents (fst s')) a"

definition pending :: "aid \<Rightarrow> accounts \<times> gate \<Rightarrow> nat" where
  "pending a s = (case map_of (ac_agents (fst s)) a of Some r \<Rightarrow> if ag_trial r = trialPending then 1 else 0 | None \<Rightarrow> 0)"

lemma adm_step_trial:
  assumes "adm_step valid c h now s s'" and "map_of (ac_agents (fst s)) a = Some r" and "map_of (ac_agents (fst s')) a = Some r'"
  shows "ag_trial r' = trialPending \<Longrightarrow> ag_trial r = trialPending"
  using assms
proof (cases rule: adm_step.cases)
  case (a_admit b grant label labelSet ac ac' res g)
  from a_admit(3) have tx: "admitTx h b grant label labelSet now ac = Inr (ac', res)"
    by (auto simp: Admit_def split: if_splits)
  assume p: "ag_trial r' = trialPending"
  have ag: "ac_agents ac' = (case map_of (ac_agents ac) b of None \<Rightarrow> ac_agents ac
       | Some g \<Rightarrow> AList.update b (vouched (unix_milli now) g) (ac_agents ac))"
    using tx by (cases rule: admitTx_Inr)
  have "ag_trial r' \<noteq> trialPending \<or> r' = r"
    using assms(2,3) a_admit(1,2) unfolding ag [symmetric]
    by (cases "map_of (ac_agents ac) b") (auto simp: ag table_simps vouched_def split: if_splits)
  with p show ?thesis by blast
next
  case (a_register ac b v win adm_now k ac' g g')
  assume p: "ag_trial r' = trialPending"
  have ne: "b \<noteq> a" using a_register(1,3) assms(2) by (auto simp: has_key_def)
  consider "v = viaList" | "v = viaWindow \<or> v = viaOpen"
    using a_register(5) by (cases v) (auto simp: writeAdmissionTx_def)
  then have "map_of (ac_agents ac') a = map_of (ac_agents ac) a"
  proof cases
    case 1
    from a_register(5) [unfolded 1] show ?thesis
      by (cases rule: writeAdmissionTx_list) (use ne in \<open>auto simp: table_simps\<close>)
  next
    case 2
    from writeAdmissionTx_gate(5) [OF a_register(5) 2] ne show ?thesis by (auto simp: table_simps)
  qed
  with p assms(2,3) a_register(1,2) show ?thesis by simp
next
  case (a_trial draw b ip seen g ac g' ac' res)
  assume p: "ag_trial r' = trialPending"
  from a_trial(3) show ?thesis
    by (cases rule: maybeGrantTrial_cases) (use p assms(2,3) a_trial(1,2) in \<open>auto simp: table_simps split: if_splits\<close>)
qed (auto simp: SetAdmissionMode_def OpenWindow_def CloseWindow_def Let_def table_simps delete_conv' split: if_splits option.splits)

lemma trials_counted:
  "clock_run (adm_step valid c h) t s r \<Longrightarrow>
     count_firings (pays_trial a) s r \<le> count_firings (registers a) s r + pending a s"
proof (induction r arbitrary: t s)
  case (Cons x r)
  obtain t' s' where x: "x = (t', s')" by (cases x)
  from Cons.prems have st: "adm_step valid c h t' s s'" and rest: "clock_run (adm_step valid c h) t' s' r" by (auto simp: x)
  have "(if pays_trial a t' s s' then 1 else 0) + pending a s' \<le> (if registers a t' s s' then 1 else 0) + pending a s"
  proof (cases "map_of (ac_agents (fst s)) a")
    case None
    then show ?thesis by (cases "map_of (ac_agents (fst s')) a") (simp_all add: pays_trial_def registers_def pending_def has_key_def)
  next
    case (Some q)
    show ?thesis
    proof (cases "map_of (ac_agents (fst s')) a")
      case None
      then show ?thesis by (simp add: pays_trial_def registers_def pending_def has_key_def)
    next
      case q': (Some q')
      from adm_step_trial [OF st Some q'] Some q' show ?thesis
        by (simp add: pays_trial_def registers_def pending_def has_key_def)
    qed
  qed
  with Cons.IH [OF rest] show ?case by (simp add: x)
qed simp

end
