(* ===== verification/Account_Properties.thy ===== *)
theory Account_Properties
  imports Admission_Laws
begin

text \<open>
  The properties of admission: the daily limits of the gate, the trial credit, the sign-up windows and
  what a registration is paid. Each is applied to a small instance, in which the keyed hash is the
  text it is applied to.
\<close>

section \<open>The gate\<close>

definition demo_gate :: gate_core where
  "demo_gate = \<lparr>Hmac = (\<lambda>k m. rev m), PowSeed = (\<lambda>k h. replicate 32 0), PowHour = (\<lambda>t. t div 3600000),
     PowNotAfter = (\<lambda>h. (h + 2) * 3600000), PowCheck = (\<lambda>hub a seed nonce bits. nonce = [1])\<rparr>"

definition demo_ip :: "bytes option" where "demo_ip = Some [203, 0, 113, 7]"

definition demo_gate_start :: gate_state where
  "demo_gate_start = \<lparr>gm_gate = newAdmissionGate [9] 20, gm_signups = [], gm_trials = []\<rparr>"

definition demo_gate_after :: gate_state where
  "demo_gate_after = (case reserveSignup demo_gate [1] demo_ip (1000 * ms_ns) (newAdmissionGate [9] 20) of
     (g, r) \<Rightarrow> \<lparr>gm_gate = g, gm_signups = (case r of None \<Rightarrow> [] | Some h \<Rightarrow> [(h, the_ip demo_ip)]), gm_trials = []\<rparr>)"

lemma demo_gate_reachable: "gate_reachable demo_gate (1000 * ms_ns) demo_gate_after"
proof -
  have s: "gate_reachable demo_gate 0 demo_gate_start" unfolding demo_gate_start_def by (rule gate_start) simp
  obtain g r where run: "reserveSignup demo_gate [1] demo_ip (1000 * ms_ns) (gm_gate demo_gate_start) = (g, r)" by force
  from g_signup [OF run] have "gate_step demo_gate (1000 * ms_ns) demo_gate_start demo_gate_after"
    using run by (simp add: demo_gate_after_def demo_gate_start_def split: option.splits)
  then show ?thesis by (rule gate_next [OF s]) (simp add: time_defs)
qed

text \<open>C26: The limits of a day hold at every network level. In every reachable state, whatever was reserved,
  given back or kept and whenever the day turned, the open registrations counted today from one network
  are at most that level's limit, and so are the trial grants; the hub as a whole gives at most
  a hundred trials a day; and each counter is exactly the number of holds of today that it counts.\<close>

theorem daily_limits_hold:
  assumes "gate_reachable c t s" and "l \<in> set signupQuota" and "m \<in> set trialBudget"
  defines "g \<equiv> gm_gate s"
  shows "int (length (filter (\<lambda>x. netKey c (gt_day_key g) ''signup'' l (snd x) = Some k) (today g (gm_signups s)))) \<le> nl_max l \<and>
    int (length (filter (\<lambda>x. netKey c (gt_day_key g) ''trial'' m (snd x) = Some k) (today g (gm_trials s)))) \<le> nl_max m \<and>
    gt_trial_n g = int (length (today g (gm_trials s))) \<and> gt_trial_n g \<le> trialBudgetHub \<and>
    row_or (gt_signup g) k 0 = int (\<Sum>x \<leftarrow> today g (gm_signups s). count_list (gh_signup (fst x)) k) \<and>
    row_or (gt_trials g) k 0 = int (\<Sum>x \<leftarrow> today g (gm_trials s). count_list (gh_trials (fst x)) k)"
  using gate_reachable_inv [OF assms(1)] assms(2,3) by (auto simp: g_def gate_inv_def Let_def counted_def)

theorem daily_limits_hold_witness:
  "netKey demo_gate [1] ''signup'' \<lparr>nl_v6 = False, nl_bits = 24, nl_max = 200\<rparr> [203, 0, 113, 7] =
     Some [0, 113, 0, 203, 4, 24, 112, 117, 110, 103, 105, 115] \<and>
   row_or (gt_signup (gm_gate demo_gate_after)) [0, 113, 0, 203, 4, 24, 112, 117, 110, 103, 105, 115] 0 = 1 \<and>
   gt_trial_n (gm_gate demo_gate_after) \<le> 100"
proof -
  have l: "\<lparr>nl_v6 = False, nl_bits = 24, nl_max = 200\<rparr> \<in> set signupQuota" "\<lparr>nl_v6 = False, nl_bits = 24, nl_max = 3\<rparr> \<in> set trialBudget"
    by (simp_all add: signupQuota_def trialBudget_def)
  let ?k = "[0, 113, 0, 203, 4, 24, 112, 117, 110, 103, 105, 115] :: bytes"
  from daily_limits_hold [OF demo_gate_reachable l, of ?k]
  have "row_or (gt_signup (gm_gate demo_gate_after)) ?k 0 =
      int (\<Sum>x \<leftarrow> today (gm_gate demo_gate_after) (gm_signups demo_gate_after). count_list (gh_signup (fst x)) ?k)"
    and "gt_trial_n (gm_gate demo_gate_after) \<le> 100" by (simp_all add: trialBudgetHub_def)
  moreover have "(\<Sum>x \<leftarrow> today (gm_gate demo_gate_after) (gm_signups demo_gate_after). count_list (gh_signup (fst x)) ?k) = 1"
    by code_simp
  moreover have "netKey demo_gate [1] ''signup'' \<lparr>nl_v6 = False, nl_bits = 24, nl_max = 200\<rparr> [203, 0, 113, 7] = Some ?k"
    by code_simp
  ultimately show ?thesis by simp
qed

section \<open>What a registration is paid\<close>

text \<open>The grant the list still owes an account.\<close>

definition unpaid_grant :: "accounts \<Rightarrow> aid \<Rightarrow> int" where
  "unpaid_grant ac a = (case map_of (ac_admitted ac) a of None \<Rightarrow> 0
     | Some r \<Rightarrow> if ad_grant r > 0 \<and> ad_granted r = 0 then ad_grant r else 0)"

lemma payListGrantTx_unpaid:
  assumes "payListGrantTx h now a ac = Inr (ac', n)"
  shows "n = unpaid_grant ac a" and "unpaid_grant ac' a = 0"
  using assms by (auto simp: payListGrantTx_def unpaid_grant_def rbind_eq_Inr ledger_issue_Inr table_simps split: option.splits if_splits)

text \<open>C27: What the admission part of a registration writes, by the route. From the list, exactly the grant the
  list owes the account is issued to it, once, and the account has no probation. Through a sign-up
  window or an open hub nothing is issued, the books are as they were, and the account is
  on probation for 72 hours with its trial credit pending; through a window, the window had a place free.\<close>

theorem registration_is_paid_by_route:
  assumes "writeAdmissionTx h now a v win adm_now ac = Inr ac'" and "map_of (ac_agents ac) a = Some g"
    and "hubAID h \<noteq> []" "a \<noteq> hubAID h" "unpaid_grant ac a \<le> max_int64"
  shows "(v = viaList \<longrightarrow> has_key (ac_admitted ac) a \<and> unpaid_grant ac' a = 0 \<and>
      Balance (ac_ledger ac') a = Balance (ac_ledger ac) a + unpaid_grant ac a \<and>
      issued (ac_ledger ac') = issued (ac_ledger ac) + unpaid_grant ac a \<and> ProbationUntil now ac' a = (None, False)) \<and>
    (v \<noteq> viaList \<longrightarrow> ac_ledger ac' = ac_ledger ac \<and> ac_admitted ac' = ac_admitted ac \<and>
      map_of (ac_agents ac') a = Some (g\<lparr>ag_via := v, ag_probation := Some (unix_milli (adm_now + ProbationPeriod)), ag_trial := trialPending\<rparr>)) \<and>
    (v = viaWindow \<longrightarrow> (\<exists>w \<in> set (ac_windows ac). w_id w = win \<and> w_used w < w_max w))"
proof -
  have list: "has_key (ac_admitted ac) a \<and> unpaid_grant ac' a = 0 \<and>
      Balance (ac_ledger ac') a = Balance (ac_ledger ac) a + unpaid_grant ac a \<and>
      issued (ac_ledger ac') = issued (ac_ledger ac) + unpaid_grant ac a \<and> ProbationUntil now ac' a = (None, False)"
    if v: "v = viaList"
  proof -
    let ?ac = "ac\<lparr>ac_agents := AList.update a (g\<lparr>ag_via := viaList, ag_probation := None, ag_trial := trialNone\<rparr>) (ac_agents ac)\<rparr>"
    obtain n where p: "payListGrantTx h now a ?ac = Inr (ac', n)" and k: "has_key (ac_admitted ac) a"
      using assms(1,2) v by (auto simp: writeAdmissionTx_def rbind_eq_Inr split: if_splits)
    have u: "unpaid_grant ?ac a = unpaid_grant ac a" by (simp add: unpaid_grant_def)
    note n = payListGrantTx_unpaid [OF p, unfolded u]
    note B = paid_to_balance [OF payListGrantTx_Inr(1) [OF p] assms(3,4)]
    have "map_of (ac_agents ac') a = Some (g\<lparr>ag_via := viaList, ag_probation := None, ag_trial := trialNone\<rparr>)"
      by (subst payListGrantTx_Inr(3) [OF p]) (simp add: table_simps)
    then show ?thesis using B(1) [where b = a] B(2) n k assms(5) by (simp add: ProbationUntil_def)
  qed
  have "v = viaWindow \<or> v = viaOpen" if "v \<noteq> viaList" using that assms(1) by (cases v) (auto simp: writeAdmissionTx_def)
  then have other: "ac_ledger ac' = ac_ledger ac \<and> ac_admitted ac' = ac_admitted ac \<and>
      map_of (ac_agents ac') a = Some (g\<lparr>ag_via := v, ag_probation := Some (unix_milli (adm_now + ProbationPeriod)), ag_trial := trialPending\<rparr>)"
    if "v \<noteq> viaList" using that writeAdmissionTx_gate(1,2,5) [OF assms(1)] assms(2) by (simp add: table_simps)
  have "\<exists>w \<in> set (ac_windows ac). w_id w = win \<and> w_used w < w_max w" if "v = viaWindow"
    using that assms(1) by (auto simp: writeAdmissionTx_def rbind_eq_Inr list_ex_iff split: if_splits)
  with list other show ?thesis by blast
qed

definition demo_hub_conf :: hub_conf where "demo_hub_conf = \<lparr>hubAID = ''H'', hasHubKey = True\<rparr>"

definition demo_newcomer :: agent_row where
  "demo_newcomer = \<lparr>ag_kel = [1], ag_via = viaList, ag_probation = None, ag_trial = trialNone, ag_name = '''', ag_caps = [],
     ag_summary = '''', ag_readme = '''', ag_tip_seq = 0, ag_tip_head = '''', ag_registered_at = 0,
     ag_visibility = ''hub-local'', ag_last_seen = None, ag_dir = None\<rparr>"

definition demo_listed :: accounts where
  "demo_listed = \<lparr>ac_agents = [(''alice'', demo_newcomer)],
     ac_admitted = [(''alice'', \<lparr>ad_label = ''friends'', ad_grant = 50, ad_granted = 0, ad_created = 7\<rparr>)],
     ac_windows = [], ac_window_seq = 0, ac_mode = None, ac_ledger = empty_ledger\<rparr>"

theorem registration_is_paid_by_route_witness:
  "\<exists>ac'. writeAdmissionTx demo_hub_conf 1000 ''alice'' viaList 0 1000 demo_listed = Inr ac' \<and>
     Balance (ac_ledger ac') ''alice'' = 50 \<and> issued (ac_ledger ac') = 50"
proof -
  have "(case writeAdmissionTx demo_hub_conf 1000 ''alice'' viaList 0 1000 demo_listed of Inl e \<Rightarrow> False | Inr x \<Rightarrow> True)"
    by code_simp
  then obtain ac' where run: "writeAdmissionTx demo_hub_conf 1000 ''alice'' viaList 0 1000 demo_listed = Inr ac'"
    by (auto split: sum.splits)
  have h: "map_of (ac_agents demo_listed) ''alice'' = Some demo_newcomer" "hubAID demo_hub_conf \<noteq> []"
    "''alice'' \<noteq> hubAID demo_hub_conf" "unpaid_grant demo_listed ''alice'' \<le> max_int64"
    by (simp_all add: demo_listed_def demo_hub_conf_def unpaid_grant_def max_int64_def)
  have "unpaid_grant demo_listed ''alice'' = 50" "Balance (ac_ledger demo_listed) ''alice'' = 0" "issued (ac_ledger demo_listed) = 0"
    by code_simp+
  with registration_is_paid_by_route [OF run h] run show ?thesis by auto
qed

section \<open>The trial credit\<close>

text \<open>C28: One trial credit per registration. Over any run of admissions, windows, registrations, departures and
  grants, however often and from wherever an account asks, it is paid its trial credit at most once for each
  time it registered; and a grant that is answered as paid was due, the probation being over, and issued
  exactly twenty credits to that account.\<close>

theorem one_trial_per_registration:
  assumes "clock_run (adm_step valid c h) t s r" and "\<not> has_key (ac_agents (fst s)) a"
    and "maybeGrantTrial c h draw now b ip seen g ac = (g', ac', Inr True)" and "hubAID h \<noteq> []" "b \<noteq> hubAID h"
  shows "count_firings (pays_trial a) s r \<le> count_firings (registers a) s r \<and>
    (\<exists>row. map_of (ac_agents ac) b = Some row \<and> trial_due now row \<and>
       map_of (ac_agents ac') b = Some (row\<lparr>ag_trial := trialGranted\<rparr>)) \<and>
    Balance (ac_ledger ac') b = Balance (ac_ledger ac) b + 20 \<and> issued (ac_ledger ac') = issued (ac_ledger ac) + 20"
proof -
  have "pending a s = 0" using assms(2) by (simp add: pending_def has_key_def split: option.splits)
  then have "count_firings (pays_trial a) s r \<le> count_firings (registers a) s r"
    using trials_counted [OF assms(1), of a] by simp
  moreover have "(\<exists>row. map_of (ac_agents ac) b = Some row \<and> trial_due now row \<and>
       map_of (ac_agents ac') b = Some (row\<lparr>ag_trial := trialGranted\<rparr>)) \<and>
    Balance (ac_ledger ac') b = Balance (ac_ledger ac) b + 20 \<and> issued (ac_ledger ac') = issued (ac_ledger ac) + 20"
    using assms(3)
  proof (cases rule: maybeGrantTrial_cases)
    case (paid row l)
    then have "paid_to h now b TrialCredits (ac_ledger ac) l" by (auto simp: paid_to_def TrialCredits_def)
    from paid_to_balance [OF this assms(4,5)] paid show ?thesis
      by (auto simp: TrialCredits_def max_int64_def table_simps)
  qed simp
  ultimately show ?thesis by blast
qed

definition demo_no_accounts :: accounts where
  "demo_no_accounts = \<lparr>ac_agents = [], ac_admitted = [], ac_windows = [], ac_window_seq = 0, ac_mode = Some ''open'', ac_ledger = empty_ledger\<rparr>"

definition demo_day4 :: time_ns where "demo_day4 = 96 * hour_ns"

definition demo_joined :: accounts where
  "demo_joined = demo_no_accounts\<lparr>ac_agents := [(''alice'', demo_newcomer\<lparr>ag_via := viaOpen, ag_probation := Some 259200000,
     ag_trial := trialPending\<rparr>)]\<rparr>"

definition demo_grant :: "gate \<times> accounts \<times> (admission_error + bool)" where
  "demo_grant = maybeGrantTrial demo_gate demo_hub_conf [1] demo_day4 ''alice'' demo_ip (map_of (ac_agents demo_joined) ''alice'')
     (newAdmissionGate [9] 20) demo_joined"

lemma demo_join_run:
  "clock_run (adm_step (\<lambda>a. True) demo_gate demo_hub_conf) 0 (demo_no_accounts, newAdmissionGate [9] 20)
     [(0, (demo_joined, newAdmissionGate [9] 20)), (demo_day4, (fst (snd demo_grant), fst demo_grant))]"
proof -
  have w: "writeAdmissionTx demo_hub_conf 0 ''alice'' viaOpen 0 0
      (demo_no_accounts\<lparr>ac_agents := AList.update ''alice'' demo_newcomer (ac_agents demo_no_accounts)\<rparr>) = Inr demo_joined"
    by code_simp
  have "adm_step (\<lambda>a. True) demo_gate demo_hub_conf 0 (demo_no_accounts, newAdmissionGate [9] 20) (demo_joined, newAdmissionGate [9] 20)"
    by (rule a_register [where a = "''alice''" and k = demo_newcomer and v = viaOpen and win = 0 and adm_now = 0])
      (use w in \<open>simp_all add: demo_no_accounts_def demo_hub_conf_def has_key_def demo_newcomer_def\<close>)
  moreover have "adm_step (\<lambda>a. True) demo_gate demo_hub_conf demo_day4 (demo_joined, newAdmissionGate [9] 20) (fst (snd demo_grant), fst demo_grant)"
    by (rule a_trial [where res = "snd (snd demo_grant)" and a = "''alice''" and draw = "[1]" and ip = demo_ip
          and seen = "map_of (ac_agents demo_joined) ''alice''"]) (simp add: demo_grant_def)
  ultimately show ?thesis by (simp add: demo_day4_def time_defs)
qed

theorem one_trial_per_registration_witness:
  "count_firings (pays_trial ''alice'') (demo_no_accounts, newAdmissionGate [9] 20)
     [(0, (demo_joined, newAdmissionGate [9] 20)), (demo_day4, (fst (snd demo_grant), fst demo_grant))] \<le> 1 \<and>
   Balance (ac_ledger (fst (snd demo_grant))) ''alice'' = 20"
proof -
  let ?r = "[(0, (demo_joined, newAdmissionGate [9] 20)), (demo_day4, (fst (snd demo_grant), fst demo_grant))]"
  have res: "(case snd (snd demo_grant) of Inl e \<Rightarrow> False | Inr x \<Rightarrow> x)" by code_simp
  then have "snd (snd demo_grant) = Inr True" by (cases "snd (snd demo_grant)") simp_all
  then have run: "maybeGrantTrial demo_gate demo_hub_conf [1] demo_day4 ''alice'' demo_ip (map_of (ac_agents demo_joined) ''alice'')
     (newAdmissionGate [9] 20) demo_joined = (fst demo_grant, fst (snd demo_grant), Inr True)"
    by (simp only: demo_grant_def [symmetric] prod_eq_iff fst_conv snd_conv)
  have n: "\<not> has_key (ac_agents (fst (demo_no_accounts, newAdmissionGate [9] 20))) ''alice''" "hubAID demo_hub_conf \<noteq> []"
    "''alice'' \<noteq> hubAID demo_hub_conf"
    by (simp_all add: demo_no_accounts_def demo_hub_conf_def has_key_def)
  note T = one_trial_per_registration [OF demo_join_run n(1) run n(2,3)]
  have "count_firings (registers ''alice'') (demo_no_accounts, newAdmissionGate [9] 20) ?r \<le> 1"
    using n(1) by (simp add: registers_def has_key_def demo_joined_def)
  moreover have "Balance (ac_ledger demo_joined) ''alice'' = 0" by code_simp
  ultimately show ?thesis using T by linarith
qed

section \<open>Sign-up windows\<close>

lemma sorted_ids_distinct: "sorted_wrt (\<lambda>v w. w_id v < w_id w) ws \<Longrightarrow> distinct (map w_id ws)"
  by (induction ws) force+

text \<open>The sign-up windows and the books of a hub. In every reachable state no window admitted more accounts
  than it has places, at most 10000; at any moment at most one window is open, and \<open>openWindow\<close> finds it; the
  hub's own AID has no account; and every payment of admission kept the books of the ledger: the accounts
  add up to issued minus redeemed.\<close>

theorem windows_keep_their_places:
  assumes "adm_reachable valid c h t s" and "hubAID h \<noteq> []" and "t \<le> now"
  shows "(\<forall>w \<in> set (ac_windows (fst s)). 0 \<le> w_used w \<and> w_used w \<le> w_max w \<and> w_max w \<le> 10000 \<and>
      (w_opens w \<le> unix_milli now \<and> unix_milli now < w_closes w \<longrightarrow> openWindow now (fst s) = Some w)) \<and>
    distinct (map w_id (ac_windows (fst s))) \<and> \<not> has_key (ac_agents (fst s)) (hubAID h) \<and> supply_ok h (ac_ledger (fst s))"
proof -
  have w: "windows_ok t (fst s)" and ok: "accounts_ok h (fst s)" using adm_reachable_inv [OF assms(1,2)] by blast+
  have "openWindow now (fst s) = Some w"
    if "w \<in> set (ac_windows (fst s))" "w_opens w \<le> unix_milli now" "unix_milli now < w_closes w" for w
  proof (cases "openWindow now (fst s)")
    case None
    with that show ?thesis by (auto simp: openWindow_None)
  next
    case (Some v)
    from openWindow_Some [OF this] one_open [OF w assms(3) _ that(1) _ that(3), of v] Some show ?thesis by blast
  qed
  moreover have "sorted_wrt (\<lambda>v w. w_id v < w_id w) (ac_windows (fst s))"
    by (rule sorted_wrt_mono_rel [of _ "\<lambda>v w. w_id v < w_id w \<and> w_closes v \<le> unix_milli t"])
      (use w in \<open>auto simp: windows_ok_def\<close>)
  then have "distinct (map w_id (ac_windows (fst s)))" by (rule sorted_ids_distinct)
  ultimately show ?thesis using w ok by (auto simp: windows_ok_def accounts_ok_def MaxWindowSize_def)
qed

definition demo_opened :: "accounts \<times> window" where
  "demo_opened = (case OpenWindow hour_ns 3 ''friday'' 5000000 (demo_no_accounts\<lparr>ac_mode := None\<rparr>) of
     Inr x \<Rightarrow> x | Inl e \<Rightarrow> (demo_no_accounts, \<lparr>w_id = 0, w_opens = 0, w_closes = 0, w_max = 0, w_used = 0, w_label = []\<rparr>))"

theorem windows_keep_their_places_witness:
  "openWindow 6000000 (fst demo_opened) = Some (snd demo_opened) \<and> w_max (snd demo_opened) = 3 \<and> w_used (snd demo_opened) = 0"
proof -
  let ?s0 = "(demo_no_accounts\<lparr>ac_mode := None\<rparr>, newAdmissionGate [9] 20)"
  have "adm_reachable (\<lambda>a. True) demo_gate demo_hub_conf 0 ?s0"
    unfolding demo_no_accounts_def by (simp add: adm_start)
  moreover have "OpenWindow hour_ns 3 ''friday'' 5000000 (demo_no_accounts\<lparr>ac_mode := None\<rparr>) = Inr demo_opened"
    by code_simp
  then have "adm_step (\<lambda>a. True) demo_gate demo_hub_conf 5000000 ?s0 (fst demo_opened, newAdmissionGate [9] 20)"
    by (intro a_open [where w = "snd demo_opened"]) simp
  ultimately have r: "adm_reachable (\<lambda>a. True) demo_gate demo_hub_conf 5000000 (fst demo_opened, newAdmissionGate [9] 20)"
    by (rule adm_next) simp
  have m: "snd demo_opened \<in> set (ac_windows (fst demo_opened))" "w_max (snd demo_opened) = 3" "w_used (snd demo_opened) = 0"
    "w_opens (snd demo_opened) \<le> unix_milli 6000000" "unix_milli 6000000 < w_closes (snd demo_opened)"
    by code_simp+
  have "hubAID demo_hub_conf \<noteq> []" by (simp add: demo_hub_conf_def)
  from windows_keep_their_places [OF r this, of 6000000] m show ?thesis by simp
qed

end
