(* ===== verification/Sessions.thy ===== *)
theory Sessions
  imports Hub_Prelude "HOL-Library.Sublist"
begin

text \<open>
  \<open>internal/aghub/session.go\<close>: the first-contact sessions a hub process holds in memory, and when each
  AID opened its sessions of the last hour. A session is a pointer in the source: \<open>hs_ref\<close> is its
  identity, so that \<open>x == s\<close> is equality of references. The session id and key are random bytes; the
  sealing of the key is ANetCore's.
\<close>

section \<open>The table\<close>

record hub_session =
  hs_sid :: bytes
  hs_aid :: aid
  hs_key :: bytes
  hs_exp :: time_ns
  hs_ref :: nat

record session_table =
  bySID :: "(bytes, hub_session) table"
  byAID :: "(aid, hub_session list) table"
  opens :: "(aid, time_ns list) table"
  swept :: time_ns
  next_ref :: nat

definition SessionIDLen :: nat where "SessionIDLen = 16"
definition SessionLifetime :: int where "SessionLifetime = hour_ns"
definition MaxSessionsPerAID :: nat where "MaxSessionsPerAID = 4"
definition MaxSessionOpensPerHour :: nat where "MaxSessionOpensPerHour = 30"

text \<open>The zero \<open>time.Time\<close> is the first of January of the year 1.\<close>

definition zero_time :: time_ns where "zero_time = - 62135596800 * second_ns"

definition newSessionTable :: session_table where
  "newSessionTable = \<lparr>bySID = [], byAID = [], opens = [], swept = zero_time, next_ref = 0\<rparr>"

definition delete_sids :: "hub_session list \<Rightarrow> (bytes, hub_session) table \<Rightarrow> (bytes, hub_session) table" where
  "delete_sids ss m = fold (\<lambda>s. AList.delete (hs_sid s)) ss m"

definition put_or_delete :: "'k \<Rightarrow> 'v list \<Rightarrow> ('k, 'v list) table \<Rightarrow> ('k, 'v list) table" where
  "put_or_delete k vs t = (if vs = [] then AList.delete k t else AList.update k vs t)"

definition pruneLocked :: "aid \<Rightarrow> time_ns \<Rightarrow> session_table \<Rightarrow> session_table" where
  "pruneLocked a now t =
    (let held = row_or (byAID t) a [] in
     t\<lparr>bySID := delete_sids (filter (\<lambda>s. \<not> now < hs_exp s) held) (bySID t),
       byAID := put_or_delete a (filter (\<lambda>s. now < hs_exp s) held) (byAID t)\<rparr>)"

definition recentOpensLocked :: "aid \<Rightarrow> time_ns \<Rightarrow> session_table \<Rightarrow> session_table \<times> time_ns list" where
  "recentOpensLocked a now t =
    (let recent = dropWhile (\<lambda>at. \<not> now < at + hour_ns) (row_or (opens t) a []) in
     (t\<lparr>opens := put_or_delete a recent (opens t)\<rparr>, recent))"

definition sweepSessionsLocked :: "time_ns \<Rightarrow> session_table \<Rightarrow> session_table" where
  "sweepSessionsLocked now t =
    (if now - swept t < minute_ns then t
     else
      (let t1 = fold (\<lambda>a. pruneLocked a now) (map fst (byAID t)) (t\<lparr>swept := now\<rparr>) in
       fold (\<lambda>a u. fst (recentOpensLocked a now u)) (map fst (opens t1)) t1))"

definition openWaitLocked :: "aid \<Rightarrow> time_ns \<Rightarrow> session_table \<Rightarrow> session_table \<times> int" where
  "openWaitLocked a now t =
    (case recentOpensLocked a now t of (t', recent) \<Rightarrow>
      (t', if length recent < MaxSessionOpensPerHour then 0
           else recent ! (length recent - MaxSessionOpensPerHour) + hour_ns - now))"

definition openWait :: "aid \<Rightarrow> time_ns \<Rightarrow> session_table \<Rightarrow> session_table \<times> int" where
  "openWait a now t = openWaitLocked a now t"

text \<open>The loop of \<open>open\<close> that ends the oldest sessions.\<close>

fun end_oldest :: "hub_session list \<Rightarrow> (bytes, hub_session) table \<Rightarrow> hub_session list \<times> (bytes, hub_session) table" where
  "end_oldest [] m = ([], m)"
| "end_oldest (s # held) m =
    (if MaxSessionsPerAID \<le> length (s # held) then end_oldest held (AList.delete (hs_sid s) m) else (s # held, m))"

definition open_session ::
  "aid \<Rightarrow> bytes \<Rightarrow> bytes \<Rightarrow> time_ns \<Rightarrow> session_table \<Rightarrow> session_table \<times> (int + hub_session)" where
  "open_session a sid key now t0 =
    (case openWaitLocked a now (sweepSessionsLocked now t0) of (t1, wait) \<Rightarrow>
      if 0 < wait then (t1, Inl wait)
      else
       (let t2 = pruneLocked a now t1;
            s = \<lparr>hs_sid = sid, hs_aid = a, hs_key = key, hs_exp = now + SessionLifetime, hs_ref = next_ref t2\<rparr> in
        (case end_oldest (row_or (byAID t2) a []) (bySID t2) of (held, m) \<Rightarrow>
          (t2\<lparr>bySID := AList.update sid s m, byAID := AList.update a (held @ [s]) (byAID t2),
              opens := AList.update a (row_or (opens t2) a [] @ [now]) (opens t2), next_ref := next_ref t2 + 1\<rparr>,
           Inr s))))"

definition get_session :: "bytes \<Rightarrow> time_ns \<Rightarrow> session_table \<Rightarrow> session_table \<times> hub_session option" where
  "get_session sid now t =
    (if length sid \<noteq> SessionIDLen then (t, None)
     else
      (let t1 = sweepSessionsLocked now t in
       (t1, case map_of (bySID t1) sid of
              None \<Rightarrow> None
            | Some s \<Rightarrow> if now < hs_exp s then Some s else None)))"

text \<open>The first session with that reference goes from the held ones; the last opening at that time from
  the openings.\<close>

fun remove_ref :: "nat \<Rightarrow> hub_session list \<Rightarrow> hub_session list" where
  "remove_ref r [] = []"
| "remove_ref r (x # xs) = (if hs_ref x = r then xs else x # remove_ref r xs)"

definition remove_last :: "'a \<Rightarrow> 'a list \<Rightarrow> 'a list" where
  "remove_last x xs = rev (remove1 x (rev xs))"

definition cancel :: "hub_session \<Rightarrow> session_table \<Rightarrow> session_table" where
  "cancel s t =
    (let m = (case map_of (bySID t) (hs_sid s) of
                Some x \<Rightarrow> if hs_ref x = hs_ref s then AList.delete (hs_sid s) (bySID t) else bySID t
              | None \<Rightarrow> bySID t) in
     t\<lparr>bySID := m,
       byAID := put_or_delete (hs_aid s) (remove_ref (hs_ref s) (row_or (byAID t) (hs_aid s) [])) (byAID t),
       opens := put_or_delete (hs_aid s)
                  (remove_last (hs_exp s - SessionLifetime) (row_or (opens t) (hs_aid s) [])) (opens t)\<rparr>)"

definition drop_sessions :: "aid \<Rightarrow> session_table \<Rightarrow> session_table" where
  "drop_sessions a t =
     t\<lparr>bySID := delete_sids (row_or (byAID t) a []) (bySID t), byAID := AList.delete a (byAID t)\<rparr>"

section \<open>What holds of the table\<close>

definition held :: "session_table \<Rightarrow> aid \<Rightarrow> hub_session list" where
  "held t a = row_or (byAID t) a []"

lemma delete_sids_of [simp]:
  "map_of (delete_sids ss m) sid = (if sid \<in> hs_sid ` set ss then None else map_of m sid)"
  unfolding delete_sids_def by (induction ss arbitrary: m) (auto simp: delete_conv')

declare row_or_delete [simp]

lemma row_or_put_or_delete [simp]: "row_or (put_or_delete k vs t) j [] = (if j = k then vs else row_or t j [])"
  by (auto simp: put_or_delete_def row_or_update)

lemma held_pruneLocked:
  "held (pruneLocked a now t) b = (if b = a then filter (\<lambda>s. now < hs_exp s) (held t a) else held t b)"
  by (simp add: held_def pruneLocked_def Let_def)

lemma bySID_pruneLocked:
  "map_of (bySID (pruneLocked a now t)) sid =
    (if \<exists>s \<in> set (held t a). hs_sid s = sid \<and> \<not> now < hs_exp s then None else map_of (bySID t) sid)"
  by (auto simp: held_def pruneLocked_def Let_def)

text \<open>What an operation may take away: nothing is added to either index.\<close>

definition shrinks :: "session_table \<Rightarrow> session_table \<Rightarrow> bool" where
  "shrinks t t' \<longleftrightarrow> next_ref t' = next_ref t \<and> (\<forall>a. subseq (held t' a) (held t a)) \<and>
    (\<forall>sid s. map_of (bySID t') sid = Some s \<longrightarrow> map_of (bySID t) sid = Some s)"

definition sids_linked :: "session_table \<Rightarrow> bool" where
  "sids_linked t \<longleftrightarrow> (\<forall>sid s. map_of (bySID t) sid = Some s \<longrightarrow> hs_sid s = sid \<and> s \<in> set (held t (hs_aid s)))"

definition few_held :: "session_table \<Rightarrow> bool" where
  "few_held t \<longleftrightarrow>
    (\<forall>a. (\<forall>s \<in> set (held t a). hs_aid s = a \<and> hs_ref s < next_ref t) \<and>
         length (held t a) \<le> MaxSessionsPerAID \<and> distinct (map hs_ref (held t a)))"

definition table_ok :: "session_table \<Rightarrow> bool" where
  "table_ok t \<longleftrightarrow> sids_linked t \<and> few_held t"

lemma shrinks_refl [simp, intro]: "shrinks t t"
  by (simp add: shrinks_def)

lemma shrinks_trans [trans]: "shrinks t u \<Longrightarrow> shrinks u v \<Longrightarrow> shrinks t v"
  unfolding shrinks_def by (metis subseq_order.trans)

lemma subseq_set: "subseq xs ys \<Longrightarrow> set xs \<subseteq> set ys"
  using set_nths_subset by (fastforce simp: subseq_conv_nths)

lemma subseq_distinct: "subseq xs ys \<Longrightarrow> distinct ys \<Longrightarrow> distinct xs"
  by (auto simp: subseq_conv_nths)

lemma few_held_shrinks:
  assumes "few_held t" "shrinks t t'"
  shows "few_held t'"
  unfolding few_held_def
proof
  fix a
  have sub: "subseq (held t' a) (held t a)" and n: "next_ref t' = next_ref t"
    using assms(2) by (auto simp: shrinks_def)
  have ok: "\<forall>s \<in> set (held t a). hs_aid s = a \<and> hs_ref s < next_ref t" "length (held t a) \<le> MaxSessionsPerAID"
    "distinct (map hs_ref (held t a))"
    using assms(1) by (auto simp: few_held_def)
  show "(\<forall>s \<in> set (held t' a). hs_aid s = a \<and> hs_ref s < next_ref t') \<and>
      length (held t' a) \<le> MaxSessionsPerAID \<and> distinct (map hs_ref (held t' a))"
    using ok subseq_set [OF sub] list_emb_length [OF sub] subseq_distinct [OF subseq_map [OF sub]] n by auto
qed

lemma pruneLocked_shrinks: "shrinks t (pruneLocked a now t)"
  by (auto simp: shrinks_def held_pruneLocked bySID_pruneLocked split: if_splits)
     (simp add: pruneLocked_def Let_def)

lemma pruneLocked_linked: "sids_linked t \<Longrightarrow> sids_linked (pruneLocked a now t)"
  by (auto simp: sids_linked_def held_pruneLocked bySID_pruneLocked split: if_splits)

lemma recentOpensLocked_indices [simp]:
  "bySID (fst (recentOpensLocked a now t)) = bySID t" "byAID (fst (recentOpensLocked a now t)) = byAID t"
  "next_ref (fst (recentOpensLocked a now t)) = next_ref t"
  by (simp_all add: recentOpensLocked_def Let_def)

lemma openWaitLocked_indices [simp]:
  "bySID (fst (openWaitLocked a now t)) = bySID t" "byAID (fst (openWaitLocked a now t)) = byAID t"
  "next_ref (fst (openWaitLocked a now t)) = next_ref t"
  by (simp_all add: openWaitLocked_def case_prod_beta)

lemma sids_linked_cong: "bySID t' = bySID t \<Longrightarrow> byAID t' = byAID t \<Longrightarrow> sids_linked t' \<longleftrightarrow> sids_linked t"
  by (simp add: sids_linked_def held_def)

lemma shrinks_cong:
  "bySID t' = bySID t \<Longrightarrow> byAID t' = byAID t \<Longrightarrow> next_ref t' = next_ref t \<Longrightarrow> shrinks t t'"
  by (simp add: shrinks_def held_def)

lemma fold_prune: "sids_linked t \<Longrightarrow> shrinks t (fold (\<lambda>a. pruneLocked a now) as t) \<and> sids_linked (fold (\<lambda>a. pruneLocked a now) as t)"
proof (induction as arbitrary: t)
  case (Cons a as)
  from Cons.IH [OF pruneLocked_linked [OF Cons.prems]] shrinks_trans [OF pruneLocked_shrinks]
  show ?case by simp blast
qed simp

lemma fold_recent_indices [simp]:
  "bySID (fold (\<lambda>a u. fst (recentOpensLocked a now u)) as t) = bySID t"
  "byAID (fold (\<lambda>a u. fst (recentOpensLocked a now u)) as t) = byAID t"
  "next_ref (fold (\<lambda>a u. fst (recentOpensLocked a now u)) as t) = next_ref t"
  by (induction as arbitrary: t) simp_all

lemma sweepSessionsLocked_ok:
  assumes "sids_linked t"
  shows "shrinks t (sweepSessionsLocked now t)" "sids_linked (sweepSessionsLocked now t)"
proof -
  let ?t = "t\<lparr>swept := now\<rparr>"
  have *: "sids_linked ?t" "shrinks t ?t" using assms sids_linked_cong [of ?t t] shrinks_cong [of ?t t] by simp_all
  let ?u = "fold (\<lambda>a. pruneLocked a now) (map fst (byAID t)) ?t"
  let ?v = "fold (\<lambda>a u. fst (recentOpensLocked a now u)) (map fst (opens ?u)) ?u"
  have u: "shrinks ?t ?u" "sids_linked ?u" using fold_prune [OF *(1)] by blast+
  have v: "shrinks ?u ?v" "sids_linked ?v"
    using shrinks_cong [OF fold_recent_indices] sids_linked_cong [OF fold_recent_indices(1,2)] u(2) by blast+
  have "sweepSessionsLocked now t = t \<or> sweepSessionsLocked now t = ?v" by (auto simp: sweepSessionsLocked_def Let_def)
  then show "shrinks t (sweepSessionsLocked now t)" "sids_linked (sweepSessionsLocked now t)"
    using assms v(2) shrinks_trans [OF *(2) shrinks_trans [OF u(1) v(1)]] by (metis shrinks_refl, metis)
qed

lemma sweepSessionsLocked_table_ok: "table_ok t \<Longrightarrow> table_ok (sweepSessionsLocked now t)"
  unfolding table_ok_def using sweepSessionsLocked_ok few_held_shrinks by blast

lemma end_oldest_eq:
  "end_oldest h m = (drop (length h + 1 - MaxSessionsPerAID) h, delete_sids (take (length h + 1 - MaxSessionsPerAID) h) m)"
proof (induction h m rule: end_oldest.induct)
  case (2 s h m)
  show ?case
  proof (cases "MaxSessionsPerAID \<le> length (s # h)")
    case True
    then obtain k where k: "length h = 3 + k" by (auto simp: MaxSessionsPerAID_def dest: le_Suc_ex)
    with 2 [OF True] show ?thesis by (simp add: MaxSessionsPerAID_def delete_sids_def)
  qed (simp add: MaxSessionsPerAID_def delete_sids_def)
qed (simp add: MaxSessionsPerAID_def delete_sids_def)

lemma remove_ref_subseq: "subseq (remove_ref r xs) xs"
  by (induction xs) auto

lemma remove_ref_other: "x \<in> set xs \<Longrightarrow> hs_ref x \<noteq> r \<Longrightarrow> x \<in> set (remove_ref r xs)"
  by (induction xs) auto

lemma cancel_keeps: "map_of (bySID (cancel s t)) sid = Some x \<Longrightarrow> map_of (bySID t) sid = Some x"
  by (auto simp: cancel_def Let_def delete_conv' split: option.splits if_splits)

lemma held_cancel: "held (cancel s t) a = (if a = hs_aid s then remove_ref (hs_ref s) (held t a) else held t a)"
  by (simp add: held_def cancel_def Let_def)

lemma next_ref_cancel [simp]: "next_ref (cancel s t) = next_ref t"
  by (simp add: cancel_def Let_def)

lemma cancel_ends: "hs_ref x = hs_ref s \<Longrightarrow> map_of (bySID (cancel s t)) (hs_sid s) \<noteq> Some x"
  by (auto simp: cancel_def Let_def delete_conv' split: option.splits if_splits)

text \<open>References identify sessions: what holds of a session \<open>s\<close> that this process opened.\<close>

definition own_ref :: "hub_session \<Rightarrow> session_table \<Rightarrow> bool" where
  "own_ref s t \<longleftrightarrow> hs_ref s < next_ref t \<and> (\<forall>a. \<forall>x \<in> set (held t a). hs_ref x = hs_ref s \<longrightarrow> x = s)"

lemma cancel_ok:
  assumes "sids_linked t" "own_ref s t"
  shows "shrinks t (cancel s t)" "sids_linked (cancel s t)"
proof -
  show "shrinks t (cancel s t)"
    unfolding shrinks_def
    by (intro conjI allI impI) (simp, simp add: held_cancel remove_ref_subseq, erule cancel_keeps)
  have "hs_sid x = sid \<and> x \<in> set (held (cancel s t) (hs_aid x))"
    if x: "map_of (bySID (cancel s t)) sid = Some x" for sid x
  proof -
    have t: "hs_sid x = sid" "x \<in> set (held t (hs_aid x))"
      using assms(1) cancel_keeps [OF x] by (auto simp: sids_linked_def)
    have "hs_ref x \<noteq> hs_ref s" using cancel_ends [of x s t] x t assms(2) by (auto simp: own_ref_def)
    with t show ?thesis by (auto simp: held_cancel intro: remove_ref_other)
  qed
  then show "sids_linked (cancel s t)" by (auto simp: sids_linked_def)
qed

lemma held_drop: "held (drop_sessions a t) b = (if b = a then [] else held t b)"
  by (simp add: held_def drop_sessions_def)

lemma next_ref_drop [simp]: "next_ref (drop_sessions a t) = next_ref t"
  by (simp add: drop_sessions_def)

lemma drop_ok:
  assumes "sids_linked t"
  shows "shrinks t (drop_sessions a t)" "sids_linked (drop_sessions a t)"
    and "map_of (bySID (drop_sessions a t)) sid = Some s \<Longrightarrow> hs_aid s \<noteq> a"
proof -
  have b: "map_of (bySID (drop_sessions a t)) sid =
      (if sid \<in> hs_sid ` set (held t a) then None else map_of (bySID t) sid)" for sid
    by (simp add: held_def drop_sessions_def)
  show "shrinks t (drop_sessions a t)" "sids_linked (drop_sessions a t)"
    and "map_of (bySID (drop_sessions a t)) sid = Some s \<Longrightarrow> hs_aid s \<noteq> a"
    using assms by (auto simp: shrinks_def sids_linked_def held_drop b next_ref_drop split: if_splits)
qed

section \<open>Opening and finding a session\<close>

lemma open_session_ok:
  assumes ok: "table_ok t" and r: "open_session a sid key now t = (t', r)"
  shows "table_ok t'"
    and "r = Inr s \<Longrightarrow> s = \<lparr>hs_sid = sid, hs_aid = a, hs_key = key, hs_exp = now + SessionLifetime, hs_ref = next_ref t\<rparr>"
    and "map_of (bySID t') i = Some x \<Longrightarrow> map_of (bySID t) i = Some x \<or> r = Inr x"
    and "x \<in> set (held t' b) \<Longrightarrow> x \<in> set (held t b) \<or> r = Inr x"
    and "next_ref t' = (case r of Inl w \<Rightarrow> next_ref t | Inr s \<Rightarrow> next_ref t + 1)"
proof -
  define t1 where "t1 = fst (openWaitLocked a now (sweepSessionsLocked now t))"
  define t2 where "t2 = pruneLocked a now t1"
  have "sids_linked t" "few_held t" using ok by (auto simp: table_ok_def)
  have idx: "bySID t1 = bySID (sweepSessionsLocked now t)" "byAID t1 = byAID (sweepSessionsLocked now t)"
    "next_ref t1 = next_ref (sweepSessionsLocked now t)"
    by (simp_all add: t1_def)
  have s1: "shrinks t t1" "sids_linked t1"
    using sweepSessionsLocked_ok [OF \<open>sids_linked t\<close>, of now] sids_linked_cong [OF idx(1,2)] shrinks_trans [OF _ shrinks_cong [OF idx]]
    by blast+
  have s2: "shrinks t t2" "sids_linked t2"
    unfolding t2_def using shrinks_trans [OF s1(1) pruneLocked_shrinks] pruneLocked_linked [OF s1(2)] by blast+
  have f2: "few_held t2" using few_held_shrinks [OF \<open>few_held t\<close> s2(1)] .
  let ?w = "snd (openWaitLocked a now (sweepSessionsLocked now t))"
  let ?s = "\<lparr>hs_sid = sid, hs_aid = a, hs_key = key, hs_exp = now + SessionLifetime, hs_ref = next_ref t2\<rparr>"
  let ?n = "length (held t2 a) + 1 - MaxSessionsPerAID"
  let ?t = "t2\<lparr>bySID := AList.update sid ?s (delete_sids (take ?n (held t2 a)) (bySID t2)),
      byAID := AList.update a (drop ?n (held t2 a) @ [?s]) (byAID t2),
      opens := AList.update a (row_or (opens t2) a [] @ [now]) (opens t2), next_ref := next_ref t2 + 1\<rparr>"
  define u where "u = ?t"
  have e: "(t', r) = (if 0 < ?w then (t1, Inl ?w) else (u, Inr ?s))"
    using r by (auto simp: open_session_def t1_def t2_def held_def Let_def end_oldest_eq case_prod_beta u_def split: if_splits)
  have h: "held u b = (if b = a then drop ?n (held t2 a) @ [?s] else held t2 b)" for b
    by (simp add: u_def held_def row_or_update)
  have n': "next_ref u = next_ref t2 + 1" by (simp add: u_def)
  have m: "map_of (bySID u) i = (if i = sid then Some ?s else if i \<in> hs_sid ` set (take ?n (held t2 a)) then None
      else map_of (bySID t2) i)" for i
    by (simp add: u_def map_of_update_eq)
  have td: "x \<in> set (take ?n (held t2 a)) \<or> x \<in> set (drop ?n (held t2 a))" if "x \<in> set (held t2 a)" for x
    using that by (metis Un_iff append_take_drop_id set_append)
  have "sids_linked u"
    unfolding sids_linked_def
  proof (intro allI impI)
    fix i x
    assume x: "map_of (bySID u) i = Some x"
    show "hs_sid x = i \<and> x \<in> set (held u (hs_aid x))"
    proof (cases "i = sid")
      case True
      with x show ?thesis by (auto simp: m h)
    next
      case False
      with x have i: "i \<notin> hs_sid ` set (take ?n (held t2 a))" and "map_of (bySID t2) i = Some x"
        by (auto simp: m split: if_splits)
      with s2(2) have "hs_sid x = i" "x \<in> set (held t2 (hs_aid x))" by (auto simp: sids_linked_def)
      with i td [of x] show ?thesis by (auto simp: h)
    qed
  qed
  moreover have "few_held u"
  proof -
    have f: "\<forall>x \<in> set (held t2 b). hs_aid x = b \<and> hs_ref x < next_ref t2" "length (held t2 b) \<le> MaxSessionsPerAID"
      "distinct (map hs_ref (held t2 b))" for b
      using f2 by (auto simp: few_held_def)
    have d: "distinct (map hs_ref (drop ?n (held t2 a)))" using distinct_drop [OF f(3) [of a], of ?n] by (simp add: drop_map)
    have g: "\<forall>x \<in> set (drop ?n (held t2 a)). hs_aid x = a \<and> hs_ref x < next_ref t2"
      using f(1) [of a] by (auto dest: in_set_dropD)
    show ?thesis
      unfolding few_held_def
    proof
      fix b
      show "(\<forall>s \<in> set (held u b). hs_aid s = b \<and> hs_ref s < next_ref u) \<and>
          length (held u b) \<le> MaxSessionsPerAID \<and> distinct (map hs_ref (held u b))"
      proof (cases "b = a")
        case True
        have "length (drop ?n (held t2 a) @ [?s]) \<le> MaxSessionsPerAID" by (simp add: MaxSessionsPerAID_def)
        moreover have "distinct (map hs_ref (drop ?n (held t2 a) @ [?s]))" using d g by fastforce
        moreover have "\<forall>s \<in> set (drop ?n (held t2 a) @ [?s]). hs_aid s = a \<and> hs_ref s < next_ref u"
          using g n' by auto
        ultimately show ?thesis unfolding True h [of a] by (simp only: if_True refl simp_thms)
      next
        case False
        with f [of b] n' show ?thesis by (auto simp: h)
      qed
    qed
  qed
  ultimately have "table_ok u" by (simp add: table_ok_def)
  moreover have "table_ok t1" using s1 few_held_shrinks [OF \<open>few_held t\<close> s1(1)] by (simp add: table_ok_def)
  ultimately show "table_ok t'" using e by (auto split: if_splits)
  have n: "next_ref t1 = next_ref t" "next_ref t2 = next_ref t" using s1(1) s2(1) by (auto simp: shrinks_def)
  show "r = Inr s \<Longrightarrow> s = \<lparr>hs_sid = sid, hs_aid = a, hs_key = key, hs_exp = now + SessionLifetime, hs_ref = next_ref t\<rparr>"
    using e n by (auto split: if_splits)
  show "next_ref t' = (case r of Inl w \<Rightarrow> next_ref t | Inr s \<Rightarrow> next_ref t + 1)"
    using e n n' by (auto split: if_splits)
  show "map_of (bySID t') i = Some x \<Longrightarrow> map_of (bySID t) i = Some x \<or> r = Inr x"
    using e s1(1) s2(1) m [of i] by (auto simp: shrinks_def split: if_splits)
  have "set (held t1 b) \<subseteq> set (held t b)" "set (held t2 b) \<subseteq> set (held t b)" for b
    using s1(1) s2(1) by (auto simp: shrinks_def dest!: subseq_set)
  moreover from this(2) have "set (drop ?n (held t2 a)) \<subseteq> set (held t a)" by (rule order_trans [OF set_drop_subset])
  ultimately show "x \<in> set (held t' b) \<Longrightarrow> x \<in> set (held t b) \<or> r = Inr x"
    using e h [of b] by (auto split: if_splits)
qed

lemma get_session_ok:
  assumes "table_ok t" "get_session sid now t = (t', r)"
  shows "table_ok t'" "shrinks t t'"
    and "r = Some s \<Longrightarrow> map_of (bySID t) sid = Some s \<and> hs_sid s = sid \<and> now < hs_exp s \<and> map_of (bySID t') sid = Some s"
proof -
  have l: "sids_linked t" and f: "few_held t" using assms(1) by (auto simp: table_ok_def)
  have t': "t' = t \<or> t' = sweepSessionsLocked now t" using assms(2) by (auto simp: get_session_def Let_def split: if_splits)
  show "table_ok t'" using t' assms(1) sweepSessionsLocked_table_ok by auto
  show sh: "shrinks t t'" using t' sweepSessionsLocked_ok [OF l] by auto
  show "r = Some s \<Longrightarrow> map_of (bySID t) sid = Some s \<and> hs_sid s = sid \<and> now < hs_exp s \<and> map_of (bySID t') sid = Some s"
    using assms(2) sh l by (auto simp: get_session_def Let_def shrinks_def sids_linked_def split: if_splits option.splits)
qed

end
