(* ===== verification/Sessions_Machine.thy ===== *)
theory Sessions_Machine
  imports Sessions
begin

text \<open>
  The requests and callbacks that meet in the session table: openings of sessions
  (\<open>hRelaySession\<close>, step by step), deregistrations and key events, committed here or by another
  process, the callbacks they run (\<open>dropSessions\<close>) at any later moment, and sends that look a
  session up. A request holds the key history its signature was checked against (\<open>au.KEL\<close>).
\<close>

section \<open>An opening\<close>

datatype open_answer =
  OpenAdmissionRequired | OpenRateLimited int | OpenKeyRetired | Opened hub_session

text \<open>The steps of \<open>hRelaySession\<close> after the signature: the wait, the recorded session, and the second
  look at the registration.\<close>

definition open_first :: "aid \<Rightarrow> time_ns \<Rightarrow> session_table \<Rightarrow> session_table \<times> open_answer option" where
  "open_first a now t =
    (case openWait a now t of (t', wait) \<Rightarrow> (t', if 0 < wait then Some (OpenRateLimited wait) else None))"

definition open_second ::
  "aid \<Rightarrow> bytes \<Rightarrow> bytes \<Rightarrow> time_ns \<Rightarrow> session_table \<Rightarrow> session_table \<times> (open_answer + hub_session)" where
  "open_second a sid key now t =
    (case open_session a sid key now t of (t', r) \<Rightarrow>
      (t', case r of Inl wait \<Rightarrow> Inl (OpenRateLimited wait) | Inr s \<Rightarrow> Inr s))"

definition registeredKEL :: "(aid, bytes) table \<Rightarrow> aid \<Rightarrow> bytes option" where
  "registeredKEL agents a = map_of agents a"

definition open_third ::
  "(aid, bytes) table \<Rightarrow> bytes \<Rightarrow> hub_session \<Rightarrow> session_table \<Rightarrow> session_table \<times> open_answer" where
  "open_third agents kel s t =
    (case registeredKEL agents (hs_aid s) of
      None \<Rightarrow> (cancel s t, OpenAdmissionRequired)
    | Some held_kel \<Rightarrow> if held_kel \<noteq> kel then (cancel s t, OpenKeyRetired) else (t, Opened s))"

section \<open>The machine\<close>

record open_req =
  og_aid :: aid
  og_kel :: bytes
  og_now :: time_ns
  og_sess :: "hub_session option"

record session_world =
  sw_table :: session_table
  sw_agents :: "(aid, bytes) table"
  sw_drops :: "aid list"
  sw_openings :: "open_req list"
  sw_under :: "nat \<Rightarrow> bytes"

definition session_start :: session_world where
  "session_start = \<lparr>sw_table = newSessionTable, sw_agents = [], sw_drops = [], sw_openings = [], sw_under = (\<lambda>_. [])\<rparr>"

text \<open>\<open>sw_drops\<close> holds the committed deregistrations and key events whose callbacks have still to run
  (once for each); \<open>sw_under\<close> remembers the key history each session was opened under.\<close>

inductive session_step :: "session_world \<Rightarrow> session_world \<Rightarrow> bool" where
  step_agent_registers: "map_of (sw_agents w) a = None \<Longrightarrow>
    session_step w (w\<lparr>sw_agents := AList.update a kel (sw_agents w)\<rparr>)"
| step_agent_leaves: "session_step w (w\<lparr>sw_agents := AList.delete a (sw_agents w), sw_drops := a # sw_drops w\<rparr>)"
| step_key_event: "map_of (sw_agents w) a = Some old \<Longrightarrow>
    session_step w (w\<lparr>sw_agents := AList.update a kel (sw_agents w), sw_drops := a # sw_drops w\<rparr>)"
| step_callback: "a \<in> set (sw_drops w) \<Longrightarrow>
    session_step w (w\<lparr>sw_table := drop_sessions a (sw_table w), sw_drops := remove1 a (sw_drops w)\<rparr>)"
| step_callback_again: "session_step w (w\<lparr>sw_table := drop_sessions a (sw_table w)\<rparr>)"
| step_authenticated: "map_of (sw_agents w) a = Some kel \<Longrightarrow> open_first a now (sw_table w) = (t, None) \<Longrightarrow>
    session_step w (w\<lparr>sw_table := t,
      sw_openings := \<lparr>og_aid = a, og_kel = kel, og_now = now, og_sess = None\<rparr> # sw_openings w\<rparr>)"
| step_refused_first: "open_first a now (sw_table w) = (t, Some r) \<Longrightarrow> session_step w (w\<lparr>sw_table := t\<rparr>)"
| step_given_up: "o1 \<in> set (sw_openings w) \<Longrightarrow> og_sess o1 = None \<Longrightarrow>
    session_step w (w\<lparr>sw_openings := remove1 o1 (sw_openings w)\<rparr>)"
| step_refused_second: "o1 \<in> set (sw_openings w) \<Longrightarrow> og_sess o1 = None \<Longrightarrow>
    open_second (og_aid o1) sid key (og_now o1) (sw_table w) = (t, Inl r) \<Longrightarrow>
    session_step w (w\<lparr>sw_table := t, sw_openings := remove1 o1 (sw_openings w)\<rparr>)"
| step_recorded: "o1 \<in> set (sw_openings w) \<Longrightarrow> og_sess o1 = None \<Longrightarrow>
    open_second (og_aid o1) sid key (og_now o1) (sw_table w) = (t, Inr s) \<Longrightarrow>
    session_step w (w\<lparr>sw_table := t, sw_openings := o1\<lparr>og_sess := Some s\<rparr> # remove1 o1 (sw_openings w),
      sw_under := (sw_under w)(hs_ref s := og_kel o1)\<rparr>)"
| step_looked_again: "o1 \<in> set (sw_openings w) \<Longrightarrow> og_sess o1 = Some s \<Longrightarrow>
    open_third (sw_agents w) (og_kel o1) s (sw_table w) = (t, r) \<Longrightarrow>
    session_step w (w\<lparr>sw_table := t, sw_openings := remove1 o1 (sw_openings w)\<rparr>)"
| step_send: "get_session sid now (sw_table w) = (t, r) \<Longrightarrow> session_step w (w\<lparr>sw_table := t\<rparr>)"

inductive session_reachable :: "session_world \<Rightarrow> bool" where
  session_init: "session_reachable session_start"
| session_next: "session_reachable w \<Longrightarrow> session_step w w' \<Longrightarrow> session_reachable w'"

inductive_cases session_stepE: "session_step w w'"

section \<open>The invariant\<close>

lemma table_ok_linked: "table_ok t \<Longrightarrow> sids_linked t"
  by (simp add: table_ok_def)

text \<open>A session answers for a registration when its AID is registered with the key history it was opened
  under, or a callback for it is still to run, or its opening has not looked again yet.\<close>

definition answered_for :: "session_world \<Rightarrow> hub_session \<Rightarrow> bool" where
  "answered_for w s \<longleftrightarrow> map_of (sw_agents w) (hs_aid s) = Some (sw_under w (hs_ref s)) \<or>
     hs_aid s \<in> set (sw_drops w) \<or> (\<exists>o1 \<in> set (sw_openings w). og_sess o1 = Some s)"

definition openings_ok :: "session_world \<Rightarrow> bool" where
  "openings_ok w \<longleftrightarrow> (\<forall>o1 \<in> set (sw_openings w). \<forall>s. og_sess o1 = Some s \<longrightarrow>
     own_ref s (sw_table w) \<and> sw_under w (hs_ref s) = og_kel o1)"

definition session_inv :: "session_world \<Rightarrow> bool" where
  "session_inv w \<longleftrightarrow> table_ok (sw_table w) \<and> openings_ok w \<and>
    (\<forall>sid s. map_of (bySID (sw_table w)) sid = Some s \<longrightarrow> answered_for w s)"

lemma own_ref_shrinks: "own_ref s t \<Longrightarrow> shrinks t t' \<Longrightarrow> own_ref s t'"
  unfolding own_ref_def shrinks_def using subseq_set by fastforce

text \<open>A step that only takes sessions away, leaves the registrations and keeps every other opening.\<close>

lemma session_inv_shrinks:
  assumes "session_inv w" "shrinks (sw_table w) t" "sids_linked t"
    and "os \<subseteq> set (sw_openings w)" "set (sw_openings w') = os"
    and "sw_table w' = t" "sw_agents w' = sw_agents w" "sw_under w' = sw_under w"
    and "\<And>sid s. map_of (bySID t) sid = Some s \<Longrightarrow> answered_for w s \<Longrightarrow> answered_for w' s"
  shows "session_inv w'"
  unfolding session_inv_def
proof (intro conjI allI impI)
  show "table_ok (sw_table w')"
    using assms(1,2,3,6) few_held_shrinks by (auto simp: session_inv_def table_ok_def)
  show "openings_ok w'"
    using assms(1,2,4,5,6,8) own_ref_shrinks by (fastforce simp: session_inv_def openings_ok_def)
  fix sid s assume "map_of (bySID (sw_table w')) sid = Some s"
  then have m: "map_of (bySID t) sid = Some s" using assms(6) by simp
  then have "map_of (bySID (sw_table w)) sid = Some s" using assms(2) by (auto simp: shrinks_def)
  then have "answered_for w s" using assms(1) by (auto simp: session_inv_def)
  with m show "answered_for w' s" by (rule assms(9))
qed

lemma recent_cong:
  assumes "bySID t' = bySID t" "byAID t' = byAID t" "next_ref t' = next_ref t" "sids_linked t"
  shows "shrinks t t'" "sids_linked t'"
  using assms sids_linked_cong [OF assms(1,2)] shrinks_cong [OF assms(1,2,3)] by auto

lemma open_first_ok:
  assumes "sids_linked t" "open_first a now t = (t', r)"
  shows "shrinks t t'" "sids_linked t'"
  using assms recent_cong [OF openWaitLocked_indices, of t a now]
  by (auto simp: open_first_def openWait_def case_prod_beta)

lemma session_inv_linked: "session_inv w \<Longrightarrow> sids_linked (sw_table w)"
  by (simp add: session_inv_def table_ok_linked)

lemma inv_sub:
  assumes "session_inv w" "shrinks (sw_table w) t" "sids_linked t" "set os \<subseteq> set (sw_openings w)"
    and "\<forall>o1 \<in> set (sw_openings w). o1 \<notin> set os \<longrightarrow>
           (\<forall>s. og_sess o1 = Some s \<longrightarrow> (\<forall>sid. map_of (bySID t) sid = Some s \<longrightarrow>
              map_of (sw_agents w) (hs_aid s) = Some (sw_under w (hs_ref s))))"
  shows "session_inv (w\<lparr>sw_table := t, sw_openings := os\<rparr>)"
  using assms by (intro session_inv_shrinks [OF assms(1,2,3,4)]) (auto simp: answered_for_def)

lemma inv_table:
  assumes "session_inv w" "shrinks (sw_table w) t" "sids_linked t"
  shows "session_inv (w\<lparr>sw_table := t\<rparr>)"
  using inv_sub [OF assms, of "sw_openings w"] by simp

lemma remove1_keeps: "x \<in> set xs \<Longrightarrow> x \<noteq> y \<Longrightarrow> x \<in> set (remove1 y xs)"
  by (simp add: in_set_remove1)

lemma inv_closed:
  assumes "session_inv w" "shrinks (sw_table w) t" "sids_linked t" "og_sess o1 = None"
  shows "session_inv (w\<lparr>sw_table := t, sw_openings := remove1 o1 (sw_openings w)\<rparr>)"
proof (rule inv_sub [OF assms(1,2,3) set_remove1_subset], intro ballI impI allI)
  fix o2 s sid
  assume "o2 \<in> set (sw_openings w)" "o2 \<notin> set (remove1 o1 (sw_openings w))" "og_sess o2 = Some s"
  then show "map_of (sw_agents w) (hs_aid s) = Some (sw_under w (hs_ref s))"
    using remove1_keeps [of o2 "sw_openings w" o1] assms(4) by (cases "o2 = o1") auto
qed

text \<open>A session refused by \<open>open\<close> leaves the table shrunk; a recorded one joins it.\<close>

lemma open_second_Inl:
  assumes "table_ok t" "open_second a sid key now t = (t', Inl r)"
  shows "shrinks t t'" "sids_linked t'"
proof -
  obtain u x where o: "open_session a sid key now t = (u, x)" by (cases "open_session a sid key now t")
  then have x: "t' = u" "\<exists>w. x = Inl w" using assms(2) by (auto simp: open_second_def split: sum.splits)
  from o x have "u = fst (openWaitLocked a now (sweepSessionsLocked now t))"
    by (auto simp: open_session_def Let_def case_prod_beta split: if_splits)
  with x show "shrinks t t'" "sids_linked t'"
    using sweepSessionsLocked_ok [OF table_ok_linked [OF assms(1)], of now]
      recent_cong [OF openWaitLocked_indices, of "sweepSessionsLocked now t" a now] shrinks_trans by blast+
qed

lemma inv_recorded:
  assumes inv: "session_inv w" and o1: "o1 \<in> set (sw_openings w)" "og_sess o1 = None"
    and r: "open_second (og_aid o1) sid key (og_now o1) (sw_table w) = (t, Inr s)"
  shows "session_inv (w\<lparr>sw_table := t, sw_openings := o1\<lparr>og_sess := Some s\<rparr> # remove1 o1 (sw_openings w),
      sw_under := (sw_under w)(hs_ref s := og_kel o1)\<rparr>)" (is "session_inv ?w")
proof -
  have ok: "table_ok (sw_table w)" using inv by (simp add: session_inv_def)
  from r have r': "open_session (og_aid o1) sid key (og_now o1) (sw_table w) = (t, Inr s)"
    by (auto simp: open_second_def split: prod.splits sum.splits)
  note O = open_session_ok [OF ok r']
  have ref: "hs_ref s = next_ref (sw_table w)" using O(2) by simp
  have old: "x \<in> set (held (sw_table w) b) \<Longrightarrow> hs_ref x < next_ref (sw_table w)" for x b
    using ok by (auto simp: table_ok_def few_held_def)
  have keep: "own_ref x t" "hs_ref x \<noteq> hs_ref s" if "own_ref x (sw_table w)" for x
    using that O(4) [where x = y for y] O(5) ref by (fastforce simp: own_ref_def)+
  have "own_ref s t" using O(4) O(5) ref old by (fastforce simp: own_ref_def)
  then have "openings_ok ?w"
    using inv keep by (auto simp: session_inv_def openings_ok_def dest!: notin_set_remove1 set_mp [OF set_remove1_subset])
  moreover have "answered_for ?w x" if x: "map_of (bySID t) i = Some x" for i x
  proof (cases "x = s")
    case True
    then show ?thesis by (simp add: answered_for_def)
  next
    case False
    with O(3) [OF x] have m: "map_of (bySID (sw_table w)) i = Some x" by auto
    with inv have a: "answered_for w x" by (auto simp: session_inv_def)
    have "hs_ref x \<noteq> hs_ref s" using m ok old [of x "hs_aid x"] ref by (auto simp: table_ok_def sids_linked_def)
    with a o1 show ?thesis unfolding answered_for_def
      by simp (metis in_set_remove1 option.distinct(1))
  qed
  ultimately show ?thesis using O(1) by (simp add: session_inv_def)
qed

lemma inv_looked:
  assumes inv: "session_inv w" and o1: "o1 \<in> set (sw_openings w)" "og_sess o1 = Some s"
    and r: "open_third (sw_agents w) (og_kel o1) s (sw_table w) = (t, r)"
  shows "session_inv (w\<lparr>sw_table := t, sw_openings := remove1 o1 (sw_openings w)\<rparr>)"
proof -
  have l: "sids_linked (sw_table w)" and own: "own_ref s (sw_table w)" and u: "sw_under w (hs_ref s) = og_kel o1"
    using inv o1 by (auto simp: session_inv_def table_ok_def openings_ok_def)
  have t: "t = sw_table w \<and> map_of (sw_agents w) (hs_aid s) = Some (og_kel o1) \<or> t = cancel s (sw_table w)"
    using r by (auto simp: open_third_def registeredKEL_def split: option.splits if_splits)
  have sh: "shrinks (sw_table w) t" "sids_linked t" using t l cancel_ok [OF l own] by auto
  have gone: "map_of (sw_agents w) (hs_aid s) = Some (sw_under w (hs_ref s))" if "map_of (bySID t) sid = Some s" for sid
  proof -
    have "hs_sid s = sid" using that sh(2) by (auto simp: sids_linked_def)
    then show ?thesis using t u that cancel_ends [of s s] by auto
  qed
  show ?thesis
  proof (rule inv_sub [OF inv sh set_remove1_subset], intro ballI impI allI)
    fix o2 x sid
    assume "o2 \<in> set (sw_openings w)" "o2 \<notin> set (remove1 o1 (sw_openings w))"
      "og_sess o2 = Some x" "map_of (bySID t) sid = Some x"
    then show "map_of (sw_agents w) (hs_aid x) = Some (sw_under w (hs_ref x))"
      using remove1_keeps [of o2 "sw_openings w" o1] o1(2) gone by (cases "o2 = o1") auto
  qed
qed

lemma inv_dropped:
  assumes inv: "session_inv w"
  shows "session_inv (w\<lparr>sw_table := drop_sessions a (sw_table w), sw_drops := remove1 a (sw_drops w)\<rparr>)"
proof -
  note D = drop_ok [OF session_inv_linked [OF inv]]
  show ?thesis
    by (rule session_inv_shrinks [OF inv D(1,2) subset_refl])
       (use D(3) in \<open>auto simp: answered_for_def in_set_remove1\<close>)
qed

lemma session_step_inv: "session_step w w' \<Longrightarrow> session_inv w \<Longrightarrow> session_inv w'"
proof (induction rule: session_step.induct)
  case (step_agent_registers w a kel)
  have "answered_for w s \<Longrightarrow> answered_for (w\<lparr>sw_agents := AList.update a kel (sw_agents w)\<rparr>) s" for s
    using step_agent_registers(1) by (auto simp: answered_for_def map_of_update_eq)
  with step_agent_registers show ?case by (simp add: session_inv_def openings_ok_def)
next
  case (step_agent_leaves w a)
  have "answered_for w s \<Longrightarrow> answered_for (w\<lparr>sw_agents := AList.delete a (sw_agents w), sw_drops := a # sw_drops w\<rparr>) s" for s
    using step_agent_leaves(1) by (auto simp: answered_for_def delete_conv')
  with step_agent_leaves show ?case by (simp add: session_inv_def openings_ok_def)
next
  case (step_key_event w a old kel)
  have "answered_for w s \<Longrightarrow> answered_for (w\<lparr>sw_agents := AList.update a kel (sw_agents w), sw_drops := a # sw_drops w\<rparr>) s" for s
    using step_key_event(1) by (auto simp: answered_for_def map_of_update_eq)
  with step_key_event show ?case by (simp add: session_inv_def openings_ok_def)
next
  case (step_callback a w)
  then show ?case using inv_dropped by blast
next
  case (step_callback_again w a)
  then show ?case using drop_ok(1,2) [OF session_inv_linked] inv_table by blast
next
  case (step_authenticated w a kel now t)
  from open_first_ok [OF session_inv_linked [OF step_authenticated(3)] step_authenticated(2)]
  have "session_inv (w\<lparr>sw_table := t\<rparr>)" using inv_table [OF step_authenticated(3)] by blast
  then show ?case by (auto simp: session_inv_def openings_ok_def answered_for_def)
next
  case (step_refused_first a now w t r)
  then show ?case using open_first_ok [OF session_inv_linked] inv_table by blast
next
  case (step_given_up o1 w)
  then show ?case using inv_closed [OF step_given_up(3) shrinks_refl session_inv_linked [OF step_given_up(3)], of o1] by simp
next
  case (step_refused_second o1 w sid key t r)
  have "table_ok (sw_table w)" using step_refused_second(4) by (simp add: session_inv_def)
  from open_second_Inl [OF this step_refused_second(3)] show ?case
    using inv_closed [OF step_refused_second(4) _ _ step_refused_second(2)] by blast
next
  case (step_recorded o1 w sid key t s)
  then show ?case by (intro inv_recorded)
next
  case (step_looked_again o1 w s t r)
  then show ?case by (intro inv_looked)
next
  case (step_send sid now w t r)
  have "table_ok (sw_table w)" using step_send(2) by (simp add: session_inv_def)
  from get_session_ok(1,2) [OF this step_send(1)] show ?case
    using inv_table [OF step_send(2)] table_ok_linked by blast
qed

lemma session_reachable_inv: "session_reachable w \<Longrightarrow> session_inv w"
proof (induction rule: session_reachable.induct)
  case session_init
  then show ?case
    by (simp add: session_inv_def session_start_def newSessionTable_def table_ok_def sids_linked_def few_held_def
        held_def row_or_def openings_ok_def)
next
  case (session_next w w')
  then show ?case using session_step_inv by blast
qed

end
