(* ===== verification/Revocations.thy ===== *)
theory Revocations
  imports Hub_Prelude
begin

text \<open>
  \<open>internal/aghub/revoke.go\<close>: the table of revoked delivery credentials, and the in-process cache in
  front of it. The cache is the model of the map and the LRU list together: its entries, most recently
  used first. \<open>seal.CapIDLen\<close> is 16.
\<close>

section \<open>The table\<close>

type_synonym capid = bytes
type_synonym revocations = "(aid \<times> capid, millis) table"

datatype revoke_error = ErrCapIDLength nat | ErrRevocationListFull

definition CapIDLen :: nat where "CapIDLen = 16"
definition RevocationKeep :: int where "RevocationKeep = 31 * day_ns"
definition MaxRevocationsPerOwner :: nat where "MaxRevocationsPerOwner = 100000"
definition MaxRevokeBatch :: nat where "MaxRevokeBatch = 1000"
definition revokedCacheSize :: nat where "revokedCacheSize = 65536"

definition revocationCutoff :: "time_ns \<Rightarrow> millis" where
  "revocationCutoff now = unix_milli (now - RevocationKeep)"

definition live_row :: "aid \<Rightarrow> millis \<Rightarrow> (aid \<times> capid) \<times> millis \<Rightarrow> bool" where
  "live_row owner cutoff r \<longleftrightarrow> fst (fst r) = owner \<and> snd r > cutoff"

definition live_count :: "aid \<Rightarrow> millis \<Rightarrow> revocations \<Rightarrow> nat" where
  "live_count owner cutoff t = length (filter (live_row owner cutoff) t)"

definition live_at :: "revocations \<Rightarrow> aid \<Rightarrow> capid \<Rightarrow> millis \<Rightarrow> bool" where
  "live_at t owner c cutoff \<longleftrightarrow> (case map_of t (owner, c) of None \<Rightarrow> False | Some at \<Rightarrow> at > cutoff)"

definition RevocationCount :: "time_ns \<Rightarrow> aid \<Rightarrow> revocations \<Rightarrow> nat" where
  "RevocationCount now owner t = live_count owner (revocationCutoff now) t"

text \<open>The loop that keeps the first of each id.\<close>

fun uniq_ids :: "capid list \<Rightarrow> capid list \<Rightarrow> capid list" where
  "uniq_ids seen [] = []"
| "uniq_ids seen (c # cs) = (if c \<in> set seen then uniq_ids seen cs else c # uniq_ids (c # seen) cs)"

definition revoke_all :: "aid \<Rightarrow> millis \<Rightarrow> capid list \<Rightarrow> revocations \<Rightarrow> revocations" where
  "revoke_all owner at cs t = fold (\<lambda>c. AList.update (owner, c) at) cs t"

text \<open>\<open>RevokeCaps\<close> up to its commit: the table, and the ids that the cache is told of. The transaction
  is one step; \<open>now\<close> was read before it.\<close>

definition RevokeCaps ::
  "time_ns \<Rightarrow> aid \<Rightarrow> capid list \<Rightarrow> revocations \<Rightarrow> revoke_error + revocations \<times> capid list \<times> nat \<times> nat" where
  "RevokeCaps now owner ids t =
    (case find (\<lambda>c. length c \<noteq> CapIDLen) ids of
      Some c \<Rightarrow> Inl (ErrCapIDLength (length c))
    | None \<Rightarrow>
       (let cutoff = revocationCutoff now;
            tot = live_count owner cutoff t;
            fresh = filter (\<lambda>c. \<not> live_at t owner c cutoff) (uniq_ids [] ids) in
        if tot + length fresh > MaxRevocationsPerOwner then Inl ErrRevocationListFull
        else Inr (revoke_all owner (unix_milli now) fresh t, fresh, length fresh, tot + length fresh)))"

definition PurgeExpiredRevocations :: "time_ns \<Rightarrow> revocations \<Rightarrow> revocations \<times> nat" where
  "PurgeExpiredRevocations now t =
    (let t' = filter (\<lambda>r. \<not> snd r \<le> revocationCutoff now) t in (t', length t - length t'))"

text \<open>The deletion a deregistration and a new mailbox epoch make.\<close>

definition delete_owner :: "aid \<Rightarrow> revocations \<Rightarrow> revocations" where
  "delete_owner owner t = filter (\<lambda>r. fst (fst r) \<noteq> owner) t"

text \<open>The checks of \<open>hMailboxRevoke\<close> after the signature and the rate: the size of the batch and of each id.\<close>

definition revoke_request :: "time_ns \<Rightarrow> aid \<Rightarrow> capid list \<Rightarrow> revocations \<Rightarrow> (revoke_error option) + revocations \<times> capid list \<times> nat \<times> nat" where
  "revoke_request now owner ids t =
    (if ids = [] \<or> length ids > MaxRevokeBatch then Inl None
     else if \<exists>c \<in> set ids. length c \<noteq> CapIDLen then Inl None
     else (case RevokeCaps now owner ids t of Inl e \<Rightarrow> Inl (Some e) | Inr x \<Rightarrow> Inr x))"

section \<open>The cache\<close>

type_synonym revoked_key = "8 word list"

text \<open>\<open>owner + "\x00" + string(capID)\<close>.\<close>

definition revokedKey :: "aid \<Rightarrow> capid \<Rightarrow> revoked_key" where
  "revokedKey owner c = map (\<lambda>ch. of_nat (of_char ch)) owner @ 0 # c"

record revoked_cache =
  rc_gen :: u64
  rc_entries :: "(revoked_key, millis) table"

definition no_cache :: revoked_cache where "no_cache = \<lparr>rc_gen = 0, rc_entries = []\<rparr>"

definition move_to_front :: "revoked_key \<Rightarrow> millis \<Rightarrow> (revoked_key, millis) table \<Rightarrow> (revoked_key, millis) table" where
  "move_to_front k at es = (k, at) # AList.delete k es"

definition revoked_get :: "aid \<Rightarrow> capid \<Rightarrow> time_ns \<Rightarrow> revoked_cache \<Rightarrow> revoked_cache \<times> bool option" where
  "revoked_get owner c now rc =
    (case map_of (rc_entries rc) (revokedKey owner c) of
      None \<Rightarrow> (rc, None)
    | Some at \<Rightarrow> (rc\<lparr>rc_entries := move_to_front (revokedKey owner c) at (rc_entries rc)\<rparr>,
                 Some (at \<noteq> 0 \<and> at > revocationCutoff now)))"

definition revoked_set :: "revoked_key \<Rightarrow> millis \<Rightarrow> revoked_cache \<Rightarrow> revoked_cache" where
  "revoked_set k at rc =
    rc\<lparr>rc_entries := (if has_key (rc_entries rc) k then move_to_front k at (rc_entries rc)
                      else take revokedCacheSize ((k, at) # rc_entries rc))\<rparr>"

definition revoked_put :: "u64 \<Rightarrow> aid \<Rightarrow> capid \<Rightarrow> millis \<Rightarrow> revoked_cache \<Rightarrow> revoked_cache" where
  "revoked_put gen owner c at rc = (if gen \<noteq> rc_gen rc then rc else revoked_set (revokedKey owner c) at rc)"

definition revoked_add :: "aid \<Rightarrow> capid list \<Rightarrow> millis \<Rightarrow> revoked_cache \<Rightarrow> revoked_cache" where
  "revoked_add owner ids at rc =
    rc\<lparr>rc_gen := rc_gen rc + 1,
       rc_entries := map (\<lambda>(k, v). (k, if k \<in> revokedKey owner ` set ids then max at 1 else v)) (rc_entries rc)\<rparr>"

definition revoked_forget :: "revoked_cache \<Rightarrow> revoked_cache" where
  "revoked_forget rc = rc\<lparr>rc_gen := rc_gen rc + 1, rc_entries := []\<rparr>"

section \<open>A lookup\<close>

text \<open>\<open>CapRevoked\<close> is three steps other requests may run between: the cache, with the generation when it
  has no answer; the table; the entry.\<close>

definition row_answer :: "revocations \<Rightarrow> aid \<Rightarrow> capid \<Rightarrow> time_ns \<Rightarrow> millis \<times> bool" where
  "row_answer t owner c now =
    (case map_of t (owner, c) of None \<Rightarrow> (0, False) | Some at \<Rightarrow> (at, at > revocationCutoff now))"

text \<open>The three steps with nothing between them.\<close>

definition CapRevoked :: "time_ns \<Rightarrow> aid \<Rightarrow> capid \<Rightarrow> revocations \<Rightarrow> revoked_cache \<Rightarrow> revoked_cache \<times> bool" where
  "CapRevoked now owner c t rc =
    (case revoked_get owner c now rc of
      (rc', Some v) \<Rightarrow> (rc', v)
    | (rc', None) \<Rightarrow>
       (case row_answer t owner c now of (at, v) \<Rightarrow> (revoked_put (rc_gen rc') owner c at rc', v)))"

section \<open>Lemmas\<close>

lemma revokedKey_inj:
  assumes "length c = CapIDLen" "length d = CapIDLen" "revokedKey a c = revokedKey b d"
  shows "a = b \<and> c = d"
proof -
  from assms have "map (\<lambda>ch. of_nat (of_char ch) :: 8 word) a = map (\<lambda>ch. of_nat (of_char ch)) b \<and> 0 # c = (0 :: 8 word) # d"
    by (simp add: revokedKey_def)
  moreover have "inj (\<lambda>ch :: char. of_nat (of_char ch) :: 8 word)"
  proof (rule injI)
    fix x y :: char
    assume "of_nat (of_char x) = (of_nat (of_char y) :: 8 word)"
    then have "unat (of_nat (of_char x) :: 8 word) = unat (of_nat (of_char y) :: 8 word)" by simp
    then have "of_char x mod 256 = (of_char y mod 256 :: nat)" by (simp add: unat_of_nat)
    moreover have "of_char ch mod 256 = (of_char ch :: nat)" for ch
      using of_char_of [of "of_char ch :: nat"] by simp
    ultimately show "x = y" by simp
  qed
  ultimately show ?thesis by (simp add: inj_map_eq_map)
qed

lemma uniq_ids_set: "set (uniq_ids seen cs) = set cs - set seen"
  by (induction seen cs rule: uniq_ids.induct) auto

lemma uniq_ids_distinct: "distinct (uniq_ids seen cs)"
  by (induction seen cs rule: uniq_ids.induct) (auto simp: uniq_ids_set)

lemma map_of_revoke_all:
  "map_of (revoke_all owner at cs t) k = (if fst k = owner \<and> snd k \<in> set cs then Some at else map_of t k)"
  unfolding revoke_all_def by (induction cs arbitrary: t; cases k) (auto simp: map_of_update_eq)

lemma keys_ok_revoke_all [simp]: "keys_ok t \<Longrightarrow> keys_ok (revoke_all owner at cs t)"
  unfolding revoke_all_def by (induction cs arbitrary: t) auto

lemma live_at_alt: "live_at t owner c cutoff \<longleftrightarrow> (\<exists>at. map_of t (owner, c) = Some at \<and> at > cutoff)"
  by (auto simp: live_at_def split: option.splits)

text \<open>The count is the number of ids the owner has live.\<close>

lemma live_count_card: "keys_ok t \<Longrightarrow> live_count owner cutoff t = card {c. live_at t owner c cutoff}"
proof -
  assume t: "keys_ok t"
  let ?f = "filter (live_row owner cutoff) t"
  have d: "distinct (map fst ?f)" using t by (simp add: keys_ok_def distinct_map_filter)
  have "distinct (map (snd \<circ> fst) ?f)"
    using d by (auto simp: distinct_map inj_on_def live_row_def)
  then have "length ?f = card (set (map (snd \<circ> fst) ?f))" using distinct_card by fastforce
  moreover have "set (map (snd \<circ> fst) ?f) = {c. live_at t owner c cutoff}"
    using t by (force simp: live_at_alt live_row_def keys_ok_def image_iff intro: map_of_SomeD)
  ultimately show ?thesis by (simp add: live_count_def)
qed

lemma finite_live: "finite {c. live_at t owner c cutoff}"
proof -
  have "{c. live_at t owner c cutoff} \<subseteq> (snd \<circ> fst) ` set t"
    by (force simp: live_at_alt dest: map_of_SomeD)
  then show ?thesis by (rule finite_subset) simp
qed

lemma live_count_mono: "keys_ok t \<Longrightarrow> lim \<le> lim' \<Longrightarrow> live_count owner lim' t \<le> live_count owner lim t"
  by (simp only: live_count_card) (intro card_mono finite_live, auto simp: live_at_alt)

lemma revoke_cutoff: "revocationCutoff now < unix_milli now"
  by (simp add: revocationCutoff_def RevocationKeep_def unix_milli_def time_defs)

lemma RevokeCaps_Inr:
  assumes "RevokeCaps now owner ids t = Inr (t', fresh, n, tot)"
  shows "\<forall>c \<in> set ids. length c = CapIDLen" "distinct fresh"
    and "set fresh = {c \<in> set ids. \<not> live_at t owner c (revocationCutoff now)}"
    and "t' = revoke_all owner (unix_milli now) fresh t" "n = length fresh" "tot \<le> MaxRevocationsPerOwner"
    and "tot = live_count owner (revocationCutoff now) t + length fresh"
  using assms
  by (auto simp: RevokeCaps_def Let_def uniq_ids_set uniq_ids_distinct find_None_iff split: option.splits if_splits)

text \<open>What the answer counts is what the table then holds: every id of the batch is live, and the tot is
  the owner's count at that time.\<close>

lemma RevokeCaps_total:
  assumes "keys_ok t" "RevokeCaps now owner ids t = Inr (t', fresh, n, tot)"
  shows "RevocationCount now owner t' = tot"
    and "c \<in> set ids \<Longrightarrow> live_at t' owner c (revocationCutoff now)"
    and "k \<noteq> owner \<Longrightarrow> live_at t' k d lim \<longleftrightarrow> live_at t k d lim"
proof -
  note R = RevokeCaps_Inr [OF assms(2)]
  let ?cut = "revocationCutoff now"
  have live: "live_at t' owner d ?cut \<longleftrightarrow> d \<in> set fresh \<or> live_at t owner d ?cut" for d
    using revoke_cutoff [of now] by (auto simp: R(4) live_at_alt map_of_revoke_all)
  have "{d. live_at t' owner d ?cut} = set fresh \<union> {d. live_at t owner d ?cut}" using live by auto
  moreover have "set fresh \<inter> {d. live_at t owner d ?cut} = {}" using R(3) by auto
  ultimately have "card {d. live_at t' owner d ?cut} = length fresh + card {d. live_at t owner d ?cut}"
    by (simp add: card_Un_disjoint finite_live distinct_card [OF R(2)])
  then show "RevocationCount now owner t' = tot"
    using assms(1) by (simp add: RevocationCount_def live_count_card R(4) R(7))
  show "c \<in> set ids \<Longrightarrow> live_at t' owner c ?cut" using R(3) live by auto
  show "k \<noteq> owner \<Longrightarrow> live_at t' k d lim \<longleftrightarrow> live_at t k d lim"
    by (simp add: R(4) live_at_alt map_of_revoke_all)
qed

end
