(* ===== verification/Revocations_Machine.thy ===== *)
theory Revocations_Machine
  imports Revocations
begin

text \<open>
  Revocations, lookups, purges and deletions on one table and one cache. \<open>RevokeCaps\<close> holds the store's
  lock from its commit to the cache's update, so at most one update is told_later (\<open>vw_adding\<close>). A lookup
  that the cache does not answer is a reader: it takes the generation, reads the row and offers it to the
  cache, and every other step may run between these. Deletions of rows (deregistration, a new mailbox
  epoch, by this process or another) and the \<open>forget\<close> that follows them are steps of their own.
\<close>

record rev_reader =
  rd_owner :: aid
  rd_cap :: capid
  rd_gen :: "u64 option"
  rd_moved :: nat
  rd_at :: "millis option"

record rev_world =
  vw_rows :: revocations
  vw_cache :: revoked_cache
  vw_adding :: "(aid \<times> capid list \<times> millis) option"
  vw_readers :: "rev_reader list"
  vw_clock :: time_ns

definition rev_start :: "time_ns \<Rightarrow> rev_world" where
  "rev_start now = \<lparr>vw_rows = [], vw_cache = no_cache, vw_adding = None, vw_readers = [], vw_clock = now\<rparr>"

definition moved_on :: "rev_reader list \<Rightarrow> rev_reader list" where
  "moved_on rs = map (\<lambda>r. r\<lparr>rd_moved := rd_moved r + 1\<rparr>) rs"

text \<open>\<open>rd_moved\<close> counts how often the generation moved since a reader took it. The generation is a
  64-bit counter; that it does not come round within one lookup is the premise of \<open>rev_put\<close>.\<close>

inductive rev_step :: "rev_world \<Rightarrow> rev_world \<Rightarrow> bool" where
  rev_tick: "vw_clock w \<le> now \<Longrightarrow> rev_step w (w\<lparr>vw_clock := now\<rparr>)"
| rev_commit: "vw_adding w = None \<Longrightarrow> now \<le> vw_clock w \<Longrightarrow>
    RevokeCaps now owner ids (vw_rows w) = Inr (t, fresh, n, tot) \<Longrightarrow>
    rev_step w (w\<lparr>vw_rows := t, vw_adding := Some (owner, fresh, unix_milli now)\<rparr>)"
| rev_added: "vw_adding w = Some (owner, ids, at) \<Longrightarrow>
    rev_step w (w\<lparr>vw_cache := revoked_add owner ids at (vw_cache w), vw_adding := None,
      vw_readers := moved_on (vw_readers w)\<rparr>)"
| rev_deleted: "rev_step w (w\<lparr>vw_rows := delete_owner owner (vw_rows w)\<rparr>)"
| rev_purged: "now \<le> vw_clock w \<Longrightarrow>
    rev_step w (w\<lparr>vw_rows := fst (PurgeExpiredRevocations now (vw_rows w))\<rparr>)"
| rev_forgot: "rev_step w (w\<lparr>vw_cache := revoked_forget (vw_cache w), vw_readers := moved_on (vw_readers w)\<rparr>)"
| rev_hit: "length c = CapIDLen \<Longrightarrow> revoked_get owner c now (vw_cache w) = (rc, Some v) \<Longrightarrow>
    rev_step w (w\<lparr>vw_cache := rc\<rparr>)"
| rev_miss: "length c = CapIDLen \<Longrightarrow> revoked_get owner c now (vw_cache w) = (rc, None) \<Longrightarrow>
    rev_step w (w\<lparr>vw_readers :=
      \<lparr>rd_owner = owner, rd_cap = c, rd_gen = None, rd_moved = 0, rd_at = None\<rparr> # vw_readers w\<rparr>)"
| rev_generation: "r \<in> set (vw_readers w) \<Longrightarrow> rd_gen r = None \<Longrightarrow>
    rev_step w (w\<lparr>vw_readers := r\<lparr>rd_gen := Some (rc_gen (vw_cache w)), rd_moved := 0\<rparr> # remove1 r (vw_readers w)\<rparr>)"
| rev_query: "r \<in> set (vw_readers w) \<Longrightarrow> rd_gen r \<noteq> None \<Longrightarrow> rd_at r = None \<Longrightarrow>
    rev_step w (w\<lparr>vw_readers :=
      r\<lparr>rd_at := Some (fst (row_answer (vw_rows w) (rd_owner r) (rd_cap r) now))\<rparr> # remove1 r (vw_readers w)\<rparr>)"
| rev_put: "r \<in> set (vw_readers w) \<Longrightarrow> rd_gen r = Some g \<Longrightarrow> rd_at r = Some at \<Longrightarrow> rd_moved r < 2 ^ 64 \<Longrightarrow>
    rev_step w (w\<lparr>vw_cache := revoked_put g (rd_owner r) (rd_cap r) at (vw_cache w),
      vw_readers := remove1 r (vw_readers w)\<rparr>)"
| rev_gave_up: "r \<in> set (vw_readers w) \<Longrightarrow> rev_step w (w\<lparr>vw_readers := remove1 r (vw_readers w)\<rparr>)"

inductive rev_reachable :: "rev_world \<Rightarrow> bool" where
  rev_init: "rev_reachable (rev_start now)"
| rev_next: "rev_reachable w \<Longrightarrow> rev_step w w' \<Longrightarrow> rev_reachable w'"

section \<open>The invariant\<close>

definition told_later :: "rev_world \<Rightarrow> aid \<Rightarrow> capid \<Rightarrow> bool" where
  "told_later w owner c \<longleftrightarrow> (\<exists>ids at. vw_adding w = Some (owner, ids, at) \<and> c \<in> set ids)"

text \<open>A value the cache holds, or may be given, for a credential: never older than the row, unless the
  cache is still to be told.\<close>

definition as_new :: "rev_world \<Rightarrow> aid \<Rightarrow> capid \<Rightarrow> millis \<Rightarrow> bool" where
  "as_new w owner c v \<longleftrightarrow> told_later w owner c \<or> (\<forall>at. map_of (vw_rows w) (owner, c) = Some at \<longrightarrow> at \<le> v)"

definition rows_ok :: "rev_world \<Rightarrow> bool" where
  "rows_ok w \<longleftrightarrow> keys_ok (vw_rows w) \<and> (\<forall>owner. RevocationCount (vw_clock w) owner (vw_rows w) \<le> MaxRevocationsPerOwner)"

definition adding_ok :: "rev_world \<Rightarrow> bool" where
  "adding_ok w \<longleftrightarrow> (\<forall>owner ids at. vw_adding w = Some (owner, ids, at) \<longrightarrow>
     (\<forall>c \<in> set ids. length c = CapIDLen \<and> (\<forall>b. map_of (vw_rows w) (owner, c) = Some b \<longrightarrow> b \<le> at)))"

definition revoked_ok :: "rev_world \<Rightarrow> bool" where
  "revoked_ok w \<longleftrightarrow> keys_ok (rc_entries (vw_cache w)) \<and> length (rc_entries (vw_cache w)) \<le> revokedCacheSize \<and>
     (\<forall>owner c v. length c = CapIDLen \<longrightarrow> map_of (rc_entries (vw_cache w)) (revokedKey owner c) = Some v \<longrightarrow> as_new w owner c v)"

definition reader_ok :: "rev_world \<Rightarrow> rev_reader \<Rightarrow> bool" where
  "reader_ok w r \<longleftrightarrow> length (rd_cap r) = CapIDLen \<and> (rd_gen r = None \<longrightarrow> rd_at r = None) \<and>
     (\<forall>g. rd_gen r = Some g \<longrightarrow> rc_gen (vw_cache w) = g + of_nat (rd_moved r)) \<and>
     (rd_moved r = 0 \<longrightarrow> (\<forall>at. rd_at r = Some at \<longrightarrow> as_new w (rd_owner r) (rd_cap r) at))"

definition rev_inv :: "rev_world \<Rightarrow> bool" where
  "rev_inv w \<longleftrightarrow> rows_ok w \<and> adding_ok w \<and> revoked_ok w \<and> (\<forall>r \<in> set (vw_readers w). reader_ok w r)"

text \<open>Rows that go, and rows that stay.\<close>

lemma rows_fewer:
  assumes "keys_ok t"
  shows "live_count owner lim (filter P t) \<le> live_count owner lim t"
    and "map_of (filter P t) k = Some v \<Longrightarrow> map_of t k = Some v"
proof -
  show "live_count owner lim (filter P t) \<le> live_count owner lim t"
    unfolding live_count_def filter_filter by (induction t) auto
  show "map_of (filter P t) k = Some v \<Longrightarrow> map_of t k = Some v"
    using assms by (auto simp: keys_ok_def distinct_map_filter dest!: map_of_SomeD)
qed

lemma inv_rows_fewer:
  assumes "rev_inv w"
  shows "rev_inv (w\<lparr>vw_rows := filter P (vw_rows w)\<rparr>)" (is "rev_inv ?w")
proof -
  have k: "keys_ok (vw_rows w)" using assms by (simp add: rev_inv_def rows_ok_def)
  note F = rows_fewer [OF k, where P = P]
  have new: "as_new w o1 c v \<Longrightarrow> as_new ?w o1 c v" for o1 c v
    using F(2) by (auto simp: as_new_def told_later_def)
  show ?thesis
    using assms F(2) new order_trans [OF F(1)]
    by (fastforce simp: rev_inv_def rows_ok_def adding_ok_def revoked_ok_def reader_ok_def RevocationCount_def)
qed

lemma inv_committed:
  assumes inv: "rev_inv w" and "vw_adding w = None" "now \<le> vw_clock w"
    and r: "RevokeCaps now owner ids (vw_rows w) = Inr (t, fresh, n, tot)"
  shows "rev_inv (w\<lparr>vw_rows := t, vw_adding := Some (owner, fresh, unix_milli now)\<rparr>)" (is "rev_inv ?w")
proof -
  note R = RevokeCaps_Inr [OF r]
  have k: "keys_ok (vw_rows w)" using inv by (simp add: rev_inv_def rows_ok_def)
  note T = RevokeCaps_total [OF k r]
  have row: "map_of t (o1, c) = (if o1 = owner \<and> c \<in> set fresh then Some (unix_milli now) else map_of (vw_rows w) (o1, c))" for o1 c
    by (simp add: R(4) map_of_revoke_all)
  have new: "as_new w o1 c v \<Longrightarrow> as_new ?w o1 c v" for o1 c v
    using assms(2) by (auto simp: as_new_def told_later_def row)
  have cut: "revocationCutoff now \<le> revocationCutoff (vw_clock w)"
    using assms(3) by (simp add: revocationCutoff_def unix_milli_mono)
  have kt: "keys_ok t" using k by (simp add: R(4))
  have cnt: "RevocationCount (vw_clock w) o1 t \<le> MaxRevocationsPerOwner" for o1
  proof (cases "o1 = owner")
    case True
    have "RevocationCount (vw_clock w) owner t \<le> RevocationCount now owner t"
      unfolding RevocationCount_def by (rule live_count_mono [OF kt cut])
    with True T(1) R(6) show ?thesis by simp
  next
    case False
    then have "RevocationCount (vw_clock w) o1 t = RevocationCount (vw_clock w) o1 (vw_rows w)"
      using T(3) kt k by (simp add: RevocationCount_def live_count_card)
    with inv show ?thesis by (simp add: rev_inv_def rows_ok_def)
  qed
  have "adding_ok ?w" using R(1,3) by (auto simp: adding_ok_def row)
  moreover have "revoked_ok ?w" using inv new by (auto simp: rev_inv_def revoked_ok_def)
  moreover have "\<forall>r \<in> set (vw_readers ?w). reader_ok ?w r"
    using inv new by (auto simp: rev_inv_def reader_ok_def)
  ultimately show ?thesis using kt cnt by (simp add: rev_inv_def rows_ok_def)
qed

lemma map_of_revoked_add:
  "map_of (rc_entries (revoked_add owner ids at rc)) k =
    map_option (\<lambda>v. if k \<in> revokedKey owner ` set ids then max at 1 else v) (map_of (rc_entries rc) k)"
proof -
  have "map_of (map (\<lambda>(k, v). (k, f k v)) es) k = map_option (f k) (map_of es k)" for es :: "(revoked_key, millis) table" and f
    by (induction es) auto
  then show ?thesis by (simp add: revoked_add_def)
qed

lemma inv_added:
  assumes inv: "rev_inv w" and a: "vw_adding w = Some (owner, ids, at)"
  shows "rev_inv (w\<lparr>vw_cache := revoked_add owner ids at (vw_cache w), vw_adding := None,
      vw_readers := moved_on (vw_readers w)\<rparr>)" (is "rev_inv ?w")
proof -
  have A: "\<And>c b. c \<in> set ids \<Longrightarrow> length c = CapIDLen \<and> (map_of (vw_rows w) (owner, c) = Some b \<longrightarrow> b \<le> at)"
    using inv a by (auto simp: rev_inv_def adding_ok_def)
  have C: "as_new ?w o1 c v"
    if c: "length c = CapIDLen" and v: "map_of (rc_entries (vw_cache ?w)) (revokedKey o1 c) = Some v" for o1 c v
  proof -
    obtain v0 where v0: "map_of (rc_entries (vw_cache w)) (revokedKey o1 c) = Some v0"
      and e: "v = (if revokedKey o1 c \<in> revokedKey owner ` set ids then max at 1 else v0)"
      using v by (auto simp: map_of_revoked_add)
    have "revokedKey o1 c \<in> revokedKey owner ` set ids \<longleftrightarrow> o1 = owner \<and> c \<in> set ids"
      using A c revokedKey_inj by fastforce
    moreover have "as_new w o1 c v0" using inv c v0 by (auto simp: rev_inv_def revoked_ok_def)
    ultimately show ?thesis using A [of c] e a by (fastforce simp: as_new_def told_later_def)
  qed
  have "keys_ok (rc_entries (vw_cache ?w)) \<and> length (rc_entries (vw_cache ?w)) \<le> revokedCacheSize"
    using inv by (auto simp: rev_inv_def revoked_ok_def revoked_add_def keys_ok_def comp_def case_prod_beta)
  with C have "revoked_ok ?w" by (simp add: revoked_ok_def)
  moreover have "\<forall>r \<in> set (vw_readers ?w). reader_ok ?w r"
    using inv by (auto simp: rev_inv_def moved_on_def reader_ok_def revoked_add_def)
  ultimately show ?thesis using inv by (simp add: rev_inv_def rows_ok_def adding_ok_def)
qed

lemma as_new_cong [simp]:
  "as_new (w\<lparr>vw_cache := rc\<rparr>) = as_new w" "as_new (w\<lparr>vw_readers := rs\<rparr>) = as_new w" "as_new (w\<lparr>vw_clock := now\<rparr>) = as_new w"
  by (auto simp: as_new_def told_later_def fun_eq_iff)

lemma revoked_set_ok:
  assumes "keys_ok (rc_entries rc)" "length (rc_entries rc) \<le> revokedCacheSize"
  shows "keys_ok (rc_entries (revoked_set k v rc))" "length (rc_entries (revoked_set k v rc)) \<le> revokedCacheSize"
    and "map_of (rc_entries (revoked_set k v rc)) j = Some x \<Longrightarrow> j = k \<and> x = v \<or> map_of (rc_entries rc) j = Some x"
    and "rc_gen (revoked_set k v rc) = rc_gen rc"
proof -
  have d: "length (AList.delete k es) < length es" if h: "has_key es k" for es :: "(revoked_key, millis) table"
  proof -
    obtain b where "map_of es k = Some b" using h by (auto simp: has_key_def)
    then have "(k, b) \<in> set es" by (rule map_of_SomeD)
    then show ?thesis using length_filter_less [of "(k, b)" es "\<lambda>(k', _). k \<noteq> k'"] by (simp add: AList.delete_eq)
  qed
  have nk: "\<not> has_key (rc_entries rc) k \<Longrightarrow> keys_ok ((k, v) # rc_entries rc)"
    using assms(1) by (auto simp: keys_ok_def has_key_def map_of_eq_None_iff)
  have tk: "keys_ok (take n es)" if "keys_ok es" for n and es :: "(revoked_key, millis) table"
    using that distinct_take [of "map fst es" n] by (simp add: keys_ok_def take_map)
  have tm: "map_of (take n es) i = Some y \<Longrightarrow> map_of es i = Some y" if "keys_ok es" for n i and es :: "(revoked_key, millis) table" and y
    using that tk [OF that] in_set_takeD by (metis map_of_SomeD map_of_is_SomeI keys_ok_def)
  have mf: "keys_ok (move_to_front k v es)" if "keys_ok es" for es
    using that by (auto simp: keys_ok_def move_to_front_def delete_keys distinct_removeAll)
  show "keys_ok (rc_entries (revoked_set k v rc))" using assms(1) nk tk mf by (simp add: revoked_set_def)
  show "length (rc_entries (revoked_set k v rc)) \<le> revokedCacheSize"
    using assms(2) d [of "rc_entries rc"] by (auto simp: revoked_set_def move_to_front_def)
  show "map_of (rc_entries (revoked_set k v rc)) j = Some x \<Longrightarrow> j = k \<and> x = v \<or> map_of (rc_entries rc) j = Some x"
  proof (cases "has_key (rc_entries rc) k")
    case False
    assume "map_of (rc_entries (revoked_set k v rc)) j = Some x"
    with False have "map_of (take revokedCacheSize ((k, v) # rc_entries rc)) j = Some x" by (simp add: revoked_set_def)
    from tm [OF nk [OF False] this] show ?thesis by (simp split: if_splits)
  qed (simp add: revoked_set_def move_to_front_def delete_conv' split: if_splits)
  show "rc_gen (revoked_set k v rc) = rc_gen rc" by (simp add: revoked_set_def)
qed

lemma inv_revoked_set:
  assumes inv: "rev_inv w" and new: "\<And>o1 d. length d = CapIDLen \<Longrightarrow> revokedKey o1 d = k \<Longrightarrow> as_new w o1 d v"
  shows "rev_inv (w\<lparr>vw_cache := revoked_set k v (vw_cache w)\<rparr>)"
proof -
  have "keys_ok (rc_entries (vw_cache w))" "length (rc_entries (vw_cache w)) \<le> revokedCacheSize"
    using inv by (auto simp: rev_inv_def revoked_ok_def)
  note S = revoked_set_ok [OF this, of k v]
  have "\<forall>o1 d x. length d = CapIDLen \<longrightarrow> map_of (rc_entries (revoked_set k v (vw_cache w))) (revokedKey o1 d) = Some x \<longrightarrow> as_new w o1 d x"
    using S(3) new inv by (fastforce simp: rev_inv_def revoked_ok_def)
  with S(1,2,4) inv show ?thesis
    by (auto simp: rev_inv_def rows_ok_def adding_ok_def revoked_ok_def reader_ok_def)
qed

lemma inv_readers:
  assumes "rev_inv w" "\<forall>r \<in> set rs. r \<in> set (vw_readers w) \<or> reader_ok w r"
  shows "rev_inv (w\<lparr>vw_readers := rs\<rparr>)"
  using assms by (auto simp: rev_inv_def rows_ok_def adding_ok_def revoked_ok_def reader_ok_def)

lemma revoked_get_Some:
  "revoked_get owner c now rc = (rc', Some b) \<longleftrightarrow>
    (\<exists>v. map_of (rc_entries rc) (revokedKey owner c) = Some v \<and> rc' = revoked_set (revokedKey owner c) v rc \<and>
         b = (v \<noteq> 0 \<and> v > revocationCutoff now))"
  by (auto simp: revoked_get_def revoked_set_def has_key_def split: option.splits)

lemma rev_step_inv: "rev_step w w' \<Longrightarrow> rev_inv w \<Longrightarrow> rev_inv w'"
proof (induction rule: rev_step.induct)
  case (rev_tick w now)
  have "keys_ok (vw_rows w)" "revocationCutoff (vw_clock w) \<le> revocationCutoff now"
    using rev_tick by (auto simp: rev_inv_def rows_ok_def revocationCutoff_def unix_milli_mono)
  then have "RevocationCount now o1 (vw_rows w) \<le> RevocationCount (vw_clock w) o1 (vw_rows w)" for o1
    unfolding RevocationCount_def by (rule live_count_mono)
  then have "rows_ok (w\<lparr>vw_clock := now\<rparr>)"
    using rev_tick(2) order_trans by (fastforce simp: rev_inv_def rows_ok_def)
  then show ?case using rev_tick(2) by (auto simp: rev_inv_def adding_ok_def revoked_ok_def reader_ok_def)
next
  case (rev_commit w now owner ids t fresh n tot)
  then show ?case by (intro inv_committed)
next
  case (rev_added w owner ids at)
  then show ?case by (intro inv_added)
next
  case (rev_deleted w owner)
  then show ?case unfolding delete_owner_def by (rule inv_rows_fewer)
next
  case (rev_purged now w)
  then show ?case using inv_rows_fewer by (simp add: PurgeExpiredRevocations_def Let_def)
next
  case (rev_forgot w)
  then show ?case
    by (auto simp: rev_inv_def rows_ok_def adding_ok_def revoked_ok_def revoked_forget_def moved_on_def reader_ok_def)
next
  case (rev_hit c owner now w rc v)
  then obtain x where x: "map_of (rc_entries (vw_cache w)) (revokedKey owner c) = Some x"
    and rc: "rc = revoked_set (revokedKey owner c) x (vw_cache w)" by (auto simp: revoked_get_Some)
  have "as_new w o1 d x" if "length d = CapIDLen" "revokedKey o1 d = revokedKey owner c" for o1 d
    using that x rev_hit(3) by (auto simp: rev_inv_def revoked_ok_def)
  then show ?case unfolding rc by (rule inv_revoked_set [OF rev_hit(3)])
next
  case (rev_miss c owner now w rc)
  then show ?case by (intro inv_readers) (auto simp: reader_ok_def)
next
  case (rev_generation r w)
  then have "length (rd_cap r) = CapIDLen" "rd_at r = None" by (auto simp: rev_inv_def reader_ok_def)
  then show ?case using rev_generation(3)
    by (intro inv_readers) (auto simp: reader_ok_def dest: subsetD [OF set_remove1_subset])
next
  case (rev_query r w now)
  then have "reader_ok w r" by (simp add: rev_inv_def)
  then have "reader_ok w (r\<lparr>rd_at := Some (fst (row_answer (vw_rows w) (rd_owner r) (rd_cap r) now))\<rparr>)"
    using rev_query(2) by (cases "rd_gen r") (auto simp: reader_ok_def as_new_def row_answer_def split: option.splits)
  then show ?case using rev_query(4) by (intro inv_readers) (auto dest: subsetD [OF set_remove1_subset])
next
  case (rev_put r w g at)
  then have r: "reader_ok w r" by (simp add: rev_inv_def)
  have i: "rev_inv (w\<lparr>vw_cache := revoked_put g (rd_owner r) (rd_cap r) at (vw_cache w)\<rparr>)"
  proof (cases "g = rc_gen (vw_cache w)")
    case True
    with r rev_put(2) have "(of_nat (rd_moved r) :: u64) = 0" by (simp add: reader_ok_def)
    then have "2 ^ 64 dvd rd_moved r" by (simp add: word_of_nat_eq_0_iff)
    with rev_put(4) have "rd_moved r = 0" using nat_dvd_not_less by blast
    with r rev_put(3) have n: "as_new w (rd_owner r) (rd_cap r) at" "length (rd_cap r) = CapIDLen" by (auto simp: reader_ok_def)
    have "as_new w o1 d at" if "length d = CapIDLen" "revokedKey o1 d = revokedKey (rd_owner r) (rd_cap r)" for o1 d
      using revokedKey_inj [OF that(1) n(2) that(2)] n(1) by simp
    then have "rev_inv (w\<lparr>vw_cache := revoked_set (revokedKey (rd_owner r) (rd_cap r)) at (vw_cache w)\<rparr>)"
      by (rule inv_revoked_set [OF rev_put(5)])
    with True show ?thesis by (simp add: revoked_put_def)
  qed (use rev_put(5) in \<open>simp add: revoked_put_def\<close>)
  show ?case using inv_readers [OF i, of "remove1 r (vw_readers w)"] by (auto dest: subsetD [OF set_remove1_subset])
next
  case (rev_gave_up r w)
  then show ?case by (intro inv_readers) (auto dest: subsetD [OF set_remove1_subset])
qed

lemma rev_reachable_inv: "rev_reachable w \<Longrightarrow> rev_inv w"
proof (induction rule: rev_reachable.induct)
  case (rev_init now)
  then show ?case
    by (simp add: rev_inv_def rev_start_def no_cache_def rows_ok_def adding_ok_def revoked_ok_def RevocationCount_def live_count_def)
next
  case (rev_next w w')
  then show ?case using rev_step_inv by blast
qed

end
