(* ===== verification/Access_Properties.thy ===== *)
theory Access_Properties
  imports Sessions_Machine Revocations_Machine
begin

text \<open>
  The properties of the two ways to send to a mailbox: a first-contact session, and a delivery
  credential the recipient has not revoked.
\<close>

section \<open>Sessions\<close>

text \<open>C29: A session answers only for a registration that stands. In every reachable state, with openings,
  deregistrations, key events and their callbacks interleaved in any way, a session that a send finds is the
  one of that id, not yet over, and either its AID is still registered with the very key history
  the opening was signed under, or a callback that ends it is still to run, or its opening has not
  looked at the registration again yet and has not been answered. And no AID has more than four sessions
  a send could find.\<close>

theorem session_answers_for_registration:
  assumes "session_reachable w" and "get_session sid now (sw_table w) = (t, Some s)"
  shows "hs_sid s = sid \<and> now < hs_exp s \<and>
    (map_of (sw_agents w) (hs_aid s) = Some (sw_under w (hs_ref s)) \<or> hs_aid s \<in> set (sw_drops w) \<or>
     (\<exists>o1 \<in> set (sw_openings w). og_sess o1 = Some s)) \<and>
    card {x. (\<exists>i u. get_session i now (sw_table w) = (u, Some x)) \<and> hs_aid x = hs_aid s} \<le> 4"
proof -
  have inv: "session_inv w" by (rule session_reachable_inv [OF assms(1)])
  then have ok: "table_ok (sw_table w)" by (simp add: session_inv_def)
  note G = get_session_ok(3) [OF ok assms(2) refl]
  have "{x. (\<exists>i u. get_session i now (sw_table w) = (u, Some x)) \<and> hs_aid x = hs_aid s} \<subseteq> set (held (sw_table w) (hs_aid s))"
  proof
    fix x assume "x \<in> {x. (\<exists>i u. get_session i now (sw_table w) = (u, Some x)) \<and> hs_aid x = hs_aid s}"
    then obtain i u where x: "get_session i now (sw_table w) = (u, Some x)" "hs_aid x = hs_aid s" by blast
    from get_session_ok(3) [OF ok x(1) refl] ok x(2) show "x \<in> set (held (sw_table w) (hs_aid s))"
      unfolding table_ok_def sids_linked_def by metis
  qed
  then have "card {x. (\<exists>i u. get_session i now (sw_table w) = (u, Some x)) \<and> hs_aid x = hs_aid s} \<le>
      card (set (held (sw_table w) (hs_aid s)))" by (rule card_mono [OF finite_set])
  also have "\<dots> \<le> length (held (sw_table w) (hs_aid s))" by (rule card_length)
  also have "\<dots> \<le> 4" using ok by (auto simp: table_ok_def few_held_def MaxSessionsPerAID_def)
  finally have few: "card {x. (\<exists>i u. get_session i now (sw_table w) = (u, Some x)) \<and> hs_aid x = hs_aid s} \<le> 4" .
  from inv G have "answered_for w s" by (auto simp: session_inv_def)
  with few G show ?thesis unfolding answered_for_def by blast
qed

definition demo_sid :: bytes where "demo_sid = replicate 16 3"

definition demo_sess :: hub_session where
  "demo_sess = \<lparr>hs_sid = demo_sid, hs_aid = ''alice'', hs_key = [8], hs_exp = hour_ns, hs_ref = 0\<rparr>"

definition demo_table :: session_table where
  "demo_table = fst (open_session ''alice'' demo_sid [8] 0 (fst (open_first ''alice'' 0 newSessionTable)))"

definition demo_sw :: session_world where
  "demo_sw = session_start\<lparr>sw_table := demo_table, sw_agents := [(''alice'', [1])], sw_under := (\<lambda>_. [])(0 := [1])\<rparr>"

lemma demo_sw_reachable: "session_reachable demo_sw"
proof -
  let ?t1 = "fst (open_first ''alice'' 0 newSessionTable)"
  let ?o = "\<lparr>og_aid = ''alice'', og_kel = [1], og_now = 0, og_sess = None\<rparr>"
  let ?w1 = "session_start\<lparr>sw_agents := [(''alice'', [1])]\<rparr>"
  let ?w2 = "?w1\<lparr>sw_table := ?t1, sw_openings := [?o]\<rparr>"
  let ?w3 = "?w2\<lparr>sw_table := demo_table, sw_openings := [?o\<lparr>og_sess := Some demo_sess\<rparr>], sw_under := (\<lambda>_. [])(0 := [1])\<rparr>"
  have f: "snd (open_first ''alice'' 0 newSessionTable) = None" by code_simp
  have s: "open_second ''alice'' demo_sid [8] 0 ?t1 = (demo_table, Inr demo_sess)" by code_simp
  have t: "open_third [(''alice'', [1])] [1] demo_sess demo_table = (demo_table, Opened demo_sess)" by code_simp
  have w1: "session_step session_start ?w1"
    using step_agent_registers [of session_start "''alice''" "[1]"] by (simp add: session_start_def)
  have w2: "session_step ?w1 ?w2"
    using step_authenticated [of ?w1 "''alice''" "[1]" 0 ?t1] f by (simp add: session_start_def prod_eq_iff)
  have w3: "session_step ?w2 ?w3"
    using step_recorded [of ?o ?w2 demo_sid "[8]" demo_table demo_sess] s
    by (simp add: session_start_def demo_sess_def)
  have w4: "session_step ?w3 demo_sw"
    using step_looked_again [of "?o\<lparr>og_sess := Some demo_sess\<rparr>" ?w3 demo_sess demo_table "Opened demo_sess"] t
    by (simp add: session_start_def demo_sw_def)
  show ?thesis by (intro session_next [OF session_next [OF session_next [OF session_next [OF session_init w1] w2] w3] w4])
qed

theorem session_answers_for_registration_witness:
  "\<exists>t s. get_session demo_sid minute_ns (sw_table demo_sw) = (t, Some s) \<and> hs_aid s = ''alice'' \<and>
     map_of (sw_agents demo_sw) ''alice'' = Some (sw_under demo_sw (hs_ref s))"
proof -
  have "snd (get_session demo_sid minute_ns (sw_table demo_sw)) = Some demo_sess" by code_simp
  then obtain t where g: "get_session demo_sid minute_ns (sw_table demo_sw) = (t, Some demo_sess)"
    by (cases "get_session demo_sid minute_ns (sw_table demo_sw)") simp
  have "sw_drops demo_sw = []" "sw_openings demo_sw = []" by (simp_all add: demo_sw_def session_start_def)
  with session_answers_for_registration [OF demo_sw_reachable g] g show ?thesis by (auto simp: demo_sess_def)
qed

section \<open>Revocations\<close>

text \<open>C30: A revoked credential stays refused. In every reachable state, whatever lookups, revocations, purges,
  deletions and invalidations of the cache interleave, a credential whose row in the table is live, and whose
  \<open>RevokeCaps\<close> has returned (the cache is not still to be told of it), is answered as revoked, from the cache or
  from the table, by any lookup at a clock for which the row has not expired.\<close>

theorem revoked_stays_refused:
  assumes "rev_reachable w" and "length c = CapIDLen" and "0 \<le> revocationCutoff now"
    and "live_at (vw_rows w) owner c (revocationCutoff now)" and "\<not> told_later w owner c"
  shows "snd (CapRevoked now owner c (vw_rows w) (vw_cache w))"
proof -
  have inv: "rev_inv w" by (rule rev_reachable_inv [OF assms(1)])
  obtain at where row: "map_of (vw_rows w) (owner, c) = Some at" "at > revocationCutoff now"
    using assms(4) by (auto simp: live_at_alt)
  show ?thesis
  proof (cases "map_of (rc_entries (vw_cache w)) (revokedKey owner c)")
    case None
    with row show ?thesis by (simp add: CapRevoked_def revoked_get_def row_answer_def)
  next
    case (Some v)
    with inv assms(2) have "as_new w owner c v" by (auto simp: rev_inv_def revoked_ok_def)
    with assms(5) row have "at \<le> v" by (auto simp: as_new_def)
    with Some row assms(3) show ?thesis by (simp add: CapRevoked_def revoked_get_def)
  qed
qed

definition demo_cap :: capid where "demo_cap = replicate 16 5"
definition demo_then :: time_ns where "demo_then = 1000 * day_ns"

definition demo_revoked :: "revoke_error + revocations \<times> capid list \<times> nat \<times> nat" where
  "demo_revoked = RevokeCaps demo_then ''alice'' [demo_cap, demo_cap] []"

definition demo_rows :: revocations where "demo_rows = [((''alice'', demo_cap), 86400000000)]"

lemma demo_revoked_is: "RevokeCaps demo_then ''alice'' [demo_cap, demo_cap] [] = Inr (demo_rows, [demo_cap], 1, 1)"
  by (simp add: RevokeCaps_def demo_cap_def CapIDLen_def live_count_def live_at_def revoke_all_def demo_rows_def
      MaxRevocationsPerOwner_def unix_milli_def demo_then_def time_defs)

definition demo_stale :: revoked_cache where
  "demo_stale = \<lparr>rc_gen = 0, rc_entries = [(revokedKey ''alice'' demo_cap, 0)]\<rparr>"

definition demo_rw :: rev_world where
  "demo_rw = \<lparr>vw_rows = demo_rows, vw_cache = revoked_add ''alice'' [demo_cap] 86400000000 demo_stale, vw_adding = None,
     vw_readers = [], vw_clock = demo_then\<rparr>"

text \<open>A lookup reads the row before the revocation and is cached between its commit and the update.\<close>

lemma demo_rw_reachable: "rev_reachable demo_rw"
proof -
  let ?r0 = "\<lparr>rd_owner = ''alice'', rd_cap = demo_cap, rd_gen = None, rd_moved = 0, rd_at = None\<rparr>"
  let ?r1 = "?r0\<lparr>rd_gen := Some 0\<rparr>"
  let ?r2 = "?r1\<lparr>rd_at := Some 0\<rparr>"
  let ?w0 = "rev_start demo_then"
  let ?w3 = "?w0\<lparr>vw_readers := [?r2]\<rparr>"
  let ?w4 = "?w3\<lparr>vw_rows := demo_rows, vw_adding := Some (''alice'', [demo_cap], 86400000000)\<rparr>"
  let ?w5 = "?w4\<lparr>vw_cache := demo_stale, vw_readers := []\<rparr>"
  have l: "length demo_cap = CapIDLen" by (simp add: demo_cap_def CapIDLen_def)
  have ms: "unix_milli demo_then = 86400000000" by code_simp
  have w1: "rev_step ?w0 (?w0\<lparr>vw_readers := [?r0]\<rparr>)"
    using rev_miss [OF l, of "''alice''" demo_then ?w0 no_cache] by (simp add: rev_start_def no_cache_def revoked_get_def)
  have w2: "rev_step (?w0\<lparr>vw_readers := [?r0]\<rparr>) (?w0\<lparr>vw_readers := [?r1]\<rparr>)"
    using rev_generation [of ?r0 "?w0\<lparr>vw_readers := [?r0]\<rparr>"] by (simp add: rev_start_def no_cache_def)
  have w3: "rev_step (?w0\<lparr>vw_readers := [?r1]\<rparr>) ?w3"
    using rev_query [of ?r1 "?w0\<lparr>vw_readers := [?r1]\<rparr>" demo_then] by (simp add: rev_start_def row_answer_def)
  have w4: "rev_step ?w3 ?w4"
    using rev_commit [of ?w3 demo_then "''alice''" "[demo_cap, demo_cap]" demo_rows "[demo_cap]" 1 1] demo_revoked_is ms
    by (simp add: rev_start_def)
  have put: "revoked_put 0 ''alice'' demo_cap 0 no_cache = demo_stale"
    by (simp add: revoked_put_def revoked_set_def no_cache_def has_key_def demo_stale_def revokedCacheSize_def)
  have w5: "rev_step ?w4 ?w5"
    using rev_put [of ?r2 ?w4 0 0] put by (simp add: rev_start_def)
  have w6: "rev_step ?w5 demo_rw"
    using rev_added [of ?w5 "''alice''" "[demo_cap]" 86400000000] by (simp add: rev_start_def demo_rw_def moved_on_def)
  show ?thesis
    by (intro rev_next [OF rev_next [OF rev_next [OF rev_next [OF rev_next [OF rev_next [OF rev_init w1] w2] w3] w4] w5] w6])
qed

theorem revoked_stays_refused_witness:
  "snd (CapRevoked demo_then ''alice'' demo_cap demo_rows (vw_cache demo_rw)) \<and>
   map_of (rc_entries (vw_cache demo_rw)) (revokedKey ''alice'' demo_cap) = Some 86400000000"
proof -
  have h: "length demo_cap = CapIDLen" "0 \<le> revocationCutoff demo_then"
    "live_at (vw_rows demo_rw) ''alice'' demo_cap (revocationCutoff demo_then)" by code_simp+
  have "\<not> told_later demo_rw ''alice'' demo_cap" by (simp add: told_later_def demo_rw_def)
  from revoked_stays_refused [OF demo_rw_reachable h this]
  have "snd (CapRevoked demo_then ''alice'' demo_cap demo_rows (vw_cache demo_rw))" by (simp add: demo_rw_def)
  moreover have "map_of (rc_entries (vw_cache demo_rw)) (revokedKey ''alice'' demo_cap) = Some 86400000000" by code_simp
  ultimately show ?thesis by blast
qed

text \<open>A batch of revocations is counted, bounded and all or nothing. When \<open>RevokeCaps\<close> accepts a batch in a
  reachable state, every id of it is live in the table, ids given twice count once, the total it answers is
  what \<open>RevocationCount\<close> says right after, no other owner's revocations moved, and no owner has more than
  100000; the count of the new ones is exactly how many ids of the batch were not live before.\<close>

theorem revocations_are_counted:
  assumes "rev_reachable w" and "RevokeCaps now owner ids (vw_rows w) = Inr (t, fresh, n, tot)"
  shows "(\<forall>c \<in> set ids. live_at t owner c (revocationCutoff now)) \<and> RevocationCount now owner t = tot \<and> tot \<le> 100000 \<and>
    n = card {c \<in> set ids. \<not> live_at (vw_rows w) owner c (revocationCutoff now)} \<and>
    (\<forall>k c lim. k \<noteq> owner \<longrightarrow> live_at t k c lim = live_at (vw_rows w) k c lim) \<and>
    (\<forall>k. RevocationCount (vw_clock w) k (vw_rows w) \<le> 100000)"
proof -
  have inv: "rev_inv w" by (rule rev_reachable_inv [OF assms(1)])
  then have k: "keys_ok (vw_rows w)" by (simp add: rev_inv_def rows_ok_def)
  note R = RevokeCaps_Inr [OF assms(2)] and T = RevokeCaps_total [OF k assms(2)]
  have "n = card {c \<in> set ids. \<not> live_at (vw_rows w) owner c (revocationCutoff now)}"
    using R(2,3,5) distinct_card by metis
  moreover have "RevocationCount (vw_clock w) k (vw_rows w) \<le> 100000" for k
    using inv by (simp add: rev_inv_def rows_ok_def MaxRevocationsPerOwner_def)
  ultimately show ?thesis using T R(6) by (auto simp: MaxRevocationsPerOwner_def)
qed

theorem revocations_are_counted_witness:
  "RevocationCount demo_then ''alice'' demo_rows = 1 \<and> live_at demo_rows ''alice'' demo_cap (revocationCutoff demo_then)"
proof -
  have "RevokeCaps demo_then ''alice'' [demo_cap, demo_cap] (vw_rows (rev_start demo_then)) = Inr (demo_rows, [demo_cap], 1, 1)"
    using demo_revoked_is by (simp add: rev_start_def)
  from revocations_are_counted [OF rev_init this] show ?thesis by simp
qed

end
