(* ===== verification/Registry.thy ===== *)
theory Registry
  imports Admission Mailbox Revocations "HOL-Library.Sublist"
begin

text \<open>
  The registry of agents (\<open>aghub.go\<close>) and what the operations on it share: the tables keyed by an AID,
  the key histories as this hub holds them (\<open>kelpush.go\<close>, \<open>notice.go\<close>), and the bounds on a declared
  capability set.

  What ANetCore computes of a key history, a key set, an A2A card or a directory entry is a field of
  the record \<open>registry_core\<close>, which extends \<open>core\<close>. A random draw is an argument of the function that
  uses it.
\<close>

section \<open>ANetCore\<close>

datatype extends_error = ErrKELFork | ErrKELRollback | ErrKELOther
datatype time_error = ErrEventFromFuture | ErrEventTooOld | ErrTimeOther

record notice_body =
  nb_aid :: aid
  nb_seq :: u64
  nb_head :: string
  nb_observed_at :: u64

record signed_key_set =
  sk_set :: bytes
  sk_key_state_seq :: u64
  sk_sig :: bytes

record mbox =
  mb_epoch :: u64
  mb_pub :: bytes

record enc_key_set =
  ek_seq :: u64
  ek_mbox :: mbox

datatype key_set_error = BadKeyState | KeySetRefused

datatype high_water = HWReplace | HWSame | HWIgnore | HWFork

record dir_entry =
  de_aid :: aid
  de_home :: aid
  de_kel :: bytes
  de_keys :: bytes
  de_card :: bytes
  de_notice :: bytes

record skill =
  skl_id :: string
  skl_name :: string
  skl_tags :: "string list"

record card_verified =
  cv_aid :: aid
  cv_seq :: u64
  cv_hash :: bytes
  cv_name :: string
  cv_skills :: "skill list"

datatype card_code = CodeBindingMismatch | CodeKELUnavailable | CodeKeyNotCurrent | CodeSeqRollback | CodeSeqFork | CodeOther

datatype json = JNull | JBool bool | JNumber string | JString string | JArray "json list" | JObject "(string \<times> json) list"

text \<open>
  A function that may fail returns an option, or its error. \<open>ExtendsKEL\<close> and \<open>CheckNewEvents\<close> answer
  \<open>None\<close> for Go's \<open>nil\<close>, and the held history of the latter is empty for \<open>nil\<close>. \<open>CardVerify\<close> is
  \<open>a2acard.Verify\<close> with a resolver that answers with one key history for one AID and refuses every
  other; \<open>Inr None\<close> is that refusal. \<open>DecodeEncKeySet\<close> is \<open>coredet.UnmarshalStrict\<close> of a set and
  \<open>DecodeEncKeySetLoose\<close> is \<open>coredet.Unmarshal\<close>. \<open>CardHighWater\<close> is \<open>a2acard.CheckHighWater\<close> on marks (seq and hash).
  \<open>JsonDecode\<close> is the syntax tree \<open>encoding/json\<close> reads; \<open>CardDescription\<close> and \<open>CardRelayHub\<close> are two
  members of a card read with it into a struct (the second also with \<open>net/url\<close>), \<open>ToLower\<close> folds
  Unicode.
\<close>

record registry_core = core +
  MarshalKEL :: "kel \<Rightarrow> bytes option"
  ParseKEL :: "bytes \<Rightarrow> kel option"
  ExtendsKEL :: "kel \<Rightarrow> kel \<Rightarrow> extends_error option"
  CheckNewEvents :: "kel \<Rightarrow> kel \<Rightarrow> u64 \<Rightarrow> (kel_event \<Rightarrow> bool) \<Rightarrow> time_error option"
  ToadAgent :: u64
  SignNotice :: "notice_body \<Rightarrow> bytes option"
  UnmarshalKeySet :: "bytes \<Rightarrow> signed_key_set option"
  MarshalKeySet :: "signed_key_set \<Rightarrow> bytes option"
  DecideHighWater :: "(u64 \<times> bytes) option \<Rightarrow> signed_key_set \<Rightarrow> high_water option"
  DecodeEncKeySet :: "bytes \<Rightarrow> enc_key_set option"
  DecodeEncKeySetLoose :: "bytes \<Rightarrow> enc_key_set option"
  VerifyEncKeySet :: "signed_key_set \<Rightarrow> aid \<Rightarrow> kel \<Rightarrow> u64 \<Rightarrow> key_set_error + enc_key_set"
  DecodeNotice :: "bytes \<Rightarrow> notice_body option"
  DirMarshal :: "dir_entry \<Rightarrow> bytes option"
  DirOpen :: "aid \<Rightarrow> bytes \<Rightarrow> bytes \<Rightarrow> dir_entry option"
  DirHash :: "aid \<Rightarrow> bytes option"
  DirSeal :: "aid \<Rightarrow> dir_entry \<Rightarrow> bytes \<Rightarrow> bytes option"
  DirHashLen :: nat
  DirCheckPrefix :: "bytes \<Rightarrow> nat \<Rightarrow> bool"
  DirOverhead :: nat
  DirMaxBoxLen :: nat
  CardVerify :: "bytes \<Rightarrow> aid \<Rightarrow> kel \<Rightarrow> u64 \<Rightarrow> card_code + card_verified option"
  CardHighWater :: "(u64 \<times> bytes) option \<Rightarrow> u64 \<times> bytes \<Rightarrow> card_code + high_water"
  JsonDecode :: "bytes \<Rightarrow> json option"
  CardDescription :: "bytes \<Rightarrow> string"
  CardRelayHub :: "bytes \<Rightarrow> string"
  ToLower :: "string \<Rightarrow> string"

text \<open>What ANetCore documents of key histories: a history extends another when that one is a prefix of
  it (the same history included), and decoding reads back what was encoded.\<close>

definition kel_law :: "registry_core \<Rightarrow> bool" where
  "kel_law c \<longleftrightarrow> (\<forall>k l. k \<noteq> [] \<longrightarrow> (ExtendsKEL c k l = None \<longleftrightarrow> prefix k l)) \<and>
     (\<forall>k b. MarshalKEL c k = Some b \<longrightarrow> UnmarshalKEL c b = Some k) \<and> (\<forall>b. UnmarshalKEL c b \<noteq> Some [])"

section \<open>State\<close>

record notice_row =
  nt_seq :: int
  nt_head :: string
  nt_observed_at :: millis
  nt_blob :: bytes

text \<open>\<open>agent_a2a_card\<close>; \<open>cd_hash\<close> and \<open>cd_verified\<close> are \<open>None\<close> for NULL.\<close>

record card_row =
  cd_card :: bytes
  cd_seq :: u64
  cd_hash :: "bytes option"
  cd_verified :: "time_ns option"
  cd_search :: string
  cd_fed_seq :: int

record withdrawal_row =
  wd_reason :: string
  wd_fed_seq :: int

text \<open>\<open>fed_a2a_card\<close>; an empty \<open>fc_keys\<close> or \<open>fc_notice\<close> is NULL.\<close>

record fed_card_row =
  fc_seq :: u64
  fc_hash :: bytes
  fc_card :: bytes
  fc_kel :: bytes
  fc_keys :: bytes
  fc_notice :: bytes
  fc_home :: string
  fc_peer :: aid
  fc_name :: string
  fc_caps :: "string list"
  fc_search :: string
  fc_verified :: "time_ns option"

record restore_state =
  rs_began_at :: millis
  rs_why :: string
  rs_serving_since :: "millis option"

record released_row =
  rl_at :: millis
  rl_how :: string

text \<open>
  The tables of \<open>hub.db\<close> that the operations on a registration read or write. \<open>accounts\<close> holds
  \<open>agent\<close>, the admission list and the ledger, \<open>relay\<close> the mailboxes and the key sets. \<open>rg_reviewed\<close> is
  the subjects of \<open>review\<close> and \<open>fed_review\<close>.
  \<open>rg_kel_changes\<close> is \<open>kel_hwm.n\<close>, 0 while the row is missing.
\<close>

record registry =
  rg_accounts :: accounts
  rg_caps :: "(aid \<times> string) list"
  rg_departed :: "(aid, bytes) table"
  rg_relay :: relay
  rg_revoked :: revocations
  rg_quota :: "(aid, quota) table"
  rg_notices :: "(aid, notice_row) table"
  rg_cards :: "(aid, card_row) table"
  rg_skills :: "(aid \<times> string \<times> string) list"
  rg_tags :: "(aid \<times> string) list"
  rg_withdrawals :: "(aid, withdrawal_row) table"
  rg_fed_head :: int
  rg_restore :: "restore_state option"
  rg_released :: "(aid, released_row) table"
  rg_kel_changes :: int
  rg_dereg_events :: "(aid, millis) table"
  rg_reviewed :: "aid list"
  rg_fed_cards :: "(aid, fed_card_row) table"
  rg_fed_skills :: "(aid \<times> string) list"
  rg_fed_tags :: "(aid \<times> string) list"

definition agents :: "registry \<Rightarrow> (aid, agent_row) table" where
  "agents st = ac_agents (rg_accounts st)"

definition set_agents :: "(aid, agent_row) table \<Rightarrow> registry \<Rightarrow> registry" where
  "set_agents t st = st\<lparr>rg_accounts := (rg_accounts st)\<lparr>ac_agents := t\<rparr>\<rparr>"

text \<open>\<open>UPDATE agent SET \<dots> WHERE aid=?\<close>: nothing for an AID without a row.\<close>

definition update_agent :: "aid \<Rightarrow> (agent_row \<Rightarrow> agent_row) \<Rightarrow> registry \<Rightarrow> registry" where
  "update_agent a f st = (case map_of (agents st) a of None \<Rightarrow> st | Some r \<Rightarrow> set_agents (AList.update a (f r) (agents st)) st)"

definition key_sets :: "registry \<Rightarrow> (aid, u64 \<times> bytes) table" where
  "key_sets st = agent_keys (rg_relay st)"

definition set_key_sets :: "(aid, u64 \<times> bytes) table \<Rightarrow> registry \<Rightarrow> registry" where
  "set_key_sets t st = st\<lparr>rg_relay := (rg_relay st)\<lparr>agent_keys := t\<rparr>\<rparr>"

datatype keys_why = KeysNotDecoded | KeysNotEncoded | KeysNotVerified | KeysSeqTooLarge
  | EpochTooLarge | EpochDown | KeySameEpoch | EpochSameKey

datatype registry_error =
  ErrTooManyCaps | ErrCapTooLong | ErrKELNotExtended "extends_error option" | errNoKEL | ErrKELDecode | ErrKELEncode
  | ErrKELReplay | ErrEventTime time_error | ErrNotRegistered | ErrTombstoneShrinks | ErrUnknownReason
  | errDeregisteredMeanwhile | AdmissionFailed admission_error | ErrRegistryBadAID | ErrNotListed | ErrSignNotice
  | ErrDirHashTaken | ErrStoredKeySet | KeysRollbackError u64 u64 u64 | KeysInvalidError keys_why
  | ErrVisibility | ErrCursor | ErrPrefix | ErrCount | RegistryPanic

section \<open>Key histories\<close>

text \<open>\<open>kelTip\<close>: the seq and event id of the last event of a stored key history.\<close>

definition kelTip :: "registry_core \<Rightarrow> bytes \<Rightarrow> (u64 \<times> string) option" where
  "kelTip c b = (case UnmarshalKEL c b of
      None \<Rightarrow> None
    | Some k \<Rightarrow> if k = [] then None else Some (EvSeq (last k), EvEventID (last k)))"

definition storedTip :: "registry_core \<Rightarrow> bytes \<Rightarrow> int \<times> string" where
  "storedTip c b = (case kelTip c b of
      None \<Rightarrow> (0, '''')
    | Some (sq, head) \<Rightarrow> if uint sq > max_int64 then (0, '''') else (uint sq, head))"

definition AgentKEL :: "registry \<Rightarrow> aid \<Rightarrow> bytes option" where
  "AgentKEL st a = map_option ag_kel (map_of (agents st) a)"

definition KnowsAgent :: "registry \<Rightarrow> aid \<Rightarrow> bool" where
  "KnowsAgent st a = has_key (agents st) a"

text \<open>\<open>registrationKEL\<close>: the key history held from a registration, and whether it is still registered.\<close>

definition registrationKEL :: "registry \<Rightarrow> aid \<Rightarrow> bytes option \<times> bool" where
  "registrationKEL st a = (case map_of (agents st) a of
      Some r \<Rightarrow> (Some (ag_kel r), True)
    | None \<Rightarrow> (map_of (rg_departed st) a, False))"

definition holdsKEL :: "registry \<Rightarrow> aid \<Rightarrow> bool" where
  "holdsKEL st a \<longleftrightarrow> has_key (agents st) a \<or> has_key (rg_departed st) a"

definition knownKEL :: "registry_core \<Rightarrow> registry \<Rightarrow> aid \<Rightarrow> registry_error + kel option" where
  "knownKEL c st a = (case fst (registrationKEL st a) of
      None \<Rightarrow> Inr None
    | Some b \<Rightarrow> (case UnmarshalKEL c b of None \<Rightarrow> Inl ErrKELDecode | Some k \<Rightarrow> Inr (Some k)))"

text \<open>\<open>anyKEL\<close>: registered here, learned from a peer's card stream, or left; an empty column is passed over.\<close>

definition anyKEL :: "registry \<Rightarrow> aid \<Rightarrow> bytes option" where
  "anyKEL st a = (case filter (\<lambda>b. b \<noteq> [])
       (List.map_filter id [AgentKEL st a, map_option fc_kel (map_of (rg_fed_cards st) a), map_of (rg_departed st) a]) of
     [] \<Rightarrow> None | b # _ \<Rightarrow> Some b)"

text \<open>The witness rules of key events: \<open>firstWitness\<close> and \<open>witnessBefore\<close>.\<close>

fun witness_loop :: "u64 \<Rightarrow> aid \<Rightarrow> kel \<Rightarrow> aid" where
  "witness_loop sq w [] = w"
| "witness_loop sq w (e # es) =
    (if EvSeq e \<ge> sq then w
     else witness_loop sq (if EvType e = Rotation \<and> EvWitnesses e \<noteq> [] then hd (EvWitnesses e) else w) es)"

definition witnessBefore :: "kel \<Rightarrow> u64 \<Rightarrow> aid" where
  "witnessBefore k sq = witness_loop sq '''' k"

definition firstWitness :: "kel \<Rightarrow> aid \<Rightarrow> kel_event \<Rightarrow> bool" where
  "firstWitness k hub e =
    (if hub = '''' then False
     else case EvType e of
       Rotation \<Rightarrow> EvWitnesses e \<noteq> [] \<and> hd (EvWitnesses e) = hub
     | Deactivation \<Rightarrow> witnessBefore k (EvSeq e) = hub
     | _ \<Rightarrow> False)"

definition checkNewEvents :: "registry_core \<Rightarrow> hub_conf \<Rightarrow> kel option \<Rightarrow> kel \<Rightarrow> time_ns \<Rightarrow> time_error option" where
  "checkNewEvents c h held k now =
    CheckNewEvents c (case held of None \<Rightarrow> [] | Some l \<Rightarrow> l) k (word_of_int (unix_milli now)) (firstWitness k (hubAID h))"

section \<open>Capabilities\<close>

definition maxCapIDLen :: nat where "maxCapIDLen = 256"
definition maxCapsPerAgent :: nat where "maxCapsPerAgent = 256"

definition validateCaps :: "string list \<Rightarrow> registry_error option" where
  "validateCaps caps =
    (if length caps > maxCapsPerAgent then Some ErrTooManyCaps
     else if list_ex (\<lambda>s. length s > maxCapIDLen) caps then Some ErrCapTooLong else None)"

text \<open>\<open>INSERT OR IGNORE INTO agent_cap\<close> for each declared id, trimmed, the empty ones passed over.\<close>

definition insert_cap :: "aid \<Rightarrow> string \<Rightarrow> (aid \<times> string) list \<Rightarrow> (aid \<times> string) list" where
  "insert_cap a s t = (if s = '''' then t else List.insert (a, s) t)"

definition replace_caps :: "aid \<Rightarrow> string list \<Rightarrow> registry \<Rightarrow> registry" where
  "replace_caps a caps st =
    st\<lparr>rg_caps := fold (\<lambda>s. insert_cap a (TrimSpace s)) caps (filter (\<lambda>r. fst r \<noteq> a) (rg_caps st))\<rparr>"

section \<open>A row\<close>

text \<open>\<open>INSERT INTO agent \<dots> ON CONFLICT(aid) DO UPDATE\<close>, with the defaults of the schema for a new row.\<close>

definition VisibilityHubLocal :: string where "VisibilityHubLocal = ''hub-local''"
definition VisibilityFederated :: string where "VisibilityFederated = ''federated''"
definition VisibilityPublic :: string where "VisibilityPublic = ''public''"

definition new_agent_row :: "string \<Rightarrow> string list \<Rightarrow> bytes \<Rightarrow> int \<times> string \<Rightarrow> time_ns \<Rightarrow> agent_row" where
  "new_agent_row name caps kel tip now =
    \<lparr>ag_kel = kel, ag_via = viaList, ag_probation = None, ag_trial = trialNone, ag_name = name, ag_caps = caps,
     ag_summary = '''', ag_readme = '''', ag_tip_seq = fst tip, ag_tip_head = snd tip,
     ag_registered_at = now - now mod second_ns, ag_visibility = VisibilityHubLocal, ag_last_seen = None, ag_dir = None\<rparr>"

definition upsert_agent :: "registry_core \<Rightarrow> time_ns \<Rightarrow> aid \<Rightarrow> string \<Rightarrow> string list \<Rightarrow> bytes \<Rightarrow> registry \<Rightarrow> registry" where
  "upsert_agent c now a name caps kel st =
    (let tip = storedTip c kel;
         row = (case map_of (agents st) a of
                  None \<Rightarrow> new_agent_row name caps kel tip now
                | Some r \<Rightarrow> r\<lparr>ag_name := name, ag_caps := caps, ag_kel := kel, ag_tip_seq := fst tip, ag_tip_head := snd tip\<rparr>)
     in set_agents (AList.update a row (agents st)) st)"

definition PutProfile :: "aid \<Rightarrow> string \<Rightarrow> string \<Rightarrow> registry \<Rightarrow> registry_error + registry" where
  "PutProfile a summary readme st =
    (if \<not> has_key (agents st) a then Inl ErrNotRegistered
     else Inr (update_agent a (\<lambda>r. r\<lparr>ag_summary := summary, ag_readme := readme\<rparr>) st))"

section \<open>Liveness\<close>

definition QuietAfter :: int where "QuietAfter = hour_ns"
definition AbandonedAfter :: int where "AbandonedAfter = 30 * 24 * hour_ns"

definition SeenPolling :: "time_ns \<Rightarrow> aid \<Rightarrow> registry \<Rightarrow> registry" where
  "SeenPolling now a = update_agent a (\<lambda>r. r\<lparr>ag_last_seen := Some now\<rparr>)"

text \<open>What a listing says of the last poll: its hour, and whether the agent is quiet.\<close>

definition livenessFrom :: "time_ns option \<Rightarrow> time_ns \<Rightarrow> time_ns option \<times> bool" where
  "livenessFrom seen now = (case seen of
      None \<Rightarrow> (None, False)
    | Some t \<Rightarrow> (Some (t - t mod hour_ns), now - t > QuietAfter))"

definition LivenessOf :: "time_ns \<Rightarrow> registry \<Rightarrow> aid \<Rightarrow> registry_error + (time_ns option \<times> bool)" where
  "LivenessOf now st a = (case map_of (agents st) a of
      None \<Rightarrow> Inl ErrNotRegistered
    | Some r \<Rightarrow> Inr (livenessFrom (ag_last_seen r) now))"

definition toTheDay :: "time_ns \<Rightarrow> time_ns" where
  "toTheDay t = t - t mod day_ns"

section \<open>Laws of the tables\<close>

lemma agents_set_agents [simp]: "agents (set_agents t st) = t"
  by (simp add: agents_def set_agents_def)

lemma set_agents_sel [simp]:
  "rg_caps (set_agents t st) = rg_caps st" "rg_departed (set_agents t st) = rg_departed st"
  "rg_relay (set_agents t st) = rg_relay st" "rg_revoked (set_agents t st) = rg_revoked st"
  "rg_quota (set_agents t st) = rg_quota st" "rg_notices (set_agents t st) = rg_notices st"
  "rg_cards (set_agents t st) = rg_cards st" "rg_skills (set_agents t st) = rg_skills st"
  "rg_tags (set_agents t st) = rg_tags st" "rg_withdrawals (set_agents t st) = rg_withdrawals st"
  "rg_fed_head (set_agents t st) = rg_fed_head st" "rg_restore (set_agents t st) = rg_restore st"
  "rg_released (set_agents t st) = rg_released st" "rg_kel_changes (set_agents t st) = rg_kel_changes st"
  "rg_dereg_events (set_agents t st) = rg_dereg_events st" "rg_reviewed (set_agents t st) = rg_reviewed st"
  "rg_fed_cards (set_agents t st) = rg_fed_cards st" "rg_fed_skills (set_agents t st) = rg_fed_skills st"
  "rg_fed_tags (set_agents t st) = rg_fed_tags st" "key_sets (set_agents t st) = key_sets st"
  "ac_admitted (rg_accounts (set_agents t st)) = ac_admitted (rg_accounts st)"
  "ac_ledger (rg_accounts (set_agents t st)) = ac_ledger (rg_accounts st)"
  "ac_windows (rg_accounts (set_agents t st)) = ac_windows (rg_accounts st)"
  by (simp_all add: set_agents_def key_sets_def)

lemma map_of_update_agent [table_simps]:
  "map_of (agents (update_agent a f st)) b = (if b = a then map_option f (map_of (agents st) a) else map_of (agents st) b)"
  by (simp add: update_agent_def map_of_update_eq split: option.split)

lemma has_key_update_agent [simp]: "has_key (agents (update_agent a f st)) b = has_key (agents st) b"
  by (simp add: has_key_def map_of_update_agent)

lemma keys_update_agent [simp]: "map fst (agents (update_agent a f st)) = map fst (agents st)"
proof (cases "map_of (agents st) a")
  case None
  then show ?thesis by (simp add: update_agent_def)
next
  case (Some r)
  then have "a \<in> set (map fst (agents st))" by (auto dest: map_of_SomeD intro: rev_image_eqI)
  with Some show ?thesis by (simp add: update_agent_def update_keys)
qed

lemma update_agent_sel [simp]:
  "rg_caps (update_agent a f st) = rg_caps st" "rg_departed (update_agent a f st) = rg_departed st"
  "rg_relay (update_agent a f st) = rg_relay st" "rg_revoked (update_agent a f st) = rg_revoked st"
  "rg_quota (update_agent a f st) = rg_quota st" "rg_notices (update_agent a f st) = rg_notices st"
  "rg_cards (update_agent a f st) = rg_cards st" "rg_skills (update_agent a f st) = rg_skills st"
  "rg_tags (update_agent a f st) = rg_tags st" "rg_withdrawals (update_agent a f st) = rg_withdrawals st"
  "rg_fed_head (update_agent a f st) = rg_fed_head st" "rg_restore (update_agent a f st) = rg_restore st"
  "rg_released (update_agent a f st) = rg_released st" "rg_kel_changes (update_agent a f st) = rg_kel_changes st"
  "rg_dereg_events (update_agent a f st) = rg_dereg_events st" "rg_reviewed (update_agent a f st) = rg_reviewed st"
  "rg_fed_cards (update_agent a f st) = rg_fed_cards st" "rg_fed_skills (update_agent a f st) = rg_fed_skills st"
  "rg_fed_tags (update_agent a f st) = rg_fed_tags st" "key_sets (update_agent a f st) = key_sets st"
  "ac_admitted (rg_accounts (update_agent a f st)) = ac_admitted (rg_accounts st)"
  "ac_ledger (rg_accounts (update_agent a f st)) = ac_ledger (rg_accounts st)"
  "ac_windows (rg_accounts (update_agent a f st)) = ac_windows (rg_accounts st)"
  by (simp_all add: update_agent_def split: option.split)

end
