(* ===== verification/Directory.thy ===== *)
theory Directory
  imports Registry Wire_B64
begin

text \<open>
  \<open>internal/aghub/directory.go\<close>: the entry of an agent, sealed under its AID and filed under its
  directory hash; \<open>dir_max_bits\<close>, the widest bucket prefix this hub answers; and the pages of a bucket.
  Hashes and boxes are ANetCore's \<open>dirbox\<close> (\<open>registry_core\<close>). A step of the counting loop of
  \<open>dirMaxBits\<close> is the list of its counters.
\<close>

section \<open>The entry of an agent\<close>

definition DirMinBucket :: nat where "DirMinBucket = 32"
definition DirWholeTableBelow :: nat where "DirWholeTableBelow = 64"
definition DirMaxBitsEvery :: int where "DirMaxBitsEvery = hour_ns"
definition DirPageBytes :: nat where "DirPageBytes = 8388608"

text \<open>The cached notice, while it states the tip the row holds.\<close>

definition cachedNoticeOf :: "registry \<Rightarrow> aid \<Rightarrow> bytes" where
  "cachedNoticeOf st a =
    (case (map_of (agents st) a, map_of (rg_notices st) a) of
      (Some r, Some n) \<Rightarrow> if nt_seq n = ag_tip_seq r \<and> nt_head n = ag_tip_head r then nt_blob n else []
    | _ \<Rightarrow> [])"

definition sealDirEntry ::
  "registry_core \<Rightarrow> bytes \<Rightarrow> aid \<Rightarrow> (bytes \<times> bytes) option \<Rightarrow> dir_entry \<Rightarrow> (bytes \<times> bytes) option" where
  "sealDirEntry c draw a old e =
    (if de_keys e = [] \<or> de_home e = '''' then None
     else case DirMarshal c e of
       None \<Rightarrow> None
     | Some pt \<Rightarrow>
       if length pt + DirOverhead c > DirMaxBoxLen c then None
       else if (case old of None \<Rightarrow> False
                | Some (oldH, oldBox) \<Rightarrow> (case DirOpen c a oldH oldBox of None \<Rightarrow> False | Some was \<Rightarrow> DirMarshal c was = Some pt))
       then old
       else (case DirHash c a of
         None \<Rightarrow> None
       | Some h \<Rightarrow> (case DirSeal c a e draw of None \<Rightarrow> None | Some box \<Rightarrow> Some (h, box))))"

definition dir_entry_of :: "hub_conf \<Rightarrow> registry \<Rightarrow> aid \<Rightarrow> agent_row \<Rightarrow> dir_entry" where
  "dir_entry_of h st a r =
    \<lparr>de_aid = a, de_home = hubAID h, de_kel = ag_kel r,
     de_keys = (case map_of (key_sets st) a of None \<Rightarrow> [] | Some (_, raw) \<Rightarrow> raw),
     de_card = (case map_of (rg_cards st) a of None \<Rightarrow> [] | Some cd \<Rightarrow> if cd_verified cd = None then [] else cd_card cd),
     de_notice = cachedNoticeOf st a\<rparr>"

text \<open>The column \<open>dir_hash\<close> is \<open>UNIQUE\<close>: a hash another row holds fails the statement.\<close>

definition refreshDirTx :: "registry_core \<Rightarrow> hub_conf \<Rightarrow> bytes \<Rightarrow> aid \<Rightarrow> registry \<Rightarrow> registry_error + registry" where
  "refreshDirTx c h draw a st =
    (case map_of (agents st) a of
      None \<Rightarrow> Inr st
    | Some r \<Rightarrow>
      (let new = sealDirEntry c draw a (ag_dir r) (dir_entry_of h st a r) in
       if new = ag_dir r then Inr st
       else if (case new of None \<Rightarrow> False
                | Some (hash, _) \<Rightarrow> list_ex (\<lambda>(b, q). b \<noteq> a \<and> map_option fst (ag_dir q) = Some hash) (agents st))
       then Inl ErrDirHashTaken
       else Inr (update_agent a (\<lambda>r. r\<lparr>ag_dir := new\<rparr>) st)))"

definition RefreshDirEntry :: "registry_core \<Rightarrow> hub_conf \<Rightarrow> bytes \<Rightarrow> aid \<Rightarrow> registry \<Rightarrow> registry_error + registry" where
  "RefreshDirEntry = refreshDirTx"

section \<open>The width of a bucket\<close>

fun prefix_loop :: "nat \<Rightarrow> u64 \<Rightarrow> bytes \<Rightarrow> u64" where
  "prefix_loop 0 v bs = v"
| "prefix_loop (Suc n) v [] = v"
| "prefix_loop (Suc n) v (b # bs) = prefix_loop n (or (push_bit 8 v) (ucast b)) bs"

definition prefix64 :: "bytes \<Rightarrow> u64" where
  "prefix64 hash = prefix_loop 8 0 hash"

text \<open>\<open>counts[p>>(64-b)]++\<close> over the prefixes.\<close>

definition count_buckets :: "nat \<Rightarrow> u64 list \<Rightarrow> nat list" where
  "count_buckets b ps =
    fold (\<lambda>p cs. let i = unat (drop_bit (64 - b) p) in cs[i := cs ! i + 1]) ps (replicate (2 ^ b) 0)"

function max_bits_loop :: "u64 list \<Rightarrow> nat \<Rightarrow> nat \<Rightarrow> nat" where
  "max_bits_loop ps best b =
    (if b < 64 \<and> length ps div 2 ^ b \<ge> DirMinBucket
     then (if list_ex (\<lambda>n. n < DirMinBucket) (count_buckets b ps) then best else max_bits_loop ps b (b + 1))
     else best)"
  by pat_completeness auto

termination by (relation "measure (\<lambda>(ps, best, b). 64 - b)") auto

declare max_bits_loop.simps [simp del]

definition dirMaxBits :: "u64 list \<Rightarrow> nat" where
  "dirMaxBits ps = (if length ps < DirWholeTableBelow then 0 else max_bits_loop ps 0 1)"

definition dirPrefixes :: "registry_core \<Rightarrow> registry \<Rightarrow> u64 list" where
  "dirPrefixes c st =
    map prefix64 (filter (\<lambda>hash. length hash = DirHashLen c)
      (List.map_filter (\<lambda>(a, r). map_option fst (ag_dir r)) (agents st))) @
    map prefix64 (List.map_filter (\<lambda>(a, f). if fc_verified f \<noteq> None \<and> fc_keys f \<noteq> [] \<and> \<not> has_key (agents st) a
      then DirHash c a else None) (rg_fed_cards st))"

text \<open>\<open>dirBitsCache\<close>: \<open>None\<close> until it is \<open>valid\<close>.\<close>

definition DirMaxBits :: "registry_core \<Rightarrow> time_ns \<Rightarrow> registry \<Rightarrow> (nat \<times> time_ns) option \<Rightarrow> nat \<times> (nat \<times> time_ns) option" where
  "DirMaxBits c now st cache =
    (case cache of
      Some (bits, at) \<Rightarrow>
        if now - at < DirMaxBitsEvery \<and> \<not> now < at then (bits, cache)
        else (let n = dirMaxBits (dirPrefixes c st) in (n, Some (n, now)))
    | None \<Rightarrow> (let n = dirMaxBits (dirPrefixes c st) in (n, Some (n, now))))"

section \<open>The pages of a bucket\<close>

record bucket_entry =
  be_h :: string
  be_box :: string

definition dirBucketEntryOverhead :: nat where "dirBucketEntryOverhead = 18"
definition dirBucketAnswerOverhead :: nat where "dirBucketAnswerOverhead = 1024"

definition set_last :: "(8 word \<Rightarrow> 8 word) \<Rightarrow> bytes \<Rightarrow> nat \<Rightarrow> bytes" where
  "set_last f bs n = (if n = 0 then bs else bs[n - 1 := f (bs ! (n - 1))])"

definition bucketRange :: "nat \<Rightarrow> bytes \<Rightarrow> nat \<Rightarrow> bytes \<times> bytes" where
  "bucketRange hash_len pre bits =
    (let lo = take hash_len (pre @ replicate (hash_len - length pre) 0);
         hi = take hash_len (pre @ replicate (hash_len - length pre) 0xff);
         r = bits mod 8
     in (lo, if r \<noteq> 0 then set_last (\<lambda>x. or x (drop_bit r 0xff)) hi (length pre) else hi))"

text \<open>The rows of the query, in the order of their hashes.\<close>

definition bucket_rows :: "bytes option \<Rightarrow> bytes \<Rightarrow> bytes \<Rightarrow> registry \<Rightarrow> (bytes \<times> bytes) list" where
  "bucket_rows after lo hi st =
    sort_key fst (filter (\<lambda>(hash, _). (case after of None \<Rightarrow> lo \<le> hash | Some x \<Rightarrow> x < hash) \<and> hash \<le> hi)
      (List.map_filter (\<lambda>(a, r). ag_dir r) (agents st)))"

fun bucket_page :: "nat \<Rightarrow> bucket_entry list \<Rightarrow> (bytes \<times> bytes) list \<Rightarrow> registry_error + bucket_entry list \<times> bytes option" where
  "bucket_page sz es [] = Inr (es, None)"
| "bucket_page sz es ((hash, box) # rows) =
    (let e = \<lparr>be_h = EncodeB64URL hash, be_box = EncodeB64URL box\<rparr>;
         n = length (be_h e) + length (be_box e) + dirBucketEntryOverhead in
     if sz + n > DirPageBytes \<and> es \<noteq> []
     then (case DecodeB64URL ''h'' (be_h (last es)) of Inl _ \<Rightarrow> Inl ErrPrefix | Inr x \<Rightarrow> Inr (es, Some x))
     else bucket_page (sz + n) (es @ [e]) rows)"

definition DirBucket ::
  "registry_core \<Rightarrow> registry \<Rightarrow> bytes \<Rightarrow> nat \<Rightarrow> bytes option \<Rightarrow> registry_error + bucket_entry list \<times> bytes option" where
  "DirBucket c st pre bits after =
    (if \<not> DirCheckPrefix c pre bits then Inl ErrPrefix
     else (case bucketRange (DirHashLen c) pre bits of (lo, hi) \<Rightarrow>
       if (case after of None \<Rightarrow> False | Some x \<Rightarrow> x < lo \<or> x > hi) then Inl ErrCursor
       else bucket_page dirBucketAnswerOverhead [] (bucket_rows after lo hi st)))"

end
