(* ===== verification/Notices.thy ===== *)
theory Notices
  imports Directory Wire_Numbers
begin

text \<open>
  \<open>internal/aghub/notice.go\<close> and \<open>restore.go\<close>: the witness notices this hub signs about the key histories
  it holds, and the quarantine of a restored database, in which it signs none until an agent's node
  sends a longer history or signs with its current key after the wait.

  The hub process keeps in memory whether a quarantine stands and since when it serves, and the count
  of key-history changes it last wrote to the file \<open>kel_hwm\<close>; the file's contents are an optional
  string. Signing is ANetCore's \<open>SignNotice\<close>. The file system is taken to write what it is told.
\<close>

section \<open>The quarantine in the database\<close>

definition RestoreQuarantine :: int where "RestoreQuarantine = 30 * minute_ns"
definition NoticeReissue :: int where "NoticeReissue = 10 * minute_ns"

definition quarantineRestore :: string where "quarantineRestore = ''restore''"
definition quarantineRollback :: string where "quarantineRollback = ''rollback''"
definition releasedLongerKEL :: string where "releasedLongerKEL = ''longer_kel''"
definition releasedCurrentKey :: string where "releasedCurrentKey = ''current_key''"

definition inQuarantine :: "registry \<Rightarrow> aid \<Rightarrow> bool" where
  "inQuarantine st a \<longleftrightarrow> rg_restore st \<noteq> None \<and> \<not> has_key (rg_released st) a"

definition held_count :: "registry \<Rightarrow> nat" where
  "held_count st = length (filter (\<lambda>(a, _). inQuarantine st a) (agents st))"

definition countKELChangeTx :: "registry \<Rightarrow> registry" where
  "countKELChangeTx st = st\<lparr>rg_kel_changes := rg_kel_changes st + 1\<rparr>"

definition kelChanges :: "registry \<Rightarrow> registry_error + nat" where
  "kelChanges st = (if rg_kel_changes st < 0 then Inl ErrCount else Inr (nat (rg_kel_changes st)))"

definition forgetNoticeTx :: "aid \<Rightarrow> registry \<Rightarrow> registry" where
  "forgetNoticeTx a st = st\<lparr>rg_notices := AList.delete a (rg_notices st)\<rparr>"

definition releaseTx :: "aid \<Rightarrow> string \<Rightarrow> time_ns \<Rightarrow> registry \<Rightarrow> registry" where
  "releaseTx a how now st =
    (if rg_restore st = None \<or> has_key (rg_released st) a then st
     else forgetNoticeTx a (st\<lparr>rg_released := AList.update a \<lparr>rl_at = unix_milli now, rl_how = how\<rparr> (rg_released st)\<rparr>))"

definition startQuarantineTx :: "string \<Rightarrow> time_ns \<Rightarrow> registry \<Rightarrow> registry" where
  "startQuarantineTx why now st =
    set_agents (map (\<lambda>(a, r). (a, r\<lparr>ag_dir := None\<rparr>)) (agents st))
      (st\<lparr>rg_released := [], rg_notices := [],
          rg_restore := Some \<lparr>rs_began_at = unix_milli now, rs_why = why, rs_serving_since = None\<rparr>\<rparr>)"

section \<open>Notices\<close>

datatype no_notice = NoticeErrQuarantine | NoticeErrNotAdmitted | NoticeErrNotWitness

text \<open>\<open>noticeJudgement\<close>: why no notice is signed, or the tip to state and the cached notice still to be
  served.\<close>

datatype notice_judgement = NoNotice no_notice | Judged key_state "bytes option"

definition judgeNotice :: "registry_core \<Rightarrow> hub_conf \<Rightarrow> time_ns \<Rightarrow> aid \<Rightarrow> registry \<Rightarrow> registry_error + notice_judgement" where
  "judgeNotice c h now a st =
    (if \<not> hasHubKey h \<or> a = hubAID h then Inr (NoNotice NoticeErrNotWitness)
     else case map_of (agents st) a of
       None \<Rightarrow> Inr (NoNotice NoticeErrNotAdmitted)
     | Some r \<Rightarrow>
       (case ParseKEL c (ag_kel r) of
         None \<Rightarrow> Inr (NoNotice NoticeErrNotWitness)
       | Some k \<Rightarrow>
         (case Replay c k of
           None \<Rightarrow> Inl ErrKELReplay
         | Some states \<Rightarrow>
           if states = [] then Inl RegistryPanic
           else
             (let tip = last states in
              if StAID tip \<noteq> a \<or> StToad tip \<noteq> ToadAgent c \<or> StWitness tip \<noteq> hubAID h \<or> StStatus tip = StatusDeactivated
              then Inr (NoNotice NoticeErrNotWitness)
              else if inQuarantine st a then Inr (NoNotice NoticeErrQuarantine)
              else
                (case map_of (rg_notices st) a of
                  None \<Rightarrow> Inr (Judged tip None)
                | Some n \<Rightarrow>
                  (let age = unix_milli now - nt_observed_at n in
                   if nt_seq n = sint (StKeyStateSeq tip) \<and> nt_head n = StLastEventID tip
                     \<and> 0 \<le> age \<and> age \<le> unix_milli NoticeReissue
                   then Inr (Judged tip (Some (nt_blob n))) else Inr (Judged tip None)))))))"

text \<open>What a request is answered: a notice, or why there is none.\<close>

type_synonym notice_answer = "no_notice + bytes"

text \<open>\<open>issueNoticeTx\<close>: the state, the answer, and whether the notice is new.\<close>

definition issueNoticeTx ::
  "registry_core \<Rightarrow> hub_conf \<Rightarrow> time_ns \<Rightarrow> aid \<Rightarrow> registry \<Rightarrow> registry_error + registry \<times> notice_answer \<times> bool" where
  "issueNoticeTx c h now a st =
    rbind (judgeNotice c h now a st) (\<lambda>j.
      case j of
        NoNotice why \<Rightarrow> Inr (st, Inl why, False)
      | Judged tip (Some fresh) \<Rightarrow> Inr (st, Inr fresh, False)
      | Judged tip None \<Rightarrow>
        (case SignNotice c \<lparr>nb_aid = a, nb_seq = StKeyStateSeq tip, nb_head = StLastEventID tip,
                            nb_observed_at = word_of_int (unix_milli now)\<rparr> of
          None \<Rightarrow> Inl ErrSignNotice
        | Some b \<Rightarrow> Inr (st\<lparr>rg_notices := AList.update a \<lparr>nt_seq = sint (StKeyStateSeq tip), nt_head = StLastEventID tip,
                            nt_observed_at = unix_milli now, nt_blob = b\<rparr> (rg_notices st)\<rparr>, Inr b, True)))"

text \<open>The transaction of \<open>NoticeFor\<close>: a new notice changes the directory entry that carries it.\<close>

definition notice_tx ::
  "registry_core \<Rightarrow> hub_conf \<Rightarrow> bytes \<Rightarrow> time_ns \<Rightarrow> aid \<Rightarrow> registry \<Rightarrow> registry_error + registry \<times> notice_answer" where
  "notice_tx c h draw now a st =
    rbind (issueNoticeTx c h now a st) (\<lambda>(st', ans, issued).
      if \<not> issued then Inr (st, ans)
      else rbind (refreshDirTx c h draw a st') (\<lambda>st'. Inr (st', ans)))"

text \<open>\<open>seen\<close> is the state the first look was taken in, before the store's lock.\<close>

definition NoticeFor ::
  "registry_core \<Rightarrow> hub_conf \<Rightarrow> bytes \<Rightarrow> time_ns \<Rightarrow> aid \<Rightarrow> registry \<Rightarrow> registry \<Rightarrow> registry_error + registry \<times> notice_answer" where
  "NoticeFor c h draw now a seen st =
    rbind (judgeNotice c h now a seen) (\<lambda>j.
      case j of
        NoNotice why \<Rightarrow> Inr (st, Inl why)
      | Judged tip (Some fresh) \<Rightarrow> Inr (st, Inr fresh)
      | Judged tip None \<Rightarrow> notice_tx c h draw now a st)"

text \<open>\<open>RefreshNotices\<close>: the notices that are due, in the order of the AIDs; each is renewed on its own, at
  the time its own clock reading gives. The result counts those signed and those that failed.\<close>

definition notice_due :: "time_ns \<Rightarrow> registry \<Rightarrow> aid \<Rightarrow> bool" where
  "notice_due now st a \<longleftrightarrow> has_key (agents st) a \<and> has_key (key_sets st) a \<and>
     (case map_of (rg_notices st) a of
       None \<Rightarrow> True
     | Some n \<Rightarrow> nt_observed_at n < unix_milli (now - NoticeReissue) \<or> nt_observed_at n > unix_milli now)"

definition due_notices :: "time_ns \<Rightarrow> registry \<Rightarrow> aid list" where
  "due_notices now st = sort (filter (notice_due now st) (map fst (agents st)))"

fun refresh_loop ::
  "registry_core \<Rightarrow> hub_conf \<Rightarrow> (aid \<Rightarrow> bytes) \<Rightarrow> (aid \<Rightarrow> time_ns) \<Rightarrow> aid list \<Rightarrow> registry \<times> nat \<times> nat \<Rightarrow> registry \<times> nat \<times> nat" where
  "refresh_loop c h draw clk [] s = s"
| "refresh_loop c h draw clk (a # as) (st, sent, failed) =
    (case NoticeFor c h (draw a) (clk a) a st st of
      Inl _ \<Rightarrow> refresh_loop c h draw clk as (st, sent, Suc failed)
    | Inr (st', ans) \<Rightarrow>
      refresh_loop c h draw clk as (st',
        (if (case ans of Inl _ \<Rightarrow> False | Inr b \<Rightarrow> map_option nt_blob (map_of (rg_notices st) a) \<noteq> Some b) then Suc sent else sent),
        failed))"

definition RefreshNotices ::
  "registry_core \<Rightarrow> hub_conf \<Rightarrow> (aid \<Rightarrow> bytes) \<Rightarrow> (aid \<Rightarrow> time_ns) \<Rightarrow> time_ns \<Rightarrow> registry \<Rightarrow> registry \<times> nat \<times> nat" where
  "RefreshNotices c h draw clk now st = refresh_loop c h draw clk (due_notices now st) (st, 0, 0)"

section \<open>The quarantine in the hub process\<close>

record hub_memory =
  hm_active :: bool
  hm_serving :: millis
  hm_written :: nat

definition waitOver :: "time_ns \<Rightarrow> hub_memory \<Rightarrow> bool" where
  "waitOver now m \<longleftrightarrow> hm_active m \<and> hm_serving m \<noteq> 0 \<and> unix_milli now - hm_serving m \<ge> unix_milli RestoreQuarantine"

definition set_quarantine :: "bool \<Rightarrow> millis \<Rightarrow> hub_memory \<Rightarrow> hub_memory" where
  "set_quarantine active serving m = m\<lparr>hm_active := active, hm_serving := serving\<rparr>"

definition loadQuarantine :: "registry \<Rightarrow> hub_memory \<Rightarrow> hub_memory" where
  "loadQuarantine st m = (case rg_restore st of
      None \<Rightarrow> set_quarantine False 0 m
    | Some r \<Rightarrow> set_quarantine True (case rs_serving_since r of None \<Rightarrow> 0 | Some t \<Rightarrow> t) m)"

text \<open>\<open>seen\<close> is the state the first look was taken in, before the store's lock.\<close>

definition releaseOnCurrentKey ::
  "registry_core \<Rightarrow> hub_conf \<Rightarrow> bytes \<Rightarrow> time_ns \<Rightarrow> aid \<Rightarrow> hub_memory \<Rightarrow> registry \<Rightarrow> registry \<Rightarrow> registry" where
  "releaseOnCurrentKey c h draw now a m seen st =
    (if \<not> waitOver now m then st
     else if \<not> (has_key (agents seen) a \<and> inQuarantine seen a) then st
     else committed_or st (refreshDirTx c h draw a (releaseTx a releasedCurrentKey now st)))"

definition EndQuarantineWhenNoneHeld :: "time_ns \<Rightarrow> hub_memory \<Rightarrow> registry \<Rightarrow> hub_memory \<times> registry" where
  "EndQuarantineWhenNoneHeld now m st =
    (if \<not> waitOver now m then (m, st)
     else if held_count st > 0 then (m, st)
     else (set_quarantine False 0 m, st\<lparr>rg_restore := None, rg_released := []\<rparr>))"

fun refresh_dirs :: "registry_core \<Rightarrow> hub_conf \<Rightarrow> (aid \<Rightarrow> bytes) \<Rightarrow> aid list \<Rightarrow> registry \<Rightarrow> registry_error + registry" where
  "refresh_dirs c h draw [] st = Inr st"
| "refresh_dirs c h draw (a # as) st = rbind (refreshDirTx c h (draw a) a st) (refresh_dirs c h draw as)"

definition BeginServing ::
  "registry_core \<Rightarrow> hub_conf \<Rightarrow> (aid \<Rightarrow> bytes) \<Rightarrow> time_ns \<Rightarrow> hub_memory \<Rightarrow> registry \<Rightarrow> registry_error + hub_memory \<times> registry" where
  "BeginServing c h draw now m st =
    (case rg_restore st of
      None \<Rightarrow> Inr (m, st)
    | Some r \<Rightarrow>
      if rs_serving_since r \<noteq> None then Inr (m, st)
      else rbind (refresh_dirs c h draw (sort (map fst (agents st)))
                   (st\<lparr>rg_restore := Some (r\<lparr>rs_serving_since := Some (unix_milli now)\<rparr>)\<rparr>))
             (\<lambda>st'. Inr (set_quarantine True (unix_milli now) m, st')))"

record quarantine_status =
  qs_active :: bool
  qs_why :: string
  qs_began_at :: millis
  qs_serving_since :: "millis option"
  qs_held :: nat

definition Quarantine :: "registry \<Rightarrow> quarantine_status" where
  "Quarantine st = (case rg_restore st of
      None \<Rightarrow> \<lparr>qs_active = False, qs_why = '''', qs_began_at = 0, qs_serving_since = None, qs_held = 0\<rparr>
    | Some r \<Rightarrow> \<lparr>qs_active = True, qs_why = rs_why r, qs_began_at = rs_began_at r,
        qs_serving_since = rs_serving_since r, qs_held = held_count st\<rparr>)"

section \<open>The count beside the database\<close>

definition maxKELHWMLen :: nat where "maxKELHWMLen = 21"
definition maxKELChanges :: nat where "maxKELChanges = 9223372036854775807"

definition newline :: char where "newline = char_of (10 :: nat)"

definition parseKELHWM :: "string \<Rightarrow> nat option" where
  "parseKELHWM b =
    (if b = [] \<or> last b \<noteq> newline then None
     else
       (let digits = butlast b in
        if digits = [] \<or> length digits > 20 \<or> length digits > 1 \<and> hd digits = CHR ''0'' then None
        else if \<not> list_all decimal_digit digits then None
        else (case ParseUint digits of
          None \<Rightarrow> None
        | Some n \<Rightarrow> if unat n > maxKELChanges then None else Some (unat n))))"

datatype hwm_read = HwmMissing | HwmUnreadable | HwmCount nat

definition readKELHWM :: "string option \<Rightarrow> hwm_read" where
  "readKELHWM file = (case file of
      None \<Rightarrow> HwmMissing
    | Some b \<Rightarrow> (case parseKELHWM (take (maxKELHWMLen + 1) b) of None \<Rightarrow> HwmUnreadable | Some n \<Rightarrow> HwmCount n))"

definition hwm_count :: "hwm_read \<Rightarrow> nat" where
  "hwm_count rd = (case rd of HwmCount n \<Rightarrow> n | _ \<Rightarrow> 0)"

definition writeKELHWM :: "nat \<Rightarrow> string" where
  "writeKELHWM n = format_nat n @ [newline]"

text \<open>\<open>syncKELHighWater\<close>: what is in memory and in the file afterwards.\<close>

definition syncKELHighWater :: "registry \<Rightarrow> hub_memory \<times> string option \<Rightarrow> hub_memory \<times> string option" where
  "syncKELHighWater st s =
    (case s of (m, file) \<Rightarrow>
      (case kelChanges st of
        Inl _ \<Rightarrow> (m, file)
      | Inr n \<Rightarrow>
        if n \<le> hm_written m then (m, file)
        else (case readKELHWM file of
          HwmCount cur \<Rightarrow> if cur \<ge> n then (m\<lparr>hm_written := cur\<rparr>, file) else (m\<lparr>hm_written := n\<rparr>, Some (writeKELHWM n))
        | _ \<Rightarrow> (m\<lparr>hm_written := n\<rparr>, Some (writeKELHWM n)))))"

definition beginRollbackQuarantine :: "nat \<Rightarrow> bool \<Rightarrow> time_ns \<Rightarrow> registry \<Rightarrow> registry_error + registry" where
  "beginRollbackQuarantine file unreadable now st =
    rbind (kelChanges st) (\<lambda>n.
      if n \<ge> file \<and> \<not> unreadable then Inr st
      else (let st' = startQuarantineTx quarantineRollback now st in
            Inr (if n < file then st'\<lparr>rg_kel_changes := int file\<rparr> else st')))"

text \<open>The count and the contents when the file was missing or did not read: it is written now.\<close>

definition rewritten_hwm :: "hwm_read \<Rightarrow> nat \<Rightarrow> string option \<Rightarrow> nat \<times> string option" where
  "rewritten_hwm rd n content =
    (let file = hwm_count rd in
     if rd = HwmMissing \<or> rd = HwmUnreadable then (max n file, Some (writeKELHWM (max n file))) else (file, content))"

definition checkKELHighWater ::
  "time_ns \<Rightarrow> registry \<Rightarrow> hub_memory \<times> string option \<Rightarrow> registry_error + registry \<times> hub_memory \<times> string option" where
  "checkKELHighWater now st s =
    (let rd = readKELHWM (snd s) in
     rbind (kelChanges st) (\<lambda>n.
     rbind (if n < hwm_count rd \<or> rd = HwmUnreadable then beginRollbackQuarantine (hwm_count rd) (rd = HwmUnreadable) now st else Inr st)
       (\<lambda>st'. case rewritten_hwm rd n (snd s) of (written, content) \<Rightarrow>
         (case syncKELHighWater st' ((fst s)\<lparr>hm_written := written\<rparr>, content) of
           (m, content') \<Rightarrow> Inr (st', loadQuarantine st' m, content')))))"

text \<open>\<open>quarantineCopy\<close>, and the count written to the file when the copy has replaced the database. The
  table \<open>relay_dack\<close>, which is emptied too, is not part of this state.\<close>

definition emptied :: "registry \<Rightarrow> registry" where
  "emptied st = st\<lparr>rg_relay := (rg_relay st)\<lparr>messages := [], redelivery := []\<rparr>, rg_dereg_events := [], rg_notices := []\<rparr>"

definition quarantineCopy :: "nat \<Rightarrow> time_ns \<Rightarrow> registry \<Rightarrow> registry_error + registry \<times> nat \<times> nat" where
  "quarantineCopy file now st =
    (let st' = startQuarantineTx quarantineRestore now (emptied st) in
     rbind (kelChanges st') (\<lambda>count.
       if file > count then Inr (st'\<lparr>rg_kel_changes := int file\<rparr>, length (agents st'), file)
       else Inr (st', length (agents st'), count)))"

definition Restore :: "time_ns \<Rightarrow> registry \<Rightarrow> string option \<Rightarrow> registry_error + registry \<times> string option" where
  "Restore now backup content =
    (let file = hwm_count (readKELHWM content) in
     rbind (quarantineCopy file now backup) (\<lambda>(st, n, count). Inr (st, Some (writeKELHWM count))))"

end
