(* ===== verification/Cards.thy ===== *)
theory Cards
  imports Notices
begin

text \<open>
  The A2A cards of the agents registered here (\<open>internal/aghub/a2acard.go\<close>, \<open>a2acard_withdraw.go\<close>,
  \<open>fedstream.go\<close>, the publishing half of \<open>fed_a2acard.go\<close>): admission under the key history the agent
  registered with, the skill and tag indexes, and the stream of cards and withdrawals that peer hubs read.

  A card is verified by ANetCore; the resolver of the source, which answers only for the registrant, is
  the AID and the key history \<open>CardVerify\<close> is given. A stored time of verification is to the second.
\<close>

section \<open>The stream\<close>

definition federates :: "string \<Rightarrow> bool" where
  "federates v \<longleftrightarrow> v = VisibilityFederated \<or> v = VisibilityPublic"

definition validVisibility :: "string \<Rightarrow> bool" where
  "validVisibility v \<longleftrightarrow> v = VisibilityHubLocal \<or> v = VisibilityFederated \<or> v = VisibilityPublic"

definition withdrawDeparted :: string where "withdrawDeparted = ''deregistered''"
definition withdrawNotFederated :: string where "withdrawNotFederated = ''visibility-narrowed''"
definition withdrawDelisted :: string where "withdrawDelisted = ''card-no-longer-verifies''"
definition withdrawReasonAgent :: string where "withdrawReasonAgent = ''card-withdrawn''"

definition max_seq :: "int list \<Rightarrow> int" where
  "max_seq xs = fold max xs 0"

definition next_fed_seq :: "registry \<Rightarrow> int" where
  "next_fed_seq st =
    max (rg_fed_head st) (max (max_seq (map (\<lambda>(_, r). cd_fed_seq r) (rg_cards st)))
                              (max_seq (map (\<lambda>(_, r). wd_fed_seq r) (rg_withdrawals st)))) + 1"

definition nextA2AFedSeq :: "registry \<Rightarrow> registry \<times> int" where
  "nextA2AFedSeq st = (st\<lparr>rg_fed_head := next_fed_seq st\<rparr>, next_fed_seq st)"

definition withdrawA2ACard :: "aid \<Rightarrow> string \<Rightarrow> registry \<Rightarrow> registry" where
  "withdrawA2ACard a reason st =
    (if \<not> has_key (rg_cards st) a then st
     else (case nextA2AFedSeq st of (st, sq) \<Rightarrow>
       st\<lparr>rg_withdrawals := AList.update a \<lparr>wd_reason = reason, wd_fed_seq = sq\<rparr> (rg_withdrawals st)\<rparr>))"

definition agentFederates :: "registry \<Rightarrow> aid \<Rightarrow> bool" where
  "agentFederates st a = (case map_of (agents st) a of None \<Rightarrow> False | Some r \<Rightarrow> federates (ag_visibility r))"

text \<open>The card published for an AID: listed, of an agent that federates.\<close>

definition published_row :: "registry \<Rightarrow> aid \<Rightarrow> card_row option" where
  "published_row st a = (case map_of (rg_cards st) a of
      None \<Rightarrow> None
    | Some cd \<Rightarrow> if cd_verified cd \<noteq> None \<and> agentFederates st a then Some cd else None)"

definition clearA2AWithdrawal :: "aid \<Rightarrow> registry \<Rightarrow> registry" where
  "clearA2AWithdrawal a st =
    (case (published_row st a, map_of (rg_withdrawals st) a) of
      (Some cd, Some w) \<Rightarrow>
        if wd_fed_seq w < cd_fed_seq cd then st\<lparr>rg_withdrawals := AList.delete a (rg_withdrawals st)\<rparr> else st
    | _ \<Rightarrow> st)"

definition set_card :: "aid \<Rightarrow> card_row \<Rightarrow> registry \<Rightarrow> registry" where
  "set_card a cd st = st\<lparr>rg_cards := AList.update a cd (rg_cards st)\<rparr>"

definition bumpA2ACard :: "aid \<Rightarrow> registry \<Rightarrow> registry" where
  "bumpA2ACard a st =
    (case map_of (rg_cards st) a of
      None \<Rightarrow> st
    | Some cd \<Rightarrow>
      if cd_verified cd = None then st
      else (case nextA2AFedSeq st of (st, sq) \<Rightarrow> clearA2AWithdrawal a (set_card a (cd\<lparr>cd_fed_seq := sq\<rparr>) st)))"

definition a2aVisibilityChanged :: "aid \<Rightarrow> string \<Rightarrow> string \<Rightarrow> registry \<Rightarrow> registry" where
  "a2aVisibilityChanged a before after st =
    (if federates before \<and> \<not> federates after then withdrawA2ACard a withdrawNotFederated st
     else if \<not> federates before \<and> federates after then bumpA2ACard a st else st)"

text \<open>The source runs the statements of \<open>SetVisibility\<close> one by one under the store lock; they are one step here.\<close>

definition SetVisibility :: "aid \<Rightarrow> string \<Rightarrow> registry \<Rightarrow> registry_error + registry" where
  "SetVisibility a v st =
    (if \<not> validVisibility v then Inl ErrVisibility
     else case map_of (agents st) a of
       None \<Rightarrow> Inl ErrNotRegistered
     | Some r \<Rightarrow>
       (let st' = update_agent a (\<lambda>r. r\<lparr>ag_visibility := v\<rparr>) st in
        if ag_visibility r = v then Inr st' else Inr (a2aVisibilityChanged a (ag_visibility r) v st')))"

text \<open>What a peer reads: the entries above its cursor, at most \<open>limit\<close>, and the cursor to ask after next.\<close>

datatype stream_entry =
  CardEntry (entry_aid: aid) (entry_seq: int) (entry_card: bytes) bytes bytes bytes string
| WithdrawalEntry (entry_aid: aid) (entry_seq: int) string string

definition card_entries :: "registry \<Rightarrow> string \<Rightarrow> stream_entry list" where
  "card_entries st home =
    List.map_filter (\<lambda>(a, cd). case map_of (agents st) a of
        None \<Rightarrow> None
      | Some r \<Rightarrow> if cd_verified cd \<noteq> None \<and> federates (ag_visibility r)
          then Some (CardEntry a (cd_fed_seq cd) (cd_card cd) (ag_kel r)
                 (case map_of (key_sets st) a of None \<Rightarrow> [] | Some (_, raw) \<Rightarrow> raw) (cachedNoticeOf st a) home)
          else None) (rg_cards st)"

definition withdrawal_entries :: "registry \<Rightarrow> string \<Rightarrow> stream_entry list" where
  "withdrawal_entries st home = map (\<lambda>(a, w). WithdrawalEntry a (wd_fed_seq w) (wd_reason w) home) (rg_withdrawals st)"

definition stream_above :: "int \<Rightarrow> string \<Rightarrow> registry \<Rightarrow> stream_entry list" where
  "stream_above cursor home st =
    sort_key entry_seq (filter (\<lambda>e. entry_seq e > cursor) (card_entries st home @ withdrawal_entries st home))"

definition A2ACardsSince :: "int \<Rightarrow> int \<Rightarrow> string \<Rightarrow> registry \<Rightarrow> stream_entry list \<times> int" where
  "A2ACardsSince cursor limit home st =
    (let limit = (if limit \<le> 0 \<or> limit > 500 then 100 else limit);
         page = take (nat limit) (stream_above cursor home st)
     in (page, if page = [] then cursor else entry_seq (last page)))"

section \<open>Admission\<close>

datatype card_status = CardStatusOK | CardStatusUnchanged | CardStatusInvalid | CardStatusConflict
  | CardStatusAbsent | CardStatusWithdrawn

datatype card_refusal = CardCode card_code | CardSkillIDs registry_error | ErrPriceInPublicCard

definition extPricingV1URI :: string where "extPricingV1URI = ''https://agentnetwork.org.cn/a2a/ext/anet-pricing/v1''"
definition extPriceV1URI :: string where "extPriceV1URI = ''https://agentnetwork.org.cn/a2a/ext/anet-price/v1''"

text \<open>Members read into a \<open>map[string]json.RawMessage\<close>: the last one of a name counts, \<open>null\<close> is an
  empty map, anything else fails. Reading a missing member fails too.\<close>

definition json_members :: "json option \<Rightarrow> (string \<Rightarrow> json option) option" where
  "json_members j = (case j of
      Some (JObject ms) \<Rightarrow> Some (map_of (rev ms))
    | Some JNull \<Rightarrow> Some (\<lambda>_. None)
    | _ \<Rightarrow> None)"

definition json_elements :: "json option \<Rightarrow> json list" where
  "json_elements j = (case j of Some (JArray es) \<Rightarrow> es | _ \<Rightarrow> [])"

definition is_price_extension :: "json \<Rightarrow> bool" where
  "is_price_extension e = (case json_members (Some e) of
      None \<Rightarrow> False
    | Some ms \<Rightarrow> (case ms ''uri'' of Some (JString u) \<Rightarrow> u = extPricingV1URI \<or> u = extPriceV1URI | _ \<Rightarrow> False))"

definition carriesPrices :: "registry_core \<Rightarrow> bytes \<Rightarrow> bool" where
  "carriesPrices c raw = (case json_members (JsonDecode c raw) of
      None \<Rightarrow> False
    | Some members \<Rightarrow> (case json_members (members ''capabilities'') of
        None \<Rightarrow> False
      | Some caps \<Rightarrow> list_ex is_price_extension (json_elements (caps ''extensions''))))"

definition skillIDs :: "card_verified \<Rightarrow> string list" where
  "skillIDs v = map skl_id (cv_skills v)"

definition card_time :: "time_ns \<Rightarrow> u64" where
  "card_time now = word_of_int (unix_milli now)"

definition verifyA2ACardFor :: "registry_core \<Rightarrow> aid \<Rightarrow> bytes \<Rightarrow> kel \<Rightarrow> time_ns \<Rightarrow> card_refusal + card_verified" where
  "verifyA2ACardFor c a raw k now =
    (case CardVerify c raw a k (card_time now) of
      Inl code \<Rightarrow> Inl (CardCode code)
    | Inr None \<Rightarrow> Inl (CardCode CodeBindingMismatch)
    | Inr (Some v) \<Rightarrow>
      if cv_aid v \<noteq> a then Inl (CardCode CodeBindingMismatch)
      else (case validateCaps (skillIDs v) of
        Some e \<Rightarrow> Inl (CardSkillIDs e)
      | None \<Rightarrow> if carriesPrices c raw then Inl ErrPriceInPublicCard else Inr v))"

text \<open>\<open>a2aMark\<close>: the high-water mark and the bytes of the stored card.\<close>

definition a2aMark :: "registry \<Rightarrow> aid \<Rightarrow> (u64 \<times> bytes) option \<times> bytes option" where
  "a2aMark st a = (case map_of (rg_cards st) a of
      None \<Rightarrow> (None, None)
    | Some cd \<Rightarrow>
      (case cd_hash cd of
        None \<Rightarrow> (None, Some (cd_card cd))
      | Some hash \<Rightarrow> if length hash \<noteq> 32 then (None, Some (cd_card cd)) else (Some (cd_seq cd, hash), Some (cd_card cd))))"

definition markUnlessRetired ::
  "registry_core \<Rightarrow> (u64 \<times> bytes) option \<Rightarrow> u64 \<Rightarrow> bytes \<Rightarrow> aid \<Rightarrow> kel \<Rightarrow> time_ns \<Rightarrow> (u64 \<times> bytes) option" where
  "markUnlessRetired c stored offered stored_raw a k now =
    (case stored of
      None \<Rightarrow> None
    | Some (sq, hash) \<Rightarrow>
      if stored_raw = [] \<or> sq \<le> offered then stored
      else if CardVerify c stored_raw a k (card_time now) = Inl CodeKeyNotCurrent then None else stored)"

definition insert_skill :: "aid \<Rightarrow> skill \<Rightarrow> (aid \<times> string \<times> string) list \<Rightarrow> (aid \<times> string \<times> string) list" where
  "insert_skill a sk t = (if list_ex (\<lambda>(b, i, _). b = a \<and> i = skl_id sk) t then t else t @ [(a, skl_id sk, skl_name sk)])"

definition indexA2ACard :: "aid \<Rightarrow> card_verified \<Rightarrow> registry \<Rightarrow> registry" where
  "indexA2ACard a v st =
    update_agent a (\<lambda>r. r\<lparr>ag_name := cv_name v, ag_caps := skillIDs v\<rparr>)
      (st\<lparr>rg_skills := fold (insert_skill a) (cv_skills v) (filter (\<lambda>r. fst r \<noteq> a) (rg_skills st)),
          rg_caps := fold (\<lambda>sk. List.insert (a, skl_id sk)) (cv_skills v) (filter (\<lambda>r. fst r \<noteq> a) (rg_caps st)),
          rg_tags := fold (\<lambda>sk. fold (\<lambda>t. List.insert (a, t)) (skl_tags sk)) (cv_skills v) (filter (\<lambda>r. fst r \<noteq> a) (rg_tags st))\<rparr>)"

text \<open>\<open>strings.Join(parts, "\n")\<close>.\<close>

fun join_lines :: "string list \<Rightarrow> string" where
  "join_lines [] = []"
| "join_lines [s] = s"
| "join_lines (s # t # r) = s @ newline # join_lines (t # r)"

definition cardSearchText :: "registry_core \<Rightarrow> bytes \<Rightarrow> card_verified \<Rightarrow> string" where
  "cardSearchText c raw v =
    ToLower c (join_lines (cv_name v # CardDescription c raw # map skl_name (cv_skills v)))"

definition verifiedStamp :: "time_ns \<Rightarrow> time_ns" where
  "verifiedStamp now = now - now mod second_ns"

definition storeAdmittedA2ACard :: "registry_core \<Rightarrow> aid \<Rightarrow> bytes \<Rightarrow> card_verified \<Rightarrow> time_ns \<Rightarrow> registry \<Rightarrow> registry" where
  "storeAdmittedA2ACard c a raw v now st =
    (case nextA2AFedSeq st of (st, sq) \<Rightarrow>
      clearA2AWithdrawal a (indexA2ACard a v
        (set_card a \<lparr>cd_card = raw, cd_seq = cv_seq v, cd_hash = Some (cv_hash v), cd_verified = Some (verifiedStamp now),
                     cd_search = cardSearchText c raw v, cd_fed_seq = sq\<rparr> st)))"

text \<open>The stored card in the same bytes: listed again when it was not, and its derived fields restated.\<close>

definition relist_card :: "aid \<Rightarrow> card_row \<Rightarrow> card_verified \<Rightarrow> time_ns \<Rightarrow> registry \<Rightarrow> registry" where
  "relist_card a cd v now st =
    (case nextA2AFedSeq st of (st, sq) \<Rightarrow>
      clearA2AWithdrawal a (indexA2ACard a v
        (set_card a (cd\<lparr>cd_fed_seq := (if cd_verified cd = None then sq else cd_fed_seq cd),
                        cd_verified := Some (verifiedStamp now)\<rparr>) st)))"

definition chars_of :: "bytes \<Rightarrow> string" where
  "chars_of b = map (\<lambda>x. char_of (unat x)) b"

definition AdmitA2ACard ::
  "registry_core \<Rightarrow> hub_conf \<Rightarrow> bytes \<Rightarrow> aid \<Rightarrow> bytes \<Rightarrow> kel \<Rightarrow> time_ns \<Rightarrow> registry \<Rightarrow> registry \<times> card_status" where
  "AdmitA2ACard c h draw a raw k now st =
    (if take 1 (TrimSpace (chars_of raw)) \<noteq> [CHR 0x7B] then (st, CardStatusInvalid)
     else case verifyA2ACardFor c a raw k now of
       Inl _ \<Rightarrow> (st, CardStatusInvalid)
     | Inr v \<Rightarrow>
       (case a2aMark st a of (stored, stored_raw) \<Rightarrow>
        (case CardHighWater c (markUnlessRetired c stored (cv_seq v) (case stored_raw of None \<Rightarrow> [] | Some b \<Rightarrow> b) a k now)
                (cv_seq v, cv_hash v) of
          Inl code \<Rightarrow> (st, if code = CodeSeqRollback \<or> code = CodeSeqFork then CardStatusConflict else CardStatusInvalid)
        | Inr decision \<Rightarrow>
          (let same = (decision = HWSame \<and> stored_raw = Some raw);
               st' = (if same then (case map_of (rg_cards st) a of None \<Rightarrow> st | Some cd \<Rightarrow> relist_card a cd v now st)
                      else storeAdmittedA2ACard c a raw v now st)
           in (case refreshDirTx c h draw a st' of
                 Inl _ \<Rightarrow> (st, CardStatusInvalid)
               | Inr st'' \<Rightarrow> (st'', if decision = HWSame then CardStatusUnchanged else CardStatusOK))))))"

section \<open>After a new key history\<close>

definition listed_card :: "registry \<Rightarrow> aid \<Rightarrow> bytes option" where
  "listed_card st a = (case map_of (rg_cards st) a of
      None \<Rightarrow> None | Some cd \<Rightarrow> if cd_verified cd = None then None else Some (cd_card cd))"

definition drop_card_index :: "aid \<Rightarrow> registry \<Rightarrow> registry" where
  "drop_card_index a st =
    st\<lparr>rg_skills := filter (\<lambda>r. fst r \<noteq> a) (rg_skills st), rg_tags := filter (\<lambda>r. fst r \<noteq> a) (rg_tags st)\<rparr>"

definition delist_card :: "aid \<Rightarrow> card_row \<Rightarrow> registry \<Rightarrow> registry" where
  "delist_card a cd st =
    (case nextA2AFedSeq st of (st, sq) \<Rightarrow>
      (let st = set_card a (cd\<lparr>cd_verified := None, cd_fed_seq := sq\<rparr>) (drop_card_index a st)
       in if agentFederates st a then withdrawA2ACard a withdrawDelisted st else st))"

text \<open>\<open>seen\<close> is the listed card as it was read and verified before the store's lock.\<close>

definition recheckA2ACard ::
  "registry_core \<Rightarrow> hub_conf \<Rightarrow> bytes \<Rightarrow> aid \<Rightarrow> kel \<Rightarrow> time_ns \<Rightarrow> bytes option \<Rightarrow> registry \<Rightarrow> registry_error + registry" where
  "recheckA2ACard c h draw a k now seen st =
    (case seen of
      None \<Rightarrow> Inr st
    | Some raw \<Rightarrow>
      (case map_of (rg_cards st) a of
        None \<Rightarrow> Inr st
      | Some cd \<Rightarrow>
        if listed_card st a \<noteq> Some raw then Inr st
        else (case verifyA2ACardFor c a raw k now of
          Inl _ \<Rightarrow> refreshDirTx c h draw a (delist_card a cd st)
        | Inr v \<Rightarrow> Inr (indexA2ACard a v (set_card a (cd\<lparr>cd_verified := Some (verifiedStamp now)\<rparr>) st)))))"

definition isNullCard :: "bytes \<Rightarrow> bool" where
  "isNullCard raw \<longleftrightarrow> TrimSpace (chars_of raw) = ''null''"

definition WithdrawA2ACard :: "registry_core \<Rightarrow> hub_conf \<Rightarrow> bytes \<Rightarrow> aid \<Rightarrow> registry \<Rightarrow> registry_error + registry" where
  "WithdrawA2ACard c h draw a st =
    (let st = (if agentFederates st a then withdrawA2ACard a withdrawReasonAgent st else st)
     in refreshDirTx c h draw a (drop_card_index a (st\<lparr>rg_cards := AList.delete a (rg_cards st)\<rparr>)))"

text \<open>The A2A card of a registration just written; an empty \<open>raw\<close> is an absent one. \<open>draw\<close> and \<open>draw'\<close> are the
  random draws of its two transactions.\<close>

definition RegisterA2ACard ::
  "registry_core \<Rightarrow> hub_conf \<Rightarrow> bytes \<Rightarrow> bytes \<Rightarrow> aid \<Rightarrow> bytes \<Rightarrow> kel \<Rightarrow> time_ns \<Rightarrow> registry \<Rightarrow> registry \<times> card_status" where
  "RegisterA2ACard c h draw draw' a raw k now st =
    (if isNullCard raw then
       (case WithdrawA2ACard c h draw a st of Inl _ \<Rightarrow> (st, CardStatusInvalid) | Inr st' \<Rightarrow> (st', CardStatusWithdrawn))
     else
       (case (if raw \<noteq> [] then AdmitA2ACard c h draw a raw k now st else (st, CardStatusAbsent)) of (st', status) \<Rightarrow>
         if status = CardStatusOK \<or> status = CardStatusUnchanged then (st', status)
         else (committed_or st' (recheckA2ACard c h draw' a k now (listed_card st' a) st'), status)))"

end
