(* ===== verification/Key_Sets.thy ===== *)
theory Key_Sets
  imports Cards
begin

text \<open>
  \<open>internal/aghub/keys.go\<close>: the encryption key set an agent publishes. A publication names the set it
  follows and is a compare-and-swap on it; a set is signed under the tip of the agent's key history,
  and the epoch of its mailbox key rises exactly when that key changes. Decoding and verification of a
  set are ANetCore's (\<open>seal\<close>).
\<close>

section \<open>The stored set\<close>

definition MaxMboxEpoch :: nat where "MaxMboxEpoch = 9007199254740992"

text \<open>\<open>storedKeys\<close>: the seq and the set bytes, and the encoding stored.\<close>

definition storedKeys :: "registry_core \<Rightarrow> registry \<Rightarrow> aid \<Rightarrow> registry_error + ((u64 \<times> bytes) \<times> bytes) option" where
  "storedKeys c st a = (case map_of (key_sets st) a of
      None \<Rightarrow> Inr None
    | Some (sq, raw) \<Rightarrow>
      (case UnmarshalKeySet c raw of
        None \<Rightarrow> Inl ErrStoredKeySet
      | Some s \<Rightarrow> Inr (Some ((sq, sk_set s), raw))))"

definition followsStored ::
  "registry_core \<Rightarrow> (u64 \<times> bytes) option \<Rightarrow> signed_key_set \<Rightarrow> u64 \<Rightarrow> registry_error + high_water" where
  "followsStored c seen s prev_seq =
    (case DecideHighWater c seen s of
      None \<Rightarrow> Inl (KeysInvalidError KeysNotDecoded)
    | Some decision \<Rightarrow>
      (case seen of
        None \<Rightarrow> Inr decision
      | Some (held, _) \<Rightarrow>
        if decision = HWSame then Inr decision
        else if held > prev_seq \<or> decision = HWIgnore \<or> decision = HWFork
        then Inl (KeysRollbackError held prev_seq (case DecodeEncKeySet c (sk_set s) of None \<Rightarrow> 0 | Some es \<Rightarrow> ek_seq es))
        else Inr decision))"

text \<open>The check before a registration writes: the rollback error a publication would get now.\<close>

definition is_rollback :: "registry_error \<Rightarrow> bool" where
  "is_rollback e = (case e of KeysRollbackError _ _ _ \<Rightarrow> True | _ \<Rightarrow> False)"

definition KeysRollbackOf :: "registry_core \<Rightarrow> registry \<Rightarrow> aid \<Rightarrow> bytes \<Rightarrow> u64 \<Rightarrow> registry_error option" where
  "KeysRollbackOf c st a raw prev_seq =
    (case UnmarshalKeySet c raw of
      None \<Rightarrow> None
    | Some s \<Rightarrow>
      (case storedKeys c st a of
        Inl e \<Rightarrow> Some e
      | Inr seen \<Rightarrow>
        (case followsStored c (map_option fst seen) s prev_seq of
          Inl e \<Rightarrow> if is_rollback e then Some e else None
        | Inr _ \<Rightarrow> None)))"

section \<open>The mailbox key\<close>

definition checkMboxEpoch :: "mbox option \<Rightarrow> mbox \<Rightarrow> keys_why option" where
  "checkMboxEpoch prev next =
    (if unat (mb_epoch next) \<ge> MaxMboxEpoch then Some EpochTooLarge
     else case prev of
       None \<Rightarrow> None
     | Some p \<Rightarrow>
       if mb_epoch next < mb_epoch p then Some EpochDown
       else if mb_pub p \<noteq> mb_pub next \<and> mb_epoch next = mb_epoch p then Some KeySameEpoch
       else if mb_pub p = mb_pub next \<and> mb_epoch next \<noteq> mb_epoch p then Some EpochSameKey
       else None)"

definition mboxOf :: "registry_core \<Rightarrow> bytes \<Rightarrow> mbox option" where
  "mboxOf c set_bytes = map_option ek_mbox (DecodeEncKeySet c set_bytes)"

section \<open>A publication\<close>

datatype keys_status = KeysStatusOK | KeysStatusUnchanged | KeysStatusAbsent | KeysStatusInvalid

text \<open>The write of \<open>PublishKeys\<close>, one transaction: the set, the card that carries it, the directory entry,
  and the revocations a risen epoch has made useless. The Boolean result says that the cache of
  revocations is to be forgotten.\<close>

definition store_key_set ::
  "registry_core \<Rightarrow> hub_conf \<Rightarrow> bytes \<Rightarrow> aid \<Rightarrow> enc_key_set \<Rightarrow> bytes \<Rightarrow> bool \<Rightarrow> registry \<Rightarrow> registry_error + registry" where
  "store_key_set c h draw a es canon rose st =
    (let st = set_key_sets (AList.update a (ek_seq es, canon) (key_sets st)) st;
         st = (if agentFederates st a then bumpA2ACard a st else st)
     in rbind (refreshDirTx c h draw a st) (\<lambda>st.
          Inr (if rose then st\<lparr>rg_revoked := delete_owner a (rg_revoked st)\<rparr> else st)))"

definition PublishKeys ::
  "registry_core \<Rightarrow> hub_conf \<Rightarrow> bytes \<Rightarrow> aid \<Rightarrow> bytes \<Rightarrow> u64 \<Rightarrow> kel \<Rightarrow> time_ns \<Rightarrow> registry \<Rightarrow>
   registry_error + registry \<times> keys_status \<times> bool" where
  "PublishKeys c h draw a raw prev_seq k now st =
    (case UnmarshalKeySet c raw of
      None \<Rightarrow> Inl (KeysInvalidError KeysNotDecoded)
    | Some s \<Rightarrow>
      (case MarshalKeySet c s of
        None \<Rightarrow> Inl (KeysInvalidError KeysNotEncoded)
      | Some canon \<Rightarrow>
        rbind (storedKeys c st a) (\<lambda>seen.
        rbind (followsStored c (map_option fst seen) s prev_seq) (\<lambda>decision.
          (case VerifyEncKeySet c s a k (word_of_int (unix_milli now)) of
            Inl _ \<Rightarrow> Inl (KeysInvalidError KeysNotVerified)
          | Inr es \<Rightarrow>
            rbind (case seen of
                None \<Rightarrow> Inr None
              | Some ((_, set_bytes), _) \<Rightarrow> (case mboxOf c set_bytes of None \<Rightarrow> Inl ErrStoredKeySet | Some m \<Rightarrow> Inr (Some m))) (\<lambda>prev.
              (case checkMboxEpoch prev (ek_mbox es) of
                Some why \<Rightarrow> Inl (KeysInvalidError why)
              | None \<Rightarrow>
                if uint (ek_seq es) > max_int64 then Inl (KeysInvalidError KeysSeqTooLarge)
                else if decision = HWSame \<and> map_option snd seen = Some canon then Inr (st, KeysStatusUnchanged, False)
                else
                  (let rose = (case prev of None \<Rightarrow> False | Some p \<Rightarrow> mb_epoch (ek_mbox es) > mb_epoch p)
                   in rbind (store_key_set c h draw a es canon rose st) (\<lambda>st'. Inr (st', KeysStatusOK, rose))))))))))"

text \<open>\<open>LocalKeys\<close>: the key set and the key history of an agent registered here.\<close>

definition LocalKeys :: "registry \<Rightarrow> aid \<Rightarrow> (bytes option \<times> bytes) option" where
  "LocalKeys st a = (case map_of (agents st) a of
      None \<Rightarrow> None
    | Some r \<Rightarrow> Some (map_option snd (map_of (key_sets st) a), ag_kel r))"

text \<open>What \<open>GET /agents/{aid}/keys\<close> answers: the two values, or the reason it serves none.\<close>

datatype keys_refusal = KeysUnknownAID | KeysNoneYet | KeysKELTooLong

definition hKeysGet :: "registry_core \<Rightarrow> registry \<Rightarrow> aid \<Rightarrow> keys_refusal + string \<times> string" where
  "hKeysGet c st a =
    (case LocalKeys st a of
      None \<Rightarrow> Inl KeysUnknownAID
    | Some (None, _) \<Rightarrow> Inl KeysNoneYet
    | Some (Some ks, k) \<Rightarrow>
      (case ParseKEL c k of
        None \<Rightarrow> Inl KeysKELTooLong
      | Some _ \<Rightarrow> Inr (EncodeB64URL ks, EncodeB64URL k)))"

definition agentKELEvents :: "registry_core \<Rightarrow> registry \<Rightarrow> aid \<Rightarrow> kel option" where
  "agentKELEvents c st a = (case AgentKEL st a of None \<Rightarrow> None | Some b \<Rightarrow> ParseKEL c b)"

definition keysStatusOf :: "registry_error + keys_status \<Rightarrow> keys_status" where
  "keysStatusOf r = (case r of Inl _ \<Rightarrow> KeysStatusInvalid | Inr s \<Rightarrow> s)"

end
