(* ===== verification/Departure.thy ===== *)
theory Departure
  imports Key_Sets
begin

text \<open>
  \<open>internal/aghub/deregister.go\<close>: the one way an agent stops being registered here. Its key history
  becomes a tombstone, its routing goes step by step, and what it is owed stays. The callbacks the hub
  process runs for a deregistration are the names of the AIDs they are run for.
\<close>

section \<open>The tombstone\<close>

definition DeregSelf :: string where "DeregSelf = ''self''"
definition DeregDip :: string where "DeregDip = ''dip''"
definition DeregRevoked :: string where "DeregRevoked = ''revoked''"
definition DeregInactive :: string where "DeregInactive = ''inactive''"
definition DeregOperator :: string where "DeregOperator = ''operator''"

definition writeTombstone :: "registry_core \<Rightarrow> aid \<Rightarrow> bytes \<Rightarrow> registry \<Rightarrow> registry_error + registry" where
  "writeTombstone c a k st =
    (let written = Inr (countKELChangeTx (st\<lparr>rg_departed := AList.update a k (rg_departed st)\<rparr>)) in
     case map_of (rg_departed st) a of
       None \<Rightarrow> written
     | Some held \<Rightarrow>
       (case (UnmarshalKEL c held, UnmarshalKEL c k) of
         (Some old, Some nxt) \<Rightarrow> if ExtendsKEL c old nxt \<noteq> None then Inl ErrTombstoneShrinks else written
       | _ \<Rightarrow> Inl ErrTombstoneShrinks))"

section \<open>The steps\<close>

record dereg_result =
  dr_balance :: int
  dr_undelivered :: nat

text \<open>\<open>deregSteps\<close>: each step is given the AID and the visibility it had.\<close>

definition delete_rows :: "aid \<Rightarrow> (aid \<times> 'a) list \<Rightarrow> (aid \<times> 'a) list" where
  "delete_rows a t = filter (\<lambda>r. fst r \<noteq> a) t"

definition deregSteps :: "(aid \<Rightarrow> string \<Rightarrow> registry \<Rightarrow> registry) list" where
  "deregSteps =
    [\<lambda>a v st. if \<not> federates v then st else withdrawA2ACard a withdrawDeparted st,
     \<lambda>a v st. st\<lparr>rg_caps := delete_rows a (rg_caps st)\<rparr>,
     \<lambda>a v st. set_key_sets (AList.delete a (key_sets st)) st,
     \<lambda>a v st. st\<lparr>rg_cards := AList.delete a (rg_cards st)\<rparr>,
     \<lambda>a v st. st\<lparr>rg_skills := delete_rows a (rg_skills st)\<rparr>,
     \<lambda>a v st. st\<lparr>rg_tags := delete_rows a (rg_tags st)\<rparr>,
     \<lambda>a v st. st\<lparr>rg_relay := (rg_relay st)\<lparr>messages := filter (\<lambda>m. rm_to m \<noteq> a) (messages (rg_relay st))\<rparr>\<rparr>,
     \<lambda>a v st. st\<lparr>rg_revoked := delete_owner a (rg_revoked st)\<rparr>,
     \<lambda>a v st. st\<lparr>rg_notices := AList.delete a (rg_notices st)\<rparr>,
     \<lambda>a v st. st\<lparr>rg_released := AList.delete a (rg_released st)\<rparr>,
     \<lambda>a v st. set_agents (AList.delete a (agents st)) st]"

definition set_admitted :: "(aid, admitted_row) table \<Rightarrow> registry \<Rightarrow> registry" where
  "set_admitted t st = st\<lparr>rg_accounts := (rg_accounts st)\<lparr>ac_admitted := t\<rparr>\<rparr>"

definition DeregisterTx ::
  "registry_core \<Rightarrow> time_ns \<Rightarrow> aid \<Rightarrow> string \<Rightarrow> registry \<Rightarrow> registry_error + registry \<times> dereg_result" where
  "DeregisterTx c now a why st =
    (if why \<notin> {DeregSelf, DeregDip, DeregRevoked, DeregInactive, DeregOperator} then Inl ErrUnknownReason
     else case map_of (agents st) a of
       None \<Rightarrow> Inl ErrNotRegistered
     | Some r \<Rightarrow>
       rbind (writeTombstone c a (ag_kel r) st) (\<lambda>st.
         let undelivered = length (filter (\<lambda>m. rm_to m = a) (messages (rg_relay st)));
             st = fold (\<lambda>step. step a (ag_visibility r)) deregSteps st;
             st = (if why = DeregRevoked \<or> why = DeregOperator
                   then (set_admitted (AList.delete a (ac_admitted (rg_accounts st))) st)\<lparr>rg_quota := AList.delete a (rg_quota st)\<rparr>
                   else st);
             st = st\<lparr>rg_dereg_events := AList.update a (unix_milli now) (rg_dereg_events st)\<rparr>
         in Inr (st, \<lparr>dr_balance = row_or (balances (ac_ledger (rg_accounts st))) a 0, dr_undelivered = undelivered\<rparr>)))"

section \<open>Who calls it\<close>

text \<open>After a commit: in the hub process the callbacks run for \<open>a\<close>, and its row goes. The result is the
  state and the AIDs the callbacks were run for. The file \<open>kel_hwm\<close>, which follows too, is
  \<open>syncKELHighWater\<close> on its own.\<close>

definition afterDereg :: "bool \<Rightarrow> aid \<Rightarrow> registry \<Rightarrow> registry \<times> aid list" where
  "afterDereg in_process a st =
    (if \<not> in_process then (st, []) else (st\<lparr>rg_dereg_events := AList.delete a (rg_dereg_events st)\<rparr>, [a]))"

definition Deregister ::
  "registry_core \<Rightarrow> bool \<Rightarrow> time_ns \<Rightarrow> aid \<Rightarrow> string \<Rightarrow> registry \<Rightarrow> registry_error + registry \<times> dereg_result \<times> aid list" where
  "Deregister c in_process now a why st =
    rbind (DeregisterTx c now a why st) (\<lambda>(st, d).
      case afterDereg in_process a st of (st, as) \<Rightarrow> Inr (st, d, as))"

record revoke_result =
  rv_registered :: bool
  rv_balance :: int

text \<open>The transaction of \<open>RevokeAdmission\<close>.\<close>

definition revoke_tx :: "registry_core \<Rightarrow> time_ns \<Rightarrow> aid \<Rightarrow> registry \<Rightarrow> registry_error + registry \<times> revoke_result" where
  "revoke_tx c now a st =
    (case DeregisterTx c now a DeregRevoked st of
      Inr (st', d) \<Rightarrow> Inr (st', \<lparr>rv_registered = True, rv_balance = dr_balance d\<rparr>)
    | Inl e \<Rightarrow>
      if e \<noteq> ErrNotRegistered then Inl e
      else if \<not> has_key (ac_admitted (rg_accounts st)) a then Inl ErrNotListed
      else Inr (set_admitted (AList.delete a (ac_admitted (rg_accounts st))) st, \<lparr>rv_registered = False, rv_balance = 0\<rparr>))"

definition RevokeAdmission ::
  "(aid \<Rightarrow> bool) \<Rightarrow> registry_core \<Rightarrow> bool \<Rightarrow> time_ns \<Rightarrow> aid \<Rightarrow> registry \<Rightarrow> registry_error + registry \<times> revoke_result \<times> aid list" where
  "RevokeAdmission validAID c in_process now a st =
    (if \<not> validAID a then Inl ErrRegistryBadAID
     else rbind (revoke_tx c now a st) (\<lambda>(st, rv).
       if rv_registered rv then (case afterDereg in_process a st of (st, as) \<Rightarrow> Inr (st, rv, as)) else Inr (st, rv, [])))"

definition InactiveAfter :: int where "InactiveAfter = 7 * 24 * hour_ns"
definition windowKeep :: int where "windowKeep = 30 * 24 * hour_ns"

text \<open>The condition of the sweep; \<open>cutoff\<close> is to the second, as the column is.\<close>

definition inactive :: "time_ns \<Rightarrow> registry \<Rightarrow> aid \<Rightarrow> bool" where
  "inactive cutoff st a = (case map_of (agents st) a of
      None \<Rightarrow> False
    | Some r \<Rightarrow> ag_registered_at r \<le> cutoff \<and> ag_last_seen r = None \<and>
        row_or (balances (ac_ledger (rg_accounts st))) a 0 = 0 \<and> a \<notin> set (rg_reviewed st))"

definition sweepOne :: "registry_core \<Rightarrow> time_ns \<Rightarrow> aid \<Rightarrow> time_ns \<Rightarrow> registry \<Rightarrow> registry_error + registry \<times> bool" where
  "sweepOne c now a cutoff st =
    (if \<not> inactive cutoff st a then Inr (st, False)
     else rbind (DeregisterTx c now a DeregInactive st) (\<lambda>(st', _). Inr (st', True)))"

text \<open>The AIDs swept, in their order; the sweep stops at the first failure and keeps what it did.\<close>

fun sweep_loop ::
  "registry_core \<Rightarrow> bool \<Rightarrow> time_ns \<Rightarrow> time_ns \<Rightarrow> aid list \<Rightarrow> registry \<times> aid list \<Rightarrow> (registry \<times> aid list) \<times> registry_error option" where
  "sweep_loop c in_process now cutoff [] s = (s, None)"
| "sweep_loop c in_process now cutoff (a # as) (st, swept) =
    (case sweepOne c now a cutoff st of
      Inl e \<Rightarrow> ((st, swept), Some e)
    | Inr (st', done) \<Rightarrow>
      if done then sweep_loop c in_process now cutoff as (fst (afterDereg in_process a st'), swept @ [a])
      else sweep_loop c in_process now cutoff as (st', swept))"

definition SweepInactive :: "registry_core \<Rightarrow> bool \<Rightarrow> time_ns \<Rightarrow> registry \<Rightarrow> (registry \<times> aid list) \<times> registry_error option" where
  "SweepInactive c in_process now st =
    (let cutoff = (now - InactiveAfter) - (now - InactiveAfter) mod second_ns in
     case sweep_loop c in_process now cutoff (sort (filter (inactive cutoff st) (map fst (agents st)))) (st, []) of
       (s, Some e) \<Rightarrow> (s, Some e)
     | ((st', swept), None) \<Rightarrow>
       ((st'\<lparr>rg_accounts := (rg_accounts st')\<lparr>ac_windows :=
           filter (\<lambda>w. \<not> w_closes w < unix_milli (now - windowKeep)) (ac_windows (rg_accounts st'))\<rparr>\<rparr>, swept), None))"

section \<open>The hub process\<close>

text \<open>\<open>drainDeregEvents\<close>: the rows read, in the order of their times; a row written again meanwhile stays.\<close>

definition dereg_waiting :: "registry \<Rightarrow> (aid \<times> millis) list" where
  "dereg_waiting st = sort_key snd (rg_dereg_events st)"

definition drain_one :: "aid \<times> millis \<Rightarrow> registry \<Rightarrow> registry" where
  "drain_one e st = st\<lparr>rg_dereg_events := filter (\<lambda>r. r \<noteq> e) (rg_dereg_events st)\<rparr>"

definition drainDeregEvents :: "registry \<Rightarrow> registry \<times> aid list" where
  "drainDeregEvents st = (fold drain_one (dereg_waiting st) st, map fst (dereg_waiting st))"

end
