(* ===== verification/Registration.thy ===== *)
theory Registration
  imports Departure
begin

text \<open>
  The writes of a registration (\<open>aghub.go\<close>, \<open>putAgent\<close>) and of a pushed key history (\<open>kelpush.go\<close>),
  each one transaction, and what they run after it.
\<close>

section \<open>A new key history\<close>

text \<open>\<open>kelChangedTx\<close>: a key set not signed under the new tip and the cached notice go.\<close>

definition kelChangedTx :: "registry_core \<Rightarrow> aid \<Rightarrow> bytes \<Rightarrow> registry \<Rightarrow> registry_error + registry" where
  "kelChangedTx c a k st =
    (case kelTip c k of
      None \<Rightarrow> Inl ErrKELDecode
    | Some (tip_seq, _) \<Rightarrow>
      Inr (forgetNoticeTx a
        (case map_of (key_sets st) a of
          None \<Rightarrow> st
        | Some (_, raw) \<Rightarrow>
          if (case UnmarshalKeySet c raw of None \<Rightarrow> True | Some s \<Rightarrow> sk_key_state_seq s \<noteq> tip_seq)
          then set_key_sets (AList.delete a (key_sets st)) st else st)))"

section \<open>A registration\<close>

record admission_write =
  aw_via :: via
  aw_window :: int
  aw_now :: time_ns

definition extends_held :: "registry_core \<Rightarrow> registry \<Rightarrow> aid \<Rightarrow> kel option \<Rightarrow> registry_error + bool" where
  "extends_held c st a ext =
    (case ext of
      None \<Rightarrow> Inr False
    | Some evs \<Rightarrow>
      rbind (knownKEL c st a) (\<lambda>held.
        case held of
          None \<Rightarrow> Inr False
        | Some hk \<Rightarrow> (case ExtendsKEL c hk evs of
            Some e \<Rightarrow> Inl (ErrKELNotExtended (Some e))
          | None \<Rightarrow> Inr (length evs > length hk))))"

definition admission_of ::
  "hub_conf \<Rightarrow> time_ns \<Rightarrow> aid \<Rightarrow> bool \<Rightarrow> admission_write option \<Rightarrow> registry \<Rightarrow> registry_error + registry \<times> bool" where
  "admission_of h now a existed adm st =
    (case adm of
      None \<Rightarrow> Inr (st, False)
    | Some w \<Rightarrow>
      if aw_via w = viaRegistered then (if \<not> existed then Inl errDeregisteredMeanwhile else Inr (st, False))
      else if \<not> existed then
        (case writeAdmissionTx h now a (aw_via w) (aw_window w) (aw_now w) (rg_accounts st) of
          Inl e \<Rightarrow> Inl (AdmissionFailed e)
        | Inr ac \<Rightarrow> Inr (st\<lparr>rg_accounts := ac\<rparr>, True))
      else Inr (st, False))"

text \<open>\<open>putAgent\<close> up to its commit: the state, whether an admission was written, and whether the callbacks of
  a changed key history are to run.\<close>

definition putAgent ::
  "registry_core \<Rightarrow> hub_conf \<Rightarrow> bytes \<Rightarrow> time_ns \<Rightarrow> aid \<Rightarrow> string \<Rightarrow> string list \<Rightarrow> bytes \<Rightarrow> kel option \<Rightarrow>
   admission_write option \<Rightarrow> registry \<Rightarrow> registry_error + registry \<times> bool \<times> bool" where
  "putAgent c h draw now a name caps k ext adm st =
    (case validateCaps caps of
      Some e \<Rightarrow> Inl e
    | None \<Rightarrow>
      rbind (extends_held c st a ext) (\<lambda>longer.
        let held = AgentKEL st a;
            existed = (held \<noteq> None);
            changed = (existed \<and> held \<noteq> Some k);
            st = replace_caps a caps (upsert_agent c now a name caps k st)
        in rbind (admission_of h now a existed adm st) (\<lambda>(st, admitted).
           rbind (if changed then kelChangedTx c a k st else Inr st) (\<lambda>st.
             let st = (if changed \<or> \<not> existed then countKELChangeTx st else st);
                 st = (if longer then releaseTx a releasedLongerKEL now st else st)
             in rbind (refreshDirTx c h draw a st) (\<lambda>st. Inr (st, admitted, changed))))))"

definition PutAgent ::
  "registry_core \<Rightarrow> hub_conf \<Rightarrow> bytes \<Rightarrow> time_ns \<Rightarrow> aid \<Rightarrow> string \<Rightarrow> string list \<Rightarrow> bytes \<Rightarrow> registry \<Rightarrow>
   registry_error + registry \<times> bool \<times> bool" where
  "PutAgent c h draw now a name caps k st = putAgent c h draw now a name caps k None None st"

definition registerAgent ::
  "registry_core \<Rightarrow> hub_conf \<Rightarrow> bytes \<Rightarrow> time_ns \<Rightarrow> aid \<Rightarrow> string \<Rightarrow> string list \<Rightarrow> bytes \<Rightarrow> kel \<Rightarrow>
   admission_write option \<Rightarrow> registry \<Rightarrow> registry_error + registry \<times> bool \<times> bool" where
  "registerAgent c h draw now a name caps k events adm st =
    (if events = [] then Inl (ErrKELNotExtended None)
     else putAgent c h draw now a name caps k (Some events) adm st)"

definition RegisterAgent ::
  "registry_core \<Rightarrow> hub_conf \<Rightarrow> bytes \<Rightarrow> time_ns \<Rightarrow> aid \<Rightarrow> string \<Rightarrow> string list \<Rightarrow> bytes \<Rightarrow> kel \<Rightarrow> registry \<Rightarrow>
   registry_error + registry \<times> bool \<times> bool" where
  "RegisterAgent c h draw now a name caps k events st = registerAgent c h draw now a name caps k events None st"

section \<open>A pushed key history\<close>

record push_result =
  ps_seq :: u64
  ps_head :: string
  ps_unchanged :: bool
  ps_deregistered :: bool

text \<open>The write for an agent that is registered: its row, and what the new tip ends, or its departure.\<close>

definition push_registered ::
  "registry_core \<Rightarrow> hub_conf \<Rightarrow> bytes \<Rightarrow> time_ns \<Rightarrow> aid \<Rightarrow> bytes \<Rightarrow> bool \<Rightarrow> registry \<Rightarrow> registry_error + registry" where
  "push_registered c h draw now a raw dip st =
    (let tip = storedTip c raw;
         st = countKELChangeTx (update_agent a (\<lambda>r. r\<lparr>ag_kel := raw, ag_tip_seq := fst tip, ag_tip_head := snd tip\<rparr>) st)
     in if dip then rbind (DeregisterTx c now a DeregDip st) (\<lambda>(st, _). Inr st)
        else rbind (kelChangedTx c a raw st) (\<lambda>st.
          refreshDirTx c h draw a (releaseTx a releasedLongerKEL now st)))"

definition pushKELLocked ::
  "registry_core \<Rightarrow> hub_conf \<Rightarrow> bytes \<Rightarrow> time_ns \<Rightarrow> aid \<Rightarrow> kel \<Rightarrow> registry \<Rightarrow>
   registry_error + registry \<times> push_result \<times> bool" where
  "pushKELLocked c h draw now a k st =
    (case registrationKEL st a of (held_raw, registered) \<Rightarrow>
      (case held_raw of
        None \<Rightarrow> Inl errNoKEL
      | Some hb \<Rightarrow>
        (case UnmarshalKEL c hb of
          None \<Rightarrow> Inl ErrKELDecode
        | Some held \<Rightarrow>
          (case ExtendsKEL c held k of
            Some e \<Rightarrow> Inl (ErrKELNotExtended (Some e))
          | None \<Rightarrow>
            if k = [] then Inl RegistryPanic
            else
              (let res = \<lparr>ps_seq = EvSeq (last k), ps_head = EvEventID (last k), ps_unchanged = False, ps_deregistered = False\<rparr>;
                   dip = (EvType (last k) = Deactivation) in
               if length k = length held then Inr (st, res\<lparr>ps_unchanged := True\<rparr>, registered)
               else (case CheckNewEvents c held k (word_of_int (unix_milli now)) (firstWitness k (hubAID h)) of
                 Some e \<Rightarrow> Inl (ErrEventTime e)
               | None \<Rightarrow>
                 (case MarshalKEL c k of
                   None \<Rightarrow> Inl ErrKELEncode
                 | Some raw \<Rightarrow>
                   if registered
                   then rbind (push_registered c h draw now a raw dip st) (\<lambda>st. Inr (st, res\<lparr>ps_deregistered := dip\<rparr>, True))
                   else rbind (writeTombstone c a raw st) (\<lambda>st. Inr (st, res, False)))))))))"

text \<open>After the commit: a departure runs the callbacks of a departure; a new history of a registered agent
  runs those of a key change and checks its card again.\<close>

datatype callback = RunDeregHooks aid | RunKELHooks aid

definition PushKEL ::
  "registry_core \<Rightarrow> hub_conf \<Rightarrow> bytes \<Rightarrow> bytes \<Rightarrow> bool \<Rightarrow> time_ns \<Rightarrow> aid \<Rightarrow> kel \<Rightarrow> registry \<Rightarrow>
   registry_error + registry \<times> push_result \<times> callback list" where
  "PushKEL c h draw draw' in_process now a k st =
    rbind (pushKELLocked c h draw now a k st) (\<lambda>(st, res, registered).
      if ps_unchanged res then Inr (st, res, [])
      else if ps_deregistered res then
        (case afterDereg in_process a st of (st, as) \<Rightarrow> Inr (st, res, map RunDeregHooks as))
      else if registered then
        Inr (committed_or st (recheckA2ACard c h draw' a k now (listed_card st a) st), res, [RunKELHooks a])
      else Inr (st, res, []))"

text \<open>The checks of \<open>POST /agents/kel:push\<close> from the decoded body on (steps 2 to 6), in its order.\<close>

datatype push_refusal = PushBadRequest | PushUnknownAID | PushKELInvalid | PushStore registry_error

definition hKELPush ::
  "(aid \<Rightarrow> bool) \<Rightarrow> registry_core \<Rightarrow> hub_conf \<Rightarrow> bytes \<Rightarrow> bytes \<Rightarrow> bool \<Rightarrow> time_ns \<Rightarrow> aid \<Rightarrow> string \<Rightarrow> registry \<Rightarrow>
   push_refusal + registry \<times> push_result \<times> callback list" where
  "hKELPush validAID c h draw draw' in_process now a kel_text st =
    (if a = '''' \<or> kel_text = '''' then Inl PushBadRequest
     else if \<not> validAID a then Inl PushBadRequest
     else if \<not> holdsKEL st a then Inl PushUnknownAID
     else (case DecodeB64URL ''kel'' kel_text of
       Inl _ \<Rightarrow> Inl PushKELInvalid
     | Inr raw \<Rightarrow>
       (case ParseKEL c raw of
         None \<Rightarrow> Inl PushKELInvalid
       | Some k \<Rightarrow>
         (case Replay c k of
           None \<Rightarrow> Inl PushKELInvalid
         | Some states \<Rightarrow>
           if states = [] then Inl (PushStore RegistryPanic)
           else if StAID (last states) \<noteq> a then Inl PushKELInvalid
           else (case PushKEL c h draw draw' in_process now a k st of
             Inl errNoKEL \<Rightarrow> Inl PushUnknownAID
           | Inl e \<Rightarrow> Inl (PushStore e)
           | Inr r \<Rightarrow> Inr r)))))"

end
