(* ===== verification/Fed_Cards.thy ===== *)
theory Fed_Cards
  imports Cards
begin

text \<open>
  The receiving half of the stream of cards (\<open>fed_a2acard.go\<close>, \<open>fedstream.go\<close>): what this hub keeps of a
  card a peer hub published. A withdrawal's JSON is the pair of its action and its AID, \<open>None\<close> when it does
  not decode.
\<close>

section \<open>What is kept of an entry\<close>

definition maxRegisterBody :: nat where "maxRegisterBody = 1048576"
definition maxFedNotice :: nat where "maxFedNotice = 4096"
definition withdrawAction :: string where "withdrawAction = ''withdraw''"

record fed_entry =
  fe_card :: bytes
  fe_kel :: bytes
  fe_keys :: bytes
  fe_notice :: bytes
  fe_home :: string

datatype fed_error = FedTooLarge | FedKELMalformed | FedKELNotReplaying | FedCard card_refusal | ErrRefusedForNow
  | FedStoredKEL | FedNotExtended extends_error | FedHighWater card_code | FedMalformedWithdrawal

definition fedNoticeToStore :: "registry_core \<Rightarrow> key_state \<Rightarrow> bytes \<Rightarrow> bytes" where
  "fedNoticeToStore c tip notice =
    (if notice = [] \<or> length notice > maxFedNotice then []
     else case DecodeNotice c notice of
       None \<Rightarrow> []
     | Some b \<Rightarrow> if nb_aid b \<noteq> StAID tip \<or> nb_seq b \<noteq> StKeyStateSeq tip \<or> nb_head b \<noteq> StLastEventID tip then [] else notice)"

text \<open>The set already kept, as a floor; one signed under a retired key state is no floor.\<close>

definition fed_floor :: "registry_core \<Rightarrow> aid \<Rightarrow> signed_key_set \<Rightarrow> bytes \<Rightarrow> kel \<Rightarrow> u64 \<Rightarrow> (u64 \<times> bytes) option" where
  "fed_floor c a s stored k now =
    (case UnmarshalKeySet c stored of
      None \<Rightarrow> None
    | Some prev \<Rightarrow>
      (case DecodeEncKeySetLoose c (sk_set prev) of
        None \<Rightarrow> None
      | Some es \<Rightarrow>
        (case DecodeEncKeySetLoose c (sk_set s) of
          None \<Rightarrow> Some (ek_seq es, sk_set prev)
        | Some offered \<Rightarrow>
          if ek_seq es > ek_seq offered \<and> VerifyEncKeySet c prev a k now = Inl BadKeyState
          then None else Some (ek_seq es, sk_set prev))))"

definition fedKeysToStore :: "registry_core \<Rightarrow> aid \<Rightarrow> bytes \<Rightarrow> bytes \<Rightarrow> kel \<Rightarrow> time_ns \<Rightarrow> bytes" where
  "fedKeysToStore c a incoming stored k now =
    (if incoming = [] then stored
     else case UnmarshalKeySet c incoming of
       None \<Rightarrow> stored
     | Some s \<Rightarrow>
       (let seen = (if stored = [] then None else fed_floor c a s stored k (card_time now)) in
        case DecideHighWater c seen s of
          None \<Rightarrow> stored
        | Some d \<Rightarrow>
          if d \<noteq> HWReplace \<and> d \<noteq> HWSame then stored
          else (case VerifyEncKeySet c s a k (card_time now) of
            Inl _ \<Rightarrow> stored
          | Inr _ \<Rightarrow> (case MarshalKeySet c s of None \<Rightarrow> stored | Some canon \<Rightarrow> canon))))"

definition fedA2AHome :: "registry_core \<Rightarrow> bytes \<Rightarrow> string \<Rightarrow> string" where
  "fedA2AHome c raw entry_home = (let relay = CardRelayHub c raw in if relay = '''' then entry_home else relay)"

definition indexFedA2ACard :: "aid \<Rightarrow> card_verified \<Rightarrow> registry \<Rightarrow> registry" where
  "indexFedA2ACard a v st =
    st\<lparr>rg_fed_skills := fold (\<lambda>sk. List.insert (a, skl_id sk)) (cv_skills v) (filter (\<lambda>r. fst r \<noteq> a) (rg_fed_skills st)),
       rg_fed_tags := fold (\<lambda>sk. fold (\<lambda>t. List.insert (a, t)) (skl_tags sk)) (cv_skills v)
         (filter (\<lambda>r. fst r \<noteq> a) (rg_fed_tags st))\<rparr>"

section \<open>A card entry\<close>

definition fed_mark :: "registry_core \<Rightarrow> fed_card_row \<Rightarrow> u64 \<Rightarrow> aid \<Rightarrow> kel \<Rightarrow> time_ns \<Rightarrow> (u64 \<times> bytes) option" where
  "fed_mark c row offered a k now =
    (if length (fc_hash row) \<noteq> 32 then None
     else markUnlessRetired c (Some (fc_seq row, fc_hash row)) offered (fc_card row) a k now)"

definition store_fed_card ::
  "registry_core \<Rightarrow> aid \<Rightarrow> aid \<Rightarrow> fed_entry \<Rightarrow> kel \<Rightarrow> key_state \<Rightarrow> card_verified \<Rightarrow> bytes \<Rightarrow> time_ns \<Rightarrow> registry \<Rightarrow> registry" where
  "store_fed_card c peer a e k tip v stored_keys now st =
    indexFedA2ACard a v (st\<lparr>rg_fed_cards := AList.update a
      \<lparr>fc_seq = cv_seq v, fc_hash = cv_hash v, fc_card = fe_card e, fc_kel = fe_kel e,
       fc_keys = fedKeysToStore c a (fe_keys e) stored_keys k now, fc_notice = fedNoticeToStore c tip (fe_notice e),
       fc_home = fedA2AHome c (fe_card e) (fe_home e), fc_peer = peer, fc_name = cv_name v, fc_caps = skillIDs v,
       fc_search = cardSearchText c (fe_card e) v, fc_verified = Some (verifiedStamp now)\<rparr> (rg_fed_cards st)\<rparr>)"

text \<open>The part of \<open>AdmitFedA2ACard\<close> inside its transaction.\<close>

definition admit_fed_tx ::
  "registry_core \<Rightarrow> aid \<Rightarrow> aid \<Rightarrow> fed_entry \<Rightarrow> kel \<Rightarrow> key_state \<Rightarrow> card_verified \<Rightarrow> time_ns \<Rightarrow> registry \<Rightarrow> fed_error + registry" where
  "admit_fed_tx c peer a e k tip v now st =
    (if has_key (agents st) a then Inl ErrRefusedForNow
     else case map_of (rg_fed_cards st) a of
       None \<Rightarrow>
         (case CardHighWater c None (cv_seq v, cv_hash v) of
           Inl code \<Rightarrow> Inl (FedHighWater code)
         | Inr _ \<Rightarrow> Inr (store_fed_card c peer a e k tip v [] now st))
     | Some row \<Rightarrow>
       (case UnmarshalKEL c (fc_kel row) of
         None \<Rightarrow> Inl FedStoredKEL
       | Some old \<Rightarrow>
         (case ExtendsKEL c old k of
           Some x \<Rightarrow> Inl (FedNotExtended x)
         | None \<Rightarrow>
           (case CardHighWater c (fed_mark c row (cv_seq v) a k now) (cv_seq v, cv_hash v) of
             Inl code \<Rightarrow> Inl (FedHighWater code)
           | Inr decision \<Rightarrow>
             if decision = HWSame \<and> fc_verified row \<noteq> None \<and> peer \<noteq> fc_peer row then Inr st
             else Inr (store_fed_card c peer a e k tip v (fc_keys row) now st)))))"

definition AdmitFedA2ACard :: "registry_core \<Rightarrow> aid \<Rightarrow> fed_entry \<Rightarrow> time_ns \<Rightarrow> registry \<Rightarrow> fed_error + registry" where
  "AdmitFedA2ACard c peer e now st =
    (if length (fe_kel e) > maxRegisterBody then Inl FedTooLarge
     else
       (let e = (if length (fe_keys e) > maxRegisterBody then e\<lparr>fe_keys := []\<rparr> else e) in
        case UnmarshalKEL c (fe_kel e) of
          None \<Rightarrow> Inl FedKELMalformed
        | Some k \<Rightarrow>
          (case Replay c k of
            None \<Rightarrow> Inl FedKELNotReplaying
          | Some states \<Rightarrow>
            if states = [] then Inl FedKELNotReplaying
            else (let tip = last states; a = StAID tip in
              case verifyA2ACardFor c a (fe_card e) k now of
                Inl r \<Rightarrow> Inl (FedCard r)
              | Inr v \<Rightarrow> admit_fed_tx c peer a e k tip v now st))))"

section \<open>A withdrawal\<close>

definition retireFedA2ACard :: "aid \<Rightarrow> (string \<times> aid) option \<Rightarrow> registry \<Rightarrow> fed_error + registry" where
  "retireFedA2ACard peer w st =
    (case w of
      None \<Rightarrow> Inl FedMalformedWithdrawal
    | Some (action, a) \<Rightarrow>
      if action \<noteq> withdrawAction \<or> a = '''' then Inl FedMalformedWithdrawal
      else (case map_of (rg_fed_cards st) a of
        None \<Rightarrow> Inr st
      | Some row \<Rightarrow>
        if fc_peer row \<noteq> peer \<or> fc_verified row = None then Inr st
        else Inr (st\<lparr>rg_fed_cards := AList.update a (row\<lparr>fc_verified := None, fc_keys := [], fc_notice := []\<rparr>) (rg_fed_cards st),
                     rg_fed_skills := filter (\<lambda>r. fst r \<noteq> a) (rg_fed_skills st),
                     rg_fed_tags := filter (\<lambda>r. fst r \<noteq> a) (rg_fed_tags st)\<rparr>)))"

definition HomeHubOf :: "registry \<Rightarrow> aid \<Rightarrow> string" where
  "HomeHubOf st a = (case map_of (rg_fed_cards st) a of
      None \<Rightarrow> '''' | Some row \<Rightarrow> if fc_verified row = None then '''' else fc_home row)"

definition FedA2ACardKeys :: "registry \<Rightarrow> aid \<Rightarrow> (bytes \<times> bytes) option" where
  "FedA2ACardKeys st a = (case map_of (rg_fed_cards st) a of
      None \<Rightarrow> None
    | Some row \<Rightarrow> if fc_verified row = None \<or> fc_keys row = [] then None else Some (fc_keys row, fc_kel row))"

end
