(* ===== verification/Registry_Laws.thy ===== *)
theory Registry_Laws
  imports Registration Fed_Cards
begin

text \<open>
  What the operations leave alone. An operation that is not about a key history keeps the histories
  held (\<open>same_kels\<close>), the registered AIDs, and the columns that admission reads; these frames are what
  the theorems about a run rest on.
\<close>

section \<open>Frames\<close>

definition same_kels :: "registry \<Rightarrow> registry \<Rightarrow> bool" where
  "same_kels st st' \<longleftrightarrow> AgentKEL st' = AgentKEL st \<and> rg_departed st' = rg_departed st"

named_theorems kel_frames \<open>operations that keep the key histories held\<close>

lemma same_kels_refl [simp, intro]: "same_kels st st"
  by (simp add: same_kels_def)

lemma same_kels_trans [trans]: "same_kels s t \<Longrightarrow> same_kels t u \<Longrightarrow> same_kels s u"
  by (simp add: same_kels_def)

lemma same_kels_update_agent [kel_frames]:
  "(\<And>r. ag_kel (f r) = ag_kel r) \<Longrightarrow> same_kels st (update_agent a f st)"
  by (auto simp: same_kels_def AgentKEL_def map_of_update_agent option.map_comp fun_eq_iff comp_def)

lemma AgentKEL_accounts: "ac_agents (rg_accounts st) = ac_agents (rg_accounts st') \<Longrightarrow> AgentKEL st = AgentKEL st'"
  by (simp add: AgentKEL_def agents_def fun_eq_iff)

lemma AgentKEL_cong: "agents st = agents st' \<Longrightarrow> AgentKEL st = AgentKEL st'"
  by (simp add: AgentKEL_def fun_eq_iff)

lemma agents_field_updates [simp]:
  "agents (st\<lparr>rg_caps := x1\<rparr>) = agents st" "agents (st\<lparr>rg_departed := x2\<rparr>) = agents st"
  "agents (st\<lparr>rg_relay := x3\<rparr>) = agents st" "agents (st\<lparr>rg_revoked := x4\<rparr>) = agents st"
  "agents (st\<lparr>rg_quota := x5\<rparr>) = agents st" "agents (st\<lparr>rg_notices := x6\<rparr>) = agents st"
  "agents (st\<lparr>rg_cards := x7\<rparr>) = agents st" "agents (st\<lparr>rg_skills := x8\<rparr>) = agents st"
  "agents (st\<lparr>rg_tags := x9\<rparr>) = agents st" "agents (st\<lparr>rg_withdrawals := x10\<rparr>) = agents st"
  "agents (st\<lparr>rg_fed_head := x11\<rparr>) = agents st" "agents (st\<lparr>rg_restore := x12\<rparr>) = agents st"
  "agents (st\<lparr>rg_released := x13\<rparr>) = agents st" "agents (st\<lparr>rg_kel_changes := x14\<rparr>) = agents st"
  "agents (st\<lparr>rg_dereg_events := x15\<rparr>) = agents st" "agents (st\<lparr>rg_reviewed := x16\<rparr>) = agents st"
  "agents (st\<lparr>rg_fed_cards := x17\<rparr>) = agents st" "agents (st\<lparr>rg_fed_skills := x18\<rparr>) = agents st"
  "agents (st\<lparr>rg_fed_tags := x19\<rparr>) = agents st" "agents (set_key_sets x20 st) = agents st"
  "agents (set_admitted x21 st) = agents st"
  by (simp_all add: agents_def set_key_sets_def set_admitted_def)

lemma key_sets_field_updates [simp]:
  "key_sets (st\<lparr>rg_accounts := x0\<rparr>) = key_sets st" "key_sets (st\<lparr>rg_caps := x1\<rparr>) = key_sets st"
  "key_sets (st\<lparr>rg_departed := x2\<rparr>) = key_sets st" "key_sets (st\<lparr>rg_revoked := x3\<rparr>) = key_sets st"
  "key_sets (st\<lparr>rg_quota := x4\<rparr>) = key_sets st" "key_sets (st\<lparr>rg_notices := x5\<rparr>) = key_sets st"
  "key_sets (st\<lparr>rg_cards := x6\<rparr>) = key_sets st" "key_sets (st\<lparr>rg_skills := x7\<rparr>) = key_sets st"
  "key_sets (st\<lparr>rg_tags := x8\<rparr>) = key_sets st" "key_sets (st\<lparr>rg_withdrawals := x9\<rparr>) = key_sets st"
  "key_sets (st\<lparr>rg_fed_head := x10\<rparr>) = key_sets st" "key_sets (st\<lparr>rg_restore := x11\<rparr>) = key_sets st"
  "key_sets (st\<lparr>rg_released := x12\<rparr>) = key_sets st" "key_sets (st\<lparr>rg_kel_changes := x13\<rparr>) = key_sets st"
  "key_sets (st\<lparr>rg_dereg_events := x14\<rparr>) = key_sets st" "key_sets (st\<lparr>rg_reviewed := x15\<rparr>) = key_sets st"
  "key_sets (st\<lparr>rg_fed_cards := x16\<rparr>) = key_sets st" "key_sets (st\<lparr>rg_fed_skills := x17\<rparr>) = key_sets st"
  "key_sets (st\<lparr>rg_fed_tags := x18\<rparr>) = key_sets st" "key_sets (st\<lparr>rg_relay := y\<rparr>) = agent_keys y"
  by (simp_all add: key_sets_def)

lemma AgentKEL_field_updates [simp]:
  "AgentKEL (st\<lparr>rg_caps := x1\<rparr>) = AgentKEL st" "AgentKEL (st\<lparr>rg_departed := x2\<rparr>) = AgentKEL st"
  "AgentKEL (st\<lparr>rg_relay := x3\<rparr>) = AgentKEL st" "AgentKEL (st\<lparr>rg_revoked := x4\<rparr>) = AgentKEL st"
  "AgentKEL (st\<lparr>rg_quota := x5\<rparr>) = AgentKEL st" "AgentKEL (st\<lparr>rg_notices := x6\<rparr>) = AgentKEL st"
  "AgentKEL (st\<lparr>rg_cards := x7\<rparr>) = AgentKEL st" "AgentKEL (st\<lparr>rg_skills := x8\<rparr>) = AgentKEL st"
  "AgentKEL (st\<lparr>rg_tags := x9\<rparr>) = AgentKEL st" "AgentKEL (st\<lparr>rg_withdrawals := x10\<rparr>) = AgentKEL st"
  "AgentKEL (st\<lparr>rg_fed_head := x11\<rparr>) = AgentKEL st" "AgentKEL (st\<lparr>rg_restore := x12\<rparr>) = AgentKEL st"
  "AgentKEL (st\<lparr>rg_released := x13\<rparr>) = AgentKEL st" "AgentKEL (st\<lparr>rg_kel_changes := x14\<rparr>) = AgentKEL st"
  "AgentKEL (st\<lparr>rg_dereg_events := x15\<rparr>) = AgentKEL st" "AgentKEL (st\<lparr>rg_reviewed := x16\<rparr>) = AgentKEL st"
  "AgentKEL (st\<lparr>rg_fed_cards := x17\<rparr>) = AgentKEL st" "AgentKEL (st\<lparr>rg_fed_skills := x18\<rparr>) = AgentKEL st"
  "AgentKEL (st\<lparr>rg_fed_tags := x19\<rparr>) = AgentKEL st" "AgentKEL (set_key_sets x20 st) = AgentKEL st"
  "AgentKEL (set_admitted x21 st) = AgentKEL st"
  by (simp_all add: AgentKEL_def fun_eq_iff)

lemma departed_set_key_sets [simp]: "rg_departed (set_key_sets t st) = rg_departed st" "rg_departed (set_admitted u st) = rg_departed st"
  by (simp_all add: set_key_sets_def set_admitted_def)

lemma same_kels_small [kel_frames]:
  "same_kels st (countKELChangeTx st)" "same_kels st (forgetNoticeTx a st)" "same_kels st (releaseTx a how now st)"
  "same_kels st (withdrawA2ACard a why st)" "same_kels st (clearA2AWithdrawal a st)" "same_kels st (set_card a cd st)"
  "same_kels st (drop_card_index a st)"
  by (simp_all add: same_kels_def countKELChangeTx_def forgetNoticeTx_def releaseTx_def withdrawA2ACard_def
      nextA2AFedSeq_def clearA2AWithdrawal_def set_card_def drop_card_index_def split: option.split)

lemma same_kels_bump [kel_frames]: "same_kels st (bumpA2ACard a st)"
  by (simp add: same_kels_def bumpA2ACard_def nextA2AFedSeq_def clearA2AWithdrawal_def set_card_def split: option.split)

lemma same_kels_visibility [kel_frames]: "same_kels st (a2aVisibilityChanged a u v st)"
  by (simp add: a2aVisibilityChanged_def kel_frames)

lemma same_kels_index [kel_frames]: "same_kels st (indexA2ACard a v st)"
  unfolding indexA2ACard_def
  by (rule same_kels_trans [OF _ same_kels_update_agent]) (simp_all add: same_kels_def)

lemma same_kels_refreshDir [kel_frames]: "refreshDirTx c h draw a st = Inr st' \<Longrightarrow> same_kels st st'"
  by (auto simp: refreshDirTx_def Let_def intro: same_kels_update_agent split: option.splits if_splits)

lemma same_kels_store [kel_frames]: "same_kels st (storeAdmittedA2ACard c a raw v now st)"
  "same_kels st (relist_card a cd v now st)"
  unfolding storeAdmittedA2ACard_def relist_card_def nextA2AFedSeq_def prod.case
  by (rule same_kels_trans [OF _ same_kels_small(5)], rule same_kels_trans [OF _ same_kels_index],
      rule same_kels_trans [OF _ same_kels_small(6)], simp add: same_kels_def)+

lemma same_kels_delist [kel_frames]: "same_kels st (delist_card a cd st)"
proof -
  define u where "u = set_card a (cd\<lparr>cd_verified := None, cd_fed_seq := next_fed_seq st\<rparr>)
    (drop_card_index a (st\<lparr>rg_fed_head := next_fed_seq st\<rparr>))"
  have "same_kels st u" by (simp add: u_def same_kels_def set_card_def drop_card_index_def)
  moreover have "same_kels u (withdrawA2ACard a withdrawDelisted u)" by (rule kel_frames)
  ultimately show ?thesis
    by (auto simp: delist_card_def nextA2AFedSeq_def u_def [symmetric] intro: same_kels_trans)
qed

lemma same_kels_recheck [kel_frames]: "recheckA2ACard c h draw a k now seen st = Inr st' \<Longrightarrow> same_kels st st'"
  by (auto simp: recheckA2ACard_def split: option.splits if_splits sum.splits
      intro: same_kels_trans [OF same_kels_delist same_kels_refreshDir] same_kels_trans [OF same_kels_small(6) same_kels_index])

lemma same_kels_admit_card [kel_frames]: "AdmitA2ACard c h draw a raw k now st = (st', r) \<Longrightarrow> same_kels st st'"
  by (auto simp: AdmitA2ACard_def Let_def split: if_splits sum.splits prod.splits option.splits
      intro: same_kels_trans [OF same_kels_store(1) same_kels_refreshDir] same_kels_trans [OF same_kels_store(2) same_kels_refreshDir]
        same_kels_refreshDir)

lemma same_kels_withdraw_card [kel_frames]:
  assumes "WithdrawA2ACard c h draw a st = Inr st'"
  shows "same_kels st st'"
proof -
  define u where "u = (if agentFederates st a then withdrawA2ACard a withdrawReasonAgent st else st)"
  have "same_kels st u" by (simp add: u_def kel_frames)
  also have "same_kels u (drop_card_index a (u\<lparr>rg_cards := AList.delete a (rg_cards u)\<rparr>))"
    by (simp add: same_kels_def drop_card_index_def)
  also have "same_kels \<dots> st'"
    by (rule same_kels_refreshDir) (use assms in \<open>simp add: WithdrawA2ACard_def u_def Let_def\<close>)
  finally show ?thesis .
qed

lemma same_kels_store_keys [kel_frames]:
  assumes "store_key_set c h draw a es canon rose st = Inr st'"
  shows "same_kels st st'"
proof -
  define u where "u = set_key_sets (AList.update a (ek_seq es, canon) (key_sets st)) st"
  define w where "w = (if agentFederates u a then bumpA2ACard a u else u)"
  have "rbind (refreshDirTx c h draw a w) (\<lambda>x. Inr (if rose then x\<lparr>rg_revoked := delete_owner a (rg_revoked x)\<rparr> else x)) = Inr st'"
    using assms by (simp only: store_key_set_def Let_def u_def w_def)
  then obtain x where x: "refreshDirTx c h draw a w = Inr x" "st' = (if rose then x\<lparr>rg_revoked := delete_owner a (rg_revoked x)\<rparr> else x)"
    unfolding rbind_eq_Inr by blast
  have "same_kels st u" by (simp add: u_def same_kels_def)
  also have "same_kels u w" by (simp add: w_def kel_frames)
  also have "same_kels w x" by (rule same_kels_refreshDir [OF x(1)])
  also have "same_kels x st'" by (simp add: x(2) same_kels_def)
  finally show ?thesis .
qed

definition stored_mbox :: "registry_core \<Rightarrow> ((u64 \<times> bytes) \<times> bytes) option \<Rightarrow> registry_error + mbox option" where
  "stored_mbox c seen = (case seen of
      None \<Rightarrow> Inr None
    | Some ((_, set_bytes), _) \<Rightarrow> (case mboxOf c set_bytes of None \<Rightarrow> Inl ErrStoredKeySet | Some m \<Rightarrow> Inr (Some m)))"

lemma PublishKeys_Inr:
  assumes "PublishKeys c h draw a raw prev_seq k now st = Inr (st', status, rose)"
  obtains s canon seen decision es prev where
    "UnmarshalKeySet c raw = Some s" "MarshalKeySet c s = Some canon" "storedKeys c st a = Inr seen"
    "followsStored c (map_option fst seen) s prev_seq = Inr decision"
    "VerifyEncKeySet c s a k (word_of_int (unix_milli now)) = Inr es" "stored_mbox c seen = Inr prev"
    "checkMboxEpoch prev (ek_mbox es) = None" "uint (ek_seq es) \<le> max_int64"
    "if decision = HWSame \<and> map_option snd seen = Some canon then st' = st \<and> status = KeysStatusUnchanged
     else rose = (case prev of None \<Rightarrow> False | Some p \<Rightarrow> mb_epoch (ek_mbox es) > mb_epoch p) \<and>
       store_key_set c h draw a es canon rose st = Inr st' \<and> status = KeysStatusOK"
proof -
  note A = assms [unfolded PublishKeys_def]
  obtain s where s: "UnmarshalKeySet c raw = Some s" using A by (cases "UnmarshalKeySet c raw") simp_all
  note A = A [unfolded s option.case]
  obtain canon where canon: "MarshalKeySet c s = Some canon" using A by (cases "MarshalKeySet c s") simp_all
  note A = A [unfolded canon option.case]
  obtain seen where seen: "storedKeys c st a = Inr seen" using A by (cases "storedKeys c st a") simp_all
  note A = A [unfolded seen rbind_simps]
  obtain d where d: "followsStored c (map_option fst seen) s prev_seq = Inr d"
    using A by (cases "followsStored c (map_option fst seen) s prev_seq") simp_all
  note A = A [unfolded d rbind_simps]
  obtain es where es: "VerifyEncKeySet c s a k (word_of_int (unix_milli now)) = Inr es"
    using A by (cases "VerifyEncKeySet c s a k (word_of_int (unix_milli now))") simp_all
  note A = A [unfolded es sum.case, folded stored_mbox_def]
  obtain prev where prev: "stored_mbox c seen = Inr prev" using A by (cases "stored_mbox c seen") simp_all
  note A = A [unfolded prev rbind_simps]
  have ok: "checkMboxEpoch prev (ek_mbox es) = None" using A by (cases "checkMboxEpoch prev (ek_mbox es)") simp_all
  note A = A [unfolded ok option.case]
  have le: "uint (ek_seq es) \<le> max_int64" using A by (simp split: if_splits)
  have last: "if d = HWSame \<and> map_option snd seen = Some canon then st' = st \<and> status = KeysStatusUnchanged
     else rose = (case prev of None \<Rightarrow> False | Some p \<Rightarrow> mb_epoch (ek_mbox es) > mb_epoch p) \<and>
       store_key_set c h draw a es canon rose st = Inr st' \<and> status = KeysStatusOK"
    using A le by (cases "d = HWSame \<and> map_option snd seen = Some canon") (auto simp: Let_def rbind_eq_Inr)
  from that [OF s canon seen d es prev ok le last] show ?thesis .
qed

lemma PublishKeys_cases:
  assumes "PublishKeys c h draw a raw prev_seq k now st = Inr (st', status, rose)"
  obtains (same) "st' = st" "status = KeysStatusUnchanged"
  | (stored) s canon es where "UnmarshalKeySet c raw = Some s" "MarshalKeySet c s = Some canon"
      "VerifyEncKeySet c s a k (word_of_int (unix_milli now)) = Inr es"
      "store_key_set c h draw a es canon rose st = Inr st'" "status = KeysStatusOK"
proof -
  obtain s canon es decision and seen :: "((u64 \<times> bytes) \<times> bytes) option" and prev :: "mbox option" where A:
    "UnmarshalKeySet c raw = Some s" "MarshalKeySet c s = Some canon"
    "VerifyEncKeySet c s a k (word_of_int (unix_milli now)) = Inr es"
    "if decision = HWSame \<and> map_option snd seen = Some canon then st' = st \<and> status = KeysStatusUnchanged
     else rose = (case prev of None \<Rightarrow> False | Some p \<Rightarrow> mb_epoch (ek_mbox es) > mb_epoch p) \<and>
       store_key_set c h draw a es canon rose st = Inr st' \<and> status = KeysStatusOK"
    by (rule PublishKeys_Inr [OF assms]) (rule that)
  show ?thesis
  proof (cases "decision = HWSame \<and> map_option snd seen = Some canon")
    case True
    with A(4) show ?thesis by (intro same) simp_all
  next
    case False
    then have "store_key_set c h draw a es canon rose st = Inr st' \<and> status = KeysStatusOK"
      using A(4) if_not_P [OF False] by metis
    then show ?thesis by (intro stored [OF A(1-3)]) simp_all
  qed
qed

lemma same_kels_publish [kel_frames]:
  "PublishKeys c h draw a raw prev_seq k now st = Inr (st', status, rose) \<Longrightarrow> same_kels st st'"
  by (erule PublishKeys_cases) (auto intro: same_kels_store_keys)

lemma same_kels_notice [kel_frames]:
  assumes "NoticeFor c h draw now a seen st = Inr (st', ans)"
  shows "same_kels st st'"
proof -
  have issue: "same_kels st x" if issued: "issueNoticeTx c h now a st = Inr (x, y)" for x y
  proof -
    obtain j where "judgeNotice c h now a st = Inr j" using issued by (auto simp: issueNoticeTx_def rbind_eq_Inr)
    with issued show ?thesis
      by (cases j) (auto simp: issueNoticeTx_def same_kels_def split: option.splits)
  qed
  have tx: "same_kels st st'" if notice: "notice_tx c h draw now a st = Inr (st', ans)"
  proof -
    obtain x ans' issued where x: "issueNoticeTx c h now a st = Inr (x, ans', issued)"
      using notice by (cases "issueNoticeTx c h now a st") (auto simp: notice_tx_def)
    show ?thesis
    proof (cases issued)
      case True
      with notice x have "refreshDirTx c h draw a x = Inr st'" by (auto simp: notice_tx_def rbind_eq_Inr)
      with issue [OF x] show ?thesis by (blast intro: same_kels_trans same_kels_refreshDir)
    qed (use notice x in \<open>auto simp: notice_tx_def\<close>)
  qed
  obtain j where "judgeNotice c h now a seen = Inr j" using assms by (auto simp: NoticeFor_def rbind_eq_Inr)
  with assms tx show ?thesis by (cases j) (auto simp: NoticeFor_def split: option.splits)
qed

end
