(* ===== verification/Departure_Laws.thy ===== *)
theory Departure_Laws
  imports Registry_Laws
begin

text \<open>
  What a deregistration does to every table, as equations on the fields of the state, and what it
  asks of a tombstone already kept.
\<close>

section \<open>The steps together\<close>

definition dereg_fold :: "aid \<Rightarrow> string \<Rightarrow> registry \<Rightarrow> registry" where
  "dereg_fold a v st = fold (\<lambda>step. step a v) deregSteps st"

lemma dereg_fold_eq:
  "dereg_fold a v st =
    (let st = (if federates v then withdrawA2ACard a withdrawDeparted st else st);
         st = st\<lparr>rg_caps := delete_rows a (rg_caps st), rg_cards := AList.delete a (rg_cards st),
                 rg_skills := delete_rows a (rg_skills st), rg_tags := delete_rows a (rg_tags st),
                 rg_relay := (rg_relay st)\<lparr>agent_keys := AList.delete a (key_sets st),
                   messages := filter (\<lambda>m. rm_to m \<noteq> a) (messages (rg_relay st))\<rparr>,
                 rg_revoked := delete_owner a (rg_revoked st), rg_notices := AList.delete a (rg_notices st),
                 rg_released := AList.delete a (rg_released st)\<rparr>
     in set_agents (AList.delete a (agents st)) st)"
  by (simp add: dereg_fold_def deregSteps_def Let_def set_key_sets_def key_sets_def)

lemma withdrawA2ACard_sel [simp]:
  "rg_accounts (withdrawA2ACard a w st) = rg_accounts st" "rg_caps (withdrawA2ACard a w st) = rg_caps st"
  "rg_departed (withdrawA2ACard a w st) = rg_departed st" "rg_relay (withdrawA2ACard a w st) = rg_relay st"
  "rg_revoked (withdrawA2ACard a w st) = rg_revoked st" "rg_quota (withdrawA2ACard a w st) = rg_quota st"
  "rg_notices (withdrawA2ACard a w st) = rg_notices st" "rg_cards (withdrawA2ACard a w st) = rg_cards st"
  "rg_skills (withdrawA2ACard a w st) = rg_skills st" "rg_tags (withdrawA2ACard a w st) = rg_tags st"
  "rg_restore (withdrawA2ACard a w st) = rg_restore st" "rg_released (withdrawA2ACard a w st) = rg_released st"
  "rg_kel_changes (withdrawA2ACard a w st) = rg_kel_changes st" "rg_dereg_events (withdrawA2ACard a w st) = rg_dereg_events st"
  "rg_reviewed (withdrawA2ACard a w st) = rg_reviewed st" "rg_fed_cards (withdrawA2ACard a w st) = rg_fed_cards st"
  "rg_fed_skills (withdrawA2ACard a w st) = rg_fed_skills st" "rg_fed_tags (withdrawA2ACard a w st) = rg_fed_tags st"
  "agents (withdrawA2ACard a w st) = agents st" "key_sets (withdrawA2ACard a w st) = key_sets st"
  by (simp_all add: withdrawA2ACard_def nextA2AFedSeq_def agents_def key_sets_def)

lemma dereg_fold_sel:
  "agents (dereg_fold a v st) = AList.delete a (agents st)"
  "ac_admitted (rg_accounts (dereg_fold a v st)) = ac_admitted (rg_accounts st)"
  "ac_ledger (rg_accounts (dereg_fold a v st)) = ac_ledger (rg_accounts st)"
  "ac_windows (rg_accounts (dereg_fold a v st)) = ac_windows (rg_accounts st)"
  "rg_caps (dereg_fold a v st) = delete_rows a (rg_caps st)"
  "rg_departed (dereg_fold a v st) = rg_departed st"
  "messages (rg_relay (dereg_fold a v st)) = filter (\<lambda>m. rm_to m \<noteq> a) (messages (rg_relay st))"
  "rg_revoked (dereg_fold a v st) = delete_owner a (rg_revoked st)"
  "rg_quota (dereg_fold a v st) = rg_quota st"
  "rg_notices (dereg_fold a v st) = AList.delete a (rg_notices st)"
  "rg_cards (dereg_fold a v st) = AList.delete a (rg_cards st)"
  "rg_skills (dereg_fold a v st) = delete_rows a (rg_skills st)"
  "rg_tags (dereg_fold a v st) = delete_rows a (rg_tags st)"
  "rg_restore (dereg_fold a v st) = rg_restore st"
  "rg_released (dereg_fold a v st) = AList.delete a (rg_released st)"
  "rg_kel_changes (dereg_fold a v st) = rg_kel_changes st"
  "rg_dereg_events (dereg_fold a v st) = rg_dereg_events st"
  "rg_reviewed (dereg_fold a v st) = rg_reviewed st"
  "rg_fed_cards (dereg_fold a v st) = rg_fed_cards st"
  "rg_withdrawals (dereg_fold a v st) = rg_withdrawals (if federates v then withdrawA2ACard a withdrawDeparted st else st)"
  "rg_fed_head (dereg_fold a v st) = rg_fed_head (if federates v then withdrawA2ACard a withdrawDeparted st else st)"
  by (simp_all add: dereg_fold_eq Let_def)

lemma dereg_fold_key_sets: "key_sets (dereg_fold a v st) = AList.delete a (key_sets st)"
  by (simp add: dereg_fold_eq Let_def)

lemma dereg_fold_mode:
  "ac_mode (rg_accounts (dereg_fold a v st)) = ac_mode (rg_accounts st)"
  "ac_window_seq (rg_accounts (dereg_fold a v st)) = ac_window_seq (rg_accounts st)"
  by (simp_all add: dereg_fold_eq Let_def set_agents_def)

section \<open>The whole transaction\<close>

definition tombstone_grows :: "registry_core \<Rightarrow> registry \<Rightarrow> aid \<Rightarrow> bytes \<Rightarrow> bool" where
  "tombstone_grows c st a k \<longleftrightarrow> (case map_of (rg_departed st) a of
      None \<Rightarrow> True
    | Some held \<Rightarrow> \<exists>old nxt. UnmarshalKEL c held = Some old \<and> UnmarshalKEL c k = Some nxt \<and> ExtendsKEL c old nxt = None)"

lemma writeTombstone_Inr:
  "writeTombstone c a k st = Inr st' \<longleftrightarrow> tombstone_grows c st a k \<and>
     st' = countKELChangeTx (st\<lparr>rg_departed := AList.update a k (rg_departed st)\<rparr>)"
  by (auto simp: writeTombstone_def tombstone_grows_def Let_def split: option.splits)

lemma DeregisterTx_Inr:
  assumes "DeregisterTx c now a why st = Inr (st', d)"
  obtains r where "map_of (agents st) a = Some r" "tombstone_grows c st a (ag_kel r)"
    "st' = (let u = dereg_fold a (ag_visibility r) (countKELChangeTx (st\<lparr>rg_departed := AList.update a (ag_kel r) (rg_departed st)\<rparr>));
                u = (if why = DeregRevoked \<or> why = DeregOperator
                     then (set_admitted (AList.delete a (ac_admitted (rg_accounts u))) u)\<lparr>rg_quota := AList.delete a (rg_quota u)\<rparr> else u)
            in u\<lparr>rg_dereg_events := AList.update a (unix_milli now) (rg_dereg_events u)\<rparr>)"
    "dr_balance d = row_or (balances (ac_ledger (rg_accounts st))) a 0"
    "dr_undelivered d = length (filter (\<lambda>m. rm_to m = a) (messages (rg_relay st)))"
    "why \<in> {DeregSelf, DeregDip, DeregRevoked, DeregInactive, DeregOperator}"
proof -
  have why: "why \<in> {DeregSelf, DeregDip, DeregRevoked, DeregInactive, DeregOperator}"
    using assms by (simp add: DeregisterTx_def split: if_splits)
  obtain r where r: "map_of (agents st) a = Some r"
    using assms why by (cases "map_of (agents st) a") (simp_all add: DeregisterTx_def split: if_splits)
  define t where "t = countKELChangeTx (st\<lparr>rg_departed := AList.update a (ag_kel r) (rg_departed st)\<rparr>)"
  have w: "writeTombstone c a (ag_kel r) st = Inr t"
    using assms why r by (cases "writeTombstone c a (ag_kel r) st") (auto simp: DeregisterTx_def writeTombstone_Inr t_def split: if_splits)
  have tg: "tombstone_grows c st a (ag_kel r)" using w by (simp add: writeTombstone_Inr)
  have keep: "ac_ledger (rg_accounts t) = ac_ledger (rg_accounts st)" "messages (rg_relay t) = messages (rg_relay st)"
    by (simp_all add: t_def countKELChangeTx_def)
  show ?thesis
    by (rule that [OF r tg _ _ _ why]) (use assms why r w in \<open>auto simp: DeregisterTx_def Let_def dereg_fold_def [symmetric]
      t_def [symmetric] dereg_fold_sel keep set_admitted_def split: if_splits\<close>)
qed

text \<open>To the mailboxes a deregistration is \<open>dropMailbox\<close>.\<close>

lemma DeregisterTx_relay:
  "DeregisterTx c now a why st = Inr (st', d) \<Longrightarrow> rg_relay st' = dropMailbox a (rg_relay st)"
proof (erule DeregisterTx_Inr)
  fix r
  assume "st' = (let u = dereg_fold a (ag_visibility r) (countKELChangeTx (st\<lparr>rg_departed := AList.update a (ag_kel r) (rg_departed st)\<rparr>));
                u = (if why = DeregRevoked \<or> why = DeregOperator
                     then (set_admitted (AList.delete a (ac_admitted (rg_accounts u))) u)\<lparr>rg_quota := AList.delete a (rg_quota u)\<rparr> else u)
            in u\<lparr>rg_dereg_events := AList.update a (unix_milli now) (rg_dereg_events u)\<rparr>)"
  then show ?thesis
    by (simp add: dereg_fold_eq Let_def set_admitted_def dropMailbox_def countKELChangeTx_def key_sets_def set_agents_def
        split: if_split_asm)
qed

lemma DeregisterTx_runs:
  assumes "why \<in> {DeregSelf, DeregDip, DeregRevoked, DeregInactive, DeregOperator}" "map_of (agents st) a = Some r"
    "tombstone_grows c st a (ag_kel r)"
  shows "\<exists>st' d. DeregisterTx c now a why st = Inr (st', d)"
proof -
  have "writeTombstone c a (ag_kel r) st = Inr (countKELChangeTx (st\<lparr>rg_departed := AList.update a (ag_kel r) (rg_departed st)\<rparr>))"
    using assms(3) by (simp add: writeTombstone_Inr)
  with assms(1,2) show ?thesis by (simp add: DeregisterTx_def Let_def)
qed

lemma set_admitted_sel [simp]:
  "rg_caps (set_admitted t st) = rg_caps st" "rg_relay (set_admitted t st) = rg_relay st"
  "rg_revoked (set_admitted t st) = rg_revoked st" "rg_quota (set_admitted t st) = rg_quota st"
  "rg_notices (set_admitted t st) = rg_notices st" "rg_cards (set_admitted t st) = rg_cards st"
  "rg_skills (set_admitted t st) = rg_skills st" "rg_tags (set_admitted t st) = rg_tags st"
  "rg_withdrawals (set_admitted t st) = rg_withdrawals st" "rg_fed_head (set_admitted t st) = rg_fed_head st"
  "rg_restore (set_admitted t st) = rg_restore st" "rg_released (set_admitted t st) = rg_released st"
  "rg_kel_changes (set_admitted t st) = rg_kel_changes st" "rg_dereg_events (set_admitted t st) = rg_dereg_events st"
  "rg_reviewed (set_admitted t st) = rg_reviewed st" "rg_fed_cards (set_admitted t st) = rg_fed_cards st"
  "key_sets (set_admitted t st) = key_sets st" "ac_admitted (rg_accounts (set_admitted t st)) = t"
  "ac_ledger (rg_accounts (set_admitted t st)) = ac_ledger (rg_accounts st)"
  "ac_windows (rg_accounts (set_admitted t st)) = ac_windows (rg_accounts st)"
  by (simp_all add: set_admitted_def key_sets_def)

text \<open>The state after a deregistration, table by table.\<close>

lemma DeregisterTx_tables:
  assumes "DeregisterTx c now a why st = Inr (st', d)"
  obtains r where "map_of (agents st) a = Some r" "tombstone_grows c st a (ag_kel r)"
    "agents st' = AList.delete a (agents st)" "rg_departed st' = AList.update a (ag_kel r) (rg_departed st)"
    "rg_caps st' = delete_rows a (rg_caps st)" "key_sets st' = AList.delete a (key_sets st)"
    "rg_cards st' = AList.delete a (rg_cards st)" "rg_skills st' = delete_rows a (rg_skills st)"
    "rg_tags st' = delete_rows a (rg_tags st)"
    "messages (rg_relay st') = filter (\<lambda>m. rm_to m \<noteq> a) (messages (rg_relay st))"
    "rg_revoked st' = delete_owner a (rg_revoked st)" "rg_notices st' = AList.delete a (rg_notices st)"
    "rg_released st' = AList.delete a (rg_released st)" "rg_restore st' = rg_restore st"
    "rg_kel_changes st' = rg_kel_changes st + 1" "ac_ledger (rg_accounts st') = ac_ledger (rg_accounts st)"
    "rg_reviewed st' = rg_reviewed st" "rg_dereg_events st' = AList.update a (unix_milli now) (rg_dereg_events st)"
    "rg_fed_cards st' = rg_fed_cards st"
    "ac_admitted (rg_accounts st') = (if why = DeregRevoked \<or> why = DeregOperator
       then AList.delete a (ac_admitted (rg_accounts st)) else ac_admitted (rg_accounts st))"
    "rg_quota st' = (if why = DeregRevoked \<or> why = DeregOperator then AList.delete a (rg_quota st) else rg_quota st)"
    "rg_withdrawals st' = rg_withdrawals (if federates (ag_visibility r) then withdrawA2ACard a withdrawDeparted st else st)"
    "rg_fed_head st' = rg_fed_head (if federates (ag_visibility r) then withdrawA2ACard a withdrawDeparted st else st)"
    "ac_windows (rg_accounts st') = ac_windows (rg_accounts st)"
proof -
  obtain r where r: "map_of (agents st) a = Some r" "tombstone_grows c st a (ag_kel r)"
    "st' = (let u = dereg_fold a (ag_visibility r) (countKELChangeTx (st\<lparr>rg_departed := AList.update a (ag_kel r) (rg_departed st)\<rparr>));
                u = (if why = DeregRevoked \<or> why = DeregOperator
                     then (set_admitted (AList.delete a (ac_admitted (rg_accounts u))) u)\<lparr>rg_quota := AList.delete a (rg_quota u)\<rparr> else u)
            in u\<lparr>rg_dereg_events := AList.update a (unix_milli now) (rg_dereg_events u)\<rparr>)"
    using DeregisterTx_Inr [OF assms] by metis
  define t where "t = countKELChangeTx (st\<lparr>rg_departed := AList.update a (ag_kel r) (rg_departed st)\<rparr>)"
  define u where "u = dereg_fold a (ag_visibility r) t"
  define v where "v = (if why = DeregRevoked \<or> why = DeregOperator
     then (set_admitted (AList.delete a (ac_admitted (rg_accounts u))) u)\<lparr>rg_quota := AList.delete a (rg_quota u)\<rparr> else u)"
  have st': "st' = v\<lparr>rg_dereg_events := AList.update a (unix_milli now) (rg_dereg_events v)\<rparr>"
    by (simp only: r(3) v_def u_def t_def Let_def)
  have T: "agents t = agents st" "rg_departed t = AList.update a (ag_kel r) (rg_departed st)" "rg_caps t = rg_caps st"
    "key_sets t = key_sets st" "rg_cards t = rg_cards st" "rg_skills t = rg_skills st" "rg_tags t = rg_tags st"
    "rg_relay t = rg_relay st" "rg_revoked t = rg_revoked st" "rg_notices t = rg_notices st" "rg_released t = rg_released st"
    "rg_restore t = rg_restore st" "rg_kel_changes t = rg_kel_changes st + 1" "rg_accounts t = rg_accounts st"
    "rg_reviewed t = rg_reviewed st" "rg_dereg_events t = rg_dereg_events st" "rg_quota t = rg_quota st"
    "rg_fed_cards t = rg_fed_cards st" "rg_withdrawals t = rg_withdrawals st" "rg_fed_head t = rg_fed_head st"
    by (simp_all add: t_def countKELChangeTx_def key_sets_def)
  have W: "rg_withdrawals (withdrawA2ACard a x t) = rg_withdrawals (withdrawA2ACard a x st)"
    "rg_fed_head (withdrawA2ACard a x t) = rg_fed_head (withdrawA2ACard a x st)" for x
    by (simp_all add: withdrawA2ACard_def nextA2AFedSeq_def next_fed_seq_def T)
  note U = dereg_fold_sel [of a "ag_visibility r" t, folded u_def] dereg_fold_key_sets [of a "ag_visibility r" t, folded u_def]
  have V: "agents v = agents u" "rg_departed v = rg_departed u" "rg_caps v = rg_caps u" "key_sets v = key_sets u"
    "rg_cards v = rg_cards u" "rg_skills v = rg_skills u" "rg_tags v = rg_tags u" "rg_relay v = rg_relay u"
    "rg_revoked v = rg_revoked u" "rg_notices v = rg_notices u" "rg_released v = rg_released u" "rg_restore v = rg_restore u"
    "rg_kel_changes v = rg_kel_changes u" "ac_ledger (rg_accounts v) = ac_ledger (rg_accounts u)"
    "rg_reviewed v = rg_reviewed u" "rg_dereg_events v = rg_dereg_events u" "rg_fed_cards v = rg_fed_cards u"
    "ac_admitted (rg_accounts v) = (if why = DeregRevoked \<or> why = DeregOperator
       then AList.delete a (ac_admitted (rg_accounts u)) else ac_admitted (rg_accounts u))"
    "rg_quota v = (if why = DeregRevoked \<or> why = DeregOperator then AList.delete a (rg_quota u) else rg_quota u)"
    "rg_withdrawals v = rg_withdrawals u" "rg_fed_head v = rg_fed_head u" "ac_windows (rg_accounts v) = ac_windows (rg_accounts u)"
    by (simp_all add: v_def set_admitted_def key_sets_def agents_def)
  have ks: "key_sets (v\<lparr>rg_dereg_events := x\<rparr>) = key_sets v" for x by (simp add: key_sets_def)
  show ?thesis
    by (rule that [OF r(1,2)]) (simp_all add: st' ks V U T W)
qed

text \<open>Every table in which a row makes an AID reachable here.\<close>

definition routed :: "registry \<Rightarrow> aid \<Rightarrow> bool" where
  "routed st a \<longleftrightarrow> has_key (agents st) a \<or> has_key (key_sets st) a \<or> has_key (rg_cards st) a \<or> has_key (rg_notices st) a \<or>
     has_key (rg_released st) a \<or> list_ex (\<lambda>r. fst r = a) (rg_caps st) \<or> list_ex (\<lambda>r. fst r = a) (rg_skills st) \<or>
     list_ex (\<lambda>r. fst r = a) (rg_tags st) \<or> list_ex (\<lambda>m. rm_to m = a) (messages (rg_relay st)) \<or>
     list_ex (\<lambda>r. fst (fst r) = a) (rg_revoked st)"

text \<open>The rows of another AID.\<close>

definition same_rows :: "aid \<Rightarrow> registry \<Rightarrow> registry \<Rightarrow> bool" where
  "same_rows b st st' \<longleftrightarrow> map_of (agents st') b = map_of (agents st) b \<and> map_of (rg_departed st') b = map_of (rg_departed st) b \<and>
     map_of (key_sets st') b = map_of (key_sets st) b \<and> map_of (rg_cards st') b = map_of (rg_cards st) b \<and>
     map_of (rg_notices st') b = map_of (rg_notices st) b \<and> map_of (rg_released st') b = map_of (rg_released st) b \<and>
     map_of (rg_withdrawals st') b = map_of (rg_withdrawals st) b \<and>
     filter (\<lambda>r. fst r = b) (rg_caps st') = filter (\<lambda>r. fst r = b) (rg_caps st) \<and>
     filter (\<lambda>r. fst r = b) (rg_skills st') = filter (\<lambda>r. fst r = b) (rg_skills st) \<and>
     filter (\<lambda>r. fst r = b) (rg_tags st') = filter (\<lambda>r. fst r = b) (rg_tags st) \<and>
     filter (\<lambda>m. rm_to m = b) (messages (rg_relay st')) = filter (\<lambda>m. rm_to m = b) (messages (rg_relay st)) \<and>
     filter (\<lambda>r. fst (fst r) = b) (rg_revoked st') = filter (\<lambda>r. fst (fst r) = b) (rg_revoked st)"

lemma departure_routed:
  assumes "DeregisterTx c now a why st = Inr (st', d)"
  shows "\<not> routed st' a"
  using assms
  by (rule DeregisterTx_tables)
     (simp add: routed_def has_key_delete delete_rows_def delete_owner_def list_ex_iff)

lemma departure_others:
  assumes "DeregisterTx c now a why st = Inr (st', d)" "b \<noteq> a"
  shows "same_rows b st st'"
  using assms(1)
  by (rule DeregisterTx_tables)
     (use assms(2) in \<open>auto simp: same_rows_def delete_conv' map_of_update_eq delete_rows_def delete_owner_def withdrawA2ACard_def
       nextA2AFedSeq_def intro!: filter_cong\<close>)

lemma departure_withdraws:
  assumes "DeregisterTx c now a why st = Inr (st', d)" "agentFederates st a" "has_key (rg_cards st) a"
  shows "map_of (rg_withdrawals st') a = Some \<lparr>wd_reason = withdrawDeparted, wd_fed_seq = next_fed_seq st\<rparr>"
  using assms(1)
  by (rule DeregisterTx_tables)
     (use assms(2,3) in \<open>simp add: agentFederates_def withdrawA2ACard_def nextA2AFedSeq_def map_of_update_eq\<close>)

end
