(* ===== verification/Registration_Laws.thy ===== *)
theory Registration_Laws
  imports Departure_Laws Admission_Laws
begin

text \<open>
  What a registration and a pushed key history do to the histories held: the write is the history
  itself, and it extends the one that was there.
\<close>

section \<open>The admission part\<close>

lemma payListGrantTx_agents: "payListGrantTx h now a ac = Inr (ac', n) \<Longrightarrow> ac_agents ac' = ac_agents ac"
  by (auto simp: payListGrantTx_def ledger_issue_def rbind_eq_Inr split: option.splits if_splits sum.splits)

lemma writeAdmissionTx_kels:
  assumes "writeAdmissionTx h now a v win adm_now ac = Inr ac'"
  shows "map_option ag_kel (map_of (ac_agents ac') b) = map_option ag_kel (map_of (ac_agents ac) b)"
  using assms
  by (cases v) (auto simp: writeAdmissionTx_def rbind_eq_Inr map_of_update_eq dest!: payListGrantTx_agents
      split: if_splits option.splits)

lemma same_kels_admission: "admission_of h now a existed adm st = Inr (st', w) \<Longrightarrow> same_kels st st'"
  by (auto simp: admission_of_def same_kels_def AgentKEL_def agents_def fun_eq_iff writeAdmissionTx_kels
      split: option.splits if_splits sum.splits)

section \<open>The row\<close>

lemma same_kels_changed: "kelChangedTx c a k st = Inr st' \<Longrightarrow> same_kels st st'"
  by (auto simp: kelChangedTx_def same_kels_def forgetNoticeTx_def split: option.splits)

lemma AgentKEL_upsert: "AgentKEL (upsert_agent c now a name caps k st) = (AgentKEL st)(a := Some k)"
  by (auto simp: upsert_agent_def AgentKEL_def Let_def map_of_update_eq new_agent_row_def fun_eq_iff split: option.split)

lemma upsert_sel [simp]:
  "rg_departed (upsert_agent c now a name caps k st) = rg_departed st"
  "rg_caps (upsert_agent c now a name caps k st) = rg_caps st"
  by (simp_all add: upsert_agent_def Let_def)

definition put_row :: "registry_core \<Rightarrow> time_ns \<Rightarrow> aid \<Rightarrow> string \<Rightarrow> string list \<Rightarrow> bytes \<Rightarrow> registry \<Rightarrow> registry" where
  "put_row c now a name caps k st = replace_caps a caps (upsert_agent c now a name caps k st)"

lemma put_row_kels:
  "AgentKEL (put_row c now a name caps k st) = (AgentKEL st)(a := Some k)"
  "rg_departed (put_row c now a name caps k st) = rg_departed st"
  by (simp_all add: put_row_def replace_caps_def AgentKEL_upsert)

text \<open>The steps of \<open>putAgent\<close>, one after the other.\<close>

lemma putAgent_Inr:
  assumes "putAgent c h draw now a name caps k ext adm st = Inr (st', admitted, changed)"
  obtains longer s1 s2 s3 where
    "validateCaps caps = None" "extends_held c st a ext = Inr longer"
    "changed \<longleftrightarrow> AgentKEL st a \<noteq> None \<and> AgentKEL st a \<noteq> Some k"
    "admission_of h now a (AgentKEL st a \<noteq> None) adm (put_row c now a name caps k st) = Inr (s1, admitted)"
    "(if changed then kelChangedTx c a k s1 else Inr s1) = Inr s2"
    "s3 = (let s = (if changed \<or> AgentKEL st a = None then countKELChangeTx s2 else s2)
           in if longer then releaseTx a releasedLongerKEL now s else s)"
    "refreshDirTx c h draw a s3 = Inr st'"
proof -
  note A = assms [unfolded putAgent_def Let_def, folded put_row_def]
  have v: "validateCaps caps = None" using A by (cases "validateCaps caps") simp_all
  note A = A [unfolded v option.case]
  obtain longer where l: "extends_held c st a ext = Inr longer" using A by (cases "extends_held c st a ext") simp_all
  note A = A [unfolded l rbind_simps]
  obtain s1 w where s1: "admission_of h now a (AgentKEL st a \<noteq> None) adm (put_row c now a name caps k st) = Inr (s1, w)"
    using A by (cases "admission_of h now a (AgentKEL st a \<noteq> None) adm (put_row c now a name caps k st)") auto
  note A = A [unfolded s1 rbind_simps prod.case]
  let ?ch = "AgentKEL st a \<noteq> None \<and> AgentKEL st a \<noteq> Some k"
  obtain s2 where s2: "(if ?ch then kelChangedTx c a k s1 else Inr s1) = Inr s2"
    using A by (cases "if ?ch then kelChangedTx c a k s1 else Inr s1") simp_all
  note A = A [unfolded s2 rbind_simps]
  define s3 where "s3 = (let s = (if ?ch \<or> AgentKEL st a = None then countKELChangeTx s2 else s2)
           in if longer then releaseTx a releasedLongerKEL now s else s)"
  have last: "refreshDirTx c h draw a s3 = Inr st'" "admitted = w" "changed = ?ch"
    using A by (auto simp: s3_def Let_def rbind_eq_Inr)
  show ?thesis
    by (rule that [of longer s1 s2 s3, OF v l]) (use s1 s2 last in \<open>simp_all only: s3_def\<close>)
qed

lemma putAgent_kels:
  assumes "putAgent c h draw now a name caps k ext adm st = Inr (st', admitted, changed)"
  shows "AgentKEL st' = (AgentKEL st)(a := Some k)" "rg_departed st' = rg_departed st"
proof -
  obtain longer s1 s2 s3 where x:
    "changed \<longleftrightarrow> AgentKEL st a \<noteq> None \<and> AgentKEL st a \<noteq> Some k"
    "admission_of h now a (AgentKEL st a \<noteq> None) adm (put_row c now a name caps k st) = Inr (s1, admitted)"
    "(if changed then kelChangedTx c a k s1 else Inr s1) = Inr s2"
    "s3 = (let s = (if changed \<or> AgentKEL st a = None then countKELChangeTx s2 else s2)
           in if longer then releaseTx a releasedLongerKEL now s else s)"
    "refreshDirTx c h draw a s3 = Inr st'"
    using putAgent_Inr [OF assms] by metis
  have "same_kels (put_row c now a name caps k st) s1" by (rule same_kels_admission [OF x(2)])
  also have "same_kels s1 s2" using x(3) by (auto intro: same_kels_changed split: if_splits)
  also have "same_kels s2 s3"
    using same_kels_small(1) [of s2] same_kels_small(3) [of s2 a releasedLongerKEL now]
      same_kels_small(3) [of "countKELChangeTx s2" a releasedLongerKEL now] by (auto simp: x(4) Let_def intro: same_kels_trans)
  also have "same_kels s3 st'" by (rule same_kels_refreshDir [OF x(5)])
  finally show "AgentKEL st' = (AgentKEL st)(a := Some k)" "rg_departed st' = rg_departed st"
    by (simp_all add: same_kels_def put_row_kels)
qed

text \<open>The history held for an AID, decoded.\<close>

definition held_kel :: "registry_core \<Rightarrow> registry \<Rightarrow> aid \<Rightarrow> kel option" where
  "held_kel c st a = (case fst (registrationKEL st a) of None \<Rightarrow> None | Some b \<Rightarrow> UnmarshalKEL c b)"

lemma registrationKEL_eq: "fst (registrationKEL st a) = (case AgentKEL st a of Some b \<Rightarrow> Some b | None \<Rightarrow> map_of (rg_departed st) a)"
  by (simp add: registrationKEL_def AgentKEL_def split: option.split)

lemma held_same: "same_kels st st' \<Longrightarrow> fst (registrationKEL st' a) = fst (registrationKEL st a)"
  by (simp add: registrationKEL_eq same_kels_def split: option.split)

lemma extends_held_Inr:
  assumes "extends_held c st a (Some evs) = Inr longer"
  shows "case fst (registrationKEL st a) of None \<Rightarrow> longer = False
    | Some b \<Rightarrow> \<exists>hk. UnmarshalKEL c b = Some hk \<and> ExtendsKEL c hk evs = None \<and> longer = (length evs > length hk)"
  using assms by (auto simp: extends_held_def knownKEL_def rbind_eq_Inr split: option.splits)

section \<open>A deregistration\<close>

lemma DeregisterTx_kels:
  assumes "DeregisterTx c now a why st = Inr (st', d)"
  obtains b where "AgentKEL st a = Some b" "tombstone_grows c st a b" "AgentKEL st' = (AgentKEL st)(a := None)"
    "map_of (rg_departed st') = (map_of (rg_departed st))(a \<mapsto> b)"
proof -
  obtain r where r: "map_of (agents st) a = Some r" "tombstone_grows c st a (ag_kel r)"
    "st' = (let u = dereg_fold a (ag_visibility r) (countKELChangeTx (st\<lparr>rg_departed := AList.update a (ag_kel r) (rg_departed st)\<rparr>));
                u = (if why = DeregRevoked \<or> why = DeregOperator
                     then (set_admitted (AList.delete a (ac_admitted (rg_accounts u))) u)\<lparr>rg_quota := AList.delete a (rg_quota u)\<rparr> else u)
            in u\<lparr>rg_dereg_events := AList.update a (unix_milli now) (rg_dereg_events u)\<rparr>)"
    using DeregisterTx_Inr [OF assms] by metis
  show ?thesis
    by (rule that [of "ag_kel r"]) (use r in \<open>auto simp: AgentKEL_def Let_def dereg_fold_sel countKELChangeTx_def
      delete_conv' fun_eq_iff map_of_update_eq\<close>)
qed

lemma writeTombstone_kels:
  "writeTombstone c a k st = Inr st' \<Longrightarrow> AgentKEL st' = AgentKEL st \<and> map_of (rg_departed st') = (map_of (rg_departed st))(a \<mapsto> k) \<and>
     tombstone_grows c st a k"
  by (auto simp: writeTombstone_Inr countKELChangeTx_def map_of_update_eq fun_eq_iff)

section \<open>A pushed key history\<close>

lemma pushKELLocked_Inr:
  assumes "pushKELLocked c h draw now a k st = Inr (st', res, registered)"
  obtains hb held where "registrationKEL st a = (Some hb, registered)" "UnmarshalKEL c hb = Some held"
    "ExtendsKEL c held k = None" "k \<noteq> []" "ps_seq res = EvSeq (last k)" "ps_head res = EvEventID (last k)"
    "if length k = length held then st' = st \<and> ps_unchanged res \<and> \<not> ps_deregistered res
     else \<not> ps_unchanged res \<and> CheckNewEvents c held k (word_of_int (unix_milli now)) (firstWitness k (hubAID h)) = None \<and>
       ps_deregistered res = (registered \<and> EvType (last k) = Deactivation) \<and>
       (\<exists>raw. MarshalKEL c k = Some raw \<and>
          (if registered then push_registered c h draw now a raw (EvType (last k) = Deactivation) st = Inr st'
           else writeTombstone c a raw st = Inr st'))"
proof -
  note A = assms [unfolded pushKELLocked_def]
  obtain hr reg where hr: "registrationKEL st a = (hr, reg)" by force
  note A = A [unfolded hr prod.case]
  obtain hb where hb: "hr = Some hb" using A by (cases hr) simp_all
  note A = A [unfolded hb option.case]
  obtain held where held: "UnmarshalKEL c hb = Some held" using A by (cases "UnmarshalKEL c hb") simp_all
  note A = A [unfolded held option.case]
  have x: "ExtendsKEL c held k = None" using A by (cases "ExtendsKEL c held k") simp_all
  note A = A [unfolded x option.case]
  have ne: "k \<noteq> []" using A by (cases "k = []") simp_all
  show ?thesis
  proof (cases "length k = length held")
    case True
    with A ne have "st' = st" "res = \<lparr>ps_seq = EvSeq (last k), ps_head = EvEventID (last k), ps_unchanged = True,
        ps_deregistered = False\<rparr>" "registered = reg" by (simp_all add: Let_def)
    with True show ?thesis by (intro that [OF _ held x ne]) (simp_all add: hr hb)
  next
    case False
    have t: "CheckNewEvents c held k (word_of_int (unix_milli now)) (firstWitness k (hubAID h)) = None"
      using A ne False by (cases "CheckNewEvents c held k (word_of_int (unix_milli now)) (firstWitness k (hubAID h))") (simp_all add: Let_def)
    obtain raw where raw: "MarshalKEL c k = Some raw" using A ne False t by (cases "MarshalKEL c k") (simp_all add: Let_def)
    show ?thesis
    proof (cases reg)
      case True
      with A ne False t raw obtain u where "push_registered c h draw now a raw (EvType (last k) = Deactivation) st = Inr u"
        "st' = u" "registered" "res = \<lparr>ps_seq = EvSeq (last k), ps_head = EvEventID (last k), ps_unchanged = False,
          ps_deregistered = (EvType (last k) = Deactivation)\<rparr>" by (auto simp: Let_def rbind_eq_Inr)
      with True False t raw show ?thesis by (intro that [OF _ held x ne]) (simp_all add: hr hb)
    next
      case reg: False
      with A ne False t raw obtain u where "writeTombstone c a raw st = Inr u" "st' = u" "\<not> registered"
        "res = \<lparr>ps_seq = EvSeq (last k), ps_head = EvEventID (last k), ps_unchanged = False, ps_deregistered = False\<rparr>"
        by (auto simp: Let_def rbind_eq_Inr)
      with reg False t raw show ?thesis by (intro that [OF _ held x ne]) (simp_all add: hr hb)
    qed
  qed
qed

lemma AgentKEL_new_kel:
  "AgentKEL st a \<noteq> None \<Longrightarrow>
    AgentKEL (update_agent a (\<lambda>r. r\<lparr>ag_kel := k, ag_tip_seq := sq, ag_tip_head := hd'\<rparr>) st) = (AgentKEL st)(a := Some k)"
  by (auto simp: AgentKEL_def map_of_update_agent fun_eq_iff)

lemma push_registered_kels:
  assumes "push_registered c h draw now a raw dip st = Inr st'" and reg: "AgentKEL st a \<noteq> None"
  shows "if dip then AgentKEL st' = (AgentKEL st)(a := None) \<and> map_of (rg_departed st') = (map_of (rg_departed st))(a \<mapsto> raw) \<and>
           tombstone_grows c st a raw
         else AgentKEL st' = (AgentKEL st)(a := Some raw) \<and> rg_departed st' = rg_departed st"
proof -
  define u where "u = update_agent a (\<lambda>r. r\<lparr>ag_kel := raw, ag_tip_seq := fst (storedTip c raw), ag_tip_head := snd (storedTip c raw)\<rparr>) st"
  have u: "AgentKEL (countKELChangeTx u) = (AgentKEL st)(a := Some raw)" "rg_departed (countKELChangeTx u) = rg_departed st"
    by (simp_all add: countKELChangeTx_def u_def AgentKEL_new_kel [OF reg])
  note A = assms(1) [unfolded push_registered_def Let_def, folded u_def]
  show ?thesis
  proof (cases dip)
    case True
    then obtain d where "DeregisterTx c now a DeregDip (countKELChangeTx u) = Inr (st', d)" using A by (auto simp: rbind_eq_Inr)
    then obtain b where "AgentKEL (countKELChangeTx u) a = Some b" "tombstone_grows c (countKELChangeTx u) a b"
      "AgentKEL st' = (AgentKEL (countKELChangeTx u))(a := None)"
      "map_of (rg_departed st') = (map_of (rg_departed (countKELChangeTx u)))(a \<mapsto> b)" by (rule DeregisterTx_kels)
    with True show ?thesis by (simp add: u tombstone_grows_def)
  next
    case False
    then obtain v where v: "kelChangedTx c a raw (countKELChangeTx u) = Inr v"
      "refreshDirTx c h draw a (releaseTx a releasedLongerKEL now v) = Inr st'" using A by (auto simp: rbind_eq_Inr)
    have "same_kels (countKELChangeTx u) v" by (rule same_kels_changed [OF v(1)])
    also have "same_kels v (releaseTx a releasedLongerKEL now v)" by (rule kel_frames)
    also have "same_kels \<dots> st'" by (rule same_kels_refreshDir [OF v(2)])
    finally show ?thesis using False by (simp add: same_kels_def u)
  qed
qed

end
