(* ===== verification/Registry_Machine.thy ===== *)
theory Registry_Machine
  imports Registration_Laws
begin

text \<open>
  The registry over time: every transaction of its operations is one step, at the clock the step read,
  and the steps of different requests follow each other in any order. The state is the database, what
  the hub process keeps in memory, and the file \<open>kel_hwm\<close>.

  A registration is the call \<open>/register\<close> makes: the bytes stored are the encoding of the events. What
  the request saw before its transaction (a notice judged, a listed card, the key history a key set is
  verified against) is a free variable of its step. \<open>r_other\<close> is anything the other components do.
\<close>

section \<open>Steps\<close>

record hub_state =
  hb_db :: registry
  hb_mem :: hub_memory
  hb_file :: "string option"

text \<open>What another component may change: the mailboxes, the ledger, the admission list and the columns of
  an agent row that say how it came in.\<close>

definition other_columns :: "agent_row \<Rightarrow> agent_row" where
  "other_columns r = r\<lparr>ag_via := viaList, ag_probation := None, ag_trial := trialNone\<rparr>"

definition elsewhere :: "registry \<Rightarrow> registry \<Rightarrow> bool" where
  "elsewhere st st' \<longleftrightarrow> rg_departed st' = rg_departed st \<and> key_sets st' = key_sets st \<and> rg_notices st' = rg_notices st \<and>
     rg_cards st' = rg_cards st \<and> rg_withdrawals st' = rg_withdrawals st \<and> rg_fed_head st' = rg_fed_head st \<and>
     rg_restore st' = rg_restore st \<and> rg_released st' = rg_released st \<and> rg_kel_changes st' = rg_kel_changes st \<and>
     rg_caps st' = rg_caps st \<and> rg_fed_cards st' = rg_fed_cards st \<and>
     map (\<lambda>(a, r). (a, other_columns r)) (agents st') = map (\<lambda>(a, r). (a, other_columns r)) (agents st)"

inductive reg_step :: "registry_core \<Rightarrow> hub_conf \<Rightarrow> time_ns \<Rightarrow> hub_state \<Rightarrow> hub_state \<Rightarrow> bool"
  for c :: registry_core and h :: hub_conf where
  r_register: "MarshalKEL c evs = Some raw \<Longrightarrow>
     registerAgent c h draw now a name caps raw evs adm (hb_db s) = Inr (st', admitted, changed) \<Longrightarrow>
     reg_step c h now s (s\<lparr>hb_db := st'\<rparr>)"
| r_push: "pushKELLocked c h draw now a k (hb_db s) = Inr (st', res, registered) \<Longrightarrow> reg_step c h now s (s\<lparr>hb_db := st'\<rparr>)"
| r_dereg: "DeregisterTx c now a why (hb_db s) = Inr (st', d) \<Longrightarrow> reg_step c h now s (s\<lparr>hb_db := st'\<rparr>)"
| r_revoke: "revoke_tx c now a (hb_db s) = Inr (st', rv) \<Longrightarrow> reg_step c h now s (s\<lparr>hb_db := st'\<rparr>)"
| r_sweep: "sweepOne c now a cutoff (hb_db s) = Inr (st', swept) \<Longrightarrow> reg_step c h now s (s\<lparr>hb_db := st'\<rparr>)"
| r_profile: "PutProfile a summary readme (hb_db s) = Inr st' \<Longrightarrow> reg_step c h now s (s\<lparr>hb_db := st'\<rparr>)"
| r_poll: "reg_step c h now s (s\<lparr>hb_db := SeenPolling now a (hb_db s)\<rparr>)"
| r_visibility: "SetVisibility a v (hb_db s) = Inr st' \<Longrightarrow> reg_step c h now s (s\<lparr>hb_db := st'\<rparr>)"
| r_keys: "PublishKeys c h draw a raw prev_seq k now (hb_db s) = Inr (st', status, rose) \<Longrightarrow> reg_step c h now s (s\<lparr>hb_db := st'\<rparr>)"
| r_card: "AdmitA2ACard c h draw a raw k now (hb_db s) = (st', cst) \<Longrightarrow> reg_step c h now s (s\<lparr>hb_db := st'\<rparr>)"
| r_recheck: "recheckA2ACard c h draw a k now seen (hb_db s) = Inr st' \<Longrightarrow> reg_step c h now s (s\<lparr>hb_db := st'\<rparr>)"
| r_no_card: "WithdrawA2ACard c h draw a (hb_db s) = Inr st' \<Longrightarrow> reg_step c h now s (s\<lparr>hb_db := st'\<rparr>)"
| r_fed_card: "AdmitFedA2ACard c peer e now (hb_db s) = Inr st' \<Longrightarrow> reg_step c h now s (s\<lparr>hb_db := st'\<rparr>)"
| r_fed_retire: "retireFedA2ACard peer w (hb_db s) = Inr st' \<Longrightarrow> reg_step c h now s (s\<lparr>hb_db := st'\<rparr>)"
| r_notice: "NoticeFor c h draw now a seen_st (hb_db s) = Inr (st', ans) \<Longrightarrow> reg_step c h now s (s\<lparr>hb_db := st'\<rparr>)"
| r_current_key: "reg_step c h now s (s\<lparr>hb_db := releaseOnCurrentKey c h draw now a (hb_mem s) seen_st (hb_db s)\<rparr>)"
| r_end: "EndQuarantineWhenNoneHeld now (hb_mem s) (hb_db s) = (m, st') \<Longrightarrow> reg_step c h now s (s\<lparr>hb_db := st', hb_mem := m\<rparr>)"
| r_begin: "BeginServing c h draws now (hb_mem s) (hb_db s) = Inr (m, st') \<Longrightarrow> reg_step c h now s (s\<lparr>hb_db := st', hb_mem := m\<rparr>)"
| r_after: "afterDereg in_process a (hb_db s) = (st', as) \<Longrightarrow> reg_step c h now s (s\<lparr>hb_db := st'\<rparr>)"
| r_drain: "reg_step c h now s (s\<lparr>hb_db := drain_one e (hb_db s)\<rparr>)"
| r_sync: "syncKELHighWater (hb_db s) (hb_mem s, hb_file s) = (m, f) \<Longrightarrow> reg_step c h now s (s\<lparr>hb_mem := m, hb_file := f\<rparr>)"
| r_restart: "checkKELHighWater now (hb_db s) (m0, hb_file s) = Inr (st', m, f) \<Longrightarrow>
     reg_step c h now s \<lparr>hb_db = st', hb_mem = m, hb_file = f\<rparr>"
| r_other: "elsewhere (hb_db s) st' \<Longrightarrow> reg_step c h now s (s\<lparr>hb_db := st'\<rparr>)"

inductive_cases reg_stepE: "reg_step c h now s s'"

section \<open>Steps that are not about a key history\<close>

lemma same_kels_refresh_dirs: "refresh_dirs c h draw as st = Inr st' \<Longrightarrow> same_kels st st'"
  by (induction as arbitrary: st) (auto simp: rbind_eq_Inr intro: same_kels_trans [OF same_kels_refreshDir])

lemma same_kels_quarantine: "same_kels st (startQuarantineTx why now st)"
proof -
  have "map_of (map (\<lambda>(a, r). (a, r\<lparr>ag_dir := None\<rparr>)) t) b = map_option (\<lambda>r. r\<lparr>ag_dir := None\<rparr>) (map_of t b)"
    for t :: "(aid, agent_row) table" and b by (induction t) auto
  then show ?thesis
    by (auto simp: same_kels_def startQuarantineTx_def AgentKEL_def fun_eq_iff option.map_comp comp_def)
qed

lemma same_kels_current_key [kel_frames]: "same_kels st (releaseOnCurrentKey c h draw now a m seen st)"
  by (auto simp: releaseOnCurrentKey_def committed_or_def split: sum.split
      intro: same_kels_trans [OF same_kels_small(3) same_kels_refreshDir])

lemma same_kels_end [kel_frames]: "EndQuarantineWhenNoneHeld now m st = (m', st') \<Longrightarrow> same_kels st st'"
  by (auto simp: EndQuarantineWhenNoneHeld_def same_kels_def split: if_splits)

lemma same_kels_begin [kel_frames]:
  assumes "BeginServing c h draw now m st = Inr (m', st')"
  shows "same_kels st st'"
proof (cases "rg_restore st")
  case None
  with assms show ?thesis by (simp add: BeginServing_def)
next
  case (Some r)
  define u where "u = st\<lparr>rg_restore := Some (r\<lparr>rs_serving_since := Some (unix_milli now)\<rparr>)\<rparr>"
  have "same_kels st u" by (simp add: u_def same_kels_def)
  moreover have "st = st' \<or> refresh_dirs c h draw (sort (map fst (agents st))) u = Inr st'"
    using assms Some by (auto simp: BeginServing_def u_def rbind_eq_Inr split: if_splits)
  ultimately show ?thesis by (auto intro: same_kels_trans same_kels_refresh_dirs)
qed

lemma same_kels_fed [kel_frames]: "AdmitFedA2ACard c peer e now st = Inr st' \<Longrightarrow> same_kels st st'"
  by (auto simp: AdmitFedA2ACard_def admit_fed_tx_def Let_def store_fed_card_def indexFedA2ACard_def same_kels_def
      split: if_splits option.splits sum.splits)

lemma same_kels_retire [kel_frames]: "retireFedA2ACard peer w st = Inr st' \<Longrightarrow> same_kels st st'"
  by (auto simp: retireFedA2ACard_def same_kels_def split: if_splits option.splits prod.splits)

lemma same_kels_visibility_set [kel_frames]:
  assumes "SetVisibility a v st = Inr st'"
  shows "same_kels st st'"
proof -
  define u where "u = update_agent a (\<lambda>r. r\<lparr>ag_visibility := v\<rparr>) st"
  have "same_kels st u" by (simp add: u_def kel_frames)
  moreover have "st' = u \<or> (\<exists>before. st' = a2aVisibilityChanged a before v u)"
    using assms by (auto simp: SetVisibility_def Let_def u_def split: if_splits option.splits)
  ultimately show ?thesis by (auto intro: same_kels_trans same_kels_visibility)
qed

lemma map_of_other_columns:
  "map_of (map (\<lambda>(a, r). (a, other_columns r)) t) b = map_option other_columns (map_of t b)"
  by (induction t) auto

lemma other_columns_sel [simp]:
  "ag_kel (other_columns r) = ag_kel r" "ag_tip_seq (other_columns r) = ag_tip_seq r" "ag_tip_head (other_columns r) = ag_tip_head r"
  "ag_visibility (other_columns r) = ag_visibility r" "ag_dir (other_columns r) = ag_dir r"
  by (simp_all add: other_columns_def)

lemma elsewhere_agents:
  assumes "elsewhere st st'"
  shows "map_option other_columns (map_of (agents st') a) = map_option other_columns (map_of (agents st) a)"
  using assms by (simp add: elsewhere_def map_of_other_columns [symmetric])

lemma same_kels_elsewhere [kel_frames]:
  assumes "elsewhere st st'"
  shows "same_kels st st'"
proof -
  have "map_option ag_kel (map_of (agents st') a) = map_option ag_kel (map_of (agents st) a)" for a
    using arg_cong [OF elsewhere_agents [OF assms, of a], of "map_option ag_kel"] by (simp add: option.map_comp comp_def)
  with assms show ?thesis by (simp add: same_kels_def AgentKEL_def elsewhere_def fun_eq_iff)
qed

lemma checkKELHighWater_Inr:
  assumes "checkKELHighWater now st (m0, content) = Inr (st', m, f)"
  obtains n m1 where "kelChanges st = Inr n"
    "(if n < hwm_count (readKELHWM content) \<or> readKELHWM content = HwmUnreadable
      then beginRollbackQuarantine (hwm_count (readKELHWM content)) (readKELHWM content = HwmUnreadable) now st else Inr st) = Inr st'"
    "syncKELHighWater st' (m0\<lparr>hm_written := fst (rewritten_hwm (readKELHWM content) n content)\<rparr>,
       snd (rewritten_hwm (readKELHWM content) n content)) = (m1, f)" "m = loadQuarantine st' m1"
proof -
  note A = assms [unfolded checkKELHighWater_def Let_def snd_conv fst_conv]
  obtain n where n: "kelChanges st = Inr n" using A by (cases "kelChanges st") simp_all
  note A = A [unfolded n rbind_simps]
  obtain u where u: "(if n < hwm_count (readKELHWM content) \<or> readKELHWM content = HwmUnreadable
      then beginRollbackQuarantine (hwm_count (readKELHWM content)) (readKELHWM content = HwmUnreadable) now st else Inr st) = Inr u"
    using A by (cases "if n < hwm_count (readKELHWM content) \<or> readKELHWM content = HwmUnreadable
      then beginRollbackQuarantine (hwm_count (readKELHWM content)) (readKELHWM content = HwmUnreadable) now st else Inr st") simp_all
  note A = A [unfolded u rbind_simps]
  have "st' = u" "m = loadQuarantine u (fst (syncKELHighWater u (m0\<lparr>hm_written := fst (rewritten_hwm (readKELHWM content) n content)\<rparr>,
       snd (rewritten_hwm (readKELHWM content) n content))))"
    "f = snd (syncKELHighWater u (m0\<lparr>hm_written := fst (rewritten_hwm (readKELHWM content) n content)\<rparr>,
       snd (rewritten_hwm (readKELHWM content) n content)))"
    using A by (auto split: prod.splits)
  with u show ?thesis by (intro that [OF n, of "fst (syncKELHighWater u (m0\<lparr>hm_written := fst (rewritten_hwm (readKELHWM content) n content)\<rparr>,
       snd (rewritten_hwm (readKELHWM content) n content)))"]) simp_all
qed

lemma same_kels_restart [kel_frames]:
  assumes "checkKELHighWater now st s = Inr (st', m, f)"
  shows "same_kels st st'"
proof -
  have q: "same_kels st (startQuarantineTx quarantineRollback now st\<lparr>rg_kel_changes := n\<rparr>)" for n
    using same_kels_quarantine [of st quarantineRollback now] by (simp add: same_kels_def)
  have "same_kels st x" if "beginRollbackQuarantine fl u now st = Inr x" for x fl u
    using that q by (auto simp: beginRollbackQuarantine_def rbind_eq_Inr Let_def intro: same_kels_quarantine split: if_splits)
  moreover obtain m0 content where s: "s = (m0, content)" by force
  ultimately show ?thesis using assms unfolding s by - (erule checkKELHighWater_Inr, auto split: if_splits)
qed

section \<open>A key history may only grow\<close>

definition histories_grow :: "registry_core \<Rightarrow> registry \<Rightarrow> registry \<Rightarrow> bool" where
  "histories_grow c st st' \<longleftrightarrow>
     (\<forall>a k. held_kel c st a = Some k \<longrightarrow> (\<exists>k'. held_kel c st' a = Some k' \<and> prefix k k'))"

lemma histories_grow_refl: "histories_grow c st st"
  by (auto simp: histories_grow_def)

lemma histories_grow_trans: "histories_grow c st st' \<Longrightarrow> histories_grow c st' st'' \<Longrightarrow> histories_grow c st st''"
  unfolding histories_grow_def by (meson prefix_order.trans)

lemma histories_same: "same_kels st st' \<Longrightarrow> histories_grow c st st'"
  by (auto simp: histories_grow_def held_kel_def held_same)

text \<open>A write of one AID's history that extends the one held.\<close>

lemma histories_extended:
  assumes "kel_law c" and "\<And>b. b \<noteq> a \<Longrightarrow> fst (registrationKEL st' b) = fst (registrationKEL st b)"
    and "fst (registrationKEL st' a) = Some raw" and "UnmarshalKEL c raw = Some k'"
    and "\<And>hb held. fst (registrationKEL st a) = Some hb \<Longrightarrow> UnmarshalKEL c hb = Some held \<Longrightarrow> ExtendsKEL c held k' = None"
  shows "histories_grow c st st'"
  unfolding histories_grow_def
proof (intro allI impI)
  fix b k assume k: "held_kel c st b = Some k"
  show "\<exists>k'. held_kel c st' b = Some k' \<and> prefix k k'"
  proof (cases "b = a")
    case True
    with k obtain hb where hb: "fst (registrationKEL st a) = Some hb" "UnmarshalKEL c hb = Some k"
      by (auto simp: held_kel_def split: option.splits)
    then have "k \<noteq> []" using assms(1) by (auto simp: kel_law_def)
    with assms(1) assms(5) [OF hb] have "prefix k k'" by (auto simp: kel_law_def)
    with True assms(3,4) show ?thesis by (auto simp: held_kel_def)
  next
    case False
    with k assms(2) [OF False] show ?thesis by (auto simp: held_kel_def)
  qed
qed

lemma registrationKEL_other:
  assumes "AgentKEL st' b = AgentKEL st b" "map_of (rg_departed st') b = map_of (rg_departed st) b"
  shows "fst (registrationKEL st' b) = fst (registrationKEL st b)"
  using assms by (simp add: registrationKEL_eq split: option.split)

lemma histories_grow_dereg:
  assumes "DeregisterTx c now a why st = Inr (st', d)"
  shows "histories_grow c st st'"
proof -
  obtain b where b: "AgentKEL st a = Some b" "AgentKEL st' = (AgentKEL st)(a := None)"
    "map_of (rg_departed st') = (map_of (rg_departed st))(a \<mapsto> b)" using DeregisterTx_kels [OF assms] by metis
  have "fst (registrationKEL st' x) = fst (registrationKEL st x)" for x
    using b by (auto simp: registrationKEL_eq split: option.split)
  then show ?thesis by (auto simp: histories_grow_def held_kel_def)
qed

lemma histories_grow_register:
  assumes "kel_law c" "MarshalKEL c evs = Some raw"
    "registerAgent c h draw now a name caps raw evs adm st = Inr (st', admitted, changed)"
  shows "histories_grow c st st'"
proof -
  have put: "putAgent c h draw now a name caps raw (Some evs) adm st = Inr (st', admitted, changed)"
    using assms(3) by (simp add: registerAgent_def split: if_splits)
  note K = putAgent_kels [OF put]
  obtain longer where longer: "extends_held c st a (Some evs) = Inr longer" using putAgent_Inr [OF put] by metis
  show ?thesis
  proof (rule histories_extended [OF assms(1), where a = a and raw = raw and k' = evs])
    show "fst (registrationKEL st' b) = fst (registrationKEL st b)" if "b \<noteq> a" for b
      using that by (intro registrationKEL_other) (simp_all add: K)
    show "fst (registrationKEL st' a) = Some raw" by (simp add: registrationKEL_eq K)
    show "UnmarshalKEL c raw = Some evs" using assms(1,2) by (simp add: kel_law_def)
    show "ExtendsKEL c held evs = None" if "fst (registrationKEL st a) = Some hb" "UnmarshalKEL c hb = Some held" for hb held
      using extends_held_Inr [OF longer] that by auto
  qed
qed

lemma histories_grow_push:
  assumes "kel_law c" "pushKELLocked c h draw now a k st = Inr (st', res, registered)"
  shows "histories_grow c st st'"
proof -
  obtain hb held where P: "registrationKEL st a = (Some hb, registered)" "UnmarshalKEL c hb = Some held"
    "ExtendsKEL c held k = None"
    "if length k = length held then st' = st \<and> ps_unchanged res \<and> \<not> ps_deregistered res
     else \<not> ps_unchanged res \<and> CheckNewEvents c held k (word_of_int (unix_milli now)) (firstWitness k (hubAID h)) = None \<and>
       ps_deregistered res = (registered \<and> EvType (last k) = Deactivation) \<and>
       (\<exists>raw. MarshalKEL c k = Some raw \<and>
          (if registered then push_registered c h draw now a raw (EvType (last k) = Deactivation) st = Inr st'
           else writeTombstone c a raw st = Inr st'))"
    using pushKELLocked_Inr [OF assms(2)] by metis
  show ?thesis
  proof (cases "length k = length held")
    case True
    with P(4) show ?thesis by (simp add: histories_grow_refl)
  next
    case False
    then obtain raw where raw: "MarshalKEL c k = Some raw"
      "if registered then push_registered c h draw now a raw (EvType (last k) = Deactivation) st = Inr st'
       else writeTombstone c a raw st = Inr st'" using P(4) by auto
    have reg: "registered \<longleftrightarrow> AgentKEL st a \<noteq> None"
      using P(1) by (auto simp: registrationKEL_def AgentKEL_def split: option.splits)
    have eff: "(\<forall>b. b \<noteq> a \<longrightarrow> AgentKEL st' b = AgentKEL st b \<and> map_of (rg_departed st') b = map_of (rg_departed st) b) \<and>
        fst (registrationKEL st' a) = Some raw"
    proof (cases registered)
      case True
      then have "push_registered c h draw now a raw (EvType (last k) = Deactivation) st = Inr st'" using raw(2) by simp
      from push_registered_kels [OF this reg [THEN iffD1, OF True]] have Q:
        "if EvType (last k) = Deactivation then AgentKEL st' = (AgentKEL st)(a := None) \<and>
           map_of (rg_departed st') = (map_of (rg_departed st))(a \<mapsto> raw)
         else AgentKEL st' = (AgentKEL st)(a := Some raw) \<and> rg_departed st' = rg_departed st" by (auto split: if_splits)
      show ?thesis
        by (cases "EvType (last k) = Deactivation") (use Q in \<open>auto simp: registrationKEL_eq\<close>)
    next
      case False
      then have w: "writeTombstone c a raw st = Inr st'" using raw(2) by simp
      from writeTombstone_kels [OF w] False reg show ?thesis by (auto simp: registrationKEL_eq)
    qed
    show ?thesis
    proof (rule histories_extended [OF assms(1), where a = a and raw = raw and k' = k])
      show "fst (registrationKEL st' b) = fst (registrationKEL st b)" if "b \<noteq> a" for b
        using that eff by (intro registrationKEL_other) auto
      show "fst (registrationKEL st' a) = Some raw" using eff by blast
      show "UnmarshalKEL c raw = Some k" using assms(1) raw(1) by (simp add: kel_law_def)
      show "ExtendsKEL c held' k = None" if "fst (registrationKEL st a) = Some hb'" "UnmarshalKEL c hb' = Some held'" for hb' held'
        using that P by simp
    qed
  qed
qed

lemma histories_grow_step:
  assumes "kel_law c" "reg_step c h now s s'"
  shows "histories_grow c (hb_db s) (hb_db s')"
  using assms(2)
proof cases
  case (r_revoke a st' rv)
  have adm: "same_kels st (set_admitted t st)" for st t by (simp add: same_kels_def)
  have "(\<exists>d. DeregisterTx c now a DeregRevoked (hb_db s) = Inr (st', d)) \<or> same_kels (hb_db s) st'"
    using r_revoke(2) adm by (auto simp: revoke_tx_def split: if_splits sum.splits prod.splits)
  with r_revoke(1) show ?thesis by (auto intro: histories_grow_dereg histories_same)
next
  case (r_sweep a cutoff st' swept)
  then have "st' = hb_db s \<or> (\<exists>d. DeregisterTx c now a DeregInactive (hb_db s) = Inr (st', d))"
    by (auto simp: sweepOne_def rbind_eq_Inr split: if_splits)
  with r_sweep(1) show ?thesis by (auto intro: histories_grow_dereg histories_grow_refl)
next
  case (r_profile a summary readme st')
  then have "same_kels (hb_db s) st'" by (auto simp: PutProfile_def kel_frames split: if_splits)
  with r_profile(1) show ?thesis by (simp add: histories_same)
next
  case (r_poll a)
  then show ?thesis by (simp add: histories_same SeenPolling_def kel_frames)
next
  case (r_after in_process a st' as)
  then have "same_kels (hb_db s) st'" by (auto simp: afterDereg_def same_kels_def split: if_splits)
  with r_after(1) show ?thesis by (simp add: histories_same)
next
  case (r_drain e)
  then show ?thesis by (simp add: histories_same drain_one_def same_kels_def)
qed (use assms(1) in \<open>auto intro: histories_grow_register histories_grow_push histories_grow_dereg
  histories_grow_refl histories_same kel_frames\<close>)

interpretation histories: moves_forward "reg_step c h" "\<lambda>t s. kel_law c"
    "\<lambda>s s'. histories_grow c (hb_db s) (hb_db s')" for c h
  by unfold_locales (auto intro: histories_grow_refl histories_grow_trans histories_grow_step)

end
