(* ===== verification/Witness_Laws.thy ===== *)
theory Witness_Laws
  imports Registry_Machine
begin

text \<open>
  The notices and the quarantine over time. A cached notice is one this hub signed; in a quarantine no
  notice is stated for an AID before its history has grown or the wait is over; and the count in the
  file \<open>kel_hwm\<close> is never ahead of the database it belongs to.
\<close>

section \<open>Frames\<close>

definition same_witness :: "registry \<Rightarrow> registry \<Rightarrow> bool" where
  "same_witness st st' \<longleftrightarrow> rg_notices st' = rg_notices st \<and> rg_restore st' = rg_restore st \<and>
     rg_released st' = rg_released st \<and> rg_kel_changes st' = rg_kel_changes st"

lemma same_witness_refl [simp, intro]: "same_witness st st"
  by (simp add: same_witness_def)

lemma same_witness_trans [trans]: "same_witness s t \<Longrightarrow> same_witness t u \<Longrightarrow> same_witness s u"
  by (simp add: same_witness_def)

lemma same_witness_small:
  "same_witness st (update_agent a f st)" "same_witness st (set_key_sets ks st)" "same_witness st (set_card a cd st)"
  "same_witness st (clearA2AWithdrawal a st)" "same_witness st (withdrawA2ACard a w st)" "same_witness st (drop_card_index a st)"
  "same_witness st (set_admitted adm st)" "same_witness st (set_agents t st)"
  by (simp_all add: same_witness_def set_key_sets_def set_card_def clearA2AWithdrawal_def drop_card_index_def set_admitted_def
      split: option.split)

lemma same_witness_bump: "same_witness st (bumpA2ACard a st)"
  by (simp add: same_witness_def bumpA2ACard_def nextA2AFedSeq_def clearA2AWithdrawal_def set_card_def split: option.split)

lemma same_witness_index: "same_witness st (indexA2ACard a v st)"
  by (simp add: same_witness_def indexA2ACard_def)

lemma same_witness_refreshDir: "refreshDirTx c h draw a st = Inr st' \<Longrightarrow> same_witness st st'"
  by (auto simp: refreshDirTx_def Let_def intro: same_witness_small split: option.splits if_splits)

lemma same_witness_store: "same_witness st (storeAdmittedA2ACard c a raw v now st)" "same_witness st (relist_card a cd v now st)"
  unfolding storeAdmittedA2ACard_def relist_card_def nextA2AFedSeq_def prod.case
  by (rule same_witness_trans [OF _ same_witness_small(4)], rule same_witness_trans [OF _ same_witness_index],
      rule same_witness_trans [OF _ same_witness_small(3)], simp add: same_witness_def)+

lemma same_witness_delist: "same_witness st (delist_card a cd st)"
  by (simp add: delist_card_def nextA2AFedSeq_def Let_def same_witness_def set_card_def drop_card_index_def)

lemma same_witness_recheck: "recheckA2ACard c h draw a k now seen st = Inr st' \<Longrightarrow> same_witness st st'"
  by (auto simp: recheckA2ACard_def split: option.splits if_splits sum.splits
      intro: same_witness_trans [OF same_witness_delist same_witness_refreshDir]
        same_witness_trans [OF same_witness_small(3) same_witness_index])

lemma same_witness_admit_card: "AdmitA2ACard c h draw a raw k now st = (st', r) \<Longrightarrow> same_witness st st'"
  by (auto simp: AdmitA2ACard_def Let_def split: if_splits sum.splits prod.splits option.splits
      intro: same_witness_trans [OF same_witness_store(1) same_witness_refreshDir]
        same_witness_trans [OF same_witness_store(2) same_witness_refreshDir] same_witness_refreshDir)

lemma same_witness_withdraw_card:
  assumes "WithdrawA2ACard c h draw a st = Inr st'"
  shows "same_witness st st'"
proof -
  define u where "u = (if agentFederates st a then withdrawA2ACard a withdrawReasonAgent st else st)"
  have "same_witness st u" by (simp add: u_def same_witness_small)
  also have "same_witness u (drop_card_index a (u\<lparr>rg_cards := AList.delete a (rg_cards u)\<rparr>))"
    by (simp add: same_witness_def drop_card_index_def)
  also have "same_witness \<dots> st'"
    by (rule same_witness_refreshDir) (use assms in \<open>simp add: WithdrawA2ACard_def u_def Let_def\<close>)
  finally show ?thesis .
qed

lemma same_witness_publish:
  assumes "PublishKeys c h draw a raw prev_seq k now st = Inr (st', status, rose)"
  shows "same_witness st st'"
  using assms
proof (cases rule: PublishKeys_cases)
  case (stored s canon es)
  define u where "u = set_key_sets (AList.update a (ek_seq es, canon) (key_sets st)) st"
  define w where "w = (if agentFederates u a then bumpA2ACard a u else u)"
  have "rbind (refreshDirTx c h draw a w) (\<lambda>x. Inr (if rose then x\<lparr>rg_revoked := delete_owner a (rg_revoked x)\<rparr> else x)) = Inr st'"
    using stored(4) by (simp only: store_key_set_def Let_def u_def w_def)
  then obtain x where x: "refreshDirTx c h draw a w = Inr x" "st' = (if rose then x\<lparr>rg_revoked := delete_owner a (rg_revoked x)\<rparr> else x)"
    unfolding rbind_eq_Inr by blast
  have "same_witness st u" by (simp add: u_def same_witness_small)
  also have "same_witness u w" by (simp add: w_def same_witness_bump)
  also have "same_witness w x" by (rule same_witness_refreshDir [OF x(1)])
  also have "same_witness x st'" by (simp add: x(2) same_witness_def)
  finally show ?thesis .
qed simp

lemma same_witness_visibility:
  assumes "SetVisibility a v st = Inr st'"
  shows "same_witness st st'"
proof -
  define u where "u = update_agent a (\<lambda>r. r\<lparr>ag_visibility := v\<rparr>) st"
  have "same_witness st u" by (simp add: u_def same_witness_small)
  moreover have "same_witness u (a2aVisibilityChanged a before v u)" for before
    by (simp add: a2aVisibilityChanged_def same_witness_small same_witness_bump)
  moreover have "st' = u \<or> (\<exists>before. st' = a2aVisibilityChanged a before v u)"
    using assms by (auto simp: SetVisibility_def Let_def u_def split: if_splits option.splits)
  ultimately show ?thesis by (auto intro: same_witness_trans)
qed

lemma same_witness_fed: "AdmitFedA2ACard c peer e now st = Inr st' \<Longrightarrow> same_witness st st'"
  by (auto simp: AdmitFedA2ACard_def admit_fed_tx_def Let_def store_fed_card_def indexFedA2ACard_def same_witness_def
      split: if_splits option.splits sum.splits)

lemma same_witness_retire: "retireFedA2ACard peer w st = Inr st' \<Longrightarrow> same_witness st st'"
  by (auto simp: retireFedA2ACard_def same_witness_def split: if_splits option.splits prod.splits)

lemma same_witness_admission: "admission_of h now a existed adm st = Inr (st', w) \<Longrightarrow> same_witness st st'"
  by (auto simp: admission_of_def same_witness_def split: option.splits if_splits sum.splits)

lemma same_witness_refresh_dirs: "refresh_dirs c h draw as st = Inr st' \<Longrightarrow> same_witness st st'"
  by (induction as arbitrary: st) (auto simp: rbind_eq_Inr intro: same_witness_trans [OF same_witness_refreshDir])

lemmas same_witness_ops = same_witness_recheck same_witness_admit_card same_witness_withdraw_card same_witness_publish
  same_witness_visibility same_witness_fed same_witness_retire

section \<open>The effect of the operations that are about it\<close>

text \<open>Notices go, an AID may be released, and the count rises by at most two.\<close>

definition witness_write :: "aid \<Rightarrow> bool \<Rightarrow> registry \<Rightarrow> registry \<Rightarrow> bool" where
  "witness_write a longer st st' \<longleftrightarrow>
     (\<forall>b. map_of (rg_notices st') b = map_of (rg_notices st) b \<or> map_of (rg_notices st') b = None) \<and>
     rg_restore st' = rg_restore st \<and>
     (\<forall>b. has_key (rg_released st') b \<longrightarrow> has_key (rg_released st) b \<or> longer \<and> b = a) \<and>
     rg_kel_changes st \<le> rg_kel_changes st'"

lemma witness_write_same: "same_witness st st' \<Longrightarrow> witness_write a longer st st'"
  by (simp add: same_witness_def witness_write_def)

lemma witness_write_trans [trans]:
  "witness_write a longer s t \<Longrightarrow> witness_write a longer t u \<Longrightarrow> witness_write a longer s u"
  unfolding witness_write_def by (intro conjI allI impI) (metis order_trans)+

lemma witness_write_count: "witness_write a longer st (countKELChangeTx st)"
  by (simp add: witness_write_def countKELChangeTx_def)

lemma witness_write_forget: "witness_write a longer st (forgetNoticeTx a' st)"
  by (simp add: witness_write_def forgetNoticeTx_def delete_conv')

lemma witness_write_release: "witness_write a True st (releaseTx a how now st)"
  by (simp add: witness_write_def releaseTx_def forgetNoticeTx_def delete_conv' has_key_update)

lemma witness_write_changed:
  assumes "kelChangedTx c a' k st = Inr st'"
  shows "witness_write a longer st st'"
proof -
  obtain u where "same_witness st u" "st' = forgetNoticeTx a' u"
    using assms same_witness_small(3) same_witness_refl
    by (auto simp: kelChangedTx_def split: option.splits if_splits) (use same_witness_small(2) in blast)+
  then show ?thesis by (auto intro: witness_write_trans [OF witness_write_same witness_write_forget])
qed

lemma witness_write_put:
  assumes "putAgent c h draw now a name caps k ext adm st = Inr (st', admitted, changed)" and "extends_held c st a ext = Inr longer"
  shows "witness_write a longer st st'"
proof -
  obtain longer' s1 s2 s3 where x: "extends_held c st a ext = Inr longer'"
    "admission_of h now a (AgentKEL st a \<noteq> None) adm (put_row c now a name caps k st) = Inr (s1, admitted)"
    "(if changed then kelChangedTx c a k s1 else Inr s1) = Inr s2"
    "s3 = (let s = (if changed \<or> AgentKEL st a = None then countKELChangeTx s2 else s2)
           in if longer' then releaseTx a releasedLongerKEL now s else s)"
    "refreshDirTx c h draw a s3 = Inr st'"
    using putAgent_Inr [OF assms(1)] by metis
  define u where "u = (if changed \<or> AgentKEL st a = None then countKELChangeTx s2 else s2)"
  have l: "longer' = longer" using x(1) assms(2) by simp
  have "same_witness st (put_row c now a name caps k st)"
    by (simp add: put_row_def replace_caps_def upsert_agent_def Let_def same_witness_def)
  also have "same_witness \<dots> s1" by (rule same_witness_admission [OF x(2)])
  finally have "witness_write a longer st s1" by (rule witness_write_same)
  also have "witness_write a longer s1 s2"
    using x(3) by (auto intro: witness_write_changed witness_write_same split: if_splits)
  also have "witness_write a longer s2 u" by (auto simp: u_def witness_write_count intro: witness_write_same)
  also have s3: "witness_write a longer u s3"
  proof -
    have "s3 = (if longer then releaseTx a releasedLongerKEL now u else u)" by (simp only: x(4) u_def l Let_def)
    then show ?thesis by (cases longer) (simp_all add: witness_write_release witness_write_same)
  qed
  also have "witness_write a longer s3 st'" by (rule witness_write_same [OF same_witness_refreshDir [OF x(5)]])
  finally show ?thesis .
qed

lemma witness_write_dereg:
  assumes "DeregisterTx c now a why st = Inr (st', d)"
  shows "witness_write b longer st st'"
  using assms by (rule DeregisterTx_tables) (simp add: witness_write_def delete_conv' has_key_delete)

lemma witness_write_tombstone: "writeTombstone c a k st = Inr st' \<Longrightarrow> witness_write b longer st st'"
  by (auto simp: writeTombstone_Inr witness_write_def countKELChangeTx_def)

lemma witness_write_push_registered:
  assumes "push_registered c h draw now a raw dip st = Inr st'"
  shows "witness_write a True st st'"
proof -
  define u where "u = update_agent a (\<lambda>r. r\<lparr>ag_kel := raw, ag_tip_seq := fst (storedTip c raw), ag_tip_head := snd (storedTip c raw)\<rparr>) st"
  note A = assms [unfolded push_registered_def Let_def, folded u_def]
  have "witness_write a True st (countKELChangeTx u)"
    unfolding u_def by (rule witness_write_trans [OF witness_write_same [OF same_witness_small(1)] witness_write_count])
  also have "witness_write a True (countKELChangeTx u) st'"
  proof (cases dip)
    case True
    with A show ?thesis by (auto simp: rbind_eq_Inr intro: witness_write_dereg)
  next
    case False
    then obtain v where v: "kelChangedTx c a raw (countKELChangeTx u) = Inr v"
      "refreshDirTx c h draw a (releaseTx a releasedLongerKEL now v) = Inr st'" using A by (auto simp: rbind_eq_Inr)
    have "witness_write a True (countKELChangeTx u) v" by (rule witness_write_changed [OF v(1)])
    also have "witness_write a True v (releaseTx a releasedLongerKEL now v)" by (rule witness_write_release)
    also have "witness_write a True \<dots> st'" by (rule witness_write_same [OF same_witness_refreshDir [OF v(2)]])
    finally show ?thesis .
  qed
  finally show ?thesis .
qed

section \<open>Which steps write what\<close>

text \<open>
  Every step but those of the notices and the quarantine itself is a write by one AID; the AID is
  released only when its history has grown.
\<close>

definition longer_kel :: "registry_core \<Rightarrow> registry \<Rightarrow> registry \<Rightarrow> aid \<Rightarrow> bool" where
  "longer_kel c st st' a \<longleftrightarrow> (\<forall>k. held_kel c st a = Some k \<longrightarrow> (\<exists>k'. held_kel c st' a = Some k' \<and> length k < length k'))"

inductive witness_step :: "registry_core \<Rightarrow> hub_conf \<Rightarrow> time_ns \<Rightarrow> hub_state \<Rightarrow> hub_state \<Rightarrow> bool"
  for c :: registry_core and h :: hub_conf where
  w_write: "witness_write a longer (hb_db s) st' \<Longrightarrow> (longer \<Longrightarrow> longer_kel c (hb_db s) st' a) \<Longrightarrow>
     witness_step c h now s (s\<lparr>hb_db := st'\<rparr>)"
| w_notice: "NoticeFor c h draw now a seen_st (hb_db s) = Inr (st', ans) \<Longrightarrow> witness_step c h now s (s\<lparr>hb_db := st'\<rparr>)"
| w_current_key: "witness_step c h now s (s\<lparr>hb_db := releaseOnCurrentKey c h draw now a (hb_mem s) seen_st (hb_db s)\<rparr>)"
| w_end: "EndQuarantineWhenNoneHeld now (hb_mem s) (hb_db s) = (m, st') \<Longrightarrow> witness_step c h now s (s\<lparr>hb_db := st', hb_mem := m\<rparr>)"
| w_begin: "BeginServing c h draws now (hb_mem s) (hb_db s) = Inr (m, st') \<Longrightarrow> witness_step c h now s (s\<lparr>hb_db := st', hb_mem := m\<rparr>)"
| w_sync: "syncKELHighWater (hb_db s) (hb_mem s, hb_file s) = (m, f) \<Longrightarrow> witness_step c h now s (s\<lparr>hb_mem := m, hb_file := f\<rparr>)"
| w_restart: "checkKELHighWater now (hb_db s) (m0, hb_file s) = Inr (st', m, f) \<Longrightarrow>
     witness_step c h now s \<lparr>hb_db = st', hb_mem = m, hb_file = f\<rparr>"

lemma w_same: "same_witness (hb_db s) st' \<Longrightarrow> witness_step c h now s (s\<lparr>hb_db := st'\<rparr>)"
  by (rule w_write [where longer = False and a = "''''"]) (auto intro: witness_write_same)

lemma longer_register:
  assumes "kel_law c" "MarshalKEL c evs = Some raw" "extends_held c st a (Some evs) = Inr True"
    and "fst (registrationKEL st' a) = Some raw"
  shows "longer_kel c st st' a"
  using extends_held_Inr [OF assms(3)] assms(1,2,4)
  by (auto simp: longer_kel_def held_kel_def kel_law_def split: option.splits)

lemma push_longer:
  assumes "kel_law c" and held: "fst (registrationKEL st a) = Some hb" "UnmarshalKEL c hb = Some hk"
    and "ExtendsKEL c hk k = None" "length k \<noteq> length hk" "MarshalKEL c k = Some raw" "fst (registrationKEL st' a) = Some raw"
  shows "longer_kel c st st' a"
proof -
  have "hk \<noteq> []" using assms(1) held(2) by (auto simp: kel_law_def)
  then have "prefix hk k" using assms(1,4) by (auto simp: kel_law_def)
  then have "length hk < length k" using assms(5) prefix_length_le [of hk k] by linarith
  with assms show ?thesis by (auto simp: longer_kel_def held_kel_def kel_law_def)
qed

lemma witness_step_register:
  assumes "kel_law c" "MarshalKEL c evs = Some raw"
    "registerAgent c h draw now a name caps raw evs adm (hb_db s) = Inr (st', admitted, changed)"
  shows "witness_step c h now s (s\<lparr>hb_db := st'\<rparr>)"
proof -
  have put: "putAgent c h draw now a name caps raw (Some evs) adm (hb_db s) = Inr (st', admitted, changed)"
    using assms(3) by (simp add: registerAgent_def split: if_splits)
  obtain longer where longer: "extends_held c (hb_db s) a (Some evs) = Inr longer" using putAgent_Inr [OF put] by metis
  show ?thesis
  proof (rule w_write [OF witness_write_put [OF put longer]])
    assume "longer"
    with longer show "longer_kel c (hb_db s) st' a"
      by (intro longer_register [OF assms(1,2)]) (simp_all add: registrationKEL_eq putAgent_kels [OF put])
  qed
qed

lemma witness_step_push:
  assumes "kel_law c" "pushKELLocked c h draw now a k (hb_db s) = Inr (st', res, registered)"
  shows "witness_step c h now s (s\<lparr>hb_db := st'\<rparr>)"
proof -
  obtain hb held where P: "registrationKEL (hb_db s) a = (Some hb, registered)" "UnmarshalKEL c hb = Some held"
    "ExtendsKEL c held k = None"
    "if length k = length held then st' = hb_db s \<and> ps_unchanged res \<and> \<not> ps_deregistered res
     else \<not> ps_unchanged res \<and> CheckNewEvents c held k (word_of_int (unix_milli now)) (firstWitness k (hubAID h)) = None \<and>
       ps_deregistered res = (registered \<and> EvType (last k) = Deactivation) \<and>
       (\<exists>raw. MarshalKEL c k = Some raw \<and>
          (if registered then push_registered c h draw now a raw (EvType (last k) = Deactivation) (hb_db s) = Inr st'
           else writeTombstone c a raw (hb_db s) = Inr st'))"
    using pushKELLocked_Inr [OF assms(2)] by metis
  show ?thesis
  proof (cases "length k = length held")
    case True
    with P(4) have "st' = hb_db s" by simp
    with w_same [of s st'] show ?thesis by simp
  next
    case False
    then obtain raw where raw: "MarshalKEL c k = Some raw"
      "if registered then push_registered c h draw now a raw (EvType (last k) = Deactivation) (hb_db s) = Inr st'
       else writeTombstone c a raw (hb_db s) = Inr st'" using P(4) by auto
    show ?thesis
    proof (cases registered)
      case True
      then have w: "push_registered c h draw now a raw (EvType (last k) = Deactivation) (hb_db s) = Inr st'" using raw(2) by simp
      have reg: "AgentKEL (hb_db s) a \<noteq> None"
        using P(1) True by (auto simp: registrationKEL_def AgentKEL_def split: option.splits)
      have "fst (registrationKEL st' a) = Some raw"
        using push_registered_kels [OF w reg] by (auto simp: registrationKEL_eq split: if_splits)
      then have "longer_kel c (hb_db s) st' a"
        using P False raw(1) by (intro push_longer [OF assms(1)]) simp_all
      with witness_write_push_registered [OF w] show ?thesis by (auto intro: w_write)
    next
      case nreg: False
      then show ?thesis using raw(2)
        by (auto intro: w_write [where longer = False, OF witness_write_tombstone [where b = a]])
    qed
  qed
qed

lemma reg_witness_step:
  assumes "kel_law c" "reg_step c h now s s'"
  shows "witness_step c h now s s'"
  using assms(2)
proof cases
  case (r_dereg a why st' d)
  then show ?thesis
    by (auto intro: w_write [where longer = False, OF witness_write_dereg [where b = a]])
next
  case (r_revoke a st' rv)
  have "(\<exists>d. DeregisterTx c now a DeregRevoked (hb_db s) = Inr (st', d)) \<or> same_witness (hb_db s) st'"
    using r_revoke(2) same_witness_small(7) by (auto simp: revoke_tx_def split: if_splits sum.splits prod.splits)
  with r_revoke(1) show ?thesis
    by (auto intro: w_same w_write [where longer = False, OF witness_write_dereg [where b = a]])
next
  case (r_sweep a cutoff st' swept)
  then have "st' = hb_db s \<or> (\<exists>d. DeregisterTx c now a DeregInactive (hb_db s) = Inr (st', d))"
    by (auto simp: sweepOne_def rbind_eq_Inr split: if_splits)
  with r_sweep(1) show ?thesis
    by (auto intro: w_same w_write [where longer = False, OF witness_write_dereg [where b = a]])
next
  case (r_profile a summary readme st')
  then have "same_witness (hb_db s) st'" by (auto simp: PutProfile_def same_witness_small split: if_splits)
  with r_profile(1) show ?thesis by (simp add: w_same)
next
  case (r_poll a)
  then show ?thesis by (simp add: w_same SeenPolling_def same_witness_small)
next
  case (r_after in_process a st' as)
  then have "same_witness (hb_db s) st'" by (auto simp: afterDereg_def same_witness_def split: if_splits)
  with r_after(1) show ?thesis by (simp add: w_same)
next
  case (r_drain e)
  then show ?thesis by (simp add: w_same drain_one_def same_witness_def)
next
  case (r_other st')
  then show ?thesis by (simp add: w_same elsewhere_def same_witness_def)
qed (use assms(1) in \<open>auto intro: witness_step_register witness_step_push w_same same_witness_ops witness_step.intros\<close>)

section \<open>Signed notices\<close>

text \<open>A cached notice is one this hub signed, for the AID it is kept under.\<close>

definition notices_signed :: "registry_core \<Rightarrow> registry \<Rightarrow> bool" where
  "notices_signed c st \<longleftrightarrow> (\<forall>a n. map_of (rg_notices st) a = Some n \<longrightarrow>
     (\<exists>sq. nt_seq n = sint sq \<and> SignNotice c \<lparr>nb_aid = a, nb_seq = sq, nb_head = nt_head n,
        nb_observed_at = word_of_int (nt_observed_at n)\<rparr> = Some (nt_blob n)))"

lemma notices_signed_write: "witness_write a longer st st' \<Longrightarrow> notices_signed c st \<Longrightarrow> notices_signed c st'"
  unfolding witness_write_def notices_signed_def by (metis option.distinct(1))

lemma issueNoticeTx_Inr:
  assumes "issueNoticeTx c h now a st = Inr (st', ans, isnew)"
  obtains (kept) "st' = st" "\<not> isnew"
  | (isnew) tip b where "judgeNotice c h now a st = Inr (Judged tip None)" "ans = Inr b" "isnew"
      "SignNotice c \<lparr>nb_aid = a, nb_seq = StKeyStateSeq tip, nb_head = StLastEventID tip, nb_observed_at = word_of_int (unix_milli now)\<rparr> = Some b"
      "st' = st\<lparr>rg_notices := AList.update a \<lparr>nt_seq = sint (StKeyStateSeq tip), nt_head = StLastEventID tip,
         nt_observed_at = unix_milli now, nt_blob = b\<rparr> (rg_notices st)\<rparr>"
proof -
  obtain j where j: "judgeNotice c h now a st = Inr j" using assms by (auto simp: issueNoticeTx_def rbind_eq_Inr)
  show ?thesis
  proof (cases j)
    case (Judged tip f)
    show ?thesis
    proof (cases f)
      case None
      obtain b where b: "SignNotice c \<lparr>nb_aid = a, nb_seq = StKeyStateSeq tip, nb_head = StLastEventID tip,
          nb_observed_at = word_of_int (unix_milli now)\<rparr> = Some b"
        using assms j Judged None by (cases "SignNotice c \<lparr>nb_aid = a, nb_seq = StKeyStateSeq tip, nb_head = StLastEventID tip,
          nb_observed_at = word_of_int (unix_milli now)\<rparr>") (simp_all add: issueNoticeTx_def)
      show ?thesis by (rule isnew [OF _ _ _ b]) (use assms j Judged None b in \<open>simp_all add: issueNoticeTx_def\<close>)
    qed (use assms j Judged in \<open>auto simp: issueNoticeTx_def intro: kept\<close>)
  qed (use assms j in \<open>auto simp: issueNoticeTx_def intro: kept\<close>)
qed

lemma NoticeFor_Inr:
  assumes "NoticeFor c h draw now a seen st = Inr (st', ans)"
  obtains (kept) "st' = st"
  | (isnew) tip b u where "judgeNotice c h now a st = Inr (Judged tip None)" "ans = Inr b"
      "SignNotice c \<lparr>nb_aid = a, nb_seq = StKeyStateSeq tip, nb_head = StLastEventID tip, nb_observed_at = word_of_int (unix_milli now)\<rparr> = Some b"
      "u = st\<lparr>rg_notices := AList.update a \<lparr>nt_seq = sint (StKeyStateSeq tip), nt_head = StLastEventID tip,
         nt_observed_at = unix_milli now, nt_blob = b\<rparr> (rg_notices st)\<rparr>" "refreshDirTx c h draw a u = Inr st'"
proof -
  obtain j where j: "judgeNotice c h now a seen = Inr j" using assms by (auto simp: NoticeFor_def rbind_eq_Inr)
  show ?thesis
  proof (cases "\<exists>tip. j = Judged tip None")
    case True
    then have "notice_tx c h draw now a st = Inr (st', ans)" using assms j by (auto simp: NoticeFor_def)
    then obtain x ans' isnew where x: "issueNoticeTx c h now a st = Inr (x, ans', isnew)"
      "if isnew then refreshDirTx c h draw a x = Inr st' \<and> ans = ans' else st' = st"
      by (cases "issueNoticeTx c h now a st") (auto simp: notice_tx_def rbind_eq_Inr split: if_splits)
    from x(1) show ?thesis
    proof (cases rule: issueNoticeTx_Inr)
      case kept
      with x(2) that(1) show ?thesis by simp
    next
      case (isnew tip b)
      with x(2) show ?thesis by (intro that(2) [OF isnew(1) _ isnew(4,5)]) simp_all
    qed
  qed (use assms j that(1) in \<open>auto simp: NoticeFor_def split: notice_judgement.splits option.splits\<close>)
qed

lemma notices_signed_step:
  assumes "witness_step c h now s s'" "notices_signed c (hb_db s)"
  shows "notices_signed c (hb_db s')"
  using assms(1)
proof cases
  case (w_write a longer st')
  with assms(2) show ?thesis by (simp add: notices_signed_write)
next
  case (w_notice draw a seen_st st' ans)
  from w_notice(2) show ?thesis
  proof (cases rule: NoticeFor_Inr)
    case (isnew tip b u)
    have "notices_signed c u" using assms(2) isnew(3) by (auto simp: isnew(4) notices_signed_def map_of_update_eq)
    moreover have "rg_notices st' = rg_notices u" using same_witness_refreshDir [OF isnew(5)] by (simp add: same_witness_def)
    ultimately show ?thesis using w_notice(1) by (simp add: notices_signed_def)
  qed (use assms(2) w_notice(1) in simp)
next
  case (w_current_key draw a seen_st)
  have "witness_write a True (hb_db s) (releaseOnCurrentKey c h draw now a (hb_mem s) seen_st (hb_db s))"
    by (auto simp: releaseOnCurrentKey_def committed_or_def split: sum.split
      intro: witness_write_same witness_write_trans [OF witness_write_release witness_write_same [OF same_witness_refreshDir]])
  with assms(2) w_current_key show ?thesis by (simp add: notices_signed_write)
next
  case (w_end m st')
  then have "rg_notices st' = rg_notices (hb_db s)" by (auto simp: EndQuarantineWhenNoneHeld_def split: if_splits)
  with assms(2) w_end(1) show ?thesis by (simp add: notices_signed_def)
next
  case (w_begin draws m st')
  then have "rg_notices st' = rg_notices (hb_db s)"
    by (auto simp: BeginServing_def rbind_eq_Inr same_witness_def split: option.splits if_splits dest!: same_witness_refresh_dirs)
  with assms(2) w_begin(1) show ?thesis by (simp add: notices_signed_def)
next
  case (w_sync m f)
  with assms(2) show ?thesis by simp
next
  case (w_restart m0 st' m f)
  have "rg_notices st' = rg_notices (hb_db s) \<or> rg_notices st' = []"
    using w_restart(2)
    by (rule checkKELHighWater_Inr) (auto simp: beginRollbackQuarantine_def rbind_eq_Inr Let_def startQuarantineTx_def set_agents_def split: if_splits)
  with assms(2) w_restart(1) show ?thesis by (auto simp: notices_signed_def)
qed

end
