(* ===== verification/Registry_Demo.thy ===== *)
theory Registry_Demo
  imports Demo Witness_Laws
begin

text \<open>
  A concrete instance for the registry: three key histories (an inception, a rotation after it, a
  deactivation after it), each encoded as one byte, and a hub with two agents. The core is \<open>demo_core\<close>
  with these histories. It shows that \<open>kel_law\<close> can hold.
\<close>

section \<open>A core\<close>

definition ev0 :: kel_event where
  "ev0 = \<lparr>EvType = Inception, EvKeys = [replicate 32 7], EvSeq = 0, EvWitnesses = [], EvEventID = ''e0''\<rparr>"

definition ev_rot :: kel_event where
  "ev_rot = \<lparr>EvType = Rotation, EvKeys = [replicate 32 8], EvSeq = 1, EvWitnesses = [''H''], EvEventID = ''e1''\<rparr>"

definition ev_dip :: kel_event where
  "ev_dip = \<lparr>EvType = Deactivation, EvKeys = [], EvSeq = 1, EvWitnesses = [], EvEventID = ''d1''\<rparr>"

definition demo_read_kel :: "bytes \<Rightarrow> kel option" where
  "demo_read_kel b = (if b = [1] then Some [ev0] else if b = [2] then Some [ev0, ev_rot] else if b = [3] then Some [ev0, ev_dip] else None)"

definition demo_states :: "kel \<Rightarrow> key_state list" where
  "demo_states k = map (\<lambda>e. \<lparr>StKeyStateSeq = EvSeq e, StStatus = (if EvType e = Deactivation then StatusDeactivated else StatusActive),
     StAID = ''alice'', StToad = 1, StWitness = ''H'', StLastEventID = EvEventID e\<rparr>) k"

definition demo_set :: signed_key_set where
  "demo_set = \<lparr>sk_set = [5], sk_key_state_seq = 0, sk_sig = [6]\<rparr>"

definition demo_enc_set :: enc_key_set where
  "demo_enc_set = \<lparr>ek_seq = 10, ek_mbox = \<lparr>mb_epoch = 1, mb_pub = [1]\<rparr>\<rparr>"

text \<open>The next set, with a new mailbox key.\<close>

definition demo_set2 :: signed_key_set where
  "demo_set2 = \<lparr>sk_set = [6], sk_key_state_seq = 0, sk_sig = [6]\<rparr>"

definition demo_decode_set :: "bytes \<Rightarrow> enc_key_set option" where
  "demo_decode_set b = (if b = [5] then Some demo_enc_set
     else if b = [6] then Some \<lparr>ek_seq = 11, ek_mbox = \<lparr>mb_epoch = 2, mb_pub = [2]\<rparr>\<rparr> else None)"

definition demo_verified :: card_verified where
  "demo_verified = \<lparr>cv_aid = ''alice'', cv_seq = 1, cv_hash = replicate 32 0, cv_name = ''Alice'',
     cv_skills = [\<lparr>skl_id = ''cas.put'', skl_name = ''Store'', skl_tags = [''storage'']\<rparr>]\<rparr>"

definition reg_core :: registry_core where
  "reg_core = \<lparr>MaxAuthWindow = MaxAuthWindow demo_core, MaxSkewMillis = MaxSkewMillis demo_core, SchemeCredit = SchemeCredit demo_core,
     CreditNetwork = CreditNetwork demo_core, ParseAmount = ParseAmount demo_core,
     UnmarshalAuthorization = UnmarshalAuthorization demo_core, AuthID = AuthID demo_core, AuthVerify = AuthVerify demo_core,
     AuthPreimage = AuthPreimage demo_core, EnvelopeValid = EnvelopeValid demo_core, Ed25519Verify = Ed25519Verify demo_core,
     UnmarshalKEL = demo_read_kel, Replay = (\<lambda>k. if k = [] then None else Some (demo_states k)),
     SettleGuard = SettleGuard demo_core, SignReceipt = SignReceipt demo_core, UnmarshalReceipt = UnmarshalReceipt demo_core,
     ReceiptVerify = ReceiptVerify demo_core,
     MarshalKEL = (\<lambda>k. if k = [ev0] then Some [1] else if k = [ev0, ev_rot] then Some [2] else if k = [ev0, ev_dip] then Some [3] else None),
     ParseKEL = demo_read_kel, ExtendsKEL = (\<lambda>k l. if prefix k l then None else Some ErrKELFork),
     CheckNewEvents = (\<lambda>held k now first. None), ToadAgent = 1, SignNotice = (\<lambda>n. Some [9]),
     UnmarshalKeySet = (\<lambda>b. if b = [4] then Some demo_set else if b = [7] then Some demo_set2 else None),
     MarshalKeySet = (\<lambda>s. if s = demo_set then Some [4] else if s = demo_set2 then Some [7] else None),
     DecideHighWater = (\<lambda>seen s. case demo_decode_set (sk_set s) of None \<Rightarrow> None | Some es \<Rightarrow> Some (case seen of None \<Rightarrow> HWReplace | Some (q, b) \<Rightarrow>
       if q < ek_seq es then HWReplace else if q = ek_seq es \<and> b = sk_set s then HWSame else if q = ek_seq es then HWFork else HWIgnore)),
     DecodeEncKeySet = demo_decode_set, DecodeEncKeySetLoose = demo_decode_set,
     VerifyEncKeySet = (\<lambda>s a k now. case demo_decode_set (sk_set s) of None \<Rightarrow> Inl KeySetRefused
       | Some es \<Rightarrow> if k \<noteq> [] \<and> EvSeq (last k) = sk_key_state_seq s then Inr es else Inl BadKeyState),
     DecodeNotice = (\<lambda>b. None), DirMarshal = (\<lambda>e. Some [0]), DirOpen = (\<lambda>a x y. None), DirHash = (\<lambda>a. Some (map (\<lambda>ch. of_char ch) a)),
     DirSeal = (\<lambda>a e d. Some d), DirHashLen = 2, DirCheckPrefix = (\<lambda>b n. True), DirOverhead = 0, DirMaxBoxLen = 100,
     CardVerify = (\<lambda>raw a k now. Inr (Some demo_verified)), CardHighWater = (\<lambda>seen m. Inr HWReplace), JsonDecode = (\<lambda>b. None),
     CardDescription = (\<lambda>b. ''''), CardRelayHub = (\<lambda>b. ''''), ToLower = (\<lambda>s. s)\<rparr>"

lemma ev_neq [simp]: "ev0 \<noteq> ev_rot" "ev_rot \<noteq> ev0" "ev0 \<noteq> ev_dip" "ev_dip \<noteq> ev0" "ev_rot \<noteq> ev_dip" "ev_dip \<noteq> ev_rot"
  by (simp_all add: ev0_def ev_rot_def ev_dip_def)

lemma reg_core_kels [simp]:
  "UnmarshalKEL reg_core = demo_read_kel" "ParseKEL reg_core = demo_read_kel"
  "ExtendsKEL reg_core k l = (if prefix k l then None else Some ErrKELFork)"
  "MarshalKEL reg_core k = (if k = [ev0] then Some [1] else if k = [ev0, ev_rot] then Some [2] else if k = [ev0, ev_dip] then Some [3] else None)"
  "CheckNewEvents reg_core held k n f = None" "UnmarshalKeySet reg_core b = (if b = [4] then Some demo_set else if b = [7] then Some demo_set2 else None)"
  "MarshalKeySet reg_core s = (if s = demo_set then Some [4] else if s = demo_set2 then Some [7] else None)"
  "DecodeEncKeySet reg_core = demo_decode_set"
  "DecideHighWater reg_core seen s = (case demo_decode_set (sk_set s) of None \<Rightarrow> None | Some es \<Rightarrow> Some (case seen of None \<Rightarrow> HWReplace
     | Some (q, b) \<Rightarrow> if q < ek_seq es then HWReplace else if q = ek_seq es \<and> b = sk_set s then HWSame
         else if q = ek_seq es then HWFork else HWIgnore))"
  "VerifyEncKeySet reg_core s a k now = (case demo_decode_set (sk_set s) of None \<Rightarrow> Inl KeySetRefused
     | Some es \<Rightarrow> if k \<noteq> [] \<and> EvSeq (last k) = sk_key_state_seq s then Inr es else Inl BadKeyState)"
  "Replay reg_core k = (if k = [] then None else Some (demo_states k))" "ToadAgent reg_core = 1" "SignNotice reg_core nb = Some [9]"
  by (simp_all add: reg_core_def)

lemma demo_read_simps [simp]: "demo_read_kel [1] = Some [ev0]" "demo_read_kel [2] = Some [ev0, ev_rot]" "demo_read_kel [3] = Some [ev0, ev_dip]"
  by (simp_all add: demo_read_kel_def)

lemma demo_kel_law: "kel_law reg_core"
  by (auto simp: kel_law_def demo_read_kel_def split: if_splits)

lemma has_key_Cons [simp]: "has_key ((b, v) # t) a \<longleftrightarrow> b = a \<or> has_key t a"
  by (auto simp: has_key_def)

section \<open>A hub\<close>

text \<open>Alice federates, has a key set, a card and a message waiting; bob is registered.\<close>

definition demo_agent :: agent_row where
  "demo_agent = \<lparr>ag_kel = [1], ag_via = viaList, ag_probation = None, ag_trial = trialNone, ag_name = ''Alice'',
     ag_caps = [''cas.put''], ag_summary = '''', ag_readme = '''', ag_tip_seq = 0, ag_tip_head = ''e0'', ag_registered_at = 0,
     ag_visibility = ''federated'', ag_last_seen = None, ag_dir = None\<rparr>"

definition demo_card :: card_row where
  "demo_card = \<lparr>cd_card = [8], cd_seq = 1, cd_hash = Some (replicate 32 0), cd_verified = Some 0, cd_search = ''alice'', cd_fed_seq = 1\<rparr>"

definition demo_registry :: registry where
  "demo_registry = \<lparr>rg_accounts = \<lparr>ac_agents = [(''alice'', demo_agent), (''bob'', demo_agent\<lparr>ag_kel := [2]\<rparr>)], ac_admitted = [],
       ac_windows = [], ac_window_seq = 0, ac_mode = None, ac_ledger = demo_ledger\<rparr>,
     rg_caps = [(''alice'', ''cas.put'')], rg_departed = [],
     rg_relay = \<lparr>messages = [], row_seq = 1, redelivery = [], agent_keys = [(''alice'', 10, [4])], kids = []\<rparr>,
     rg_revoked = [], rg_quota = [], rg_notices = [], rg_cards = [(''alice'', demo_card)],
     rg_skills = [(''alice'', ''cas.put'', ''Store'')], rg_tags = [(''alice'', ''storage'')], rg_withdrawals = [], rg_fed_head = 1,
     rg_restore = None, rg_released = [], rg_kel_changes = 2, rg_dereg_events = [], rg_reviewed = [], rg_fed_cards = [],
     rg_fed_skills = [], rg_fed_tags = []\<rparr>"

definition demo_memory :: hub_memory where
  "demo_memory = \<lparr>hm_active = False, hm_serving = 0, hm_written = 2\<rparr>"

definition demo_state :: hub_state where
  "demo_state = \<lparr>hb_db = demo_registry, hb_mem = demo_memory, hb_file = None\<rparr>"

end
