(* ===== verification/Quarantine_Laws.thy ===== *)
theory Quarantine_Laws
  imports Witness_Laws
begin

text \<open>
  What a restored hub may state. Until it has served for \<open>RestoreQuarantine\<close>, however long ago the
  restore was, an AID leaves the quarantine only with a key history longer than the one the backup held.
\<close>

section \<open>A served notice\<close>

definition states_tip :: "registry_core \<Rightarrow> hub_conf \<Rightarrow> registry \<Rightarrow> aid \<Rightarrow> key_state \<Rightarrow> bool" where
  "states_tip c h st a tip \<longleftrightarrow> a \<noteq> hubAID h \<and> \<not> inQuarantine st a \<and>
     (\<exists>r k states. map_of (agents st) a = Some r \<and> ParseKEL c (ag_kel r) = Some k \<and> Replay c k = Some states \<and> states \<noteq> [] \<and>
        tip = last states) \<and>
     StAID tip = a \<and> StToad tip = ToadAgent c \<and> StWitness tip = hubAID h \<and> StStatus tip \<noteq> StatusDeactivated"

lemma judgeNotice_Judged:
  assumes "judgeNotice c h now a st = Inr (Judged tip f)"
  shows "states_tip c h st a tip" and "f = Some b \<Longrightarrow> \<exists>n. map_of (rg_notices st) a = Some n \<and> nt_blob n = b \<and>
    nt_seq n = sint (StKeyStateSeq tip) \<and> nt_head n = StLastEventID tip \<and> 0 \<le> unix_milli now - nt_observed_at n \<and>
    unix_milli now - nt_observed_at n \<le> unix_milli NoticeReissue"
proof -
  note A = assms [unfolded judgeNotice_def Let_def]
  have h: "hasHubKey h" "a \<noteq> hubAID h" using A by (simp_all split: if_splits)
  obtain r where r: "map_of (agents st) a = Some r" using A h by (cases "map_of (agents st) a") simp_all
  obtain k where k: "ParseKEL c (ag_kel r) = Some k" using A h r by (cases "ParseKEL c (ag_kel r)") simp_all
  obtain sts where s: "Replay c k = Some sts" using A h r k by (cases "Replay c k") simp_all
  have ne: "sts \<noteq> []" using A h r k s by (simp split: if_splits)
  have ok: "StAID (last sts) = a \<and> StToad (last sts) = ToadAgent c \<and> StWitness (last sts) = hubAID h \<and>
      StStatus (last sts) \<noteq> StatusDeactivated" using A h r k s ne by (simp split: if_splits)
  have q: "\<not> inQuarantine st a" using A h r k s ne ok by (simp split: if_splits)
  have t: "tip = last sts" using A h r k s ne ok q by (simp split: option.splits if_splits)
  show "states_tip c h st a tip" using h r k s ne ok q t by (auto simp: states_tip_def)
  show "\<exists>n. map_of (rg_notices st) a = Some n \<and> nt_blob n = b \<and>
    nt_seq n = sint (StKeyStateSeq tip) \<and> nt_head n = StLastEventID tip \<and> 0 \<le> unix_milli now - nt_observed_at n \<and>
    unix_milli now - nt_observed_at n \<le> unix_milli NoticeReissue" if "f = Some b"
    using A h r k s ne ok q t that by (simp split: option.splits if_splits)
qed

text \<open>The answer of a request for a notice, in the state it was looked up in or in the one it was issued in.\<close>

definition notice_of :: "registry_core \<Rightarrow> aid \<Rightarrow> key_state \<Rightarrow> millis \<Rightarrow> bytes option" where
  "notice_of c a tip at = SignNotice c \<lparr>nb_aid = a, nb_seq = StKeyStateSeq tip, nb_head = StLastEventID tip, nb_observed_at = word_of_int at\<rparr>"

lemma cached_notice:
  assumes "judgeNotice c h now a st = Inr (Judged tip (Some b))" "notices_signed c st"
  shows "\<exists>at. notice_of c a tip at = Some b \<and> 0 \<le> unix_milli now - at \<and> unix_milli now - at \<le> unix_milli NoticeReissue"
proof -
  obtain n where n: "map_of (rg_notices st) a = Some n" "nt_blob n = b" "nt_seq n = sint (StKeyStateSeq tip)"
    "nt_head n = StLastEventID tip" "0 \<le> unix_milli now - nt_observed_at n" "unix_milli now - nt_observed_at n \<le> unix_milli NoticeReissue"
    using judgeNotice_Judged(2) [OF assms(1)] by blast
  then obtain sq where sq: "nt_seq n = sint sq" "SignNotice c \<lparr>nb_aid = a, nb_seq = sq, nb_head = nt_head n,
      nb_observed_at = word_of_int (nt_observed_at n)\<rparr> = Some b" using assms(2) unfolding notices_signed_def by blast
  have "sq = StKeyStateSeq tip" by (rule signed_word_eqI [where ?'a = int]) (use sq(1) n(3) in simp)
  with n sq have "notice_of c a tip (nt_observed_at n) = Some b" by (simp add: notice_of_def)
  with n show ?thesis by blast
qed

lemma NoticeFor_served:
  assumes "NoticeFor c h draw now a seen st = Inr (st', Inr b)" "notices_signed c seen" "notices_signed c st"
  shows "\<exists>q \<in> {seen, st}. \<exists>tip at. states_tip c h q a tip \<and> notice_of c a tip at = Some b \<and>
    0 \<le> unix_milli now - at \<and> unix_milli now - at \<le> unix_milli NoticeReissue"
proof -
  obtain j where j: "judgeNotice c h now a seen = Inr j" using assms(1) by (auto simp: NoticeFor_def rbind_eq_Inr)
  show ?thesis
  proof (cases "\<exists>tip x. j = Judged tip (Some x)")
    case True
    then obtain tip x where x: "j = Judged tip (Some x)" by blast
    with assms(1) j have "x = b" by (simp add: NoticeFor_def)
    with j x show ?thesis
      using judgeNotice_Judged(1) [of c h now a seen tip "Some b"] cached_notice [OF _ assms(2), of h now a tip b] by blast
  next
    case False
    with assms(1) j obtain tip where "j = Judged tip None" by (cases j) (auto simp: NoticeFor_def split: option.splits)
    with assms(1) j have tx: "notice_tx c h draw now a st = Inr (st', Inr b)" by (simp add: NoticeFor_def)
    then obtain u isnew where i: "issueNoticeTx c h now a st = Inr (u, Inr b, isnew)"
      by (cases "issueNoticeTx c h now a st") (auto simp: notice_tx_def rbind_eq_Inr split: if_splits)
    obtain j2 where j2: "judgeNotice c h now a st = Inr j2" using i by (auto simp: issueNoticeTx_def rbind_eq_Inr)
    obtain tip2 f where f: "j2 = Judged tip2 f" using i j2 by (cases j2) (auto simp: issueNoticeTx_def)
    show ?thesis
    proof (cases f)
      case None
      then have "notice_of c a tip2 (unix_milli now) = Some b"
        using i j2 f by (simp add: issueNoticeTx_def notice_of_def split: option.splits)
      moreover have "0 \<le> unix_milli NoticeReissue" by (simp add: NoticeReissue_def unix_milli_def time_defs)
      ultimately show ?thesis using judgeNotice_Judged(1) j2 f by (intro bexI [of _ st] exI [of _ tip2] exI [of _ "unix_milli now"]) auto
    next
      case (Some x)
      then have "x = b" using i j2 f by (simp add: issueNoticeTx_def)
      with Some f j2 show ?thesis
        using judgeNotice_Judged(1) [of c h now a st tip2 "Some b"] cached_notice [OF _ assms(3), of h now a tip2 b] by blast
    qed
  qed
qed

interpretation signed_notices: moves_forward "reg_step c h" "\<lambda>t s. kel_law c \<and> notices_signed c (hb_db s)" "\<lambda>s s'. True" for c h
  by unfold_locales (auto intro: notices_signed_step reg_witness_step)

section \<open>The quarantine\<close>

lemma unix_milli_times_ms: "unix_milli (n * ms_ns) = n"
  by (simp add: unix_milli_def ms_ns_def)

definition waited :: "time_ns \<Rightarrow> time_ns \<Rightarrow> bool" where
  "waited t0 t \<longleftrightarrow> unix_milli t - unix_milli t0 \<ge> unix_milli RestoreQuarantine"

definition outgrown :: "registry_core \<Rightarrow> registry \<Rightarrow> registry \<Rightarrow> aid \<Rightarrow> bool" where
  "outgrown c st0 st a \<longleftrightarrow> (\<forall>k0. held_kel c st0 a = Some k0 \<longrightarrow> (\<exists>k. held_kel c st a = Some k \<and> length k0 < length k))"

definition quarantined :: "registry_core \<Rightarrow> registry \<Rightarrow> time_ns \<Rightarrow> hub_state \<Rightarrow> bool" where
  "quarantined c st0 t0 s \<longleftrightarrow> (\<exists>q. rg_restore (hb_db s) = Some q \<and> (\<forall>v. rs_serving_since q = Some v \<longrightarrow> unix_milli t0 \<le> v)) \<and>
     (hm_active (hb_mem s) \<longrightarrow> hm_serving (hb_mem s) = 0 \<or> unix_milli t0 \<le> hm_serving (hb_mem s)) \<and>
     (\<forall>a. has_key (rg_released (hb_db s)) a \<longrightarrow> outgrown c st0 (hb_db s) a)"

text \<open>The step with which the hub process starts to serve under a quarantine that was not served yet, told
  by its effect: the database says since when from then on.\<close>

definition serving_begins :: "hub_state \<Rightarrow> hub_state \<Rightarrow> bool" where
  "serving_begins s s' \<longleftrightarrow> (\<exists>r r'. rg_restore (hb_db s) = Some r \<and> rs_serving_since r = None \<and>
     rg_restore (hb_db s') = Some r' \<and> rs_serving_since r' \<noteq> None)"

text \<open>A step of the registry that does not begin to serve before \<open>t0\<close>.\<close>

definition served_from :: "registry_core \<Rightarrow> hub_conf \<Rightarrow> time_ns \<Rightarrow> time_ns \<Rightarrow> hub_state \<Rightarrow> hub_state \<Rightarrow> bool" where
  "served_from c h t0 t s s' \<longleftrightarrow> reg_step c h t s s' \<and> (serving_begins s s' \<longrightarrow> unix_milli t0 \<le> unix_milli t)"

definition silent :: "registry_core \<Rightarrow> registry \<Rightarrow> time_ns \<Rightarrow> time_ns \<Rightarrow> hub_state \<Rightarrow> bool" where
  "silent c st0 t0 t s \<longleftrightarrow> kel_law c \<and> histories_grow c st0 (hb_db s) \<and> (waited t0 t \<or> quarantined c st0 t0 s)"

lemma has_key_Nil [simp]: "\<not> has_key [] a"
  by (simp add: has_key_def)

lemma outgrown_mono: "outgrown c st0 st a \<Longrightarrow> histories_grow c st st' \<Longrightarrow> outgrown c st0 st' a"
  unfolding outgrown_def histories_grow_def by (meson less_le_trans prefix_length_le)

lemma longer_outgrown: "histories_grow c st0 st \<Longrightarrow> longer_kel c st st' a \<Longrightarrow> outgrown c st0 st' a"
  unfolding outgrown_def histories_grow_def longer_kel_def by (meson le_less_trans prefix_length_le)

lemma waitOver_waited:
  assumes "waitOver now m" "hm_active m \<longrightarrow> hm_serving m = 0 \<or> unix_milli t0 \<le> hm_serving m"
  shows "waited t0 now"
  using assms by (auto simp: waitOver_def waited_def)

lemma quarantined_cong:
  assumes "quarantined c st0 t0 s" "rg_restore (hb_db s') = rg_restore (hb_db s)" "hb_mem s' = hb_mem s"
    "\<And>a. has_key (rg_released (hb_db s')) a \<Longrightarrow> has_key (rg_released (hb_db s)) a \<or> outgrown c st0 (hb_db s') a"
    "histories_grow c (hb_db s) (hb_db s')"
  shows "quarantined c st0 t0 s'"
  using assms outgrown_mono unfolding quarantined_def by metis

lemma sync_same_quarantine:
  "syncKELHighWater st (m, content) = (m', f) \<Longrightarrow> hm_active m' = hm_active m \<and> hm_serving m' = hm_serving m"
  by (auto simp: syncKELHighWater_def split: sum.splits if_splits hwm_read.splits)

lemma restart_quarantine:
  assumes "checkKELHighWater now st (m0, content) = Inr (st', m, f)"
  shows "(rg_restore st' = rg_restore st \<and> rg_released st' = rg_released st \<or>
      rg_restore st' = Some \<lparr>rs_began_at = unix_milli now, rs_why = quarantineRollback, rs_serving_since = None\<rparr> \<and> rg_released st' = []) \<and>
    (\<exists>m1. m = loadQuarantine st' m1)"
  using assms
  by (auto elim!: checkKELHighWater_Inr simp: beginRollbackQuarantine_def rbind_eq_Inr Let_def startQuarantineTx_def split: if_splits)

lemma quarantined_step:
  assumes w: "witness_step c h t s s'" and q: "quarantined c st0 t0 s"
    and since: "serving_begins s s' \<Longrightarrow> unix_milli t0 \<le> unix_milli t"
    and g0: "histories_grow c st0 (hb_db s)" and g: "histories_grow c (hb_db s) (hb_db s')"
  shows "waited t0 t \<or> quarantined c st0 t0 s'"
  using w
proof cases
  case (w_write a longer st')
  have "quarantined c st0 t0 s'"
  proof (rule quarantined_cong [OF q _ _ _ g])
    show "has_key (rg_released (hb_db s)) b \<or> outgrown c st0 (hb_db s') b" if "has_key (rg_released (hb_db s')) b" for b
      using that w_write longer_outgrown [OF g0] by (auto simp: witness_write_def)
  qed (use w_write in \<open>simp_all add: witness_write_def\<close>)
  then show ?thesis ..
next
  case (w_notice draw a seen_st st' ans)
  from w_notice(2) have same: "rg_restore st' = rg_restore (hb_db s) \<and> rg_released st' = rg_released (hb_db s)"
    by (cases rule: NoticeFor_Inr) (auto dest!: same_witness_refreshDir simp: same_witness_def)
  have "quarantined c st0 t0 s'" by (rule quarantined_cong [OF q _ _ _ g]) (use w_notice(1) same in auto)
  then show ?thesis ..
next
  case (w_current_key draw a seen_st)
  show ?thesis
  proof (cases "waitOver t (hb_mem s)")
    case True
    with q show ?thesis by (auto simp: quarantined_def dest: waitOver_waited)
  next
    case False
    then have "releaseOnCurrentKey c h draw t a (hb_mem s) seen_st (hb_db s) = hb_db s" by (simp add: releaseOnCurrentKey_def)
    with w_current_key q show ?thesis by simp
  qed
next
  case (w_end m st')
  show ?thesis
  proof (cases "waitOver t (hb_mem s)")
    case True
    with q show ?thesis by (auto simp: quarantined_def dest: waitOver_waited)
  next
    case False
    with w_end have "s' = s" by (simp add: EndQuarantineWhenNoneHeld_def)
    with q show ?thesis by simp
  qed
next
  case (w_begin draws m st')
  have "quarantined c st0 t0 s'"
  proof (cases "rg_restore (hb_db s)")
    case None
    with q show ?thesis by (auto simp: quarantined_def)
  next
    case (Some r)
    show ?thesis
    proof (cases "rs_serving_since r = None")
      case True
      define u where "u = (hb_db s)\<lparr>rg_restore := Some (r\<lparr>rs_serving_since := Some (unix_milli t)\<rparr>)\<rparr>"
      have run: "refresh_dirs c h draws (sort (map fst (agents (hb_db s)))) u = Inr st'" "m = set_quarantine True (unix_milli t) (hb_mem s)"
        using w_begin(2) Some True by (auto simp: BeginServing_def u_def rbind_eq_Inr)
      have "rg_restore st' = Some (r\<lparr>rs_serving_since := Some (unix_milli t)\<rparr>)" "rg_released st' = rg_released (hb_db s)"
        using same_witness_refresh_dirs [OF run(1)] by (simp_all add: same_witness_def u_def)
      moreover from this have ms: "unix_milli t0 \<le> unix_milli t" using since Some True w_begin(1) by (simp add: serving_begins_def)
      ultimately show ?thesis using q w_begin(1) run(2) g by (auto simp: quarantined_def set_quarantine_def intro: outgrown_mono)
    next
      case False
      with w_begin Some have "s' = s" by (cases s) (auto simp: BeginServing_def)
      with q show ?thesis by simp
    qed
  qed
  then show ?thesis ..
next
  case (w_sync m f)
  with sync_same_quarantine [OF w_sync(2)] q show ?thesis by (simp add: quarantined_def)
next
  case (w_restart m0 st' m f)
  obtain m1 where R: "rg_restore st' = rg_restore (hb_db s) \<and> rg_released st' = rg_released (hb_db s) \<or>
      rg_restore st' = Some \<lparr>rs_began_at = unix_milli t, rs_why = quarantineRollback, rs_serving_since = None\<rparr> \<and> rg_released st' = []"
    "m = loadQuarantine st' m1" using restart_quarantine [OF w_restart(2)] by blast
  then have "quarantined c st0 t0 s'"
    using q g w_restart(1) by (auto simp: quarantined_def loadQuarantine_def set_quarantine_def intro: outgrown_mono split: option.splits)
  then show ?thesis ..
qed

lemma waited_mono: "waited t0 t \<Longrightarrow> t \<le> t' \<Longrightarrow> waited t0 t'"
  using unix_milli_mono [of t t'] by (simp add: waited_def)

lemma silent_step:
  assumes "silent c st0 t0 t s" "t \<le> t'" "served_from c h t0 t' s s'"
  shows "silent c st0 t0 t' s'"
proof -
  have k: "kel_law c" and g0: "histories_grow c st0 (hb_db s)" and st: "reg_step c h t' s s'"
    and since: "serving_begins s s' \<Longrightarrow> unix_milli t0 \<le> unix_milli t'"
    using assms(1,3) by (auto simp: silent_def served_from_def)
  have g: "histories_grow c (hb_db s) (hb_db s')" by (rule histories_grow_step [OF k st])
  have "waited t0 t' \<or> quarantined c st0 t0 s'"
    using assms(1) waited_mono [OF _ assms(2)] quarantined_step [OF reg_witness_step [OF k st] _ since g0 g]
    by (auto simp: silent_def)
  with k histories_grow_trans [OF g0 g] show ?thesis by (simp add: silent_def)
qed

interpretation silence: moves_forward "served_from c h t0" "silent c st0 t0" "\<lambda>s s'. True" for c h st0 t0
  by unfold_locales (auto intro: silent_step)

lemma served_from_run: "clock_run (served_from c h t0) t s r \<Longrightarrow> clock_run (reg_step c h) t s r"
  by (induction r arbitrary: t s) (auto simp: served_from_def)

text \<open>The tables of a restored database that the quarantine is about.\<close>

lemma restored_tables:
  assumes "Restore t0 backup content = Inr (st, f)"
  shows "agents st = map (\<lambda>(a, r). (a, r\<lparr>ag_dir := None\<rparr>)) (agents backup)" "key_sets st = key_sets backup"
    "rg_departed st = rg_departed backup" "rg_cards st = rg_cards backup" "rg_notices st = []" "rg_released st = []"
    "rg_restore st = Some \<lparr>rs_began_at = unix_milli t0, rs_why = quarantineRestore, rs_serving_since = None\<rparr>"
proof -
  define q where "q = startQuarantineTx quarantineRestore t0 (emptied backup)"
  obtain u n cnt where u: "quarantineCopy (hwm_count (readKELHWM content)) t0 backup = Inr (u, n, cnt)" "st = u"
    using assms by (auto simp: Restore_def rbind_eq_Inr)
  have st: "st = q \<or> (\<exists>x. st = q\<lparr>rg_kel_changes := x\<rparr>)"
    using u by (auto simp: quarantineCopy_def Let_def q_def [symmetric] rbind_eq_Inr split: if_splits)
  have q: "agents q = map (\<lambda>(a, r). (a, r\<lparr>ag_dir := None\<rparr>)) (agents backup)" "key_sets q = key_sets backup"
    "rg_departed q = rg_departed backup" "rg_cards q = rg_cards backup" "rg_notices q = []" "rg_released q = []"
    "rg_restore q = Some \<lparr>rs_began_at = unix_milli t0, rs_why = quarantineRestore, rs_serving_since = None\<rparr>"
    by (simp_all add: q_def startQuarantineTx_def emptied_def key_sets_def [of backup])
  from st show "agents st = map (\<lambda>(a, r). (a, r\<lparr>ag_dir := None\<rparr>)) (agents backup)" "key_sets st = key_sets backup"
    "rg_departed st = rg_departed backup" "rg_cards st = rg_cards backup" "rg_notices st = []" "rg_released st = []"
    "rg_restore st = Some \<lparr>rs_began_at = unix_milli t0, rs_why = quarantineRestore, rs_serving_since = None\<rparr>"
    by (auto simp: q)
qed

lemma restored_quarantine:
  assumes "kel_law c" "Restore t0 backup content = Inr (st, f)" "\<not> hm_active m"
  shows "silent c backup t1 t0 \<lparr>hb_db = st, hb_mem = m, hb_file = f\<rparr>"
proof -
  note T = restored_tables [OF assms(2)]
  have "map_of (map (\<lambda>(a, r). (a, r\<lparr>ag_dir := None\<rparr>)) t) b = map_option (\<lambda>r. r\<lparr>ag_dir := None\<rparr>) (map_of t b)"
    for t :: "(aid, agent_row) table" and b by (induction t) auto
  then have "same_kels backup st" by (auto simp: same_kels_def AgentKEL_def T fun_eq_iff option.map_comp comp_def)
  with assms(1,3) show ?thesis by (auto simp: silent_def quarantined_def T intro: histories_same)
qed

end
