(* ===== verification/Count_Laws.thy ===== *)
theory Count_Laws
  imports Quarantine_Laws
begin

text \<open>
  The count in the file \<open>kel_hwm\<close>: what is written is what is read, no other contents read as a count, and
  the file is never ahead of the database it stands beside.
\<close>

section \<open>One spelling of a count\<close>

lemma ParseUint_small:
  assumes "digits_val 0 s = Some n" "s \<noteq> []" "n \<le> maxKELChanges"
  shows "ParseUint s = Some (word_of_nat n)" "unat (word_of_nat n :: u64) = n"
proof -
  have "n < 18446744073709551616" using assms(3) by (simp add: maxKELChanges_def)
  then show "ParseUint s = Some (word_of_nat n)" using assms(1,2) by (simp add: ParseUint_def)
  from \<open>n < 18446744073709551616\<close> show "unat (word_of_nat n :: u64) = n" by (simp add: unat_of_nat)
qed

lemma count_length: "n \<le> maxKELChanges \<Longrightarrow> length (format_nat n) \<le> 20"
  by (rule length_format_nat) (simp_all add: maxKELChanges_def)

lemma parse_write:
  assumes "n \<le> maxKELChanges"
  shows "parseKELHWM (writeKELHWM n) = Some n"
proof -
  have d: "digits_val 0 (format_nat n) = Some n" by (rule digits_val_format)
  have l: "\<not> (length (format_nat n) > 1 \<and> hd (format_nat n) = CHR ''0'')" using format_nat_leading by blast
  show ?thesis
    using ParseUint_small [OF d format_nat_not_Nil assms] count_length [OF assms] l assms
    by (simp add: parseKELHWM_def writeKELHWM_def Let_def format_nat_digits)
qed

lemma parse_reads_counts:
  assumes "parseKELHWM b = Some n"
  shows "n \<le> maxKELChanges \<and> b = writeKELHWM n"
proof -
  have b: "b \<noteq> []" "last b = newline" using assms by (simp_all add: parseKELHWM_def split: if_splits)
  define ds where "ds = butlast b"
  have ds: "b = ds @ [newline]" using b by (simp add: ds_def) (metis append_butlast_last_id)
  have c: "ds \<noteq> []" "\<not> (length ds > 1 \<and> hd ds = CHR ''0'')" "list_all decimal_digit ds"
    using assms b by (simp_all add: parseKELHWM_def ds_def [symmetric] Let_def split: if_splits)
  obtain w where w: "ParseUint ds = Some w" "n = unat w" "unat w \<le> maxKELChanges"
    using assms b c by (auto simp: parseKELHWM_def ds_def [symmetric] Let_def split: if_splits option.splits)
  obtain v where v: "digits_val 0 ds = Some v" "v < 18446744073709551616" "w = word_of_nat v"
    using w(1) by (auto simp: ParseUint_def split: if_splits option.splits)
  have "unat w = v" using v(2) by (simp add: v(3) unat_of_nat)
  moreover have "length ds = 1 \<or> hd ds \<noteq> CHR ''0''" using c(1,2) by (cases ds) auto
  then have "format_nat v = ds" using format_digits_val [OF v(1) c(1)] by blast
  ultimately show ?thesis using w ds by (simp add: writeKELHWM_def)
qed

lemma read_write: "n \<le> maxKELChanges \<Longrightarrow> readKELHWM (Some (writeKELHWM n)) = HwmCount n"
  using count_length [of n] parse_write [of n] by (simp add: readKELHWM_def writeKELHWM_def maxKELHWMLen_def)

lemma read_count: "readKELHWM content = HwmCount n \<Longrightarrow> n \<le> maxKELChanges"
  using parse_reads_counts by (auto simp: readKELHWM_def split: option.splits)

section \<open>The file behind the database\<close>

definition file_behind :: "hub_state \<Rightarrow> bool" where
  "file_behind s \<longleftrightarrow> (case readKELHWM (hb_file s) of HwmCount n \<Rightarrow> int n \<le> rg_kel_changes (hb_db s) | _ \<Rightarrow> True)"

lemma read_written: "readKELHWM (Some (writeKELHWM n)) = HwmCount n \<or> readKELHWM (Some (writeKELHWM n)) = HwmUnreadable"
proof (cases "n \<le> maxKELChanges")
  case True
  then show ?thesis by (simp add: read_write)
next
  case False
  show ?thesis
  proof (cases "parseKELHWM (take (maxKELHWMLen + 1) (writeKELHWM n))")
    case (Some m)
    then have t: "take (maxKELHWMLen + 1) (writeKELHWM n) = writeKELHWM m" "m \<le> maxKELChanges" using parse_reads_counts by blast+
    have nl: "newline \<notin> set (format_nat n)"
      using format_nat_digits [of n] by (auto simp: list_all_iff decimal_digit_def newline_def)
    have "length (writeKELHWM m) \<le> 21" using count_length [OF t(2)] by (simp add: writeKELHWM_def)
    then have "length (take (maxKELHWMLen + 1) (writeKELHWM n)) \<le> 21" using t(1) by simp
    then have "take (maxKELHWMLen + 1) (writeKELHWM n) = writeKELHWM n" by (simp add: maxKELHWMLen_def)
    then have "writeKELHWM n = writeKELHWM m" using t(1) by simp
    then have "format_nat n = format_nat m" by (simp add: writeKELHWM_def)
    then have "n = m" using digits_val_format by (metis option.inject)
    with t(2) False show ?thesis by simp
  qed (simp add: readKELHWM_def)
qed

lemma sync_file:
  assumes "syncKELHighWater st (m, content) = (m', f)"
  shows "f = content \<or> (\<exists>n. kelChanges st = Inr n \<and> f = Some (writeKELHWM n))"
  using assms by (auto simp: syncKELHighWater_def split: sum.splits if_splits hwm_read.splits)

lemma file_behind_written: "kelChanges st = Inr n \<Longrightarrow> hb_db s = st \<Longrightarrow> hb_file s = Some (writeKELHWM n) \<Longrightarrow> file_behind s"
  using read_written [of n] by (auto simp: file_behind_def kelChanges_def split: if_splits)

lemma file_behind_restart:
  assumes "checkKELHighWater now st (m0, content) = Inr (st', m, f)"
  shows "file_behind \<lparr>hb_db = st', hb_mem = x, hb_file = f\<rparr>"
proof -
  let ?rd = "readKELHWM content"
  obtain n m1 where A: "kelChanges st = Inr n"
    "(if n < hwm_count ?rd \<or> ?rd = HwmUnreadable then beginRollbackQuarantine (hwm_count ?rd) (?rd = HwmUnreadable) now st else Inr st) = Inr st'"
    "syncKELHighWater st' (m0\<lparr>hm_written := fst (rewritten_hwm ?rd n content)\<rparr>, snd (rewritten_hwm ?rd n content)) = (m1, f)"
    using checkKELHighWater_Inr [OF assms] by metis
  have cnt: "kelChanges st' = Inr (max n (hwm_count ?rd))"
    using A(1,2) by (auto simp: beginRollbackQuarantine_def rbind_eq_Inr Let_def kelChanges_def startQuarantineTx_def hwm_count_def max_def
        split: if_splits hwm_read.splits)
  from sync_file [OF A(3)] show ?thesis
  proof
    assume f: "f = snd (rewritten_hwm ?rd n content)"
    show ?thesis
    proof (cases ?rd)
      case (HwmCount k)
      with f cnt show ?thesis by (auto simp: rewritten_hwm_def Let_def file_behind_def hwm_count_def kelChanges_def split: if_splits)
    qed (use f cnt in \<open>auto simp: rewritten_hwm_def hwm_count_def Let_def intro: file_behind_written\<close>)
  qed (auto intro: file_behind_written)
qed

lemma file_behind_step:
  assumes "witness_step c h t s s'" "file_behind s"
  shows "file_behind s'"
proof -
  have up: "file_behind s'" if "hb_file s' = hb_file s" "rg_kel_changes (hb_db s) \<le> rg_kel_changes (hb_db s')"
    using that assms(2) by (auto simp: file_behind_def split: hwm_read.splits)
  from assms(1) show ?thesis
  proof cases
    case (w_write a longer st')
    then show ?thesis by (intro up) (simp_all add: witness_write_def)
  next
    case (w_notice draw a seen_st st' ans)
    from w_notice(2) have "rg_kel_changes st' = rg_kel_changes (hb_db s)"
      by (cases rule: NoticeFor_Inr) (auto dest!: same_witness_refreshDir simp: same_witness_def)
    with w_notice(1) show ?thesis by (intro up) simp_all
  next
    case (w_current_key draw a seen_st)
    have "witness_write a True (hb_db s) (releaseOnCurrentKey c h draw t a (hb_mem s) seen_st (hb_db s))"
      by (auto simp: releaseOnCurrentKey_def committed_or_def split: sum.split
        intro: witness_write_same witness_write_trans [OF witness_write_release witness_write_same [OF same_witness_refreshDir]])
    with w_current_key show ?thesis by (intro up) (simp_all add: witness_write_def)
  next
    case (w_end m st')
    then show ?thesis by (intro up) (auto simp: EndQuarantineWhenNoneHeld_def split: if_splits)
  next
    case (w_begin draws m st')
    then have "rg_kel_changes st' = rg_kel_changes (hb_db s)"
      by (auto simp: BeginServing_def rbind_eq_Inr same_witness_def split: option.splits if_splits dest!: same_witness_refresh_dirs)
    with w_begin(1) show ?thesis by (intro up) simp_all
  next
    case (w_sync m f)
    from sync_file [OF w_sync(2)] show ?thesis
    proof
      assume "f = hb_file s"
      with w_sync(1) show ?thesis by (intro up) simp_all
    qed (use w_sync(1) in \<open>auto intro: file_behind_written\<close>)
  next
    case (w_restart m0 st' m f)
    then show ?thesis by (simp add: file_behind_restart)
  qed
qed

interpretation file_order: moves_forward "reg_step c h" "\<lambda>t s. kel_law c \<and> file_behind s" "\<lambda>s s'. True" for c h
  by unfold_locales (auto intro: file_behind_step reg_witness_step)

section \<open>A start of the hub\<close>

lemma restart_outcome:
  assumes "n \<le> maxKELChanges" "kelChanges old = Inr k"
  shows "\<exists>m. checkKELHighWater now old (m0, Some (writeKELHWM n)) =
      Inr (if k < n then (startQuarantineTx quarantineRollback now old)\<lparr>rg_kel_changes := int n\<rparr> else old, m, Some (writeKELHWM (max k n))) \<and>
    (hm_active m \<longleftrightarrow> k < n \<or> rg_restore old \<noteq> None)"
proof -
  note rd = read_write [OF assms(1)]
  define st' where "st' = (if k < n then (startQuarantineTx quarantineRollback now old)\<lparr>rg_kel_changes := int n\<rparr> else old)"
  have b: "(if k < n \<or> HwmCount n = HwmUnreadable then beginRollbackQuarantine n (HwmCount n = HwmUnreadable) now old else Inr old) = Inr st'"
    using assms(2) by (simp add: beginRollbackQuarantine_def st'_def Let_def)
  have cnt: "kelChanges st' = Inr (max k n)"
    using assms(2) by (simp add: st'_def kelChanges_def split: if_splits)
  have q: "rg_restore st' \<noteq> None \<longleftrightarrow> k < n \<or> rg_restore old \<noteq> None"
    by (simp add: st'_def startQuarantineTx_def)
  obtain m where m: "syncKELHighWater st' (m0\<lparr>hm_written := n\<rparr>, Some (writeKELHWM n)) = (m, Some (writeKELHWM (max k n)))"
    by (cases "k \<le> n") (auto simp: syncKELHighWater_def cnt rd max_def)
  have "checkKELHighWater now old (m0, Some (writeKELHWM n)) = Inr (st', loadQuarantine st' m, Some (writeKELHWM (max k n)))"
    using b m assms(2) by (cases "k < n") (simp_all add: checkKELHighWater_def rd rewritten_hwm_def hwm_count_def Let_def)
  with q show ?thesis by (auto simp: st'_def [symmetric] loadQuarantine_def set_quarantine_def split: option.splits)
qed

end
