(* ===== verification/Registry_Properties.thy ===== *)
theory Registry_Properties
  imports Registry_Demo Count_Laws
begin

text \<open>
  The properties of the registry: key histories, departures, notices and the quarantine.
\<close>

section \<open>Key histories\<close>

text \<open>C31: A key history held here may only grow. Over any run of the registry, with registrations, pushed
  histories, departures of every kind, key sets, cards, notices, restarts and whatever the other components do
  in any order, the history the hub holds for an AID afterwards, in its row or in the tombstone it left,
  extends the one it held before: the old history is a prefix of it.\<close>

theorem key_history_only_grows:
  assumes "kel_law c" and "clock_run (reg_step c h) t s r" and "held_kel c (hb_db s) a = Some k"
  shows "\<exists>k'. held_kel c (hb_db (end_of s r)) a = Some k' \<and> prefix k k'"
  using histories.run_ahead [OF assms(2,1)] assms(3) by (auto simp: histories_grow_def)

lemma departed_history:
  assumes "DeregisterTx c now a why st = Inr (st', d)"
  shows "registrationKEL st' a = (AgentKEL st a, False)"
proof -
  obtain b where b: "AgentKEL st a = Some b" "AgentKEL st' = (AgentKEL st)(a := None)"
    "map_of (rg_departed st') = (map_of (rg_departed st))(a \<mapsto> b)" using DeregisterTx_kels [OF assms] by metis
  then have "AgentKEL st' a = None" by simp
  then have "map_of (agents st') a = None" by (simp add: AgentKEL_def)
  with b show ?thesis by (simp add: registrationKEL_def)
qed

lemma demo_departs: "\<exists>st' d. DeregisterTx reg_core now ''alice'' DeregSelf demo_registry = Inr (st', d)"
  by (rule DeregisterTx_runs [of _ _ _ demo_agent]) (simp_all add: demo_registry_def agents_def tombstone_grows_def)

lemma demo_AgentKEL: "AgentKEL demo_registry ''alice'' = Some [1]"
  by (simp add: AgentKEL_def demo_registry_def agents_def demo_agent_def)

text \<open>Alice leaves, and her node pushes a rotation to the hub that keeps her tombstone.\<close>

theorem key_history_only_grows_witness:
  "held_kel reg_core demo_registry ''alice'' = Some [ev0] \<and>
   (\<exists>s2 k'. clock_run (reg_step reg_core demo_hub) 0 demo_state s2 \<and> length s2 = 2 \<and>
     held_kel reg_core (hb_db (end_of demo_state s2)) ''alice'' = Some k' \<and> prefix [ev0] k')"
proof -
  obtain st1 d where d: "DeregisterTx reg_core 1000 ''alice'' DeregSelf demo_registry = Inr (st1, d)" using demo_departs by blast
  have kel1: "registrationKEL st1 ''alice'' = (Some [1], False)" using departed_history [OF d] demo_AgentKEL by simp
  then have t: "map_of (rg_departed st1) ''alice'' = Some [1]" by (auto simp: registrationKEL_def split: option.splits)
  have "\<exists>u. writeTombstone reg_core ''alice'' [2] st1 = Inr u" by (simp add: writeTombstone_Inr tombstone_grows_def t)
  then have "\<exists>st2 res. pushKELLocked reg_core demo_hub [] 2000 ''alice'' [ev0, ev_rot] st1 = Inr (st2, res, False)"
    by (auto simp: pushKELLocked_def kel1)
  then obtain st2 res where p: "pushKELLocked reg_core demo_hub [] 2000 ''alice'' [ev0, ev_rot] st1 = Inr (st2, res, False)" by blast
  let ?r = "[(1000, demo_state\<lparr>hb_db := st1\<rparr>), (2000, demo_state\<lparr>hb_db := st2\<rparr>)]"
  have "reg_step reg_core demo_hub 1000 demo_state (demo_state\<lparr>hb_db := st1\<rparr>)"
    by (rule r_dereg) (use d in \<open>simp add: demo_state_def\<close>)
  moreover have "reg_step reg_core demo_hub 2000 (demo_state\<lparr>hb_db := st1\<rparr>) ((demo_state\<lparr>hb_db := st1\<rparr>)\<lparr>hb_db := st2\<rparr>)"
    by (rule r_push) (use p in simp)
  ultimately have run: "clock_run (reg_step reg_core demo_hub) 0 demo_state ?r" by simp
  have k: "held_kel reg_core (hb_db demo_state) ''alice'' = Some [ev0]"
    by (simp add: held_kel_def registrationKEL_eq demo_AgentKEL demo_state_def)
  from key_history_only_grows [OF demo_kel_law run k] obtain k'
    where "held_kel reg_core (hb_db (end_of demo_state ?r)) ''alice'' = Some k'" "prefix [ev0] k'" by blast
  with run k show ?thesis by (intro conjI exI [of _ ?r] exI [of _ k']) (simp_all add: demo_state_def)
qed

section \<open>Departures\<close>

text \<open>C32: An agent that leaves, for any reason and by any path, leaves no row that makes it reachable:
  no registration, key set, card, notice, release, capability, skill, tag, waiting message or revocation. Its
  key history stays as its tombstone, and nothing of any other AID changes. The ledger and the reviews are as
  they were, the balance reported is the balance it has, and if its card was published, its withdrawal stands at the
  head of the stream of cards.\<close>

theorem departed_agent_leaves_nothing:
  assumes "DeregisterTx c now a why st = Inr (st', d)"
  shows "\<not> routed st' a \<and> registrationKEL st' a = (AgentKEL st a, False) \<and>
    (\<forall>b. b \<noteq> a \<longrightarrow> same_rows b st st') \<and>
    ac_ledger (rg_accounts st') = ac_ledger (rg_accounts st) \<and> rg_reviewed st' = rg_reviewed st \<and>
    dr_balance d = row_or (balances (ac_ledger (rg_accounts st'))) a 0 \<and>
    dr_undelivered d = length (filter (\<lambda>m. rm_to m = a) (messages (rg_relay st))) \<and>
    (agentFederates st a \<and> has_key (rg_cards st) a \<longrightarrow>
       map_of (rg_withdrawals st') a = Some \<lparr>wd_reason = withdrawDeparted, wd_fed_seq = next_fed_seq st\<rparr>)"
proof -
  have "registrationKEL st' a = (AgentKEL st a, False)" by (rule departed_history [OF assms])
  moreover have "ac_ledger (rg_accounts st') = ac_ledger (rg_accounts st)" "rg_reviewed st' = rg_reviewed st"
    using assms by (auto elim: DeregisterTx_tables)
  moreover have "dr_balance d = row_or (balances (ac_ledger (rg_accounts st))) a 0"
    "dr_undelivered d = length (filter (\<lambda>m. rm_to m = a) (messages (rg_relay st)))"
    using assms by (auto elim: DeregisterTx_Inr)
  ultimately show ?thesis using departure_routed [OF assms] departure_others [OF assms] departure_withdraws [OF assms] by simp
qed

theorem departed_agent_leaves_nothing_witness:
  "routed demo_registry ''alice'' \<and> (\<exists>st' d. DeregisterTx reg_core 2000 ''alice'' DeregSelf demo_registry = Inr (st', d) \<and>
     \<not> routed st' ''alice'' \<and> registrationKEL st' ''alice'' = (Some [1], False) \<and> same_rows ''bob'' demo_registry st' \<and>
     dr_balance d = 100 \<and> map_of (rg_withdrawals st') ''alice'' = Some \<lparr>wd_reason = withdrawDeparted, wd_fed_seq = 2\<rparr>)"
proof -
  obtain st' d where run: "DeregisterTx reg_core 2000 ''alice'' DeregSelf demo_registry = Inr (st', d)" using demo_departs by blast
  have facts: "routed demo_registry ''alice''"
    "agentFederates demo_registry ''alice''" "has_key (rg_cards demo_registry) ''alice''" "next_fed_seq demo_registry = 2"
    "row_or (balances (ac_ledger (rg_accounts demo_registry))) ''alice'' 0 = 100"
    by (simp_all add: routed_def has_key_def demo_registry_def agents_def demo_agent_def demo_card_def agentFederates_def
        federates_def VisibilityFederated_def next_fed_seq_def max_seq_def row_or_def demo_ledger_def)
  have "''bob'' \<noteq> (''alice'' :: aid)" by simp
  with departed_agent_leaves_nothing [OF run] facts run demo_AgentKEL show ?thesis by (intro conjI exI [of _ st'] exI [of _ d]) simp_all
qed

section \<open>Notices\<close>

text \<open>C33: A witness notice this hub serves states the tip of the key history it holds. Along any run that
  begins with no notice cached, a notice that a request for an AID is answered with is one this hub signed at
  most ten minutes before, for that AID, with the sequence number and the event id of the last state of the
  history held, when the request was looked up or when it was signed; and at that moment the AID was registered, its history
  named this hub as its witness, was not deactivated, and the AID was not in quarantine.\<close>

theorem served_notice_states_the_tip:
  assumes "kel_law c" and "rg_notices (hb_db s) = []" and "clock_run (reg_step c h) t0 s r1"
    and "clock_run (reg_step c h) (end_time t0 r1) (end_of s r1) r2"
    and "NoticeFor c h draw now a (hb_db (end_of s r1)) (hb_db (end_of (end_of s r1) r2)) = Inr (st', Inr b)"
  shows "\<exists>q \<in> {hb_db (end_of s r1), hb_db (end_of (end_of s r1) r2)}. \<exists>tip at. states_tip c h q a tip \<and>
    notice_of c a tip at = Some b \<and> 0 \<le> unix_milli now - at \<and> unix_milli now - at \<le> 600000"
proof -
  have "notices_signed c (hb_db s)" using assms(2) by (simp add: notices_signed_def)
  with signed_notices.run_ahead [OF assms(3)] assms(1) have s1: "notices_signed c (hb_db (end_of s r1))" by blast
  with signed_notices.run_ahead [OF assms(4)] assms(1) have "notices_signed c (hb_db (end_of (end_of s r1) r2))" by blast
  with NoticeFor_served [OF assms(5) s1] show ?thesis by (simp add: NoticeReissue_def unix_milli_def time_defs)
qed

section \<open>A restored hub\<close>

text \<open>A backup with alice alone, without a key set; after the restore her node pushes a rotation.\<close>

definition demo_backup :: registry where
  "demo_backup = demo_registry\<lparr>rg_accounts := (rg_accounts demo_registry)\<lparr>ac_agents := [(''alice'', demo_agent)]\<rparr>,
     rg_relay := (rg_relay demo_registry)\<lparr>agent_keys := []\<rparr>\<rparr>"

lemma demo_backup_tables:
  "agents demo_backup = [(''alice'', demo_agent)]" "key_sets demo_backup = []" "rg_kel_changes demo_backup = 2" "rg_departed demo_backup = []"
  by (simp_all add: demo_backup_def agents_def key_sets_def demo_registry_def)

lemma demo_restored:
  obtains st f where "Restore 0 demo_backup None = Inr (st, f)"
proof -
  have "\<exists>st f. Restore 0 demo_backup None = Inr (st, f)"
    by (simp add: Restore_def quarantineCopy_def kelChanges_def readKELHWM_def hwm_count_def Let_def startQuarantineTx_def
        emptied_def demo_backup_tables)
  then show ?thesis using that by blast
qed

lemma demo_push:
  assumes row: "map_of (agents st) ''alice'' = Some demo_agent"
    and T: "key_sets st = []" "rg_released st = []" "rg_notices st = []" "rg_restore st = Some q"
  obtains st1 res where "pushKELLocked reg_core demo_hub [] now ''alice'' [ev0, ev_rot] st = Inr (st1, res, True)"
    "map_of (agents st1) ''alice'' = Some (demo_agent\<lparr>ag_kel := [2], ag_tip_seq := 1, ag_tip_head := ''e1''\<rparr>)"
    "has_key (rg_released st1) ''alice''" "rg_notices st1 = []" "key_sets st1 = []"
proof -
  let ?tip = "demo_agent\<lparr>ag_kel := [2], ag_tip_seq := 1, ag_tip_head := ''e1''\<rparr>"
  define u where "u = countKELChangeTx (update_agent ''alice'' (\<lambda>r. r\<lparr>ag_kel := [2], ag_tip_seq := 1, ag_tip_head := ''e1''\<rparr>) st)"
  have U: "map_of (agents u) ''alice'' = Some ?tip" "key_sets u = []" "rg_released u = []" "rg_notices u = []" "rg_restore u = Some q"
    by (simp_all add: u_def countKELChangeTx_def table_simps row T)
  define v where "v = releaseTx ''alice'' releasedLongerKEL now (forgetNoticeTx ''alice'' u)"
  have V: "map_of (agents v) ''alice'' = Some ?tip" "has_key (rg_released v) ''alice''" "rg_notices v = []" "key_sets v = []"
    by (simp_all add: v_def releaseTx_def forgetNoticeTx_def U has_key_update delete_conv')
  have tip: "storedTip reg_core [2] = (1, ''e1'')" "kelTip reg_core [2] = Some (1, ''e1'')"
    by (simp_all add: storedTip_def kelTip_def ev_rot_def max_int64_def)
  have "push_registered reg_core demo_hub [] now ''alice'' [2] False st = Inr v"
    by (simp add: push_registered_def tip u_def [symmetric] kelChangedTx_def U v_def [symmetric] refreshDirTx_def V
        sealDirEntry_def dir_entry_of_def demo_agent_def)
  then have "\<exists>res. pushKELLocked reg_core demo_hub [] now ''alice'' [ev0, ev_rot] st = Inr (v, res, True)"
    by (simp add: pushKELLocked_def registrationKEL_def row) (simp add: ev_rot_def demo_agent_def)
  with V that show ?thesis by blast
qed

lemma demo_restored_row:
  "Restore 0 demo_backup None = Inr (st, f) \<Longrightarrow> agents st = [(''alice'', demo_agent)]"
  by (simp add: restored_tables(1) demo_backup_tables demo_agent_def)

lemma demo_notice:
  assumes "map_of (agents st) ''alice'' = Some (demo_agent\<lparr>ag_kel := [2], ag_tip_seq := 1, ag_tip_head := ''e1''\<rparr>)"
    "has_key (rg_released st) ''alice''" "rg_notices st = []" "key_sets st = []"
  shows "\<exists>st'. NoticeFor reg_core demo_hub [] now ''alice'' st st = Inr (st', Inr [9])"
proof -
  have tip: "last (demo_states [ev0, ev_rot]) = \<lparr>StKeyStateSeq = 1, StStatus = StatusActive, StAID = ''alice'', StToad = 1,
      StWitness = ''H'', StLastEventID = ''e1''\<rparr>" "demo_states [ev0, ev_rot] \<noteq> []"
    by (simp_all add: demo_states_def ev_rot_def)
  have j: "judgeNotice reg_core demo_hub now ''alice'' st = Inr (Judged (last (demo_states [ev0, ev_rot])) None)"
    by (simp add: judgeNotice_def assms tip inQuarantine_def demo_hub_def)
  then have i: "issueNoticeTx reg_core demo_hub now ''alice'' st = Inr (st\<lparr>rg_notices := AList.update ''alice''
      \<lparr>nt_seq = 1, nt_head = ''e1'', nt_observed_at = unix_milli now, nt_blob = [9]\<rparr> []\<rparr>, Inr [9], True)"
    by (simp add: issueNoticeTx_def tip assms(3))
  from j show ?thesis
    by (simp add: NoticeFor_def notice_tx_def i refreshDirTx_def assms sealDirEntry_def dir_entry_of_def demo_agent_def)
qed

text \<open>C34: A restored hub does not vouch for a key it may have missed the end of. Take the database a restore
  makes of a backup, start the hub on it and let anything happen, however long, until thirty minutes
  after the hub began to serve (\<open>BeginServing\<close>; if it did not, no limit): a notice served for an AID is
  served for one that was released from the quarantine since the restore, and if the backup held a key
  history for it, the history held now extends that one and is strictly longer. So a key that the backup still shows as
  current, but that was rotated away before the restore, is not stated again in that time until its owner has
  brought the rotation.\<close>

theorem restored_hub_stays_silent:
  assumes "kel_law c" and "Restore t0 backup content = Inr (st, f)" and "\<not> hm_active m"
    and "s = \<lparr>hb_db = st, hb_mem = m, hb_file = f\<rparr>" and "T = end_time (end_time t0 r1) r2"
    and "clock_run (\<lambda>t u u'. reg_step c h t u u' \<and> (serving_begins u u' \<longrightarrow> unix_milli T - unix_milli t < 1800000)) t0 s r1"
    and "clock_run (\<lambda>t u u'. reg_step c h t u u' \<and> (serving_begins u u' \<longrightarrow> unix_milli T - unix_milli t < 1800000))
      (end_time t0 r1) (end_of s r1) r2"
    and "NoticeFor c h draw now a (hb_db (end_of s r1)) (hb_db (end_of (end_of s r1) r2)) = Inr (st', Inr b)"
  shows "(has_key (rg_released (hb_db (end_of s r1))) a \<or> has_key (rg_released (hb_db (end_of (end_of s r1) r2))) a) \<and>
    (\<forall>k0. held_kel c backup a = Some k0 \<longrightarrow>
      (\<exists>k. held_kel c (hb_db (end_of (end_of s r1) r2)) a = Some k \<and> prefix k0 k \<and> length k0 < length k))"
proof -
  let ?s1 = "end_of s r1" and ?t1 = "end_time t0 r1" and ?s2 = "end_of (end_of s r1) r2"
  define q0 where "q0 = (unix_milli T - 1799999) * ms_ns"
  have q0: "unix_milli q0 = unix_milli T - 1799999" by (simp add: q0_def unix_milli_times_ms)
  have "(\<lambda>t u u'. reg_step c h t u u' \<and> (serving_begins u u' \<longrightarrow> unix_milli T - unix_milli t < 1800000)) = served_from c h q0"
    by (auto simp: served_from_def q0 fun_eq_iff)
  with assms(6,7) have r1: "clock_run (served_from c h q0) t0 s r1" and r2: "clock_run (served_from c h q0) ?t1 ?s1 r2" by simp_all
  have "silent c backup q0 t0 s" using restored_quarantine [OF assms(1-3)] assms(4) by simp
  with silence.run_ahead [OF r1] have q1: "silent c backup q0 ?t1 ?s1" by blast
  with silence.run_ahead [OF r2] have q2: "silent c backup q0 T ?s2" unfolding assms(5) by blast
  have "unix_milli RestoreQuarantine = 1800000" by (simp add: RestoreQuarantine_def unix_milli_def time_defs)
  then have no2: "\<not> waited q0 T" by (simp add: waited_def q0)
  have "?t1 \<le> T" unfolding assms(5) using r2 by (rule clock_run_time)
  with no2 have no1: "\<not> waited q0 ?t1" using waited_mono by blast
  have sil: "quarantined c backup q0 ?s1" "quarantined c backup q0 ?s2" using q1 q2 no1 no2 by (simp_all add: silent_def)
  note steps = served_from_run [OF r1] served_from_run [OF r2]
  have g: "histories_grow c (hb_db ?s1) (hb_db ?s2)" using histories.run_ahead [OF steps(2) assms(1)] by blast
  have empty: "notices_signed c (hb_db s)" using restored_tables(5) [OF assms(2)] assms(4) by (simp add: notices_signed_def)
  with signed_notices.run_ahead [OF steps(1)] assms(1) have n1: "notices_signed c (hb_db ?s1)" by blast
  with signed_notices.run_ahead [OF steps(2)] assms(1) have n2: "notices_signed c (hb_db ?s2)" by blast
  obtain q where q: "q \<in> {hb_db ?s1, hb_db ?s2}" "\<not> inQuarantine q a"
    using NoticeFor_served [OF assms(8) n1 n2] by (auto simp: states_tip_def)
  have rel: "has_key (rg_released (hb_db ?s1)) a \<or> has_key (rg_released (hb_db ?s2)) a"
    using q sil by (auto simp: quarantined_def inQuarantine_def)
  then have "outgrown c backup (hb_db ?s2) a" using sil outgrown_mono [OF _ g] by (auto simp: quarantined_def)
  moreover have "histories_grow c backup (hb_db ?s2)" using q2 by (simp add: silent_def)
  ultimately have "\<forall>k0. held_kel c backup a = Some k0 \<longrightarrow>
      (\<exists>k. held_kel c (hb_db ?s2) a = Some k \<and> prefix k0 k \<and> length k0 < length k)"
    unfolding outgrown_def histories_grow_def by (metis option.inject)
  with rel show ?thesis by blast
qed

text \<open>Both at once: the restored hub confirms alice's rotation a second after her node pushed it.\<close>

lemma demo_restored_run:
  assumes "Restore 0 demo_backup None = Inr (st, f)"
  obtains st1 st' where "clock_run (reg_step reg_core demo_hub) 0 \<lparr>hb_db = st, hb_mem = demo_memory, hb_file = f\<rparr>
      [(1000, \<lparr>hb_db = st1, hb_mem = demo_memory, hb_file = f\<rparr>)]"
    "NoticeFor reg_core demo_hub [] 2000 ''alice'' st1 st1 = Inr (st', Inr [9])" "AgentKEL st1 ''alice'' = Some [2]"
proof -
  have row: "map_of (agents st) ''alice'' = Some demo_agent" by (simp add: demo_restored_row [OF assms])
  note T = restored_tables [OF assms] demo_backup_tables
  obtain st1 res where P: "pushKELLocked reg_core demo_hub [] 1000 ''alice'' [ev0, ev_rot] st = Inr (st1, res, True)"
    "map_of (agents st1) ''alice'' = Some (demo_agent\<lparr>ag_kel := [2], ag_tip_seq := 1, ag_tip_head := ''e1''\<rparr>)"
    "has_key (rg_released st1) ''alice''" "rg_notices st1 = []" "key_sets st1 = []"
    using demo_push [OF row _ T(6,5,7)] T by metis
  let ?s = "\<lparr>hb_db = st, hb_mem = demo_memory, hb_file = f\<rparr>"
  have "reg_step reg_core demo_hub 1000 ?s (?s\<lparr>hb_db := st1\<rparr>)" by (rule r_push) (use P(1) in simp)
  then have run: "clock_run (reg_step reg_core demo_hub) 0 ?s [(1000, \<lparr>hb_db = st1, hb_mem = demo_memory, hb_file = f\<rparr>)]" by simp
  obtain st' where "NoticeFor reg_core demo_hub [] 2000 ''alice'' st1 st1 = Inr (st', Inr [9])" using demo_notice [OF P(2-5)] by blast
  with run P(2) show ?thesis using that by (simp add: AgentKEL_def)
qed

text \<open>And of a hub that begins to serve an hour after the restore, where the push comes a second later.\<close>

definition demo_serves_at :: time_ns where "demo_serves_at = 3600000 * ms_ns"

lemma demo_serving_run:
  assumes "Restore 0 demo_backup None = Inr (st, f)"
  obtains st0 st1 st' m where "reg_step reg_core demo_hub demo_serves_at \<lparr>hb_db = st, hb_mem = demo_memory, hb_file = f\<rparr>
      \<lparr>hb_db = st0, hb_mem = m, hb_file = f\<rparr>"
    "reg_step reg_core demo_hub (demo_serves_at + 1000 * ms_ns) \<lparr>hb_db = st0, hb_mem = m, hb_file = f\<rparr> \<lparr>hb_db = st1, hb_mem = m, hb_file = f\<rparr>"
    "map_option rs_serving_since (rg_restore st) = Some None" "map_option rs_serving_since (rg_restore st0) = Some (Some 3600000)"
    "NoticeFor reg_core demo_hub [] (demo_serves_at + 2000 * ms_ns) ''alice'' st1 st1 = Inr (st', Inr [9])"
proof -
  note T = restored_tables [OF assms] demo_backup_tables
  define q where "q = \<lparr>rs_began_at = unix_milli 0, rs_why = quarantineRestore, rs_serving_since = Some (unix_milli demo_serves_at)\<rparr>"
  define st0 where "st0 = st\<lparr>rg_restore := Some q\<rparr>"
  define m where "m = set_quarantine True (unix_milli demo_serves_at) demo_memory"
  have row: "agents st = [(''alice'', demo_agent)]" by (rule demo_restored_row [OF assms])
  have S: "agents st0 = [(''alice'', demo_agent)]" "key_sets st0 = []" "rg_released st0 = []" "rg_notices st0 = []" "rg_restore st0 = Some q"
    using row T by (simp_all add: st0_def agents_def key_sets_def)
  have "refresh_dirs reg_core demo_hub (\<lambda>a. []) [''alice''] st0 = Inr st0"
    by (simp add: refreshDirTx_def S sealDirEntry_def dir_entry_of_def) (simp add: demo_agent_def)
  then have "BeginServing reg_core demo_hub (\<lambda>a. []) demo_serves_at demo_memory st = Inr (m, st0)"
    by (simp add: BeginServing_def T(7) row st0_def q_def m_def)
  then have b: "reg_step reg_core demo_hub demo_serves_at \<lparr>hb_db = st, hb_mem = demo_memory, hb_file = f\<rparr>
      \<lparr>hb_db = st0, hb_mem = m, hb_file = f\<rparr>"
    using r_begin [of reg_core demo_hub "\<lambda>a. []" demo_serves_at "\<lparr>hb_db = st, hb_mem = demo_memory, hb_file = f\<rparr>" m st0] by simp
  have "map_of (agents st0) ''alice'' = Some demo_agent" by (simp add: S)
  then obtain st1 res where P: "pushKELLocked reg_core demo_hub [] (demo_serves_at + 1000 * ms_ns) ''alice'' [ev0, ev_rot] st0 = Inr (st1, res, True)"
    "map_of (agents st1) ''alice'' = Some (demo_agent\<lparr>ag_kel := [2], ag_tip_seq := 1, ag_tip_head := ''e1''\<rparr>)"
    "has_key (rg_released st1) ''alice''" "rg_notices st1 = []" "key_sets st1 = []"
    using demo_push [OF _ S(2-5)] by metis
  have p: "reg_step reg_core demo_hub (demo_serves_at + 1000 * ms_ns) \<lparr>hb_db = st0, hb_mem = m, hb_file = f\<rparr> \<lparr>hb_db = st1, hb_mem = m, hb_file = f\<rparr>"
    using r_push [of reg_core demo_hub "[]" "demo_serves_at + 1000 * ms_ns" "''alice''" "[ev0, ev_rot]" "\<lparr>hb_db = st0, hb_mem = m, hb_file = f\<rparr>"] P(1)
    by simp
  obtain st' where n: "NoticeFor reg_core demo_hub [] (demo_serves_at + 2000 * ms_ns) ''alice'' st1 st1 = Inr (st', Inr [9])"
    using demo_notice [OF P(2-5)] by blast
  have "map_option rs_serving_since (rg_restore st) = Some None" "map_option rs_serving_since (rg_restore st0) = Some (Some 3600000)"
    by (simp_all add: T(7) S(5) q_def demo_serves_at_def unix_milli_times_ms)
  with b p n show ?thesis using that by blast
qed

theorem served_notice_states_the_tip_witness:
  "\<exists>st1 tip at. AgentKEL st1 ''alice'' = Some [2] \<and> states_tip reg_core demo_hub st1 ''alice'' tip \<and>
     notice_of reg_core ''alice'' tip at = Some [9] \<and> unix_milli 2000 - at \<le> 600000"
proof -
  obtain st f where r: "Restore 0 demo_backup None = Inr (st, f)" by (rule demo_restored)
  let ?s = "\<lparr>hb_db = st, hb_mem = demo_memory, hb_file = f\<rparr>"
  obtain st1 st' where R: "clock_run (reg_step reg_core demo_hub) 0 ?s [(1000, \<lparr>hb_db = st1, hb_mem = demo_memory, hb_file = f\<rparr>)]"
    "NoticeFor reg_core demo_hub [] 2000 ''alice'' st1 st1 = Inr (st', Inr [9])" "AgentKEL st1 ''alice'' = Some [2]"
    using demo_restored_run [OF r] by metis
  have n: "rg_notices (hb_db ?s) = []" using restored_tables(5) [OF r] by simp
  have two: "NoticeFor reg_core demo_hub [] 2000 ''alice'' (hb_db (end_of ?s [(1000, \<lparr>hb_db = st1, hb_mem = demo_memory, hb_file = f\<rparr>)]))
      (hb_db (end_of (end_of ?s [(1000, \<lparr>hb_db = st1, hb_mem = demo_memory, hb_file = f\<rparr>)]) [])) = Inr (st', Inr [9])" using R(2) by simp
  have "clock_run (reg_step reg_core demo_hub) t u []" for t u by simp
  from served_notice_states_the_tip [OF demo_kel_law n R(1) this two] R(3) show ?thesis by auto
qed

theorem restored_hub_stays_silent_witness:
  "held_kel reg_core demo_backup ''alice'' = Some [ev0] \<and>
   (\<exists>st1 st' k. NoticeFor reg_core demo_hub [] (demo_serves_at + 2000 * ms_ns) ''alice'' st1 st1 = Inr (st', Inr [9]) \<and>
      has_key (rg_released st1) ''alice'' \<and> held_kel reg_core st1 ''alice'' = Some k \<and> prefix [ev0] k \<and> length [ev0] < length k)"
proof -
  obtain st f where r: "Restore 0 demo_backup None = Inr (st, f)" by (rule demo_restored)
  let ?s = "\<lparr>hb_db = st, hb_mem = demo_memory, hb_file = f\<rparr>"
  let ?T = "demo_serves_at + 1000 * ms_ns"
  obtain st0 st1 st' m where R: "reg_step reg_core demo_hub demo_serves_at ?s \<lparr>hb_db = st0, hb_mem = m, hb_file = f\<rparr>"
    "reg_step reg_core demo_hub ?T \<lparr>hb_db = st0, hb_mem = m, hb_file = f\<rparr> \<lparr>hb_db = st1, hb_mem = m, hb_file = f\<rparr>"
    "NoticeFor reg_core demo_hub [] (demo_serves_at + 2000 * ms_ns) ''alice'' st1 st1 = Inr (st', Inr [9])"
    using demo_serving_run [OF r] by metis
  let ?r = "[(demo_serves_at, \<lparr>hb_db = st0, hb_mem = m, hb_file = f\<rparr>), (?T, \<lparr>hb_db = st1, hb_mem = m, hb_file = f\<rparr>)]"
  let ?step = "\<lambda>t u u'. reg_step reg_core demo_hub t u u' \<and> (serving_begins u u' \<longrightarrow> unix_milli ?T - unix_milli t < 1800000)"
  have t: "?T = end_time (end_time 0 ?r) []" "0 \<le> demo_serves_at" "demo_serves_at \<le> ?T" "unix_milli ?T - unix_milli demo_serves_at = 1000"
    by (simp_all add: demo_serves_at_def unix_milli_times_ms ms_ns_def unix_milli_def go_div_def)
  have run: "clock_run ?step 0 ?s ?r" using R(1,2) t by simp
  have two: "NoticeFor reg_core demo_hub [] (demo_serves_at + 2000 * ms_ns) ''alice'' (hb_db (end_of ?s ?r)) (hb_db (end_of (end_of ?s ?r) [])) = Inr (st', Inr [9])"
    using R(3) by simp
  have e: "clock_run ?step (end_time 0 ?r) (end_of ?s ?r) []" by simp
  have k: "held_kel reg_core demo_backup ''alice'' = Some [ev0]"
    by (simp add: held_kel_def registrationKEL_def demo_backup_tables) (simp add: demo_agent_def)
  have "\<not> hm_active demo_memory" by (simp add: demo_memory_def)
  from restored_hub_stays_silent [OF demo_kel_law r this refl t(1) run e two] k R(3)
  show ?thesis by auto
qed

section \<open>The count of key-history changes\<close>

text \<open>The file of the count has one spelling per count: contents that read as a count are exactly the
  decimal digits the hub writes for that count and a newline, and every count a database can hold is read back from what
  was written. Anything else (a sign, a leading zero, a missing newline, a number past the largest) does
  not read.\<close>

theorem kel_count_reads_back:
  "parseKELHWM b = Some n \<longleftrightarrow> n \<le> maxKELChanges \<and> b = writeKELHWM n"
  using parse_write parse_reads_counts by blast

text \<open>C35: A start finds a database older than its last key change. Along any run of a hub whose file was not ahead
  of its database, the file never gets ahead of it, so a start on the hub's own database begins no
  quarantine. A start on any older copy, one that counts fewer changes than the file, puts every AID into
  quarantine with no notice cached and raises the count to the file's, so that the next start begins no other; and a
  copy that counts at least as many is taken as it is.\<close>

theorem older_copy_is_found:
  assumes "kel_law c" and "clock_run (reg_step c h) t0 s r" and "file_behind s"
    and "hb_file (end_of s r) = Some (writeKELHWM n)" and "n \<le> maxKELChanges" and "kelChanges old = Inr k"
  shows "int n \<le> rg_kel_changes (hb_db (end_of s r)) \<and>
    (\<exists>st' m. checkKELHighWater now old (m0, hb_file (end_of s r)) = Inr (st', m, Some (writeKELHWM (max k n))) \<and>
       kelChanges st' = Inr (max k n) \<and>
       (if k < n then hm_active m \<and> rg_notices st' = [] \<and> (\<forall>a. inQuarantine st' a) else st' = old))"
proof -
  have "file_behind (end_of s r)" using file_order.run_ahead [OF assms(2)] assms(1,3) by blast
  then have le: "int n \<le> rg_kel_changes (hb_db (end_of s r))" using read_write [OF assms(5)] assms(4) by (simp add: file_behind_def)
  define st' where "st' = (if k < n then (startQuarantineTx quarantineRollback now old)\<lparr>rg_kel_changes := int n\<rparr> else old)"
  obtain m where m: "checkKELHighWater now old (m0, hb_file (end_of s r)) = Inr (st', m, Some (writeKELHWM (max k n)))"
    "hm_active m \<longleftrightarrow> k < n \<or> rg_restore old \<noteq> None"
    using restart_outcome [OF assms(5,6), of now m0] assms(4) by (auto simp: st'_def)
  have "kelChanges st' = Inr (max k n)" using assms(6) by (simp add: st'_def kelChanges_def split: if_splits)
  moreover have "if k < n then hm_active m \<and> rg_notices st' = [] \<and> (\<forall>a. inQuarantine st' a) else st' = old"
    using m(2) by (simp add: st'_def startQuarantineTx_def inQuarantine_def)
  ultimately show ?thesis using le m(1) by blast
qed

text \<open>The demo hub counts two changes; a copy of its database that counts one is found.\<close>

theorem older_copy_is_found_witness:
  "\<exists>st' m. checkKELHighWater 5000 (demo_registry\<lparr>rg_kel_changes := 1\<rparr>) (demo_memory, Some (writeKELHWM 2)) =
      Inr (st', m, Some (writeKELHWM 2)) \<and> kelChanges st' = Inr 2 \<and> hm_active m \<and> inQuarantine st' ''alice''"
proof -
  let ?s = "\<lparr>hb_db = demo_registry, hb_mem = demo_memory, hb_file = Some (writeKELHWM 2)\<rparr>"
  have "file_behind ?s" by (simp add: file_behind_def read_write maxKELChanges_def) (simp add: demo_registry_def)
  moreover have "clock_run (reg_step reg_core demo_hub) 0 ?s []" by simp
  moreover have "kelChanges (demo_registry\<lparr>rg_kel_changes := 1\<rparr>) = Inr 1" by (simp add: kelChanges_def)
  ultimately show ?thesis
    using older_copy_is_found [OF demo_kel_law, of demo_hub 0 ?s "[]" 2 "demo_registry\<lparr>rg_kel_changes := 1\<rparr>" 1 5000 demo_memory]
    by (auto simp: maxKELChanges_def numeral_2_eq_2)
qed

end
