(* ===== verification/Key_Set_Laws.thy ===== *)
theory Key_Set_Laws
  imports Quarantine_Laws
begin

text \<open>
  What a publication stores. The named facts about ANetCore are that a key set encodes to what it was
  decoded from, that the high-water rule calls a set the same only when its bytes are, replaces only by a
  higher seq, and that a set that verifies is the one its bytes decode to.
\<close>

definition keyset_law :: "registry_core \<Rightarrow> bool" where
  "keyset_law c \<longleftrightarrow> (\<forall>s b. MarshalKeySet c s = Some b \<longrightarrow> UnmarshalKeySet c b = Some s) \<and>
     (\<forall>q b s. DecideHighWater c (Some (q, b)) s = Some HWSame \<longrightarrow> sk_set s = b) \<and>
     (\<forall>q b s es. DecideHighWater c (Some (q, b)) s = Some HWReplace \<longrightarrow> DecodeEncKeySet c (sk_set s) = Some es \<longrightarrow> q < ek_seq es) \<and>
     (\<forall>s a k t es. VerifyEncKeySet c s a k t = Inr es \<longrightarrow> DecodeEncKeySet c (sk_set s) = Some es)"

lemma key_sets_bump [simp]: "key_sets (bumpA2ACard a st) = key_sets st"
  by (simp add: bumpA2ACard_def nextA2AFedSeq_def clearA2AWithdrawal_def set_card_def split: option.split)

lemma key_sets_refreshDir: "refreshDirTx c h draw a st = Inr st' \<Longrightarrow> key_sets st' = key_sets st"
  by (auto simp: refreshDirTx_def Let_def split: option.splits if_splits)

lemma key_sets_set_key_sets [simp]: "key_sets (set_key_sets t st) = t"
  by (simp add: set_key_sets_def)

lemma store_key_set_stores:
  assumes "store_key_set c h draw a es canon rose st = Inr st'"
  shows "key_sets st' = AList.update a (ek_seq es, canon) (key_sets st)"
    and "rose \<Longrightarrow> \<forall>x \<in> set (rg_revoked st'). fst (fst x) \<noteq> a"
proof -
  define u where "u = set_key_sets (AList.update a (ek_seq es, canon) (key_sets st)) st"
  define w where "w = (if agentFederates u a then bumpA2ACard a u else u)"
  have "rbind (refreshDirTx c h draw a w) (\<lambda>x. Inr (if rose then x\<lparr>rg_revoked := delete_owner a (rg_revoked x)\<rparr> else x)) = Inr st'"
    using assms by (simp only: store_key_set_def Let_def u_def w_def)
  then obtain x where x: "refreshDirTx c h draw a w = Inr x" "st' = (if rose then x\<lparr>rg_revoked := delete_owner a (rg_revoked x)\<rparr> else x)"
    unfolding rbind_eq_Inr by blast
  have "key_sets w = AList.update a (ek_seq es, canon) (key_sets st)" by (simp add: w_def u_def)
  with key_sets_refreshDir [OF x(1)] x(2) show "key_sets st' = AList.update a (ek_seq es, canon) (key_sets st)" by simp
  show "\<forall>y \<in> set (rg_revoked st'). fst (fst y) \<noteq> a" if rose using x(2) that by (simp add: delete_owner_def)
qed

lemma storedKeys_Inr:
  assumes "storedKeys c st a = Inr seen" "map_of (key_sets st) a = Some (held, old)"
  obtains s where "UnmarshalKeySet c old = Some s" "seen = Some ((held, sk_set s), old)"
  using assms by (auto simp: storedKeys_def split: option.splits)

lemma followsStored_Inr:
  assumes "followsStored c (Some (held, b)) s p = Inr d" "keyset_law c" "DecodeEncKeySet c (sk_set s) = Some es"
  shows "sk_set s = b \<or> held \<le> p \<and> held < ek_seq es"
proof -
  have d: "DecideHighWater c (Some (held, b)) s = Some d" using assms(1) by (auto simp: followsStored_def split: option.splits if_splits)
  show ?thesis
  proof (cases "d = HWSame")
    case True
    with d assms(2) show ?thesis by (auto simp: keyset_law_def)
  next
    case False
    then have "held \<le> p" "d = HWReplace" using assms(1) d by (cases d; auto simp: followsStored_def not_less split: if_splits)+
    with d assms(2,3) show ?thesis by (auto simp: keyset_law_def)
  qed
qed

lemma checkMboxEpoch_None:
  assumes "checkMboxEpoch (Some p) n = None"
  shows "mb_epoch p \<le> mb_epoch n" "mb_pub p = mb_pub n \<longleftrightarrow> mb_epoch p = mb_epoch n"
  using assms by (auto simp: checkMboxEpoch_def not_less split: if_splits)

text \<open>While no other agent has a directory entry yet, its hash is free.\<close>

lemma refreshDirTx_runs:
  assumes "\<forall>x \<in> set (agents st). ag_dir (snd x) = None"
  shows "\<exists>st'. refreshDirTx c h draw a st = Inr st'"
proof -
  have "\<not> list_ex (\<lambda>(b, q). b \<noteq> a \<and> map_option fst (ag_dir q) = Some x) (agents st)" for x
    using assms by (auto simp: list_ex_iff)
  then show ?thesis by (auto simp: refreshDirTx_def Let_def split: option.split)
qed

lemma agents_bump [simp]: "agents (bumpA2ACard a st) = agents st"
  by (simp add: bumpA2ACard_def nextA2AFedSeq_def clearA2AWithdrawal_def set_card_def split: option.split)

lemma store_key_set_runs:
  assumes "\<forall>x \<in> set (agents st). ag_dir (snd x) = None"
  shows "\<exists>st'. store_key_set c h draw a es canon rose st = Inr st'"
proof -
  define u where "u = set_key_sets (AList.update a (ek_seq es, canon) (key_sets st)) st"
  define w where "w = (if agentFederates u a then bumpA2ACard a u else u)"
  have "agents w = agents st" by (simp add: w_def u_def)
  with assms have "\<exists>x. refreshDirTx c h draw a w = Inr x" by (intro refreshDirTx_runs) simp
  then obtain x where x: "refreshDirTx c h draw a w = Inr x" by blast
  have "store_key_set c h draw a es canon rose st = rbind (refreshDirTx c h draw a w)
      (\<lambda>x. Inr (if rose then x\<lparr>rg_revoked := delete_owner a (rg_revoked x)\<rparr> else x))"
    by (simp only: store_key_set_def Let_def u_def w_def)
  with x show ?thesis by simp
qed

end
