(* ===== verification/Stream_Laws.thy ===== *)
theory Stream_Laws
  imports Key_Set_Laws
begin

text \<open>
  The stream of cards as a replicated map. For each AID the stream says at most two things, the card
  published and the position of a withdrawal; an operation of the registry either leaves what it says of every
  AID alone, or changes it for one AID at a new position above all others.
\<close>

section \<open>What the stream says\<close>

definition stream_pub :: "registry \<Rightarrow> aid \<Rightarrow> (bytes \<times> int) option" where
  "stream_pub st a = map_option (\<lambda>cd. (cd_card cd, cd_fed_seq cd)) (published_row st a)"

definition stream_wd :: "registry \<Rightarrow> aid \<Rightarrow> int option" where
  "stream_wd st a = map_option wd_fed_seq (map_of (rg_withdrawals st) a)"

text \<open>Each AID has one row in each table, at a position the head of the stream has passed.\<close>

definition stream_keys :: "registry \<Rightarrow> bool" where
  "stream_keys st \<longleftrightarrow> distinct (map fst (rg_cards st)) \<and> distinct (map fst (rg_withdrawals st)) \<and> 0 \<le> rg_fed_head st \<and>
     (\<forall>r \<in> set (rg_cards st). cd_fed_seq (snd r) \<le> rg_fed_head st) \<and> (\<forall>r \<in> set (rg_withdrawals st). wd_fed_seq (snd r) \<le> rg_fed_head st)"

definition same_stream :: "registry \<Rightarrow> registry \<Rightarrow> bool" where
  "same_stream st st' \<longleftrightarrow> rg_fed_head st \<le> rg_fed_head st' \<and> (stream_keys st \<longrightarrow> stream_keys st') \<and>
     stream_pub st' = stream_pub st \<and> stream_wd st' = stream_wd st"

text \<open>A change for one AID: a card published at a new position, a withdrawal at a new one, or a withdrawal
  that a published card has made void.\<close>

definition stream_change ::
  "int \<Rightarrow> (bytes \<times> int) option \<Rightarrow> int option \<Rightarrow> (bytes \<times> int) option \<Rightarrow> int option \<Rightarrow> bool" where
  "stream_change lim p w p' w' \<longleftrightarrow> p' = p \<and> (w' = w \<or> w' = None \<and> p \<noteq> None) \<or>
     (\<exists>cd. p' = Some cd \<and> lim < snd cd \<and> w' = None) \<or> p' = None \<and> (\<exists>x. w' = Some x \<and> lim < x)"

definition stream_move :: "aid \<Rightarrow> registry \<Rightarrow> registry \<Rightarrow> bool" where
  "stream_move a st st' \<longleftrightarrow> rg_fed_head st \<le> rg_fed_head st' \<and> (stream_keys st \<longrightarrow> stream_keys st') \<and>
     (\<forall>b. b \<noteq> a \<longrightarrow> stream_pub st' b = stream_pub st b \<and> stream_wd st' b = stream_wd st b) \<and>
     stream_change (rg_fed_head st) (stream_pub st a) (stream_wd st a) (stream_pub st' a) (stream_wd st' a)"

lemma stream_change_mono: "stream_change y p w p' w' \<Longrightarrow> x \<le> y \<Longrightarrow> stream_change x p w p' w'"
  unfolding stream_change_def by (elim disjE exE conjE) auto

lemma same_stream_refl [simp, intro]: "same_stream st st"
  by (simp add: same_stream_def)

lemma same_stream_trans [trans]: "same_stream s t \<Longrightarrow> same_stream t u \<Longrightarrow> same_stream s u"
  by (auto simp: same_stream_def)

lemma same_stream_move: "same_stream st st' \<Longrightarrow> stream_move a st st'"
  by (simp add: same_stream_def stream_move_def stream_change_def)

lemma same_move_trans [trans]: "same_stream s t \<Longrightarrow> stream_move a t u \<Longrightarrow> stream_move a s u"
  unfolding same_stream_def stream_move_def
  by (elim conjE, intro conjI) (erule order_trans, assumption, blast, simp, simp add: stream_change_mono)

lemma move_same_trans [trans]: "stream_move a s t \<Longrightarrow> same_stream t u \<Longrightarrow> stream_move a s u"
  unfolding same_stream_def stream_move_def
  by (elim conjE, intro conjI) (erule order_trans, assumption, blast, simp_all)

section \<open>Positions\<close>

lemma max_seq_ge: "x \<in> set xs \<Longrightarrow> x \<le> max_seq xs" and max_seq_0: "0 \<le> max_seq xs"
proof -
  have f: "y \<le> fold max xs y \<and> (\<forall>x \<in> set xs. x \<le> fold max xs y)" for y :: int
  proof (induction xs arbitrary: y)
    case (Cons z zs)
    from Cons.IH [of "max z y"] show ?case by auto
  qed simp
  show "x \<le> max_seq xs" if "x \<in> set xs" using f that by (simp add: max_seq_def)
  show "0 \<le> max_seq xs" using f by (simp add: max_seq_def)
qed

lemma next_is_new: "rg_fed_head st < next_fed_seq st" "0 < next_fed_seq st"
  by (simp_all add: next_fed_seq_def le_max_iff_disj max_seq_0)

lemma next_covers:
  "r \<in> set (rg_cards st) \<Longrightarrow> cd_fed_seq (snd r) < next_fed_seq st"
  "w \<in> set (rg_withdrawals st) \<Longrightarrow> wd_fed_seq (snd w) < next_fed_seq st"
proof -
  show "cd_fed_seq (snd r) < next_fed_seq st" if "r \<in> set (rg_cards st)"
    using max_seq_ge [of "cd_fed_seq (snd r)" "map (\<lambda>(_, r). cd_fed_seq r) (rg_cards st)"] that
    by (force simp: next_fed_seq_def split_beta)
  show "wd_fed_seq (snd w) < next_fed_seq st" if "w \<in> set (rg_withdrawals st)"
    using max_seq_ge [of "wd_fed_seq (snd w)" "map (\<lambda>(_, r). wd_fed_seq r) (rg_withdrawals st)"] that
    by (force simp: next_fed_seq_def split_beta)
qed

text \<open>Frames of the small operations: what leaves the two tables and what federates alone.\<close>

definition same_cards :: "registry \<Rightarrow> registry \<Rightarrow> bool" where
  "same_cards st st' \<longleftrightarrow> rg_cards st' = rg_cards st \<and> rg_withdrawals st' = rg_withdrawals st \<and> rg_fed_head st' = rg_fed_head st \<and>
     agentFederates st' = agentFederates st"

lemma same_cards_refl [simp, intro]: "same_cards st st"
  by (simp add: same_cards_def)

lemma same_cards_trans [trans]: "same_cards s t \<Longrightarrow> same_cards t u \<Longrightarrow> same_cards s u"
  by (simp add: same_cards_def)

lemma same_cards_stream: "same_cards st st' \<Longrightarrow> same_stream st st'"
proof -
  assume a: "same_cards st st'"
  then have "published_row st' = published_row st"
    by (auto simp: same_cards_def published_row_def fun_eq_iff split: option.split)
  with a show ?thesis by (simp add: same_cards_def same_stream_def stream_keys_def stream_pub_def [abs_def] stream_wd_def [abs_def])
qed

lemma agentFederates_cong: "agents st' = agents st \<Longrightarrow> agentFederates st' = agentFederates st"
  by (simp add: agentFederates_def fun_eq_iff)

lemma same_cards_update_agent:
  "(\<And>r. ag_visibility (f r) = ag_visibility r) \<Longrightarrow> same_cards st (update_agent a f st)"
  by (auto simp: same_cards_def agentFederates_def fun_eq_iff map_of_update_agent split: option.split)

lemma same_cards_refreshDir: "refreshDirTx c h draw a st = Inr st' \<Longrightarrow> same_cards st st'"
  by (auto simp: refreshDirTx_def Let_def intro: same_cards_update_agent split: option.splits if_splits)

lemma same_cards_small:
  "same_cards st (set_key_sets ks st)" "same_cards st (countKELChangeTx st)" "same_cards st (forgetNoticeTx a st)"
  "same_cards st (releaseTx a how now st)" "same_cards st (drop_card_index a st)" "same_cards st (set_admitted adm st)"
  by (simp_all add: same_cards_def set_key_sets_def countKELChangeTx_def forgetNoticeTx_def releaseTx_def drop_card_index_def
      set_admitted_def agentFederates_def agents_def fun_eq_iff)

lemma same_cards_index: "same_cards st (indexA2ACard a v st)"
  unfolding indexA2ACard_def
  by (rule same_cards_trans [OF _ same_cards_update_agent]) (auto simp: same_cards_def intro: agentFederates_cong)

lemma set_update_table: "set (AList.update k v t) \<subseteq> insert (k, v) (set t)"
  by (induction t) auto

lemma set_delete_table: "set (AList.delete k t) \<subseteq> set t"
  by (auto simp: AList.delete_eq)

lemma stream_pub_eq:
  "stream_pub st a = (case map_of (rg_cards st) a of None \<Rightarrow> None
     | Some cd \<Rightarrow> if cd_verified cd \<noteq> None \<and> agentFederates st a then Some (cd_card cd, cd_fed_seq cd) else None)"
  by (simp add: stream_pub_def published_row_def split: option.split)

text \<open>A write of the rows of one AID.\<close>

lemma stream_moveI:
  assumes "rg_fed_head st \<le> rg_fed_head st'"
    and "\<And>r. r \<in> set (rg_cards st') \<Longrightarrow> r \<in> set (rg_cards st) \<or> cd_fed_seq (snd r) \<le> rg_fed_head st'"
    and "\<And>r. r \<in> set (rg_withdrawals st') \<Longrightarrow> r \<in> set (rg_withdrawals st) \<or> wd_fed_seq (snd r) \<le> rg_fed_head st'"
    and "distinct (map fst (rg_cards st)) \<Longrightarrow> distinct (map fst (rg_cards st'))"
    and "distinct (map fst (rg_withdrawals st)) \<Longrightarrow> distinct (map fst (rg_withdrawals st'))"
    and "\<And>b. b \<noteq> a \<Longrightarrow> map_of (rg_cards st') b = map_of (rg_cards st) b \<and> map_of (rg_withdrawals st') b = map_of (rg_withdrawals st) b \<and>
      agentFederates st' b = agentFederates st b"
    and "stream_change (rg_fed_head st) (stream_pub st a) (stream_wd st a) (stream_pub st' a) (stream_wd st' a)"
  shows "stream_move a st st'"
proof -
  have "stream_keys st'" if k: "stream_keys st"
  proof -
    have "cd_fed_seq (snd r) \<le> rg_fed_head st'" if "r \<in> set (rg_cards st')" for r
      using assms(2) [OF that] assms(1) k unfolding stream_keys_def by (meson order_trans)
    moreover have "wd_fed_seq (snd r) \<le> rg_fed_head st'" if "r \<in> set (rg_withdrawals st')" for r
      using assms(3) [OF that] assms(1) k unfolding stream_keys_def by (meson order_trans)
    ultimately show ?thesis using k assms(1,4,5) by (simp add: stream_keys_def)
  qed
  moreover have "stream_pub st' b = stream_pub st b" "stream_wd st' b = stream_wd st b" if "b \<noteq> a" for b
    using assms(6) [OF that] by (simp_all only: stream_pub_eq stream_wd_def)
  ultimately show ?thesis using assms(1,7) by (simp add: stream_move_def)
qed

section \<open>The writes of one AID\<close>

lemma clear_sel [simp]:
  "rg_cards (clearA2AWithdrawal a st) = rg_cards st" "rg_fed_head (clearA2AWithdrawal a st) = rg_fed_head st"
  "agents (clearA2AWithdrawal a st) = agents st" "published_row (clearA2AWithdrawal a st) = published_row st"
  "agentFederates (clearA2AWithdrawal a st) = agentFederates st"
  by (auto simp: clearA2AWithdrawal_def published_row_def agentFederates_def fun_eq_iff split: option.split)

lemma clear_withdrawals:
  "rg_withdrawals (clearA2AWithdrawal a st) =
    (case (published_row st a, map_of (rg_withdrawals st) a) of
      (Some cd, Some w) \<Rightarrow> if wd_fed_seq w < cd_fed_seq cd then AList.delete a (rg_withdrawals st) else rg_withdrawals st
    | _ \<Rightarrow> rg_withdrawals st)"
  by (simp add: clearA2AWithdrawal_def split: option.split)

lemma stream_wd_clear:
  "stream_wd (clearA2AWithdrawal a st) b =
    (if b = a \<and> (\<exists>cd w. published_row st a = Some cd \<and> map_of (rg_withdrawals st) a = Some w \<and> wd_fed_seq w < cd_fed_seq cd)
     then None else stream_wd st b)"
  by (auto simp: stream_wd_def clear_withdrawals delete_conv' split: option.split)

lemma distinct_table:
  "distinct (map fst t) \<Longrightarrow> distinct (map fst (AList.update a v t))" "distinct (map fst t) \<Longrightarrow> distinct (map fst (AList.delete a t))"
  by (simp_all add: distinct_update distinct_delete)

text \<open>A listed card is written: at a new position, or restated where it is.\<close>

lemma card_move:
  assumes "rg_cards Y = AList.update a cd' (rg_cards st)" "rg_withdrawals Y = rg_withdrawals st" "rg_fed_head st \<le> rg_fed_head Y"
    "cd_fed_seq cd' \<le> rg_fed_head Y" "cd_verified cd' \<noteq> None"
    and fed: "\<And>b. b \<noteq> a \<Longrightarrow> agentFederates Y b = agentFederates st b" "agentFederates st a \<Longrightarrow> agentFederates Y a"
    and pos: "cd_fed_seq cd' = next_fed_seq st \<or> agentFederates Y a = agentFederates st a \<and>
      (\<exists>cd. map_of (rg_cards st) a = Some cd \<and> cd_verified cd \<noteq> None \<and> cd_card cd' = cd_card cd \<and> cd_fed_seq cd' = cd_fed_seq cd)"
  shows "stream_move a st (clearA2AWithdrawal a Y)"
proof (rule stream_moveI)
  let ?Z = "clearA2AWithdrawal a Y"
  show "map_of (rg_cards ?Z) b = map_of (rg_cards st) b \<and> map_of (rg_withdrawals ?Z) b = map_of (rg_withdrawals st) b \<and>
      agentFederates ?Z b = agentFederates st b" if "b \<noteq> a" for b
    using that fed(1) by (simp add: assms(1,2) clear_withdrawals update_conv' delete_conv' split: option.split)
  have w: "wd_fed_seq w < next_fed_seq st" if "map_of (rg_withdrawals st) a = Some w" for w
    using next_covers(2) map_of_SomeD [OF that] by force
  have row: "published_row Y a = (if agentFederates Y a then Some cd' else None)"
    using assms(5) by (simp add: published_row_def assms(1) update_conv')
  show "stream_change (rg_fed_head st) (stream_pub st a) (stream_wd st a) (stream_pub ?Z a) (stream_wd ?Z a)"
    using pos
  proof
    assume n: "cd_fed_seq cd' = next_fed_seq st"
    show ?thesis
    proof (cases "agentFederates Y a")
      case True
      then have "stream_pub ?Z a = Some (cd_card cd', next_fed_seq st)" using n by (simp add: stream_pub_def row)
      moreover have "stream_wd ?Z a = None"
        using True w n by (cases "map_of (rg_withdrawals st) a") (simp_all add: stream_wd_clear row assms(2), simp add: stream_wd_def assms(2))
      ultimately show ?thesis using next_is_new by (simp add: stream_change_def)
    next
      case False
      with fed(2) have "\<not> agentFederates st a" by blast
      then have "stream_pub st a = None" by (simp add: stream_pub_eq split: option.split)
      moreover have "stream_pub ?Z a = None" using False by (simp add: stream_pub_def row)
      moreover have "stream_wd ?Z a = stream_wd Y a" using False by (simp add: stream_wd_clear row)
      moreover have "stream_wd Y a = stream_wd st a" by (simp add: stream_wd_def assms(2))
      ultimately show ?thesis by (simp add: stream_change_def)
    qed
  next
    assume r: "agentFederates Y a = agentFederates st a \<and>
      (\<exists>cd. map_of (rg_cards st) a = Some cd \<and> cd_verified cd \<noteq> None \<and> cd_card cd' = cd_card cd \<and> cd_fed_seq cd' = cd_fed_seq cd)"
    then have "stream_pub ?Z a = stream_pub st a"
      using assms(5) by (auto simp: stream_pub_eq assms(1) update_conv' split: option.split)
    moreover have "stream_wd Y a = stream_wd st a" by (simp add: stream_wd_def assms(2))
    then have "stream_wd ?Z a = stream_wd st a \<or> stream_wd ?Z a = None \<and> stream_pub st a \<noteq> None"
      using r by (auto simp: stream_wd_clear row stream_pub_eq split: if_splits)
    ultimately show ?thesis by (simp add: stream_change_def)
  qed
qed (use assms(1-4) in \<open>auto simp: clear_withdrawals distinct_table split: option.splits if_splits
  dest: subsetD [OF set_delete_table] subsetD [OF set_update_table]\<close>)

text \<open>Publication ends: with a withdrawal when there was anything to withdraw.\<close>

definition stops :: "aid \<Rightarrow> registry \<Rightarrow> registry \<Rightarrow> bool" where
  "stops a st Y \<longleftrightarrow> published_row Y a = None \<and>
     (if agentFederates st a \<and> has_key (rg_cards st) a
      then \<exists>w. rg_withdrawals Y = AList.update a w (rg_withdrawals st) \<and> wd_fed_seq w > rg_fed_head st \<and> wd_fed_seq w \<le> rg_fed_head Y
      else rg_withdrawals Y = rg_withdrawals st)"

lemma stop_move:
  assumes "stops a st Y" "rg_fed_head st \<le> rg_fed_head Y"
    and cards: "\<And>r. r \<in> set (rg_cards Y) \<Longrightarrow> r \<in> set (rg_cards st) \<or> cd_fed_seq (snd r) \<le> rg_fed_head Y"
      "distinct (map fst (rg_cards st)) \<Longrightarrow> distinct (map fst (rg_cards Y))"
    and others: "\<And>b. b \<noteq> a \<Longrightarrow> map_of (rg_cards Y) b = map_of (rg_cards st) b \<and> agentFederates Y b = agentFederates st b"
  shows "stream_move a st Y"
proof (cases "agentFederates st a \<and> has_key (rg_cards st) a")
  case True
  then obtain w where w: "rg_withdrawals Y = AList.update a w (rg_withdrawals st)" "wd_fed_seq w > rg_fed_head st" "wd_fed_seq w \<le> rg_fed_head Y"
    using assms(1) by (auto simp: stops_def)
  have p: "stream_pub Y a = None" "stream_wd Y a = Some (wd_fed_seq w)"
    using assms(1) w(1) by (simp_all add: stops_def stream_pub_def stream_wd_def update_conv')
  show ?thesis
    by (rule stream_moveI)
       (use assms(2) cards others w p in \<open>auto simp: stream_change_def update_conv' distinct_table dest: subsetD [OF set_update_table]\<close>)
next
  case False
  then have w: "rg_withdrawals Y = rg_withdrawals st" using assms(1) by (simp add: stops_def split: if_splits)
  have "stream_pub st a = None" using False by (auto simp: stream_pub_eq has_key_def split: option.split)
  moreover have "stream_pub Y a = None" using assms(1) by (simp add: stops_def stream_pub_def)
  ultimately show ?thesis
    by (intro stream_moveI) (use assms(2) cards others w in \<open>auto simp: stream_change_def stream_wd_def\<close>)
qed

section \<open>The operations\<close>

text \<open>\<open>U\<close> is the state with the visibility of \<open>a\<close> already written.\<close>

lemma next_fed_seq_cong:
  "rg_cards U = rg_cards st \<Longrightarrow> rg_withdrawals U = rg_withdrawals st \<Longrightarrow> rg_fed_head U = rg_fed_head st \<Longrightarrow> next_fed_seq U = next_fed_seq st"
  by (simp add: next_fed_seq_def)

lemma bump_move:
  assumes "rg_cards U = rg_cards st" "rg_withdrawals U = rg_withdrawals st" "rg_fed_head U = rg_fed_head st"
    "\<And>b. b \<noteq> a \<Longrightarrow> agentFederates U b = agentFederates st b" "agentFederates st a \<Longrightarrow> agentFederates U a"
  shows "stream_move a st (bumpA2ACard a U)"
proof (cases "\<exists>cd. map_of (rg_cards st) a = Some cd \<and> cd_verified cd \<noteq> None")
  case True
  then obtain cd where cd: "map_of (rg_cards st) a = Some cd" "cd_verified cd \<noteq> None" by blast
  let ?Y = "set_card a (cd\<lparr>cd_fed_seq := next_fed_seq st\<rparr>) (U\<lparr>rg_fed_head := next_fed_seq st\<rparr>)"
  have "bumpA2ACard a U = clearA2AWithdrawal a ?Y"
    using cd next_fed_seq_cong [OF assms(1-3)] by (cases "cd_verified cd") (simp_all add: bumpA2ACard_def nextA2AFedSeq_def assms(1))
  moreover have "stream_move a st (clearA2AWithdrawal a ?Y)"
    by (rule card_move [where cd' = "cd\<lparr>cd_fed_seq := next_fed_seq st\<rparr>"])
       (use next_is_new(1) [of st] cd assms in \<open>simp_all add: set_card_def agentFederates_def agents_def\<close>)
  ultimately show ?thesis by simp
next
  case False
  then have "bumpA2ACard a U = U" by (auto simp: bumpA2ACard_def assms(1) split: option.split)
  moreover from False have "stream_pub U a = None" "stream_pub st a = None" by (auto simp: stream_pub_eq assms(1) split: option.split)
  then have "stream_move a st U" using assms by (intro stream_moveI) (simp_all add: stream_change_def stream_wd_def)
  ultimately show ?thesis by simp
qed

lemma withdraw_stops:
  fixes st :: registry
  assumes "rg_cards U = rg_cards st" "rg_withdrawals U = rg_withdrawals st" "rg_fed_head U = rg_fed_head st"
  shows "rg_fed_head st \<le> rg_fed_head (withdrawA2ACard a r U)"
    "has_key (rg_cards st) a \<Longrightarrow> \<exists>w. rg_withdrawals (withdrawA2ACard a r U) = AList.update a w (rg_withdrawals st) \<and>
       wd_fed_seq w > rg_fed_head st \<and> wd_fed_seq w \<le> rg_fed_head (withdrawA2ACard a r U)"
    "\<not> has_key (rg_cards st) a \<Longrightarrow> withdrawA2ACard a r U = U"
  using next_is_new(1) [of st]
  by (auto simp: withdrawA2ACard_def nextA2AFedSeq_def assms next_fed_seq_cong [OF assms])

lemma agentFederates_withdraw [simp]: "agentFederates (withdrawA2ACard a r st) = agentFederates st"
  by (rule agentFederates_cong) simp

lemma visibility_move:
  assumes "SetVisibility a v st = Inr st'"
  shows "stream_move a st st'"
proof -
  obtain r where r: "map_of (agents st) a = Some r" using assms by (auto simp: SetVisibility_def split: if_splits option.splits)
  define U where "U = update_agent a (\<lambda>r. r\<lparr>ag_visibility := v\<rparr>) st"
  have st': "st' = (if ag_visibility r = v then U else a2aVisibilityChanged a (ag_visibility r) v U)"
    using assms r by (auto simp: SetVisibility_def U_def split: if_splits)
  have t: "rg_cards U = rg_cards st" "rg_withdrawals U = rg_withdrawals st" "rg_fed_head U = rg_fed_head st" by (simp_all add: U_def)
  have fed: "agentFederates U b = (if b = a then federates v else agentFederates st b)" for b
    using r by (simp add: U_def agentFederates_def map_of_update_agent)
  have fa: "agentFederates st a = federates (ag_visibility r)" using r by (simp add: agentFederates_def)
  consider "federates (ag_visibility r)" "\<not> federates v" | "\<not> federates (ag_visibility r)" "federates v"
    | "federates (ag_visibility r) = federates v" by blast
  then show ?thesis
  proof cases
    case 1
    then have e: "st' = withdrawA2ACard a withdrawNotFederated U" using st' by (auto simp: a2aVisibilityChanged_def)
    have "published_row st' a = None" using 1 by (simp add: e published_row_def fed split: option.split)
    moreover have "\<not> has_key (rg_cards st) a \<Longrightarrow> rg_withdrawals st' = rg_withdrawals st" using withdraw_stops(3) [OF t] t(2) e by metis
    ultimately have "stops a st st'"
      using withdraw_stops(2) [OF t, of a withdrawNotFederated] 1 fa unfolding stops_def e by auto
    then show ?thesis by (rule stop_move) (use withdraw_stops(1) [OF t] in \<open>simp_all add: e fed t\<close>)
  next
    case 2
    then have "st' = bumpA2ACard a U" using st' by (auto simp: a2aVisibilityChanged_def)
    then show ?thesis using bump_move [OF t] fed fa 2 by simp
  next
    case 3
    then have e: "st' = U" using st' by (auto simp: a2aVisibilityChanged_def)
    have "agentFederates U = agentFederates st" using 3 fa fed by (auto simp: fun_eq_iff)
    then have "same_cards st U" by (simp add: same_cards_def t)
    with e show ?thesis by (simp add: same_cards_stream same_stream_move)
  qed
qed

lemma index_sel [simp]:
  "rg_cards (indexA2ACard a v st) = rg_cards st" "rg_withdrawals (indexA2ACard a v st) = rg_withdrawals st"
  "rg_fed_head (indexA2ACard a v st) = rg_fed_head st" "agentFederates (indexA2ACard a v st) = agentFederates st"
  using same_cards_index [of st a v] by (simp_all add: same_cards_def)

lemma set_card_sel [simp]:
  "rg_cards (set_card a cd st) = AList.update a cd (rg_cards st)" "rg_withdrawals (set_card a cd st) = rg_withdrawals st"
  "rg_fed_head (set_card a cd st) = rg_fed_head st" "agentFederates (set_card a cd st) = agentFederates st"
  by (simp_all add: set_card_def agentFederates_def agents_def fun_eq_iff)

lemma head_sel [simp]: "agentFederates (st\<lparr>rg_fed_head := n\<rparr>) = agentFederates st" "agentFederates (st\<lparr>rg_cards := t\<rparr>) = agentFederates st"
  by (simp_all add: agentFederates_def agents_def fun_eq_iff)

lemma store_move: "stream_move a st (storeAdmittedA2ACard c a raw v now st)"
  unfolding storeAdmittedA2ACard_def nextA2AFedSeq_def prod.case
  by (rule card_move [where cd' = "\<lparr>cd_card = raw, cd_seq = cv_seq v, cd_hash = Some (cv_hash v),
        cd_verified = Some (verifiedStamp now), cd_search = cardSearchText c raw v, cd_fed_seq = next_fed_seq st\<rparr>"])
     (use next_is_new(1) [of st] in simp_all)

lemma relist_move:
  assumes "map_of (rg_cards st) a = Some cd"
  shows "stream_move a st (relist_card a cd v now st)"
  unfolding relist_card_def nextA2AFedSeq_def prod.case
  by (rule card_move [where cd' = "cd\<lparr>cd_fed_seq := (if cd_verified cd = None then next_fed_seq st else cd_fed_seq cd),
        cd_verified := Some (verifiedStamp now)\<rparr>"])
     (use next_is_new(1) [of st] next_covers(1) [OF map_of_SomeD [OF assms]] assms in \<open>simp_all add: less_imp_le\<close>)

lemma published_row_cong: "rg_cards U = rg_cards V \<Longrightarrow> agentFederates U = agentFederates V \<Longrightarrow> published_row U = published_row V"
  by (auto simp: published_row_def fun_eq_iff split: option.split)

lemma delist_move:
  assumes "has_key (rg_cards st) a"
  shows "stream_move a st (delist_card a cd st)"
proof -
  define Y where "Y = set_card a (cd\<lparr>cd_verified := None, cd_fed_seq := next_fed_seq st\<rparr>)
      (drop_card_index a (st\<lparr>rg_fed_head := next_fed_seq st\<rparr>))"
  have Y: "rg_cards Y = AList.update a (cd\<lparr>cd_verified := None, cd_fed_seq := next_fed_seq st\<rparr>) (rg_cards st)"
    "rg_withdrawals Y = rg_withdrawals st" "rg_fed_head Y = next_fed_seq st" "agentFederates Y = agentFederates st" "has_key (rg_cards Y) a"
    by (simp_all add: Y_def drop_card_index_def agentFederates_def agents_def fun_eq_iff has_key_def update_conv')
  define X where "X = (if agentFederates st a then withdrawA2ACard a withdrawDelisted Y else Y)"
  have e: "delist_card a cd st = X"
    unfolding X_def delist_card_def nextA2AFedSeq_def prod.case Let_def Y_def [symmetric] Y(4) ..
  have cards: "rg_cards X = rg_cards Y" "agentFederates X = agentFederates st" by (simp_all add: X_def Y)
  have heads: "next_fed_seq st \<le> rg_fed_head X" using withdraw_stops(1) [of Y Y a withdrawDelisted] by (simp add: X_def Y(3))
  have "published_row X a = None" by (simp add: published_row_def cards Y(1) update_conv')
  moreover have "if agentFederates st a \<and> has_key (rg_cards st) a
      then \<exists>w. rg_withdrawals X = AList.update a w (rg_withdrawals st) \<and> wd_fed_seq w > rg_fed_head st \<and> wd_fed_seq w \<le> rg_fed_head X
      else rg_withdrawals X = rg_withdrawals st"
    using assms withdraw_stops(2) [of Y Y a withdrawDelisted] Y next_is_new(1) [of st] by (auto simp: X_def intro: less_trans)
  ultimately have s: "stops a st X" by (simp add: stops_def)
  show ?thesis unfolding e
    by (rule stop_move [OF s])
       (use heads next_is_new(1) [of st] in \<open>auto simp: cards Y distinct_table update_conv' dest: subsetD [OF set_update_table]\<close>)
qed

lemma stream_move_dir: "stream_move a st u \<Longrightarrow> refreshDirTx c h draw b u = Inr st' \<Longrightarrow> stream_move a st st'"
  by (rule move_same_trans) (auto intro: same_cards_stream same_cards_refreshDir)

lemma recheck_move:
  assumes "recheckA2ACard c h draw a k now seen st = Inr st'"
  shows "stream_move a st st'"
proof -
  have "st' = st \<or> (\<exists>cd. map_of (rg_cards st) a = Some cd \<and> refreshDirTx c h draw a (delist_card a cd st) = Inr st') \<or>
      (\<exists>cd v. map_of (rg_cards st) a = Some cd \<and> cd_verified cd \<noteq> None \<and>
         st' = indexA2ACard a v (set_card a (cd\<lparr>cd_verified := Some (verifiedStamp now)\<rparr>) st))"
    using assms by (auto simp: recheckA2ACard_def listed_card_def split: option.splits if_splits sum.splits)
  then show ?thesis
  proof (elim disjE exE conjE)
    assume "st' = st"
    then show ?thesis by (simp add: same_stream_move)
  next
    fix cd assume "map_of (rg_cards st) a = Some cd" "refreshDirTx c h draw a (delist_card a cd st) = Inr st'"
    then show ?thesis by (intro stream_move_dir [OF delist_move]) (simp_all add: has_key_def)
  next
    fix cd v assume r: "map_of (rg_cards st) a = Some cd" "cd_verified cd \<noteq> None"
      "st' = indexA2ACard a v (set_card a (cd\<lparr>cd_verified := Some (verifiedStamp now)\<rparr>) st)"
    have e: "rg_cards st' = AList.update a (cd\<lparr>cd_verified := Some (verifiedStamp now)\<rparr>) (rg_cards st)"
      "rg_withdrawals st' = rg_withdrawals st" "rg_fed_head st' = rg_fed_head st" "agentFederates st' = agentFederates st"
      by (simp_all add: r(3))
    have "stream_pub st' b = stream_pub st b" for b using r(1,2) unfolding stream_pub_eq e by (simp add: update_conv')
    moreover have "cd_fed_seq (snd x) \<le> rg_fed_head st" if "stream_keys st" "x \<in> set (rg_cards st')" for x
      using that map_of_SomeD [OF r(1)] by (auto simp: e stream_keys_def dest!: subsetD [OF set_update_table])
    then have "stream_keys st \<Longrightarrow> stream_keys st'" by (simp add: stream_keys_def e distinct_table)
    ultimately have "same_stream st st'" by (simp add: same_stream_def e fun_eq_iff stream_wd_def)
    then show ?thesis by (rule same_stream_move)
  qed
qed

lemma dir_stream: "refreshDirTx c h draw b st = Inr st' \<Longrightarrow> same_stream st st'"
  by (intro same_cards_stream same_cards_refreshDir)

lemma admit_card_move: "AdmitA2ACard c h draw a raw k now st = (st', r) \<Longrightarrow> stream_move a st st'"
  by (auto simp: AdmitA2ACard_def Let_def split: if_splits sum.splits prod.splits option.splits
      intro: stream_move_dir [OF store_move] stream_move_dir [OF relist_move] dir_stream [THEN same_stream_move]
        same_stream_move [OF same_stream_refl])

lemma withdraw_card_move:
  assumes "WithdrawA2ACard c h draw a st = Inr st'"
  shows "stream_move a st st'"
proof -
  define U where "U = (if agentFederates st a then withdrawA2ACard a withdrawReasonAgent st else st)"
  define X where "X = drop_card_index a (U\<lparr>rg_cards := AList.delete a (rg_cards U)\<rparr>)"
  have dir: "refreshDirTx c h draw a X = Inr st'" using assms by (simp add: WithdrawA2ACard_def Let_def U_def X_def)
  have X: "rg_cards X = AList.delete a (rg_cards st)" "rg_withdrawals X = rg_withdrawals U" "rg_fed_head X = rg_fed_head U"
    "agentFederates X = agentFederates st"
    by (simp_all add: X_def drop_card_index_def U_def agentFederates_def agents_def fun_eq_iff)
  have heads: "rg_fed_head st \<le> rg_fed_head U" unfolding U_def using withdraw_stops(1) [of st st a withdrawReasonAgent] by auto
  have "published_row X a = None" by (simp add: published_row_def X(1) delete_conv')
  moreover have "\<not> has_key (rg_cards st) a \<Longrightarrow> U = st"
    unfolding U_def by (simp add: withdraw_stops(3) [OF refl refl refl])
  moreover have "agentFederates st a \<Longrightarrow> has_key (rg_cards st) a \<Longrightarrow> \<exists>w. rg_withdrawals U = AList.update a w (rg_withdrawals st) \<and>
      wd_fed_seq w > rg_fed_head st \<and> wd_fed_seq w \<le> rg_fed_head U"
    unfolding U_def using withdraw_stops(2) [OF refl refl refl, of st a withdrawReasonAgent] by simp
  ultimately have s: "stops a st X" unfolding stops_def X by (auto simp: U_def)
  have "stream_move a st X"
    by (rule stop_move [OF s]) (use heads in \<open>auto simp: X distinct_table delete_conv' dest: subsetD [OF set_delete_table]\<close>)
  then show ?thesis using dir by (rule stream_move_dir)
qed

lemma dereg_move:
  assumes "DeregisterTx c now a why st = Inr (st', d)"
  shows "stream_move a st st'"
proof -
  obtain r where r: "map_of (agents st) a = Some r"
    "st' = (let u = dereg_fold a (ag_visibility r) (countKELChangeTx (st\<lparr>rg_departed := AList.update a (ag_kel r) (rg_departed st)\<rparr>));
                u = (if why = DeregRevoked \<or> why = DeregOperator
                     then (set_admitted (AList.delete a (ac_admitted (rg_accounts u))) u)\<lparr>rg_quota := AList.delete a (rg_quota u)\<rparr> else u)
            in u\<lparr>rg_dereg_events := AList.update a (unix_milli now) (rg_dereg_events u)\<rparr>)"
    using DeregisterTx_Inr [OF assms] by metis
  define t where "t = countKELChangeTx (st\<lparr>rg_departed := AList.update a (ag_kel r) (rg_departed st)\<rparr>)"
  have t: "rg_cards t = rg_cards st" "rg_withdrawals t = rg_withdrawals st" "rg_fed_head t = rg_fed_head st" "agents t = agents st"
    by (simp_all add: t_def countKELChangeTx_def)
  define U where "U = (if federates (ag_visibility r) then withdrawA2ACard a withdrawDeparted t else t)"
  have e: "rg_cards st' = AList.delete a (rg_cards st)" "rg_withdrawals st' = rg_withdrawals U" "rg_fed_head st' = rg_fed_head U"
    "agents st' = AList.delete a (agents st)"
    by (auto simp: r(2) t_def [symmetric] Let_def dereg_fold_sel t U_def set_admitted_def agents_def dereg_fold_sel(1) [unfolded agents_def]
        t(4) [unfolded agents_def])
  have fed: "agentFederates st a = federates (ag_visibility r)" using r(1) by (simp add: agentFederates_def)
  have heads: "rg_fed_head st \<le> rg_fed_head U" unfolding U_def using withdraw_stops(1) [OF t(1-3)] t(3) by auto
  have "published_row st' a = None" by (simp add: published_row_def e(1) delete_conv')
  moreover have "\<not> has_key (rg_cards st) a \<Longrightarrow> rg_withdrawals U = rg_withdrawals st"
    unfolding U_def by (simp add: withdraw_stops(3) [OF t(1-3)] t(2))
  moreover have "agentFederates st a \<Longrightarrow> has_key (rg_cards st) a \<Longrightarrow> \<exists>w. rg_withdrawals U = AList.update a w (rg_withdrawals st) \<and>
      wd_fed_seq w > rg_fed_head st \<and> wd_fed_seq w \<le> rg_fed_head U"
    unfolding U_def fed using withdraw_stops(2) [OF t(1-3), of a withdrawDeparted] by simp
  moreover have "\<not> agentFederates st a \<Longrightarrow> rg_withdrawals U = rg_withdrawals st" by (simp add: U_def fed t(2))
  ultimately have s: "stops a st st'" unfolding stops_def e by auto
  show ?thesis
    by (rule stop_move [OF s])
       (use heads in \<open>auto simp: e distinct_table delete_conv' agentFederates_def dest: subsetD [OF set_delete_table]\<close>)
qed

lemma store_key_set_move:
  assumes "store_key_set c h draw a es canon rose st = Inr st'"
  shows "stream_move a st st'"
proof -
  define u where "u = set_key_sets (AList.update a (ek_seq es, canon) (key_sets st)) st"
  define w where "w = (if agentFederates u a then bumpA2ACard a u else u)"
  have "rbind (refreshDirTx c h draw a w) (\<lambda>x. Inr (if rose then x\<lparr>rg_revoked := delete_owner a (rg_revoked x)\<rparr> else x)) = Inr st'"
    using assms by (simp only: store_key_set_def Let_def u_def w_def)
  then obtain x where x: "refreshDirTx c h draw a w = Inr x" "st' = (if rose then x\<lparr>rg_revoked := delete_owner a (rg_revoked x)\<rparr> else x)"
    unfolding rbind_eq_Inr by blast
  have u: "same_cards st u" by (simp add: u_def same_cards_small)
  then have "stream_move a st w"
    using bump_move [of u st a] by (auto simp: w_def same_cards_def intro: same_stream_move [OF same_cards_stream [OF u]])
  then have "stream_move a st x" using x(1) by (rule stream_move_dir)
  moreover have "same_cards x st'" by (simp add: x(2) same_cards_def agentFederates_def agents_def fun_eq_iff)
  ultimately show ?thesis by (auto intro: move_same_trans same_cards_stream)
qed

lemma publish_move: "PublishKeys c h draw a raw p k now st = Inr (st', status, rose) \<Longrightarrow> stream_move a st st'"
  by (erule PublishKeys_cases) (auto intro: store_key_set_move same_stream_move)

section \<open>The operations that are not about a card\<close>

lemma writeAdmissionTx_visibility:
  assumes "writeAdmissionTx h now a v win adm_now ac = Inr ac'"
  shows "map_option ag_visibility (map_of (ac_agents ac') b) = map_option ag_visibility (map_of (ac_agents ac) b)"
  using assms
  by (cases v) (auto simp: writeAdmissionTx_def rbind_eq_Inr map_of_update_eq dest!: payListGrantTx_agents
      split: if_splits option.splits)

lemma agentFederates_eq: "agentFederates st a \<longleftrightarrow> map_option ag_visibility (map_of (agents st) a) \<in> Some ` Collect federates"
  by (auto simp: agentFederates_def split: option.split)

lemma same_cards_visibility:
  assumes "rg_cards st' = rg_cards st" "rg_withdrawals st' = rg_withdrawals st" "rg_fed_head st' = rg_fed_head st"
    "\<And>b. map_option ag_visibility (map_of (agents st') b) = map_option ag_visibility (map_of (agents st) b)"
  shows "same_cards st st'"
  by (simp only: same_cards_def assms agentFederates_eq fun_eq_iff simp_thms)

lemma same_cards_admission:
  assumes "admission_of h now a existed adm st = Inr (st', w)"
  shows "same_cards st st'"
proof (rule same_cards_visibility)
  have e: "st' = st \<or> (\<exists>(w :: admission_write) ac. writeAdmissionTx h now a (aw_via w) (aw_window w) (aw_now w) (rg_accounts st) = Inr ac \<and> st' = st\<lparr>rg_accounts := ac\<rparr>)"
    using assms by (auto simp: admission_of_def split: option.splits if_splits sum.splits)
  then show "rg_cards st' = rg_cards st" "rg_withdrawals st' = rg_withdrawals st" "rg_fed_head st' = rg_fed_head st" by auto
  show "map_option ag_visibility (map_of (agents st') b) = map_option ag_visibility (map_of (agents st) b)" for b
    using e by (auto simp: agents_def dest: writeAdmissionTx_visibility)
qed

lemma same_cards_put_row: "same_cards st (put_row c now a name caps k st)"
  by (auto simp: put_row_def replace_caps_def upsert_agent_def Let_def same_cards_def agentFederates_def fun_eq_iff map_of_update_eq
      new_agent_row_def federates_def VisibilityHubLocal_def VisibilityFederated_def VisibilityPublic_def split: option.split)

lemma same_cards_changed: "kelChangedTx c a k st = Inr st' \<Longrightarrow> same_cards st st'"
  by (auto simp: kelChangedTx_def split: option.splits if_splits
      intro: same_cards_small(3) same_cards_trans [OF same_cards_small(1) same_cards_small(3)])

lemma same_cards_put:
  assumes "putAgent c h draw now a name caps k ext adm st = Inr (st', admitted, changed)"
  shows "same_cards st st'"
proof -
  obtain longer s1 s2 s3 where x:
    "admission_of h now a (AgentKEL st a \<noteq> None) adm (put_row c now a name caps k st) = Inr (s1, admitted)"
    "(if changed then kelChangedTx c a k s1 else Inr s1) = Inr s2"
    "s3 = (let s = (if changed \<or> AgentKEL st a = None then countKELChangeTx s2 else s2)
           in if longer then releaseTx a releasedLongerKEL now s else s)"
    "refreshDirTx c h draw a s3 = Inr st'"
    using putAgent_Inr [OF assms] by metis
  have "same_cards st (put_row c now a name caps k st)" by (rule same_cards_put_row)
  also have "same_cards \<dots> s1" by (rule same_cards_admission [OF x(1)])
  also have "same_cards s1 s2" using x(2) by (auto intro: same_cards_changed split: if_splits)
  also have "same_cards s2 s3"
    using same_cards_small(2) [of s2] same_cards_small(4) [of s2 a releasedLongerKEL now]
      same_cards_small(4) [of "countKELChangeTx s2" a releasedLongerKEL now] by (auto simp: x(3) Let_def intro: same_cards_trans)
  also have "same_cards s3 st'" by (rule same_cards_refreshDir [OF x(4)])
  finally show ?thesis .
qed

lemma push_registered_move:
  assumes "push_registered c h draw now a raw dip st = Inr st'"
  shows "stream_move a st st'"
proof -
  define u where "u = update_agent a (\<lambda>r. r\<lparr>ag_kel := raw, ag_tip_seq := fst (storedTip c raw), ag_tip_head := snd (storedTip c raw)\<rparr>) st"
  note A = assms [unfolded push_registered_def Let_def, folded u_def]
  have "same_cards st u" unfolding u_def by (rule same_cards_update_agent) simp
  then have u: "same_cards st (countKELChangeTx u)" by (rule same_cards_trans) (rule same_cards_small)
  have "stream_move a (countKELChangeTx u) st'"
  proof (cases dip)
    case True
    with A show ?thesis by (auto simp: rbind_eq_Inr intro: dereg_move)
  next
    case False
    then obtain v where v: "kelChangedTx c a raw (countKELChangeTx u) = Inr v" "refreshDirTx c h draw a (releaseTx a releasedLongerKEL now v) = Inr st'"
      using A by (auto simp: rbind_eq_Inr)
    from same_cards_changed [OF v(1)] have "same_cards (countKELChangeTx u) (releaseTx a releasedLongerKEL now v)"
      by (rule same_cards_trans) (rule same_cards_small)
    also have "same_cards \<dots> st'" by (rule same_cards_refreshDir [OF v(2)])
    finally show ?thesis by (intro same_stream_move same_cards_stream)
  qed
  with same_cards_stream [OF u] show ?thesis by (rule same_move_trans)
qed

lemma same_cards_tombstone: "writeTombstone c a k st = Inr st' \<Longrightarrow> same_cards st st'"
  by (auto simp: writeTombstone_Inr same_cards_def countKELChangeTx_def agentFederates_def agents_def fun_eq_iff)

lemma push_move:
  assumes "pushKELLocked c h draw now a k st = Inr (st', res, registered)"
  shows "stream_move a st st'"
proof -
  obtain held :: kel where P:
    "if length k = length held then st' = st \<and> ps_unchanged res \<and> \<not> ps_deregistered res
     else \<not> ps_unchanged res \<and> CheckNewEvents c held k (word_of_int (unix_milli now)) (firstWitness k (hubAID h)) = None \<and>
       ps_deregistered res = (registered \<and> EvType (last k) = Deactivation) \<and>
       (\<exists>raw. MarshalKEL c k = Some raw \<and>
          (if registered then push_registered c h draw now a raw (EvType (last k) = Deactivation) st = Inr st'
           else writeTombstone c a raw st = Inr st'))"
    using pushKELLocked_Inr [OF assms] by metis
  show ?thesis
  proof (cases "length k = length held")
    case True
    with P show ?thesis by (simp add: same_stream_move)
  next
    case False
    with P obtain raw where "if registered then push_registered c h draw now a raw (EvType (last k) = Deactivation) st = Inr st'
        else writeTombstone c a raw st = Inr st'" by auto
    then show ?thesis
      by (cases registered) (simp_all add: push_registered_move same_stream_move same_cards_stream [OF same_cards_tombstone])
  qed
qed

lemma same_cards_refresh_dirs: "refresh_dirs c h draw as st = Inr st' \<Longrightarrow> same_cards st st'"
  by (induction as arbitrary: st) (auto simp: rbind_eq_Inr intro: same_cards_trans [OF same_cards_refreshDir])

lemma same_cards_quarantine: "same_cards st (startQuarantineTx why now st)"
proof (rule same_cards_visibility)
  have "map_of (map (\<lambda>(a, r). (a, r\<lparr>ag_dir := None\<rparr>)) t) b = map_option (\<lambda>r. r\<lparr>ag_dir := None\<rparr>) (map_of t b)"
    for t :: "(aid, agent_row) table" and b by (induction t) auto
  then show "map_option ag_visibility (map_of (agents (startQuarantineTx why now st)) b) = map_option ag_visibility (map_of (agents st) b)" for b
    by (simp add: startQuarantineTx_def option.map_comp comp_def)
qed (simp_all add: startQuarantineTx_def)

lemma same_cards_begin:
  assumes "BeginServing c h draw now m st = Inr (m', st')"
  shows "same_cards st st'"
proof (cases "rg_restore st")
  case None
  with assms show ?thesis by (simp add: BeginServing_def)
next
  case (Some r)
  define u where "u = st\<lparr>rg_restore := Some (r\<lparr>rs_serving_since := Some (unix_milli now)\<rparr>)\<rparr>"
  have "same_cards st u" by (rule same_cards_visibility) (simp_all add: u_def)
  moreover have "st = st' \<or> refresh_dirs c h draw (sort (map fst (agents st))) u = Inr st'"
    using assms Some by (auto simp: BeginServing_def u_def rbind_eq_Inr split: if_splits)
  ultimately show ?thesis by (auto intro: same_cards_trans same_cards_refresh_dirs)
qed

lemma same_cards_end: "EndQuarantineWhenNoneHeld now m st = (m', st') \<Longrightarrow> same_cards st st'"
  by (rule same_cards_visibility) (auto simp: EndQuarantineWhenNoneHeld_def split: if_splits)

lemma same_cards_current_key: "same_cards st (releaseOnCurrentKey c h draw now a m seen st)"
  by (auto simp: releaseOnCurrentKey_def committed_or_def split: sum.split
      intro: same_cards_trans [OF same_cards_small(4) same_cards_refreshDir])

lemma same_cards_fed: "AdmitFedA2ACard c peer e now st = Inr st' \<Longrightarrow> same_cards st st'"
  by (rule same_cards_visibility)
     (auto simp: AdmitFedA2ACard_def admit_fed_tx_def Let_def store_fed_card_def indexFedA2ACard_def split: if_splits option.splits sum.splits)

lemma same_cards_retire: "retireFedA2ACard peer w st = Inr st' \<Longrightarrow> same_cards st st'"
  by (rule same_cards_visibility) (auto simp: retireFedA2ACard_def split: if_splits option.splits prod.splits)

lemma same_cards_elsewhere:
  assumes "elsewhere st st'"
  shows "same_cards st st'"
proof (rule same_cards_visibility)
  have v: "map_option ag_visibility (map_of t b) = map_option ag_visibility (map_of (map (\<lambda>(a, r). (a, other_columns r)) t) b)" for t b
    by (induction t) (auto simp: other_columns_def)
  show "map_option ag_visibility (map_of (agents st') b) = map_option ag_visibility (map_of (agents st) b)" for b
    using assms unfolding v [of "agents st'"] v [of "agents st"] by (simp only: elsewhere_def)
qed (use assms in \<open>simp_all add: elsewhere_def\<close>)

end
