(* ===== verification/Stream_Machine.thy ===== *)
theory Stream_Machine
  imports Stream_Laws
begin

text \<open>
  The stream over time: every step of the registry is a move of the stream for one AID, and a peer that reads
  the stream page by page, at any times between the steps, keeps a copy.
\<close>

section \<open>Every step moves the stream for one AID at most\<close>

lemma same_cards_notice:
  assumes "NoticeFor c h draw now a seen st = Inr (st', ans)"
  shows "same_cards st st'"
proof -
  have issue: "same_cards st x" if issued: "issueNoticeTx c h now a st = Inr (x, y)" for x y
  proof (rule same_cards_visibility)
    obtain j where "judgeNotice c h now a st = Inr j" using issued by (auto simp: issueNoticeTx_def rbind_eq_Inr)
    with issued have "st = x \<or> (\<exists>t. x = st\<lparr>rg_notices := t\<rparr>)"
      by (cases j) (auto simp: issueNoticeTx_def split: option.splits)
    then show "rg_cards x = rg_cards st" "rg_withdrawals x = rg_withdrawals st" "rg_fed_head x = rg_fed_head st"
      "map_option ag_visibility (map_of (agents x) b) = map_option ag_visibility (map_of (agents st) b)" for b
      by auto
  qed
  obtain j where j: "judgeNotice c h now a seen = Inr j" using assms by (auto simp: NoticeFor_def rbind_eq_Inr)
  show ?thesis
  proof (cases "\<exists>tip. j = Judged tip None")
    case True
    then have n: "notice_tx c h draw now a st = Inr (st', ans)" using assms j by (auto simp: NoticeFor_def)
    obtain x ans' issued where x: "issueNoticeTx c h now a st = Inr (x, ans', issued)"
      using n by (cases "issueNoticeTx c h now a st") (auto simp: notice_tx_def)
    with n have "st' = st \<or> refreshDirTx c h draw a x = Inr st'"
      by (cases issued) (auto simp: notice_tx_def rbind_eq_Inr)
    with issue [OF x] show ?thesis by (auto intro: same_cards_trans same_cards_refreshDir)
  next
    case False
    then have "st' = st" using assms j by (cases j) (auto simp: NoticeFor_def split: option.splits)
    then show ?thesis by simp
  qed
qed

lemma same_cards_restart:
  assumes "checkKELHighWater now st s = Inr (st', m, f)"
  shows "same_cards st st'"
proof -
  have "st' = st \<or> (\<exists>n b. beginRollbackQuarantine n b now st = Inr st')"
    using assms by (auto simp: checkKELHighWater_def Let_def rbind_eq_Inr case_prod_beta split: if_splits)
  moreover have "same_cards st st'" if "beginRollbackQuarantine n b now st = Inr st'" for n b
  proof -
    let ?q = "startQuarantineTx quarantineRollback now st"
    have "same_cards ?q (?q\<lparr>rg_kel_changes := k\<rparr>)" for k by (rule same_cards_visibility) simp_all
    moreover have "st' = st \<or> st' = ?q \<or> (\<exists>k. st' = ?q\<lparr>rg_kel_changes := k\<rparr>)"
      using that by (auto simp: beginRollbackQuarantine_def Let_def rbind_eq_Inr split: if_splits)
    ultimately show ?thesis using same_cards_quarantine by (metis same_cards_trans same_cards_refl)
  qed
  ultimately show ?thesis by auto
qed

lemma revoke_stream:
  assumes "revoke_tx c now a st = Inr (st', rv)"
  shows "stream_move a st st'"
proof -
  have "(\<exists>d. DeregisterTx c now a DeregRevoked st = Inr (st', d)) \<or> same_cards st st'"
    using assms same_cards_small(6) by (auto simp: revoke_tx_def split: if_splits sum.splits prod.splits)
  then show ?thesis by (auto intro: dereg_move same_stream_move same_cards_stream)
qed

lemma sweep_stream:
  assumes "sweepOne c now a cutoff st = Inr (st', swept)"
  shows "stream_move a st st'"
proof -
  have "st' = st \<or> (\<exists>d. DeregisterTx c now a DeregInactive st = Inr (st', d))"
    using assms by (auto simp: sweepOne_def rbind_eq_Inr split: if_splits)
  then show ?thesis by (auto intro: dereg_move same_stream_move)
qed

lemma same_cards_row_writes:
  "PutProfile a summary readme st = Inr st' \<Longrightarrow> same_cards st st'" "same_cards st (SeenPolling now a st)"
  "afterDereg in_process a st = (st'', as) \<Longrightarrow> same_cards st st''" "same_cards st (drain_one e st)"
  by (auto simp: PutProfile_def SeenPolling_def intro: same_cards_update_agent split: if_splits)
     (rule same_cards_visibility; auto simp: afterDereg_def drain_one_def split: if_splits)+

lemmas same_cards_ops = same_cards_row_writes same_cards_fed same_cards_retire same_cards_notice same_cards_current_key
  same_cards_end same_cards_begin same_cards_restart same_cards_elsewhere

lemmas stream_moves = push_move dereg_move revoke_stream sweep_stream visibility_move publish_move admit_card_move recheck_move
  withdraw_card_move

lemma reg_step_moves:
  assumes "reg_step c h now s s'"
  shows "\<exists>a. stream_move a (hb_db s) (hb_db s')"
  using assms
proof cases
  case (r_register evs raw draw a name caps adm st' admitted changed)
  then have "same_cards (hb_db s) st'" by (auto simp: registerAgent_def intro: same_cards_put split: if_splits)
  with r_register(1) show ?thesis by (auto intro: same_stream_move same_cards_stream)
qed (auto intro: stream_moves same_cards_ops [THEN same_cards_stream, THEN same_stream_move] same_stream_move)

section \<open>What the stream says of an AID\<close>

text \<open>The position of its entry, and the card, or \<open>None\<close> for a withdrawal.\<close>

definition stream_says :: "registry \<Rightarrow> aid \<Rightarrow> (int \<times> bytes option) option" where
  "stream_says st a = (case stream_pub st a of Some (c, s) \<Rightarrow> Some (s, Some c) | None \<Rightarrow> map_option (\<lambda>s. (s, None)) (stream_wd st a))"

definition stream_ok :: "registry \<Rightarrow> bool" where
  "stream_ok st \<longleftrightarrow> stream_keys st \<and> (\<forall>a. stream_pub st a = None \<or> stream_wd st a = None) \<and>
     (\<forall>a b s c d. stream_says st a = Some (s, c) \<and> stream_says st b = Some (s, d) \<longrightarrow> a = b) \<and>
     (\<forall>a s c. stream_says st a = Some (s, c) \<longrightarrow> 0 < s)"

lemma says_positive: "stream_ok st \<Longrightarrow> stream_says st a = Some (s, c) \<Longrightarrow> 0 < s"
  unfolding stream_ok_def by blast

lemma says_covered:
  assumes "stream_keys st" "stream_says st a = Some (s, c)"
  shows "s \<le> rg_fed_head st"
proof (cases "stream_pub st a")
  case None
  with assms(2) obtain w where "map_of (rg_withdrawals st) a = Some w" "wd_fed_seq w = s"
    by (auto simp: stream_says_def stream_wd_def)
  with assms(1) show ?thesis by (auto simp: stream_keys_def dest!: map_of_SomeD)
next
  case (Some x)
  then obtain cd where "map_of (rg_cards st) a = Some cd" "x = (cd_card cd, cd_fed_seq cd)"
    by (auto simp: stream_pub_eq split: option.splits if_splits)
  with assms Some show ?thesis by (auto simp: stream_says_def stream_keys_def dest!: map_of_SomeD)
qed

lemma says_move:
  assumes "stream_ok st" "stream_move a st st'"
  shows "stream_says st' b = stream_says st b \<or> b = a \<and> (\<exists>s c. stream_says st' b = Some (s, c) \<and> rg_fed_head st < s)"
    and "stream_pub st' b = None \<or> stream_wd st' b = None"
proof -
  have x: "stream_pub st b = None \<or> stream_wd st b = None" using assms(1) by (simp add: stream_ok_def)
  have "stream_change (rg_fed_head st) (stream_pub st a) (stream_wd st a) (stream_pub st' a) (stream_wd st' a)"
    using assms(2) by (simp add: stream_move_def)
  then have c: "(stream_says st' a = stream_says st a \<or> (\<exists>s c. stream_says st' a = Some (s, c) \<and> rg_fed_head st < s)) \<and>
      (stream_pub st' a = None \<or> stream_wd st' a = None)" if "b = a"
    using x that unfolding stream_change_def stream_says_def by (elim disjE conjE exE) (simp_all add: split_beta split: option.split)
  have oth: "stream_pub st' b = stream_pub st b" "stream_wd st' b = stream_wd st b" if "b \<noteq> a"
    using assms(2) that by (simp_all add: stream_move_def)
  have "(stream_says st' b = stream_says st b \<or> b = a \<and> (\<exists>s c. stream_says st' b = Some (s, c) \<and> rg_fed_head st < s)) \<and>
      (stream_pub st' b = None \<or> stream_wd st' b = None)"
  proof (cases "b = a")
    case True
    with c show ?thesis by simp
  next
    case False
    note same = oth [OF False]
    have "stream_says st' b = stream_says st b" unfolding stream_says_def same ..
    moreover have "stream_pub st' b = None \<or> stream_wd st' b = None" using x same by metis
    ultimately show ?thesis by blast
  qed
  then show "stream_says st' b = stream_says st b \<or> b = a \<and> (\<exists>s c. stream_says st' b = Some (s, c) \<and> rg_fed_head st < s)"
    "stream_pub st' b = None \<or> stream_wd st' b = None" by - (erule conjunct1, erule conjunct2)
qed

lemma stream_ok_move:
  assumes "stream_ok st" "stream_move a st st'"
  shows "stream_ok st'"
proof -
  have k: "stream_keys st" "stream_keys st'" using assms by (simp_all add: stream_ok_def stream_move_def)
  have "x = y" if "stream_says st' x = Some (s, c)" "stream_says st' y = Some (s, d)" for x y s c d
  proof -
    have o: "\<And>x y s c d. stream_says st x = Some (s, c) \<Longrightarrow> stream_says st y = Some (s, d) \<Longrightarrow> x = y"
      using assms(1) unfolding stream_ok_def by blast
    note moved = says_move(1) [OF assms] and old = says_covered [OF k(1)]
    show ?thesis using that moved [of x] moved [of y] o old by (metis Pair_inject leD option.inject)
  qed
  moreover have "0 < s" if "stream_says st' x = Some (s, c)" for x s c
  proof -
    have "0 \<le> rg_fed_head st" using assms(1) by (simp add: stream_ok_def stream_keys_def)
    then show ?thesis using says_move(1) [OF assms, of x] says_positive [OF assms(1), of x s c] that by auto
  qed
  ultimately show ?thesis using k(2) says_move(2) [OF assms] unfolding stream_ok_def by blast
qed

section \<open>The entries of the stream\<close>

definition entry_content :: "stream_entry \<Rightarrow> bytes option" where
  "entry_content e = (case e of CardEntry a s raw k ks n h \<Rightarrow> Some raw | WithdrawalEntry a s r h \<Rightarrow> None)"

definition stream_rows :: "string \<Rightarrow> registry \<Rightarrow> stream_entry list" where
  "stream_rows home st = sort_key entry_seq (card_entries st home @ withdrawal_entries st home)"

lemma stream_above_rows: "stream_above cursor home st = filter (\<lambda>e. cursor < entry_seq e) (stream_rows home st)"
  by (simp only: stream_above_def stream_rows_def filter_sort)

lemma card_entries_iff:
  assumes "distinct (map fst (rg_cards st))"
  shows "distinct (map entry_aid (card_entries st home))"
    and "e \<in> set (card_entries st home) \<Longrightarrow> \<exists>c. stream_pub st (entry_aid e) = Some (c, entry_seq e) \<and> entry_content e = Some c"
    and "stream_pub st a = Some (c, s) \<Longrightarrow> \<exists>e \<in> set (card_entries st home). entry_aid e = a \<and> entry_seq e = s \<and> entry_content e = Some c"
proof -
  define entry where "entry = (\<lambda>(a, cd :: card_row). case map_of (agents st) a of
        None \<Rightarrow> None
      | Some r \<Rightarrow> if cd_verified cd \<noteq> None \<and> federates (ag_visibility r)
          then Some (CardEntry a (cd_fed_seq cd) (cd_card cd) (ag_kel r)
                 (case map_of (key_sets st) a of None \<Rightarrow> [] | Some (_, raw) \<Rightarrow> raw) (cachedNoticeOf st a) home)
          else None)"
  have e: "card_entries st home = List.map_filter entry (rg_cards st)" by (simp add: card_entries_def entry_def)
  have aid: "entry_aid e = fst r" if "entry r = Some e" for e r
    using that by (auto simp: entry_def split: option.splits if_splits prod.splits)
  have sub: "x \<in> fst ` set t" if "x \<in> entry_aid ` set (List.map_filter entry t)" for x t
    using that by (induction t) (auto simp: map_filter_simps aid split: option.splits)
  have "distinct (map fst t) \<Longrightarrow> distinct (map entry_aid (List.map_filter entry t))" for t
  proof (induction t)
    case (Cons r t)
    then show ?case using sub [of "fst r" t] by (auto simp: map_filter_simps aid split: option.split)
  qed (simp add: map_filter_simps)
  with assms show "distinct (map entry_aid (card_entries st home))" by (simp add: e)
  show "\<exists>c. stream_pub st (entry_aid e) = Some (c, entry_seq e) \<and> entry_content e = Some c" if en: "e \<in> set (card_entries st home)"
  proof -
    obtain b cd where r: "(b, cd) \<in> set (rg_cards st)" "entry (b, cd) = Some e" using en by (auto simp: e map_filter_def)
    have "map_of (rg_cards st) b = Some cd" using r(1) assms by simp
    with r(2) show ?thesis
      by (auto simp: entry_def entry_content_def stream_pub_eq agentFederates_def split: option.splits if_splits)
  qed
  show "\<exists>e \<in> set (card_entries st home). entry_aid e = a \<and> entry_seq e = s \<and> entry_content e = Some c" if p: "stream_pub st a = Some (c, s)"
  proof -
    obtain cd where cd: "map_of (rg_cards st) a = Some cd" "cd_verified cd \<noteq> None" "agentFederates st a" "c = cd_card cd" "s = cd_fed_seq cd"
      using p by (auto simp: stream_pub_eq split: option.splits if_splits)
    then obtain x where "entry (a, cd) = Some x" "entry_aid x = a" "entry_seq x = s" "entry_content x = Some c"
      by (auto simp: entry_def entry_content_def agentFederates_def split: option.splits)
    then show ?thesis using map_of_SomeD [OF cd(1)] by (force simp: e map_filter_def)
  qed
qed

lemma withdrawal_entries_iff:
  assumes "distinct (map fst (rg_withdrawals st))"
  shows "distinct (map entry_aid (withdrawal_entries st home))"
    and "e \<in> set (withdrawal_entries st home) \<Longrightarrow> stream_wd st (entry_aid e) = Some (entry_seq e) \<and> entry_content e = None"
    and "stream_wd st a = Some s \<Longrightarrow> \<exists>e \<in> set (withdrawal_entries st home). entry_aid e = a \<and> entry_seq e = s \<and> entry_content e = None"
proof -
  have "map entry_aid (withdrawal_entries st home) = map fst (rg_withdrawals st)" by (simp add: withdrawal_entries_def split_beta)
  with assms show "distinct (map entry_aid (withdrawal_entries st home))" by simp
  show "stream_wd st (entry_aid e) = Some (entry_seq e) \<and> entry_content e = None" if "e \<in> set (withdrawal_entries st home)"
    using that assms by (auto simp: withdrawal_entries_def stream_wd_def entry_content_def)
  show "\<exists>e \<in> set (withdrawal_entries st home). entry_aid e = a \<and> entry_seq e = s \<and> entry_content e = None" if "stream_wd st a = Some s"
    using that map_of_SomeD [of "rg_withdrawals st" a] by (force simp: withdrawal_entries_def stream_wd_def entry_content_def)
qed

text \<open>The stream has exactly one entry for each AID it says something of.\<close>

lemma stream_rows_says:
  assumes "stream_ok st"
  shows "distinct (map entry_aid (stream_rows home st))"
    and "e \<in> set (stream_rows home st) \<Longrightarrow> stream_says st (entry_aid e) = Some (entry_seq e, entry_content e)"
    and "stream_says st a = Some (s, c) \<Longrightarrow> \<exists>e \<in> set (stream_rows home st). entry_aid e = a \<and> entry_seq e = s \<and> entry_content e = c"
proof -
  have k: "distinct (map fst (rg_cards st))" "distinct (map fst (rg_withdrawals st))" and x: "\<And>a. stream_pub st a = None \<or> stream_wd st a = None"
    using assms by (auto simp: stream_ok_def stream_keys_def)
  note C = card_entries_iff [OF k(1), where home = home] and W = withdrawal_entries_iff [OF k(2), where home = home]
  have d: "entry_aid e \<noteq> entry_aid e'" if "e \<in> set (card_entries st home)" "e' \<in> set (withdrawal_entries st home)" for e e'
    using C(2) [OF that(1)] W(2) [OF that(2)] x [of "entry_aid e"] by auto
  have "distinct (map entry_aid (card_entries st home @ withdrawal_entries st home))"
    using C(1) W(1) d by auto
  then show "distinct (map entry_aid (stream_rows home st))"
    by (simp only: stream_rows_def distinct_map distinct_sort set_sort)
  show "stream_says st (entry_aid e) = Some (entry_seq e, entry_content e)" if "e \<in> set (stream_rows home st)"
  proof (cases "e \<in> set (card_entries st home)")
    case True
    from C(2) [OF this] show ?thesis by (auto simp: stream_says_def)
  next
    case False
    then have "e \<in> set (withdrawal_entries st home)" using that by (simp add: stream_rows_def)
    with W(2) x [of "entry_aid e"] show ?thesis by (auto simp: stream_says_def)
  qed
  show "\<exists>e \<in> set (stream_rows home st). entry_aid e = a \<and> entry_seq e = s \<and> entry_content e = c" if "stream_says st a = Some (s, c)"
  proof (cases "stream_pub st a")
    case None
    with that have "stream_wd st a = Some s" "c = None" by (auto simp: stream_says_def)
    with W(3) show ?thesis by (auto simp: stream_rows_def)
  next
    case (Some p)
    with that have "stream_pub st a = Some (the c, s)" "c = Some (the c)" by (auto simp: stream_says_def split: prod.splits)
    with C(3) show ?thesis by (fastforce simp: stream_rows_def)
  qed
qed

lemma stream_rows_sorted:
  assumes "stream_ok st"
  shows "sorted_wrt (\<lambda>x y. entry_seq x < entry_seq y) (stream_rows home st)"
proof -
  note S = stream_rows_says [OF assms, where home = home]
  have pos: "x = y" if "x \<in> set (stream_rows home st)" "y \<in> set (stream_rows home st)" "entry_seq x = entry_seq y" for x y
  proof -
    have "entry_aid x = entry_aid y" using S(2) [OF that(1)] S(2) [OF that(2)] that(3) assms unfolding stream_ok_def by metis
    with S(1) that(1,2) show ?thesis by (simp add: distinct_map inj_on_def)
  qed
  have "distinct (stream_rows home st)" using S(1) by (simp add: distinct_map)
  with pos have "distinct (map entry_seq (stream_rows home st))" by (auto simp: distinct_map inj_on_def)
  moreover have "sorted (map entry_seq (stream_rows home st))" by (simp add: stream_rows_def)
  ultimately have "sorted_wrt (<) (map entry_seq (stream_rows home st))" by (simp add: strict_sorted_iff)
  then show ?thesis by (simp add: sorted_wrt_map)
qed

text \<open>So it is read page by page, in order and without a gap.\<close>

definition page_size :: "int \<Rightarrow> nat" where
  "page_size limit = nat (if limit \<le> 0 \<or> limit > 500 then 100 else limit)"

lemma A2ACardsSince_page:
  "A2ACardsSince cursor limit home st =
    (let page = take (page_size limit) (stream_above cursor home st) in (page, if page = [] then cursor else entry_seq (last page)))"
  by (simp add: A2ACardsSince_def page_size_def Let_def)

definition rows_of :: "string \<Rightarrow> registry \<Rightarrow> stream_entry list" where
  "rows_of home st = (if stream_ok st then stream_rows home st else [])"

interpretation card_pages: cursor_pages
  "\<lambda>cursor. if stream_ok st then fst (A2ACardsSince cursor limit home st) else []" entry_seq "rows_of home st" for st home limit
proof
  have e: "fst (A2ACardsSince cursor limit home st) = take (page_size limit) (filter (\<lambda>e. cursor < entry_seq e) (stream_rows home st))" for cursor
    by (simp add: A2ACardsSince_page Let_def stream_above_rows)
  have pos: "page_size limit \<noteq> 0" by (simp add: page_size_def)
  show "sorted_wrt (\<lambda>x y. entry_seq x < entry_seq y) (rows_of home st)" by (simp add: rows_of_def stream_rows_sorted)
  show "\<exists>k. (if stream_ok st then fst (A2ACardsSince c limit home st) else []) = take k (filter (\<lambda>r. c < entry_seq r) (rows_of home st))" for c
    by (auto simp: rows_of_def e)
  show "(if stream_ok st then fst (A2ACardsSince c limit home st) else []) = [] \<Longrightarrow> filter (\<lambda>r. c < entry_seq r) (rows_of home st) = []" for c
    using pos by (auto simp: rows_of_def e take_eq_Nil split: if_splits)
qed

section \<open>A peer that reads the stream\<close>

record stream_reader =
  rd_cursor :: int
  rd_cards :: "aid \<Rightarrow> bytes option"

definition new_reader :: stream_reader where
  "new_reader = \<lparr>rd_cursor = 0, rd_cards = (\<lambda>a. None)\<rparr>"

definition take_entry :: "stream_entry \<Rightarrow> (aid \<Rightarrow> bytes option) \<Rightarrow> aid \<Rightarrow> bytes option" where
  "take_entry e R = R(entry_aid e := entry_content e)"

definition read_page :: "int \<Rightarrow> string \<Rightarrow> registry \<Rightarrow> stream_reader \<Rightarrow> stream_reader" where
  "read_page limit home st rd =
    (case A2ACardsSince (rd_cursor rd) limit home st of
      (page, next_cursor) \<Rightarrow> \<lparr>rd_cursor = next_cursor, rd_cards = fold take_entry page (rd_cards rd)\<rparr>)"

inductive follow_step :: "registry_core \<Rightarrow> hub_conf \<Rightarrow> string \<Rightarrow> time_ns \<Rightarrow> hub_state \<times> stream_reader \<Rightarrow> hub_state \<times> stream_reader \<Rightarrow> bool"
  for c :: registry_core and h :: hub_conf and home :: string where
  f_hub: "reg_step c h now s s' \<Longrightarrow> follow_step c h home now (s, rd) (s', rd)"
| f_read: "follow_step c h home now (s, rd) (s, read_page limit home (hb_db s) rd)"

inductive_cases follow_stepE: "follow_step c h home now p q"

text \<open>What the hub publishes, and a reader that holds it once it has read what is above its cursor.\<close>

definition published_cards :: "registry \<Rightarrow> aid \<Rightarrow> bytes option" where
  "published_cards st a = map_option cd_card (published_row st a)"

definition catches_up :: "string \<Rightarrow> registry \<Rightarrow> stream_reader \<Rightarrow> bool" where
  "catches_up home st rd \<longleftrightarrow> stream_ok st \<and> rd_cursor rd \<le> rg_fed_head st \<and>
     fold take_entry (stream_above (rd_cursor rd) home st) (rd_cards rd) = published_cards st"

lemma fold_take_other: "a \<notin> entry_aid ` set es \<Longrightarrow> fold take_entry es R a = R a"
  by (induction es arbitrary: R) (auto simp: take_entry_def)

lemma take_entry_self: "take_entry e R (entry_aid e) = entry_content e"
  by (simp add: take_entry_def)

lemma fold_take_entry:
  assumes "distinct (map entry_aid es)" "e \<in> set es"
  shows "fold take_entry es R (entry_aid e) = entry_content e"
  using assms
proof (induction es arbitrary: R)
  case (Cons x xs)
  then show ?case by (cases "e = x") (auto simp: fold_take_other take_entry_self)
qed simp

lemma published_says: "published_cards st a = (case stream_says st a of None \<Rightarrow> None | Some (s, c) \<Rightarrow> c)"
  by (auto simp: published_cards_def stream_says_def stream_pub_def split: option.split)

lemma fold_above:
  assumes "stream_ok st"
  shows "fold take_entry (stream_above cursor home st) R a =
    (case stream_says st a of None \<Rightarrow> R a | Some (s, c) \<Rightarrow> if cursor < s then c else R a)"
proof -
  note S = stream_rows_says [OF assms, where home = home]
  let ?es = "stream_above cursor home st"
  have es: "set ?es = {e \<in> set (stream_rows home st). cursor < entry_seq e}" by (auto simp: stream_above_rows)
  have d: "distinct (map entry_aid ?es)" using S(1) by (simp add: stream_above_rows distinct_map inj_on_def)
  show ?thesis
  proof (cases "\<exists>s c. stream_says st a = Some (s, c) \<and> cursor < s")
    case True
    then obtain s c e where e: "stream_says st a = Some (s, c)" "cursor < s" "e \<in> set (stream_rows home st)" "entry_aid e = a"
      "entry_seq e = s" "entry_content e = c" using S(3) by blast
    then have "e \<in> set ?es" by (simp add: es)
    from fold_take_entry [OF d this] e show ?thesis by auto
  next
    case False
    have "a \<notin> entry_aid ` set ?es"
    proof
      assume "a \<in> entry_aid ` set ?es"
      then obtain e where "e \<in> set (stream_rows home st)" "cursor < entry_seq e" "entry_aid e = a" by (auto simp: es)
      with S(2) False show False by blast
    qed
    from fold_take_other [OF this] False show ?thesis by (auto split: option.split)
  qed
qed

lemma catches_up_iff:
  "catches_up home st rd \<longleftrightarrow> stream_ok st \<and> rd_cursor rd \<le> rg_fed_head st \<and>
    (\<forall>a. case stream_says st a of None \<Rightarrow> rd_cards rd a = None | Some (s, c) \<Rightarrow> s \<le> rd_cursor rd \<longrightarrow> rd_cards rd a = c)"
  by (auto simp: catches_up_def fold_above published_says fun_eq_iff not_less split: option.splits if_splits)

lemma catches_up_new:
  assumes "stream_ok st"
  shows "catches_up home st new_reader"
proof -
  have "0 \<le> rg_fed_head st" using assms by (simp add: stream_ok_def stream_keys_def)
  with assms says_positive [OF assms] show ?thesis
    unfolding catches_up_iff by (auto simp: new_reader_def not_le [symmetric] split: option.split)
qed

lemma catches_up_move:
  assumes "catches_up home st rd" "stream_move a st st'"
  shows "catches_up home st' rd"
proof -
  have ok: "stream_ok st" and cur: "rd_cursor rd \<le> rg_fed_head st" using assms(1) by (simp_all add: catches_up_def)
  have "case stream_says st' b of None \<Rightarrow> rd_cards rd b = None | Some (s, c) \<Rightarrow> s \<le> rd_cursor rd \<longrightarrow> rd_cards rd b = c" for b
  proof (cases "stream_says st' b = stream_says st b")
    case True
    with assms(1) show ?thesis by (simp add: catches_up_iff)
  next
    case False
    then obtain s c where "stream_says st' b = Some (s, c)" "rg_fed_head st < s" using says_move(1) [OF ok assms(2), of b] by blast
    with cur show ?thesis by simp
  qed
  with stream_ok_move [OF ok assms(2)] cur assms(2) show ?thesis by (simp add: catches_up_iff stream_move_def)
qed

lemma read_page_rest:
  assumes "stream_ok st"
  shows "stream_above (rd_cursor rd) home st =
      fst (A2ACardsSince (rd_cursor rd) limit home st) @ stream_above (rd_cursor (read_page limit home st rd)) home st"
proof (cases "fst (A2ACardsSince (rd_cursor rd) limit home st) = []")
  case True
  then show ?thesis by (simp add: read_page_def A2ACardsSince_page Let_def split: prod.split)
next
  case False
  from card_pages.after_page [of st _ limit home, OF refl] False assms
  have "filter (\<lambda>e. rd_cursor rd < entry_seq e) (stream_rows home st) = fst (A2ACardsSince (rd_cursor rd) limit home st) @
      filter (\<lambda>e. entry_seq (last (fst (A2ACardsSince (rd_cursor rd) limit home st))) < entry_seq e) (stream_rows home st)"
    by (simp add: rows_of_def)
  moreover have "rd_cursor (read_page limit home st rd) = entry_seq (last (fst (A2ACardsSince (rd_cursor rd) limit home st)))"
    using False by (simp add: read_page_def A2ACardsSince_page Let_def)
  ultimately show ?thesis by (simp add: stream_above_rows)
qed

lemma read_page_cards: "rd_cards (read_page limit home st rd) = fold take_entry (fst (A2ACardsSince (rd_cursor rd) limit home st)) (rd_cards rd)"
  by (simp add: read_page_def split: prod.split)

lemma catches_up_read:
  assumes "catches_up home st rd"
  shows "catches_up home st (read_page limit home st rd)"
proof -
  have ok: "stream_ok st" using assms by (simp add: catches_up_def)
  let ?p = "fst (A2ACardsSince (rd_cursor rd) limit home st)"
  have "rd_cursor (read_page limit home st rd) \<le> rg_fed_head st"
  proof (cases "?p = []")
    case True
    with assms show ?thesis by (simp add: catches_up_def read_page_def A2ACardsSince_page Let_def)
  next
    case False
    then have "last ?p \<in> set ?p" by simp
    then have "last ?p \<in> set (stream_rows home st)"
      by (auto simp: A2ACardsSince_page Let_def stream_above_rows dest: in_set_takeD)
    then have "entry_seq (last ?p) \<le> rg_fed_head st"
      using stream_rows_says(2) [OF ok] says_covered ok by (fastforce simp: stream_ok_def)
    with False show ?thesis by (simp add: read_page_def A2ACardsSince_page Let_def)
  qed
  moreover have "fold take_entry (stream_above (rd_cursor (read_page limit home st rd)) home st) (rd_cards (read_page limit home st rd)) =
      fold take_entry (stream_above (rd_cursor rd) home st) (rd_cards rd)"
    unfolding read_page_cards using arg_cong [OF read_page_rest [OF ok, of rd home limit], of "\<lambda>es. fold take_entry es (rd_cards rd)"] by simp
  ultimately show ?thesis using assms by (simp add: catches_up_def)
qed

text \<open>Each page that is read shortens what is left, and only the last is empty.\<close>

lemma read_page_shortens:
  assumes "stream_ok st" "stream_above (rd_cursor rd) home st \<noteq> []"
  shows "length (stream_above (rd_cursor (read_page limit home st rd)) home st) < length (stream_above (rd_cursor rd) home st)"
proof -
  have "fst (A2ACardsSince (rd_cursor rd) limit home st) \<noteq> []"
    using assms(2) by (simp add: A2ACardsSince_page Let_def page_size_def)
  then show ?thesis using arg_cong [OF read_page_rest [OF assms(1), of rd home limit], of length] by simp
qed

lemma read_pages_drain:
  assumes "catches_up home st rd" "length (stream_above (rd_cursor rd) home st) \<le> n"
  shows "rd_cards ((read_page limit home st ^^ n) rd) = published_cards st"
  using assms
proof (induction n arbitrary: rd)
  case 0
  then show ?case by (simp add: catches_up_def)
next
  case (Suc n)
  have ok: "stream_ok st" using Suc.prems(1) by (simp add: catches_up_def)
  have "length (stream_above (rd_cursor (read_page limit home st rd)) home st) \<le> n"
  proof (cases "stream_above (rd_cursor rd) home st = []")
    case True
    then show ?thesis by (simp add: read_page_def A2ACardsSince_page Let_def)
  next
    case False
    with read_page_shortens [OF ok False, of limit] Suc.prems(2) show ?thesis by simp
  qed
  from Suc.IH [OF catches_up_read [OF Suc.prems(1)] this] show ?case by (simp add: funpow_swap1)
qed

interpretation followers: moves_forward "follow_step c h home" "\<lambda>t p. catches_up home (hb_db (fst p)) (snd p)" "\<lambda>p q. True" for c h home
proof
  fix t0 t :: time_ns and p q :: "hub_state \<times> stream_reader"
  assume inv: "catches_up home (hb_db (fst p)) (snd p)" and "follow_step c h home t p q"
  from this(2) show "catches_up home (hb_db (fst q)) (snd q) \<and> True"
  proof cases
    case (f_hub s s' rd)
    then obtain a where "stream_move a (hb_db s) (hb_db s')" using reg_step_moves by blast
    with inv f_hub show ?thesis by (auto intro: catches_up_move)
  next
    case (f_read s rd limit)
    with inv show ?thesis by (simp add: catches_up_read)
  qed
qed simp_all

end
