(* ===== verification/Publication_Properties.thy ===== *)
theory Publication_Properties
  imports Registry_Demo Stream_Machine
begin

text \<open>
  The properties of what an agent publishes: its key set, its card, its directory entry.
\<close>

section \<open>Key sets\<close>

text \<open>C36: A publication of a key set is a compare-and-swap. It is stored only if it verifies under the key history
  given, and over a set already stored only if it is that set again, or its publisher had seen the
  stored one (its seq is at most the \<open>prev_seq\<close> named) and it is newer: of two publications that follow the same
  set, the second is refused. The epoch of the mailbox key never goes down and rises exactly when the key
  changes; then every revocation of the owner goes, whose credentials the new epoch has voided. No other AID's
  set changes.\<close>

theorem publication_is_compare_and_swap:
  assumes "keyset_law c" and "PublishKeys c h draw a raw p k now st = Inr (st', status, rose)"
  shows "\<exists>s es. UnmarshalKeySet c raw = Some s \<and> VerifyEncKeySet c s a k (word_of_int (unix_milli now)) = Inr es \<and>
    (status = KeysStatusUnchanged \<and> st' = st \<or>
     status = KeysStatusOK \<and> (\<exists>b. map_of (key_sets st') = (map_of (key_sets st))(a \<mapsto> (ek_seq es, b)) \<and> UnmarshalKeySet c b = Some s)) \<and>
    (\<forall>held old. map_of (key_sets st) a = Some (held, old) \<longrightarrow>
      (\<exists>q m. UnmarshalKeySet c old = Some q \<and> mboxOf c (sk_set q) = Some m \<and>
        (sk_set s = sk_set q \<or> held \<le> p \<and> held < ek_seq es) \<and>
        mb_epoch m \<le> mb_epoch (ek_mbox es) \<and> (mb_pub m = mb_pub (ek_mbox es) \<longleftrightarrow> mb_epoch m = mb_epoch (ek_mbox es)) \<and>
        (status = KeysStatusOK \<and> mb_epoch m < mb_epoch (ek_mbox es) \<longrightarrow> (\<forall>x \<in> set (rg_revoked st'). fst (fst x) \<noteq> a))))"
proof -
  obtain s canon seen d es prev where P:
    "UnmarshalKeySet c raw = Some s" "MarshalKeySet c s = Some canon" "storedKeys c st a = Inr seen"
    "followsStored c (map_option fst seen) s p = Inr d"
    "VerifyEncKeySet c s a k (word_of_int (unix_milli now)) = Inr es" "stored_mbox c seen = Inr prev"
    "checkMboxEpoch prev (ek_mbox es) = None" "uint (ek_seq es) \<le> max_int64"
    "if d = HWSame \<and> map_option snd seen = Some canon then st' = st \<and> status = KeysStatusUnchanged
     else rose = (case prev of None \<Rightarrow> False | Some p \<Rightarrow> mb_epoch (ek_mbox es) > mb_epoch p) \<and>
       store_key_set c h draw a es canon rose st = Inr st' \<and> status = KeysStatusOK"
    using PublishKeys_Inr [OF assms(2)] by metis
  have dec: "DecodeEncKeySet c (sk_set s) = Some es" "UnmarshalKeySet c canon = Some s"
    using assms(1) P(2,5) by (auto simp: keyset_law_def)
  have res: "status = KeysStatusUnchanged \<and> st' = st \<or>
     status = KeysStatusOK \<and> (\<exists>b. map_of (key_sets st') = (map_of (key_sets st))(a \<mapsto> (ek_seq es, b)) \<and> UnmarshalKeySet c b = Some s)"
    using P(9) dec(2) store_key_set_stores(1) [of c h draw a es canon rose st st'] by (auto simp: update_conv' split: if_splits)
  have "\<exists>q m. UnmarshalKeySet c old = Some q \<and> mboxOf c (sk_set q) = Some m \<and>
        (sk_set s = sk_set q \<or> held \<le> p \<and> held < ek_seq es) \<and>
        mb_epoch m \<le> mb_epoch (ek_mbox es) \<and> (mb_pub m = mb_pub (ek_mbox es) \<longleftrightarrow> mb_epoch m = mb_epoch (ek_mbox es)) \<and>
        (status = KeysStatusOK \<and> mb_epoch m < mb_epoch (ek_mbox es) \<longrightarrow> (\<forall>x \<in> set (rg_revoked st'). fst (fst x) \<noteq> a))"
    if row: "map_of (key_sets st) a = Some (held, old)" for held old
  proof -
    obtain o1 where o1: "UnmarshalKeySet c old = Some o1" "seen = Some ((held, sk_set o1), old)"
      using storedKeys_Inr [OF P(3) row] by metis
    obtain m where m: "mboxOf c (sk_set o1) = Some m" "prev = Some m" using P(6) o1(2) by (auto simp: stored_mbox_def split: option.splits)
    have "sk_set s = sk_set o1 \<or> held \<le> p \<and> held < ek_seq es"
      using followsStored_Inr [OF _ assms(1) dec(1)] P(4) o1(2) by simp
    moreover have "status = KeysStatusOK \<and> mb_epoch m < mb_epoch (ek_mbox es) \<longrightarrow> (\<forall>x \<in> set (rg_revoked st'). fst (fst x) \<noteq> a)"
      using P(9) m(2) store_key_set_stores(2) [of c h draw a es canon rose st st'] by (fastforce split: if_splits)
    ultimately show ?thesis using o1(1) m(1) checkMboxEpoch_None [of m "ek_mbox es"] P(7) m(2)
      by (intro exI [of _ o1] exI [of _ m]) simp
  qed
  with P(1,5) res show ?thesis by blast
qed

lemma demo_keyset_law: "keyset_law reg_core"
  by (auto simp: keyset_law_def reg_core_def demo_set_def demo_set2_def split: if_splits option.splits)

text \<open>Alice, whose stored set has seq 10, publishes the next one.\<close>

lemma demo_publish:
  "\<exists>st' rose. PublishKeys reg_core demo_hub [] ''alice'' [7] 10 [ev0] 1000 demo_registry = Inr (st', KeysStatusOK, rose)"
proof -
  have ks: "map_of (key_sets demo_registry) ''alice'' = Some (10, [4])" by (simp add: demo_registry_def key_sets_def)
  have dirs: "\<forall>x \<in> set (agents demo_registry). ag_dir (snd x) = None" by (simp add: demo_registry_def agents_def demo_agent_def)
  obtain st' where st': "store_key_set reg_core demo_hub [] ''alice'' \<lparr>ek_seq = 11, ek_mbox = \<lparr>mb_epoch = 2, mb_pub = [2]\<rparr>\<rparr> [7] True demo_registry
      = Inr st'" using store_key_set_runs [OF dirs] by blast
  show ?thesis
    by (rule exI [of _ st'], rule exI [of _ True])
       (simp add: PublishKeys_def storedKeys_def ks followsStored_def mboxOf_def checkMboxEpoch_def st' max_int64_def
         demo_set_def demo_set2_def demo_decode_set_def demo_enc_set_def MaxMboxEpoch_def ev0_def)
qed

theorem publication_is_compare_and_swap_witness:
  "\<exists>st' rose (es :: enc_key_set). PublishKeys reg_core demo_hub [] ''alice'' [7] 10 [ev0] 1000 demo_registry = Inr (st', KeysStatusOK, rose) \<and>
     map_of (key_sets demo_registry) ''alice'' = Some (10, [4]) \<and> (10::u64) < ek_seq es \<and>
     (\<exists>b. map_of (key_sets st') ''alice'' = Some (ek_seq es, b) \<and> UnmarshalKeySet reg_core b = Some demo_set2)"
proof -
  obtain st' rose where run: "PublishKeys reg_core demo_hub [] ''alice'' [7] 10 [ev0] 1000 demo_registry = Inr (st', KeysStatusOK, rose)"
    using demo_publish by blast
  have ks: "map_of (key_sets demo_registry) ''alice'' = Some (10, [4])" by (simp add: demo_registry_def key_sets_def)
  have ne: "sk_set demo_set2 \<noteq> sk_set demo_set" by (simp add: demo_set_def demo_set2_def)
  have rd: "UnmarshalKeySet reg_core [7] = Some demo_set2" "UnmarshalKeySet reg_core [4] = Some demo_set" by simp_all
  from publication_is_compare_and_swap [OF demo_keyset_law run] ks obtain s and es :: enc_key_set where T: "UnmarshalKeySet reg_core [7] = Some s"
    "\<exists>b. map_of (key_sets st') = (map_of (key_sets demo_registry))(''alice'' \<mapsto> (ek_seq es, b)) \<and> UnmarshalKeySet reg_core b = Some s"
    "\<exists>q. UnmarshalKeySet reg_core [4] = Some q \<and> (sk_set s = sk_set q \<or> (10::u64) < ek_seq es)"
    by (simp del: reg_core_kels) blast
  from T(1) rd have s: "s = demo_set2" by simp
  from T(2) obtain b where "map_of (key_sets st') ''alice'' = Some (ek_seq es, b)" "UnmarshalKeySet reg_core b = Some demo_set2"
    unfolding s by force
  moreover have "(10::u64) < ek_seq es" using T(3) rd ne by (auto simp: s)
  ultimately have "(\<exists>b. map_of (key_sets st') ''alice'' = Some (ek_seq es, b) \<and> UnmarshalKeySet reg_core b = Some demo_set2) \<and>
      (10::u64) < ek_seq es" by blast
  with run ks show ?thesis by blast
qed

text \<open>
  The key history a publication is verified under is read before the store's lock. When the agent's rotation
  is pushed in between, the set stored is signed under a key state that is no longer the tip: here alice's hub
  holds her rotation (seq 1), and stores a set signed under her inception (seq 0).
\<close>

lemma publication_outlives_rotation:
  assumes "map_of (agents st) ''alice'' = Some (demo_agent\<lparr>ag_kel := [2], ag_tip_seq := 1, ag_tip_head := ''e1''\<rparr>)"
    "map_of (key_sets st) ''alice'' = None" "\<forall>x \<in> set (agents st). ag_dir (snd x) = None"
  shows "\<exists>st' b. PublishKeys reg_core demo_hub [] ''alice'' [7] 0 [ev0] 1000 st = Inr (st', KeysStatusOK, False) \<and>
    AgentKEL st ''alice'' = Some [2] \<and> kelTip reg_core [2] = Some (1, ''e1'') \<and>
    map_of (key_sets st') ''alice'' = Some (11, [7]) \<and> UnmarshalKeySet reg_core [7] = Some demo_set2 \<and> sk_key_state_seq demo_set2 = 0"
proof -
  obtain st' where st': "store_key_set reg_core demo_hub [] ''alice'' \<lparr>ek_seq = 11, ek_mbox = \<lparr>mb_epoch = 2, mb_pub = [2]\<rparr>\<rparr> [7] False st
      = Inr st'" using store_key_set_runs [OF assms(3)] by blast
  have "PublishKeys reg_core demo_hub [] ''alice'' [7] 0 [ev0] 1000 st = Inr (st', KeysStatusOK, False)"
    by (simp add: PublishKeys_def storedKeys_def assms(2) followsStored_def checkMboxEpoch_def st' max_int64_def
         demo_set_def demo_set2_def demo_decode_set_def MaxMboxEpoch_def ev0_def)
  moreover have "map_of (key_sets st') ''alice'' = Some (11, [7])" by (simp add: store_key_set_stores(1) [OF st'] map_of_update_eq)
  ultimately show ?thesis using assms(1) by (simp add: AgentKEL_def kelTip_def ev_rot_def demo_set2_def)
qed

section \<open>The stream of cards\<close>

text \<open>C37: A peer that follows the stream of cards converges. Registrations, departures, new cards, withdrawals,
  rotations and changes of visibility run in any order with the reads of a peer that starts empty, asks each time
  above the cursor of its last page and takes every entry. Whenever the hub then rests, the peer holds, after at
  most as many further pages as there are entries above its cursor, exactly the cards the hub publishes: no
  published card is missed, none it stopped publishing is kept.\<close>

theorem card_stream_converges:
  assumes "stream_ok (hb_db s)" and "clock_run (follow_step c h home) t0 (s, new_reader) r"
    and "end_of (s, new_reader) r = (s', rd)" and "length (stream_above (rd_cursor rd) home (hb_db s')) \<le> n"
  shows "rd_cards ((read_page limit home (hb_db s') ^^ n) rd) = (\<lambda>a. map_option cd_card (published_row (hb_db s') a))"
proof -
  have "catches_up home (hb_db s') rd"
    using followers.run_ahead [OF assms(2)] catches_up_new [OF assms(1)] assms(3) by simp
  from read_pages_drain [OF this assms(4)] show ?thesis by (simp add: published_cards_def [abs_def])
qed

lemma demo_stream: "stream_says demo_registry a = (if a = ''alice'' then Some (1, Some [8]) else None)"
  by (simp add: stream_says_def stream_pub_eq stream_wd_def demo_registry_def demo_card_def agentFederates_def agents_def
      demo_agent_def federates_def VisibilityFederated_def)

lemma demo_stream_ok: "stream_ok demo_registry"
proof -
  have "stream_wd demo_registry a = None" for a by (simp add: stream_wd_def demo_registry_def)
  then show ?thesis by (auto simp: stream_ok_def demo_stream split: if_splits) (simp add: stream_keys_def demo_registry_def demo_card_def)
qed

theorem card_stream_converges_witness:
  "\<exists>s' rd n. clock_run (follow_step reg_core demo_hub '''') 0 (demo_state, new_reader) [(0, demo_state, rd), (1, s', rd)] \<and>
     rd_cards rd ''alice'' = Some [8] \<and> published_row (hb_db s') ''alice'' = None \<and>
     rd_cards ((read_page 100 '''' (hb_db s') ^^ n) rd) ''alice'' = None"
proof -
  define rd where "rd = read_page 100 '''' demo_registry new_reader"
  have "fst (A2ACardsSince 0 100 '''' demo_registry) = stream_above 0 '''' demo_registry"
    by code_simp
  then have "rd_cards rd ''alice'' = Some [8]"
    using fold_above [OF demo_stream_ok, of 0 "''''" "\<lambda>a. None" "''alice''"]
    by (simp add: rd_def read_page_cards new_reader_def demo_stream)
  moreover obtain st' where vis: "SetVisibility ''alice'' ''hub-local'' demo_registry = Inr st'" "\<not> agentFederates st' ''alice''"
  proof -
    have m: "map_of (agents demo_registry) ''alice'' = Some demo_agent" by (simp add: demo_registry_def agents_def)
    let ?u = "update_agent ''alice'' (\<lambda>r. r\<lparr>ag_visibility := ''hub-local''\<rparr>) demo_registry"
    have e: "SetVisibility ''alice'' ''hub-local'' demo_registry = Inr (withdrawA2ACard ''alice'' withdrawNotFederated ?u)"
      by (simp add: SetVisibility_def m validVisibility_def VisibilityHubLocal_def VisibilityFederated_def VisibilityPublic_def demo_agent_def
          a2aVisibilityChanged_def federates_def)
    have "\<not> agentFederates ?u ''alice''"
      by (simp add: agentFederates_def map_of_update_agent m federates_def VisibilityFederated_def VisibilityPublic_def)
    then show ?thesis using that [OF e] by simp
  qed
  define s' where "s' = demo_state\<lparr>hb_db := st'\<rparr>"
  have "reg_step reg_core demo_hub 1 demo_state s'"
    unfolding s'_def by (rule r_visibility) (use vis(1) in \<open>simp add: demo_state_def\<close>)
  moreover have "follow_step reg_core demo_hub '''' 0 (demo_state, new_reader) (demo_state, rd)"
    using f_read [of reg_core demo_hub "''''" 0 demo_state new_reader 100] by (simp add: rd_def demo_state_def)
  ultimately have run: "clock_run (follow_step reg_core demo_hub '''') 0 (demo_state, new_reader) [(0, demo_state, rd), (1, s', rd)]"
    by (simp add: f_hub)
  have ok: "stream_ok (hb_db demo_state)" using demo_stream_ok by (simp add: demo_state_def)
  have none: "published_row (hb_db s') ''alice'' = None" using vis(2) by (simp add: s'_def published_row_def split: option.split)
  from card_stream_converges [OF ok run _ order.refl, of s' rd 100] none
  have "rd_cards ((read_page 100 '''' (hb_db s') ^^ length (stream_above (rd_cursor rd) '''' (hb_db s'))) rd) ''alice'' = None" by simp
  with run none \<open>rd_cards rd ''alice'' = Some [8]\<close> show ?thesis by blast
qed

end
