(* ===== verification/Peer_Keys.thy ===== *)
theory Peer_Keys
  imports Registry Wire_B64
begin

text \<open>
  The peer table of a federating hub and the key histories it pins for its peers
  (\<open>internal/federation/federation.go\<close>, \<open>peerkel.go\<close>). What a peer answers at \<open>/hub/identity\<close> is an argument of
  the fetch; so are the clock readings.
\<close>

section \<open>The peer table\<close>

record peer =
  pr_aid :: aid
  pr_endpoint :: string

record fed_config =
  cf_delivery :: string
  cf_discovery :: string
  cf_peers :: "peer list"
  cf_witness :: string

definition WitnessEnabled :: "fed_config \<Rightarrow> bool" where
  "WitnessEnabled cf \<longleftrightarrow> cf_witness cf \<noteq> ''off'' \<and> cf_peers cf \<noteq> []"

definition DeliveryEnabled :: "fed_config \<Rightarrow> bool" where
  "DeliveryEnabled cf \<longleftrightarrow> cf_delivery cf \<noteq> ''off'' \<and> cf_peers cf \<noteq> []"

definition DiscoveryEnabled :: "fed_config \<Rightarrow> bool" where
  "DiscoveryEnabled cf \<longleftrightarrow> cf_discovery cf \<noteq> '''' \<and> cf_discovery cf \<noteq> ''off'' \<and> cf_peers cf \<noteq> []"

definition PeerAIDs :: "fed_config \<Rightarrow> aid list" where
  "PeerAIDs cf = (if \<not> DiscoveryEnabled cf \<and> \<not> DeliveryEnabled cf then [] else map pr_aid (cf_peers cf))"

definition peer_of :: "fed_config \<Rightarrow> aid \<Rightarrow> peer option" where
  "peer_of cf a = find (\<lambda>p. pr_aid p = a) (cf_peers cf)"

definition PeerEndpoint :: "fed_config \<Rightarrow> aid \<Rightarrow> string" where
  "PeerEndpoint cf a = (case peer_of cf a of None \<Rightarrow> '''' | Some p \<Rightarrow> pr_endpoint p)"

definition DeliveryPeers :: "fed_config \<Rightarrow> aid list" where
  "DeliveryPeers cf = (if \<not> DeliveryEnabled cf then [] else map pr_aid (cf_peers cf))"

definition deliveryPeer :: "fed_config \<Rightarrow> aid \<Rightarrow> peer option" where
  "deliveryPeer cf a = (if \<not> DeliveryEnabled cf then None else peer_of cf a)"

definition IsDeliveryPeer :: "fed_config \<Rightarrow> aid \<Rightarrow> bool" where
  "IsDeliveryPeer cf a \<longleftrightarrow> deliveryPeer cf a \<noteq> None"

text \<open>\<open>strings.Index\<close> and \<open>strings.Cut\<close>; \<open>strings.TrimRight(u, "/")\<close>.\<close>

fun split_at :: "string \<Rightarrow> string \<Rightarrow> (string \<times> string) option" where
  "split_at sep [] = (if sep = [] then Some ([], []) else None)"
| "split_at sep (x # xs) =
    (if take (length sep) (x # xs) = sep then Some ([], drop (length sep) (x # xs))
     else map_option (\<lambda>(a, b). (x # a, b)) (split_at sep xs))"

definition trim_slashes :: "string \<Rightarrow> string" where
  "trim_slashes u = rev (dropWhile (\<lambda>ch. ch = CHR ''/'') (rev u))"

definition endpointKey :: "registry_core \<Rightarrow> string \<Rightarrow> string" where
  "endpointKey c u =
    (let u = trim_slashes (TrimSpace u) in
     case split_at ''://'' u of
       None \<Rightarrow> u
     | Some (scheme, rest) \<Rightarrow>
       (let (host, path) = (case split_at ''/'' rest of None \<Rightarrow> (rest, '''') | Some hp \<Rightarrow> hp)
        in ToLower c scheme @ ''://'' @ ToLower c host @ (if path \<noteq> '''' then ''/'' @ path else '''')))"

definition DeliveryPeerAt :: "registry_core \<Rightarrow> fed_config \<Rightarrow> string \<Rightarrow> aid" where
  "DeliveryPeerAt c cf home =
    (if \<not> DeliveryEnabled cf \<or> home = '''' then ''''
     else case find (\<lambda>p. endpointKey c (pr_endpoint p) = endpointKey c home) (cf_peers cf) of
       None \<Rightarrow> '''' | Some p \<Rightarrow> pr_aid p)"

section \<open>A pin\<close>

text \<open>ANetCore: the check of new events without a witness rule, and the threshold of a hub's history.\<close>

record peer_core = registry_core +
  CheckHubEvents :: "kel \<Rightarrow> kel \<Rightarrow> u64 \<Rightarrow> time_error option"
  ToadHub :: u64

datatype pin_error =
  NoPin | PinBroken | PinFutureEvents time_error | PinNotExtended extends_error | NotAPeer
  | FetchFailed | IdentityMismatch aid | NotB64 decode_error | UnprovenPeerKEL | FetchWaits | PinPanic

record peer_fetch =
  pf_ended :: "time_ns option"
  pf_err :: "pin_error option"
  pf_refused :: "time_ns option"
  pf_asked :: "time_ns option"

record peer_keys =
  pk_pins :: "(aid, bytes \<times> millis) table"
  pk_forks :: "(aid, time_ns) table"
  pk_fetches :: "(aid, peer_fetch) table"

definition peerKELRetry :: int where "peerKELRetry = minute_ns"

definition pinnedPeerKEL :: "peer_core \<Rightarrow> peer_keys \<Rightarrow> aid \<Rightarrow> pin_error + kel" where
  "pinnedPeerKEL c st a = (case map_of (pk_pins st) a of
      None \<Rightarrow> Inl NoPin
    | Some (blob, _) \<Rightarrow> (case UnmarshalKEL c blob of None \<Rightarrow> Inl PinBroken | Some k \<Rightarrow> Inr k))"

definition noteFork :: "time_ns \<Rightarrow> aid \<Rightarrow> peer_keys \<Rightarrow> peer_keys" where
  "noteFork now a st = (if has_key (pk_forks st) a then st else st\<lparr>pk_forks := AList.update a now (pk_forks st)\<rparr>)"

definition storePin :: "time_ns \<Rightarrow> aid \<Rightarrow> bytes \<Rightarrow> peer_keys \<Rightarrow> peer_keys" where
  "storePin now a blob st = st\<lparr>pk_pins := AList.update a (blob, unix_milli now) (pk_pins st)\<rparr>"

text \<open>The history pinned afterwards, and the error of the pair Go returns.\<close>

type_synonym pin_answer = "kel option \<times> pin_error option"

definition pinPeerKEL ::
  "peer_core \<Rightarrow> time_ns \<Rightarrow> aid \<Rightarrow> kel \<Rightarrow> bytes \<Rightarrow> peer_keys \<Rightarrow> peer_keys \<times> pin_answer" where
  "pinPeerKEL c now a nxt blob st =
    (let t = word_of_int (unix_milli now) in
     case pinnedPeerKEL c st a of
       Inl NoPin \<Rightarrow>
         (case CheckHubEvents c [] nxt t of
           Some e \<Rightarrow> (st, None, Some (PinFutureEvents e))
         | None \<Rightarrow> (storePin now a blob st, Some nxt, None))
     | Inl e \<Rightarrow> (st, None, Some e)
     | Inr old \<Rightarrow>
       (case ExtendsKEL c old nxt of
         Some ErrKELRollback \<Rightarrow> (st, Some old, None)
       | Some ErrKELFork \<Rightarrow> (noteFork now a st, Some old, None)
       | Some e \<Rightarrow> (st, Some old, Some (PinNotExtended e))
       | None \<Rightarrow>
         if length nxt = length old then (st, Some old, None)
         else (case CheckHubEvents c old nxt t of
           Some e \<Rightarrow> (st, Some old, Some (PinFutureEvents e))
         | None \<Rightarrow> (storePin now a blob st, Some nxt, None))))"

text \<open>A history that decodes is not empty; replaying an empty slice of it would panic.\<close>

definition provenPeerKEL :: "peer_core \<Rightarrow> bytes \<Rightarrow> aid \<Rightarrow> pin_error + kel" where
  "provenPeerKEL c blob a = (case ParseKEL c blob of
      None \<Rightarrow> Inl UnprovenPeerKEL
    | Some k \<Rightarrow>
      if k = [] then Inl PinPanic
      else (case Replay c (take 1 k) of
        None \<Rightarrow> Inl UnprovenPeerKEL
      | Some [] \<Rightarrow> Inl PinPanic
      | Some (icp # _) \<Rightarrow>
        if StAID icp \<noteq> a then Inl UnprovenPeerKEL
        else (case Replay c k of
          None \<Rightarrow> Inl UnprovenPeerKEL
        | Some states \<Rightarrow>
          if states = [] \<or> StAID (last states) \<noteq> a \<or> StToad (last states) \<noteq> ToadHub c then Inl UnprovenPeerKEL
          else Inr k)))"

definition dropUnprovenPeerKELs :: "peer_core \<Rightarrow> peer_keys \<Rightarrow> peer_keys" where
  "dropUnprovenPeerKELs c st =
    st\<lparr>pk_pins := filter (\<lambda>(a, blob, _). case provenPeerKEL c blob a of Inl _ \<Rightarrow> False | Inr _ \<Rightarrow> True) (pk_pins st)\<rparr>"

section \<open>Fetching\<close>

text \<open>What \<open>/hub/identity\<close> answered: nothing usable, or an AID and a key history in base64url.\<close>

type_synonym identity_answer = "(aid \<times> string) option"

definition fetchPeerKEL :: "peer_core \<Rightarrow> time_ns \<Rightarrow> identity_answer \<Rightarrow> peer \<Rightarrow> peer_keys \<Rightarrow> peer_keys \<times> pin_answer" where
  "fetchPeerKEL c now served p st = (case served of
      None \<Rightarrow> (st, None, Some FetchFailed)
    | Some (a, text) \<Rightarrow>
      if a \<noteq> pr_aid p then (st, None, Some (IdentityMismatch a))
      else (case DecodeB64URL ''kel'' text of
        Inl e \<Rightarrow> (st, None, Some (NotB64 e))
      | Inr blob \<Rightarrow> (case provenPeerKEL c blob (pr_aid p) of
          Inl PinPanic \<Rightarrow> (st, None, Some PinPanic)
        | Inl _ \<Rightarrow> (st, None, Some UnprovenPeerKEL)
        | Inr k \<Rightarrow> pinPeerKEL c now (pr_aid p) k blob st)))"

definition new_fetch :: peer_fetch where
  "new_fetch = \<lparr>pf_ended = None, pf_err = None, pf_refused = None, pf_asked = None\<rparr>"

definition peerKELFetchOf :: "peer_keys \<Rightarrow> aid \<Rightarrow> peer_fetch" where
  "peerKELFetchOf st a = row_or (pk_fetches st) a new_fetch"

definition set_fetch :: "aid \<Rightarrow> peer_fetch \<Rightarrow> peer_keys \<Rightarrow> peer_keys" where
  "set_fetch a f st = st\<lparr>pk_fetches := AList.update a f (pk_fetches st)\<rparr>"

text \<open>How a fetch that ended at \<open>ended\<close> is remembered: \<open>pf_refused\<close> is set by an answer that does not prove the
  peer and cleared by one that pins.\<close>

definition fetch_ended :: "time_ns \<Rightarrow> pin_error option \<Rightarrow> peer_fetch \<Rightarrow> peer_fetch" where
  "fetch_ended ended e f = f\<lparr>pf_ended := Some ended, pf_err := e,
     pf_refused := (if e = None then None else if e = Some UnprovenPeerKEL then Some ended else pf_refused f)\<rparr>"

definition answer_of :: "pin_error + kel \<Rightarrow> pin_answer" where
  "answer_of r = (case r of Inl e \<Rightarrow> (None, Some e) | Inr k \<Rightarrow> (Some k, None))"

text \<open>A use of a peer's history: \<open>seen\<close> is the state it looked at first, \<open>st\<close> the state once it has the peer's
  fetch lock (\<open>locked\<close> then).\<close>

definition peerKEL ::
  "peer_core \<Rightarrow> time_ns \<Rightarrow> time_ns \<Rightarrow> time_ns \<Rightarrow> identity_answer \<Rightarrow> peer \<Rightarrow> peer_keys \<Rightarrow> peer_keys \<Rightarrow> peer_keys \<times> pin_answer" where
  "peerKEL c asked locked ended served p seen st =
    (let a = pr_aid p in
     if pinnedPeerKEL c seen a \<noteq> Inl NoPin then (st, answer_of (pinnedPeerKEL c seen a))
     else if pinnedPeerKEL c st a \<noteq> Inl NoPin then (st, answer_of (pinnedPeerKEL c st a))
     else
       (let f = peerKELFetchOf st a in
        if pf_err f \<noteq> None \<and> (case pf_ended f of None \<Rightarrow> False | Some t \<Rightarrow> t > asked) then (st, None, pf_err f)
        else if (case pf_refused f of None \<Rightarrow> False | Some t \<Rightarrow> peerKELRetry - (locked - t) > 0) then (st, None, Some FetchWaits)
        else (case fetchPeerKEL c ended served p st of
          (st', k, e) \<Rightarrow> (set_fetch a (fetch_ended ended e f) st', k, e))))"

definition PeerKEL ::
  "peer_core \<Rightarrow> fed_config \<Rightarrow> time_ns \<Rightarrow> time_ns \<Rightarrow> time_ns \<Rightarrow> identity_answer \<Rightarrow> aid \<Rightarrow> peer_keys \<Rightarrow> peer_keys \<Rightarrow>
   peer_keys \<times> pin_answer" where
  "PeerKEL c cf asked locked ended served a seen st = (case peer_of cf a of
      None \<Rightarrow> (st, None, Some NotAPeer)
    | Some p \<Rightarrow> peerKEL c asked locked ended served p seen st)"

text \<open>\<open>pinnedOrNone\<close>, and a refresh on behalf of a use that needs a later key state, at most one a minute.\<close>

definition pinnedOrNone :: "peer_core \<Rightarrow> peer_keys \<Rightarrow> aid \<Rightarrow> pin_error + kel" where
  "pinnedOrNone c st a = pinnedPeerKEL c st a"

definition RefreshPeerKEL ::
  "peer_core \<Rightarrow> fed_config \<Rightarrow> time_ns \<Rightarrow> time_ns \<Rightarrow> identity_answer \<Rightarrow> aid \<Rightarrow> peer_keys \<Rightarrow> peer_keys \<times> pin_answer" where
  "RefreshPeerKEL c cf now ended served a st = (case peer_of cf a of
      None \<Rightarrow> (st, None, Some NotAPeer)
    | Some p \<Rightarrow>
      (let f = peerKELFetchOf st (pr_aid p) in
       if (case pf_asked f of None \<Rightarrow> False | Some t \<Rightarrow> now - t < peerKELRetry)
       then (st, answer_of (pinnedOrNone c st (pr_aid p)))
       else
        (let f = f\<lparr>pf_asked := Some now\<rparr> in
         case fetchPeerKEL c ended served p st of
           (st', k, e) \<Rightarrow>
             (let st' = set_fetch (pr_aid p) (fetch_ended ended e f) st' in
              if e = None \<or> k \<noteq> None then (st', k, None)
              else (case pinnedOrNone c st' (pr_aid p) of Inr pinned \<Rightarrow> (st', Some pinned, None) | Inl _ \<Rightarrow> (st', None, e))))))"

text \<open>One peer of a sync: whether its pin grew.\<close>

definition sync_peer :: "peer_core \<Rightarrow> time_ns \<Rightarrow> identity_answer \<Rightarrow> peer \<Rightarrow> peer_keys \<Rightarrow> peer_keys \<times> bool" where
  "sync_peer c ended served p st =
    (let before = (case pinnedPeerKEL c st (pr_aid p) of Inl _ \<Rightarrow> [] | Inr k \<Rightarrow> k) in
     case fetchPeerKEL c ended served p st of
       (st', k, e) \<Rightarrow>
         (set_fetch (pr_aid p) (fetch_ended ended e (peerKELFetchOf st (pr_aid p))) st',
          e = None \<and> length (case k of None \<Rightarrow> [] | Some k \<Rightarrow> k) > length before))"

text \<open>\<open>SyncPeerKELs\<close> over the peers it got to before its context ended, each with its answer and the time it came.\<close>

fun SyncPeerKELs :: "peer_core \<Rightarrow> (peer \<times> time_ns \<times> identity_answer) list \<Rightarrow> peer_keys \<Rightarrow> peer_keys \<times> nat" where
  "SyncPeerKELs c [] st = (st, 0)"
| "SyncPeerKELs c ((p, ended, served) # rest) st =
    (case sync_peer c ended served p st of
      (st, grew) \<Rightarrow> (case SyncPeerKELs c rest st of (st, n) \<Rightarrow> (st, (if grew then 1 else 0) + n)))"

definition PinnedHubKELs :: "fed_config \<Rightarrow> peer_keys \<Rightarrow> (aid \<times> bytes) list" where
  "PinnedHubKELs cf st = map (\<lambda>(a, blob, _). (a, blob)) (filter (\<lambda>(a, _). peer_of cf a \<noteq> None) (sort_key fst (pk_pins st)))"

definition PeerKELForks :: "peer_keys \<Rightarrow> (aid \<times> time_ns) list" where
  "PeerKELForks st = sort_key fst (pk_forks st)"

end
