(* ===== verification/Peer_Keys_Laws.thy ===== *)
theory Peer_Keys_Laws
  imports Peer_Keys
begin

text \<open>
  The pins over time: every operation that may write one is a step, in any order; \<open>k_restart\<close> is a new process
  over the same table. What the development relies on of ANetCore is \<open>peer_law\<close>.
\<close>

definition peer_law :: "peer_core \<Rightarrow> bool" where
  "peer_law c \<longleftrightarrow> (\<forall>k l. k \<noteq> [] \<longrightarrow> (ExtendsKEL c k l = None \<longleftrightarrow> prefix k l)) \<and>
     (\<forall>b k. ParseKEL c b = Some k \<longrightarrow> UnmarshalKEL c b = Some k)"

inductive peer_key_step :: "peer_core \<Rightarrow> fed_config \<Rightarrow> time_ns \<Rightarrow> peer_keys \<Rightarrow> peer_keys \<Rightarrow> bool"
  for c :: peer_core and cf :: fed_config where
  k_use: "PeerKEL c cf asked locked now served a seen st = (st', ans) \<Longrightarrow> peer_key_step c cf now st st'"
| k_refresh: "RefreshPeerKEL c cf asked now served a st = (st', ans) \<Longrightarrow> peer_key_step c cf now st st'"
| k_sync: "p \<in> set (cf_peers cf) \<Longrightarrow> sync_peer c now served p st = (st', grew) \<Longrightarrow> peer_key_step c cf now st st'"
| k_restart: "peer_key_step c cf now st ((dropUnprovenPeerKELs c st)\<lparr>pk_forks := [], pk_fetches := []\<rparr>)"

inductive_cases peer_key_stepE: "peer_key_step c cf now st st'"

text \<open>Every pin proves the AID it is kept under.\<close>

definition pins_proven :: "peer_core \<Rightarrow> peer_keys \<Rightarrow> bool" where
  "pins_proven c st \<longleftrightarrow> (\<forall>(a, blob, t) \<in> set (pk_pins st). \<exists>k. provenPeerKEL c blob a = Inr k)"

definition pins_grow :: "peer_core \<Rightarrow> peer_keys \<Rightarrow> peer_keys \<Rightarrow> bool" where
  "pins_grow c st st' \<longleftrightarrow> (\<forall>a k. pinnedPeerKEL c st a = Inr k \<longrightarrow> (\<exists>k'. pinnedPeerKEL c st' a = Inr k' \<and> prefix k k'))"

lemma pins_grow_refl [simp, intro]: "pins_grow c st st"
  by (simp add: pins_grow_def)

lemma pins_grow_trans [trans]: "pins_grow c s t \<Longrightarrow> pins_grow c t u \<Longrightarrow> pins_grow c s u"
  unfolding pins_grow_def by (meson prefix_order.trans)

lemma pinned_same: "pk_pins st' = pk_pins st \<Longrightarrow> pinnedPeerKEL c st' = pinnedPeerKEL c st"
  by (simp add: pinnedPeerKEL_def fun_eq_iff)

lemma same_pins:
  assumes "pk_pins st' = pk_pins st"
  shows "pins_grow c st st' \<and> (pins_proven c st \<longrightarrow> pins_proven c st')"
  by (simp add: pins_grow_def pins_proven_def pinned_same [OF assms] assms)

lemma noteFork_pins [simp]: "pk_pins (noteFork now a st) = pk_pins st"
  by (simp add: noteFork_def)

lemma set_fetch_pins [simp]: "pk_pins (set_fetch a f st) = pk_pins st"
  by (simp add: set_fetch_def)

lemma proven_Inr:
  assumes "provenPeerKEL c blob a = Inr k"
  shows "ParseKEL c blob = Some k" "k \<noteq> []" "\<exists>states. Replay c k = Some states \<and> states \<noteq> [] \<and> StAID (last states) = a \<and> StToad (last states) = ToadHub c"
  using assms by (auto simp: provenPeerKEL_def split: option.splits if_splits list.splits)

lemma pinned_proven:
  assumes "peer_law c" "pins_proven c st" "pinnedPeerKEL c st a = Inr k"
  shows "k \<noteq> []" "\<exists>states. Replay c k = Some states \<and> states \<noteq> [] \<and> StAID (last states) = a \<and> StToad (last states) = ToadHub c"
proof -
  obtain blob t where p: "map_of (pk_pins st) a = Some (blob, t)" "UnmarshalKEL c blob = Some k"
    using assms(3) by (auto simp: pinnedPeerKEL_def split: option.splits)
  then obtain k' where k': "provenPeerKEL c blob a = Inr k'" using assms(2) by (fastforce simp: pins_proven_def dest: map_of_SomeD)
  have "k' = k" using proven_Inr(1) [OF k'] p(2) assms(1) by (simp add: peer_law_def)
  with proven_Inr(2,3) [OF k'] show "k \<noteq> []"
    "\<exists>states. Replay c k = Some states \<and> states \<noteq> [] \<and> StAID (last states) = a \<and> StToad (last states) = ToadHub c" by simp_all
qed

text \<open>A pin is written only where there was none, or by a history that extends it.\<close>

lemma pinPeerKEL_cases:
  assumes "pinPeerKEL c now a nxt blob st = (st', ans)"
  shows "pk_pins st' = pk_pins st \<or>
    st' = storePin now a blob st \<and> (pinnedPeerKEL c st a = Inl NoPin \<or> (\<exists>old. pinnedPeerKEL c st a = Inr old \<and> ExtendsKEL c old nxt = None))"
  using assms by (auto simp: pinPeerKEL_def Let_def split: sum.splits pin_error.splits option.splits extends_error.splits if_splits)

lemma storePin_grows:
  assumes "peer_law c" "pins_proven c st" "provenPeerKEL c blob a = Inr nxt"
    and "pinnedPeerKEL c st a = Inl NoPin \<or> (\<exists>old. pinnedPeerKEL c st a = Inr old \<and> ExtendsKEL c old nxt = None)"
  shows "pins_grow c st (storePin now a blob st)" "pins_proven c (storePin now a blob st)"
proof -
  have rd: "UnmarshalKEL c blob = Some nxt" using proven_Inr(1) [OF assms(3)] assms(1) by (simp add: peer_law_def)
  have new: "pinnedPeerKEL c (storePin now a blob st) b = (if b = a then Inr nxt else pinnedPeerKEL c st b)" for b
    by (simp add: pinnedPeerKEL_def storePin_def update_conv' rd)
  have "prefix old nxt" if "pinnedPeerKEL c st a = Inr old" for old
  proof -
    have "old \<noteq> []" using pinned_proven(1) [OF assms(1,2) that] .
    then show ?thesis using that assms(1,4) by (auto simp: peer_law_def)
  qed
  then show "pins_grow c st (storePin now a blob st)" by (auto simp: pins_grow_def new)
  have "set (AList.update a v t) \<subseteq> insert (a, v) (set t)" for v and t :: "(aid, bytes \<times> millis) table" by (induction t) auto
  then show "pins_proven c (storePin now a blob st)"
    using assms(2,3) by (fastforce simp: pins_proven_def storePin_def)
qed

lemma fetchPeerKEL_grows:
  assumes "peer_law c" "pins_proven c st" "fetchPeerKEL c now served p st = (st', ans)"
  shows "pins_grow c st st' \<and> pins_proven c st'"
proof -
  have "st' = st \<or> (\<exists>blob k. provenPeerKEL c blob (pr_aid p) = Inr k \<and> pinPeerKEL c now (pr_aid p) k blob st = (st', ans))"
    using assms(3) by (auto simp: fetchPeerKEL_def split: option.splits if_splits sum.splits pin_error.splits)
  then show ?thesis
  proof (elim disjE exE conjE)
    fix blob k assume k: "provenPeerKEL c blob (pr_aid p) = Inr k" "pinPeerKEL c now (pr_aid p) k blob st = (st', ans)"
    from pinPeerKEL_cases [OF k(2)] storePin_grows [OF assms(1,2) k(1)] show ?thesis using assms(2) by (auto dest: same_pins)
  qed (use assms(2) in simp)
qed

lemma peer_key_step_grows:
  assumes "peer_law c" "pins_proven c st" "peer_key_step c cf now st st'"
  shows "pins_proven c st' \<and> pins_grow c st st'"
proof -
  have fetched: "pins_proven c u \<and> pins_grow c st u" if "pk_pins u = pk_pins (fst (fetchPeerKEL c now served p st))" for served p u
    using fetchPeerKEL_grows [OF assms(1,2) surjective_pairing, where now = now and served = served and p = p] same_pins [OF that] assms(2) by (blast intro: pins_grow_trans)
  from assms(3) show ?thesis
  proof cases
    case (k_use asked locked served a seen ans)
    then have "st' = st \<or> (\<exists>p. pk_pins st' = pk_pins (fst (fetchPeerKEL c now served p st)))"
      by (auto simp: PeerKEL_def peerKEL_def Let_def case_prod_beta split: option.splits if_splits)
    then show ?thesis using fetched assms(2) by auto
  next
    case (k_refresh asked served a ans)
    then have "st' = st \<or> (\<exists>p. pk_pins st' = pk_pins (fst (fetchPeerKEL c now served p st)))"
      by (auto simp: RefreshPeerKEL_def Let_def case_prod_beta split: option.splits if_splits sum.splits)
    then show ?thesis using fetched assms(2) by auto
  next
    case (k_sync p served grew)
    then have "pk_pins st' = pk_pins (fst (fetchPeerKEL c now served p st))"
      by (auto simp: sync_peer_def Let_def case_prod_beta)
    then show ?thesis using fetched by auto
  next
    case k_restart
    have "filter (\<lambda>(a, blob, _). case provenPeerKEL c blob a of Inl _ \<Rightarrow> False | Inr _ \<Rightarrow> True) (pk_pins st) = pk_pins st"
      using assms(2) by (auto simp: pins_proven_def filter_id_conv)
    then have "pk_pins st' = pk_pins st" by (simp add: k_restart dropUnprovenPeerKELs_def)
    with same_pins assms(2) show ?thesis by blast
  qed
qed

interpretation pins: moves_forward "peer_key_step c cf" "\<lambda>t st. peer_law c \<and> pins_proven c st" "pins_grow c" for c cf
  by unfold_locales (auto intro: pins_grow_trans dest: peer_key_step_grows)

text \<open>A use of a peer of the table and a refresh, as steps.\<close>

lemma peer_uses_grow:
  assumes "peer_law c" "pins_proven c st" "peer_of cf (pr_aid p) = Some p"
  shows "peerKEL c asked locked now served p seen st = (st', ans) \<Longrightarrow> pins_proven c st' \<and> pins_grow c st st'"
    and "RefreshPeerKEL c cf asked now served a st = (st', ans) \<Longrightarrow> pins_proven c st' \<and> pins_grow c st st'"
proof -
  note grows = peer_key_step_grows [OF assms(1,2), of cf now st']
  show "pins_proven c st' \<and> pins_grow c st st'" if "peerKEL c asked locked now served p seen st = (st', ans)"
    by (rule grows, rule k_use [where a = "pr_aid p"]) (simp add: PeerKEL_def assms(3), rule that)
  show "pins_proven c st' \<and> pins_grow c st st'" if "RefreshPeerKEL c cf asked now served a st = (st', ans)"
    by (rule grows, rule k_refresh [OF that])
qed

end
