(* ===== verification/Body_Budget.thy ===== *)
theory Body_Budget
  imports Hub_Prelude
begin

text \<open>
  \<open>internal/federation/bodybudget.go\<close>: the bytes of \<open>/fed/v3\<close> request bodies this hub holds at once. Requests are
  numbered; each step is what one of them does between two reads of its connection. A request's hold is its
  own goroutine's: the two locks of \<open>bodyHold.take\<close> and \<open>release\<close> are one step.
\<close>

section \<open>The budget\<close>

definition fedBodyBudget :: int where "fedBodyBudget = 256 * 2 ^ 20"

record body_budget =
  bb_limit :: int
  bb_used :: int

definition newBodyBudget :: "int \<Rightarrow> body_budget" where
  "newBodyBudget limit = \<lparr>bb_limit = limit, bb_used = 0\<rparr>"

definition budget_take :: "int \<Rightarrow> body_budget \<Rightarrow> body_budget option" where
  "budget_take n b = (if n < 0 \<or> n > bb_limit b - bb_used b then None else Some (b\<lparr>bb_used := bb_used b + n\<rparr>))"

definition budget_give :: "int \<Rightarrow> body_budget \<Rightarrow> body_budget" where
  "budget_give n b = b\<lparr>bb_used := bb_used b - n\<rparr>"

definition budget_free :: "body_budget \<Rightarrow> int" where
  "budget_free b = bb_limit b - bb_used b"

section \<open>What a request holds\<close>

datatype body_outcome = BodyRead bytes | BodyTooLarge | BodyOverBudget | BodyLate | BodyUnreadable

text \<open>A body being read: what its route still takes, and what was read.\<close>

datatype body_read = Reading (rest: int) (taken: bytes) | Finished body_outcome

record bodies =
  by_budget :: body_budget
  by_holds :: "(nat, int) table"
  by_reads :: "(nat, body_read) table"

definition hold_take :: "nat \<Rightarrow> int \<Rightarrow> bodies \<Rightarrow> bodies option" where
  "hold_take i n st = (case budget_take n (by_budget st) of
      None \<Rightarrow> None
    | Some b \<Rightarrow> Some (st\<lparr>by_budget := b, by_holds := AList.update i (row_or (by_holds st) i 0 + n) (by_holds st)\<rparr>))"

definition hold_release :: "nat \<Rightarrow> bodies \<Rightarrow> bodies" where
  "hold_release i st = st\<lparr>by_holds := AList.update i 0 (by_holds st),
     by_budget := budget_give (row_or (by_holds st) i 0) (by_budget st)\<rparr>"

definition set_read :: "nat \<Rightarrow> body_read \<Rightarrow> bodies \<Rightarrow> bodies" where
  "set_read i r st = st\<lparr>by_reads := AList.update i r (by_reads st)\<rparr>"

text \<open>\<open>readPeerBody\<close> before its first read: the declared length (\<open>-1\<close> when there is none).\<close>

definition start_body :: "nat \<Rightarrow> int \<Rightarrow> int \<Rightarrow> bodies \<Rightarrow> bodies" where
  "start_body i limit declared st =
    set_read i
      (if declared > limit then Finished BodyTooLarge
       else if declared > budget_free (by_budget st) then Finished BodyOverBudget
       else Reading limit []) st"

text \<open>One answer of the connection. \<open>http.MaxBytesReader\<close> hands over what the route still takes of a longer
  read, with its error; \<open>budgetReader\<close> reserves it before it looks at the error. The buffer of that one read is
  filled before its bytes are reserved (\<open>bodybudget.go\<close>: \<open>Read\<close>); they count here from the reservation on.\<close>

datatype body_event = Chunk bytes | BodyEnd | BodyTimeout | BodyBroken

definition read_body :: "nat \<Rightarrow> body_event \<Rightarrow> bodies \<Rightarrow> bodies" where
  "read_body i ev st = (case map_of (by_reads st) i of
      Some (Reading left body) \<Rightarrow>
        (case ev of
          Chunk bs \<Rightarrow>
            (let n = min (int (length bs)) left;
                 over = (int (length bs) > left) in
             case (if n > 0 then hold_take i n st else Some st) of
               None \<Rightarrow> set_read i (Finished BodyOverBudget) st
             | Some st' \<Rightarrow> set_read i (if over then Finished BodyTooLarge else Reading (left - n) (body @ bs)) st')
        | BodyEnd \<Rightarrow> set_read i (Finished (BodyRead body)) st
        | BodyTimeout \<Rightarrow> set_read i (Finished BodyLate) st
        | BodyBroken \<Rightarrow> set_read i (Finished BodyUnreadable) st)
    | _ \<Rightarrow> st)"

section \<open>Requests side by side\<close>

text \<open>\<open>holdBodies\<close>: a request gets a hold, and when its handler returns it is given back.\<close>

inductive body_step :: "bodies \<Rightarrow> bodies \<Rightarrow> bool" where
  b_request: "\<not> has_key (by_holds st) i \<Longrightarrow> body_step st (st\<lparr>by_holds := AList.update i 0 (by_holds st)\<rparr>)"
| b_start: "has_key (by_holds st) i \<Longrightarrow> \<not> has_key (by_reads st) i \<Longrightarrow> 0 \<le> limit \<Longrightarrow> body_step st (start_body i limit declared st)"
| b_read: "body_step st (read_body i ev st)"
| b_done: "has_key (by_holds st) i \<Longrightarrow>
     body_step st ((hold_release i st)\<lparr>by_holds := AList.delete i (by_holds st), by_reads := AList.delete i (by_reads st)\<rparr>)"

inductive body_reachable :: "int \<Rightarrow> bodies \<Rightarrow> bool" for limit :: int where
  body_start: "body_reachable limit \<lparr>by_budget = newBodyBudget limit, by_holds = [], by_reads = []\<rparr>"
| body_next: "body_reachable limit st \<Longrightarrow> body_step st st' \<Longrightarrow> body_reachable limit st'"

inductive_cases body_stepE: "body_step st st'"

text \<open>The books: what is used is what the requests hold, within the limit, and a request holds at least the
  bytes it has read.\<close>

fun read_bytes :: "body_read \<Rightarrow> bytes" where
  "read_bytes (Reading left body) = body"
| "read_bytes (Finished (BodyRead body)) = body"
| "read_bytes (Finished out) = []"

definition holds_ok :: "bodies \<Rightarrow> bool" where
  "holds_ok st \<longleftrightarrow> keys_ok (by_holds st) \<and> keys_ok (by_reads st) \<and> bb_used (by_budget st) = col_sum (by_holds st) \<and>
     bb_used (by_budget st) \<le> bb_limit (by_budget st) \<and>
     (\<forall>i. 0 \<le> row_or (by_holds st) i 0) \<and>
     (\<forall>i r. map_of (by_reads st) i = Some r \<longrightarrow> has_key (by_holds st) i \<and> int (length (read_bytes r)) \<le> row_or (by_holds st) i 0)"

lemma read_bytes_finished [simp]: "out \<noteq> BodyRead b \<Longrightarrow> (\<forall>b. out \<noteq> BodyRead b) \<Longrightarrow> read_bytes (Finished out) = []"
  by (cases out) auto

lemma set_read_sel [simp]:
  "by_budget (set_read i r st) = by_budget st" "by_holds (set_read i r st) = by_holds st"
  "by_reads (set_read i r st) = AList.update i r (by_reads st)"
  by (simp_all add: set_read_def update_conv')

lemma holds_ok_set_read:
  assumes "holds_ok st" "has_key (by_holds st) i" "int (length (read_bytes r)) \<le> row_or (by_holds st) i 0"
  shows "holds_ok (set_read i r st)"
  using assms by (auto simp: holds_ok_def update_conv' split: if_splits)

lemma hold_take_Some:
  assumes "hold_take i n st = Some st'" "holds_ok st" "has_key (by_holds st) i"
  shows "holds_ok st'" "row_or (by_holds st') i 0 = row_or (by_holds st) i 0 + n" "has_key (by_holds st') i" "by_reads st' = by_reads st"
proof -
  from assms(1) have n: "0 \<le> n" "n \<le> bb_limit (by_budget st) - bb_used (by_budget st)"
    "st' = st\<lparr>by_budget := (by_budget st)\<lparr>bb_used := bb_used (by_budget st) + n\<rparr>,
        by_holds := AList.update i (row_or (by_holds st) i 0 + n) (by_holds st)\<rparr>"
    by (auto simp: hold_take_def budget_take_def split: option.splits if_splits)
  show "row_or (by_holds st') i 0 = row_or (by_holds st) i 0 + n" "has_key (by_holds st') i" "by_reads st' = by_reads st"
    by (simp_all add: n(3) row_or_update has_key_update)
  have reads: "int (length (read_bytes r)) \<le> row_or (by_holds st) j 0" "has_key (by_holds st) j" if "map_of (by_reads st) j = Some r" for j r
    using assms(2) that by (auto simp: holds_ok_def)
  show "holds_ok st'"
    using assms(2) n acct.total_credit [of "by_holds st" i n] reads
    by (auto simp: holds_ok_def row_or_update has_key_update intro: order_trans [OF reads(1)])
qed

lemma row_or_no_key: "\<not> has_key t k \<Longrightarrow> row_or t k d = d"
  by (simp add: row_or_def has_key_def)

lemma hold_release_ok:
  assumes "holds_ok st"
  shows "holds_ok ((hold_release i st)\<lparr>by_holds := AList.delete i (by_holds st), by_reads := AList.delete i (by_reads st)\<rparr>)"
proof -
  have k: "keys_ok (by_holds st)" and nn: "0 \<le> row_or (by_holds st) i 0"
    and used: "col_sum (by_holds st) \<le> bb_limit (by_budget st)" using assms by (simp_all add: holds_ok_def)
  have "col_sum (AList.delete i (by_holds st)) = col_sum (by_holds st) - row_or (by_holds st) i 0"
    using sum_except_split [OF k, of i] by (simp add: sum_except_def AList.delete_eq case_prod_beta' eq_commute [of i])
  moreover have le: "col_sum (by_holds st) - row_or (by_holds st) i 0 \<le> bb_limit (by_budget st)"
    using nn used by linarith
  ultimately show ?thesis
    using assms nn le by (auto simp: holds_ok_def hold_release_def budget_give_def row_or_delete has_key_delete delete_conv')
qed

lemma read_body_ok:
  assumes "holds_ok st"
  shows "holds_ok (read_body i ev st) \<and> bb_limit (by_budget (read_body i ev st)) = bb_limit (by_budget st)"
proof (cases "\<exists>left body. map_of (by_reads st) i = Some (Reading left body)")
  case False
  then have "read_body i ev st = st" by (auto simp: read_body_def split: option.split body_read.split)
  with assms show ?thesis by simp
next
  case True
  then obtain left body where r: "map_of (by_reads st) i = Some (Reading left body)" by blast
  then have h: "has_key (by_holds st) i" "int (length body) \<le> row_or (by_holds st) i 0"
    using assms by (force simp: holds_ok_def)+
  have fin: "holds_ok (set_read i (Finished out) st)" if "read_bytes (Finished out) = [] \<or> out = BodyRead body" for out
    using that assms h by (intro holds_ok_set_read) auto
  show ?thesis
  proof (cases ev)
    case (Chunk bs)
    define n where "n = min (int (length bs)) left"
    have step: "read_body i ev st = (case (if n > 0 then hold_take i n st else Some st) of
        None \<Rightarrow> set_read i (Finished BodyOverBudget) st
      | Some st' \<Rightarrow> set_read i (if int (length bs) > left then Finished BodyTooLarge else Reading (left - n) (body @ bs)) st')"
      by (simp only: read_body_def r Chunk option.case body_read.case body_event.case Let_def n_def)
    show ?thesis
    proof (cases "if n > 0 then hold_take i n st else Some st")
      case None
      with step have "read_body i ev st = set_read i (Finished BodyOverBudget) st" by (simp only: option.case)
      then show ?thesis using fin [of BodyOverBudget] by simp
    next
      case (Some st')
      have "hold_take i n st = Some st' \<Longrightarrow> bb_limit (by_budget st') = bb_limit (by_budget st)"
        by (auto simp: hold_take_def budget_take_def split: if_splits option.splits)
      with Some hold_take_Some [OF _ assms h(1), of n st'] have taken: "if n > 0 then holds_ok st' \<and> has_key (by_holds st') i \<and>
          row_or (by_holds st') i 0 = row_or (by_holds st) i 0 + n \<and> bb_limit (by_budget st') = bb_limit (by_budget st) else st' = st"
        by (auto split: if_splits)
      then have t: "holds_ok st'" "has_key (by_holds st') i" "row_or (by_holds st) i 0 + max n 0 = row_or (by_holds st') i 0"
        "bb_limit (by_budget st') = bb_limit (by_budget st)"
        using assms h(1) by (auto split: if_splits)
      have e: "read_body i ev st = set_read i (if int (length bs) > left then Finished BodyTooLarge else Reading (left - n) (body @ bs)) st'"
        using step Some by (simp only: option.case)
      have "holds_ok (read_body i ev st)"
        unfolding e by (rule holds_ok_set_read [OF t(1,2)]) (use h(2) t(3) in \<open>auto simp: n_def\<close>)
      then show ?thesis by (simp add: e t(4))
    qed
  qed (use r fin in \<open>simp_all add: read_body_def\<close>)
qed

lemma body_step_ok: "body_step st st' \<Longrightarrow> holds_ok st \<Longrightarrow> holds_ok st' \<and> bb_limit (by_budget st') = bb_limit (by_budget st)"
proof (induction rule: body_step.induct)
  case (b_request st i)
  then have "row_or (by_holds st) i 0 = 0" by (simp add: row_or_no_key)
  moreover have "map_of (by_reads st) i = None" using b_request by (cases "map_of (by_reads st) i") (auto simp: holds_ok_def)
  ultimately show ?case using b_request acct.total_put [of "by_holds st" i 0]
    by (auto simp: holds_ok_def row_or_update has_key_update)
next
  case (b_start st i limit declared)
  then show ?case unfolding start_body_def by (auto intro!: holds_ok_set_read) (auto simp: holds_ok_def)
next
  case (b_read st i ev)
  then show ?case by (rule read_body_ok)
next
  case (b_done st i)
  then show ?case by (simp add: hold_release_ok) (simp add: hold_release_def budget_give_def)
qed

lemma body_reachable_ok:
  "body_reachable limit st \<Longrightarrow> 0 \<le> limit \<Longrightarrow> holds_ok st \<and> bb_limit (by_budget st) = limit"
proof (induction rule: body_reachable.induct)
  case body_start
  then show ?case by (simp add: holds_ok_def newBodyBudget_def row_or_def)
next
  case (body_next st st')
  then show ?case using body_step_ok by metis
qed

text \<open>The bytes of bodies in memory are within what is reserved.\<close>

definition buffered :: "bodies \<Rightarrow> int" where
  "buffered st = sum_list (map (\<lambda>r. int (length (read_bytes (snd r)))) (by_reads st))"

lemma buffered_le:
  assumes "holds_ok st"
  shows "buffered st \<le> bb_used (by_budget st)"
proof -
  let ?H = "fst ` set (by_holds st)" and ?h = "\<lambda>i. row_or (by_holds st) i 0"
  have d: "distinct (map fst (by_reads st))" and kh: "keys_ok (by_holds st)" using assms by (simp_all add: holds_ok_def keys_ok_def)
  have row: "int (length (read_bytes r)) \<le> ?h i" "i \<in> ?H" if "(i, r) \<in> set (by_reads st)" for i r
  proof -
    have m: "map_of (by_reads st) i = Some r" using that d by simp
    then show "int (length (read_bytes r)) \<le> ?h i" using assms by (simp add: holds_ok_def)
    have "has_key (by_holds st) i" using m assms by (simp add: holds_ok_def)
    then show "i \<in> ?H" by (force simp: has_key_def dest: map_of_SomeD)
  qed
  have "buffered st \<le> sum_list (map (\<lambda>r. ?h (fst r)) (by_reads st))"
    unfolding buffered_def by (rule sum_list_mono) (use row(1) in force)
  also have "\<dots> = (\<Sum>i \<in> fst ` set (by_reads st). ?h i)"
    using d by (simp add: sum_list_distinct_conv_sum_set [of "map fst (by_reads st)" ?h, symmetric] o_def flip: set_map)
  also have "\<dots> \<le> (\<Sum>i \<in> ?H. ?h i)"
    by (rule sum_mono2) (use row(2) assms in \<open>auto simp: holds_ok_def\<close>)
  also have "\<dots> = bb_used (by_budget st)" using assms col_sum_as_set [OF kh] by (simp add: holds_ok_def)
  finally show ?thesis .
qed

end
