(* ===== verification/Peer_Requests.thy ===== *)
theory Peer_Requests
  imports Peer_Keys_Laws Body_Budget Signed_Requests
begin

text \<open>
  \<open>internal/federation/authpeer.go\<close>: the door of every \<open>/fed/v3\<close> route, and the RC1 half of it in
  \<open>internal/aghub/fed_relay.go\<close>. A request goes through the checks in order; the states it looks at without a lock
  (\<open>seen\<close>, \<open>r_floor\<close>) are arguments of their own, the body is how its reading ended (\<open>Body_Budget\<close>).
\<close>

section \<open>The headers\<close>

definition parseHubAuth :: "sign_core \<Rightarrow> (string \<Rightarrow> string list) \<Rightarrow> header_error + v2_auth" where
  "parseHubAuth sn hs =
    (case (singleHeader hs ''X-ANet-AID'', singleHeader hs ''X-ANet-TS'', singleHeader hs ''X-ANet-Seq'',
           singleHeader hs ''X-ANet-Sig'') of
      (Some a, Some ts, Some sq, Some sg) \<Rightarrow>
        (case canonical_uint ts of
          None \<Rightarrow> Inl ErrTSHeader
        | Some t \<Rightarrow> (case canonical_uint sq of
            None \<Rightarrow> Inl ErrSeqHeader
          | Some q \<Rightarrow> (case DecodeSig sn sg of
              None \<Rightarrow> Inl ErrSigHeader
            | Some b \<Rightarrow> Inr \<lparr>va_aid = a, va_ts = t, va_seq = q, va_sig = b\<rparr>)))
    | _ \<Rightarrow> Inl errNoAuthHeaders)"

definition withinMaxSkew :: "peer_core \<Rightarrow> u64 \<Rightarrow> time_ns \<Rightarrow> bool" where
  "withinMaxSkew c ts now =
    (if ts > push_bit 62 1 then False
     else (let d = unix_milli now - uint ts; d = (if d < 0 then - d else d) in d \<le> MaxSkewMillis c))"

text \<open>RC1 for a peer: its floor now, and the check of a time whose signature verified.\<close>

definition rc1KPeerHub :: int where "rc1KPeerHub = 4096"

definition floorOf :: "rc1_env \<Rightarrow> rc1_state \<Rightarrow> aid \<Rightarrow> u64" where
  "floorOf e r a =
    (let sh = rc_shards r ! shard_of e a r in
     case map_of (sh_signers sh) a of Some s \<Rightarrow> sg_floor s | None \<Rightarrow> sh_gone sh)"

definition PeerRC1 :: "rc1_env \<Rightarrow> bool \<Rightarrow> bool \<Rightarrow> aid \<Rightarrow> u64 \<Rightarrow> time_ns \<Rightarrow> rc1_state \<Rightarrow> rc1_state \<times> auth_failure option" where
  "PeerRC1 e free first a ts now r =
    (case accept e free first a ts rc1KPeerHub (unix_milli now) r of (r, v) \<Rightarrow>
      (r, case v of rc1Stale floor \<Rightarrow> Some (TsStale floor) | rc1Replayed \<Rightarrow> Some Replayed
                  | rc1Outside \<Rightarrow> Some OutsideWindow | rc1Accepted \<Rightarrow> None))"

section \<open>The signature\<close>

datatype peer_signature = PeerSigned | PeerSignedRetired | PeerNotSigned

definition verifyPeerSignature :: "peer_core \<Rightarrow> kel \<Rightarrow> v2_auth \<Rightarrow> bytes \<Rightarrow> bool" where
  "verifyPeerSignature c k a pre =
    (if unat (va_seq a) \<ge> length k then False
     else (let keys = EvKeys (k ! unat (va_seq a)) in
       if length keys \<noteq> 1 \<or> length (keys ! 0) \<noteq> 32 \<or> length (va_sig a) \<noteq> 64 then False
       else Ed25519Verify c (keys ! 0) pre (va_sig a)))"

definition peerSignatureFailure :: "peer_core \<Rightarrow> kel \<Rightarrow> v2_auth \<Rightarrow> bytes \<Rightarrow> peer_signature" where
  "peerSignatureFailure c k a pre =
    (if \<not> verifyPeerSignature c k a pre then PeerNotSigned
     else (case Replay c k of
       None \<Rightarrow> PeerNotSigned
     | Some states \<Rightarrow>
       (let tip = last states in
        if StAID tip \<noteq> va_aid a then PeerNotSigned
        else if va_seq a \<noteq> StKeyStateSeq tip \<or> StStatus tip \<noteq> StatusActive then PeerSignedRetired
        else PeerSigned)))"

section \<open>The door\<close>

datatype peer_refusal =
  NotPeer | PeerUnauthorized | PeerHeader header_error | PeerGateClosed | PeerBody body_outcome
  | PeerKeyRetired | PeerTime auth_failure

record peer_request =
  pq_headers :: "string \<Rightarrow> string list"
  pq_action :: string
  pq_method :: string
  pq_uri :: string

text \<open>The clock readings of one request and what its peer's \<open>/hub/identity\<close> would answer.\<close>

record peer_clock =
  pt_headers :: time_ns
  pt_asked :: time_ns
  pt_locked :: time_ns
  pt_fetched :: time_ns
  pt_refresh :: time_ns
  pt_refreshed :: time_ns
  pt_accept :: time_ns

definition peerHeaders ::
  "peer_core \<Rightarrow> rc1_env \<Rightarrow> fed_config \<Rightarrow> peer_clock \<Rightarrow> identity_answer \<Rightarrow> identity_answer \<Rightarrow> rc1_state \<Rightarrow> peer \<Rightarrow> v2_auth \<Rightarrow>
   peer_keys \<Rightarrow> peer_keys \<Rightarrow> peer_keys \<times> (peer_refusal + kel)" where
  "peerHeaders c e cf t served served' r_floor p a seen st =
    (if \<not> withinMaxSkew c (va_ts a) (pt_headers t) then (st, Inl PeerUnauthorized)
     else if va_ts a \<le> floorOf e r_floor (pr_aid p) then (st, Inl PeerUnauthorized)
     else (case peerKEL c (pt_asked t) (pt_locked t) (pt_fetched t) served p seen st of
       (st, k, err) \<Rightarrow>
         if err \<noteq> None \<or> k = None then (st, Inl PeerUnauthorized)
         else if unat (va_seq a) < length (the k) then (st, Inr (the k))
         else (case RefreshPeerKEL c cf (pt_refresh t) (pt_refreshed t) served' (pr_aid p) st of
           (st, k, err) \<Rightarrow>
             if err \<noteq> None \<or> k = None \<or> unat (va_seq a) \<ge> length (the k) then (st, Inl PeerUnauthorized)
             else (st, Inr (the k)))))"

definition peer_preimage :: "sign_core \<Rightarrow> aid \<Rightarrow> peer_request \<Rightarrow> v2_auth \<Rightarrow> bytes \<Rightarrow> bytes" where
  "peer_preimage sn hub q a body = PreimageV2 sn (pq_action q) (va_aid a) hub (va_ts a) (pq_method q) (pq_uri q) body"

text \<open>\<open>wired\<close>: the kernel is set; \<open>is_open\<close>: the route's switch.\<close>

definition authPeer ::
  "sign_core \<Rightarrow> peer_core \<Rightarrow> rc1_env \<Rightarrow> bool \<Rightarrow> bool \<Rightarrow> fed_config \<Rightarrow> aid \<Rightarrow> bool \<Rightarrow> bool \<Rightarrow> (aid \<Rightarrow> bool) \<Rightarrow> peer_clock \<Rightarrow>
   identity_answer \<Rightarrow> identity_answer \<Rightarrow> body_outcome \<Rightarrow> peer_request \<Rightarrow> rc1_state \<Rightarrow> peer_keys \<Rightarrow> peer_keys \<Rightarrow> rc1_state \<Rightarrow>
   peer_keys \<times> rc1_state \<times> (peer_refusal + peer \<times> bytes)" where
  "authPeer sn c e free first cf hub wired is_open gate t served served' out q r_floor seen st r =
    (let named = (case singleHeader (pq_headers q) ''X-ANet-AID'' of None \<Rightarrow> None | Some v \<Rightarrow> Some (peer_of cf v)) in
     if (case named of None \<Rightarrow> False | Some p \<Rightarrow> \<not> is_open \<or> p = None \<or> \<not> wired) then (st, r, Inl NotPeer)
     else (case parseHubAuth sn (pq_headers q) of
       Inl e \<Rightarrow> (st, r, Inl (PeerHeader e))
     | Inr a \<Rightarrow>
       (case named of
         Some (Some p) \<Rightarrow>
           if pr_aid p \<noteq> va_aid a then (st, r, Inl NotPeer)
           else (case peerHeaders c e cf t served served' r_floor p a seen st of
             (st, Inl f) \<Rightarrow> (st, r, Inl f)
           | (st, Inr k) \<Rightarrow>
             if \<not> gate (pr_aid p) then (st, r, Inl PeerGateClosed)
             else (case out of
               BodyRead body \<Rightarrow>
                 (case peerSignatureFailure c k a (peer_preimage sn hub q a body) of
                   PeerNotSigned \<Rightarrow> (st, r, Inl PeerUnauthorized)
                 | PeerSignedRetired \<Rightarrow> (st, r, Inl PeerKeyRetired)
                 | PeerSigned \<Rightarrow>
                   (case PeerRC1 e free first (va_aid a) (va_ts a) (pt_accept t) r of
                     (r, Some f) \<Rightarrow> (st, r, Inl (PeerTime f))
                   | (r, None) \<Rightarrow> (st, r, Inr (p, body))))
             | _ \<Rightarrow> (st, r, Inl (PeerBody out))))
       | _ \<Rightarrow> (st, r, Inl NotPeer))))"

section \<open>What passes\<close>

text \<open>The history a use is given is pinned: in the state it looked at, or in the state it left.\<close>

lemma pinPeerKEL_pinned:
  assumes "pinPeerKEL c now a nxt blob st = (st', Some k, err)" "UnmarshalKEL c blob = Some nxt"
  shows "pinnedPeerKEL c st' a = Inr k"
proof -
  have n: "pinnedPeerKEL c (noteFork now a st) = pinnedPeerKEL c st" by (rule pinned_same) simp
  have "pinnedPeerKEL c (storePin now a blob st) a = Inr nxt" by (simp add: pinnedPeerKEL_def storePin_def update_conv' assms(2))
  then show ?thesis using assms(1) n
    by (auto simp: pinPeerKEL_def Let_def split: sum.splits pin_error.splits option.splits extends_error.splits if_splits)
qed

lemma fetchPeerKEL_pinned:
  assumes "peer_law c" "fetchPeerKEL c now served p st = (st', Some k, err)"
  shows "pinnedPeerKEL c st' (pr_aid p) = Inr k"
proof -
  obtain blob k' where "provenPeerKEL c blob (pr_aid p) = Inr k'" "pinPeerKEL c now (pr_aid p) k' blob st = (st', Some k, err)"
    using assms(2) by (auto simp: fetchPeerKEL_def split: option.splits if_splits sum.splits pin_error.splits)
  with pinPeerKEL_pinned [of c now "pr_aid p" k' blob st st' k err] proven_Inr(1) [of c blob "pr_aid p" k'] assms(1)
  show ?thesis by (simp add: peer_law_def)
qed

lemma answer_of_Some: "answer_of r = (Some k, err) \<longleftrightarrow> r = Inr k \<and> err = None"
  by (auto simp: answer_of_def split: sum.split)

lemma peerKEL_pinned:
  assumes "peer_law c" "peerKEL c asked locked ended served p seen st = (st', Some k, None)"
  shows "pinnedPeerKEL c seen (pr_aid p) = Inr k \<or> pinnedPeerKEL c st' (pr_aid p) = Inr k"
proof -
  have s: "pinnedPeerKEL c (set_fetch (pr_aid p) f u) = pinnedPeerKEL c u" for f u by (rule pinned_same) simp
  show ?thesis using assms(2) fetchPeerKEL_pinned [OF assms(1)]
    by (auto simp: peerKEL_def Let_def answer_of_Some s split: if_splits prod.splits)
qed

lemma RefreshPeerKEL_pinned:
  assumes "peer_law c" "RefreshPeerKEL c cf now ended served (pr_aid p) st = (st', Some k, None)" "peer_of cf (pr_aid p) \<noteq> None"
  shows "pinnedPeerKEL c st' (pr_aid p) = Inr k"
proof -
  obtain p' where p': "peer_of cf (pr_aid p) = Some p'" using assms(3) by blast
  then have a: "pr_aid p' = pr_aid p" by (auto simp: peer_of_def find_Some_iff)
  have s: "pinnedPeerKEL c (set_fetch b f u) = pinnedPeerKEL c u" for b f u by (rule pinned_same) simp
  obtain u k1 e1 where f: "fetchPeerKEL c ended served p' st = (u, k1, e1)" by (metis prod_cases3)
  show ?thesis using assms(2) fetchPeerKEL_pinned [OF assms(1), of ended served p' st u] f
    by (cases k1) (auto simp: RefreshPeerKEL_def Let_def p' a answer_of_Some s pinnedOrNone_def split: if_splits sum.splits)
qed

definition peer_signed :: "sign_core \<Rightarrow> peer_core \<Rightarrow> aid \<Rightarrow> peer_request \<Rightarrow> v2_auth \<Rightarrow> kel \<Rightarrow> bytes \<Rightarrow> bool" where
  "peer_signed sn c hub q a k body \<longleftrightarrow>
    (\<exists>states. Replay c k = Some states \<and> StAID (last states) = va_aid a \<and> va_seq a = StKeyStateSeq (last states) \<and>
       StStatus (last states) = StatusActive) \<and>
    unat (va_seq a) < length k \<and> Ed25519Verify c (EvKeys (k ! unat (va_seq a)) ! 0) (peer_preimage sn hub q a body) (va_sig a)"

lemma peerSignatureFailure_signed:
  "peerSignatureFailure c k a (peer_preimage sn hub q a body) = PeerSigned \<Longrightarrow> peer_signed sn c hub q a k body"
  by (auto simp: peerSignatureFailure_def verifyPeerSignature_def peer_signed_def Let_def not_le split: if_splits option.splits)

lemma peerHeaders_Inr:
  assumes "peer_law c" "peerHeaders c e cf t served served' r_floor p a seen st = (st', Inr k)" "peer_of cf (pr_aid p) \<noteq> None"
  shows "withinMaxSkew c (va_ts a) (pt_headers t)" "floorOf e r_floor (pr_aid p) < va_ts a"
    "pinnedPeerKEL c seen (pr_aid p) = Inr k \<or> pinnedPeerKEL c st' (pr_aid p) = Inr k"
proof -
  note H = assms(2) [unfolded peerHeaders_def]
  show w: "withinMaxSkew c (va_ts a) (pt_headers t)" using H by (cases "withinMaxSkew c (va_ts a) (pt_headers t)") simp_all
  show fl: "floorOf e r_floor (pr_aid p) < va_ts a" using H w by (auto simp: not_le [symmetric])
  obtain st1 k1 e1 where 1: "peerKEL c (pt_asked t) (pt_locked t) (pt_fetched t) served p seen st = (st1, k1, e1)" by (metis prod_cases3)
  obtain st2 k2 e2 where 2: "RefreshPeerKEL c cf (pt_refresh t) (pt_refreshed t) served' (pr_aid p) st1 = (st2, k2, e2)" by (metis prod_cases3)
  have "e1 = None \<and> k1 = Some k \<and> st' = st1 \<or> e2 = None \<and> k2 = Some k \<and> st' = st2"
    using H w fl 1 2 by (auto simp: not_le [symmetric] split: if_splits)
  then show "pinnedPeerKEL c seen (pr_aid p) = Inr k \<or> pinnedPeerKEL c st' (pr_aid p) = Inr k"
  proof (elim disjE conjE)
    assume e: "e1 = None" "k1 = Some k" "st' = st1"
    show ?thesis using peerKEL_pinned [OF assms(1) 1 [unfolded e]] e(3) by simp
  next
    assume e: "e2 = None" "k2 = Some k" "st' = st2"
    show ?thesis using RefreshPeerKEL_pinned [OF assms(1) 2 [unfolded e] assms(3)] e(3) by simp
  qed
qed

lemma peerHeaders_grows:
  assumes "peer_law c" "pins_proven c st" "peer_of cf (pr_aid p) = Some p"
    and "peerHeaders c e cf t served served' r_floor p a seen st = (st', res)"
  shows "pins_proven c st' \<and> pins_grow c st st'"
proof -
  obtain st1 k1 e1 where 1: "peerKEL c (pt_asked t) (pt_locked t) (pt_fetched t) served p seen st = (st1, k1, e1)" by (metis prod_cases3)
  obtain st2 k2 e2 where 2: "RefreshPeerKEL c cf (pt_refresh t) (pt_refreshed t) served' (pr_aid p) st1 = (st2, k2, e2)" by (metis prod_cases3)
  have "pins_proven c st1 \<and> pins_grow c st st1" using peer_uses_grow(1) [OF assms(1-3) 1] .
  moreover from this have "pins_proven c st2 \<and> pins_grow c st1 st2" using peer_uses_grow(2) [OF assms(1) _ assms(3) 2] by blast
  moreover have "st' \<in> {st, st1, st2}" using assms(4) 1 2 by (auto simp: peerHeaders_def split: if_splits)
  ultimately show ?thesis using assms(2) by (auto intro: pins_grow_trans)
qed

text \<open>What is let through, step by step.\<close>

lemma authPeer_Inr:
  assumes "authPeer sn c e free first cf hub wired is_open gate t served served' out q r_floor seen st r = (st', r', Inr (p, body))"
  obtains a k where "parseHubAuth sn (pq_headers q) = Inr a" "peer_of cf (va_aid a) = Some p" "pr_aid p = va_aid a"
    "is_open" "wired" "gate (va_aid a)" "out = BodyRead body"
    "peerHeaders c e cf t served served' r_floor p a seen st = (st', Inr k)"
    "peerSignatureFailure c k a (peer_preimage sn hub q a body) = PeerSigned"
    "PeerRC1 e free first (va_aid a) (va_ts a) (pt_accept t) r = (r', None)"
proof -
  have p: "pr_aid p' = v" if "peer_of cf v = Some p'" for p' v using that by (auto simp: peer_of_def find_Some_iff)
  have "\<exists>a k. parseHubAuth sn (pq_headers q) = Inr a \<and> peer_of cf (va_aid a) = Some p \<and> pr_aid p = va_aid a \<and>
    is_open \<and> wired \<and> gate (va_aid a) \<and> out = BodyRead body \<and>
    peerHeaders c e cf t served served' r_floor p a seen st = (st', Inr k) \<and>
    peerSignatureFailure c k a (peer_preimage sn hub q a body) = PeerSigned \<and>
    PeerRC1 e free first (va_aid a) (va_ts a) (pt_accept t) r = (r', None)"
    using assms p by (auto simp: authPeer_def Let_def split: option.splits sum.splits if_splits prod.splits
      body_outcome.splits peer_signature.splits)
  with that show thesis by blast
qed

text \<open>Only an answer about the time touches RC1.\<close>

lemma authPeer_refused:
  assumes "authPeer sn c e free first cf hub wired is_open gate t served served' out q r_floor seen st r = (st', r', Inl f)"
  shows "r' = r \<or> (\<exists>v. f = PeerTime v)"
  using assms by (auto simp: authPeer_def Let_def split: option.splits sum.splits if_splits prod.splits
      body_outcome.splits peer_signature.splits)

end
