(* ===== verification/Federation_Properties.thy ===== *)
theory Federation_Properties
  imports Peer_Requests Registry_Demo Request_Properties
begin

text \<open>
  The properties of the federation door: the bytes of bodies held at once, the pinned key histories, and what
  \<open>authPeer\<close> lets through. The instance is a hub whose only peer is \<open>alice\<close>, over the key histories of \<open>Registry_Demo\<close>.
\<close>

section \<open>Bodies\<close>

text \<open>C40: Whatever requests come, are read and end, in any order, the hub has reserved exactly what they hold, never
  more than the limit and never less than the bytes of bodies it has in memory; once no request is left nothing is
  reserved, and at any time bytes that fit under the limit can be had.\<close>

theorem bodies_within_budget:
  assumes "body_reachable limit st" and "0 \<le> limit"
  shows "bb_used (by_budget st) = col_sum (by_holds st) \<and> bb_used (by_budget st) \<le> limit \<and>
    buffered st \<le> bb_used (by_budget st) \<and> (by_holds st = [] \<longrightarrow> bb_used (by_budget st) = 0) \<and>
    (\<forall>n i. 0 \<le> n \<longrightarrow> (hold_take i n st = None \<longleftrightarrow> limit < bb_used (by_budget st) + n))"
proof -
  have ok: "holds_ok st" and lim: "bb_limit (by_budget st) = limit" using body_reachable_ok [OF assms] by blast+
  then have "bb_used (by_budget st) = col_sum (by_holds st)" "bb_used (by_budget st) \<le> limit" by (auto simp: holds_ok_def)
  moreover have "hold_take i n st = None \<longleftrightarrow> limit < bb_used (by_budget st) + n" if "0 \<le> n" for n i
    using that lim by (auto simp: hold_take_def budget_take_def)
  ultimately show ?thesis using buffered_le [OF ok] by simp
qed

definition demo_bodies :: bodies where
  "demo_bodies = read_body 2 (Chunk [1, 2, 3]) (read_body 1 (Chunk [1, 2, 3, 4])
     (start_body 2 8 (- 1) (start_body 1 8 4 \<lparr>by_budget = newBodyBudget 6, by_holds = [(1, 0), (2, 0)], by_reads = []\<rparr>)))"

lemma demo_bodies_reachable: "body_reachable 6 demo_bodies"
proof -
  let ?s = "\<lambda>h. \<lparr>by_budget = newBodyBudget 6, by_holds = h, by_reads = []\<rparr>"
  have "body_reachable 6 (?s [])" by (rule body_start)
  from body_next [OF this b_request [of _ 1]] have "body_reachable 6 (?s [(1, 0)])" by (simp add: has_key_def)
  from body_next [OF this b_request [of _ 2]] have "body_reachable 6 (?s [(1, 0), (2, 0)])" by (simp add: has_key_def)
  from body_next [OF this b_start [of _ 1 8 4]] have "body_reachable 6 (start_body 1 8 4 (?s [(1, 0), (2, 0)]))"
    by (simp add: has_key_def)
  from body_next [OF this b_start [of _ 2 8 "- 1"]]
  have "body_reachable 6 (start_body 2 8 (- 1) (start_body 1 8 4 (?s [(1, 0), (2, 0)])))"
    by (simp add: has_key_def start_body_def set_read_def newBodyBudget_def budget_free_def)
  from body_next [OF body_next [OF this b_read [of _ 1 "Chunk [1, 2, 3, 4]"]] b_read [of _ 2 "Chunk [1, 2, 3]"]]
  show ?thesis by (simp add: demo_bodies_def)
qed

theorem bodies_within_budget_witness:
  "bb_used (by_budget demo_bodies) = 4 \<and> buffered demo_bodies = 4 \<and>
   map_of (by_reads demo_bodies) 2 = Some (Finished BodyOverBudget) \<and>
   hold_take 2 2 demo_bodies \<noteq> None \<and> hold_take 2 3 demo_bodies = None"
proof -
  have "bb_used (by_budget demo_bodies) = 4" "buffered demo_bodies = 4"
    "map_of (by_reads demo_bodies) 2 = Some (Finished BodyOverBudget)" by code_simp+
  with bodies_within_budget [OF demo_bodies_reachable] show ?thesis by simp
qed

section \<open>Pins\<close>

text \<open>C39: The key history pinned for a peer is only ever extended, over any run of uses, refreshes, syncs and
  restarts, whatever its \<open>/hub/identity\<close> answers; and every history pinned proves the AID it is pinned for, as a hub's.\<close>

theorem peer_pins_only_grow:
  assumes "peer_law c" and "pins_proven c st" and "clock_run (peer_key_step c cf) t st r"
  shows "(\<forall>a k. pinnedPeerKEL c st a = Inr k \<longrightarrow> (\<exists>k'. pinnedPeerKEL c (end_of st r) a = Inr k' \<and> prefix k k')) \<and>
    (\<forall>a k. pinnedPeerKEL c (end_of st r) a = Inr k \<longrightarrow>
      (\<exists>states. Replay c k = Some states \<and> states \<noteq> [] \<and> StAID (last states) = a \<and> StToad (last states) = ToadHub c))"
proof -
  have "pins_proven c (end_of st r)" "pins_grow c st (end_of st r)"
    using pins.run_ahead [OF assms(3)] assms(1,2) by blast+
  then show ?thesis using pinned_proven(2) [OF assms(1)] by (simp add: pins_grow_def)
qed

definition demo_peer_core :: peer_core where
  "demo_peer_core = registry_core.extend (reg_core\<lparr>Ed25519Verify := \<lambda>key pre sg. sg = replicate 64 1\<rparr>)
     (peer_core.fields (\<lambda>old new now. None) 1)"

lemma demo_peer_core_sel [simp]:
  "UnmarshalKEL demo_peer_core = demo_read_kel" "ParseKEL demo_peer_core = demo_read_kel"
  "ExtendsKEL demo_peer_core k l = (if prefix k l then None else Some ErrKELFork)"
  "Replay demo_peer_core k = (if k = [] then None else Some (demo_states k))"
  "ToadHub demo_peer_core = 1" "CheckHubEvents demo_peer_core old new now = None"
  "Ed25519Verify demo_peer_core key pre sg \<longleftrightarrow> sg = replicate 64 1" "MaxSkewMillis demo_peer_core = 120000"
  by (simp_all add: demo_peer_core_def registry_core.defs peer_core.defs reg_core_def demo_core_def)

lemma demo_peer_law: "peer_law demo_peer_core"
  by (auto simp: peer_law_def demo_read_kel_def)

definition demo_fed :: fed_config where
  "demo_fed = \<lparr>cf_delivery = ''on'', cf_discovery = ''on'', cf_peers = [\<lparr>pr_aid = ''alice'', pr_endpoint = ''https://a''\<rparr>],
     cf_witness = ''on''\<rparr>"

definition demo_pins :: peer_keys where
  "demo_pins = \<lparr>pk_pins = [(''alice'', [1], 0)], pk_forks = [], pk_fetches = []\<rparr>"

lemma demo_pinned: "pinnedPeerKEL demo_peer_core demo_pins ''alice'' = Inr [ev0]"
  by (simp add: pinnedPeerKEL_def demo_pins_def)

lemma demo_pins_proven: "pins_proven demo_peer_core demo_pins"
  by (simp add: pins_proven_def demo_pins_def provenPeerKEL_def demo_states_def)

text \<open>The peer rotates: a sync pins the longer history; then it serves the old one again.\<close>

definition demo_serve :: "bytes \<Rightarrow> peer_keys \<Rightarrow> peer_keys \<times> bool" where
  "demo_serve blob = sync_peer demo_peer_core 1000 (Some (''alice'', EncodeB64URL blob)) \<lparr>pr_aid = ''alice'', pr_endpoint = ''https://a''\<rparr>"

lemma demo_serve_step: "peer_key_step demo_peer_core demo_fed 1000 st (fst (demo_serve blob st))"
  by (rule k_sync [of "\<lparr>pr_aid = ''alice'', pr_endpoint = ''https://a''\<rparr>" _ _ _ _ _ _ "snd (demo_serve blob st)"])
    (simp_all add: demo_fed_def demo_serve_def)

lemma demo_serve_rotated:
  "snd (demo_serve [2] demo_pins)" "pinnedPeerKEL demo_peer_core (fst (demo_serve [2] demo_pins)) ''alice'' = Inr [ev0, ev_rot]"
proof -
  have dec: "DecodeB64URL ''kel'' (EncodeB64URL b) = Inr b" for b by (simp add: DecodeB64URL_Inr decode_encode_aux)
  have proven: "provenPeerKEL demo_peer_core [2] ''alice'' = Inr [ev0, ev_rot]" by (simp add: provenPeerKEL_def demo_states_def)
  have "pinPeerKEL demo_peer_core 1000 ''alice'' [ev0, ev_rot] [2] demo_pins = (storePin 1000 ''alice'' [2] demo_pins, Some [ev0, ev_rot], None)"
    by (simp add: pinPeerKEL_def demo_pinned)
  then have r: "demo_serve [2] demo_pins = (set_fetch ''alice'' (fetch_ended 1000 None (peerKELFetchOf demo_pins ''alice''))
      (storePin 1000 ''alice'' [2] demo_pins), True)"
    by (simp add: demo_serve_def sync_peer_def demo_pinned fetchPeerKEL_def dec proven)
  have same: "pinnedPeerKEL c (set_fetch a f st) = pinnedPeerKEL c st" for c a f st by (rule pinned_same) simp
  show "snd (demo_serve [2] demo_pins)" by (simp add: r)
  show "pinnedPeerKEL demo_peer_core (fst (demo_serve [2] demo_pins)) ''alice'' = Inr [ev0, ev_rot]"
    by (simp add: r same) (simp add: pinnedPeerKEL_def storePin_def demo_pins_def)
qed

theorem peer_pins_only_grow_witness:
  "snd (demo_serve [2] demo_pins) \<and> pinnedPeerKEL demo_peer_core (fst (demo_serve [2] demo_pins)) ''alice'' = Inr [ev0, ev_rot] \<and>
   (\<exists>k. pinnedPeerKEL demo_peer_core (fst (demo_serve [1] (fst (demo_serve [2] demo_pins)))) ''alice'' = Inr k \<and> prefix [ev0, ev_rot] k)"
proof -
  let ?s = "fst (demo_serve [2] demo_pins)" and ?u = "fst (demo_serve [1] (fst (demo_serve [2] demo_pins)))"
  have "pins_proven demo_peer_core ?s"
    using peer_key_step_grows [OF demo_peer_law demo_pins_proven demo_serve_step] by blast
  then have "\<exists>k. pinnedPeerKEL demo_peer_core ?u ''alice'' = Inr k \<and> prefix [ev0, ev_rot] k"
    using peer_pins_only_grow [OF demo_peer_law, of ?s demo_fed 0 "[(1000, ?u)]"] demo_serve_step demo_serve_rotated(2) by simp
  with demo_serve_rotated show ?thesis by blast
qed

section \<open>The door\<close>

text \<open>C38: A request \<open>authPeer\<close> lets through came to an open route from a hub of the peer table, its time within the
  skew of this hub's clock, above the floor that was looked at and never accepted from that hub before, and was
  signed over this hub's AID and its own action, method, target and body, under the active tip of the whole key history
  pinned for that hub: the one pinned at the first look, or the one pinned when the request is let through, and
  in either case one that what is pinned afterwards extends. Steps of others between the first look (\<open>seen\<close>) and
  the fetch are allowed. A request refused before RC1 is asked leaves RC1 as it was.\<close>

theorem peer_request_is_signed:
  assumes "peer_law c" and "pins_proven c seen" and "clock_run (peer_key_step c cf) t0 seen others"
    and "rc1_reachable e start w"
    and "authPeer sn c e free first cf hub wired is_open gate t served served' out q r_floor seen (end_of seen others) (rw_state w) =
       (st', r', res)"
  shows "(\<forall>p body. res = Inr (p, body) \<longrightarrow> (\<exists>a k k'. parseHubAuth sn (pq_headers q) = Inr a \<and>
      peer_of cf (va_aid a) = Some p \<and> is_open \<and> gate (va_aid a) \<and> out = BodyRead body \<and>
      withinMaxSkew c (va_ts a) (pt_headers t) \<and> floorOf e r_floor (va_aid a) < va_ts a \<and> (va_aid a, va_ts a) \<notin> set (rw_log w) \<and>
      peer_signed sn c hub q a k body \<and>
      (pinnedPeerKEL c seen (va_aid a) = Inr k \<or> pinnedPeerKEL c st' (va_aid a) = Inr k) \<and>
      pinnedPeerKEL c st' (va_aid a) = Inr k' \<and> prefix k k')) \<and>
    (\<forall>f. res = Inl f \<longrightarrow> r' = rw_state w \<or> (\<exists>v. f = PeerTime v))"
proof (intro conjI allI impI)
  fix f assume "res = Inl f"
  from authPeer_refused [OF assms(5) [unfolded this]] show "r' = rw_state w \<or> (\<exists>v. f = PeerTime v)" by blast
next
  fix p body assume res: "res = Inr (p, body)"
  from assms(5) [unfolded res] obtain a k where a: "parseHubAuth sn (pq_headers q) = Inr a" "peer_of cf (va_aid a) = Some p" "pr_aid p = va_aid a"
    "is_open" "wired" "gate (va_aid a)" "out = BodyRead body"
    and H: "peerHeaders c e cf t served served' r_floor p a seen (end_of seen others) = (st', Inr k)"
    and S: "peerSignatureFailure c k a (peer_preimage sn hub q a body) = PeerSigned"
    and R: "PeerRC1 e free first (va_aid a) (va_ts a) (pt_accept t) (rw_state w) = (r', None)" by (rule authPeer_Inr)
  have others: "pins_proven c (end_of seen others)" "pins_grow c seen (end_of seen others)"
    using pins.run_ahead [OF assms(3)] assms(1,2) by blast+
  have tbl: "peer_of cf (pr_aid p) = Some p" using a(2,3) by simp
  note H' = peerHeaders_Inr [OF assms(1) H] peerHeaders_grows [OF assms(1) others(1) tbl H]
  have "pins_grow c seen st'" using others(2) H'(4) tbl by (blast intro: pins_grow_trans)
  then obtain k' where "pinnedPeerKEL c st' (va_aid a) = Inr k'" "prefix k k'"
    using H'(3) tbl a(3) by (auto simp: pins_grow_def)
  moreover have "(va_aid a, va_ts a) \<notin> set (rw_log w)"
    using R accepted_is_new [OF assms(4)] by (auto simp: PeerRC1_def split: prod.splits rc1_verdict.splits)
  ultimately show "\<exists>a k k'. parseHubAuth sn (pq_headers q) = Inr a \<and>
      peer_of cf (va_aid a) = Some p \<and> is_open \<and> gate (va_aid a) \<and> out = BodyRead body \<and>
      withinMaxSkew c (va_ts a) (pt_headers t) \<and> floorOf e r_floor (va_aid a) < va_ts a \<and> (va_aid a, va_ts a) \<notin> set (rw_log w) \<and>
      peer_signed sn c hub q a k body \<and>
      (pinnedPeerKEL c seen (va_aid a) = Inr k \<or> pinnedPeerKEL c st' (va_aid a) = Inr k) \<and>
      pinnedPeerKEL c st' (va_aid a) = Inr k' \<and> prefix k k'"
  proof (intro exI conjI)
    show "withinMaxSkew c (va_ts a) (pt_headers t)" "floorOf e r_floor (va_aid a) < va_ts a" using H'(1,2) tbl a(3) by simp_all
    show "pinnedPeerKEL c seen (va_aid a) = Inr k \<or> pinnedPeerKEL c st' (va_aid a) = Inr k" using H'(3) tbl a(3) by simp
  qed (use a peerSignatureFailure_signed [OF S] in blast)+
qed

definition demo_peer_sign :: sign_core where
  "demo_peer_sign = demo_sign\<lparr>DecodeSig := \<lambda>s. Some (replicate 64 (if s = ''good'' then 1 else 2))\<rparr>"

definition demo_peer_request :: "string \<Rightarrow> peer_request" where
  "demo_peer_request sg = \<lparr>pq_headers = (\<lambda>n. if n = ''X-ANet-AID'' then [''alice''] else if n = ''X-ANet-TS'' then [''1000500'']
     else if n = ''X-ANet-Seq'' then [''0''] else if n = ''X-ANet-Sig'' then [sg] else []),
     pq_action = ''fed_forward'', pq_method = ''POST'', pq_uri = ''/fed/v3/forward''\<rparr>"

definition demo_peer_clock :: peer_clock where
  "demo_peer_clock = (let t = 1000600 * ms_ns in
     \<lparr>pt_headers = t, pt_asked = t, pt_locked = t, pt_fetched = t, pt_refresh = t, pt_refreshed = t, pt_accept = t\<rparr>)"

definition demo_door :: "string \<Rightarrow> peer_keys \<times> rc1_state \<times> (peer_refusal + peer \<times> bytes)" where
  "demo_door sg = authPeer demo_peer_sign demo_peer_core demo_rc1 True True demo_fed ''H'' True True (\<lambda>a. True) demo_peer_clock None None
     (BodyRead [1]) (demo_peer_request sg) demo_rc1_state demo_pins demo_pins (rw_state demo_rc1_world)"

definition demo_hub_auth :: "string \<Rightarrow> v2_auth" where
  "demo_hub_auth sg = \<lparr>va_aid = ''alice'', va_ts = 1000500, va_seq = 0, va_sig = replicate 64 (if sg = ''good'' then 1 else 2)\<rparr>"

lemma demo_hub_auth_parsed:
  assumes "sg \<noteq> []"
  shows "parseHubAuth demo_peer_sign (pq_headers (demo_peer_request sg)) = Inr (demo_hub_auth sg)"
proof -
  have "canonical_uint ''1000500'' = Some 1000500" "canonical_uint ''0'' = Some 0"
    by (simp_all add: canonical_uint_Some FormatUint_def format_nat.simps char_of_def bit_iff_odd)
  with assms show ?thesis
    by (simp add: parseHubAuth_def singleHeader_def demo_peer_request_def demo_hub_auth_def demo_peer_sign_def)
qed

lemma demo_peer_accepted: "PeerRC1 demo_rc1 True True ''alice'' 1000500 (1000600 * ms_ns) demo_rc1_state = (r, f) \<Longrightarrow> f = None"
proof -
  have "snd (PeerRC1 demo_rc1 True True ''alice'' 1000500 (1000600 * ms_ns) demo_rc1_state) = None" by code_simp
  then show "PeerRC1 demo_rc1 True True ''alice'' 1000500 (1000600 * ms_ns) demo_rc1_state = (r, f) \<Longrightarrow> f = None" by simp
qed

lemma demo_peer_headers:
  "peerHeaders demo_peer_core demo_rc1 demo_fed demo_peer_clock None None demo_rc1_state
     \<lparr>pr_aid = ''alice'', pr_endpoint = ''https://a''\<rparr> (demo_hub_auth sg) demo_pins demo_pins = (demo_pins, Inr [ev0])"
proof -
  have "withinMaxSkew demo_peer_core 1000500 (1000600 * ms_ns)" by (simp add: withinMaxSkew_def unix_milli_def ms_ns_def)
  moreover have "floorOf demo_rc1 demo_rc1_state ''alice'' < 1000500" by code_simp
  ultimately show ?thesis
    by (simp add: peerHeaders_def demo_peer_clock_def Let_def demo_hub_auth_def peerKEL_def demo_pinned answer_of_def not_le [symmetric])
qed

lemma demo_door_signature:
  "peerSignatureFailure demo_peer_core [ev0] (demo_hub_auth sg) pre = (if sg = ''good'' then PeerSigned else PeerNotSigned)"
  by (simp add: peerSignatureFailure_def verifyPeerSignature_def demo_hub_auth_def ev0_def demo_states_def)

lemma demo_door_answers:
  "snd (snd (demo_door ''good'')) = Inr (\<lparr>pr_aid = ''alice'', pr_endpoint = ''https://a''\<rparr>, [1])"
  "snd (snd (demo_door ''bad'')) = Inl PeerUnauthorized"
proof -
  have named: "singleHeader (pq_headers (demo_peer_request sg)) ''X-ANet-AID'' = Some ''alice''" for sg
    by (simp add: singleHeader_def demo_peer_request_def)
  have peer: "peer_of demo_fed ''alice'' = Some \<lparr>pr_aid = ''alice'', pr_endpoint = ''https://a''\<rparr>"
    by (simp add: peer_of_def demo_fed_def)
  have w: "rw_state demo_rc1_world = demo_rc1_state" by (simp add: demo_rc1_world_def)
  have sel: "va_aid (demo_hub_auth sg) = ''alice''" "va_ts (demo_hub_auth sg) = 1000500" for sg by (simp_all add: demo_hub_auth_def)
  have t: "pt_accept demo_peer_clock = 1000600 * ms_ns" by (simp add: demo_peer_clock_def Let_def)
  obtain r f where "PeerRC1 demo_rc1 True True ''alice'' 1000500 (1000600 * ms_ns) demo_rc1_state = (r, f)" by force
  with demo_peer_accepted have rc1: "PeerRC1 demo_rc1 True True ''alice'' 1000500 (1000600 * ms_ns) demo_rc1_state = (r, None)" by blast
  show "snd (snd (demo_door ''good'')) = Inr (\<lparr>pr_aid = ''alice'', pr_endpoint = ''https://a''\<rparr>, [1])"
    by (simp add: demo_door_def authPeer_def named peer w sel t rc1 demo_hub_auth_parsed demo_peer_headers demo_door_signature)
  show "snd (snd (demo_door ''bad'')) = Inl PeerUnauthorized"
    by (simp add: demo_door_def authPeer_def named peer w sel t demo_hub_auth_parsed demo_peer_headers demo_door_signature)
qed

theorem peer_request_is_signed_witness:
  "snd (snd (demo_door ''good'')) = Inr (\<lparr>pr_aid = ''alice'', pr_endpoint = ''https://a''\<rparr>, [1]) \<and>
   (\<exists>a k. parseHubAuth demo_peer_sign (pq_headers (demo_peer_request ''good'')) = Inr a \<and>
     peer_signed demo_peer_sign demo_peer_core ''H'' (demo_peer_request ''good'') a k [1]) \<and>
   snd (demo_door ''bad'') = (rw_state demo_rc1_world, Inl PeerUnauthorized)"
proof -
  have run: "clock_run (peer_key_step demo_peer_core demo_fed) 0 demo_pins []" by simp
  have law: "authPeer demo_peer_sign demo_peer_core demo_rc1 True True demo_fed ''H'' True True (\<lambda>a. True) demo_peer_clock None None
     (BodyRead [1]) (demo_peer_request sg) demo_rc1_state demo_pins (end_of demo_pins []) (rw_state demo_rc1_world) =
     (fst (demo_door sg), fst (snd (demo_door sg)), snd (snd (demo_door sg)))" for sg
    by (simp add: demo_door_def)
  note P = peer_request_is_signed [OF demo_peer_law demo_pins_proven run demo_rc1_reachable law]
  have good: "snd (snd (demo_door ''good'')) = Inr (\<lparr>pr_aid = ''alice'', pr_endpoint = ''https://a''\<rparr>, [1])" by (rule demo_door_answers)
  moreover have bad: "snd (snd (demo_door ''bad'')) = Inl PeerUnauthorized" by (rule demo_door_answers)
  moreover have "fst (snd (demo_door ''bad'')) = rw_state demo_rc1_world" using P [of "''bad''"] bad by auto
  moreover have "\<exists>a k. parseHubAuth demo_peer_sign (pq_headers (demo_peer_request ''good'')) = Inr a \<and>
     peer_signed demo_peer_sign demo_peer_core ''H'' (demo_peer_request ''good'') a k [1]"
    using P [of "''good''"] good by blast
  ultimately show ?thesis by (simp add: prod_eq_iff)
qed

end
