(* ===== verification/Spec2Isabelle.thy ===== *)
theory Spec2Isabelle
  imports Ledger_Properties Replay_Properties Door_Properties Listing_Properties Mail_Properties Request_Properties Account_Properties Access_Properties Registry_Properties Publication_Properties Federation_Properties
begin

text \<open>
  A model of the hub of ANetHub (\<open>src/internal/aghub\<close> and the hub-to-hub door of \<open>src/internal/federation\<close>), in Go: the service that keeps the registrations,
  mailboxes and credit balances of agents and settles payments between them and with peer hubs.

  \<^bold>\<open>The program.\<close> A hub is one process over an SQLite database, with some state only in its memory. Each
  exported method of \<open>Store\<close> is one transaction under the store's lock, or a query; the HTTP
  handlers of \<open>Server\<close> authenticate a request, apply the process's limits and call one or two of these
  methods. Here a table is an association list with unique keys (or a list of rows in the order of
  their ids), a transaction a function from the old state to an error or the new state, and state that several
  requests share in memory a step relation whose steps are what one of them does under one lock. Times are \<open>int\<close>
  nanoseconds or milliseconds, amounts, counters and signed times that the source keeps in 64 bits are
  \<open>64 word\<close> or \<open>int\<close> with the wrap-around written out.

  \<^bold>\<open>Parameters.\<close> ANetCore is another module: signatures, key histories, content ids, sum trees, envelopes and
  proofs of work are fields of the records \<open>core\<close>, \<open>liab_core\<close>, \<open>seal_core\<close>, \<open>sign_core\<close>, \<open>gate_core\<close> and
  \<open>registry_core\<close>; \<open>rc1_env\<close> holds the seeded hash and the growth of slices. Random draws and clocks are arguments. \<open>Demo\<close> and the property
  theories instantiate all of them by small concrete functions.

  \<^bold>\<open>The theories.\<close>
  \<^item> \<open>Hub_Prelude\<close>: tables, results, clocks, 64-bit arithmetic; the locale \<open>at_most_once\<close> of replay guards and the
    pagination locale, which later theories interpret. \<open>Core_Types\<close>: the objects shared with ANetCore.
  \<^item> \<open>Wire_B64\<close> (\<open>wire3/b64url.go\<close>), \<open>Amount\<close> (\<open>amount.go\<close>).
  \<^item> The ledger: \<open>Ledger\<close>, \<open>Facilitator\<close>, \<open>Settlement\<close> and \<open>Clearing\<close> (\<open>facilitator.go\<close>), \<open>Redemption\<close>
    (\<open>redemption.go\<close>), \<open>Supply_Epochs\<close> (\<open>supply.go\<close>), \<open>Janitor\<close> (\<open>janitor.go\<close>). \<open>Settlement_Laws\<close> is what a settlement
    does on every branch; \<open>Ledger_Machine\<close> every operation as a step, with its invariant: the accounts add up to
    issued minus redeemed, and no account but the hub's is negative; \<open>Ledger_Effects\<close> the entries a step writes and
    the accounts they move, and what changes a peer's debt; \<open>Replay_Guards\<close> interprets
    \<open>at_most_once\<close> on payments, receipts and discharges; \<open>First_Verifies\<close> says when a payment was seen while its
    key was current. Their properties are in \<open>Ledger_Properties\<close>,
    \<open>Replay_Properties\<close>, \<open>Door_Properties\<close> and \<open>Listing_Properties\<close>.
  \<^item> The mail: \<open>Quota\<close> (\<open>quota.go\<close>), \<open>Mailbox\<close> (\<open>relay.go\<close>), \<open>Delivery\<close> and \<open>Delivery_Wire\<close> (\<open>dack.go\<close>), their laws and
    \<open>Mailbox_Machine\<close>, the mailboxes over time; \<open>Mail_Properties\<close>.
  \<^item> Signed requests (\<open>auth2.go\<close>): \<open>Signed_Times\<close> is RC1, the times a signer used, in parts under their own locks,
    with the sweep and the memory valve; \<open>Signed_Times_Laws\<close>, \<open>Signed_Times_Machine\<close>; \<open>Signed_Requests\<close> the headers, the
    signature and \<open>verifyV2\<close>; \<open>Request_Properties\<close>.
  \<^item> Admission (\<open>admission.go\<close>, \<open>admissionGate\<close> of \<open>server.go\<close>): \<open>Admission_Gate\<close> the day's counters, \<open>Admission\<close>
    the tables, \<open>Admission_Laws\<close>; \<open>Account_Properties\<close>.
  \<^item> \<open>Sessions\<close>, \<open>Sessions_Machine\<close> (\<open>session.go\<close>) and \<open>Revocations\<close>, \<open>Revocations_Machine\<close> (\<open>revoke.go\<close>): the two ways
    to send, each against what may run between its steps; \<open>Access_Properties\<close>.
  \<^item> The registry: \<open>Registry\<close> and \<open>Registration\<close> (registrations and profiles of \<open>aghub.go\<close> and \<open>server.go\<close>,
    \<open>kelpush.go\<close>), \<open>Directory\<close> (\<open>directory.go\<close>), \<open>Key_Sets\<close> (\<open>keys.go\<close>), \<open>Notices\<close> (\<open>notice.go\<close>, \<open>restore.go\<close>), \<open>Cards\<close>
    (\<open>a2acard.go\<close>, \<open>a2acard_withdraw.go\<close>), \<open>Fed_Cards\<close> (\<open>fed_a2acard.go\<close>, \<open>fedstream.go\<close>), \<open>Departure\<close> (\<open>deregister.go\<close>,
    revocation and the sweep of \<open>admission.go\<close>). \<open>Registry_Machine\<close> has every operation that writes the registry as a
    step, with the memory and the counter file beside the database. \<open>Registry_Laws\<close>, \<open>Registration_Laws\<close> and
    \<open>Departure_Laws\<close> say what each operation leaves alone, \<open>Witness_Laws\<close> how a key history is held over time,
    \<open>Quarantine_Laws\<close> and \<open>Count_Laws\<close> when a restored hub may speak again, \<open>Key_Set_Laws\<close>, \<open>Stream_Laws\<close> and
    \<open>Stream_Machine\<close> what is published and what a peer that reads the stream of cards ends up with; \<open>Registry_Properties\<close>, \<open>Publication_Properties\<close>.
  \<^item> The federation door (\<open>src/internal/federation\<close>): \<open>Peer_Keys\<close> (\<open>federation.go\<close>, \<open>peerkel.go\<close>) has the peer table and
    the key histories pinned for it, \<open>Peer_Keys_Laws\<close> how a pin moves, \<open>Body_Budget\<close> (\<open>bodybudget.go\<close>) the bytes of bodies
    held at once, \<open>Peer_Requests\<close> (\<open>authpeer.go\<close>) what passes the checks of a signed hub-to-hub request;
    \<open>Federation_Properties\<close>.

  \<^bold>\<open>Fuel.\<close> \<open>trim_recent\<close> has one unit for each kept time (\<open>trim_loop_ends\<close>: enough); the drain of a mailbox and the walk of
  a listing or of the stream of cards one for each row (\<open>poll_and_ack_drains\<close>, \<open>issuance_pages_complete\<close>,
  \<open>card_stream_converges\<close>).

  \<^bold>\<open>Assumptions of the machines.\<close> The hub's own AID is never registered. The generation of the revocation
  cache, a 64-bit counter, does not come round within one lookup. A database error aborts a transaction and is not a
  branch of its own. Runs are over a clock that does not go back (\<open>clock_run\<close>). \<open>kel_law\<close>, \<open>keyset_law\<close> and \<open>peer_law\<close> state
  what the registry and the pins rely on of ANetCore: the encodings read back, and an extension of a key history keeps
  its events.

  \<^bold>\<open>Not modelled.\<close> HTTP routing and JSON, the federation client, files, the operator's pages (\<open>internal/admin\<close>), WAL
  checkpoints and logging: I/O around the operations. A database error between two statements that the source does not
  run in one transaction (\<open>SetVisibility\<close>) is not a branch, and the buffer of one read of a body counts from its
  reservation on. \<open>limits.go\<close> keeps its buckets in floating point. Searches and
  listings of agents, reviews, the witnessing of other hubs' histories and a peer's parts of a directory bucket are
  not modelled; copying and checking a backup file is I/O, what is changed in the copy is \<open>quarantineCopy\<close>.
\<close>

end
